(* ===== verification/Prelude.thy ===== *)
theory Prelude
  imports Main "HOL-Library.Word" "HOL-Library.List_Lexorder"
begin

section \<open>Prelude: errors, results and generic lemmas\<close>

text \<open>
  What every component of the development shares: the error values the code throws
  (class, stable \<open>code\<close> and message), the sum type of a call that may throw, the collections
  of proof rules, and generic facts on lists, options and machine words.
\<close>

named_theorems result_simps \<open>unfolding rules for calls that may throw\<close>
named_theorems unat_simps \<open>reading small words as natural numbers\<close>

subsection \<open>Errors\<close>

text \<open>
  The stable codes: the sixteen of \<open>ERROR_CODES\<close> in \<open>src/protocol.mjs\<close>, and the ones the
  restore and service modules add. A code none of these names is \<open>Other_Code\<close>.
\<close>

datatype code =
    ERR_AUTHENTICATION_REQUIRED
  | ERR_FORBIDDEN
  | ERR_INVALID_RECORD
  | ERR_REQUEST_TOO_LARGE
  | ERR_QUOTA_EXCEEDED
  | ERR_IMMUTABLE_CONFLICT
  | ERR_CURSOR_EXPIRED
  | ERR_INVALID_CURSOR
  | ERR_REVISION_CONFLICT
  | ERR_EPOCH_CHANGED
  | ERR_RATE_LIMITED
  | ERR_UNAVAILABLE
  | ERR_INTERNAL
  | ERR_PAID_TRANSPORT_UNSUPPORTED
  | ERR_IDEMPOTENCY_CONFLICT
  | ERR_EPOCH_EXHAUSTED
  | Other_Code string

datatype err_class = TypeError | RangeError | PlainError

datatype jserr = JsErr (err_class: err_class) (err_code: "code option") (err_msg: string)

type_synonym 'a result = "jserr + 'a"

abbreviation type_error :: "string \<Rightarrow> jserr" where
  "type_error m \<equiv> JsErr TypeError None m"

abbreviation range_error :: "string \<Rightarrow> jserr" where
  "range_error m \<equiv> JsErr RangeError None m"

text \<open>Sequencing of calls that may throw: the first error ends the computation.\<close>

definition andThen :: "'e + 'x \<Rightarrow> ('x \<Rightarrow> 'e + 'y) \<Rightarrow> 'e + 'y" where
  "andThen r f = (case r of Inl e \<Rightarrow> Inl e | Inr x \<Rightarrow> f x)"

definition require :: "bool \<Rightarrow> 'e \<Rightarrow> 'e + unit" where
  "require b e = (if b then Inr () else Inl e)"

lemma andThen_Inl [simp]: "andThen (Inl e) f = Inl e"
  by (simp add: andThen_def)

lemma andThen_Inr [simp]: "andThen (Inr x) f = f x"
  by (simp add: andThen_def)

lemma andThen_eq_Inr [result_simps]:
  "andThen r f = Inr y \<longleftrightarrow> (\<exists>x. r = Inr x \<and> f x = Inr y)"
  by (cases r) (auto simp: andThen_def)

lemma andThen_eq_Inl [result_simps]:
  "andThen r f = Inl e \<longleftrightarrow> r = Inl e \<or> (\<exists>x. r = Inr x \<and> f x = Inl e)"
  by (cases r) (auto simp: andThen_def)

lemma andThen_cong [fundef_cong]:
  "r = r' \<Longrightarrow> (\<And>x. r' = Inr x \<Longrightarrow> f x = f' x) \<Longrightarrow> andThen r f = andThen r' f'"
  by (cases r') (auto simp: andThen_def)

lemma require_eq_Inr [result_simps]: "require b e = Inr u \<longleftrightarrow> b"
  by (simp add: require_def)

lemma require_eq_Inl [result_simps]: "require b e = Inl e' \<longleftrightarrow> \<not> b \<and> e' = e"
  by (auto simp: require_def)

lemma require_True [simp]: "require True e = Inr ()"
  by (simp add: require_def)

lemma require_False [simp]: "require False e = Inl e"
  by (simp add: require_def)

definition is_ok :: "'e + 'a \<Rightarrow> bool" where
  "is_ok r = (case r of Inl _ \<Rightarrow> False | Inr _ \<Rightarrow> True)"

lemma is_ok_simps [simp]: "is_ok (Inr x)" "\<not> is_ok (Inl e)"
  by (simp_all add: is_ok_def)

lemma is_ok_iff: "is_ok r \<longleftrightarrow> (\<exists>x. r = Inr x)"
  by (cases r) simp_all

text \<open>Fallible map over a list, in order, ending at the first error (a loop that throws).\<close>

fun mapM :: "('a \<Rightarrow> 'b result) \<Rightarrow> 'a list \<Rightarrow> 'b list result" where
  "mapM f [] = Inr []"
| "mapM f (x # xs) = andThen (f x) (\<lambda>y. andThen (mapM f xs) (\<lambda>ys. Inr (y # ys)))"

lemma mapM_Inr_iff: "mapM f xs = Inr ys \<longleftrightarrow> list_all2 (\<lambda>x y. f x = Inr y) xs ys"
  by (induction xs arbitrary: ys) (auto simp: result_simps list_all2_Cons1)

lemma mapM_Inr_length: "mapM f xs = Inr ys \<Longrightarrow> length ys = length xs"
  by (auto simp: mapM_Inr_iff dest: list_all2_lengthD)

subsection \<open>Lists\<close>

lemma list_all_take [intro]: "list_all P xs \<Longrightarrow> list_all P (take n xs)"
  by (auto simp: list_all_iff dest: in_set_takeD)

lemma list_all_drop [intro]: "list_all P xs \<Longrightarrow> list_all P (drop n xs)"
  by (auto simp: list_all_iff dest: in_set_dropD)

lemma sum_list_filter_le: "sum_list (map f (filter P xs)) \<le> sum_list (map (f :: 'a \<Rightarrow> nat) xs)"
  by (induction xs) auto

text \<open>A JavaScript \<open>Map\<close>: an association list in insertion order; setting a present key keeps
  its place.\<close>

fun aset :: "'k \<Rightarrow> 'v \<Rightarrow> ('k \<times> 'v) list \<Rightarrow> ('k \<times> 'v) list" where
  "aset k v [] = [(k, v)]"
| "aset k v ((k', v') # m) = (if k = k' then (k, v) # m else (k', v') # aset k v m)"

definition adel :: "'k \<Rightarrow> ('k \<times> 'v) list \<Rightarrow> ('k \<times> 'v) list" where
  "adel k m = filter (\<lambda>p. fst p \<noteq> k) m"

definition agetOr :: "'v \<Rightarrow> 'k \<Rightarrow> ('k \<times> 'v) list \<Rightarrow> 'v" where
  "agetOr d k m = (case map_of m k of None \<Rightarrow> d | Some v \<Rightarrow> v)"

lemma map_of_aset [simp]: "map_of (aset k v m) = (map_of m)(k \<mapsto> v)"
  by (induction k v m rule: aset.induct) auto

lemma map_of_adel [simp]: "map_of (adel k m) = (map_of m)(k := None)"
  by (induction m) (auto simp: adel_def)

lemma keys_aset: "map fst (aset k v m) = (if k \<in> fst ` set m then map fst m else map fst m @ [k])"
  by (induction k v m rule: aset.induct) auto

lemma fst_set_aset [simp]: "fst ` set (aset k v m) = insert k (fst ` set m)"
  by (induction k v m rule: aset.induct) auto

lemma distinct_aset [simp]: "distinct (map fst (aset k v m)) = distinct (map fst m)"
  by (simp add: keys_aset)

lemma distinct_adel [simp]: "distinct (map fst m) \<Longrightarrow> distinct (map fst (adel k m))"
  by (simp add: adel_def distinct_map_filter)

lemma set_adel [simp]: "set (adel k m) = {p \<in> set m. fst p \<noteq> k}"
  by (auto simp: adel_def)

lemma agetOr_aset [simp]: "agetOr d k (aset k' v m) = (if k = k' then v else agetOr d k m)"
  by (simp add: agetOr_def)

lemma aset_fresh: "k \<notin> fst ` set m \<Longrightarrow> aset k v m = m @ [(k, v)]"
  by (induction k v m rule: aset.induct) auto

subsection \<open>Words\<close>

lemma unat_of_nat_8 [unat_simps]: "n < 256 \<Longrightarrow> unat (of_nat n :: 8 word) = n"
  by (simp add: unat_of_nat take_bit_eq_mod)

lemma unat_of_nat_16 [unat_simps]: "n < 65536 \<Longrightarrow> unat (of_nat n :: 16 word) = n"
  by (simp add: unat_of_nat take_bit_eq_mod)

lemma unat_of_nat_32 [unat_simps]: "n < 4294967296 \<Longrightarrow> unat (of_nat n :: 32 word) = n"
  by (simp add: unat_of_nat take_bit_eq_mod)

lemma unat_less_8: "unat (b :: 8 word) < 256"
  using unsigned_less [of b] by simp

lemma unat_less_8_trans [simp]: "256 \<le> n \<Longrightarrow> unat (b :: 8 word) < n"
  using unat_less_8 [of b] by linarith

lemma unat_add_of_nat_8 [unat_simps]:
  "numeral k + n < 256 \<Longrightarrow> unat (numeral k + word_of_nat n :: 8 word) = numeral k + n"
  using unat_of_nat_8 [of "numeral k + n"] by simp

lemma unat_less_16: "unat (b :: 16 word) < 65536"
  using unsigned_less [of b] by simp

lemma unat_less_16_trans [simp]: "65536 \<le> n \<Longrightarrow> unat (b :: 16 word) < n"
  using unat_less_16 [of b] by linarith

lemma unat_add_of_nat_16 [unat_simps]:
  "numeral k + n < 65536 \<Longrightarrow> unat (numeral k + word_of_nat n :: 16 word) = numeral k + n"
  using unat_of_nat_16 [of "numeral k + n"] by simp

lemma unat_less_32: "unat (b :: 32 word) < 4294967296"
  using unsigned_less [of b] by simp

lemma unat_less_32_trans [simp]: "4294967296 \<le> n \<Longrightarrow> unat (b :: 32 word) < n"
  using unat_less_32 [of b] by linarith

lemma unat_add_of_nat_32 [unat_simps]:
  "numeral k + n < 4294967296 \<Longrightarrow> unat (numeral k + word_of_nat n :: 32 word) = numeral k + n"
  using unat_of_nat_32 [of "numeral k + n"] by simp

lemma of_nat_unat_id [simp]: "of_nat (unat w) = (w :: 'a::len word)"
  by simp

end
