(* ===== verification/JsString.thy ===== *)
theory JsString
  imports Prelude
begin

section \<open>JavaScript strings and UTF-8\<close>

text \<open>
  A JavaScript string is a list of 16-bit code units. This theory models what
  \<open>src/canonical.js\<close> uses of them: the UTF-8 encoder (\<open>TextEncoder\<close>), the lone-surrogate
  check \<open>hasInvalidUnicode\<close>, the character classes of its regular expressions, and decimal
  numerals (\<open>BigInt(value)\<close> and \<open>BigInt.toString\<close>). \<open>utf8Decode\<close> is the strict decoder of
  \<open>TextDecoder('utf-8', \{fatal: true\})\<close> before its byte order mark is dropped; it serves here
  as the inverse that shows the encoder injective.
\<close>

type_synonym code_unit = "16 word"
type_synonym jsstr = "16 word list"
type_synonym byte = "8 word"

text \<open>The ASCII literals of the source.\<close>

definition js :: "string \<Rightarrow> jsstr" where
  "js s = map of_char s"

text \<open>An ASCII string as the text of a message.\<close>

definition unjs :: "jsstr \<Rightarrow> string" where
  "unjs s = map (\<lambda>u. char_of (unat u)) s"

definition is_high :: "code_unit \<Rightarrow> bool" where
  "is_high u \<longleftrightarrow> 0xD800 \<le> u \<and> u \<le> 0xDBFF"

definition is_low :: "code_unit \<Rightarrow> bool" where
  "is_low u \<longleftrightarrow> 0xDC00 \<le> u \<and> u \<le> 0xDFFF"

lemma is_high_unat: "is_high u \<longleftrightarrow> 0xD800 \<le> unat u \<and> unat u \<le> 0xDBFF"
  by (simp add: is_high_def word_le_nat_alt)

lemma is_low_unat: "is_low u \<longleftrightarrow> 0xDC00 \<le> unat u \<and> unat u \<le> 0xDFFF"
  by (simp add: is_low_def word_le_nat_alt)

subsection \<open>The encoder\<close>

text \<open>
  The scalar values of a string: a high surrogate followed by a low one is one value, any
  other surrogate is replaced by U+FFFD, as \<open>TextEncoder\<close> does.
\<close>

fun scalars :: "jsstr \<Rightarrow> nat list" where
  "scalars [] = []"
| "scalars [u] = [if is_high u \<or> is_low u then 0xFFFD else unat u]"
| "scalars (u # v # s) =
     (if is_high u \<and> is_low v
      then (0x10000 + (unat u - 0xD800) * 0x400 + (unat v - 0xDC00)) # scalars s
      else (if is_high u \<or> is_low u then 0xFFFD else unat u) # scalars (v # s))"

definition utf8Scalar :: "nat \<Rightarrow> byte list" where
  "utf8Scalar c =
     (if c < 0x80 then [of_nat c]
      else if c < 0x800 then [of_nat (0xC0 + c div 0x40), of_nat (0x80 + c mod 0x40)]
      else if c < 0x10000 then
        [of_nat (0xE0 + c div 0x1000), of_nat (0x80 + c div 0x40 mod 0x40),
         of_nat (0x80 + c mod 0x40)]
      else
        [of_nat (0xF0 + c div 0x40000), of_nat (0x80 + c div 0x1000 mod 0x40),
         of_nat (0x80 + c div 0x40 mod 0x40), of_nat (0x80 + c mod 0x40)])"

definition utf8Bytes :: "jsstr \<Rightarrow> byte list" where
  "utf8Bytes s = concat (map utf8Scalar (scalars s))"

definition utf8ByteLength :: "jsstr \<Rightarrow> nat" where
  "utf8ByteLength s = length (utf8Bytes s)"

text \<open>
  The regular expression \<open>LONE_SURROGATE_RE\<close>: a high surrogate with no low one after it, or a
  low one with no high one before it. The flag says whether the unit before is high.
\<close>

fun loneSurrogate :: "bool \<Rightarrow> jsstr \<Rightarrow> bool" where
  "loneSurrogate prev [] = False"
| "loneSurrogate prev (u # s) =
     (is_high u \<and> \<not> (case s of [] \<Rightarrow> False | v # _ \<Rightarrow> is_low v)
      \<or> is_low u \<and> \<not> prev
      \<or> loneSurrogate (is_high u) s)"

definition hasInvalidUnicode :: "jsstr \<Rightarrow> bool" where
  "hasInvalidUnicode s = loneSurrogate False s"

subsection \<open>The strict decoder\<close>

definition cont :: "byte \<Rightarrow> bool" where
  "cont b \<longleftrightarrow> 0x80 \<le> unat b \<and> unat b < 0xC0"

text \<open>One well-formed UTF-8 sequence at the front (no overlong form, no surrogate, at most
  U+10FFFF), with the bytes after it.\<close>

fun utf8Head :: "byte list \<Rightarrow> (nat \<times> byte list) option" where
  "utf8Head [] = None"
| "utf8Head (a # s) =
     (if unat a < 0x80 then Some (unat a, s)
      else if unat a < 0xE0 then
        (case s of b # s' \<Rightarrow>
           let c = (unat a - 0xC0) * 0x40 + (unat b - 0x80)
           in if 0xC0 \<le> unat a \<and> cont b \<and> 0x80 \<le> c then Some (c, s') else None
         | _ \<Rightarrow> None)
      else if unat a < 0xF0 then
        (case s of b # d # s' \<Rightarrow>
           let c = (unat a - 0xE0) * 0x1000 + (unat b - 0x80) * 0x40 + (unat d - 0x80)
           in if cont b \<and> cont d \<and> 0x800 \<le> c \<and> \<not> (0xD800 \<le> c \<and> c < 0xE000)
              then Some (c, s') else None
         | _ \<Rightarrow> None)
      else
        (case s of b # d # e # s' \<Rightarrow>
           let c = (unat a - 0xF0) * 0x40000 + (unat b - 0x80) * 0x1000
                   + (unat d - 0x80) * 0x40 + (unat e - 0x80)
           in if cont b \<and> cont d \<and> cont e \<and> 0x10000 \<le> c \<and> c < 0x110000
              then Some (c, s') else None
         | _ \<Rightarrow> None))"

lemma utf8Head_length: "utf8Head bs = Some (c, bs') \<Longrightarrow> length bs' < length bs"
  by (cases bs) (auto simp: Let_def split: if_splits list.splits)

function utf8Scalars :: "byte list \<Rightarrow> nat list option" where
  "utf8Scalars bs =
     (if bs = [] then Some []
      else case utf8Head bs of None \<Rightarrow> None
           | Some (c, bs') \<Rightarrow> map_option (Cons c) (utf8Scalars bs'))"
  by pat_completeness auto
termination
  by (relation "measure length") (auto dest: utf8Head_length)

declare utf8Scalars.simps [simp del]

text \<open>The code units of a scalar value (UTF-16).\<close>

definition utf16Scalar :: "nat \<Rightarrow> jsstr" where
  "utf16Scalar c =
     (if c < 0x10000 then [of_nat c]
      else [of_nat (0xD800 + (c - 0x10000) div 0x400), of_nat (0xDC00 + (c - 0x10000) mod 0x400)])"

definition utf8Decode :: "byte list \<Rightarrow> jsstr option" where
  "utf8Decode bs = map_option (\<lambda>cs. concat (map utf16Scalar cs)) (utf8Scalars bs)"

subsection \<open>Encoder and decoder are inverse on well-formed strings\<close>

definition scalar :: "nat \<Rightarrow> bool" where
  "scalar c \<longleftrightarrow> c < 0x110000 \<and> \<not> (0xD800 \<le> c \<and> c < 0xE000)"

lemma scalar_scalars: "c \<in> set (scalars s) \<Longrightarrow> scalar c"
proof (induction s rule: scalars.induct)
  case (3 u v s)
  then show ?case
    using unat_less_16 [of v]
    by (auto simp: scalar_def is_high_unat is_low_unat split: if_splits)
next
  case (2 u)
  then show ?case
    by (auto simp: scalar_def is_high_unat is_low_unat split: if_splits)
qed simp

lemma radix64_3: "c div 0x1000 * 0x1000 + c div 0x40 mod 0x40 * 0x40 + c mod 0x40 = (c :: nat)"
proof -
  have "c div 0x1000 = c div 0x40 div 0x40" by (simp add: div_mult2_eq [symmetric])
  then show ?thesis
    using div_mult_mod_eq [of c "0x40"] div_mult_mod_eq [of "c div 0x40" "0x40"] by linarith
qed

lemma radix64_4:
  "c div 0x40000 * 0x40000 + c div 0x1000 mod 0x40 * 0x1000 + c div 0x40 mod 0x40 * 0x40
   + c mod 0x40 = (c :: nat)"
proof -
  have "c div 0x40000 = c div 0x1000 div 0x40" by (simp add: div_mult2_eq [symmetric])
  then show ?thesis
    using radix64_3 [of c] div_mult_mod_eq [of "c div 0x1000" "0x40"] by linarith
qed

lemma utf8Head_utf8Scalar:
  assumes "scalar c"
  shows "utf8Head (utf8Scalar c @ r) = Some (c, r)"
proof -
  consider "c < 0x80" | "0x80 \<le> c" "c < 0x800" | "0x800 \<le> c" "c < 0x10000" | "0x10000 \<le> c"
    by linarith
  then show ?thesis
  proof cases
    case 1
    then show ?thesis by (simp add: utf8Scalar_def unat_of_nat_8)
  next
    case 2
    then have "c div 0x40 < 0x20" by auto
    moreover have "0xC2 \<le> 0xC0 + c div 0x40" using 2 by auto
    ultimately show ?thesis using 2
      by (simp add: utf8Scalar_def unat_simps cont_def)
  next
    case 3
    then have d: "c div 0x1000 < 0x10" by auto
    have m: "c div 0x40 mod 0x40 < 0x40" "c mod 0x40 < 0x40" by simp_all
    have "c div 0x1000 * 0x1000 + c div 0x40 mod 0x40 * 0x40 + c mod 0x40 = c"
      by (rule radix64_3)
    with 3 d m assms show ?thesis
      by (simp add: utf8Scalar_def unat_simps cont_def scalar_def Let_def)
  next
    case 4
    with assms have d: "c div 0x40000 < 5" by (auto simp: scalar_def)
    have m: "c div 0x1000 mod 0x40 < 0x40" "c div 0x40 mod 0x40 < 0x40" "c mod 0x40 < 0x40"
      by simp_all
    have "c div 0x40000 * 0x40000 + c div 0x1000 mod 0x40 * 0x1000
            + c div 0x40 mod 0x40 * 0x40 + c mod 0x40 = c"
      by (rule radix64_4)
    with 4 d m assms show ?thesis
      by (simp add: utf8Scalar_def unat_simps cont_def scalar_def Let_def)
  qed
qed

lemma utf8Scalar_not_Nil [simp]: "utf8Scalar c \<noteq> []"
  by (simp add: utf8Scalar_def)

lemma utf8Scalars_concat:
  "\<forall>c \<in> set cs. scalar c \<Longrightarrow> utf8Scalars (concat (map utf8Scalar cs)) = Some cs"
proof (induction cs)
  case Nil
  show ?case by (subst utf8Scalars.simps) simp
next
  case (Cons c cs)
  then show ?case
    by (subst utf8Scalars.simps) (simp add: utf8Head_utf8Scalar)
qed

lemma utf16_surrogates:
  assumes "is_high u" and "is_low v"
  shows "utf16Scalar (0x10000 + (unat u - 0xD800) * 0x400 + (unat v - 0xDC00)) = [u, v]"
proof -
  let ?d = "(unat u - 0xD800) * 0x400 + (unat v - 0xDC00)"
  from assms have u: "0xD800 \<le> unat u" "unat u \<le> 0xDBFF" and v: "0xDC00 \<le> unat v" "unat v \<le> 0xDFFF"
    by (simp_all add: is_high_unat is_low_unat)
  then have l: "unat v - 0xDC00 < 0x400" by linarith
  then have q: "?d div 0x400 = unat u - 0xD800" and r: "?d mod 0x400 = unat v - 0xDC00"
    by (simp_all add: add.commute)
  have "of_nat (0xD800 + (unat u - 0xD800)) = u" "of_nat (0xDC00 + (unat v - 0xDC00)) = v"
    using u v by (simp_all del: of_nat_add)
  then show ?thesis
    using q r by (simp add: utf16Scalar_def add.assoc del: of_nat_add of_nat_diff)
qed

lemma utf16_scalars:
  "\<not> loneSurrogate False s \<Longrightarrow> concat (map utf16Scalar (scalars s)) = s"
proof (induction s rule: scalars.induct)
  case (3 u v s)
  show ?case
  proof (cases "is_high u \<and> is_low v")
    case True
    then have "\<not> is_high v" by (auto simp: is_high_unat is_low_unat)
    with 3 True show ?thesis by (simp add: utf16_surrogates)
  next
    case False
    with "3.prems" have ns: "\<not> is_high u" "\<not> is_low u" by auto
    with 3 False show ?thesis by (simp add: utf16Scalar_def)
  qed
qed (auto simp: utf16Scalar_def)

lemma utf8Decode_utf8Bytes:
  "\<not> hasInvalidUnicode s \<Longrightarrow> utf8Decode (utf8Bytes s) = Some s"
  by (simp add: utf8Decode_def utf8Bytes_def hasInvalidUnicode_def utf8Scalars_concat
      scalar_scalars utf16_scalars)

lemma utf8Bytes_inject:
  "\<not> hasInvalidUnicode s \<Longrightarrow> \<not> hasInvalidUnicode t \<Longrightarrow> utf8Bytes s = utf8Bytes t \<Longrightarrow> s = t"
  by (metis option.inject utf8Decode_utf8Bytes)

subsection \<open>Property\<close>

text \<open>Every string the validators accept as well-formed Unicode is recovered from its
  UTF-8 bytes, so two different strings never have the same bytes.\<close>

theorem utf8_roundtrip:
  "\<not> hasInvalidUnicode s \<Longrightarrow> utf8Decode (utf8Bytes s) = Some s"
  by (rule utf8Decode_utf8Bytes)

theorem utf8_roundtrip_witness:
  "utf8Decode (utf8Bytes [0x68, 0xE9, 0xD83D, 0xDE00]) = Some [0x68, 0xE9, 0xD83D, 0xDE00]"
  by (rule utf8_roundtrip) (simp add: hasInvalidUnicode_def is_high_def is_low_def)

end
