(* ===== verification/JsValue.thy ===== *)
theory JsValue
  imports JsString Complex_Main "HOL-Library.Log_Nat"
begin

section \<open>JavaScript values, numbers and decimal numerals\<close>

text \<open>
  The values a validator may be handed, whatever their type: the code checks \<open>typeof\<close> first,
  so its model must see the other types. A number is a double: a finite one is its exact
  rational value (the two zeros are one value, no code here tells them apart). The theory also
  holds \<open>BigInt(s)\<close> and \<open>BigInt.toString\<close> on decimal strings, and rounding of a decimal literal
  to the nearest double, which \<open>JSON.parse\<close> does.
\<close>

datatype jsnum = NaN | PosInf | NegInf | Fin rat

datatype jsval =
    Undefined
  | Null
  | Boolean bool
  | Number jsnum
  | Str jsstr
  | Arr "jsval list"
  | Obj "(jsstr \<times> jsval) list"

abbreviation IntNum :: "int \<Rightarrow> jsval" where
  "IntNum z \<equiv> Number (Fin (of_int z))"

definition isSafeInteger :: "jsval \<Rightarrow> bool" where
  "isSafeInteger v = (case v of Number (Fin q) \<Rightarrow> of_int \<lfloor>q\<rfloor> = q \<and> \<bar>\<lfloor>q\<rfloor>\<bar> \<le> 9007199254740991 | _ \<Rightarrow> False)"

lemma isSafeInteger_IntNum [simp]: "isSafeInteger (IntNum z) \<longleftrightarrow> \<bar>z\<bar> \<le> 9007199254740991"
  by (simp add: isSafeInteger_def)

lemma isSafeIntegerE:
  assumes "isSafeInteger v"
  obtains z where "v = IntNum z" "\<bar>z\<bar> \<le> 9007199254740991"
  using assms by (auto simp: isSafeInteger_def split: jsval.splits jsnum.splits)

definition isStr :: "jsval \<Rightarrow> bool" where
  "isStr v = (case v of Str _ \<Rightarrow> True | _ \<Rightarrow> False)"

lemma isStr_simps [simp]: "isStr (Str s)" "\<not> isStr Undefined" "\<not> isStr Null"
  by (simp_all add: isStr_def)

lemma isStrE: "isStr v \<Longrightarrow> (\<And>s. v = Str s \<Longrightarrow> P) \<Longrightarrow> P"
  by (cases v) (simp_all add: isStr_def)

text \<open>Own property of an object, \<open>undefined\<close> when it is absent; setting one keeps its place.\<close>

definition getProp :: "(jsstr \<times> jsval) list \<Rightarrow> jsstr \<Rightarrow> jsval" where
  "getProp ps k = (case map_of ps k of None \<Rightarrow> Undefined | Some v \<Rightarrow> v)"

fun setProp :: "jsstr \<Rightarrow> jsval \<Rightarrow> (jsstr \<times> jsval) list \<Rightarrow> (jsstr \<times> jsval) list" where
  "setProp k v [] = [(k, v)]"
| "setProp k v ((k', v') # ps) = (if k = k' then (k, v) # ps else (k', v') # setProp k v ps)"

lemma map_of_setProp: "map_of (setProp k v ps) = (map_of ps)(k \<mapsto> v)"
  by (induction k v ps rule: setProp.induct) auto

lemma setProp_fresh: "k \<notin> fst ` set ps \<Longrightarrow> setProp k v ps = ps @ [(k, v)]"
  by (induction k v ps rule: setProp.induct) auto

subsection \<open>Decimal numerals\<close>

definition isDigit :: "code_unit \<Rightarrow> bool" where
  "isDigit u \<longleftrightarrow> 0x30 \<le> u \<and> u \<le> 0x39"

definition digitVal :: "code_unit \<Rightarrow> nat" where
  "digitVal u = unat u - 0x30"

definition digitChar :: "nat \<Rightarrow> code_unit" where
  "digitChar d = of_nat (0x30 + d)"

definition natOfDec :: "jsstr \<Rightarrow> nat" where
  "natOfDec s = foldl (\<lambda>n u. 10 * n + digitVal u) 0 s"

fun decOfNat :: "nat \<Rightarrow> jsstr" where
  "decOfNat n = (if n < 10 then [digitChar n] else decOfNat (n div 10) @ [digitChar (n mod 10)])"

declare decOfNat.simps [simp del]

lemma isDigit_unat: "isDigit u \<longleftrightarrow> 0x30 \<le> unat u \<and> unat u \<le> 0x39"
  by (simp add: isDigit_def word_le_nat_alt)

lemma digitVal_digitChar [simp]: "d < 10 \<Longrightarrow> digitVal (digitChar d) = d"
  by (simp add: digitVal_def digitChar_def unat_of_nat_16 del: of_nat_add)

lemma isDigit_digitChar [simp]: "d < 10 \<Longrightarrow> isDigit (digitChar d)"
  by (simp add: isDigit_unat digitChar_def unat_of_nat_16 del: of_nat_add)

lemma digitChar_digitVal: "isDigit u \<Longrightarrow> digitChar (digitVal u) = u"
  by (simp add: isDigit_unat digitVal_def digitChar_def del: of_nat_add)

lemma digitVal_less: "isDigit u \<Longrightarrow> digitVal u < 10"
  by (auto simp: isDigit_unat digitVal_def)

lemma digitChar_inject: "a < 10 \<Longrightarrow> b < 10 \<Longrightarrow> digitChar a = digitChar b \<longleftrightarrow> a = b"
  by (metis digitVal_digitChar)

lemma natOfDec_Nil [simp]: "natOfDec [] = 0"
  by (simp add: natOfDec_def)

lemma natOfDec_snoc [simp]: "natOfDec (s @ [u]) = 10 * natOfDec s + digitVal u"
  by (simp add: natOfDec_def)

lemma natOfDec_decOfNat [simp]: "natOfDec (decOfNat n) = n"
proof (induction n rule: decOfNat.induct)
  case (1 n)
  show ?case
  proof (cases "n < 10")
    case True
    then show ?thesis using natOfDec_snoc [of "[]" "digitChar n"] by (simp add: decOfNat.simps [of n])
  next
    case False
    with 1 show ?thesis by (simp add: decOfNat.simps [of n])
  qed
qed

lemma decOfNat_inject [simp]: "decOfNat m = decOfNat n \<longleftrightarrow> m = n"
  by (metis natOfDec_decOfNat)

lemma decOfNat_digits: "list_all isDigit (decOfNat n)"
  by (induction n rule: decOfNat.induct) (subst decOfNat.simps, simp)

lemma decOfNat_not_Nil [simp]: "decOfNat n \<noteq> []"
  by (subst decOfNat.simps) simp

text \<open>A numeral with no leading zero: \<open>0\<close>, or digits of which the first is not \<open>0\<close>.\<close>

fun canonicalDec :: "jsstr \<Rightarrow> bool" where
  "canonicalDec [] = False"
| "canonicalDec (u # s) = (isDigit u \<and> list_all isDigit s \<and> (digitVal u = 0 \<longrightarrow> s = []))"

lemma canonicalDec_snoc:
  "s \<noteq> [] \<Longrightarrow> canonicalDec (s @ [u]) \<longleftrightarrow> canonicalDec s \<and> natOfDec s \<noteq> 0 \<and> isDigit u"
proof -
  have pos: "natOfDec (v # t) \<noteq> 0" if "digitVal v \<noteq> 0" for v t
  proof (induction t rule: rev_induct)
    case Nil
    show ?case using that natOfDec_snoc [of "[]" v] by simp
  next
    case (snoc w t)
    then show ?case using natOfDec_snoc [of "v # t" w] by simp
  qed
  assume "s \<noteq> []"
  then obtain v t where "s = v # t" by (cases s) auto
  moreover have "natOfDec [v] = digitVal v" using natOfDec_snoc [of "[]" v] by simp
  ultimately show ?thesis using pos [of v t] by auto
qed

lemma canonicalDec_decOfNat [simp]: "canonicalDec (decOfNat n)"
proof (induction n rule: decOfNat.induct)
  case (1 n)
  then show ?case
    by (cases "n < 10") (simp_all add: decOfNat.simps [of n] canonicalDec_snoc)
qed

lemma decOfNat_natOfDec: "canonicalDec s \<Longrightarrow> decOfNat (natOfDec s) = s"
proof (induction s rule: rev_induct)
  case (snoc u s)
  show ?case
  proof (cases "s = []")
    case True
    with snoc.prems show ?thesis
      using natOfDec_snoc [of "[]" u]
      by (simp add: decOfNat.simps [of "digitVal u"] digitVal_less digitChar_digitVal)
  next
    case False
    with snoc.prems have c: "canonicalDec s" "natOfDec s \<noteq> 0" "isDigit u"
      by (auto simp: canonicalDec_snoc)
    with snoc.IH show ?thesis
      by (subst decOfNat.simps) (simp add: digitVal_less digitChar_digitVal)
  qed
qed simp

lemma length_decOfNat: "0 < k \<Longrightarrow> length (decOfNat n) \<le> k \<longleftrightarrow> n < 10 ^ k"
proof (induction n arbitrary: k rule: decOfNat.induct)
  case (1 n)
  show ?case
  proof (cases "n < 10")
    case True
    moreover have "(10 :: nat) ^ 1 \<le> 10 ^ k" using 1 by (intro power_increasing) auto
    ultimately show ?thesis using 1 by (simp add: decOfNat.simps [of n])
  next
    case False
    show ?thesis
    proof (cases "k = 1")
      case True
      with False show ?thesis by (simp add: decOfNat.simps [of n])
    next
      case k: False
      then obtain j where j: "k = Suc j" "0 < j" using 1 by (cases k) auto
      then show ?thesis using False 1
        by (simp add: decOfNat.simps [of n] div_less_iff_less_mult mult.commute)
    qed
  qed
qed

subsection \<open>Rounding to a double\<close>

text \<open>Round half to even; then the nearest double, with the exponent bounded below by the
  subnormals' \<open>-1074\<close> and overflow to infinity.\<close>

definition roundEven :: "rat \<Rightarrow> int" where
  "roundEven q =
     (let f = \<lfloor>q\<rfloor>; d = q - of_int f
      in if d < 1 / 2 then f else if 1 / 2 < d then f + 1 else if even f then f else f + 1)"

definition pow2 :: "int \<Rightarrow> rat" where
  "pow2 e = (if 0 \<le> e then 2 ^ nat e else 1 / 2 ^ nat (- e))"

definition log2floor :: "rat \<Rightarrow> int" where
  "log2floor q =
     (let (n, d) = quotient_of q; k = int (floorlog 2 (nat n)) - int (floorlog 2 (nat d))
      in if pow2 k \<le> q then k else k - 1)"

definition toDouble :: "rat \<Rightarrow> jsnum" where
  "toDouble q =
     (if q = 0 then Fin 0
      else let e = max (log2floor \<bar>q\<bar> - 52) (- 1074);
               r = of_int (roundEven (\<bar>q\<bar> / pow2 e)) * pow2 e
           in if pow2 1024 \<le> r then (if q < 0 then NegInf else PosInf)
              else Fin (if q < 0 then - r else r))"

lemma pow2_neg: "e \<le> 0 \<Longrightarrow> 1 / pow2 e = 2 ^ nat (- e)"
  by (cases "e = 0") (auto simp: pow2_def)

lemma roundEven_of_int [simp]: "roundEven (of_int z) = z"
  by (simp add: roundEven_def Let_def)

lemma quotient_of_of_nat: "quotient_of (rat_of_nat n) = (int n, 1)"
  using quotient_of_int [of "int n"] by simp

lemma log2floor_of_nat:
  assumes "0 < n" "n < 2 ^ k"
  shows "log2floor (rat_of_nat n) < int k"
proof -
  have "floorlog 2 n \<le> k" using assms by (intro floorlog_leI) auto
  moreover have "floorlog 2 (Suc 0) = 1" by (simp add: floorlog_def)
  ultimately show ?thesis by (simp add: log2floor_def quotient_of_of_nat Let_def)
qed

lemma toDouble_of_int: "\<bar>z\<bar> \<le> 9007199254740991 \<Longrightarrow> toDouble (of_int z) = Fin (of_int z)"
proof (cases "z = 0")
  case False
  assume z: "\<bar>z\<bar> \<le> 9007199254740991"
  define n where "n = nat \<bar>z\<bar>"
  have a: "\<bar>rat_of_int z\<bar> = rat_of_nat n" by (simp add: n_def)
  define e where "e = max (log2floor (rat_of_nat n) - 52) (- 1074)"
  have "log2floor (rat_of_nat n) < int 53"
    using z False by (intro log2floor_of_nat) (simp_all add: n_def)
  then have e: "e \<le> 0" by (simp add: e_def)
  then have p: "rat_of_nat n / pow2 e = of_int (int n * 2 ^ nat (- e))"
    using pow2_neg [OF e] by (metis of_int_mult of_int_numeral of_int_of_nat_eq of_int_power times_divide_eq_right mult.right_neutral)
  have nz: "pow2 e \<noteq> 0" by (simp add: pow2_def)
  have r: "of_int (roundEven (rat_of_nat n / pow2 e)) * pow2 e = rat_of_nat n"
    unfolding p roundEven_of_int using nz p by (simp add: field_simps)
  have "rat_of_nat n < 2 ^ 53" using z by (simp add: n_def)
  also have "(2 :: rat) ^ 53 \<le> 2 ^ 1024" by (rule power_increasing) simp_all
  finally have "\<not> pow2 1024 \<le> rat_of_nat n" by (simp add: pow2_def)
  moreover have "(if z < 0 then - rat_of_nat n else rat_of_nat n) = of_int z"
    by (simp add: n_def)
  ultimately show ?thesis using False
    unfolding toDouble_def a Let_def e_def [symmetric] r by auto
qed (simp add: toDouble_def)

end
