(* ===== verification/Validators.thy ===== *)
theory Validators
  imports JsValue
begin

section \<open>Field validators\<close>

text \<open>
  The scalar validators of \<open>src/canonical.js\<close> and \<open>src/protocol.mjs\<close>: their regular
  expressions as predicates on code units, the length and character rules of message boxes and
  message ids, uint64 decimal strings and their order. Every validator takes an arbitrary
  value, as the code does.
\<close>

subsection \<open>Character classes\<close>

definition isLowerHex :: "code_unit \<Rightarrow> bool" where
  "isLowerHex u \<longleftrightarrow> isDigit u \<or> 0x61 \<le> u \<and> u \<le> 0x66"

definition isAlnum :: "code_unit \<Rightarrow> bool" where
  "isAlnum u \<longleftrightarrow> isDigit u \<or> 0x41 \<le> u \<and> u \<le> 0x5A \<or> 0x61 \<le> u \<and> u \<le> 0x7A"

definition isControl :: "code_unit \<Rightarrow> bool" where
  "isControl u \<longleftrightarrow> u \<le> 0x1F \<or> u = 0x7F"

text \<open>The code units \<open>String.prototype.trim\<close> removes: white space and line terminators.\<close>

definition isTrimmed :: "code_unit \<Rightarrow> bool" where
  "isTrimmed u \<longleftrightarrow> 0x09 \<le> u \<and> u \<le> 0x0D \<or> u = 0x20 \<or> u = 0xA0 \<or> u = 0x1680
     \<or> 0x2000 \<le> u \<and> u \<le> 0x200A \<or> u = 0x2028 \<or> u = 0x2029 \<or> u = 0x202F \<or> u = 0x205F
     \<or> u = 0x3000 \<or> u = 0xFEFF"

subsection \<open>Regular expressions\<close>

text \<open>\<open>IDENTITY_KEY_RE\<close>, \<open>HEX64_RE\<close>, \<open>EPOCH_RE\<close>, \<open>IDEMPOTENCY_RE\<close>, \<open>UINT64_DECIMAL_RE\<close>.\<close>

definition identityKeyRe :: "jsstr \<Rightarrow> bool" where
  "identityKeyRe s = (case s of
       a # b # t \<Rightarrow> a = 0x30 \<and> (b = 0x32 \<or> b = 0x33) \<and> length t = 64 \<and> list_all isLowerHex t
     | _ \<Rightarrow> False)"

definition hex64Re :: "jsstr \<Rightarrow> bool" where
  "hex64Re s \<longleftrightarrow> length s = 64 \<and> list_all isLowerHex s"

definition epochRe :: "jsstr \<Rightarrow> bool" where
  "epochRe s \<longleftrightarrow> 1 \<le> length s \<and> length s \<le> 128
     \<and> list_all (\<lambda>u. isAlnum u \<or> u = 0x3A \<or> u = 0x5F \<or> u = 0x2D) s"

definition idempotencyRe :: "jsstr \<Rightarrow> bool" where
  "idempotencyRe s \<longleftrightarrow> 1 \<le> length s \<and> length s \<le> 128
     \<and> list_all (\<lambda>u. isAlnum u \<or> u = 0x5F \<or> u = 0x2D) s"

definition uint64DecimalRe :: "jsstr \<Rightarrow> bool" where
  "uint64DecimalRe s \<longleftrightarrow> s = js ''0'' \<or>
     (case s of u # t \<Rightarrow> isDigit u \<and> u \<noteq> 0x30 \<and> list_all isDigit t \<and> length t \<le> 19 | [] \<Rightarrow> False)"

definition MAX_UINT64 :: nat where
  "MAX_UINT64 = 18446744073709551615"

lemma less_2_64: "n < 2 ^ 64 \<longleftrightarrow> n \<le> MAX_UINT64"
  using less_Suc_eq_le [of n MAX_UINT64] by (simp add: MAX_UINT64_def)

definition isIdentityKey :: "jsval \<Rightarrow> bool" where
  "isIdentityKey v = (case v of Str s \<Rightarrow> identityKeyRe s | _ \<Rightarrow> False)"

definition isRecordKey :: "jsval \<Rightarrow> bool" where
  "isRecordKey v = (case v of Str s \<Rightarrow> hex64Re s | _ \<Rightarrow> False)"

definition isBodyHash :: "jsval \<Rightarrow> bool" where
  "isBodyHash v = (case v of Str s \<Rightarrow> hex64Re s | _ \<Rightarrow> False)"

definition isUint64DecimalString :: "jsval \<Rightarrow> bool" where
  "isUint64DecimalString v =
     (case v of Str s \<Rightarrow> uint64DecimalRe s \<and> natOfDec s \<le> MAX_UINT64 | _ \<Rightarrow> False)"

lemma uint64DecimalRe_canonicalDec: "uint64DecimalRe s \<longleftrightarrow> canonicalDec s \<and> length s \<le> 20"
proof (cases s)
  case (Cons u t)
  have "u = 0x30 \<longleftrightarrow> isDigit u \<and> digitVal u = 0"
    by (auto simp: isDigit_unat digitVal_def word_unat_eq_iff)
  with Cons show ?thesis
    by (auto simp: uint64DecimalRe_def js_def)
qed (simp add: uint64DecimalRe_def js_def)

text \<open>The code's check accepts exactly the decimal spellings of the 64-bit values.\<close>

lemma isUint64DecimalString_Str:
  "isUint64DecimalString (Str s) \<longleftrightarrow> (\<exists>n \<le> MAX_UINT64. s = decOfNat n)"
proof
  assume "isUint64DecimalString (Str s)"
  then have "canonicalDec s" "natOfDec s \<le> MAX_UINT64"
    by (simp_all add: isUint64DecimalString_def uint64DecimalRe_canonicalDec)
  then show "\<exists>n \<le> MAX_UINT64. s = decOfNat n"
    by (metis decOfNat_natOfDec)
next
  assume "\<exists>n \<le> MAX_UINT64. s = decOfNat n"
  then obtain n where n: "n \<le> MAX_UINT64" "s = decOfNat n" by blast
  then have "length s \<le> 20" by (simp add: length_decOfNat MAX_UINT64_def)
  with n show "isUint64DecimalString (Str s)"
    by (simp add: isUint64DecimalString_def uint64DecimalRe_canonicalDec)
qed

lemma isUint64_decOfNat [simp]: "isUint64DecimalString (Str (decOfNat n)) \<longleftrightarrow> n \<le> MAX_UINT64"
  by (auto simp: isUint64DecimalString_Str)

lemma isUint64E:
  assumes "isUint64DecimalString v"
  obtains n where "v = Str (decOfNat n)" "n \<le> MAX_UINT64"
  using assms isUint64DecimalString_Str
  by (cases v) (auto simp: isUint64DecimalString_def)

subsection \<open>Validators that throw\<close>

definition validateEpoch :: "jsval \<Rightarrow> jsstr result" where
  "validateEpoch v = (case v of
       Str s \<Rightarrow> if epochRe s then Inr s else Inl (type_error ''epoch must be 1..128 [A-Za-z0-9:_-] chars'')
     | _ \<Rightarrow> Inl (type_error ''epoch must be 1..128 [A-Za-z0-9:_-] chars''))"

definition validateIdempotencyKey :: "jsval \<Rightarrow> jsstr result" where
  "validateIdempotencyKey v = (case v of
       Str s \<Rightarrow> if idempotencyRe s then Inr s
                else Inl (type_error ''idempotencyKey must be 1..128 [A-Za-z0-9_-] chars'')
     | _ \<Rightarrow> Inl (type_error ''idempotencyKey must be 1..128 [A-Za-z0-9_-] chars''))"

definition validateChangeSequence :: "jsval \<Rightarrow> string \<Rightarrow> jsstr result" where
  "validateChangeSequence v name = (case v of
       Str s \<Rightarrow> if isUint64DecimalString (Str s) then Inr s
                else Inl (type_error (name @ '' must be a uint64 decimal string''))
     | _ \<Rightarrow> Inl (type_error (name @ '' must be a uint64 decimal string'')))"

definition compareUint64Decimal :: "jsval \<Rightarrow> jsval \<Rightarrow> int result" where
  "compareUint64Decimal a b =
     andThen (validateChangeSequence a ''a'') (\<lambda>a.
     andThen (validateChangeSequence b ''b'') (\<lambda>b.
       let x = natOfDec a; y = natOfDec b
       in Inr (if x < y then - 1 else if y < x then 1 else 0)))"

lemma validateChangeSequence_decOfNat [simp]:
  "validateChangeSequence (Str (decOfNat n)) name =
     (if n \<le> MAX_UINT64 then Inr (decOfNat n)
      else Inl (type_error (name @ '' must be a uint64 decimal string'')))"
  by (simp add: validateChangeSequence_def)

lemma validateChangeSequence_Inr [result_simps]:
  "validateChangeSequence v name = Inr s \<longleftrightarrow> (\<exists>n \<le> MAX_UINT64. v = Str (decOfNat n) \<and> s = decOfNat n)"
  by (auto simp: validateChangeSequence_def isUint64DecimalString_Str
      split: jsval.splits if_splits)

text \<open>The order on sequence strings is the numeric order, not the string order.\<close>

lemma compareUint64_decOfNat:
  "m \<le> MAX_UINT64 \<Longrightarrow> n \<le> MAX_UINT64 \<Longrightarrow>
   compareUint64Decimal (Str (decOfNat m)) (Str (decOfNat n)) =
     Inr (if m < n then - 1 else if n < m then 1 else 0)"
  by (simp add: compareUint64Decimal_def Let_def)

lemma compareUint64_error:
  "compareUint64Decimal a b = Inl e \<Longrightarrow> err_class e = TypeError \<and> err_code e = None"
  by (auto simp: compareUint64Decimal_def validateChangeSequence_def result_simps Let_def
      split: jsval.splits if_splits)

definition assertExactString :: "jsval \<Rightarrow> nat \<Rightarrow> nat \<Rightarrow> string \<Rightarrow> jsstr result" where
  "assertExactString v mn mx name = (case v of
       Str s \<Rightarrow>
         if hasInvalidUnicode s then Inl (type_error (name @ '' contains invalid Unicode''))
         else if length s < mn \<or> mx < length s then
           Inl (type_error (name @ '' must be '' @ unjs (decOfNat mn) @ ''..''
                            @ unjs (decOfNat mx) @ '' chars''))
         else if list_ex isControl s then Inl (type_error (name @ '' contains control characters''))
         else if list_all isTrimmed s then Inl (type_error (name @ '' must not be blank''))
         else Inr s
     | _ \<Rightarrow> Inl (type_error (name @ '' must be a string'')))"

definition validateMessageBox :: "jsval \<Rightarrow> jsstr result" where
  "validateMessageBox v = assertExactString v 1 128 ''messageBox''"

definition validateMessageId :: "jsval \<Rightarrow> jsstr result" where
  "validateMessageId v = assertExactString v 1 256 ''messageId''"

definition validateDirection :: "jsval \<Rightarrow> jsstr result" where
  "validateDirection v =
     (if v = Str (js ''inbound'') then Inr (js ''inbound'')
      else if v = Str (js ''outbound'') then Inr (js ''outbound'')
      else Inl (type_error ''direction must be inbound or outbound''))"

lemma assertExactString_Inr [result_simps]:
  "assertExactString v mn mx name = Inr s \<longleftrightarrow>
     v = Str s \<and> \<not> hasInvalidUnicode s \<and> mn \<le> length s \<and> length s \<le> mx
     \<and> \<not> list_ex isControl s \<and> \<not> list_all isTrimmed s"
  by (auto simp: assertExactString_def split: jsval.splits if_splits)

lemma validateDirection_Inr [result_simps]:
  "validateDirection v = Inr d \<longleftrightarrow> v = Str d \<and> (d = js ''inbound'' \<or> d = js ''outbound'')"
  by (auto simp: validateDirection_def)

lemma validateEpoch_Inr [result_simps]: "validateEpoch v = Inr s \<longleftrightarrow> v = Str s \<and> epochRe s"
  by (auto simp: validateEpoch_def split: jsval.splits if_splits)

lemma validateIdempotencyKey_Inr [result_simps]:
  "validateIdempotencyKey v = Inr s \<longleftrightarrow> v = Str s \<and> idempotencyRe s"
  by (auto simp: validateIdempotencyKey_def split: jsval.splits if_splits)

lemma validators_TypeError:
  "assertExactString v mn mx name = Inl e \<Longrightarrow> err_class e = TypeError"
  "validateDirection v = Inl e \<Longrightarrow> err_class e = TypeError"
  "validateEpoch v = Inl e \<Longrightarrow> err_class e = TypeError"
  "validateIdempotencyKey v = Inl e \<Longrightarrow> err_class e = TypeError"
  "validateChangeSequence v name = Inl e \<Longrightarrow> err_class e = TypeError"
  by (auto simp: assertExactString_def validateDirection_def validateEpoch_def
      validateIdempotencyKey_def validateChangeSequence_def split: jsval.splits if_splits)

subsection \<open>ASCII fields have no surrogates\<close>

lemma loneSurrogate_ascii: "list_all (\<lambda>u. u < 0x80) s \<Longrightarrow> \<not> loneSurrogate b s"
proof (induction s arbitrary: b)
  case (Cons u s)
  then have "unat u < 0x80" by (simp add: word_less_nat_alt)
  with Cons show ?case by (simp add: is_high_unat is_low_unat)
qed simp

lemma hasInvalidUnicode_ascii: "list_all (\<lambda>u. u < 0x80) s \<Longrightarrow> \<not> hasInvalidUnicode s"
  by (simp add: hasInvalidUnicode_def loneSurrogate_ascii)

lemma isLowerHex_ascii: "isLowerHex u \<Longrightarrow> u < 0x80"
  by (auto simp: isLowerHex_def isDigit_def word_le_nat_alt word_less_nat_alt)

lemma isAlnum_ascii: "isAlnum u \<Longrightarrow> u < 0x80"
  by (auto simp: isAlnum_def isDigit_def word_le_nat_alt word_less_nat_alt)

lemma identityKeyRe_ascii: "identityKeyRe s \<Longrightarrow> list_all (\<lambda>u. u < 0x80) s"
  by (auto simp: identityKeyRe_def list_all_iff isLowerHex_ascii split: list.splits)

lemma isIdentityKey_valid: "isIdentityKey (Str s) \<Longrightarrow> \<not> hasInvalidUnicode s"
  by (simp add: isIdentityKey_def identityKeyRe_ascii hasInvalidUnicode_ascii)

lemma identityKeyRe_length: "identityKeyRe s \<Longrightarrow> length s = 66"
  by (auto simp: identityKeyRe_def split: list.splits)

subsection \<open>Property\<close>

text \<open>The uint64 check accepts a value exactly when it is the canonical decimal spelling of
  a number below \<open>2 ^ 64\<close>, and \<open>compareUint64Decimal\<close> orders such strings by their numbers.\<close>

theorem uint64_strings:
  "(isUint64DecimalString v \<longleftrightarrow> v \<in> (\<lambda>n. Str (decOfNat n)) ` {n. n < 2 ^ 64}) \<and>
   compareUint64Decimal (Str (decOfNat m)) (Str (decOfNat n)) =
     (if m < 2 ^ 64 then if n < 2 ^ 64 then Inr (if m < n then - 1 else if n < m then 1 else 0)
        else Inl (type_error ''b must be a uint64 decimal string'')
      else Inl (type_error ''a must be a uint64 decimal string''))"
proof
  show "isUint64DecimalString v \<longleftrightarrow> v \<in> (\<lambda>n. Str (decOfNat n)) ` {n. n < 2 ^ 64}"
    by (auto simp: less_2_64 simp del: power_numeral elim!: isUint64E)
  show "compareUint64Decimal (Str (decOfNat m)) (Str (decOfNat n)) =
     (if m < 2 ^ 64 then if n < 2 ^ 64 then Inr (if m < n then - 1 else if n < m then 1 else 0)
        else Inl (type_error ''b must be a uint64 decimal string'')
      else Inl (type_error ''a must be a uint64 decimal string''))"
    unfolding less_2_64 by (simp add: compareUint64Decimal_def Let_def)
qed

end
