(* ===== verification/Sha256.thy ===== *)
theory Sha256
  imports JsString
begin

section \<open>SHA-256\<close>

text \<open>
  The synchronous SHA-256 of \<open>src/canonical.js\<close> (\<open>rotr\<close>, \<open>sha256Bytes\<close>, \<open>sha256Hex\<close>), kept as the
  code has it: one padded buffer, a message schedule filled by index, eight chaining values. A
  \<open>Uint32Array\<close> element and a bitwise operation on numbers are a \<open>32 word\<close>. The specification
  \<open>fips256\<close> is written from the text of FIPS 180-4 (recursive schedule, least padding), and the
  two are shown equal for every buffer whose length the code's 32-bit shifts can handle.
\<close>

unbundle bit_operations_syntax

type_synonym u32 = "32 word"

text \<open>The table \<open>K\<close>, its hexadecimal entries written in decimal.\<close>

definition K256 :: "u32 list" where
  "K256 = [
    1116352408, 1899447441, 3049323471, 3921009573, 961987163, 1508970993, 2453635748, 2870763221,
    3624381080, 310598401, 607225278, 1426881987, 1925078388, 2162078206, 2614888103, 3248222580,
    3835390401, 4022224774, 264347078, 604807628, 770255983, 1249150122, 1555081692, 1996064986,
    2554220882, 2821834349, 2952996808, 3210313671, 3336571891, 3584528711, 113926993, 338241895,
    666307205, 773529912, 1294757372, 1396182291, 1695183700, 1986661051, 2177026350, 2456956037,
    2730485921, 2820302411, 3259730800, 3345764771, 3516065817, 3600352804, 4094571909, 275423344,
    430227734, 506948616, 659060556, 883997877, 958139571, 1322822218, 1537002063, 1747873779,
    1955562222, 2024104815, 2227730452, 2361852424, 2428436474, 2756734187, 3204031479, 3329325298]"

definition rotr :: "u32 \<Rightarrow> nat \<Rightarrow> u32" where
  "rotr x n = drop_bit n x OR push_bit (32 - n) x"

text \<open>\<open>ToInt32\<close>, and the length of the padded buffer with the code's 32-bit shifts.\<close>

definition toInt32 :: "int \<Rightarrow> int" where
  "toInt32 x = (x + 2 ^ 31) mod 2 ^ 32 - 2 ^ 31"

definition paddedLen :: "nat \<Rightarrow> int" where
  "paddedLen n = toInt32 (toInt32 (toInt32 (int n + 8) div 64 + 1) * 64)"

text \<open>\<open>setUint32(_, v, false)\<close>: four bytes, the most significant first.\<close>

definition beBytes32 :: "u32 \<Rightarrow> byte list" where
  "beBytes32 v = [ucast (drop_bit 24 v), ucast (drop_bit 16 v), ucast (drop_bit 8 v), ucast v]"

definition beWord32 :: "byte list \<Rightarrow> nat \<Rightarrow> u32" where
  "beWord32 bs i = push_bit 24 (ucast (bs ! i)) OR push_bit 16 (ucast (bs ! (i + 1)))
                   OR push_bit 8 (ucast (bs ! (i + 2))) OR ucast (bs ! (i + 3))"

text \<open>The padded buffer: the data, the byte \<open>0x80\<close>, zeros, and the bit length in the last eight
  bytes.\<close>

definition sha256Pad :: "byte list \<Rightarrow> byte list" where
  "sha256Pad data =
     (let bitLen = length data * 8;
          n = nat (paddedLen (length data))
      in data @ 0x80 # replicate (n - 8 - Suc (length data)) 0
         @ beBytes32 (of_nat (bitLen div 2 ^ 32)) @ beBytes32 (of_nat bitLen))"

text \<open>\<open>w[i]\<close> for \<open>i\<close> from 16: each entry is appended after the ones it is computed from.\<close>

definition nextW :: "u32 list \<Rightarrow> u32" where
  "nextW w =
     (let i = length w;
          s0 = rotr (w ! (i - 15)) 7 XOR rotr (w ! (i - 15)) 18 XOR drop_bit 3 (w ! (i - 15));
          s1 = rotr (w ! (i - 2)) 17 XOR rotr (w ! (i - 2)) 19 XOR drop_bit 10 (w ! (i - 2))
      in w ! (i - 16) + s0 + w ! (i - 7) + s1)"

fun extendW :: "nat \<Rightarrow> u32 list \<Rightarrow> u32 list" where
  "extendW 0 w = w"
| "extendW (Suc n) w = extendW n (w @ [nextW w])"

definition scheduleW :: "byte list \<Rightarrow> nat \<Rightarrow> u32 list" where
  "scheduleW padded off = extendW 48 (map (\<lambda>i. beWord32 padded (off + i * 4)) [0..<16])"

type_synonym chain = "u32 \<times> u32 \<times> u32 \<times> u32 \<times> u32 \<times> u32 \<times> u32 \<times> u32"

fun sha256Round :: "chain \<Rightarrow> u32 \<times> u32 \<Rightarrow> chain" where
  "sha256Round (a, b, c, d, e, f, g, h) (k, w) =
     (let S1 = rotr e 6 XOR rotr e 11 XOR rotr e 25;
          ch = (e AND f) XOR (NOT e AND g);
          t1 = h + S1 + ch + k + w;
          S0 = rotr a 2 XOR rotr a 13 XOR rotr a 22;
          maj = (a AND b) XOR (a AND c) XOR (b AND c);
          t2 = S0 + maj
      in (t1 + t2, a, b, c, d + t1, e, f, g))"

fun addChain :: "chain \<Rightarrow> chain \<Rightarrow> chain" where
  "addChain (h0, h1, h2, h3, h4, h5, h6, h7) (a, b, c, d, e, f, g, h) =
     (h0 + a, h1 + b, h2 + c, h3 + d, h4 + e, h5 + f, h6 + g, h7 + h)"

definition sha256Block :: "byte list \<Rightarrow> chain \<Rightarrow> nat \<Rightarrow> chain" where
  "sha256Block padded hs off =
     addChain hs (foldl sha256Round hs (zip K256 (scheduleW padded off)))"

definition initialChain :: chain where
  "initialChain = (0x6a09e667, 0xbb67ae85, 0x3c6ef372, 0xa54ff53a,
                   0x510e527f, 0x9b05688c, 0x1f83d9ab, 0x5be0cd19)"

fun chainBytes :: "chain \<Rightarrow> byte list" where
  "chainBytes (h0, h1, h2, h3, h4, h5, h6, h7) =
     concat (map beBytes32 [h0, h1, h2, h3, h4, h5, h6, h7])"

text \<open>The outer loop: \<open>off = 0, 64, \<dots>\<close> while \<open>off < paddedLen\<close>.\<close>

definition sha256Bytes :: "byte list \<Rightarrow> byte list" where
  "sha256Bytes data =
     (let padded = sha256Pad data;
          n = nat (paddedLen (length data))
      in chainBytes (foldl (sha256Block padded) initialChain (map (\<lambda>k. k * 64) [0..<n div 64])))"

definition hexDigit :: "nat \<Rightarrow> code_unit" where
  "hexDigit d = js ''0123456789abcdef'' ! d"

definition hexOfBytes :: "byte list \<Rightarrow> jsstr" where
  "hexOfBytes bs = concat (map (\<lambda>b. [hexDigit (unat b div 16), hexDigit (unat b mod 16)]) bs)"

definition sha256Hex :: "byte list \<Rightarrow> jsstr" where
  "sha256Hex data = hexOfBytes (sha256Bytes data)"

subsection \<open>FIPS 180-4\<close>

definition bigSigma0 :: "u32 \<Rightarrow> u32" where
  "bigSigma0 x = word_rotr 2 x XOR word_rotr 13 x XOR word_rotr 22 x"

definition bigSigma1 :: "u32 \<Rightarrow> u32" where
  "bigSigma1 x = word_rotr 6 x XOR word_rotr 11 x XOR word_rotr 25 x"

definition smallSigma0 :: "u32 \<Rightarrow> u32" where
  "smallSigma0 x = word_rotr 7 x XOR word_rotr 18 x XOR drop_bit 3 x"

definition smallSigma1 :: "u32 \<Rightarrow> u32" where
  "smallSigma1 x = word_rotr 17 x XOR word_rotr 19 x XOR drop_bit 10 x"

definition Ch :: "u32 \<Rightarrow> u32 \<Rightarrow> u32 \<Rightarrow> u32" where
  "Ch x y z = (x AND y) XOR (NOT x AND z)"

definition Maj :: "u32 \<Rightarrow> u32 \<Rightarrow> u32 \<Rightarrow> u32" where
  "Maj x y z = (x AND y) XOR (x AND z) XOR (y AND z)"

text \<open>The message schedule of a 64-byte block, by recursion on the index.\<close>

fun fipsW :: "byte list \<Rightarrow> nat \<Rightarrow> u32" where
  "fipsW m t =
     (if t < 16 then beWord32 m (t * 4)
      else smallSigma1 (fipsW m (t - 2)) + fipsW m (t - 7) + smallSigma0 (fipsW m (t - 15))
           + fipsW m (t - 16))"

declare fipsW.simps [simp del]

fun fipsRound :: "byte list \<Rightarrow> nat \<Rightarrow> chain \<Rightarrow> chain" where
  "fipsRound m t (a, b, c, d, e, f, g, h) =
     (let T1 = h + bigSigma1 e + Ch e f g + K256 ! t + fipsW m t;
          T2 = bigSigma0 a + Maj a b c
      in (T1 + T2, a, b, c, d + T1, e, f, g))"

definition fipsBlock :: "chain \<Rightarrow> byte list \<Rightarrow> chain" where
  "fipsBlock hs m = addChain hs (fold (fipsRound m) [0..<64] hs)"

function fipsBlocks :: "chain \<Rightarrow> byte list \<Rightarrow> chain" where
  "fipsBlocks hs bs =
     (if length bs < 64 then hs else fipsBlocks (fipsBlock hs (take 64 bs)) (drop 64 bs))"
  by pat_completeness auto
termination
  by (relation "measure (\<lambda>(hs, bs). length bs)") auto

declare fipsBlocks.simps [simp del]

text \<open>
  The zero bytes: the least count that makes the message with its \<open>0x80\<close> byte and zeros end
  eight bytes before a block boundary.
\<close>

definition fipsZeros :: "nat \<Rightarrow> nat" where
  "fipsZeros n = (119 - n mod 64) mod 64"

lemma div64: "r < 64 \<Longrightarrow> (64 * q + r) div 64 = (q :: nat)"
  by simp

lemma mod64: "r < 64 \<Longrightarrow> (64 * q + r) mod 64 = (r :: nat)"
  by simp

lemma fipsZeros_cases:
  obtains (fits) q r where "n = 64 * q + r" "r \<le> 55" "fipsZeros n = 55 - r" "(n + 8) div 64 = q"
  | (spills) q r where "n = 64 * q + r" "55 < r" "r < 64" "fipsZeros n = 119 - r"
      "(n + 8) div 64 = q + 1"
proof -
  define q r where "q = n div 64" and "r = n mod 64"
  then have n: "n = 64 * q + r" and r: "r < 64" by simp_all
  have z: "fipsZeros n = (119 - r) mod 64" by (simp add: fipsZeros_def r_def)
  show thesis
  proof (cases "r \<le> 55")
    case True
    then have e: "119 - r = 64 * 1 + (55 - r)" "n + 8 = 64 * q + (r + 8)" using n by simp_all
    have "fipsZeros n = 55 - r" unfolding z e(1) by (rule mod64) simp
    moreover have "(n + 8) div 64 = q" unfolding e(2) by (rule div64) (use True in simp)
    ultimately show thesis using n True by (rule fits [rotated 2])
  next
    case False
    then have "fipsZeros n = 119 - r" using z r by simp
    moreover have e: "n + 8 = 64 * (q + 1) + (r - 56)" using n False by simp
    have "(n + 8) div 64 = q + 1" unfolding e by (rule div64) (use r in simp)
    ultimately show thesis using n False r by (intro spills) simp_all
  qed
qed

lemma fipsZeros_least:
  "(n + 1 + fipsZeros n) mod 64 = 56" "z < fipsZeros n \<Longrightarrow> (n + 1 + z) mod 64 \<noteq> 56"
proof -
  show "(n + 1 + fipsZeros n) mod 64 = 56"
  proof (cases n rule: fipsZeros_cases)
    case (fits q r)
    then have "n + 1 + fipsZeros n = 64 * q + 56" by simp
    then show ?thesis by (simp only:) simp
  next
    case (spills q r)
    then have "n + 1 + fipsZeros n = 64 * (q + 1) + 56" by simp
    then show ?thesis by (simp only:) simp
  qed
  assume z: "z < fipsZeros n"
  show "(n + 1 + z) mod 64 \<noteq> 56"
  proof (cases n rule: fipsZeros_cases)
    case (fits q r)
    then have "n + 1 + z = 64 * q + (r + 1 + z)" "r + 1 + z < 56" using z by simp_all
    then show ?thesis by (simp only:) simp
  next
    case (spills q r)
    show ?thesis
    proof (cases "r + 1 + z < 64")
      case True
      then have "n + 1 + z = 64 * q + (r + 1 + z)" using spills by simp
      then show ?thesis using True spills by (simp only:) simp
    next
      case False
      then have "n + 1 + z = 64 * (q + 1) + (r + z - 63)" using spills by simp
      moreover have "r + z - 63 < 56" using spills z by simp
      ultimately show ?thesis by (simp only: mod64)
    qed
  qed
qed

lemma fipsZeros_length: "n + 9 + fipsZeros n = ((n + 8) div 64 + 1) * 64"
  by (cases n rule: fipsZeros_cases) simp_all

definition beBytes64 :: "64 word \<Rightarrow> byte list" where
  "beBytes64 v = map (\<lambda>i. ucast (drop_bit (56 - 8 * i) v)) [0..<8]"

definition fipsPad :: "byte list \<Rightarrow> byte list" where
  "fipsPad m = m @ 0x80 # replicate (fipsZeros (length m)) 0 @ beBytes64 (of_nat (8 * length m))"

definition fips256 :: "byte list \<Rightarrow> byte list" where
  "fips256 m = chainBytes (fipsBlocks initialChain (fipsPad m))"

subsection \<open>The code computes FIPS 180-4\<close>

lemma rotr_word_rotr: "0 < n \<Longrightarrow> n < 32 \<Longrightarrow> rotr x n = word_rotr n x"
proof (rule bit_word_eqI)
  fix i assume n: "0 < n" "n < 32" and "i < LENGTH(32)"
  then have i: "i < 32" by simp
  show "bit (rotr x n) i \<longleftrightarrow> bit (word_rotr n x) i"
  proof (cases "i + n < 32")
    case True
    with n i show ?thesis by (auto simp: rotr_def bit_simps add.commute)
  next
    case False
    with n i have "(i + n) mod 32 = i + n - 32" by (simp add: le_mod_geq)
    moreover have "\<not> bit x (i + n)" using False bit_imp_le_length [of x "i + n"] by auto
    ultimately show ?thesis using n i False
      by (auto simp: rotr_def bit_simps add.commute)
  qed
qed

lemma paddedLen_eq: "n < 2 ^ 31 - 72 \<Longrightarrow> paddedLen n = int (((n + 8) div 64 + 1) * 64)"
proof -
  assume n: "n < 2 ^ 31 - 72"
  have id: "toInt32 x = x" if "0 \<le> x" "x < 2 ^ 31" for x
    using that by (simp add: toInt32_def)
  have "(int n + 8) div 64 * 64 \<le> int n + 8" by presburger
  with n show ?thesis
    by (simp add: paddedLen_def id zdiv_int)
qed

lemma nextW_fipsW:
  "16 \<le> l \<Longrightarrow> nextW (map (fipsW m) [0..<l]) = fipsW m l"
  by (simp add: nextW_def Let_def fipsW.simps [of m l] rotr_word_rotr smallSigma0_def
      smallSigma1_def add.commute add.left_commute)

lemma extendW_fipsW:
  "16 \<le> l \<Longrightarrow> extendW n (map (fipsW m) [0..<l]) = map (fipsW m) [0..<l + n]"
proof (induction n arbitrary: l)
  case (Suc n)
  then have "extendW (Suc n) (map (fipsW m) [0..<l]) = extendW n (map (fipsW m) [0..<Suc l])"
    by (simp add: nextW_fipsW)
  with Suc show ?case by (simp del: upt_Suc)
qed simp

lemma beWord32_take_drop:
  "off + i + 3 < length bs \<Longrightarrow> i + 3 < 64 \<Longrightarrow>
   beWord32 (take 64 (drop off bs)) i = beWord32 bs (off + i)"
  by (simp add: beWord32_def add.assoc)

lemma scheduleW_fipsW:
  assumes "off + 64 \<le> length bs"
  shows "scheduleW bs off = map (fipsW (take 64 (drop off bs))) [0..<64]"
proof -
  have "map (\<lambda>i. beWord32 bs (off + i * 4)) [0..<16] = map (fipsW (take 64 (drop off bs))) [0..<16]"
    using assms by (intro map_cong) (auto simp: fipsW.simps beWord32_take_drop)
  then show ?thesis
    unfolding scheduleW_def by (simp only:) (simp add: extendW_fipsW del: upt_Suc)
qed

lemma length_K256: "length K256 = 64"
  by (simp add: K256_def)

lemma sha256Round_fipsRound:
  "sha256Round hs (K256 ! t, fipsW m t) = fipsRound m t hs"
  by (cases "(hs, K256 ! t, fipsW m t)" rule: sha256Round.cases)
    (simp add: Let_def rotr_word_rotr bigSigma0_def bigSigma1_def Ch_def Maj_def)

lemma sha256Block_fipsBlock:
  assumes "off + 64 \<le> length bs"
  shows "sha256Block bs hs off = fipsBlock hs (take 64 (drop off bs))"
proof -
  let ?m = "take 64 (drop off bs)"
  have "zip K256 (scheduleW bs off) = map (\<lambda>t. (K256 ! t, fipsW ?m t)) [0..<64]"
    using assms by (intro nth_equalityI) (simp_all add: scheduleW_fipsW length_K256 del: upt_Suc)
  then have "foldl sha256Round hs (zip K256 (scheduleW bs off)) = fold (fipsRound ?m) [0..<64] hs"
    by (simp only: foldl_map sha256Round_fipsRound) (simp add: foldl_conv_fold del: upt_Suc)
  then show ?thesis by (simp add: sha256Block_def fipsBlock_def)
qed

lemma foldl_blocks:
  "length bs = off + 64 * n \<Longrightarrow>
   foldl (sha256Block bs) hs (map (\<lambda>k. off + k * 64) [0..<n]) = fipsBlocks hs (drop off bs)"
proof (induction n arbitrary: hs off)
  case 0
  then show ?case by (simp add: fipsBlocks.simps)
next
  case (Suc n)
  have "map (\<lambda>k. off + k * 64) [0..<Suc n] = off # map (\<lambda>k. (off + 64) + k * 64) [0..<n]"
    by (simp add: upt_conv_Cons map_Suc_upt [symmetric] add.assoc del: upt_Suc)
  with Suc.prems Suc.IH [of "off + 64" "fipsBlock hs (take 64 (drop off bs))"] show ?case
    by (subst fipsBlocks.simps) (simp add: sha256Block_fipsBlock add.commute del: upt_Suc)
qed

lemma byte_of_high_half:
  "i \<le> 24 \<Longrightarrow>
   ucast (drop_bit (32 + i) (of_nat n :: 64 word)) =
   (ucast (drop_bit i (of_nat (n div 2 ^ 32) :: u32)) :: byte)"
proof (rule bit_word_eqI)
  fix k assume "i \<le> 24" "k < LENGTH(8)"
  moreover have "n div 4294967296 = drop_bit 32 n" by (simp add: drop_bit_eq_div)
  ultimately show "bit (ucast (drop_bit (32 + i) (of_nat n :: 64 word)) :: byte) k \<longleftrightarrow>
      bit (ucast (drop_bit i (of_nat (n div 2 ^ 32) :: u32)) :: byte) k"
    by (simp add: bit_simps add.assoc)
qed

lemma byte_of_low_half:
  "i \<le> 24 \<Longrightarrow>
   ucast (drop_bit i (of_nat n :: 64 word)) = (ucast (drop_bit i (of_nat n :: u32)) :: byte)"
  by (rule bit_word_eqI) (simp add: bit_simps)

lemma upt_8: "[0..<8] = [0, 1, 2, 3, 4, 5, 6, 7]"
  by (simp add: upt_rec)

lemma beBytes64_split:
  "beBytes64 (of_nat n) = beBytes32 (of_nat (n div 2 ^ 32)) @ beBytes32 (of_nat n)"
  using byte_of_high_half [of 24 n] byte_of_high_half [of 16 n] byte_of_high_half [of 8 n]
    byte_of_high_half [of 0 n] byte_of_low_half [of 24 n] byte_of_low_half [of 16 n]
    byte_of_low_half [of 8 n] byte_of_low_half [of 0 n]
  by (simp add: beBytes64_def beBytes32_def upt_8)

lemma sha256Pad_fipsPad:
  assumes "length m < 2 ^ 31 - 72"
  shows "sha256Pad m = fipsPad m"
proof -
  have "((length m + 8) div 64 + 1) * 64 - 8 - Suc (length m) = fipsZeros (length m)"
    using fipsZeros_length [of "length m"] by simp
  with assms show ?thesis
    by (simp add: sha256Pad_def fipsPad_def paddedLen_eq beBytes64_split mult.commute Let_def
        del: of_nat_mult of_nat_add)
qed

lemma length_fipsPad: "length (fipsPad m) = ((length m + 8) div 64 + 1) * 64"
  using fipsZeros_length [of "length m"] by (simp add: fipsPad_def beBytes64_def)

lemma paddedLen_blocks:
  assumes "n < 2 ^ 31 - 72"
  shows "nat (paddedLen n) div 64 = (n + 8) div 64 + 1"
  by (simp only: paddedLen_eq [OF assms] nat_int) simp

lemma sha256Bytes_fips:
  assumes "length m < 2 ^ 31 - 72"
  shows "sha256Bytes m = fips256 m"
  using foldl_blocks [of "fipsPad m" 0 "(length m + 8) div 64 + 1" initialChain] assms
  by (simp add: sha256Bytes_def fips256_def sha256Pad_fipsPad length_fipsPad
      paddedLen_blocks Let_def del: upt_Suc)

lemma length_sha256Bytes [simp]: "length (sha256Bytes m) = 32"
proof -
  have "length (chainBytes c) = 32" for c
    by (cases c rule: chainBytes.cases) (simp add: beBytes32_def)
  then show ?thesis by (simp add: sha256Bytes_def Let_def)
qed

subsection \<open>Property\<close>

text \<open>C40: \<open>sha256Bytes\<close> computes the hash of FIPS 180-4 for every buffer below the length at
  which its 32-bit shifts would overflow.\<close>

theorem sha256Bytes_is_fips256:
  "length m < 2 ^ 31 - 72 \<Longrightarrow> sha256Bytes m = fips256 m"
  by (rule sha256Bytes_fips)

theorem sha256Bytes_is_fips256_witness: "sha256Bytes [0x61, 0x62, 0x63] = fips256 [0x61, 0x62, 0x63]"
  by (rule sha256Bytes_is_fips256) simp

end
