(* ===== verification/Json.thy ===== *)
theory Json
  imports Validators Sha256
begin

section \<open>JSON text\<close>

text \<open>
  \<open>JSON.stringify\<close> on the values the store serialises (strings, integers, booleans, null, arrays
  and objects) and \<open>JSON.parse\<close> on arbitrary text, as ECMAScript defines them: well-formed
  stringification escapes lone surrogates; parsing rounds numbers to doubles and lets the last
  of two members of one name win. The parser recurses with fuel; twice the length of the text
  and one is enough (\<open>parseV_enough\<close>), and it inverts the printer (\<open>jsonParse_stringify\<close>).
\<close>

datatype json =
    JNull
  | JBool bool
  | JInt int
  | JStr jsstr
  | JArr "json list"
  | JObj "(jsstr \<times> json) list"

fun ofJson :: "json \<Rightarrow> jsval" where
  "ofJson JNull = Null"
| "ofJson (JBool b) = Boolean b"
| "ofJson (JInt z) = IntNum z"
| "ofJson (JStr s) = Str s"
| "ofJson (JArr xs) = Arr (map ofJson xs)"
| "ofJson (JObj ps) = Obj (map (\<lambda>(k, v). (k, ofJson v)) ps)"

subsection \<open>The printer\<close>

definition hex4 :: "code_unit \<Rightarrow> jsstr" where
  "hex4 u = [hexDigit (unat u div 4096), hexDigit (unat u div 256 mod 16),
             hexDigit (unat u div 16 mod 16), hexDigit (unat u mod 16)]"

definition quoteUnit :: "code_unit \<Rightarrow> jsstr" where
  "quoteUnit u =
     (if u = 0x22 then [0x5C, 0x22]
      else if u = 0x5C then [0x5C, 0x5C]
      else if u = 0x08 then [0x5C, 0x62]
      else if u = 0x09 then [0x5C, 0x74]
      else if u = 0x0A then [0x5C, 0x6E]
      else if u = 0x0C then [0x5C, 0x66]
      else if u = 0x0D then [0x5C, 0x72]
      else if u < 0x20 \<or> is_high u \<or> is_low u then [0x5C, 0x75] @ hex4 u
      else [u])"

fun quoteUnits :: "jsstr \<Rightarrow> jsstr" where
  "quoteUnits [] = []"
| "quoteUnits [u] = quoteUnit u"
| "quoteUnits (u # v # s) =
     (if is_high u \<and> is_low v then u # v # quoteUnits s else quoteUnit u @ quoteUnits (v # s))"

definition quoteStr :: "jsstr \<Rightarrow> jsstr" where
  "quoteStr s = 0x22 # quoteUnits s @ [0x22]"

definition intString :: "int \<Rightarrow> jsstr" where
  "intString z = (if z < 0 then 0x2D # decOfNat (nat (- z)) else decOfNat (nat z))"

fun join :: "jsstr \<Rightarrow> jsstr list \<Rightarrow> jsstr" where
  "join sep [] = []"
| "join sep [x] = x"
| "join sep (x # xs) = x @ sep @ join sep xs"

fun stringify :: "json \<Rightarrow> jsstr" where
  "stringify JNull = js ''null''"
| "stringify (JBool b) = (if b then js ''true'' else js ''false'')"
| "stringify (JInt z) = intString z"
| "stringify (JStr s) = quoteStr s"
| "stringify (JArr xs) = 0x5B # join [0x2C] (map stringify xs) @ [0x5D]"
| "stringify (JObj ps) =
     0x7B # join [0x2C] (map (\<lambda>(k, v). quoteStr k @ 0x3A # stringify v) ps) @ [0x7D]"

subsection \<open>The parser\<close>

definition isWs :: "code_unit \<Rightarrow> bool" where
  "isWs u \<longleftrightarrow> u = 0x20 \<or> u = 0x09 \<or> u = 0x0A \<or> u = 0x0D"

definition skipWs :: "jsstr \<Rightarrow> jsstr" where
  "skipWs s = dropWhile isWs s"

definition hexVal :: "code_unit \<Rightarrow> nat option" where
  "hexVal u =
     (if isDigit u then Some (unat u - 0x30)
      else if 0x61 \<le> u \<and> u \<le> 0x66 then Some (unat u - 0x57)
      else if 0x41 \<le> u \<and> u \<le> 0x46 then Some (unat u - 0x37)
      else None)"

definition hexVal4 :: "code_unit \<Rightarrow> code_unit \<Rightarrow> code_unit \<Rightarrow> code_unit \<Rightarrow> code_unit option" where
  "hexVal4 a b c d =
     (case (hexVal a, hexVal b, hexVal c, hexVal d) of
        (Some p, Some q, Some r, Some s) \<Rightarrow> Some (of_nat (p * 4096 + q * 256 + r * 16 + s))
      | _ \<Rightarrow> None)"

definition simpleEscape :: "code_unit \<Rightarrow> code_unit option" where
  "simpleEscape u =
     (if u = 0x22 \<or> u = 0x5C \<or> u = 0x2F then Some u
      else if u = 0x62 then Some 0x08
      else if u = 0x66 then Some 0x0C
      else if u = 0x6E then Some 0x0A
      else if u = 0x72 then Some 0x0D
      else if u = 0x74 then Some 0x09
      else None)"

text \<open>The characters of a string after its opening quote, and the text after its closing one.\<close>

fun parseStr :: "jsstr \<Rightarrow> (jsstr \<times> jsstr) option" where
  "parseStr [] = None"
| "parseStr (u # s) =
     (if u = 0x22 then Some ([], s)
      else if u < 0x20 then None
      else if u = 0x5C then
        (case s of
           [] \<Rightarrow> None
         | e # s1 \<Rightarrow>
             if e = 0x75 then
               (case s1 of
                  a # b # c # d # s2 \<Rightarrow>
                    (case hexVal4 a b c d of
                       None \<Rightarrow> None
                     | Some v \<Rightarrow> map_option (apfst (Cons v)) (parseStr s2))
                | _ \<Rightarrow> None)
             else
               (case simpleEscape e of
                  None \<Rightarrow> None
                | Some v \<Rightarrow> map_option (apfst (Cons v)) (parseStr s1)))
      else map_option (apfst (Cons u)) (parseStr s))"

definition parseInt :: "jsstr \<Rightarrow> (jsstr \<times> jsstr) option" where
  "parseInt s = (case s of
       [] \<Rightarrow> None
     | u # t \<Rightarrow> if u = 0x30 then Some ([u], t)
               else if isDigit u then Some (takeWhile isDigit s, dropWhile isDigit s)
               else None)"

definition parseFrac :: "jsstr \<Rightarrow> (jsstr \<times> jsstr) option" where
  "parseFrac s = (case s of
       u # t \<Rightarrow> if u = 0x2E then
                  (if takeWhile isDigit t = [] then None
                   else Some (takeWhile isDigit t, dropWhile isDigit t))
                else Some ([], s)
     | [] \<Rightarrow> Some ([], s))"

definition parseExp :: "jsstr \<Rightarrow> (int \<times> jsstr) option" where
  "parseExp s = (case s of
       u # t \<Rightarrow> if u = 0x65 \<or> u = 0x45 then
                  (let (sg, d) = (case t of
                         v # t' \<Rightarrow> if v = 0x2D then (- 1, t') else if v = 0x2B then (1, t') else (1, t)
                       | [] \<Rightarrow> (1, t))
                   in if takeWhile isDigit d = [] then None
                      else Some (sg * int (natOfDec (takeWhile isDigit d)), dropWhile isDigit d))
                else Some (0, s)
     | [] \<Rightarrow> Some (0, s))"

definition pow10 :: "int \<Rightarrow> rat" where
  "pow10 e = (if 0 \<le> e then 10 ^ nat e else 1 / 10 ^ nat (- e))"

definition parseNum :: "jsstr \<Rightarrow> (jsval \<times> jsstr) option" where
  "parseNum s =
     (let (neg, s0) = (case s of u # t \<Rightarrow> if u = 0x2D then (True, t) else (False, s) | [] \<Rightarrow> (False, s))
      in case parseInt s0 of None \<Rightarrow> None
         | Some (i, s1) \<Rightarrow> (case parseFrac s1 of None \<Rightarrow> None
         | Some (f, s2) \<Rightarrow> (case parseExp s2 of None \<Rightarrow> None
         | Some (e, s3) \<Rightarrow>
             let q = of_nat (natOfDec (i @ f)) * pow10 (e - int (length f))
             in Some (Number (toDouble (if neg then - q else q)), s3))))"

definition startsWith :: "jsstr \<Rightarrow> jsstr \<Rightarrow> bool" where
  "startsWith s t \<longleftrightarrow> take (length t) s = t"

fun parseV :: "nat \<Rightarrow> jsstr \<Rightarrow> (jsval \<times> jsstr) option"
  and parseElems :: "nat \<Rightarrow> jsstr \<Rightarrow> (jsval list \<times> jsstr) option"
  and parseMembers :: "nat \<Rightarrow> (jsstr \<times> jsval) list \<Rightarrow> jsstr \<Rightarrow> ((jsstr \<times> jsval) list \<times> jsstr) option"
where
  "parseV 0 s = None"
| "parseV (Suc n) s = (case skipWs s of
      [] \<Rightarrow> None
    | u # t \<Rightarrow>
        if u = 0x7B then
          (case skipWs t of
             [] \<Rightarrow> None
           | v # t' \<Rightarrow> if v = 0x7D then Some (Obj [], t')
                      else map_option (apfst Obj) (parseMembers n [] t))
        else if u = 0x5B then
          (case skipWs t of
             [] \<Rightarrow> None
           | v # t' \<Rightarrow> if v = 0x5D then Some (Arr [], t')
                      else map_option (apfst Arr) (parseElems n t))
        else if u = 0x22 then map_option (apfst Str) (parseStr t)
        else if startsWith (u # t) (js ''null'') then Some (Null, drop 3 t)
        else if startsWith (u # t) (js ''true'') then Some (Boolean True, drop 3 t)
        else if startsWith (u # t) (js ''false'') then Some (Boolean False, drop 4 t)
        else parseNum (u # t))"
| "parseElems 0 s = None"
| "parseElems (Suc n) s = (case parseV n s of
      None \<Rightarrow> None
    | Some (x, s1) \<Rightarrow> (case skipWs s1 of
        [] \<Rightarrow> None
      | u # t \<Rightarrow> if u = 0x5D then Some ([x], t)
                else if u = 0x2C then map_option (apfst (Cons x)) (parseElems n t)
                else None))"
| "parseMembers 0 ps s = None"
| "parseMembers (Suc n) ps s = (case skipWs s of
      [] \<Rightarrow> None
    | u # t \<Rightarrow> if u \<noteq> 0x22 then None else (case parseStr t of
        None \<Rightarrow> None
      | Some (k, s1) \<Rightarrow> (case skipWs s1 of
          [] \<Rightarrow> None
        | u1 # t1 \<Rightarrow> if u1 \<noteq> 0x3A then None else (case parseV n t1 of
            None \<Rightarrow> None
          | Some (x, s2) \<Rightarrow> (case skipWs s2 of
              [] \<Rightarrow> None
            | u2 # t2 \<Rightarrow>
                if u2 = 0x7D then Some (setProp k x ps, t2)
                else if u2 = 0x2C then parseMembers n (setProp k x ps) t2
                else None)))))"

definition jsonParse :: "jsstr \<Rightarrow> jsval option" where
  "jsonParse s = (case parseV (2 * length s + 1) s of
       Some (v, r) \<Rightarrow> if skipWs r = [] then Some v else None
     | None \<Rightarrow> None)"

subsection \<open>The parser consumes text\<close>

lemma length_skipWs: "length (skipWs s) \<le> length s"
  by (simp add: skipWs_def length_dropWhile_le)

lemma parseStr_length: "parseStr s = Some (x, r) \<Longrightarrow> length r < length s"
proof (induction s arbitrary: x rule: parseStr.induct)
  case (2 u s)
  consider (close) "u = 0x22" | (bad) "u \<noteq> 0x22" "u < 0x20" | (esc) "u = 0x5C"
    | (plain) "u \<noteq> 0x22" "\<not> u < 0x20" "u \<noteq> 0x5C"
    by auto
  then show ?case
  proof cases
    case esc
    show ?thesis
    proof (cases s)
      case (Cons e s1)
      note s = this
      show ?thesis
      proof (cases "e = 0x75")
        case True
        then obtain a b c d s2 v y where "s1 = a # b # c # d # s2" "hexVal4 a b c d = Some v"
          "parseStr s2 = Some (y, r)"
          using "2.prems" esc s by (auto simp: apfst_def split: list.splits option.splits)
        moreover have "length r < length s2"
          using "2.IH"(1) calculation esc s True by simp
        ultimately show ?thesis using s by simp
      next
        case False
        then obtain v y where "simpleEscape e = Some v" "parseStr s1 = Some (y, r)"
          using "2.prems" esc s by (auto simp: apfst_def split: option.splits)
        then show ?thesis using "2.IH"(2) esc s False by (simp add: less_Suc_eq)
      qed
    qed (use "2.prems" esc in simp)
  next
    case plain
    then obtain y where "parseStr s = Some (y, r)"
      using "2.prems" by (auto simp: apfst_def)
    then show ?thesis using "2.IH"(3) plain by (simp add: less_Suc_eq)
  qed (use "2.prems" in simp_all)
qed simp

declare parseStr.simps(2) [simp del]

lemma parseInt_length: "parseInt s = Some (x, r) \<Longrightarrow> length r < length s"
proof (cases s)
  case (Cons u t)
  assume "parseInt s = Some (x, r)"
  with Cons show ?thesis using length_dropWhile_le [of isDigit t]
    by (simp add: parseInt_def split: if_splits)
qed (simp add: parseInt_def)

lemma parseFrac_length: "parseFrac s = Some (x, r) \<Longrightarrow> length r \<le> length s"
proof (cases s)
  case (Cons u t)
  assume "parseFrac s = Some (x, r)"
  with Cons show ?thesis using length_dropWhile_le [of isDigit t]
    by (auto simp: parseFrac_def split: if_splits)
qed (simp add: parseFrac_def)

lemma parseExp_length: "parseExp s = Some (x, r) \<Longrightarrow> length r \<le> length s"
proof (cases s)
  case (Cons u t)
  assume e: "parseExp s = Some (x, r)"
  show ?thesis
  proof (cases "u = 0x65 \<or> u = 0x45")
    case False
    with e Cons show ?thesis by (simp add: parseExp_def)
  next
    case True
    define d where "d = snd (case t of v # t' \<Rightarrow> if v = 0x2D then (- 1 :: int, t')
      else if v = 0x2B then (1, t') else (1, t) | [] \<Rightarrow> (1, t))"
    have "r = dropWhile isDigit d"
      using e Cons True by (simp add: parseExp_def Let_def d_def split: prod.splits if_splits)
    moreover have "length d \<le> length t" by (simp add: d_def split: list.splits)
    ultimately show ?thesis using Cons length_dropWhile_le [of isDigit d] by simp
  qed
qed (simp add: parseExp_def)

lemma parseNum_length: "parseNum s = Some (v, r) \<Longrightarrow> length r < length s"
proof -
  assume p: "parseNum s = Some (v, r)"
  define s0 where "s0 = snd (case s of u # t \<Rightarrow> if u = 0x2D then (True, t) else (False, s) | [] \<Rightarrow> (False, s))"
  obtain i s1 f s2 e where "parseInt s0 = Some (i, s1)" "parseFrac s1 = Some (f, s2)"
    "parseExp s2 = Some (e, r)"
    using p by (simp add: parseNum_def Let_def s0_def split: prod.splits option.splits)
  moreover have "length s0 \<le> length s" by (simp add: s0_def split: list.splits)
  ultimately show ?thesis
    using parseInt_length [of s0] parseFrac_length [of s1] parseExp_length [of s2] by fastforce
qed

lemma skipWs_Cons: "skipWs s = u # t \<Longrightarrow> length t < length s"
  using length_skipWs [of s] by simp

lemma parse_length:
  "parseV n s = Some (v, r) \<Longrightarrow> length r < length s"
  "parseElems n s = Some (vs, r) \<Longrightarrow> length r < length s"
  "parseMembers n ps s = Some (qs, r) \<Longrightarrow> length r < length s"
proof (induction n s and n s and n ps s arbitrary: v r and vs r and qs r
    rule: parseV_parseElems_parseMembers.induct)
  case (2 n s)
  show ?case
  proof (cases "skipWs s")
    case (Cons u t)
    note l = skipWs_Cons [OF Cons]
    consider (obj) v' t' where "u = 0x7B" "skipWs t = v' # t'" | (arr) v' t' where "u = 0x5B" "skipWs t = v' # t'"
      | (other) "u \<noteq> 0x7B" "u \<noteq> 0x5B"
      using "2.prems" Cons by (cases "skipWs t") (auto split: if_splits)
    then show ?thesis
    proof cases
      case obj
      show ?thesis
      proof (cases "v' = 0x7D")
        case True
        then show ?thesis using "2.prems" Cons obj l skipWs_Cons [of t] by simp
      next
        case False
        then obtain qs where "parseMembers n [] t = Some (qs, r)"
          using "2.prems" Cons obj by (auto simp: apfst_def)
        then show ?thesis using "2.IH"(1) [of u t v' t' qs r] Cons obj False l by simp
      qed
    next
      case arr
      show ?thesis
      proof (cases "v' = 0x5D")
        case True
        then show ?thesis using "2.prems" Cons arr l skipWs_Cons [of t] by simp
      next
        case False
        then obtain vs where "parseElems n t = Some (vs, r)"
          using "2.prems" Cons arr by (auto simp: apfst_def)
        then show ?thesis using "2.IH"(2) [of u t v' t' vs r] Cons arr False l by simp
      qed
    next
      case other
      consider "u = 0x22" | "length r \<le> length t" | "parseNum (u # t) = Some (v, r)"
        using "2.prems" Cons other by (auto split: if_splits)
      then show ?thesis
      proof cases
        case 1
        then obtain x where "parseStr t = Some (x, r)"
          using "2.prems" Cons by (auto simp: apfst_def)
        then show ?thesis using l parseStr_length [of t] by simp
      next
        case 3
        then show ?thesis using parseNum_length [of "u # t"] l by simp
      qed (use l in simp)
    qed
  qed (use "2.prems" in simp)
next
  case (4 n s)
  then show ?case
    by (fastforce split: option.splits list.splits if_splits dest!: skipWs_Cons)
next
  case (6 n ps s)
  then show ?case
    by (fastforce split: option.splits list.splits if_splits dest!: skipWs_Cons parseStr_length)
qed simp_all

text \<open>More fuel than \<open>jsonParse\<close> gives changes nothing: it never runs out.\<close>

lemma parse_enough:
  "2 * length s < n \<Longrightarrow> 2 * length s < m \<Longrightarrow> parseV n s = parseV m s"
  "2 * length s + 1 < n \<Longrightarrow> 2 * length s + 1 < m \<Longrightarrow> parseElems n s = parseElems m s"
  "2 * length s < n \<Longrightarrow> 2 * length s < m \<Longrightarrow> parseMembers n ps s = parseMembers m ps s"
proof (induction n s and n s and n ps s arbitrary: m and m and m
    rule: parseV_parseElems_parseMembers.induct)
  case (2 n s)
  obtain m' where m: "m = Suc m'" using "2.prems" by (cases m) auto
  show ?case
  proof (cases "skipWs s")
    case (Cons u t)
    note l = skipWs_Cons [OF Cons]
    show ?thesis
    proof (cases "skipWs t")
      case (Cons v t')
      have "u = 0x7B \<Longrightarrow> v \<noteq> 0x7D \<Longrightarrow> parseMembers n [] t = parseMembers m' [] t"
        using "2.IH"(1) [of u t v t' m'] \<open>skipWs s = u # t\<close> Cons l "2.prems" m by simp
      moreover have "u = 0x5B \<Longrightarrow> v \<noteq> 0x5D \<Longrightarrow> parseElems n t = parseElems m' t"
        using "2.IH"(2) [of u t v t' m'] \<open>skipWs s = u # t\<close> Cons l "2.prems" m by simp
      ultimately show ?thesis using m \<open>skipWs s = u # t\<close> Cons by simp
    qed (use m Cons in simp)
  qed (use m in simp)
next
  case (4 n s)
  obtain m' where m: "m = Suc m'" using "4.prems" by (cases m) auto
  have v: "parseV n s = parseV m' s" using "4.IH"(1) [of m'] "4.prems" m by simp
  show ?case
  proof (cases "parseV m' s")
    case (Some p)
    obtain x s1 where p: "p = (x, s1)" by (cases p)
    have l: "length s1 < length s" using Some p parse_length(1) by blast
    show ?thesis
    proof (cases "skipWs s1")
      case (Cons u t)
      then have "u = 0x2C \<Longrightarrow> parseElems n t = parseElems m' t"
        using "4.IH"(2) [of "(x, s1)" x s1 u t m'] v Some p l skipWs_Cons [of s1 u t] "4.prems" m by simp
      then show ?thesis using m v Some p Cons by simp
    qed (use m v Some p in simp)
  qed (use m v in simp)
next
  case (6 n ps s)
  obtain m' where m: "m = Suc m'" using "6.prems" by (cases m) auto
  show ?case
  proof (cases "skipWs s")
    case (Cons u t)
    note s = this
    show ?thesis
    proof (cases "parseStr t")
      case (Some p)
      obtain k s1 where p: "p = (k, s1)" by (cases p)
      have l: "length s1 < length s" using Some p s parseStr_length skipWs_Cons less_trans by blast
      show ?thesis
      proof (cases "u = 0x22 \<and> (\<exists>t1. skipWs s1 = 0x3A # t1)")
        case True
        then obtain t1 where u: "u = 0x22" and t1: "skipWs s1 = 0x3A # t1" by blast
        have l1: "length t1 < length s" using l skipWs_Cons [OF t1] by simp
        have v: "parseV n t1 = parseV m' t1"
          using "6.IH"(1) [of u t "(k, s1)" k s1 "0x3A" t1 m'] s Some p u t1 l1 "6.prems" m by simp
        show ?thesis
        proof (cases "parseV m' t1")
          case Some': (Some q)
          obtain x s2 where q: "q = (x, s2)" by (cases q)
          have l2: "length s2 < length t1" using Some' q parse_length(1) by blast
          show ?thesis
          proof (cases "skipWs s2")
            case Cons': (Cons u2 t2)
            then have "u2 = 0x2C \<Longrightarrow> parseMembers n (setProp k x ps) t2 = parseMembers m' (setProp k x ps) t2"
              using "6.IH"(2) [of u t "(k, s1)" k s1 "0x3A" t1 "(x, s2)" x s2 u2 t2 m'] s Some p u t1
                v Some' q l1 l2 skipWs_Cons [of s2 u2 t2] "6.prems" m by simp
            then show ?thesis using m s Some p u t1 v Some' q Cons' by simp
          qed (use m s Some p u t1 v Some' q in simp)
        qed (use m s Some p u t1 v in simp)
      next
        case False
        then show ?thesis using m s Some p by (auto split: list.split)
      qed
    qed (use m s in simp)
  qed (use m in simp)
qed simp_all

subsection \<open>The parser inverts the printer\<close>

lemma hexDigit_val: "d < 16 \<Longrightarrow> hexVal (hexDigit d) = Some d"
proof -
  have "\<forall>d \<in> {0..<16}. hexVal (hexDigit d) = Some d"
    by (simp add: hexVal_def hexDigit_def js_def isDigit_def atLeastLessThan_nat_numeral)
  moreover assume "d < 16"
  ultimately show ?thesis by simp
qed

lemma hexVal4_hex4:
  "hex4 u = [a, b, c, d] \<Longrightarrow> hexVal4 a b c d = Some u"
proof -
  assume h: "hex4 u = [a, b, c, d]"
  let ?n = "unat u"
  have l: "?n div 4096 < 16" using unat_less_16 [of u] by (simp add: div_less_iff_less_mult)
  have "?n div 4096 * 4096 + ?n div 256 mod 16 * 256 + ?n div 16 mod 16 * 16 + ?n mod 16 = ?n"
  proof -
    have "?n div 256 = ?n div 16 div 16" "?n div 4096 = ?n div 256 div 16"
      by (simp_all add: div_mult2_eq [symmetric])
    then show ?thesis
      using div_mult_mod_eq [of ?n 16] div_mult_mod_eq [of "?n div 16" 16]
        div_mult_mod_eq [of "?n div 256" 16] by linarith
  qed
  then show ?thesis using h l
    by (auto simp: hexVal4_def hex4_def hexDigit_val simp del: of_nat_add of_nat_mult)
qed

lemma parseStr_quoteUnit: "parseStr (quoteUnit u @ t) = map_option (apfst (Cons u)) (parseStr t)"
proof -
  consider (sp) "u \<in> {0x22, 0x5C, 0x08, 0x09, 0x0A, 0x0C, 0x0D}"
    | (hex) "u \<notin> {0x22, 0x5C, 0x08, 0x09, 0x0A, 0x0C, 0x0D}" "u < 0x20 \<or> is_high u \<or> is_low u"
    | (lit) "u \<notin> {0x22, 0x5C, 0x08, 0x09, 0x0A, 0x0C, 0x0D}" "\<not> (u < 0x20 \<or> is_high u \<or> is_low u)"
    by blast
  then show ?thesis
  proof cases
    case sp
    then show ?thesis
      by (auto simp: quoteUnit_def parseStr.simps(2) simpleEscape_def)
  next
    case hex
    obtain a b c d where h: "hex4 u = [a, b, c, d]" by (simp add: hex4_def)
    have "quoteUnit u = [0x5C, 0x75, a, b, c, d]" using hex h by (simp add: quoteUnit_def)
    then show ?thesis using hexVal4_hex4 [OF h] by (simp add: parseStr.simps(2))
  next
    case lit
    then have "quoteUnit u = [u]" by (simp add: quoteUnit_def)
    with lit show ?thesis by (simp add: parseStr.simps(2))
  qed
qed

lemma surrogate_plain:
  "is_high u \<or> is_low u \<Longrightarrow> parseStr (u # t) = map_option (apfst (Cons u)) (parseStr t)"
  by (auto simp: parseStr.simps(2) is_high_unat is_low_unat word_less_nat_alt)

lemma parseStr_quoteUnits: "parseStr (quoteUnits s @ 0x22 # r) = Some (s, r)"
proof (induction s rule: quoteUnits.induct)
  case 1
  show ?case by (simp add: parseStr.simps(2))
next
  case (2 u)
  show ?case by (simp add: parseStr_quoteUnit) (simp add: parseStr.simps(2))
next
  case (3 u v s)
  then show ?case by (auto simp: surrogate_plain parseStr_quoteUnit)
qed

text \<open>What may follow a printed value: nothing that would continue a number.\<close>

definition endOk :: "jsstr \<Rightarrow> bool" where
  "endOk r \<longleftrightarrow> (case r of [] \<Rightarrow> True | u # _ \<Rightarrow> \<not> isDigit u \<and> u \<noteq> 0x2E \<and> u \<noteq> 0x65 \<and> u \<noteq> 0x45)"

lemma decOfNat_Cons: "\<exists>u t. decOfNat n = u # t \<and> isDigit u \<and> list_all isDigit t \<and> (u = 0x30 \<longrightarrow> t = [])"
proof -
  obtain u t where d: "decOfNat n = u # t" by (cases "decOfNat n") auto
  then have "canonicalDec (u # t)" by (metis canonicalDec_decOfNat)
  then show ?thesis using d by (auto simp: digitVal_def)
qed

lemma takeWhile_digits:
  "list_all isDigit t \<Longrightarrow> endOk r \<Longrightarrow> takeWhile isDigit (t @ r) = t \<and> dropWhile isDigit (t @ r) = r"
  by (induction t) (auto simp: endOk_def split: list.splits)

lemma parseInt_decOfNat: "endOk r \<Longrightarrow> parseInt (decOfNat n @ r) = Some (decOfNat n, r)"
  using decOfNat_Cons [of n] takeWhile_digits [of _ r] takeWhile_digits [of "[]" r]
  by (auto simp: parseInt_def)

lemma parse_end: "endOk r \<Longrightarrow> parseFrac r = Some ([], r) \<and> parseExp r = Some (0, r)"
  by (auto simp: endOk_def parseFrac_def parseExp_def split: list.splits)

lemma digit_not_minus: "isDigit u \<Longrightarrow> u \<noteq> 0x2D"
  by (auto simp: isDigit_def)

lemma parseNum_intString:
  assumes "\<bar>z\<bar> \<le> 9007199254740991" "endOk r"
  shows "parseNum (intString z @ r) = Some (IntNum z, r)"
proof (cases "z < 0")
  case True
  then have "- rat_of_nat (nat (- z)) = of_int z" by simp
  with True assms show ?thesis
    by (simp add: intString_def parseNum_def parseInt_decOfNat parse_end pow10_def toDouble_of_int)
next
  case False
  obtain u t where d: "decOfNat (nat z) = u # t" and u: "u \<noteq> 0x2D"
    using decOfNat_Cons [of "nat z"] digit_not_minus by blast
  have "rat_of_nat (nat z) = of_int z" using False by simp
  then show ?thesis
    using False assms d u parseInt_decOfNat [of r "nat z"] natOfDec_decOfNat [of "nat z"]
      toDouble_of_int [of z]
    by (simp add: intString_def parseNum_def parse_end pow10_def)
qed

fun okJson :: "json \<Rightarrow> bool" where
  "okJson (JInt z) = (\<bar>z\<bar> \<le> 9007199254740991)"
| "okJson (JArr xs) = (\<forall>x \<in> set xs. okJson x)"
| "okJson (JObj ps) = (distinct (map fst ps) \<and> (\<forall>p \<in> set ps. okJson (snd p)))"
| "okJson _ = True"

lemma stringify_first: "\<exists>u t. stringify j = u # t \<and> \<not> isWs u \<and> u \<noteq> 0x5D \<and> u \<noteq> 0x7D"
proof (cases j)
  case (JInt z)
  obtain u t where "decOfNat (nat (if z < 0 then - z else z)) = u # t" "isDigit u"
    using decOfNat_Cons by blast
  then show ?thesis using JInt by (cases "z < 0") (auto simp: intString_def isWs_def isDigit_def)
qed (auto simp: js_def isWs_def quoteStr_def)

lemma skipWs_Cons_id [simp]: "\<not> isWs u \<Longrightarrow> skipWs (u # t) = u # t"
  by (simp add: skipWs_def)

lemma not_ws [simp]: "\<not> isWs 0x22" "\<not> isWs 0x2C" "\<not> isWs 0x3A" "\<not> isWs 0x5B" "\<not> isWs 0x5D"
  "\<not> isWs 0x7B" "\<not> isWs 0x7D"
  by (simp_all add: isWs_def)

lemma endOk_sep [simp]: "endOk (0x2C # r)" "endOk (0x5D # r)" "endOk (0x7D # r)" "endOk []"
  by (simp_all add: endOk_def isDigit_def)

lemma skipWs_stringify [simp]: "skipWs (stringify j @ r) = stringify j @ r"
  using stringify_first [of j] by auto

definition parses :: "json \<Rightarrow> bool" where
  "parses j \<longleftrightarrow> (\<forall>r n. endOk r \<longrightarrow> 2 * length (stringify j @ r) < n \<longrightarrow>
     parseV n (stringify j @ r) = Some (ofJson j, r))"

lemma parsesD: "parses j \<Longrightarrow> endOk r \<Longrightarrow> 2 * length (stringify j @ r) < n \<Longrightarrow>
     parseV n (stringify j @ r) = Some (ofJson j, r)"
  by (simp add: parses_def)

lemma parseElems_join:
  "\<forall>x \<in> set (x # xs). parses x \<Longrightarrow>
   2 * length (join [0x2C] (map stringify (x # xs)) @ 0x5D # r) + 1 < n \<Longrightarrow>
   parseElems n (join [0x2C] (map stringify (x # xs)) @ 0x5D # r) = Some (map ofJson (x # xs), r)"
proof (induction xs arbitrary: x n)
  case Nil
  then obtain m where n: "n = Suc m" by (cases n) auto
  have "parseV m (stringify x @ 0x5D # r) = Some (ofJson x, 0x5D # r)"
    by (rule parsesD) (use Nil n in simp_all)
  then show ?case using n by simp
next
  case (Cons y ys)
  obtain m where n: "n = Suc m" using Cons.prems(2) by (cases n) auto
  let ?t = "join [0x2C] (map stringify (y # ys)) @ 0x5D # r"
  have "parseV m (stringify x @ 0x2C # ?t) = Some (ofJson x, 0x2C # ?t)"
    by (rule parsesD) (use Cons.prems n in simp_all)
  moreover have "parseElems m ?t = Some (map ofJson (y # ys), r)"
    by (rule Cons.IH) (use Cons.prems n in simp_all)
  ultimately show ?case using n by simp
qed

abbreviation member :: "jsstr \<times> json \<Rightarrow> jsstr" where
  "member p \<equiv> (case p of (k, v) \<Rightarrow> quoteStr k @ 0x3A # stringify v)"

lemma parseMembers_join:
  "\<forall>p \<in> set ((k, v) # ps). parses (snd p) \<Longrightarrow> distinct (map fst qs @ map fst ((k, v) # ps)) \<Longrightarrow>
   2 * length (join [0x2C] (map member ((k, v) # ps)) @ 0x7D # r) < n \<Longrightarrow>
   parseMembers n qs (join [0x2C] (map member ((k, v) # ps)) @ 0x7D # r) =
     Some (qs @ map (\<lambda>(k, v). (k, ofJson v)) ((k, v) # ps), r)"
proof (induction ps arbitrary: k v n qs)
  case Nil
  then obtain m where n: "n = Suc m" by (cases n) auto
  have "parseV m (stringify v @ 0x7D # r) = Some (ofJson v, 0x7D # r)"
    by (rule parsesD) (use Nil n in \<open>simp_all add: quoteStr_def\<close>)
  moreover have "k \<notin> fst ` set qs" using Nil by auto
  ultimately show ?case using n parseStr_quoteUnits [of k "0x3A # stringify v @ 0x7D # r"]
    by (simp add: quoteStr_def setProp_fresh)
next
  case (Cons p ps)
  obtain k' v' where p: "p = (k', v')" by (cases p)
  obtain m where n: "n = Suc m" using Cons.prems(3) by (cases n) auto
  let ?t = "join [0x2C] (map member ((k', v') # ps)) @ 0x7D # r"
  have "parseV m (stringify v @ 0x2C # ?t) = Some (ofJson v, 0x2C # ?t)"
    by (rule parsesD) (use Cons.prems n p in \<open>simp_all add: quoteStr_def\<close>)
  moreover have f: "k \<notin> fst ` set qs" using Cons.prems by auto
  moreover have "parseMembers m (qs @ [(k, ofJson v)]) ?t =
      Some ((qs @ [(k, ofJson v)]) @ map (\<lambda>(k, v). (k, ofJson v)) ((k', v') # ps), r)"
    by (rule Cons.IH) (use Cons.prems n p in \<open>simp_all add: quoteStr_def\<close>)
  ultimately show ?case using n p parseStr_quoteUnits [of k "0x3A # stringify v @ 0x2C # ?t"]
    by (simp add: quoteStr_def setProp_fresh)
qed

lemma join_first:
  "u # t = x \<Longrightarrow> \<exists>t'. join sep (x # xs) = u # t'"
  by (cases xs) auto

lemma parses_stringify: "okJson j \<Longrightarrow> parses j"
proof (induction j rule: stringify.induct)
  case (3 z)
  show ?case unfolding parses_def
  proof (intro allI impI)
    fix r n assume r: "endOk r" "2 * length (stringify (JInt z) @ r) < n"
    obtain u t where ut: "intString z = u # t" and u: "isDigit u \<or> u = 0x2D"
      using decOfNat_Cons [of "nat (if z < 0 then - z else z)"]
      by (cases "z < 0") (auto simp: intString_def)
    then have "\<not> isWs u" "u \<noteq> 0x7B" "u \<noteq> 0x5B" "u \<noteq> 0x22" "u \<noteq> 0x6E" "u \<noteq> 0x74" "u \<noteq> 0x66"
      by (auto simp: isWs_def isDigit_def)
    then show "parseV n (stringify (JInt z) @ r) = Some (ofJson (JInt z), r)"
      using r 3 parseNum_intString [of z r] ut
      by (cases n) (simp_all add: startsWith_def js_def)
  qed
next
  case (5 xs)
  show ?case unfolding parses_def
  proof (intro allI impI)
    fix r n assume r: "endOk r" "2 * length (stringify (JArr xs) @ r) < n"
    then obtain m where n: "n = Suc m" by (cases n) auto
    show "parseV n (stringify (JArr xs) @ r) = Some (ofJson (JArr xs), r)"
    proof (cases xs)
      case (Cons x ys)
      obtain u t where "join [0x2C] (map stringify xs) = u # t" "\<not> isWs u" "u \<noteq> 0x5D"
        using stringify_first [of x] join_first [of _ _ "stringify x" "[0x2C]" "map stringify ys"] Cons
        by fastforce
      moreover have "parseElems m (join [0x2C] (map stringify xs) @ 0x5D # r) = Some (map ofJson xs, r)"
        unfolding Cons by (rule parseElems_join) (use 5 r n Cons in auto)
      ultimately show ?thesis using n by simp
    qed (use n in simp)
  qed
next
  case (6 ps)
  have all: "\<forall>p \<in> set ps. parses (snd p)"
  proof
    fix p assume "p \<in> set ps"
    then show "parses (snd p)" using "6.IH" [of p "fst p" "snd p"] "6.prems" by simp
  qed
  show ?case unfolding parses_def
  proof (intro allI impI)
    fix r n assume r: "endOk r" "2 * length (stringify (JObj ps) @ r) < n"
    then obtain m where n: "n = Suc m" by (cases n) auto
    show "parseV n (stringify (JObj ps) @ r) = Some (ofJson (JObj ps), r)"
    proof (cases ps)
      case (Cons p qs)
      obtain k v where p: "p = (k, v)" by (cases p)
      obtain t where "join [0x2C] (map member ps) = 0x22 # t"
        using join_first [of "0x22" _ "member p" "[0x2C]" "map member qs"] Cons p
        by (fastforce simp: quoteStr_def)
      moreover have "parseMembers m [] (join [0x2C] (map member ps) @ 0x7D # r)
          = Some ([] @ map (\<lambda>(k, v). (k, ofJson v)) ps, r)"
        unfolding Cons p
        by (rule parseMembers_join) (use all "6.prems" r n Cons p in auto)
      ultimately show ?thesis using n by simp
    qed (use n in simp)
  qed
next
  case (4 s)
  show ?case unfolding parses_def
  proof (intro allI impI)
    fix r n assume "endOk r" "2 * length (stringify (JStr s) @ r) < n"
    then show "parseV n (stringify (JStr s) @ r) = Some (ofJson (JStr s), r)"
      by (cases n) (simp_all add: quoteStr_def parseStr_quoteUnits)
  qed
next
  case 1
  show ?case unfolding parses_def
  proof (intro allI impI)
    fix r n assume "endOk r" "2 * length (stringify JNull @ r) < n"
    then show "parseV n (stringify JNull @ r) = Some (ofJson JNull, r)"
      by (cases n) (simp_all add: js_def isWs_def startsWith_def)
  qed
next
  case (2 b)
  show ?case unfolding parses_def
  proof (intro allI impI)
    fix r n assume "endOk r" "2 * length (stringify (JBool b) @ r) < n"
    then show "parseV n (stringify (JBool b) @ r) = Some (ofJson (JBool b), r)"
      by (cases n) (simp_all add: js_def isWs_def startsWith_def)
  qed
qed

lemma jsonParse_stringify: "okJson j \<Longrightarrow> jsonParse (stringify j) = Some (ofJson j)"
  using parsesD [OF parses_stringify, of j "[]" "2 * length (stringify j) + 1"]
  by (simp add: jsonParse_def skipWs_def del: parseV.simps)

end
