(* ===== verification/Base64.thy ===== *)
theory Base64
  imports Validators Sha256
begin

section \<open>Base64 and base64url\<close>

text \<open>
  \<open>base64Decode\<close>, \<open>base64Encode\<close> and \<open>isCanonicalBase64\<close> of \<open>src/canonical.js\<close> and the cursor
  codec \<open>base64UrlEncode\<close>, \<open>base64UrlDecode\<close> of \<open>src/protocol.mjs\<close>, which goes through Node's
  \<open>Buffer\<close>. Both codecs are shown to be inverse, and the two canonicality checks to accept
  exactly the encoder's outputs.
\<close>

unbundle bit_operations_syntax

definition B64_ALPHABET :: jsstr where
  "B64_ALPHABET = js ''ABCDEFGHIJKLMNOPQRSTUVWXYZabcdefghijklmnopqrstuvwxyz0123456789+/''"

definition b64Char :: "u32 \<Rightarrow> code_unit" where
  "b64Char v = B64_ALPHABET ! unat v"

text \<open>\<open>B64_REVERSE[c] ?? 0\<close>: the index in the alphabet.\<close>

definition isB64 :: "code_unit \<Rightarrow> bool" where
  "isB64 u \<longleftrightarrow> isAlnum u \<or> u = 0x2B \<or> u = 0x2F"

definition b64Rev :: "code_unit \<Rightarrow> u32" where
  "b64Rev u = (case List.find (\<lambda>i. B64_ALPHABET ! i = u) [0..<64] of Some i \<Rightarrow> of_nat i | None \<Rightarrow> 0)"

text \<open>\<open>BASE64_RE\<close>.\<close>

fun base64Re :: "jsstr \<Rightarrow> bool" where
  "base64Re [] = True"
| "base64Re [a, b, c, d] =
     (isB64 a \<and> isB64 b \<and> (isB64 c \<and> isB64 d \<or> c = 0x3D \<and> d = 0x3D \<or> isB64 c \<and> d = 0x3D))"
| "base64Re (a # b # c # d # s) = (isB64 a \<and> isB64 b \<and> isB64 c \<and> isB64 d \<and> base64Re s)"
| "base64Re _ = False"

definition triple3 :: "byte \<Rightarrow> byte \<Rightarrow> byte \<Rightarrow> u32" where
  "triple3 b0 b1 b2 = push_bit 16 (ucast b0) OR push_bit 8 (ucast b1) OR ucast b2"

definition triple4 :: "u32 \<Rightarrow> u32 \<Rightarrow> u32 \<Rightarrow> u32 \<Rightarrow> u32" where
  "triple4 a b c d = push_bit 18 a OR push_bit 12 b OR push_bit 6 c OR d"

fun decodeGroups :: "jsstr \<Rightarrow> byte list" where
  "decodeGroups (p # q # r # s # t) =
     (let v = triple4 (b64Rev p) (b64Rev q) (b64Rev r) (b64Rev s)
      in ucast (drop_bit 16 v AND 0xFF) # ucast (drop_bit 8 v AND 0xFF) # ucast (v AND 0xFF)
         # decodeGroups t)"
| "decodeGroups _ = []"

definition endsWith :: "jsstr \<Rightarrow> jsstr \<Rightarrow> bool" where
  "endsWith s t \<longleftrightarrow> length t \<le> length s \<and> drop (length s - length t) s = t"

definition padCount :: "jsstr \<Rightarrow> nat" where
  "padCount s = (if endsWith s (js ''=='') then 2 else if endsWith s (js ''='') then 1 else 0)"

definition base64Decode :: "jsstr \<Rightarrow> byte list" where
  "base64Decode s =
     (let outLen = length s div 4 * 3 - padCount s
      in take outLen (decodeGroups s))"

fun base64Encode :: "byte list \<Rightarrow> jsstr" where
  "base64Encode [] = []"
| "base64Encode [b0] =
     (let v = triple3 b0 0 0
      in [b64Char (drop_bit 18 v AND 0x3F), b64Char (drop_bit 12 v AND 0x3F), 0x3D, 0x3D])"
| "base64Encode [b0, b1] =
     (let v = triple3 b0 b1 0
      in [b64Char (drop_bit 18 v AND 0x3F), b64Char (drop_bit 12 v AND 0x3F),
          b64Char (drop_bit 6 v AND 0x3F), 0x3D])"
| "base64Encode (b0 # b1 # b2 # t) =
     (let v = triple3 b0 b1 b2
      in b64Char (drop_bit 18 v AND 0x3F) # b64Char (drop_bit 12 v AND 0x3F)
         # b64Char (drop_bit 6 v AND 0x3F) # b64Char (v AND 0x3F) # base64Encode t)"

definition isCanonicalBase64 :: "jsval \<Rightarrow> bool" where
  "isCanonicalBase64 v = (case v of
       Str s \<Rightarrow> s \<noteq> [] \<and> base64Re s \<and> base64Encode (base64Decode s) = s
     | _ \<Rightarrow> False)"

subsection \<open>The cursor codec\<close>

text \<open>\<open>Buffer.toString('base64')\<close> is the encoder above; \<open>Buffer.from(_, 'base64')\<close> on a string of
  the alphabet and its padding decodes the groups of four, and the two or three characters left
  before the padding to one or two bytes; one character left is dropped.\<close>

fun bufferFromBase64 :: "jsstr \<Rightarrow> byte list" where
  "bufferFromBase64 (p # q # r # s # t) =
     (if r = 0x3D then take 1 (decodeGroups [p, q, r, s])
      else if s = 0x3D then take 2 (decodeGroups [p, q, r, s])
      else decodeGroups [p, q, r, s] @ bufferFromBase64 t)"
| "bufferFromBase64 _ = []"

definition toUrl :: "code_unit \<Rightarrow> code_unit" where
  "toUrl u = (if u = 0x2B then 0x2D else if u = 0x2F then 0x5F else u)"

definition ofUrl :: "code_unit \<Rightarrow> code_unit" where
  "ofUrl u = (if u = 0x2D then 0x2B else if u = 0x5F then 0x2F else u)"

definition isB64Url :: "code_unit \<Rightarrow> bool" where
  "isB64Url u \<longleftrightarrow> isAlnum u \<or> u = 0x5F \<or> u = 0x2D"

definition base64UrlEncode :: "byte list \<Rightarrow> jsstr" where
  "base64UrlEncode bs = rev (dropWhile (\<lambda>u. u = 0x3D) (rev (map toUrl (base64Encode bs))))"

definition base64UrlDecode :: "jsstr \<Rightarrow> byte list result" where
  "base64UrlDecode s =
     (if s = [] \<or> \<not> list_all isB64Url s then Inl (type_error ''cursor part must be base64url'')
      else let padded = map ofUrl s @ drop ((length s + 3) mod 4) (js ''==='');
               decoded = bufferFromBase64 padded
           in if base64UrlEncode decoded \<noteq> s
              then Inl (type_error ''cursor part is not canonical base64url'')
              else Inr decoded)"

subsection \<open>The alphabet\<close>

lemma length_B64_ALPHABET: "length B64_ALPHABET = 64"
  by (simp add: B64_ALPHABET_def js_def)

lemma less_64_cases: "i < 64 \<Longrightarrow> (i :: nat) \<in> set [0..<64]"
  by simp

lemma alphabet_all: "list_all isB64 B64_ALPHABET"
  by (simp add: B64_ALPHABET_def js_def isB64_def isAlnum_def isDigit_def)

lemma alphabet_distinct: "distinct B64_ALPHABET"
  by (simp add: B64_ALPHABET_def js_def)

lemma isB64_b64Char: "unat v < 64 \<Longrightarrow> isB64 (b64Char v)"
  using alphabet_all by (simp add: b64Char_def list_all_length length_B64_ALPHABET)

lemma b64Rev_b64Char [simp]: "unat v < 64 \<Longrightarrow> b64Rev (b64Char v) = v"
proof -
  assume v: "unat v < 64"
  then have "List.find (\<lambda>i. B64_ALPHABET ! i = b64Char v) [0..<64] = Some (unat v)"
    unfolding b64Char_def find_Some_iff
    using alphabet_distinct
    by (intro exI [of _ "unat v"]) (simp add: length_B64_ALPHABET nth_eq_iff_index_eq)
  then show ?thesis by (simp add: b64Rev_def)
qed

lemma and_sextet: "v AND 0x3F = (take_bit 6 v :: u32)"
  by (simp add: take_bit_eq_mask mask_eq_exp_minus_1)

lemma and_octet: "v AND 0xFF = (take_bit 8 v :: u32)"
  by (simp add: take_bit_eq_mask mask_eq_exp_minus_1)

lemma unat_and_63: "unat (v AND 0x3F :: u32) < 64"
  unfolding and_sextet unsigned_take_bit_eq by (simp add: take_bit_eq_mod)

lemma isB64_not_pad [simp]: "isB64 u \<Longrightarrow> u \<noteq> 0x3D"
  by (auto simp: isB64_def isAlnum_def isDigit_def)

lemma b64Rev_char [simp]: "b64Rev (b64Char (v AND 0x3F)) = v AND 0x3F"
  by (simp add: unat_and_63)

lemma b64Char_not_pad [simp]:
  "b64Char (v AND 0x3F) \<noteq> 0x3D" "isB64 (b64Char (v AND 0x3F))"
  using isB64_b64Char [OF unat_and_63] isB64_not_pad by blast+

lemma b64Rev_pad [simp]: "b64Rev 0x3D = 0"
proof -
  have "List.find (\<lambda>i. B64_ALPHABET ! i = 0x3D) [0..<64] = None"
    using alphabet_all isB64_not_pad
    by (auto simp: find_None_iff list_all_length length_B64_ALPHABET)
  then show ?thesis by (simp add: b64Rev_def)
qed

subsection \<open>Splitting three bytes into four sextets\<close>

lemma triple3_bound: "drop_bit 24 (triple3 a b c) = 0"
  by (rule bit_word_eqI) (auto simp: triple3_def bit_simps dest: bit_imp_le_length)

lemma bit_triple3_high: "24 \<le> i \<Longrightarrow> \<not> bit (triple3 a b c) i"
  by (auto simp: triple3_def bit_simps dest: bit_imp_le_length)

lemma triple4_triple3:
  "triple4 (drop_bit 18 (triple3 a b c) AND 0x3F) (drop_bit 12 (triple3 a b c) AND 0x3F)
     (drop_bit 6 (triple3 a b c) AND 0x3F) (triple3 a b c AND 0x3F) = triple3 a b c"
  (is "triple4 ?p ?q ?r ?s = ?v")
proof (rule bit_word_eqI)
  fix i assume "i < LENGTH(32)"
  then have i: "i < 32" by simp
  consider "i < 6" | "6 \<le> i" "i < 12" | "12 \<le> i" "i < 18" | "18 \<le> i" "i < 24" | "24 \<le> i"
    by linarith
  then show "bit (triple4 ?p ?q ?r ?s) i \<longleftrightarrow> bit ?v i"
    using i bit_triple3_high [of i a b c]
    by cases (auto simp: triple4_def and_sextet bit_simps)
qed

lemma octets_triple3:
  "ucast (drop_bit 16 (triple3 a b c) AND 0xFF) = a"
  "ucast (drop_bit 8 (triple3 a b c) AND 0xFF) = b"
  "ucast (triple3 a b c AND 0xFF) = c"
  by (rule bit_word_eqI; auto simp: and_octet triple3_def bit_simps dest: bit_imp_le_length)+

subsection \<open>The codec of the encrypted body\<close>

lemma sextet_zero [simp]:
  "drop_bit 6 (triple3 a 0 0) AND 0x3F = 0" "triple3 a 0 0 AND 0x3F = 0" "triple3 a b 0 AND 0x3F = 0"
  by (rule bit_word_eqI; auto simp: and_sextet triple3_def bit_simps dest: bit_imp_le_length)+

lemma triple4_pad:
  "triple4 (drop_bit 18 (triple3 a 0 0) AND 0x3F) (drop_bit 12 (triple3 a 0 0) AND 0x3F) 0 0
     = triple3 a 0 0"
  "triple4 (drop_bit 18 (triple3 a b 0) AND 0x3F) (drop_bit 12 (triple3 a b 0) AND 0x3F)
     (drop_bit 6 (triple3 a b 0) AND 0x3F) 0 = triple3 a b 0"
  using triple4_triple3 [of a 0 0] triple4_triple3 [of a b 0] by simp_all

fun padOf :: "nat \<Rightarrow> nat" where
  "padOf 0 = 0"
| "padOf (Suc 0) = 2"
| "padOf (Suc (Suc 0)) = 1"
| "padOf (Suc (Suc (Suc n))) = padOf n"

lemma decodeGroups_encode:
  "decodeGroups (base64Encode bs) = bs @ replicate (padOf (length bs)) 0"
proof (induction bs rule: base64Encode.induct)
  case (2 b0)
  show ?case
    using octets_triple3 [of b0 0 0]
    by (simp only: base64Encode.simps decodeGroups.simps Let_def b64Rev_char b64Rev_pad triple4_pad
        octets_triple3) (simp add: numeral_2_eq_2)
next
  case (3 b0 b1)
  show ?case
    by (simp only: base64Encode.simps decodeGroups.simps Let_def b64Rev_char b64Rev_pad triple4_pad
        octets_triple3) simp
next
  case (4 b0 b1 b2 t)
  then show ?case
    by (simp only: base64Encode.simps decodeGroups.simps Let_def b64Rev_char triple4_triple3
        octets_triple3) simp
qed simp

lemma base64Encode_Nil_iff [simp]: "base64Encode bs = [] \<longleftrightarrow> bs = []"
  by (cases bs rule: base64Encode.cases) (simp_all add: Let_def)

lemma length_base64Encode: "length (base64Encode bs) div 4 * 3 = length bs + padOf (length bs)"
  by (induction bs rule: base64Encode.induct) (simp_all add: Let_def)

lemma length_base64Encode_ge: "bs \<noteq> [] \<Longrightarrow> 4 \<le> length (base64Encode bs)"
  by (cases bs rule: base64Encode.cases) (simp_all add: Let_def)

lemma endsWith_append: "length t \<le> length s \<Longrightarrow> endsWith (p @ s) t \<longleftrightarrow> endsWith s t"
  by (auto simp: endsWith_def Suc_diff_le)

lemma padCount_append: "2 \<le> length s \<Longrightarrow> padCount (p @ s) = padCount s"
  by (simp add: padCount_def js_def endsWith_append)

lemma padCount_encode: "padCount (base64Encode bs) = padOf (length bs)"
proof (induction bs rule: base64Encode.induct)
  case (4 b0 b1 b2 t)
  show ?case
  proof (cases "t = []")
    case True
    then show ?thesis
      by (simp only: base64Encode.simps Let_def) (simp add: padCount_def endsWith_def js_def)
  next
    case False
    then have "2 \<le> length (base64Encode t)" using length_base64Encode_ge [of t] by simp
    then have "padCount ([p, q, r, s] @ base64Encode t) = padCount (base64Encode t)" for p q r s
      by (rule padCount_append)
    with 4 show ?thesis by (simp only: base64Encode.simps Let_def) simp
  qed
qed (simp_all only: base64Encode.simps Let_def, simp_all add: padCount_def endsWith_def js_def)

lemma base64Decode_encode: "base64Decode (base64Encode bs) = bs"
  by (simp add: base64Decode_def padCount_encode length_base64Encode decodeGroups_encode)

lemma base64Re_Cons: "isB64 a \<Longrightarrow> isB64 b \<Longrightarrow> isB64 c \<Longrightarrow> isB64 d \<Longrightarrow> base64Re s \<Longrightarrow>
  base64Re (a # b # c # d # s)"
  by (cases s) simp_all

lemma base64Re_encode: "base64Re (base64Encode bs)"
  by (induction bs rule: base64Encode.induct)
    (simp_all only: base64Encode.simps Let_def base64Re_Cons b64Char_not_pad base64Re.simps, simp_all)

lemma isCanonicalBase64_Str:
  "isCanonicalBase64 (Str s) \<longleftrightarrow> (\<exists>bs. bs \<noteq> [] \<and> s = base64Encode bs)"
proof
  assume "isCanonicalBase64 (Str s)"
  then have "s \<noteq> []" "s = base64Encode (base64Decode s)"
    by (auto simp: isCanonicalBase64_def)
  then show "\<exists>bs. bs \<noteq> [] \<and> s = base64Encode bs" by (metis base64Encode.simps(1))
next
  assume "\<exists>bs. bs \<noteq> [] \<and> s = base64Encode bs"
  then show "isCanonicalBase64 (Str s)"
    by (auto simp: isCanonicalBase64_def base64Re_encode base64Decode_encode)
qed

subsection \<open>The codec of the cursor\<close>

lemma stripPad_Cons:
  "u \<noteq> 0x3D \<Longrightarrow> rev (dropWhile (\<lambda>u. u = 0x3D) (rev (u # s)))
     = u # rev (dropWhile (\<lambda>u. u = (0x3D :: code_unit)) (rev s))"
  by (cases "\<forall>x \<in> set s. x = 0x3D") (auto simp: dropWhile_append)

lemma toUrl_char: "isB64 u \<Longrightarrow> toUrl u \<noteq> 0x3D" "isB64 u \<Longrightarrow> ofUrl (toUrl u) = u"
  "isB64 u \<Longrightarrow> isB64Url (toUrl u)"
  by (auto simp: toUrl_def ofUrl_def isB64Url_def isB64_def isAlnum_def isDigit_def)

abbreviation urlChar :: "u32 \<Rightarrow> code_unit" where
  "urlChar v \<equiv> toUrl (b64Char (v AND 0x3F))"

lemma urlChar_simps [simp]:
  "urlChar v \<noteq> 0x3D" "ofUrl (urlChar v) = b64Char (v AND 0x3F)" "isB64Url (urlChar v)"
  by (simp_all only: toUrl_char b64Char_not_pad not_False_eq_True)

lemma base64UrlEncode_simps:
  "base64UrlEncode [] = []"
  "base64UrlEncode [b0] = (let v = triple3 b0 0 0 in [urlChar (drop_bit 18 v), urlChar (drop_bit 12 v)])"
  "base64UrlEncode [b0, b1] = (let v = triple3 b0 b1 0
     in [urlChar (drop_bit 18 v), urlChar (drop_bit 12 v), urlChar (drop_bit 6 v)])"
  "base64UrlEncode (b0 # b1 # b2 # t) = (let v = triple3 b0 b1 b2
     in urlChar (drop_bit 18 v) # urlChar (drop_bit 12 v) # urlChar (drop_bit 6 v) # urlChar v
        # base64UrlEncode t)"
  unfolding base64UrlEncode_def base64Encode.simps Let_def list.map
  by (simp_all only: stripPad_Cons urlChar_simps not_False_eq_True) (simp_all add: toUrl_def)

definition urlPad :: "nat \<Rightarrow> jsstr" where
  "urlPad n = drop ((n + 3) mod 4) (js ''==='')"

lemma urlPad_simps:
  "urlPad 0 = []" "urlPad 2 = [0x3D, 0x3D]" "urlPad 3 = [0x3D]" "urlPad (Suc (Suc (Suc (Suc n)))) = urlPad n"
proof -
  have "(n + 4 + 3) mod 4 = (n + 3) mod 4"
    using mod_add_self2 [of "n + 3" 4] by (simp only: add.assoc add.commute [of 4 3])
  then show "urlPad (Suc (Suc (Suc (Suc n)))) = urlPad n" by (simp add: urlPad_def)
qed (simp_all add: urlPad_def js_def)

lemma bufferFromBase64_urlEncode:
  "bufferFromBase64 (map ofUrl (base64UrlEncode bs) @ urlPad (length (base64UrlEncode bs))) = bs"
proof (induction bs rule: base64Encode.induct)
  case (2 b0)
  have "length (base64UrlEncode [b0]) = 2" by (simp only: base64UrlEncode_simps Let_def) simp
  then show ?case
    by (simp only: base64UrlEncode_simps Let_def urlPad_simps list.map urlChar_simps append.simps
        bufferFromBase64.simps decodeGroups.simps b64Rev_char b64Rev_pad triple4_pad octets_triple3)
      simp
next
  case (3 b0 b1)
  have "length (base64UrlEncode [b0, b1]) = 3" by (simp only: base64UrlEncode_simps Let_def) simp
  then show ?case
    by (simp only: base64UrlEncode_simps Let_def urlPad_simps list.map urlChar_simps append.simps
        bufferFromBase64.simps decodeGroups.simps b64Rev_char b64Rev_pad triple4_pad octets_triple3
        b64Char_not_pad if_False) simp
next
  case (4 b0 b1 b2 t)
  then show ?case
    by (simp only: base64UrlEncode_simps Let_def urlPad_simps list.map urlChar_simps append.simps
        bufferFromBase64.simps decodeGroups.simps b64Rev_char triple4_triple3 octets_triple3
        b64Char_not_pad if_False list.size add_0_right add_Suc_right)
qed (simp add: base64UrlEncode_simps urlPad_simps)

lemma isB64Url_urlEncode: "list_all isB64Url (base64UrlEncode bs)"
  by (induction bs rule: base64Encode.induct)
    (simp_all only: base64UrlEncode_simps Let_def urlChar_simps list.pred_inject simp_thms)

lemma base64UrlEncode_Nil_iff [simp]: "base64UrlEncode bs = [] \<longleftrightarrow> bs = []"
  by (cases bs rule: base64Encode.cases) (simp_all add: base64UrlEncode_simps Let_def)

lemma base64UrlDecode_Inr [result_simps]:
  "base64UrlDecode s = Inr bs \<longleftrightarrow> bs \<noteq> [] \<and> s = base64UrlEncode bs"
proof
  assume "base64UrlDecode s = Inr bs"
  then show "bs \<noteq> [] \<and> s = base64UrlEncode bs"
    by (auto simp: base64UrlDecode_def Let_def split: if_splits)
next
  assume "bs \<noteq> [] \<and> s = base64UrlEncode bs"
  then show "base64UrlDecode s = Inr bs"
    using bufferFromBase64_urlEncode [of bs]
    by (simp add: base64UrlDecode_def isB64Url_urlEncode urlPad_def)
qed

lemma base64UrlEncode_inject: "base64UrlEncode a = base64UrlEncode b \<longleftrightarrow> a = b"
  by (metis bufferFromBase64_urlEncode)

subsection \<open>Properties\<close>

text \<open>\<open>isCanonicalBase64\<close> accepts exactly the non-empty outputs of the encoder, and decoding
  an output gives the bytes back.\<close>

theorem canonical_base64:
  "(isCanonicalBase64 v \<longleftrightarrow> v \<in> (\<lambda>bs. Str (base64Encode bs)) ` {bs. bs \<noteq> []}) \<and>
   base64Decode (base64Encode bs) = bs"
proof
  show "isCanonicalBase64 v \<longleftrightarrow> v \<in> (\<lambda>bs. Str (base64Encode bs)) ` {bs. bs \<noteq> []}"
  proof (cases "\<exists>s. v = Str s")
    case True
    then show ?thesis using isCanonicalBase64_Str by auto
  next
    case False
    then show ?thesis by (cases v) (auto simp: isCanonicalBase64_def)
  qed
  show "base64Decode (base64Encode bs) = bs" by (rule base64Decode_encode)
qed

text \<open>The cursor codec: \<open>base64UrlDecode\<close> accepts exactly the outputs of
  \<open>base64UrlEncode\<close> on non-empty buffers, and returns the bytes that were encoded; no other
  spelling of the same bytes is accepted.\<close>

theorem base64url_canonical:
  "base64UrlDecode s = Inr bs \<longleftrightarrow> bs \<noteq> [] \<and> s = base64UrlEncode bs"
  by (rule base64UrlDecode_Inr)

end
