(* ===== verification/Canonical.thy ===== *)
theory Canonical
  imports Json Base64
begin

section \<open>Canonical bodies and record keys\<close>

text \<open>
  The rest of \<open>src/canonical.js\<close>: the scanner that rejects duplicate top-level members
  (\<open>skipJsonWhitespace\<close>, \<open>scanJsonStringEnd\<close>, \<open>skipJsonValue\<close>,
  \<open>assertNoDuplicateTopLevelKeys\<close>), \<open>validateEncryptedBody\<close>, \<open>bodyHash\<close> and
  \<open>canonicalRecordKey\<close>. An index into the text is the suffix that starts there, and the \<open>-1\<close> of
  the scanner is \<open>None\<close>.
\<close>

subsection \<open>Scanning\<close>

text \<open>From after the opening quote to the closing quote.\<close>

function scanJsonStringEnd :: "jsstr \<Rightarrow> jsstr option" where
  "scanJsonStringEnd s = (case s of
       [] \<Rightarrow> None
     | u # t \<Rightarrow>
         if u = 0x22 then Some s
         else if u = 0x5C then
           (case t of
              v # _ \<Rightarrow> if v = 0x75 then scanJsonStringEnd (drop 6 s) else scanJsonStringEnd (drop 2 s)
            | [] \<Rightarrow> scanJsonStringEnd (drop 2 s))
         else if u < 0x20 then None
         else scanJsonStringEnd t)"
  by pat_completeness auto
termination by (relation "measure length") auto

declare scanJsonStringEnd.simps [simp del]

definition literalEnd :: "jsstr \<Rightarrow> jsstr option" where
  "literalEnd s =
     (if startsWith s (js ''true'') then Some (drop 4 s)
      else if startsWith s (js ''false'') then Some (drop 5 s)
      else if startsWith s (js ''null'') then Some (drop 4 s)
      else let s0 = (case s of u # t \<Rightarrow> if u = 0x2D then t else s | [] \<Rightarrow> s)
           in case parseInt s0 of None \<Rightarrow> None
              | Some (_, s1) \<Rightarrow>
                  let s2 = (case parseFrac s1 of Some (_, r) \<Rightarrow> r | None \<Rightarrow> s1)
                  in Some (case parseExp s2 of Some (_, r) \<Rightarrow> r | None \<Rightarrow> s2))"

text \<open>The two loops of \<open>skipJsonValue\<close>, from a member and from an element; \<open>skip\<close> is the
  recursive call one level deeper, and the fuel bounds the iterations.\<close>

fun skipMembers :: "(jsstr \<Rightarrow> jsstr option) \<Rightarrow> nat \<Rightarrow> jsstr \<Rightarrow> jsstr option" where
  "skipMembers skip 0 s = None"
| "skipMembers skip (Suc n) s = (case skipWs s of
      [] \<Rightarrow> None
    | u # t \<Rightarrow> if u \<noteq> 0x22 then None else (case scanJsonStringEnd t of
        None \<Rightarrow> None
      | Some q \<Rightarrow> (case skipWs (tl q) of
          [] \<Rightarrow> None
        | c # t1 \<Rightarrow> if c \<noteq> 0x3A then None else (case skip t1 of
            None \<Rightarrow> None
          | Some t2 \<Rightarrow> (case skipWs t2 of
              [] \<Rightarrow> None
            | d # t3 \<Rightarrow> if d = 0x7D then Some t3
                       else if d \<noteq> 0x2C then None
                       else skipMembers skip n t3)))))"

fun skipElems :: "(jsstr \<Rightarrow> jsstr option) \<Rightarrow> nat \<Rightarrow> jsstr \<Rightarrow> jsstr option" where
  "skipElems skip 0 s = None"
| "skipElems skip (Suc n) s = (case skip s of
      None \<Rightarrow> None
    | Some t2 \<Rightarrow> (case skipWs t2 of
        [] \<Rightarrow> None
      | d # t3 \<Rightarrow> if d = 0x5D then Some t3
                 else if d \<noteq> 0x2C then None
                 else skipElems skip n t3))"

text \<open>The argument counts the levels left: 101 at depth 0, as \<open>depth > 100\<close> is refused.\<close>

fun skipJsonValue :: "nat \<Rightarrow> jsstr \<Rightarrow> jsstr option" where
  "skipJsonValue 0 s = None"
| "skipJsonValue (Suc d) s = (case skipWs s of
      [] \<Rightarrow> None
    | u # t \<Rightarrow>
        if u = 0x22 then map_option tl (scanJsonStringEnd t)
        else if u = 0x7B then
          (if take 1 (skipWs t) = [0x7D] then Some (tl (skipWs t))
           else skipMembers (skipJsonValue d) (Suc (length t)) (skipWs t))
        else if u = 0x5B then
          (if take 1 (skipWs t) = [0x5D] then Some (tl (skipWs t))
           else skipElems (skipJsonValue d) (Suc (length t)) (skipWs t))
        else literalEnd (u # t))"

fun noDupLoop :: "nat \<Rightarrow> bool \<Rightarrow> jsval list \<Rightarrow> jsstr \<Rightarrow> unit result" where
  "noDupLoop 0 first seen s = Inr ()"
| "noDupLoop (Suc n) first seen s = (case skipWs s of
      [] \<Rightarrow> Inr ()
    | u # t \<Rightarrow>
        if u = 0x7D then Inr ()
        else if \<not> first \<and> u \<noteq> 0x2C then Inr ()
        else (case (if first then u # t else skipWs t) of
            [] \<Rightarrow> Inr ()
          | v # k \<Rightarrow>
              if v \<noteq> 0x22 then Inr ()
              else (case scanJsonStringEnd k of
                  None \<Rightarrow> Inr ()
                | Some q \<Rightarrow>
                    (case jsonParse (0x22 # take (Suc (length k - length q)) k) of
                       None \<Rightarrow> Inr ()
                     | Some key \<Rightarrow>
                         if key \<in> set seen
                         then Inl (type_error ''body must not contain duplicate JSON members'')
                         else (case skipWs (tl q) of
                             [] \<Rightarrow> Inr ()
                           | c # t1 \<Rightarrow>
                               if c \<noteq> 0x3A then Inr ()
                               else (case skipJsonValue 101 t1 of
                                   None \<Rightarrow> Inr ()
                                 | Some t2 \<Rightarrow> noDupLoop n False (key # seen) t2))))))"

definition assertNoDuplicateTopLevelKeys :: "jsval \<Rightarrow> unit result" where
  "assertNoDuplicateTopLevelKeys v = (case v of
       Str s \<Rightarrow> (case skipWs s of
           u # t \<Rightarrow> if u = 0x7B then noDupLoop (Suc (length t)) True [] t else Inr ()
         | [] \<Rightarrow> Inr ())
     | _ \<Rightarrow> Inl (type_error ''body must be a string''))"

subsection \<open>The encrypted body\<close>

definition parseJsonObject :: "jsval \<Rightarrow> (jsstr \<times> jsval) list result" where
  "parseJsonObject v = (case v of
       Str s \<Rightarrow> (case jsonParse s of
           None \<Rightarrow> Inl (type_error ''body is not valid JSON'')
         | Some (Obj ps) \<Rightarrow> Inr ps
         | Some _ \<Rightarrow> Inl (type_error ''body must be a JSON object string''))
     | Obj ps \<Rightarrow> Inr ps
     | _ \<Rightarrow> Inl (type_error ''body must be a JSON object''))"

definition MAX_BODY_BYTES :: nat where
  "MAX_BODY_BYTES = 1024 * 1024"

definition validateEncryptedBody :: "jsval \<Rightarrow> jsstr result" where
  "validateEncryptedBody v = (case v of
       Str s \<Rightarrow>
         if hasInvalidUnicode s then Inl (type_error ''body contains invalid Unicode'')
         else if MAX_BODY_BYTES < utf8ByteLength s then Inl (range_error ''body exceeds 1 MiB'')
         else andThen (assertNoDuplicateTopLevelKeys v) (\<lambda>_.
              andThen (parseJsonObject v) (\<lambda>ps.
                (case getProp ps (js ''encryptedMessage'') of
                   Str e \<Rightarrow> if length ps \<noteq> 1 \<or> \<not> isCanonicalBase64 (Str e)
                            then Inl (type_error ''body must be exactly { encryptedMessage: canonical base64 }'')
                            else Inr e
                 | _ \<Rightarrow> Inl (type_error ''body must be exactly { encryptedMessage: canonical base64 }''))))
     | _ \<Rightarrow> Inl (type_error ''body must be a string''))"

definition bodyHash :: "jsval \<Rightarrow> jsstr result" where
  "bodyHash v = (case v of
       Str s \<Rightarrow> if hasInvalidUnicode s then Inl (type_error ''body contains invalid Unicode'')
                else Inr (sha256Hex (utf8Bytes s))
     | _ \<Rightarrow> Inl (type_error ''body must be a string''))"

subsection \<open>The record key\<close>

definition RECORD_DOMAIN :: jsstr where
  "RECORD_DOMAIN = js ''message-box-store:record:v1''"

definition lengthPrefixed :: "byte list list \<Rightarrow> byte list" where
  "lengthPrefixed fs = concat (map (\<lambda>bs. beBytes32 (of_nat (length bs)) @ bs) fs)"

definition requireIdentity :: "string \<Rightarrow> jsval \<Rightarrow> jsstr result" where
  "requireIdentity name v = (case v of
       Str s \<Rightarrow> if isIdentityKey v then Inr s
                else Inl (type_error (name @ '' must be a compressed lowercase identity key''))
     | _ \<Rightarrow> Inl (type_error (name @ '' must be a compressed lowercase identity key'')))"

definition canonicalRecordKey ::
  "jsval \<Rightarrow> jsval \<Rightarrow> jsval \<Rightarrow> jsval \<Rightarrow> jsval \<Rightarrow> jsval \<Rightarrow> jsstr result" where
  "canonicalRecordKey ownerIdentityKey direction messageBox sender recipient messageId =
     andThen (requireIdentity ''ownerIdentityKey'' ownerIdentityKey) (\<lambda>owner.
     andThen (requireIdentity ''sender'' sender) (\<lambda>sdr.
     andThen (requireIdentity ''recipient'' recipient) (\<lambda>rcp.
     andThen (validateDirection direction) (\<lambda>dir.
     andThen (validateMessageBox messageBox) (\<lambda>box.
     andThen (validateMessageId messageId) (\<lambda>mid.
       Inr (sha256Hex (lengthPrefixed
              (map utf8Bytes [RECORD_DOMAIN, owner, dir, box, sdr, rcp, mid])))))))))"

subsection \<open>The scanner on printed JSON\<close>

lemma scan_plain:
  "u \<noteq> 0x22 \<Longrightarrow> u \<noteq> 0x5C \<Longrightarrow> \<not> u < 0x20 \<Longrightarrow> scanJsonStringEnd (u # t) = scanJsonStringEnd t"
  by (subst scanJsonStringEnd.simps) simp

lemma scan_close: "scanJsonStringEnd (0x22 # t) = Some (0x22 # t)"
  by (subst scanJsonStringEnd.simps) simp

lemma scan_escape:
  "v \<noteq> 0x75 \<Longrightarrow> scanJsonStringEnd (0x5C # v # t) = scanJsonStringEnd t"
  "scanJsonStringEnd (0x5C # 0x75 # a # b # c # d # t) = scanJsonStringEnd t"
  by (subst scanJsonStringEnd.simps, simp)+

lemma scan_surrogate:
  "is_high u \<or> is_low u \<Longrightarrow> scanJsonStringEnd (u # t) = scanJsonStringEnd t"
  by (rule scan_plain) (auto simp: is_high_unat is_low_unat word_less_nat_alt)

lemma scan_quoteUnit: "scanJsonStringEnd (quoteUnit u @ t) = scanJsonStringEnd t"
  by (simp add: quoteUnit_def scan_plain scan_escape hex4_def)

lemma scan_quoteUnits: "scanJsonStringEnd (quoteUnits s @ 0x22 # r) = Some (0x22 # r)"
  by (induction s rule: quoteUnits.induct) (auto simp: scan_close scan_quoteUnit scan_surrogate)

fun jdepth :: "json \<Rightarrow> nat" where
  "jdepth (JArr xs) = Suc (Max (insert 0 (set (map jdepth xs))))"
| "jdepth (JObj ps) = Suc (Max (insert 0 (set (map (\<lambda>p. jdepth (snd p)) ps))))"
| "jdepth _ = 0"

definition skips :: "nat \<Rightarrow> json \<Rightarrow> bool" where
  "skips d j \<longleftrightarrow> (\<forall>r. endOk r \<longrightarrow> skipJsonValue d (stringify j @ r) = Some r)"

lemma skipsD: "skips d j \<Longrightarrow> endOk r \<Longrightarrow> skipJsonValue d (stringify j @ r) = Some r"
  by (simp add: skips_def)

lemma skipElems_join:
  "\<forall>x \<in> set (x # xs). skips d x \<Longrightarrow> length (join [0x2C] (map stringify (x # xs)) @ 0x5D # r) \<le> n \<Longrightarrow>
   skipElems (skipJsonValue d) n (join [0x2C] (map stringify (x # xs)) @ 0x5D # r) = Some r"
proof (induction xs arbitrary: x n)
  case Nil
  then obtain m where n: "n = Suc m" by (cases n) auto
  then show ?case using skipsD [of d x "0x5D # r"] Nil by simp
next
  case (Cons y ys)
  obtain m where n: "n = Suc m" using Cons.prems(2) by (cases n) auto
  let ?t = "join [0x2C] (map stringify (y # ys)) @ 0x5D # r"
  have "skipElems (skipJsonValue d) m ?t = Some r"
    by (rule Cons.IH) (use Cons.prems n in simp_all)
  then show ?case using n skipsD [of d x "0x2C # ?t"] Cons.prems by simp
qed

lemma skipMembers_join:
  "\<forall>p \<in> set (p # ps). skips d (snd p) \<Longrightarrow> length (join [0x2C] (map member (p # ps)) @ 0x7D # r) \<le> n \<Longrightarrow>
   skipMembers (skipJsonValue d) n (join [0x2C] (map member (p # ps)) @ 0x7D # r) = Some r"
proof (induction ps arbitrary: p n)
  case Nil
  obtain k v where p: "p = (k, v)" by (cases p)
  obtain m where n: "n = Suc m" using Nil(2) by (cases n) auto
  show ?case
    using n p Nil skipsD [of d v "0x7D # r"] scan_quoteUnits [of k "0x3A # stringify v @ 0x7D # r"]
    by (simp add: quoteStr_def)
next
  case (Cons p' ps)
  obtain k v where p: "p = (k, v)" by (cases p)
  obtain m where n: "n = Suc m" using Cons.prems(2) by (cases n) auto
  let ?t = "join [0x2C] (map member (p' # ps)) @ 0x7D # r"
  have "skipMembers (skipJsonValue d) m ?t = Some r"
    by (rule Cons.IH) (use Cons.prems n p in \<open>simp_all add: quoteStr_def\<close>)
  then show ?case
    using n p Cons.prems skipsD [of d v "0x2C # ?t"]
      scan_quoteUnits [of k "0x3A # stringify v @ 0x2C # ?t"]
    by (simp add: quoteStr_def)
qed

lemma literalEnd_intString: "endOk r \<Longrightarrow> literalEnd (intString z @ r) = Some r"
proof -
  assume r: "endOk r"
  show ?thesis
  proof (cases "z < 0")
    case True
    then show ?thesis using r parseInt_decOfNat [of r "nat (- z)"]
      by (simp add: literalEnd_def intString_def startsWith_def js_def parse_end Let_def)
  next
    case False
    obtain u t where d: "decOfNat (nat z) = u # t" and u: "isDigit u"
      using decOfNat_Cons by blast
    then have "u \<noteq> 0x2D" "u \<noteq> 0x6E" "u \<noteq> 0x74" "u \<noteq> 0x66" by (auto simp: isDigit_def)
    then show ?thesis using r False d parseInt_decOfNat [of r "nat z"]
      by (simp add: literalEnd_def intString_def startsWith_def js_def parse_end Let_def)
  qed
qed

lemma skips_stringify: "jdepth j < d \<Longrightarrow> skips d j"
proof (induction j arbitrary: d rule: stringify.induct)
  case (3 z)
  then obtain d' where d: "d = Suc d'" by (cases d) auto
  obtain u t where ut: "intString z = u # t" and u: "isDigit u \<or> u = 0x2D"
    using decOfNat_Cons [of "nat (if z < 0 then - z else z)"]
    by (cases "z < 0") (auto simp: intString_def)
  then have "\<not> isWs u" "u \<noteq> 0x7B" "u \<noteq> 0x5B" "u \<noteq> 0x22"
    by (auto simp: isWs_def isDigit_def)
  then show ?case using ut d literalEnd_intString [of _ z] by (simp add: skips_def)
next
  case (5 xs)
  then obtain d' where d: "d = Suc d'" by (cases d) auto
  have all: "\<forall>x \<in> set xs. skips d' x" using 5 d by auto
  show ?case unfolding skips_def
  proof (intro allI impI)
    fix r assume "endOk r"
    show "skipJsonValue d (stringify (JArr xs) @ r) = Some r"
    proof (cases xs)
      case (Cons x ys)
      obtain u t where "join [0x2C] (map stringify xs) = u # t" "\<not> isWs u" "u \<noteq> 0x5D"
        using stringify_first [of x] join_first [of _ _ "stringify x" "[0x2C]" "map stringify ys"] Cons
        by fastforce
      moreover have "skipElems (skipJsonValue d') (Suc (length (join [0x2C] (map stringify xs) @ 0x5D # r)))
          (join [0x2C] (map stringify xs) @ 0x5D # r) = Some r"
        unfolding Cons by (rule skipElems_join) (use all Cons in simp_all)
      ultimately show ?thesis using d by simp
    qed (use d in simp)
  qed
next
  case (6 ps)
  then obtain d' where d: "d = Suc d'" by (cases d) auto
  have all: "\<forall>p \<in> set ps. skips d' (snd p)"
  proof
    fix p assume "p \<in> set ps"
    then show "skips d' (snd p)" using "6.IH" [of p "fst p" "snd p" d'] "6.prems" d by auto
  qed
  show ?case unfolding skips_def
  proof (intro allI impI)
    fix r assume "endOk r"
    show "skipJsonValue d (stringify (JObj ps) @ r) = Some r"
    proof (cases ps)
      case (Cons p qs)
      obtain t where "join [0x2C] (map member ps) = 0x22 # t"
        using join_first [of "0x22" _ "member p" "[0x2C]" "map member qs"] Cons
        by (cases p) (fastforce simp: quoteStr_def)
      moreover have "skipMembers (skipJsonValue d') (Suc (length (join [0x2C] (map member ps) @ 0x7D # r)))
          (join [0x2C] (map member ps) @ 0x7D # r) = Some r"
        unfolding Cons by (rule skipMembers_join) (use all Cons in simp_all)
      ultimately show ?thesis using d by simp
    qed (use d in simp)
  qed
next
  case (4 s)
  then show ?case by (cases d) (simp_all add: skips_def quoteStr_def scan_quoteUnits)
next
  case 1
  then show ?case by (cases d) (simp_all add: skips_def js_def isWs_def literalEnd_def startsWith_def)
next
  case (2 b)
  then show ?case by (cases d) (simp_all add: skips_def js_def isWs_def literalEnd_def startsWith_def)
qed

subsection \<open>Duplicate members\<close>

lemma jsonParse_key:
  "jsonParse (0x22 # take (Suc (length (quoteUnits k @ 0x22 # r) - length (0x22 # r)))
     (quoteUnits k @ 0x22 # r)) = Some (Str k)"
  using jsonParse_stringify [of "JStr k"] by (simp add: quoteStr_def)

definition dupError :: jserr where
  "dupError = type_error ''body must not contain duplicate JSON members''"

lemma noDupLoop_step:
  assumes v: "skips 101 v" and r: "endOk r"
  shows "noDupLoop (Suc n) True seen (quoteStr k @ 0x3A # stringify v @ r) =
           (if Str k \<in> set seen then Inl dupError else noDupLoop n False (Str k # seen) r)"
    and "noDupLoop (Suc n) False seen (0x2C # quoteStr k @ 0x3A # stringify v @ r) =
           (if Str k \<in> set seen then Inl dupError else noDupLoop n False (Str k # seen) r)"
  using skipsD [OF v r] scan_quoteUnits [of k "0x3A # stringify v @ r"]
    jsonParse_key [of k "0x3A # stringify v @ r"]
  by (simp_all add: quoteStr_def dupError_def del: skipJsonValue.simps)

lemma noDupLoop_rest:
  "\<forall>p \<in> set ps. skips 101 (snd p) \<Longrightarrow> length ps < n \<Longrightarrow>
   noDupLoop n False seen (concat (map (\<lambda>p. 0x2C # member p) ps) @ 0x7D # r) =
     (if distinct (map fst ps) \<and> Str ` set (map fst ps) \<inter> set seen = {} then Inr () else Inl dupError)"
proof (induction ps arbitrary: n seen)
  case Nil
  then show ?case by (cases n) simp_all
next
  case (Cons p ps)
  obtain k v where p: "p = (k, v)" by (cases p)
  obtain m where n: "n = Suc m" using Cons.prems(2) by (cases n) auto
  let ?t = "concat (map (\<lambda>p. 0x2C # member p) ps) @ 0x7D # r"
  have "endOk ?t" by (cases ps) simp_all
  then have "noDupLoop n False seen (0x2C # quoteStr k @ 0x3A # stringify v @ ?t) =
      (if Str k \<in> set seen then Inl dupError else noDupLoop m False (Str k # seen) ?t)"
    unfolding n using Cons.prems p by (intro noDupLoop_step) simp_all
  moreover have "noDupLoop m False (Str k # seen) ?t =
      (if distinct (map fst ps) \<and> Str ` set (map fst ps) \<inter> set (Str k # seen) = {}
       then Inr () else Inl dupError)"
    by (rule Cons.IH) (use Cons.prems n in simp_all)
  ultimately show ?case using p by (auto simp: image_iff)
qed

lemma join_concat: "join [c] (x # xs) = x @ concat (map (\<lambda>y. c # y) xs)"
  by (induction xs arbitrary: x) auto

lemma length_concat_ge: "length ps \<le> length (concat (map (\<lambda>p. c # f p) ps))"
  by (induction ps) auto

lemma assertNoDuplicate_stringify:
  assumes "\<forall>p \<in> set ps. jdepth (snd p) \<le> 100"
  shows "assertNoDuplicateTopLevelKeys (Str (stringify (JObj ps))) =
           (if distinct (map fst ps) then Inr () else Inl dupError)"
proof (cases ps)
  case Nil
  then show ?thesis by (simp add: assertNoDuplicateTopLevelKeys_def)
next
  case (Cons p qs)
  obtain k v where p: "p = (k, v)" by (cases p)
  have all: "\<forall>p \<in> set ps. skips 101 (snd p)"
    using assms by (auto intro!: skips_stringify simp: less_Suc_eq_le)
  let ?t = "concat (map (\<lambda>p. 0x2C # member p) qs) @ [0x7D]"
  have e: "endOk ?t" by (cases qs) simp_all
  have printed: "stringify (JObj ps) = 0x7B # quoteStr k @ 0x3A # stringify v @ ?t"
    using join_concat [of "0x2C" "member p" "map member qs"] Cons p by (simp add: comp_def)
  have "length qs < length (quoteStr k @ 0x3A # stringify v @ ?t)"
    using length_concat_ge [of qs "0x2C" member] by simp
  then show ?thesis
    unfolding assertNoDuplicateTopLevelKeys_def printed
    using noDupLoop_step(1) [OF _ e, of v _ "[]" k] all Cons p noDupLoop_rest [of qs _ "[Str k]" "[]"]
    by (auto simp: image_iff simp del: length_append)
qed

subsection \<open>What \<open>validateEncryptedBody\<close> accepts\<close>

lemma validateEncryptedBody_Inr:
  "validateEncryptedBody v = Inr e \<Longrightarrow>
   (\<exists>s. v = Str s \<and> \<not> hasInvalidUnicode s \<and> utf8ByteLength s \<le> MAX_BODY_BYTES
      \<and> jsonParse s = Some (Obj [(js ''encryptedMessage'', Str e)]) \<and> isCanonicalBase64 (Str e))"
proof -
  assume v: "validateEncryptedBody v = Inr e"
  then obtain s where s: "v = Str s" by (cases v) (simp_all add: validateEncryptedBody_def)
  have u: "\<not> hasInvalidUnicode s" "utf8ByteLength s \<le> MAX_BODY_BYTES"
    using v s by (auto simp: validateEncryptedBody_def not_less split: if_splits)
  then obtain ps where ps: "parseJsonObject (Str s) = Inr ps"
    and c: "(case getProp ps (js ''encryptedMessage'') of
        Str e \<Rightarrow> if length ps \<noteq> 1 \<or> \<not> isCanonicalBase64 (Str e)
          then Inl (type_error ''body must be exactly { encryptedMessage: canonical base64 }'') else Inr e
      | _ \<Rightarrow> Inl (type_error ''body must be exactly { encryptedMessage: canonical base64 }'')) = Inr e"
    using v s by (auto simp: validateEncryptedBody_def result_simps)
  have e: "getProp ps (js ''encryptedMessage'') = Str e" "length ps = 1" "isCanonicalBase64 (Str e)"
    using c by (auto split: jsval.splits if_splits)
  from e have "ps = [(js ''encryptedMessage'', Str e)]"
    by (cases ps) (auto simp: getProp_def split: if_splits)
  moreover have "jsonParse s = Some (Obj ps)"
    using ps by (simp add: parseJsonObject_def split: option.splits jsval.splits)
  ultimately show ?thesis using s u e by simp
qed

lemma utf8Scalar_ascii: "unat u < 0x80 \<Longrightarrow> utf8Scalar (unat u) = [ucast (u :: code_unit)]"
  by (simp add: utf8Scalar_def)

lemma ascii_scalar: "u < 0x80 \<Longrightarrow> unat u < 0x80 \<and> \<not> is_high u \<and> \<not> is_low u"
  by (auto simp: word_less_nat_alt is_high_unat is_low_unat)

lemma utf8Bytes_ascii: "list_all (\<lambda>u. u < 0x80) s \<Longrightarrow> utf8Bytes s = map ucast s"
proof (induction s rule: scalars.induct)
  case (2 u)
  then show ?case using ascii_scalar [of u] by (simp add: utf8Bytes_def utf8Scalar_ascii)
next
  case (3 u v s)
  then show ?case using ascii_scalar [of u] by (simp add: utf8Bytes_def utf8Scalar_ascii)
qed (simp add: utf8Bytes_def)

lemma utf8ByteLength_ascii: "list_all (\<lambda>u. u < 0x80) s \<Longrightarrow> utf8ByteLength s = length s"
  by (simp add: utf8ByteLength_def utf8Bytes_ascii)

definition plainUnit :: "code_unit \<Rightarrow> bool" where
  "plainUnit u \<longleftrightarrow> 0x20 \<le> u \<and> u < 0x80 \<and> u \<noteq> 0x22 \<and> u \<noteq> 0x5C"

lemma quoteUnits_plain: "list_all plainUnit s \<Longrightarrow> quoteUnits s = s"
proof (induction s rule: quoteUnits.induct)
  have q: "quoteUnit u = [u]" "\<not> is_high u" if "plainUnit u" for u
    using that by (auto simp: quoteUnit_def plainUnit_def is_high_unat is_low_unat word_le_nat_alt
        word_less_nat_alt)
  case (3 u v s)
  then show ?case using q by simp
next
  case (2 u)
  then show ?case
    by (auto simp: quoteUnit_def plainUnit_def is_high_unat is_low_unat word_le_nat_alt
        word_less_nat_alt)
qed simp

lemma base64Re_plain: "base64Re s \<Longrightarrow> list_all plainUnit s"
proof -
  have "plainUnit u" if "isB64 u" for u
    using that by (auto simp: isB64_def isAlnum_def isDigit_def plainUnit_def word_le_nat_alt
        word_less_nat_alt)
  moreover have "plainUnit 0x3D" by (simp add: plainUnit_def)
  moreover assume "base64Re s"
  ultimately show ?thesis
    by (induction s rule: base64Re.induct) auto
qed

definition encryptedBody :: "byte list \<Rightarrow> jsstr" where
  "encryptedBody bs = stringify (JObj [(js ''encryptedMessage'', JStr (base64Encode bs))])"

lemma encryptedBody_text:
  "encryptedBody bs = js ''{\"encryptedMessage\":\"'' @ base64Encode bs @ js ''\"}''"
proof -
  have "quoteUnits (js ''encryptedMessage'') = js ''encryptedMessage''"
    by (rule quoteUnits_plain) (simp add: js_def plainUnit_def)
  then show ?thesis
    by (simp add: encryptedBody_def quoteStr_def quoteUnits_plain base64Re_plain base64Re_encode js_def)
qed

lemma encryptedBody_ascii: "list_all (\<lambda>u. u < 0x80) (encryptedBody bs)"
proof -
  have "list_all (\<lambda>u. u < 0x80) (base64Encode bs)"
    using base64Re_plain [OF base64Re_encode [of bs]] by (auto simp: plainUnit_def list_all_iff)
  then show ?thesis by (simp add: encryptedBody_text js_def)
qed

lemma length_base64Encode_eq: "length (base64Encode bs) = (length bs + 2) div 3 * 4"
proof (induction bs rule: base64Encode.induct)
  case (4 b0 b1 b2 t)
  have "(length (b0 # b1 # b2 # t) + 2) div 3 = (length t + 2) div 3 + 1" by simp
  with 4 show ?case by (simp add: Let_def)
qed (simp_all add: Let_def)

lemma length_encryptedBody: "utf8ByteLength (encryptedBody bs) = 23 + (length bs + 2) div 3 * 4"
  by (simp add: utf8ByteLength_ascii encryptedBody_ascii) (simp add: encryptedBody_text js_def length_base64Encode_eq)

lemma encryptedBody_valid: "\<not> hasInvalidUnicode (encryptedBody bs)"
  by (rule hasInvalidUnicode_ascii [OF encryptedBody_ascii])

lemma validateEncryptedBody_encryptedBody:
  assumes "bs \<noteq> []" "23 + (length bs + 2) div 3 * 4 \<le> MAX_BODY_BYTES"
  shows "validateEncryptedBody (Str (encryptedBody bs)) = Inr (base64Encode bs)"
proof -
  have "assertNoDuplicateTopLevelKeys (Str (encryptedBody bs)) = Inr ()"
    unfolding encryptedBody_def by (subst assertNoDuplicate_stringify) simp_all
  moreover have "parseJsonObject (Str (encryptedBody bs)) =
      Inr [(js ''encryptedMessage'', Str (base64Encode bs))]"
    using jsonParse_stringify [of "JObj [(js ''encryptedMessage'', JStr (base64Encode bs))]"]
    by (simp add: parseJsonObject_def encryptedBody_def)
  moreover have "isCanonicalBase64 (Str (base64Encode bs))"
    using assms by (auto simp: isCanonicalBase64_Str)
  ultimately show ?thesis
    using assms by (simp add: validateEncryptedBody_def encryptedBody_valid length_encryptedBody getProp_def)
qed

subsection \<open>Record keys\<close>

lemma hexDigit_inject: "a < 16 \<Longrightarrow> b < 16 \<Longrightarrow> hexDigit a = hexDigit b \<longleftrightarrow> a = b"
  using hexDigit_val by (metis option.inject)

lemma hexOfBytes_Cons:
  "hexOfBytes (b # bs) = hexDigit (unat b div 16) # hexDigit (unat b mod 16) # hexOfBytes bs"
  by (simp add: hexOfBytes_def)

lemma hexOfBytes_inject: "hexOfBytes a = hexOfBytes b \<longleftrightarrow> a = b"
proof (induction a arbitrary: b)
  case Nil
  show ?case by (cases b) (simp_all add: hexOfBytes_def)
next
  case (Cons x a)
  show ?case
  proof (cases b)
    case b: (Cons y b')
    have d: "unat x div 16 < 16" "unat y div 16 < 16"
      using unat_less_8 [of x] unat_less_8 [of y] by (simp_all add: div_less_iff_less_mult)
    have "hexDigit (unat x div 16) = hexDigit (unat y div 16) \<and> hexDigit (unat x mod 16) = hexDigit (unat y mod 16)
        \<longleftrightarrow> x = y"
    proof -
      have "x = y" if "unat x div 16 = unat y div 16" "unat x mod 16 = unat y mod 16"
        using that by (metis div_mult_mod_eq word_unat_eq_iff)
      moreover have "hexDigit (unat x mod 16) = hexDigit (unat y mod 16) \<longleftrightarrow> unat x mod 16 = unat y mod 16"
        by (rule hexDigit_inject) simp_all
      moreover have "hexDigit (unat x div 16) = hexDigit (unat y div 16) \<longleftrightarrow> unat x div 16 = unat y div 16"
        by (rule hexDigit_inject) (rule d)+
      ultimately show ?thesis by blast
    qed
    then show ?thesis using Cons.IH [of b'] unfolding b hexOfBytes_Cons list.inject by blast
  qed (simp add: hexOfBytes_def)
qed

lemma sha256Hex_hex64: "hex64Re (sha256Hex m)"
proof -
  have h: "list_all isLowerHex (js ''0123456789abcdef'')"
    by (simp add: js_def isLowerHex_def isDigit_def)
  then have "isLowerHex (hexDigit d)" if "d < 16" for d
    using that by (simp add: hexDigit_def list_all_length js_def)
  then have d: "isLowerHex (hexDigit (unat x div 16))" "isLowerHex (hexDigit (unat x mod 16))" for x :: byte
    using unat_less_8 [of x] by (simp_all add: div_less_iff_less_mult)
  have "length (hexOfBytes bs) = 2 * length bs" "list_all isLowerHex (hexOfBytes bs)" for bs
    by (induction bs) (simp_all add: hexOfBytes_def d)
  then show ?thesis by (simp add: hex64Re_def sha256Hex_def)
qed

lemma isRecordKey_sha256Hex [simp]: "isRecordKey (Str (sha256Hex m))" "isBodyHash (Str (sha256Hex m))"
  by (simp_all add: isRecordKey_def isBodyHash_def sha256Hex_hex64)

lemma beBytes32_inject: "beBytes32 a = beBytes32 b \<Longrightarrow> a = b"
proof -
  assume e: "beBytes32 a = beBytes32 b"
  show ?thesis
  proof (rule bit_word_eqI)
    fix i assume "i < LENGTH(32)"
    then have i: "i < 32" by simp
    have byte: "bit (ucast (drop_bit k a) :: byte) j = bit (ucast (drop_bit k b) :: byte) j"
      if "k \<in> {0, 8, 16, 24}" for k j
      using e that by (auto simp: beBytes32_def)
    consider "i < 8" | "8 \<le> i" "i < 16" | "16 \<le> i" "i < 24" | "24 \<le> i" by linarith
    then show "bit a i = bit b i"
      using i byte [of 0 i] byte [of 8 "i - 8"] byte [of 16 "i - 16"] byte [of 24 "i - 24"]
      by cases (auto simp: bit_simps)
  qed
qed

lemma length_beBytes32 [simp]: "length (beBytes32 a) = 4"
  by (simp add: beBytes32_def)

lemma lengthPrefixed_inject:
  "list_all (\<lambda>b. length b < 2 ^ 32) as \<Longrightarrow> list_all (\<lambda>b. length b < 2 ^ 32) bs \<Longrightarrow>
   length as = length bs \<Longrightarrow> lengthPrefixed as = lengthPrefixed bs \<longleftrightarrow> as = bs"
proof (induction as bs rule: list_induct2')
  case (4 a as b bs)
  show ?case
  proof
    assume "lengthPrefixed (a # as) = lengthPrefixed (b # bs)"
    then have l: "beBytes32 (of_nat (length a)) = beBytes32 (of_nat (length b))"
      and t: "a @ lengthPrefixed as = b @ lengthPrefixed bs"
      by (simp_all add: lengthPrefixed_def append_eq_append_conv)
    have "unat (of_nat (length a) :: 32 word) = unat (of_nat (length b) :: 32 word)"
      using beBytes32_inject [OF l] by simp
    then have "length a = length b" using 4 by (simp add: unat_of_nat_32)
    then show "a # as = b # bs" using t 4 by simp
  qed simp
qed (simp_all add: lengthPrefixed_def)

definition recordPreimage :: "jsstr \<Rightarrow> jsstr \<Rightarrow> jsstr \<Rightarrow> jsstr \<Rightarrow> jsstr \<Rightarrow> jsstr \<Rightarrow> byte list" where
  "recordPreimage owner dir box sdr rcp mid =
     lengthPrefixed (map utf8Bytes [RECORD_DOMAIN, owner, dir, box, sdr, rcp, mid])"

definition recordFields :: "jsval \<Rightarrow> jsval \<Rightarrow> jsval \<Rightarrow> jsval \<Rightarrow> jsval \<Rightarrow> jsval \<Rightarrow> bool" where
  "recordFields owner dir box sdr rcp mid \<longleftrightarrow>
     isIdentityKey owner \<and> isIdentityKey sdr \<and> isIdentityKey rcp \<and> is_ok (validateDirection dir)
     \<and> is_ok (validateMessageBox box) \<and> is_ok (validateMessageId mid)"

lemma requireIdentity_Inr [result_simps]:
  "requireIdentity name v = Inr s \<longleftrightarrow> v = Str s \<and> isIdentityKey (Str s)"
  by (auto simp: requireIdentity_def split: jsval.splits if_splits)

lemma canonicalRecordKey_Inr:
  "canonicalRecordKey (Str owner) (Str dir) (Str box) (Str sdr) (Str rcp) (Str mid) = Inr key \<longleftrightarrow>
     recordFields (Str owner) (Str dir) (Str box) (Str sdr) (Str rcp) (Str mid)
     \<and> key = sha256Hex (recordPreimage owner dir box sdr rcp mid)"
  by (auto simp: canonicalRecordKey_def recordFields_def recordPreimage_def result_simps
      is_ok_iff validateMessageBox_def validateMessageId_def)

lemma utf8Scalar_length: "length (utf8Scalar c) \<le> 4"
  by (simp add: utf8Scalar_def)

lemma length_scalars: "length (scalars s) \<le> length s"
  by (induction s rule: scalars.induct) auto

lemma utf8Bytes_length: "length (utf8Bytes s) \<le> 4 * length s"
proof -
  have "length (concat (map utf8Scalar cs)) \<le> 4 * length cs" for cs
    using utf8Scalar_length by (induction cs) (simp, fastforce intro: add_mono)
  from this [of "scalars s"] show ?thesis using length_scalars [of s] unfolding utf8Bytes_def by linarith
qed

lemma recordFields_valid:
  assumes "recordFields (Str owner) (Str dir) (Str box) (Str sdr) (Str rcp) (Str mid)"
    "s \<in> {RECORD_DOMAIN, owner, dir, box, sdr, rcp, mid}"
  shows "\<not> hasInvalidUnicode s" "length (utf8Bytes s) < 2 ^ 32"
proof -
  have dom: "list_all (\<lambda>u. u < 0x80) RECORD_DOMAIN" "length RECORD_DOMAIN \<le> 256"
    by (simp_all add: RECORD_DOMAIN_def js_def)
  have dirs: "list_all (\<lambda>u. u < 0x80) (js ''inbound'')" "list_all (\<lambda>u. u < 0x80) (js ''outbound'')"
    "length (js ''inbound'') \<le> 256" "length (js ''outbound'') \<le> 256"
    by (simp_all add: js_def)
  have i: "\<not> hasInvalidUnicode k \<and> length k \<le> 256" if "isIdentityKey (Str k)" for k
    using that isIdentityKey_valid [OF that] identityKeyRe_length [of k] by (simp add: isIdentityKey_def)
  have "\<not> hasInvalidUnicode s \<and> length s \<le> 256"
    using assms dom dirs i
    by (auto simp: recordFields_def is_ok_iff result_simps validateMessageBox_def validateMessageId_def
        hasInvalidUnicode_ascii)
  moreover from this have "length (utf8Bytes s) \<le> 1024" using utf8Bytes_length [of s] by simp
  ultimately show "\<not> hasInvalidUnicode s" "length (utf8Bytes s) < 2 ^ 32" by simp_all
qed

lemma recordPreimage_inject:
  assumes f: "recordFields (Str owner) (Str dir) (Str box) (Str sdr) (Str rcp) (Str mid)"
    and f': "recordFields (Str owner') (Str dir') (Str box') (Str sdr') (Str rcp') (Str mid')"
  shows "recordPreimage owner dir box sdr rcp mid = recordPreimage owner' dir' box' sdr' rcp' mid' \<longleftrightarrow>
    (owner, dir, box, sdr, rcp, mid) = (owner', dir', box', sdr', rcp', mid')"
proof -
  let ?l = "[RECORD_DOMAIN, owner, dir, box, sdr, rcp, mid]"
  let ?l' = "[RECORD_DOMAIN, owner', dir', box', sdr', rcp', mid']"
  have v: "\<forall>s \<in> set ?l. \<not> hasInvalidUnicode s \<and> length (utf8Bytes s) < 2 ^ 32"
    using recordFields_valid [OF f] by auto
  have v': "\<forall>s \<in> set ?l'. \<not> hasInvalidUnicode s \<and> length (utf8Bytes s) < 2 ^ 32"
    using recordFields_valid [OF f'] by auto
  have "lengthPrefixed (map utf8Bytes ?l) = lengthPrefixed (map utf8Bytes ?l') \<longleftrightarrow>
      map utf8Bytes ?l = map utf8Bytes ?l'"
    by (rule lengthPrefixed_inject) (use v v' in \<open>simp_all add: list_all_iff\<close>)
  moreover have "map utf8Bytes ?l = map utf8Bytes ?l' \<longleftrightarrow> ?l = ?l'"
    by (rule inj_on_map_eq_map, rule inj_onI, rule utf8Bytes_inject) (use v v' in blast)+
  ultimately show ?thesis by (simp only: recordPreimage_def) simp
qed

subsection \<open>Properties\<close>

text \<open>Two accepted records have the same preimage exactly when all six fields agree, and the
  record key is the SHA-256 of that preimage: two different records share a key only if SHA-256
  collides on the two preimages.\<close>

theorem record_key_binds_fields:
  assumes "canonicalRecordKey (Str owner) (Str dir) (Str box) (Str sdr) (Str rcp) (Str mid) = Inr key"
    and "canonicalRecordKey (Str owner') (Str dir') (Str box') (Str sdr') (Str rcp') (Str mid') = Inr key'"
  shows "key = sha256Hex (recordPreimage owner dir box sdr rcp mid) \<and>
    key' = sha256Hex (recordPreimage owner' dir' box' sdr' rcp' mid') \<and>
    (recordPreimage owner dir box sdr rcp mid = recordPreimage owner' dir' box' sdr' rcp' mid' \<longleftrightarrow>
      (owner, dir, box, sdr, rcp, mid) = (owner', dir', box', sdr', rcp', mid')) \<and>
    (key = key' \<longleftrightarrow> sha256Bytes (recordPreimage owner dir box sdr rcp mid)
      = sha256Bytes (recordPreimage owner' dir' box' sdr' rcp' mid'))"
  using assms recordPreimage_inject
  by (simp_all add: canonicalRecordKey_Inr sha256Hex_def hexOfBytes_inject)

text \<open>The duplicate-member check accepts a printed object exactly when its top-level names
  are distinct, whatever the members hold (up to the scanner's depth of 100).\<close>

theorem duplicate_members_rejected:
  "\<forall>p \<in> set ps. jdepth (snd p) \<le> 100 \<Longrightarrow>
   assertNoDuplicateTopLevelKeys (Str (stringify (JObj ps))) =
     (if distinct (map fst ps) then Inr ()
      else Inl (type_error ''body must not contain duplicate JSON members''))"
  using assertNoDuplicate_stringify [of ps] by (simp add: dupError_def)

theorem duplicate_members_rejected_witness:
  "assertNoDuplicateTopLevelKeys (Str (stringify (JObj [(js ''a'', JNull), (js ''a'', JArr [JInt 1])]))) =
     Inl (type_error ''body must not contain duplicate JSON members'')"
  using duplicate_members_rejected [of "[(js ''a'', JNull), (js ''a'', JArr [JInt 1])]"] by simp

text \<open>Whatever \<open>validateEncryptedBody\<close> accepts is a well-formed string of at most 1 MiB of
  UTF-8 that parses to an object with the one member \<open>encryptedMessage\<close>, holding the canonical
  base64 string it returns.\<close>

theorem encrypted_body_sound:
  "validateEncryptedBody v = Inr e \<Longrightarrow>
   (\<exists>s. v = Str s \<and> \<not> hasInvalidUnicode s \<and> utf8ByteLength s \<le> MAX_BODY_BYTES
      \<and> jsonParse s = Some (Obj [(js ''encryptedMessage'', Str e)]) \<and> isCanonicalBase64 (Str e))"
  by (rule validateEncryptedBody_Inr)

text \<open>The body a sender builds from any non-empty ciphertext whose printed form fits in
  1 MiB is accepted, and the ciphertext is what base64 decoding of the result gives.\<close>

theorem encrypted_body_complete:
  assumes "bs \<noteq> []" "23 + (length bs + 2) div 3 * 4 \<le> 1048576"
  shows "validateEncryptedBody (Str (encryptedBody bs)) = Inr (base64Encode bs) \<and>
    base64Decode (base64Encode bs) = bs"
  using validateEncryptedBody_encryptedBody [of bs] assms
  by (simp_all add: MAX_BODY_BYTES_def base64Decode_encode)

theorem encrypted_body_complete_witness:
  "validateEncryptedBody (Str (encryptedBody [1, 2, 3])) = Inr (base64Encode [1, 2, 3])"
  using encrypted_body_complete [of "[1, 2, 3]"] by simp

theorem encrypted_body_sound_witness:
  "\<exists>s. Str (encryptedBody [1, 2, 3]) = Str s \<and> \<not> hasInvalidUnicode s \<and> utf8ByteLength s \<le> MAX_BODY_BYTES
      \<and> jsonParse s = Some (Obj [(js ''encryptedMessage'', Str (base64Encode [1, 2, 3]))])
      \<and> isCanonicalBase64 (Str (base64Encode [1, 2, 3]))"
  by (rule encrypted_body_sound, rule validateEncryptedBody_encryptedBody)
    (simp_all add: MAX_BODY_BYTES_def)

definition m0Owner :: jsstr where
  "m0Owner = js ''021111111111111111111111111111111111111111111111111111111111111111''"

definition m0Recipient :: jsstr where
  "m0Recipient = js ''032222222222222222222222222222222222222222222222222222222222222222''"

lemma m0_fields:
  "recordFields (Str m0Owner) (Str (js ''outbound'')) (Str (js ''general_inbox'')) (Str m0Owner)
     (Str m0Recipient) (Str (js ''m0-vector-1''))"
proof -
  have "isIdentityKey (Str m0Owner)" "isIdentityKey (Str m0Recipient)"
    by (simp_all add: isIdentityKey_def identityKeyRe_def m0Owner_def m0Recipient_def js_def
        isLowerHex_def isDigit_def)
  moreover have "validateMessageBox (Str (js ''general_inbox'')) = Inr (js ''general_inbox'')"
    "validateMessageId (Str (js ''m0-vector-1'')) = Inr (js ''m0-vector-1'')"
    by (simp_all add: validateMessageBox_def validateMessageId_def result_simps hasInvalidUnicode_ascii
        js_def isControl_def isTrimmed_def)
  ultimately show ?thesis by (simp add: recordFields_def validateDirection_def)
qed

lemma m0_key:
  "canonicalRecordKey (Str m0Owner) (Str (js ''outbound'')) (Str (js ''general_inbox'')) (Str m0Owner)
     (Str m0Recipient) (Str (js ''m0-vector-1'')) =
   Inr (sha256Hex (recordPreimage m0Owner (js ''outbound'') (js ''general_inbox'') m0Owner m0Recipient
     (js ''m0-vector-1'')))"
  by (simp add: canonicalRecordKey_Inr m0_fields)

theorem record_key_binds_fields_witness:
  "(recordPreimage m0Owner (js ''outbound'') (js ''general_inbox'') m0Owner m0Recipient (js ''m0-vector-1'') =
    recordPreimage m0Owner (js ''outbound'') (js ''general_inbox'') m0Owner m0Recipient (js ''m0-vector-1''))
   \<longleftrightarrow> (m0Owner, js ''outbound'', js ''general_inbox'', m0Owner, m0Recipient, js ''m0-vector-1'') =
     (m0Owner, js ''outbound'', js ''general_inbox'', m0Owner, m0Recipient, js ''m0-vector-1'')"
  using record_key_binds_fields [OF m0_key m0_key] by blast

end
