(* ===== verification/Cursor.thy ===== *)
theory Cursor
  imports Canonical
begin

section \<open>Cursors\<close>

text \<open>
  \<open>createCursor\<close> and \<open>verifyCursor\<close> of \<open>src/protocol.mjs\<close>: an opaque token made of a JSON
  payload and its HMAC, with the owner in the authenticated text only. HMAC-SHA256
  (\<open>createHmac\<close>) is RFC 2104 over FIPS 180-4, and \<open>Buffer.toString('utf8')\<close> is the decoder that
  replaces malformed bytes, so \<open>verifyCursor\<close> is defined on every token. The clock is an
  argument.
\<close>

unbundle bit_operations_syntax

subsection \<open>HMAC-SHA256\<close>

definition hmacKey :: "byte list \<Rightarrow> byte list" where
  "hmacKey k = (let k' = (if 64 < length k then fips256 k else k) in k' @ replicate (64 - length k') 0)"

definition hmacSha256 :: "byte list \<Rightarrow> byte list \<Rightarrow> byte list" where
  "hmacSha256 k m =
     fips256 (map (\<lambda>b. b XOR 0x5C) (hmacKey k) @ fips256 (map (\<lambda>b. b XOR 0x36) (hmacKey k) @ m))"

subsection \<open>The decoder that replaces malformed bytes\<close>

fun lossyFrom :: "nat \<Rightarrow> nat \<Rightarrow> nat \<Rightarrow> nat \<Rightarrow> byte list \<Rightarrow> nat list" where
  "lossyFrom need acc lo hi [] = (if need = 0 then [] else [0xFFFD])"
| "lossyFrom need acc lo hi (b # bs) =
     (if need \<noteq> 0 \<and> lo \<le> unat b \<and> unat b \<le> hi then
        (let acc' = acc * 64 + (unat b - 0x80)
         in if need = 1 then acc' # lossyFrom 0 0 0x80 0xBF bs
            else lossyFrom (need - 1) acc' 0x80 0xBF bs)
      else (if need \<noteq> 0 then [0xFFFD] else []) @
        (if unat b < 0x80 then unat b # lossyFrom 0 0 0x80 0xBF bs
         else if 0xC2 \<le> unat b \<and> unat b \<le> 0xDF then lossyFrom 1 (unat b - 0xC0) 0x80 0xBF bs
         else if 0xE0 \<le> unat b \<and> unat b \<le> 0xEF then
           lossyFrom 2 (unat b - 0xE0) (if unat b = 0xE0 then 0xA0 else 0x80)
             (if unat b = 0xED then 0x9F else 0xBF) bs
         else if 0xF0 \<le> unat b \<and> unat b \<le> 0xF4 then
           lossyFrom 3 (unat b - 0xF0) (if unat b = 0xF0 then 0x90 else 0x80)
             (if unat b = 0xF4 then 0x8F else 0xBF) bs
         else 0xFFFD # lossyFrom 0 0 0x80 0xBF bs))"

definition utf8Lossy :: "byte list \<Rightarrow> jsstr" where
  "utf8Lossy bs = concat (map utf16Scalar (lossyFrom 0 0 0x80 0xBF bs))"

subsection \<open>The token\<close>

definition CURSOR_DOMAIN :: jsstr where
  "CURSOR_DOMAIN = js ''message-box-store:cursor:v1''"

definition CURSOR_TTL_SECONDS :: int where
  "CURSOR_TTL_SECONDS = 24 * 60 * 60"

definition cursorMac :: "jsstr \<Rightarrow> jsstr \<Rightarrow> jsstr \<Rightarrow> byte list" where
  "cursorMac secret owner json =
     hmacSha256 (utf8Bytes secret) (utf8Bytes (owner @ js ''|'' @ CURSOR_DOMAIN @ js ''|'' @ json))"

definition cursorPayload :: "jsstr \<Rightarrow> jsstr \<Rightarrow> jsstr \<Rightarrow> jsstr \<Rightarrow> jsstr \<Rightarrow> int \<Rightarrow> json" where
  "cursorPayload epoch feed fd w p expiry =
     JObj [(js ''v'', JInt 1), (js ''epoch'', JStr epoch), (js ''feed'', JStr feed), (js ''fd'', JStr fd),
           (js ''w'', JStr w), (js ''p'', JStr p), (js ''exp'', JInt expiry)]"

definition requireStr :: "jsval \<Rightarrow> jserr \<Rightarrow> jsstr result" where
  "requireStr v e = (case v of Str s \<Rightarrow> Inr s | _ \<Rightarrow> Inl e)"

record cursor_request =
  serverSecret :: jsval
  ownerIdentityKey :: jsval
  epoch :: jsval
  feed :: jsval
  filterDigest :: jsval
  watermark :: jsval
  position :: jsval
  ttlSeconds :: int
  nowSeconds :: int

definition createCursor :: "cursor_request \<Rightarrow> jsstr result" where
  "createCursor r =
     andThen (requireStr (serverSecret r) (type_error ''serverSecret must be at least 16 chars'')) (\<lambda>secret.
     andThen (require (16 \<le> length secret) (type_error ''serverSecret must be at least 16 chars'')) (\<lambda>_.
     andThen (requireIdentity ''ownerIdentityKey'' (ownerIdentityKey r)) (\<lambda>owner.
     andThen (validateEpoch (epoch r)) (\<lambda>ep.
     andThen (require (feed r \<in> {Str (js ''changes''), Str (js ''snapshot'')})
                (type_error ''feed must be changes or snapshot'')) (\<lambda>_.
     andThen (requireStr (feed r) (type_error ''feed must be changes or snapshot'')) (\<lambda>fe.
     andThen (requireStr (filterDigest r) (type_error ''filterDigest must be 0..128 chars'')) (\<lambda>fd.
     andThen (require (length fd \<le> 128 \<and> \<not> hasInvalidUnicode fd)
                (type_error ''filterDigest must be 0..128 chars'')) (\<lambda>_.
     andThen (validateChangeSequence (watermark r) ''watermark'') (\<lambda>w.
     andThen (requireStr (position r) (type_error ''position must be 1..128 chars'')) (\<lambda>p.
     andThen (require (p \<noteq> [] \<and> length p \<le> 128) (type_error ''position must be 1..128 chars'')) (\<lambda>_.
     let expiry = nowSeconds r + ttlSeconds r in
     andThen (require (isSafeInteger (IntNum expiry) \<and> 0 < expiry)
                (type_error ''expiry must be a safe integer'')) (\<lambda>_.
     let json = stringify (cursorPayload ep fe fd w p expiry) in
     Inr (base64UrlEncode (utf8Bytes json) @ js ''.'' @ base64UrlEncode (cursorMac secret owner json))))))))))))))"

text \<open>\<open>token.split('.')\<close>: the parts between the separators.\<close>

fun splitOn :: "code_unit \<Rightarrow> jsstr \<Rightarrow> jsstr list" where
  "splitOn c [] = [[]]"
| "splitOn c (u # s) = (if u = c then [] # splitOn c s
     else case splitOn c s of p # ps \<Rightarrow> (u # p) # ps | [] \<Rightarrow> [[u]])"

definition invalidCursor :: "string \<Rightarrow> jserr" where
  "invalidCursor m = JsErr TypeError (Some ERR_INVALID_CURSOR) m"

definition expiredCursor :: jserr where
  "expiredCursor = JsErr RangeError (Some ERR_CURSOR_EXPIRED) ''cursor expired; take a full snapshot''"

definition epochChanged :: jserr where
  "epochChanged = JsErr RangeError (Some ERR_EPOCH_CHANGED) ''epoch changed; reconcile against the current snapshot''"

text \<open>A property of a parsed value: \<open>undefined\<close> on anything that is no object.\<close>

definition field :: "jsval \<Rightarrow> string \<Rightarrow> jsval" where
  "field v k = (case v of Obj ps \<Rightarrow> getProp ps (js k) | _ \<Rightarrow> Undefined)"

record cursor_check =
  vSecret :: jsval
  vOwner :: jsval
  expectedEpoch :: jsval
  expectedFeed :: jsval
  expectedFilterDigest :: jsval
  vNow :: int

definition intOf :: "jsval \<Rightarrow> int" where
  "intOf v = (case v of Number (Fin q) \<Rightarrow> \<lfloor>q\<rfloor> | _ \<Rightarrow> 0)"

definition orInvalid :: "string \<Rightarrow> 'a result \<Rightarrow> 'a result" where
  "orInvalid m r = (case r of Inl _ \<Rightarrow> Inl (invalidCursor m) | Inr x \<Rightarrow> Inr x)"

text \<open>The checks on the claims, after the authenticator.\<close>

definition checkClaims :: "jsval \<Rightarrow> cursor_check \<Rightarrow> jsval result" where
  "checkClaims payload c =
     andThen (require (field payload ''v'' = IntNum 1 \<and> isSafeInteger (field payload ''exp''))
                (invalidCursor ''cursor claims are malformed'')) (\<lambda>_.
     andThen (require (vNow c < intOf (field payload ''exp'')) expiredCursor) (\<lambda>_.
     andThen (require (expectedEpoch c = Undefined \<or> field payload ''epoch'' = expectedEpoch c) epochChanged) (\<lambda>_.
     andThen (require (expectedFeed c = Undefined \<or> field payload ''feed'' = expectedFeed c)
                (invalidCursor ''cursor feed mismatch'')) (\<lambda>_.
     andThen (require (field payload ''fd'' = expectedFilterDigest c)
                (invalidCursor ''cursor filter mismatch'')) (\<lambda>_.
     andThen (orInvalid ''cursor watermark malformed'' (validateChangeSequence (field payload ''w'') ''watermark'')) (\<lambda>_.
     Inr payload))))))"

definition verifyCursor :: "jsval \<Rightarrow> cursor_check \<Rightarrow> jsval result" where
  "verifyCursor token c =
     andThen (requireStr token (invalidCursor ''cursor must be a string'')) (\<lambda>tok.
     case splitOn 0x2E tok of
       [p0, p1] \<Rightarrow>
         andThen (orInvalid ''cursor payload is not base64url'' (base64UrlDecode p0)) (\<lambda>raw.
         let json = utf8Lossy raw in
         case jsonParse json of
           None \<Rightarrow> Inl (invalidCursor ''cursor payload is not JSON'')
         | Some payload \<Rightarrow>
             andThen (requireStr (vSecret c) (invalidCursor ''cursor verifier misconfigured'')) (\<lambda>secret.
             andThen (requireStr (vOwner c) (invalidCursor ''cursor verifier misconfigured'')) (\<lambda>owner.
             andThen (orInvalid ''cursor authenticator is not base64url'' (base64UrlDecode p1)) (\<lambda>mac.
             andThen (require (length mac = 32) (invalidCursor ''cursor authenticator length mismatch'')) (\<lambda>_.
             andThen (require (cursorMac secret owner json = mac)
                        (invalidCursor ''cursor is not valid for this owner'')) (\<lambda>_.
             checkClaims payload c))))))
     | _ \<Rightarrow> Inl (invalidCursor ''cursor must have two parts''))"

subsection \<open>The decoder on encoded text\<close>

lemma lossy_cont:
  "unat b = 0x80 + x \<Longrightarrow> lo \<le> 0x80 + x \<Longrightarrow> 0x80 + x \<le> hi \<Longrightarrow>
   lossyFrom (Suc 0) acc lo hi (b # bs) = (acc * 64 + x) # lossyFrom 0 0 0x80 0xBF bs"
  "unat b = 0x80 + x \<Longrightarrow> lo \<le> 0x80 + x \<Longrightarrow> 0x80 + x \<le> hi \<Longrightarrow>
   lossyFrom (Suc (Suc n)) acc lo hi (b # bs) = lossyFrom (Suc n) (acc * 64 + x) 0x80 0xBF bs"
  by (simp_all add: Let_def)

lemma lossy_lead:
  "unat b < 0x80 \<Longrightarrow> lossyFrom 0 0 0x80 0xBF (b # bs) = unat b # lossyFrom 0 0 0x80 0xBF bs"
  "unat b = 0xC0 + x \<Longrightarrow> 2 \<le> x \<Longrightarrow> x < 0x20 \<Longrightarrow>
   lossyFrom 0 0 0x80 0xBF (b # bs) = lossyFrom (Suc 0) x 0x80 0xBF bs"
  "unat b = 0xE0 + x \<Longrightarrow> x < 0x10 \<Longrightarrow>
   lossyFrom 0 0 0x80 0xBF (b # bs) = lossyFrom (Suc (Suc 0)) x (if x = 0 then 0xA0 else 0x80)
     (if x = 0xD then 0x9F else 0xBF) bs"
  "unat b = 0xF0 + x \<Longrightarrow> x < 5 \<Longrightarrow>
   lossyFrom 0 0 0x80 0xBF (b # bs) = lossyFrom (Suc (Suc (Suc 0))) x (if x = 0 then 0x90 else 0x80)
     (if x = 4 then 0x8F else 0xBF) bs"
  by (simp_all add: numeral_2_eq_2 numeral_3_eq_3)

lemma unat_byte: "n < 256 \<Longrightarrow> unat (of_nat n :: byte) = n"
  by (rule unat_of_nat_8)

lemma lossyFrom_utf8Scalar:
  assumes "scalar c"
  shows "lossyFrom 0 0 0x80 0xBF (utf8Scalar c @ r) = c # lossyFrom 0 0 0x80 0xBF r"
proof -
  consider "c < 0x80" | "0x80 \<le> c" "c < 0x800" | "0x800 \<le> c" "c < 0x10000" | "0x10000 \<le> c"
    by linarith
  then show ?thesis
  proof cases
    case 1
    then show ?thesis by (simp add: utf8Scalar_def unat_of_nat_8 lossy_lead(1) del: lossyFrom.simps)
  next
    case 2
    define p q where "p = c div 0x40" and "q = c mod 0x40"
    have b: "2 \<le> p" "p < 0x20" "q < 0x40" and e: "p * 0x40 + q = c"
      using 2 by (auto simp: p_def q_def)
    have u: "utf8Scalar c = [of_nat (0xC0 + p), of_nat (0x80 + q)]"
      using 2 by (simp add: utf8Scalar_def p_def q_def)
    show ?thesis
      using b lossy_lead(2) [OF unat_byte, of p "of_nat (0x80 + q) # r"]
        lossy_cont(1) [OF unat_byte, of q "0x80" "0xBF" p r] e
      unfolding u by (simp del: lossyFrom.simps of_nat_add)
  next
    case 3
    define p q s where "p = c div 0x1000" and "q = c div 0x40 mod 0x40" and "s = c mod 0x40"
    have b: "p < 0x10" "q < 0x40" "s < 0x40" using 3 by (auto simp: p_def q_def s_def)
    have e: "p * 0x1000 + q * 0x40 + s = c"
      unfolding p_def q_def s_def by (rule radix64_3)
    have lo: "p = 0 \<Longrightarrow> 0x20 \<le> q" using e 3 b by linarith
    have hi: "p = 0xD \<Longrightarrow> q < 0x20" using e b assms by (auto simp: scalar_def)
    have u: "utf8Scalar c = [of_nat (0xE0 + p), of_nat (0x80 + q), of_nat (0x80 + s)]"
      using 3 by (simp add: utf8Scalar_def p_def q_def s_def)
    have "lossyFrom (Suc (Suc 0)) p (if p = 0 then 0xA0 else 0x80) (if p = 0xD then 0x9F else 0xBF)
        (of_nat (0x80 + q) # of_nat (0x80 + s) # r) = lossyFrom (Suc 0) (p * 64 + q) 0x80 0xBF (of_nat (0x80 + s) # r)"
      by (rule lossy_cont(2) [OF unat_byte]) (use b lo hi in auto)
    also have "\<dots> = ((p * 64 + q) * 64 + s) # lossyFrom 0 0 0x80 0xBF r"
      by (rule lossy_cont(1) [OF unat_byte]) (use b in auto)
    finally show ?thesis
      using b lossy_lead(3) [OF unat_byte, of p] e
      unfolding u by (simp add: algebra_simps del: lossyFrom.simps of_nat_add)
  next
    case 4
    define p q s t where "p = c div 0x40000" and "q = c div 0x1000 mod 0x40"
      and "s = c div 0x40 mod 0x40" and "t = c mod 0x40"
    have b: "p < 5" "q < 0x40" "s < 0x40" "t < 0x40"
      using assms by (auto simp: p_def q_def s_def t_def scalar_def)
    have e: "p * 0x40000 + q * 0x1000 + s * 0x40 + t = c"
      unfolding p_def q_def s_def t_def by (rule radix64_4)
    have lo: "p = 0 \<Longrightarrow> 0x10 \<le> q" using e 4 b by linarith
    have hi: "p = 4 \<Longrightarrow> q < 0x10" using e b assms by (auto simp: scalar_def)
    have u: "utf8Scalar c = [of_nat (0xF0 + p), of_nat (0x80 + q), of_nat (0x80 + s), of_nat (0x80 + t)]"
      using 4 by (simp add: utf8Scalar_def p_def q_def s_def t_def)
    have "lossyFrom (Suc (Suc (Suc 0))) p (if p = 0 then 0x90 else 0x80) (if p = 4 then 0x8F else 0xBF)
        (of_nat (0x80 + q) # of_nat (0x80 + s) # of_nat (0x80 + t) # r)
      = lossyFrom (Suc (Suc 0)) (p * 64 + q) 0x80 0xBF (of_nat (0x80 + s) # of_nat (0x80 + t) # r)"
      by (rule lossy_cont(2) [OF unat_byte]) (use b lo hi in auto)
    also have "\<dots> = lossyFrom (Suc 0) ((p * 64 + q) * 64 + s) 0x80 0xBF (of_nat (0x80 + t) # r)"
      by (rule lossy_cont(2) [OF unat_byte]) (use b in auto)
    also have "\<dots> = (((p * 64 + q) * 64 + s) * 64 + t) # lossyFrom 0 0 0x80 0xBF r"
      by (rule lossy_cont(1) [OF unat_byte]) (use b in auto)
    finally show ?thesis
      using b lossy_lead(4) [OF unat_byte, of p] e
      unfolding u by (simp add: algebra_simps del: lossyFrom.simps of_nat_add)
  qed
qed

lemma lossyFrom_concat:
  "\<forall>c \<in> set cs. scalar c \<Longrightarrow> lossyFrom 0 0 0x80 0xBF (concat (map utf8Scalar cs)) = cs"
  by (induction cs) (simp_all add: lossyFrom_utf8Scalar del: lossyFrom.simps(2))

lemma utf8Lossy_utf8Bytes: "\<not> hasInvalidUnicode s \<Longrightarrow> utf8Lossy (utf8Bytes s) = s"
  using scalar_scalars
  by (simp add: utf8Lossy_def utf8Bytes_def lossyFrom_concat hasInvalidUnicode_def utf16_scalars)

subsection \<open>Printed JSON is well-formed Unicode\<close>

lemma loneSurrogate_append:
  "\<not> loneSurrogate p a \<Longrightarrow> a \<noteq> [] \<or> \<not> p \<Longrightarrow> loneSurrogate p (a @ b) = loneSurrogate False b"
proof (induction a arbitrary: p)
  case (Cons u a)
  show ?case
  proof (cases a)
    case Nil
    then show ?thesis using Cons.prems by (cases b) (auto simp: is_high_unat is_low_unat)
  next
    case (Cons v a')
    then show ?thesis using Cons.IH [of "is_high u"] Cons.prems by auto
  qed
qed simp

lemma valid_append:
  "\<not> hasInvalidUnicode a \<Longrightarrow> hasInvalidUnicode (a @ b) = hasInvalidUnicode b"
  by (simp add: hasInvalidUnicode_def loneSurrogate_append)

lemma valid_Cons: "u < 0x80 \<Longrightarrow> hasInvalidUnicode (u # s) = hasInvalidUnicode s"
  using valid_append [of "[u]" s] hasInvalidUnicode_ascii [of "[u]"] by simp

lemma valid_Nil [simp]: "\<not> hasInvalidUnicode []"
  by (simp add: hasInvalidUnicode_def)

lemma hexDigit_ascii: "d < 16 \<Longrightarrow> hexDigit d < 0x80"
proof -
  have "list_all (\<lambda>u. u < 0x80) (js ''0123456789abcdef'')" by (simp add: js_def)
  then show "d < 16 \<Longrightarrow> hexDigit d < 0x80" by (simp add: hexDigit_def list_all_length js_def)
qed

lemma valid_quoteUnit: "\<not> hasInvalidUnicode (quoteUnit u)"
proof -
  have l: "unat u div 4096 < 16" using unat_less_16 [of u] by (simp add: div_less_iff_less_mult)
  have "\<not> hasInvalidUnicode [u]" if "\<not> is_high u" "\<not> is_low u"
    using that by (simp add: hasInvalidUnicode_def)
  moreover have "\<not> hasInvalidUnicode ([0x5C, 0x75] @ hex4 u)"
    by (rule hasInvalidUnicode_ascii) (simp add: hex4_def hexDigit_ascii l)
  ultimately show ?thesis
    by (simp add: quoteUnit_def hasInvalidUnicode_ascii)
qed

lemma valid_pair: "is_high u \<Longrightarrow> is_low v \<Longrightarrow> \<not> hasInvalidUnicode [u, v]"
  by (auto simp: hasInvalidUnicode_def is_high_unat is_low_unat)

lemma valid_quoteUnits: "\<not> hasInvalidUnicode (quoteUnits s)"
proof (induction s rule: quoteUnits.induct)
  case (3 u v s)
  then show ?case
    using valid_append [OF valid_pair [of u v], of "quoteUnits s"]
    by (simp add: valid_append valid_quoteUnit)
qed (simp_all add: valid_quoteUnit)

lemma valid_quoteStr: "\<not> hasInvalidUnicode (quoteStr s)"
  by (simp add: quoteStr_def valid_Cons valid_append valid_quoteUnits)

lemma decOfNat_ascii: "list_all (\<lambda>u. u < 0x80) (decOfNat n)"
  using decOfNat_digits [of n] by (auto simp: list_all_iff isDigit_def word_le_nat_alt word_less_nat_alt)

lemma valid_intString: "\<not> hasInvalidUnicode (intString z)"
  by (simp add: intString_def hasInvalidUnicode_ascii decOfNat_ascii valid_Cons)

lemma valid_join: "\<forall>x \<in> set xs. \<not> hasInvalidUnicode x \<Longrightarrow> \<not> hasInvalidUnicode (join [0x2C] xs)"
  by (induction "[0x2C] :: jsstr" xs rule: join.induct) (simp_all add: valid_append valid_Cons)

lemma valid_stringify: "\<not> hasInvalidUnicode (stringify j)"
proof (induction j rule: stringify.induct)
  case (5 xs)
  have "\<not> hasInvalidUnicode (join [0x2C] (map stringify xs))" by (rule valid_join) (use 5 in simp)
  then show ?case by (simp add: valid_Cons valid_append)
next
  case (6 ps)
  have "\<not> hasInvalidUnicode (join [0x2C] (map member ps))"
  proof (rule valid_join)
    show "\<forall>x \<in> set (map member ps). \<not> hasInvalidUnicode x"
    proof
      fix x assume "x \<in> set (map member ps)"
      then obtain k v where "(k, v) \<in> set ps" "x = quoteStr k @ 0x3A # stringify v" by auto
      then show "\<not> hasInvalidUnicode x"
        using 6 [of "(k, v)" k v] by (simp add: valid_append valid_quoteStr valid_Cons)
    qed
  qed
  then show ?case by (simp add: valid_Cons valid_append)
qed (simp_all add: js_def hasInvalidUnicode_ascii valid_intString valid_quoteStr)

subsection \<open>The token round trip\<close>

lemma length_fips256 [simp]: "length (fips256 m) = 32"
proof -
  have "length (chainBytes c) = 32" for c
    by (cases c rule: chainBytes.cases) simp
  then show ?thesis by (simp add: fips256_def)
qed

lemma length_cursorMac [simp]: "length (cursorMac secret owner json) = 32"
  by (simp add: cursorMac_def hmacSha256_def)

lemma splitOn_append: "c \<notin> set a \<Longrightarrow> splitOn c (a @ c # b) = a # splitOn c b"
  by (induction a) auto

lemma splitOn_none: "c \<notin> set a \<Longrightarrow> splitOn c a = [a]"
  by (induction a) auto

lemma dot_base64Url: "0x2E \<notin> set (base64UrlEncode bs)"
  using isB64Url_urlEncode [of bs]
  by (auto simp: list_all_iff isB64Url_def isAlnum_def isDigit_def)

lemma splitOn_token:
  "splitOn 0x2E (base64UrlEncode a @ js ''.'' @ base64UrlEncode b) = [base64UrlEncode a, base64UrlEncode b]"
  using splitOn_append [of "0x2E" "base64UrlEncode a"] splitOn_none [of "0x2E"] dot_base64Url
  by (simp add: js_def)

lemma stringify_not_Nil [simp]: "stringify j \<noteq> []"
  using stringify_first [of j] by auto

lemma utf8Bytes_not_Nil: "s \<noteq> [] \<Longrightarrow> utf8Bytes s \<noteq> []"
  by (cases s rule: scalars.cases) (auto simp: utf8Bytes_def)

lemma requireStr_Inr [result_simps]: "requireStr v e = Inr s \<longleftrightarrow> v = Str s"
  by (cases v) (auto simp: requireStr_def)

lemma requireStr_Inl [result_simps]: "requireStr v e = Inl e' \<longleftrightarrow> \<not> isStr v \<and> e' = e"
  by (cases v) (auto simp: requireStr_def isStr_def)

lemma orInvalid_Inr [result_simps]: "orInvalid m r = Inr x \<longleftrightarrow> r = Inr x"
  by (cases r) (auto simp: orInvalid_def)

text \<open>What a created token is made of.\<close>

lemma createCursor_Inr:
  assumes "createCursor r = Inr token"
  obtains secret owner ep fe fd w p where
    "serverSecret r = Str secret" "ownerIdentityKey r = Str owner" "isIdentityKey (Str owner)"
    "epoch r = Str ep" "feed r = Str fe" "filterDigest r = Str fd" "watermark r = Str w"
    "isUint64DecimalString (Str w)" "position r = Str p"
    "\<bar>nowSeconds r + ttlSeconds r\<bar> \<le> 9007199254740991"
    "token = base64UrlEncode (utf8Bytes (stringify (cursorPayload ep fe fd w p (nowSeconds r + ttlSeconds r))))
       @ js ''.'' @ base64UrlEncode (cursorMac secret owner
           (stringify (cursorPayload ep fe fd w p (nowSeconds r + ttlSeconds r))))"
  using assms by (auto simp: createCursor_def result_simps Let_def)

lemma cursorPayload_okJson: "okJson (cursorPayload ep fe fd w p e) \<longleftrightarrow> \<bar>e\<bar> \<le> 9007199254740991"
  by (simp add: cursorPayload_def js_def)

lemma cursorPayload_fields:
  "field (ofJson (cursorPayload ep fe fd w p e)) ''v'' = IntNum 1"
  "field (ofJson (cursorPayload ep fe fd w p e)) ''exp'' = IntNum e"
  "field (ofJson (cursorPayload ep fe fd w p e)) ''epoch'' = Str ep"
  "field (ofJson (cursorPayload ep fe fd w p e)) ''feed'' = Str fe"
  "field (ofJson (cursorPayload ep fe fd w p e)) ''fd'' = Str fd"
  "field (ofJson (cursorPayload ep fe fd w p e)) ''w'' = Str w"
  "field (ofJson (cursorPayload ep fe fd w p e)) ''p'' = Str p"
  by (simp_all add: cursorPayload_def field_def getProp_def js_def)

lemma intOf_IntNum [simp]: "intOf (IntNum z) = z"
  by (simp add: intOf_def)

lemma checkClaims_payload:
  assumes "validateChangeSequence (Str w) ''watermark'' = Inr w" "\<bar>e\<bar> \<le> 9007199254740991"
  shows "checkClaims (ofJson (cursorPayload ep fe fd w p e)) c =
     (if e \<le> vNow c then Inl expiredCursor
      else if expectedEpoch c \<noteq> Undefined \<and> expectedEpoch c \<noteq> Str ep then Inl epochChanged
      else if expectedFeed c \<noteq> Undefined \<and> expectedFeed c \<noteq> Str fe
        then Inl (invalidCursor ''cursor feed mismatch'')
      else if expectedFilterDigest c \<noteq> Str fd
        then Inl (invalidCursor ''cursor filter mismatch'')
      else Inr (ofJson (cursorPayload ep fe fd w p e)))"
  unfolding checkClaims_def cursorPayload_fields intOf_IntNum isSafeInteger_IntNum assms(1) orInvalid_def
  using assms(2) by (auto simp add: require_def eq_commute simp del: ofJson.simps)

lemma verifyCursor_created:
  assumes c: "createCursor r = Inr token"
    and k: "vSecret c = serverSecret r" "vOwner c = ownerIdentityKey r"
  shows "verifyCursor (Str token) c =
     (if nowSeconds r + ttlSeconds r \<le> vNow c then Inl expiredCursor
      else if expectedEpoch c \<noteq> Undefined \<and> expectedEpoch c \<noteq> epoch r then Inl epochChanged
      else if expectedFeed c \<noteq> Undefined \<and> expectedFeed c \<noteq> feed r
        then Inl (invalidCursor ''cursor feed mismatch'')
      else if expectedFilterDigest c \<noteq> filterDigest r
        then Inl (invalidCursor ''cursor filter mismatch'')
      else Inr (Obj [(js ''v'', IntNum 1), (js ''epoch'', epoch r), (js ''feed'', feed r),
             (js ''fd'', filterDigest r), (js ''w'', watermark r), (js ''p'', position r),
             (js ''exp'', IntNum (nowSeconds r + ttlSeconds r))]))"
  using createCursor_Inr [OF c]
proof (cases)
  case (1 secret owner ep fe fd w p)
  let ?j = "cursorPayload ep fe fd w p (nowSeconds r + ttlSeconds r)"
  have raw: "base64UrlDecode (base64UrlEncode (utf8Bytes (stringify ?j))) = Inr (utf8Bytes (stringify ?j))"
    by (simp add: base64UrlDecode_Inr utf8Bytes_not_Nil)
  have mac: "base64UrlDecode (base64UrlEncode (cursorMac secret owner (stringify ?j)))
      = Inr (cursorMac secret owner (stringify ?j))"
    using length_cursorMac [of secret owner "stringify ?j"]
    by (auto simp: base64UrlDecode_Inr simp del: length_cursorMac)
  have lossy: "utf8Lossy (utf8Bytes (stringify ?j)) = stringify ?j"
    by (rule utf8Lossy_utf8Bytes [OF valid_stringify])
  have parse: "jsonParse (stringify ?j) = Some (ofJson ?j)"
    using 1 by (intro jsonParse_stringify) (simp add: cursorPayload_okJson)
  have "verifyCursor (Str token) c = checkClaims (ofJson ?j) c"
    using 1 k raw mac lossy parse
    by (simp add: verifyCursor_def splitOn_token requireStr_def orInvalid_def del: ofJson.simps)
  moreover have "validateChangeSequence (Str w) ''watermark'' = Inr w"
    using 1 by (simp add: validateChangeSequence_def)
  moreover have "ofJson ?j = Obj [(js ''v'', IntNum 1), (js ''epoch'', epoch r), (js ''feed'', feed r),
             (js ''fd'', filterDigest r), (js ''w'', watermark r), (js ''p'', position r),
             (js ''exp'', IntNum (nowSeconds r + ttlSeconds r))]"
    using 1 by (simp add: cursorPayload_def)
  ultimately show ?thesis
    using checkClaims_payload [of w "nowSeconds r + ttlSeconds r" ep fe fd p c] 1(4,5,6,7,10) by simp
qed

text \<open>What an accepted token must carry.\<close>

lemma verifyCursor_Inr:
  assumes "verifyCursor v c = Inr payload"
  obtains token secret owner raw where "v = Str token" "vSecret c = Str secret" "vOwner c = Str owner"
    "token = base64UrlEncode raw @ js ''.'' @ base64UrlEncode (cursorMac secret owner (utf8Lossy raw))"
    "jsonParse (utf8Lossy raw) = Some payload" "vNow c < intOf (field payload ''exp'')"
    "expectedEpoch c = Undefined \<or> field payload ''epoch'' = expectedEpoch c"
    "expectedFeed c = Undefined \<or> field payload ''feed'' = expectedFeed c"
    "field payload ''fd'' = expectedFilterDigest c" "isUint64DecimalString (field payload ''w'')"
proof -
  obtain token where t: "v = Str token" using assms by (auto simp: verifyCursor_def result_simps)
  obtain p0 p1 where sp: "splitOn 0x2E token = [p0, p1]"
    using assms t by (auto simp: verifyCursor_def requireStr_def split: list.splits)
  then have tok: "token = p0 @ js ''.'' @ p1"
  proof -
    have join: "join [0x2E] (splitOn 0x2E s) = s" for s
    proof (induction s)
      case (Cons u s)
      then show ?case
        by (cases "splitOn 0x2E s"; cases "tl (splitOn 0x2E s)") auto
    qed simp
    show ?thesis using join [of token] sp by (simp add: js_def)
  qed
  show thesis
    using assms t sp tok
    by (auto simp: verifyCursor_def requireStr_def checkClaims_def result_simps Let_def
        split: option.splits jsval.splits intro!: that)
qed

end
