(* ===== verification/Protocol.thy ===== *)
theory Protocol
  imports Cursor
begin

section \<open>Protocol checks\<close>

text \<open>
  The rest of \<open>src/protocol.mjs\<close>: who may own a record in which direction, the recomputation of
  a record's identity, the page budget in bytes of JSON, the shape of a page, and the error
  envelope. \<open>Date.parse\<close> on a string that is not in the ISO format is implementation-defined, so
  it is the parameter \<open>dateParse\<close> (\<open>None\<close> is \<open>NaN\<close>).
\<close>

subsection \<open>Owner and direction\<close>

definition assertOwnerDirection :: "jsval \<Rightarrow> jsval \<Rightarrow> jsval \<Rightarrow> jsval \<Rightarrow> unit result" where
  "assertOwnerDirection owner direction sender recipient =
     andThen (requireIdentity ''ownerIdentityKey'' owner) (\<lambda>own.
     andThen (validateDirection direction) (\<lambda>d.
     andThen (requireIdentity ''sender'' sender) (\<lambda>s.
     andThen (requireIdentity ''recipient'' recipient) (\<lambda>r.
     andThen (require (\<not> (d = js ''inbound'' \<and> r \<noteq> own))
                (range_error ''inbound recipient must equal the authenticated owner'')) (\<lambda>_.
     require (\<not> (d = js ''outbound'' \<and> s \<noteq> own))
                (range_error ''outbound sender must equal the authenticated owner''))))))"

definition recomputeRecordIdentity ::
  "jsval \<Rightarrow> jsval \<Rightarrow> jsval \<Rightarrow> jsval \<Rightarrow> jsval \<Rightarrow> jsval \<Rightarrow> jsval \<Rightarrow> (jsstr \<times> jsstr) result" where
  "recomputeRecordIdentity owner direction messageBox sender recipient messageId body =
     andThen (validateEncryptedBody body) (\<lambda>_.
     andThen (assertOwnerDirection owner direction sender recipient) (\<lambda>_.
     andThen (bodyHash body) (\<lambda>hash.
     andThen (canonicalRecordKey owner direction messageBox sender recipient messageId) (\<lambda>key.
     Inr (hash, key)))))"

definition assertArchiveRecordFits :: "jsstr \<Rightarrow> nat result" where
  "assertArchiveRecordFits body =
     (let bytes = utf8ByteLength body
      in if MAX_BODY_BYTES < bytes then Inl (JsErr RangeError (Some ERR_REQUEST_TOO_LARGE) ''body exceeds 1 MiB'')
         else Inr bytes)"

lemma assertOwnerDirection_Inr [result_simps]:
  "assertOwnerDirection owner direction sender recipient = Inr () \<longleftrightarrow>
     (\<exists>own d s r. owner = Str own \<and> direction = Str d \<and> sender = Str s \<and> recipient = Str r
        \<and> isIdentityKey owner \<and> isIdentityKey sender \<and> isIdentityKey recipient
        \<and> (d = js ''inbound'' \<and> r = own \<or> d = js ''outbound'' \<and> s = own))"
proof -
  have "js ''inbound'' \<noteq> js ''outbound''" by (simp add: js_def)
  then show ?thesis by (auto simp: assertOwnerDirection_def result_simps)
qed

subsection \<open>Page budget\<close>

definition estimateJsonBytes :: "json \<Rightarrow> nat" where
  "estimateJsonBytes v = utf8ByteLength (stringify v)"

datatype page_fit = Fits nat | TooLarge string

fun checkPageLoop :: "nat \<Rightarrow> nat \<Rightarrow> nat \<Rightarrow> bool \<Rightarrow> json list \<Rightarrow> page_fit" where
  "checkPageLoop overhead maxBytes acc first [] = Fits acc"
| "checkPageLoop overhead maxBytes acc first (r # rs) =
     (let bytes = estimateJsonBytes r;
          acc' = acc + bytes + (if first then 0 else 1)
      in if maxBytes < bytes + overhead + 2 then TooLarge ''single record exceeds page budget''
         else if maxBytes < acc' then TooLarge ''page bytes exceed limit''
         else checkPageLoop overhead maxBytes acc' False rs)"

definition checkPageFits :: "json list \<Rightarrow> nat \<Rightarrow> nat \<Rightarrow> nat \<Rightarrow> page_fit" where
  "checkPageFits records overheadBytes maxBytes maxRecords =
     (if maxRecords < length records then TooLarge ''page record count exceeds limit''
      else checkPageLoop overheadBytes maxBytes (overheadBytes + 2) True records)"

definition MAX_PAGE_RECORDS :: nat where
  "MAX_PAGE_RECORDS = 1000"

definition MAX_PAGE_BYTES :: nat where
  "MAX_PAGE_BYTES = 8 * 1024 * 1024"

lemma scalars_append:
  "\<not> loneSurrogate False a \<Longrightarrow> scalars (a @ b) = scalars a @ scalars b"
proof (induction a rule: scalars.induct)
  case (2 u)
  then have "\<not> is_high u" "\<not> is_low u" by simp_all
  then show ?case by (cases b) simp_all
next
  case (3 u v s)
  show ?case
  proof (cases "is_high u \<and> is_low v")
    case True
    then have "\<not> is_high v" by (auto simp: is_high_unat is_low_unat)
    with 3 True show ?thesis by simp
  next
    case False
    with "3.prems" have "\<not> is_high u" "\<not> is_low u" by auto
    with 3 False show ?thesis by simp
  qed
qed simp

lemma utf8ByteLength_append:
  "\<not> hasInvalidUnicode a \<Longrightarrow> utf8ByteLength (a @ b) = utf8ByteLength a + utf8ByteLength b"
  by (simp add: utf8ByteLength_def utf8Bytes_def scalars_append hasInvalidUnicode_def)

lemma utf8ByteLength_Cons: "u < 0x80 \<Longrightarrow> utf8ByteLength (u # s) = Suc (utf8ByteLength s)"
  using utf8ByteLength_append [of "[u]" s] utf8ByteLength_ascii [of "[u]"] hasInvalidUnicode_ascii [of "[u]"]
  by simp

lemma utf8ByteLength_Nil [simp]: "utf8ByteLength [] = 0"
  by (simp add: utf8ByteLength_def utf8Bytes_def)

definition commas :: "json list \<Rightarrow> nat" where
  "commas rs = length rs - 1"

lemma utf8ByteLength_elements:
  "utf8ByteLength (join [0x2C] (map stringify rs)) = sum_list (map estimateJsonBytes rs) + (length rs - 1)"
proof (induction rs)
  case (Cons r rs)
  then show ?case
    by (cases rs) (simp_all add: estimateJsonBytes_def utf8ByteLength_append utf8ByteLength_Cons valid_stringify)
qed simp

lemma estimateJsonBytes_array:
  "estimateJsonBytes (JArr rs) = 2 + sum_list (map estimateJsonBytes rs) + (length rs - 1)"
proof -
  have "\<not> hasInvalidUnicode (join [0x2C] (map stringify rs))"
    by (rule valid_join) (simp add: valid_stringify)
  then show ?thesis
    by (simp add: estimateJsonBytes_def utf8ByteLength_Cons utf8ByteLength_append utf8ByteLength_elements)
qed

lemma checkPageLoop_Fits:
  "overhead + 2 \<le> acc \<Longrightarrow>
   checkPageLoop overhead maxBytes acc first rs = Fits n \<longleftrightarrow>
     n = acc + sum_list (map estimateJsonBytes rs) + (length rs - (if first then 1 else 0))
     \<and> (rs = [] \<or> n \<le> maxBytes)"
proof (induction rs arbitrary: acc first)
  case (Cons r rs)
  let ?t = "acc + estimateJsonBytes r + (if first then 0 else 1)"
  have "checkPageLoop overhead maxBytes ?t False rs = Fits n \<longleftrightarrow>
     n = ?t + sum_list (map estimateJsonBytes rs) + length rs \<and> (rs = [] \<or> n \<le> maxBytes)"
    using Cons.IH [of ?t False] Cons.prems by simp
  then show ?case using Cons.prems by (auto simp: Let_def)
qed auto

text \<open>The budget counts exactly the bytes of the printed array and the overhead.\<close>

lemma checkPageFits_Fits:
  "checkPageFits rs overhead maxBytes maxRecords = Fits n \<longleftrightarrow>
     length rs \<le> maxRecords \<and> n = overhead + estimateJsonBytes (JArr rs) \<and> (rs = [] \<or> n \<le> maxBytes)"
  by (auto simp: checkPageFits_def checkPageLoop_Fits estimateJsonBytes_array)

subsection \<open>Pages and errors\<close>

definition validateHistoryPage :: "(jsstr \<Rightarrow> int option) \<Rightarrow> jsval \<Rightarrow> jsval result" where
  "validateHistoryPage dateParse page =
     (let f = field page in
      andThen (require (case page of Obj _ \<Rightarrow> True | _ \<Rightarrow> False) (type_error ''page must be an object'')) (\<lambda>_.
      andThen (case f ''records'' of Arr rs \<Rightarrow> Inr rs | _ \<Rightarrow> Inl (type_error ''page.records must be an array'')) (\<lambda>rs.
      andThen (require (length rs \<le> MAX_PAGE_RECORDS) (range_error ''page exceeds record bound'')) (\<lambda>_.
      andThen (require (isStr (f ''nextCursor'') \<or> f ''nextCursor'' = Null)
                 (type_error ''page.nextCursor must be string or null'')) (\<lambda>_.
      andThen (require (isStr (f ''checkpoint'') \<and> f ''checkpoint'' \<noteq> Str [])
                 (type_error ''page.checkpoint is required even on empty/final pages'')) (\<lambda>_.
      andThen (require (f ''hasMore'' = Boolean True \<or> f ''hasMore'' = Boolean False)
                 (type_error ''page.hasMore must be boolean'')) (\<lambda>_.
      andThen (require (\<not> (f ''hasMore'' = Boolean False \<and> f ''nextCursor'' \<noteq> Null))
                 (type_error ''final page must have nextCursor null'')) (\<lambda>_.
      andThen (require (\<not> (f ''hasMore'' = Boolean True \<and> f ''nextCursor'' = Null))
                 (type_error ''non-final page must carry nextCursor'')) (\<lambda>_.
      andThen (require (isStr (f ''watermark'')) (type_error ''page.watermark is required'')) (\<lambda>_.
      andThen (validateChangeSequence (f ''watermark'') ''watermark'') (\<lambda>_.
      andThen (validateEpoch (f ''epoch'')) (\<lambda>_.
      case f ''serverTime'' of
        Str t \<Rightarrow> if dateParse t = None then Inl (type_error ''page.serverTime must be an ISO timestamp'') else Inr page
      | _ \<Rightarrow> Inl (type_error ''page.serverTime must be an ISO timestamp'')))))))))))))"

definition ERROR_CODES :: "string list" where
  "ERROR_CODES =
     [''ERR_AUTHENTICATION_REQUIRED'', ''ERR_FORBIDDEN'', ''ERR_INVALID_RECORD'', ''ERR_REQUEST_TOO_LARGE'',
      ''ERR_QUOTA_EXCEEDED'', ''ERR_IMMUTABLE_CONFLICT'', ''ERR_CURSOR_EXPIRED'', ''ERR_INVALID_CURSOR'',
      ''ERR_REVISION_CONFLICT'', ''ERR_EPOCH_CHANGED'', ''ERR_RATE_LIMITED'', ''ERR_UNAVAILABLE'',
      ''ERR_INTERNAL'', ''ERR_PAID_TRANSPORT_UNSUPPORTED'', ''ERR_IDEMPOTENCY_CONFLICT'',
      ''ERR_EPOCH_EXHAUSTED'']"

definition makeStoreError :: "jsval \<Rightarrow> jsval \<Rightarrow> jsval \<Rightarrow> (jsstr \<times> jsval) list result" where
  "makeStoreError code description retryAfterSeconds =
     andThen (require (code \<in> set (map (Str \<circ> js) ERROR_CODES)) (type_error ''unknown error code'')) (\<lambda>_.
     andThen (require (isStr description \<and> description \<noteq> Str []) (type_error ''description is required'')) (\<lambda>_.
     let error = [(js ''status'', Str (js ''error'')), (js ''code'', code), (js ''description'', description)] in
     if retryAfterSeconds = Undefined then Inr error
     else if \<not> isSafeInteger retryAfterSeconds \<or> intOf retryAfterSeconds < 0
     then Inl (type_error ''retryAfterSeconds must be a non-negative integer'')
     else Inr (error @ [(js ''retryAfterSeconds'', retryAfterSeconds)])))"

end
