(* ===== verification/Contract.thy ===== *)
theory Contract
  imports Protocol
begin

section \<open>The repository contract\<close>

text \<open>
  \<open>src/repository-contract.mjs\<close>: what every storage adapter shares. The checks on an archived
  record and on a batch, the outcome of each item, idempotency parameters, sequence numbers and
  the rotation of an owner's epoch. A record in a request is an arbitrary value.
  \<open>randomUUID\<close> is an argument: the list of its next results.
\<close>

subsection \<open>Idempotency and sequences\<close>

text \<open>Parameters with an \<open>undefined\<close> value are \<open>None\<close> and dropped; keys are sorted by code unit.
  Node's \<open>createHash('sha256')\<close> is FIPS 180-4.\<close>

definition canonicalParamsHash :: "(jsstr \<times> jsstr option) list \<Rightarrow> jsstr" where
  "canonicalParamsHash params =
     hexOfBytes (fips256 (utf8Bytes (stringify (JObj
       (map (\<lambda>(k, v). (k, JStr (the v))) (filter (\<lambda>(k, v). v \<noteq> None) (sort_key fst params)))))))"

definition validateIdempotencyInput :: "jsval \<Rightarrow> jsval result" where
  "validateIdempotencyInput key =
     (if key = Undefined then Inr Undefined
      else andThen (validateIdempotencyKey key) (\<lambda>_. Inr key))"

definition invalidRecord :: "string \<Rightarrow> jserr" where
  "invalidRecord m = JsErr TypeError (Some ERR_INVALID_RECORD) m"

definition recode :: "'a result \<Rightarrow> 'a result" where
  "recode r = (case r of Inl e \<Rightarrow> Inl (invalidRecord (err_msg e)) | Inr x \<Rightarrow> Inr x)"

definition validateStateMutationInput :: "jsval \<Rightarrow> jsval \<Rightarrow> (jsstr \<times> jsstr) result" where
  "validateStateMutationInput expectedRevision idempotencyKey =
     andThen (require (expectedRevision \<noteq> Undefined) (invalidRecord ''expectedRevision is required'')) (\<lambda>_.
     andThen (recode (validateChangeSequence expectedRevision ''expectedRevision'')) (\<lambda>rev.
     andThen (require (idempotencyKey \<noteq> Undefined) (invalidRecord ''idempotencyKey is required'')) (\<lambda>_.
     andThen (recode (validateIdempotencyKey idempotencyKey)) (\<lambda>key.
     Inr (rev, key)))))"

definition idempotencyConflict :: jserr where
  "idempotencyConflict =
     JsErr RangeError (Some ERR_IDEMPOTENCY_CONFLICT) ''idempotency key reuse with different input''"

definition IDEMPOTENCY_TTL_MS :: int where
  "IDEMPOTENCY_TTL_MS = 24 * 60 * 60 * 1000"

definition MAX_IDEMPOTENCY_ROWS_PER_OWNER :: nat where
  "MAX_IDEMPOTENCY_ROWS_PER_OWNER = 1024"

definition auxiliaryQuotaExceeded :: "string \<Rightarrow> jserr" where
  "auxiliaryQuotaExceeded resource =
     JsErr RangeError (Some ERR_QUOTA_EXCEEDED) (resource @ '' capacity reached'')"

definition nextSequenceString :: "jsstr \<Rightarrow> jsstr" where
  "nextSequenceString current = decOfNat (natOfDec current + 1)"

lemma nextSequenceString_decOfNat [simp]: "nextSequenceString (decOfNat n) = decOfNat (Suc n)"
  by (simp add: nextSequenceString_def)

subsection \<open>Epochs\<close>

text \<open>\<open>/^gen-(\d+)$/\<close>, then a numeral without a leading zero.\<close>

definition parseEpochGeneration :: "jsstr \<Rightarrow> nat option" where
  "parseEpochGeneration ep =
     (let d = drop 4 ep
      in if startsWith ep (js ''gen-'') \<and> d \<noteq> [] \<and> list_all isDigit d
         then (if decOfNat (natOfDec d) = d then Some (natOfDec d) else None)
         else None)"

definition MAX_EPOCH_GENERATION :: nat where
  "MAX_EPOCH_GENERATION = 18446744073709551615"

text \<open>\<open>do \{ next = `epoch-$\{randomUUID()\}` \} while (next === epoch)\<close>: the list holds the draws the
  loop makes, its last one the draw the loop ends with.\<close>

fun freshEpoch :: "jsstr list \<Rightarrow> jsstr \<Rightarrow> jsstr" where
  "freshEpoch [] ep = js ''epoch-''"
| "freshEpoch [u] ep = js ''epoch-'' @ u"
| "freshEpoch (u # us) ep = (if js ''epoch-'' @ u = ep then freshEpoch us ep else js ''epoch-'' @ u)"

definition epochExhausted :: jserr where
  "epochExhausted =
     JsErr RangeError (Some ERR_EPOCH_EXHAUSTED) ''epoch generation exhausted at uint64 maximum''"

definition rotateOwnerEpoch :: "jsstr list \<Rightarrow> jsstr \<Rightarrow> jsstr result" where
  "rotateOwnerEpoch uuids ep = (case parseEpochGeneration ep of
       Some g \<Rightarrow> if MAX_EPOCH_GENERATION \<le> g then Inl epochExhausted
                 else Inr (js ''gen-'' @ decOfNat (g + 1))
     | None \<Rightarrow> validateEpoch (Str (freshEpoch uuids ep)))"

lemma parseEpochGeneration_gen [simp]: "parseEpochGeneration (js ''gen-'' @ decOfNat n) = Some n"
proof -
  have "drop 4 (js ''gen-'' @ decOfNat n) = decOfNat n" by (simp add: js_def)
  then show ?thesis
    by (simp add: parseEpochGeneration_def startsWith_def decOfNat_digits)
qed

lemma parseEpochGeneration_Some:
  "parseEpochGeneration ep = Some n \<Longrightarrow> ep = js ''gen-'' @ decOfNat n"
proof -
  assume a: "parseEpochGeneration ep = Some n"
  then have "take 4 ep = js ''gen-''" "drop 4 ep = decOfNat n"
    by (auto simp: parseEpochGeneration_def Let_def startsWith_def js_def numeral_eq_Suc split: if_splits)
  then show ?thesis by (metis append_take_drop_id)
qed

lemma rotate_gen:
  "rotateOwnerEpoch uuids (js ''gen-'' @ decOfNat n) =
     (if n < MAX_EPOCH_GENERATION then Inr (js ''gen-'' @ decOfNat (Suc n)) else Inl epochExhausted)"
  by (simp add: rotateOwnerEpoch_def)

text \<open>A rotation never returns the epoch it left, once some draw differs from it.\<close>

lemma freshEpoch_neq: "us \<noteq> [] \<Longrightarrow> js ''epoch-'' @ last us \<noteq> ep \<Longrightarrow> freshEpoch us ep \<noteq> ep"
  by (induction us ep rule: freshEpoch.induct) auto

lemma rotateOwnerEpoch_neq:
  assumes "rotateOwnerEpoch us ep = Inr ep'" "us \<noteq> []" "js ''epoch-'' @ last us \<noteq> ep"
  shows "ep' \<noteq> ep"
proof (cases "parseEpochGeneration ep")
  case (Some n)
  then have "ep = js ''gen-'' @ decOfNat n" by (rule parseEpochGeneration_Some)
  with assms Some show ?thesis by (auto simp: rotateOwnerEpoch_def split: if_splits)
next
  case None
  then have "ep' = freshEpoch us ep" using assms by (simp add: rotateOwnerEpoch_def result_simps)
  moreover have "freshEpoch us ep \<noteq> ep"
    using assms by (intro freshEpoch_neq)
  ultimately show ?thesis by simp
qed

subsection \<open>Archived records\<close>

datatype archive_check =
    Invalid (chk_code: code) (chk_reason: string)
  | Valid (chk_hash: jsstr) (chk_key: jsstr) (chk_bytes: nat)

definition readField :: "jsval \<Rightarrow> string \<Rightarrow> jsval result" where
  "readField v k = (case v of
       Undefined \<Rightarrow> Inl (type_error (''Cannot read properties of undefined (reading '' @ [CHR 0x27] @ k @ [CHR 0x27] @ '')''))
     | Null \<Rightarrow> Inl (type_error (''Cannot read properties of null (reading '' @ [CHR 0x27] @ k @ [CHR 0x27] @ '')''))
     | _ \<Rightarrow> Inr (field v k))"

text \<open>The first \<open>try\<close> block: box, id, direction (a plain return), ownership, body.\<close>

definition checkArchiveFields :: "jsval \<Rightarrow> jsval \<Rightarrow> unit result" where
  "checkArchiveFields owner r =
     andThen (readField r ''messageBox'') (\<lambda>box.
     andThen (validateMessageBox box) (\<lambda>_.
     andThen (validateMessageId (field r ''messageId'')) (\<lambda>_.
     andThen (require (field r ''direction'' \<in> {Str (js ''inbound''), Str (js ''outbound'')})
                (type_error ''direction'')) (\<lambda>_.
     andThen (assertOwnerDirection owner (field r ''direction'') (field r ''sender'') (field r ''recipient'')) (\<lambda>_.
     andThen (validateEncryptedBody (field r ''body'')) (\<lambda>_. Inr ()))))))"

definition bodyLength :: "jsval \<Rightarrow> nat" where
  "bodyLength r = (case field r ''body'' of Str s \<Rightarrow> utf8ByteLength s | _ \<Rightarrow> 0)"

definition recomputeArchive :: "jsval \<Rightarrow> jsval \<Rightarrow> (jsstr \<times> jsstr) result" where
  "recomputeArchive owner r =
     andThen (bodyHash (field r ''body'')) (\<lambda>hash.
     andThen (canonicalRecordKey owner (field r ''direction'') (field r ''messageBox'') (field r ''sender'')
                (field r ''recipient'') (field r ''messageId'')) (\<lambda>key.
     Inr (hash, key)))"

definition validateArchiveInput :: "jsval \<Rightarrow> jsval \<Rightarrow> jsval \<Rightarrow> jsval \<Rightarrow> archive_check" where
  "validateArchiveInput owner ep r ownerEpoch =
     (if \<not> isIdentityKey owner then Invalid ERR_INVALID_RECORD ''owner''
      else if \<not> is_ok (validateEpoch ep) then Invalid ERR_INVALID_RECORD ''epoch format''
      else if ownerEpoch \<noteq> Undefined \<and> ep \<noteq> ownerEpoch then Invalid ERR_EPOCH_CHANGED ''stale epoch''
      else if MAX_BODY_BYTES < bodyLength r then Invalid ERR_REQUEST_TOO_LARGE ''body exceeds 1 MiB''
      else case checkArchiveFields owner r of
        Inl e \<Rightarrow> Invalid ERR_INVALID_RECORD (err_msg e)
      | Inr _ \<Rightarrow>
          if MAX_BODY_BYTES < bodyLength r then Invalid ERR_REQUEST_TOO_LARGE ''body exceeds 1 MiB''
          else case recomputeArchive owner r of
            Inl e \<Rightarrow> Invalid ERR_INVALID_RECORD (err_msg e)
          | Inr (hash, key) \<Rightarrow>
              if field r ''recordKey'' \<notin> {Undefined, Str key}
              then Invalid ERR_INVALID_RECORD ''recordKey mismatch (server recomputes)''
              else if field r ''bodyHash'' \<notin> {Undefined, Str hash}
              then Invalid ERR_INVALID_RECORD ''bodyHash mismatch (server recomputes)''
              else if field r ''deliveryState'' \<notin> {Undefined, Str (js ''prepared''), Str (js ''received'')}
              then Invalid ERR_INVALID_RECORD ''deliveryState must be prepared or received on archive''
              else Valid hash key (bodyLength r))"

record store_limits =
  MAX_RECORDS_PER_OWNER :: nat
  MAX_RESERVED_RECORD_KEYS_PER_OWNER :: nat
  MAX_BYTES_PER_OWNER :: nat
  MAX_BATCH_RECORDS :: nat
  MAX_BATCH_BYTES :: nat

definition LIMITS :: store_limits where
  "LIMITS = \<lparr>MAX_RECORDS_PER_OWNER = 10000, MAX_RESERVED_RECORD_KEYS_PER_OWNER = 1000000,
     MAX_BYTES_PER_OWNER = 1024 * 1024 * 1024, MAX_BATCH_RECORDS = 100,
     MAX_BATCH_BYTES = 4 * 1024 * 1024\<rparr>"

definition validateArchiveBatchBounds :: "jsval \<Rightarrow> store_limits \<Rightarrow> jsval list result" where
  "validateArchiveBatchBounds records L = (case records of
       Arr rs \<Rightarrow>
         if rs = [] then Inl (invalidRecord ''records must be a non-empty array'')
         else if MAX_BATCH_RECORDS L < length rs \<or> MAX_BATCH_BYTES L < sum_list (map bodyLength rs)
         then Inl (JsErr RangeError (Some ERR_REQUEST_TOO_LARGE) ''batch exceeds bound'')
         else Inr rs
     | _ \<Rightarrow> Inl (invalidRecord ''records must be a non-empty array''))"

subsection \<open>Outcomes\<close>

datatype outcome_kind =
  EpochChanged | InvalidItem | AlreadyPresent | Conflict | DeletedItem | QuotaExceeded | Stored | Failed

record outcome =
  oIndex :: nat
  oKey :: jsval
  oKind :: outcome_kind
  oError :: "code option"
  oHash :: "jsstr option"
  oBytes :: nat
  oSrc :: jsval
  oSeq :: "jsstr option"

definition plainOutcome :: "nat \<Rightarrow> jsval \<Rightarrow> outcome_kind \<Rightarrow> code option \<Rightarrow> outcome" where
  "plainOutcome i k kind e =
     \<lparr>oIndex = i, oKey = k, oKind = kind, oError = e, oHash = None, oBytes = 0, oSrc = Undefined, oSeq = None\<rparr>"

text \<open>\<open>record?.recordKey ?? null\<close>\<close>

definition suppliedKey :: "jsval \<Rightarrow> jsval" where
  "suppliedKey r = (if field r ''recordKey'' = Undefined then Null else field r ''recordKey'')"

definition archiveEpochChanged :: "jsval list \<Rightarrow> outcome list" where
  "archiveEpochChanged rs =
     map (\<lambda>(i, r). plainOutcome i (suppliedKey r) EpochChanged (Some ERR_EPOCH_CHANGED)) (enumerate 0 rs)"

definition archiveInvalidOutcome :: "nat \<Rightarrow> jsval \<Rightarrow> code \<Rightarrow> outcome" where
  "archiveInvalidOutcome i r c =
     plainOutcome i (suppliedKey r) (if c = ERR_EPOCH_CHANGED then EpochChanged else InvalidItem) (Some c)"

text \<open>The fields \<open>sameImmutableRecord\<close> compares.\<close>

record content =
  messageId :: jsval
  messageBox :: jsval
  direction :: jsval
  sender :: jsval
  recipient :: jsval
  contentHash :: jsval
  body :: jsval

definition contentOf :: "jsval \<Rightarrow> jsstr \<Rightarrow> content" where
  "contentOf r hash = \<lparr>messageId = field r ''messageId'', messageBox = field r ''messageBox'',
     direction = field r ''direction'', sender = field r ''sender'', recipient = field r ''recipient'',
     contentHash = Str hash, body = field r ''body''\<rparr>"

definition sameImmutableRecord :: "content \<Rightarrow> content \<Rightarrow> bool" where
  "sameImmutableRecord l r \<longleftrightarrow>
     messageId l = messageId r \<and> messageBox l = messageBox r \<and> direction l = direction r
     \<and> sender l = sender r \<and> recipient l = recipient r \<and> contentHash l = contentHash r
     \<and> body l = body r"

definition archiveExistingOutcome :: "nat \<Rightarrow> jsval \<Rightarrow> jsstr \<Rightarrow> jsstr \<Rightarrow> content \<Rightarrow> outcome" where
  "archiveExistingOutcome i r hash key existing =
     (if sameImmutableRecord existing (contentOf r hash)
      then (plainOutcome i (Str key) AlreadyPresent None)\<lparr>oHash := Some hash\<rparr>
      else plainOutcome i (Str key) Conflict (Some ERR_IMMUTABLE_CONFLICT))"

record projection =
  pCount :: int
  pBytes :: int
  pReserved :: int

definition archiveAdmissionOutcome ::
  "nat \<Rightarrow> jsval \<Rightarrow> jsstr \<Rightarrow> jsstr \<Rightarrow> nat \<Rightarrow> projection \<Rightarrow> store_limits \<Rightarrow> outcome \<times> projection" where
  "archiveAdmissionOutcome i r hash key bytes p L =
     (if int (MAX_RECORDS_PER_OWNER L) < pCount p + 1
         \<or> int (MAX_BYTES_PER_OWNER L) < pBytes p + int bytes
         \<or> int (MAX_RESERVED_RECORD_KEYS_PER_OWNER L) < pReserved p + 1
      then (plainOutcome i (Str key) QuotaExceeded (Some ERR_QUOTA_EXCEEDED), p)
      else (\<lparr>oIndex = i, oKey = Str key, oKind = Stored, oError = None, oHash = Some hash,
              oBytes = bytes, oSrc = r, oSeq = None\<rparr>,
            \<lparr>pCount = pCount p + 1, pBytes = pBytes p + int bytes, pReserved = pReserved p + 1\<rparr>))"

subsection \<open>What a valid record is\<close>

lemma validateArchiveInput_Valid:
  assumes "validateArchiveInput (Str owner) ep r ownerEpoch = Valid hash key bytes"
  obtains dir box sdr rcp mid bdy where
    "field r ''direction'' = Str dir" "field r ''messageBox'' = Str box" "field r ''sender'' = Str sdr"
    "field r ''recipient'' = Str rcp" "field r ''messageId'' = Str mid" "field r ''body'' = Str bdy"
    "bytes = utf8ByteLength bdy" "bytes \<le> MAX_BODY_BYTES" "hash = sha256Hex (utf8Bytes bdy)"
    "is_ok (validateEncryptedBody (Str bdy))"
    "canonicalRecordKey (Str owner) (Str dir) (Str box) (Str sdr) (Str rcp) (Str mid) = Inr key"
    "dir = js ''inbound'' \<and> rcp = owner \<or> dir = js ''outbound'' \<and> sdr = owner"
    "isIdentityKey (Str owner)" "ownerEpoch = Undefined \<or> ep = ownerEpoch"
    "field r ''deliveryState'' \<in> {Undefined, Str (js ''prepared''), Str (js ''received'')}"
proof -
  obtain f where f: "checkArchiveFields (Str owner) r = Inr f" and ok: "isIdentityKey (Str owner)"
    and rc: "recomputeArchive (Str owner) r = Inr (hash, key)" and len: "bodyLength r \<le> MAX_BODY_BYTES"
    and b: "bytes = bodyLength r" and ep: "ownerEpoch = Undefined \<or> ep = ownerEpoch"
    and ds: "field r ''deliveryState'' \<in> {Undefined, Str (js ''prepared''), Str (js ''received'')}"
    using assms by (auto simp: validateArchiveInput_def split: if_splits sum.splits prod.splits)
  obtain own dir sdr rcp where d: "field r ''direction'' = Str dir" "field r ''sender'' = Str sdr"
      "field r ''recipient'' = Str rcp" "dir = js ''inbound'' \<and> rcp = owner \<or> dir = js ''outbound'' \<and> sdr = owner"
    and eb: "is_ok (validateEncryptedBody (field r ''body''))"
    using f by (auto simp: checkArchiveFields_def result_simps is_ok_iff)
  obtain bdy where bd: "field r ''body'' = Str bdy"
    using eb by (cases "field r ''body''") (simp_all add: validateEncryptedBody_def)
  obtain box mid where bm: "field r ''messageBox'' = Str box" "field r ''messageId'' = Str mid"
    using rc by (auto simp: recomputeArchive_def canonicalRecordKey_def validateMessageBox_def
        validateMessageId_def result_simps)
  show thesis
    by (rule that [of dir box sdr rcp mid bdy])
      (use d eb bd bm rc b len ok ep ds in
        \<open>auto simp: recomputeArchive_def result_simps bodyHash_def bodyLength_def split: if_splits\<close>)
qed

lemma outcome_kinds [simp]:
  "oKind (plainOutcome i k kind e) = kind" "oIndex (plainOutcome i k kind e) = i"
  "oKind (archiveInvalidOutcome i r c) \<noteq> Stored" "oIndex (archiveInvalidOutcome i r c) = i"
  "oKind (archiveExistingOutcome i r hash key ct) \<noteq> Stored" "oIndex (archiveExistingOutcome i r hash key ct) = i"
  by (simp_all add: plainOutcome_def archiveInvalidOutcome_def archiveExistingOutcome_def)

end
