(* ===== verification/History.thy ===== *)
theory History
  imports Contract
begin

section \<open>What a message history promises\<close>

text \<open>
  The contract of a history repository, free of maps, counters and logs: per owner, the live
  messages by record key, the keys that were deleted, and the next change sequence. A step
  archives fresh messages, moves a delivery state, deletes a message, or clears an owner. The
  locale \<open>history_repository\<close> states what an adapter must refine and derives, once, what every
  client may rely on.
\<close>

record msg =
  msgContent :: content
  msgCreated :: jsstr
  msgState :: jsstr
  msgRevision :: nat
  msgSequence :: nat

record history =
  live :: "jsstr \<times> jsstr \<Rightarrow> msg option"
  gone :: "(jsstr \<times> jsstr) set"
  nextSeq :: "jsstr \<Rightarrow> nat"

fun archiveAll :: "jsstr \<Rightarrow> (jsstr \<times> msg) list \<Rightarrow> history \<Rightarrow> history" where
  "archiveAll owner [] h = h"
| "archiveAll owner ((k, m) # ms) h =
     archiveAll owner ms (h\<lparr>live := (live h)((owner, k) \<mapsto> m), nextSeq := (nextSeq h)(owner := Suc (nextSeq h owner))\<rparr>)"

definition freshMsgs :: "jsstr \<Rightarrow> (jsstr \<times> msg) list \<Rightarrow> history \<Rightarrow> bool" where
  "freshMsgs owner ms h \<longleftrightarrow> distinct (map fst ms) \<and> map (msgSequence \<circ> snd) ms = [nextSeq h owner..<nextSeq h owner + length ms]
     \<and> (\<forall>(k, m) \<in> set ms. live h (owner, k) = None \<and> (owner, k) \<notin> gone h \<and> msgRevision m = 1
          \<and> msgState m \<in> {js ''prepared'', js ''received''})"

definition moved :: "jsstr \<Rightarrow> nat \<Rightarrow> msg \<Rightarrow> msg" where
  "moved st q m = m\<lparr>msgState := st, msgRevision := Suc (msgRevision m), msgSequence := q\<rparr>"

definition tick :: "jsstr \<Rightarrow> history \<Rightarrow> history" where
  "tick owner h = h\<lparr>nextSeq := (nextSeq h)(owner := Suc (nextSeq h owner))\<rparr>"

text \<open>A step of one owner, and a step of any owner.\<close>

inductive ownerStep :: "jsstr \<Rightarrow> history \<Rightarrow> history \<Rightarrow> bool" for owner :: jsstr where
  hist_none: "ownerStep owner h h"
| hist_archive: "freshMsgs owner ms h \<Longrightarrow> ownerStep owner h (archiveAll owner ms h)"
| hist_deliver: "live h (owner, k) = Some m \<Longrightarrow> (owner, k) \<notin> gone h \<Longrightarrow> st \<noteq> msgState m
    \<Longrightarrow> msgState m \<noteq> js ''accepted''
    \<Longrightarrow> ownerStep owner h (tick owner (h\<lparr>live := (live h)((owner, k) \<mapsto> moved st (nextSeq h owner) m)\<rparr>))"
| hist_delete: "live h (owner, k) \<noteq> None \<or> (owner, k) \<in> gone h
    \<Longrightarrow> ownerStep owner h (tick owner (h\<lparr>live := (live h)((owner, k) := None), gone := insert (owner, k) (gone h)\<rparr>))"
| hist_clear: "ownerStep owner h (h\<lparr>live := (\<lambda>p. if fst p = owner then None else live h p),
    gone := {p \<in> gone h. fst p \<noteq> owner}\<rparr>)"

inductive_simps ownerStep_iff: "ownerStep owner h h'"

definition histStep :: "history \<Rightarrow> history \<Rightarrow> bool" where
  "histStep h h' \<longleftrightarrow> (\<exists>owner. ownerStep owner h h')"

lemma histStepI: "ownerStep owner h h' \<Longrightarrow> histStep h h'"
  by (auto simp: histStep_def)

lemma archiveAll_live:
  "distinct (map fst ms) \<Longrightarrow> live (archiveAll owner ms h) (o', k) =
     (if o' = owner then (case map_of ms k of Some m \<Rightarrow> Some m | None \<Rightarrow> live h (o', k)) else live h (o', k))"
proof (induction ms arbitrary: h)
  case (Cons x ms)
  obtain a b where x: "x = (a, b)" by fastforce
  have "map_of ms a = None" using Cons.prems by (simp add: x map_of_eq_None_iff)
  then show ?case using Cons by (auto simp: x split: option.splits)
qed simp

lemma archiveAll_rest:
  "gone (archiveAll owner ms h) = gone h"
  "nextSeq (archiveAll owner ms h) = (nextSeq h)(owner := nextSeq h owner + length ms)"
  by (induction ms arbitrary: h) auto

lemma freshMsgs_keeps:
  assumes "freshMsgs owner ms h" "live h p = Some m"
  shows "live (archiveAll owner ms h) p = Some m"
proof -
  have "map_of ms k = None" if "p = (owner, k)" for k
    using assms that by (auto simp: freshMsgs_def map_of_eq_None_iff)
  then show ?thesis
    using assms by (cases p) (auto simp: archiveAll_live freshMsgs_def split: option.splits)
qed

subsection \<open>What a step keeps\<close>

text \<open>A message's content and creation time never change, its revision and its state only move
  forward, and \<open>accepted\<close> is final.\<close>

definition laterMsg :: "msg \<Rightarrow> msg \<Rightarrow> bool" where
  "laterMsg m m' \<longleftrightarrow> msgContent m' = msgContent m \<and> msgCreated m' = msgCreated m \<and> msgRevision m \<le> msgRevision m'
     \<and> (msgState m = js ''accepted'' \<longrightarrow> m' = m)"

definition laterHistory :: "history \<Rightarrow> history \<Rightarrow> bool" where
  "laterHistory h h' \<longleftrightarrow> (\<forall>p m m'. live h p = Some m \<longrightarrow> live h' p = Some m' \<longrightarrow> laterMsg m m')
     \<and> (\<forall>owner. nextSeq h owner \<le> nextSeq h' owner)
     \<and> (\<forall>p m'. live h p = None \<longrightarrow> live h' p = Some m' \<longrightarrow> nextSeq h (fst p) \<le> msgSequence m' \<and> msgRevision m' = 1)"

lemma ownerStep_later: "ownerStep owner h h' \<Longrightarrow> laterHistory h h'"
proof (induction rule: ownerStep.induct)
  case (hist_archive ms h)
  have "nextSeq h (fst p) \<le> msgSequence m \<and> msgRevision m = 1"
    if "live h p = None" "live (archiveAll owner ms h) p = Some m" for p m
  proof -
    obtain o' k where p: "p = (o', k)" by fastforce
    have d: "distinct (map fst ms)" using hist_archive by (simp add: freshMsgs_def)
    have "o' = owner \<and> map_of ms k = Some m"
      using that unfolding p archiveAll_live [OF d] by (auto split: if_splits option.splits)
    then have "p = (owner, k)" "(k, m) \<in> set ms" by (auto simp: p map_of_SomeD)
    moreover have "msgSequence m \<in> set (map (msgSequence \<circ> snd) ms)" using \<open>(k, m) \<in> set ms\<close> by force
    ultimately have "msgSequence m \<in> {nextSeq h owner..<nextSeq h owner + length ms}" "msgRevision m = 1" "fst p = owner"
      using hist_archive unfolding freshMsgs_def by (auto simp del: map_map)
    then show ?thesis by simp
  qed
  then show ?case
    using freshMsgs_keeps [OF hist_archive] by (auto simp: laterHistory_def laterMsg_def archiveAll_rest)
qed (auto simp: laterHistory_def laterMsg_def tick_def moved_def)

lemma histStep_later: "histStep h h' \<Longrightarrow> laterHistory h h'"
  by (auto simp: histStep_def intro: ownerStep_later)

text \<open>A step of one owner leaves every other owner's part alone.\<close>

definition othersKept :: "jsstr \<Rightarrow> history \<Rightarrow> history \<Rightarrow> bool" where
  "othersKept owner h h' \<longleftrightarrow> (\<forall>p. fst p \<noteq> owner \<longrightarrow> live h' p = live h p \<and> (p \<in> gone h' \<longleftrightarrow> p \<in> gone h))
     \<and> (\<forall>o'. o' \<noteq> owner \<longrightarrow> nextSeq h' o' = nextSeq h o')"

lemma ownerStep_others: "ownerStep owner h h' \<Longrightarrow> othersKept owner h h'"
proof (induction rule: ownerStep.induct)
  case (hist_archive ms h)
  then have "live (archiveAll owner ms h) p = live h p" if "fst p \<noteq> owner" for p
    using that by (cases p) (simp add: archiveAll_live freshMsgs_def)
  then show ?case by (simp add: othersKept_def archiveAll_rest)
qed (auto simp: othersKept_def tick_def)

text \<open>Deletion wins: a deleted key stays deleted and holds no message, until its owner is cleared.\<close>

lemma ownerStep_gone:
  assumes "ownerStep owner h h'" "p \<in> gone h" "live h p = None"
  shows "(p \<in> gone h' \<and> live h' p = None) \<or> (\<forall>k. live h' (fst p, k) = None \<and> (fst p, k) \<notin> gone h')"
  using assms
proof (induction rule: ownerStep.induct)
  case (hist_archive ms h)
  have "map_of ms k = None" if "p = (owner, k)" for k
    using hist_archive that by (auto simp: freshMsgs_def map_of_eq_None_iff)
  then show ?case using hist_archive
    by (cases p) (auto simp: archiveAll_live archiveAll_rest freshMsgs_def split: option.splits)
qed (auto simp: tick_def)

lemma histStep_gone:
  assumes "histStep h h'" "p \<in> gone h" "live h p = None"
  shows "(p \<in> gone h' \<and> live h' p = None) \<or> (\<forall>k. live h' (fst p, k) = None \<and> (fst p, k) \<notin> gone h')"
proof -
  obtain owner where "ownerStep owner h h'" using assms(1) by (auto simp: histStep_def)
  from ownerStep_gone [OF this assms(2,3)] show ?thesis .
qed

subsection \<open>The contract of an adapter\<close>

definition emptyHistory :: history where
  "emptyHistory = \<lparr>live = (\<lambda>_. None), gone = {}, nextSeq = (\<lambda>_. 1)\<rparr>"

locale history_repository =
  fixes step :: "'s \<Rightarrow> 's \<Rightarrow> bool" and good :: "'s \<Rightarrow> bool" and abs :: "'s \<Rightarrow> history" and start :: 's
  assumes start: "good start" "abs start = emptyHistory"
    and preserve: "step s s' \<Longrightarrow> good s \<Longrightarrow> good s'"
    and refine: "step s s' \<Longrightarrow> good s \<Longrightarrow> histStep (abs s) (abs s')"
    and exclusive: "good s \<Longrightarrow> p \<in> gone (abs s) \<Longrightarrow> live (abs s) p = None"
begin

lemma reachable_good: "step\<^sup>*\<^sup>* start s \<Longrightarrow> good s"
  by (induction rule: rtranclp_induct) (auto intro: start preserve)

lemma run_refines: "step\<^sup>*\<^sup>* start s \<Longrightarrow> histStep\<^sup>*\<^sup>* emptyHistory (abs s)"
proof (induction rule: rtranclp_induct)
  case (step s s')
  have "good s" using step.hyps(1) by (rule reachable_good)
  then show ?case using step.IH refine [OF step.hyps(2)] by auto
qed (simp add: start)

lemma step_later: "step s s' \<Longrightarrow> good s \<Longrightarrow> laterHistory (abs s) (abs s')"
  by (rule histStep_later) (rule refine)

lemma step_sequence: "step s s' \<Longrightarrow> good s \<Longrightarrow> nextSeq (abs s) owner \<le> nextSeq (abs s') owner"
  using step_later unfolding laterHistory_def by blast

lemma sequences_grow: "step\<^sup>*\<^sup>* s s' \<Longrightarrow> good s \<Longrightarrow> nextSeq (abs s) owner \<le> nextSeq (abs s') owner \<and> good s'"
proof (induction rule: rtranclp_induct)
  case (step y z)
  then show ?case using step_sequence [OF step.hyps(2)] preserve [OF step.hyps(2)] order_trans by blast
qed simp

lemma gone_stays:
  "step s s' \<Longrightarrow> good s \<Longrightarrow> p \<in> gone (abs s) \<Longrightarrow>
     (p \<in> gone (abs s') \<and> live (abs s') p = None)
     \<or> (\<forall>k. live (abs s') (fst p, k) = None \<and> (fst p, k) \<notin> gone (abs s'))"
  by (rule histStep_gone) (auto intro: refine exclusive)

end

end
