(* ===== verification/Snapshots.thy ===== *)
theory Snapshots
  imports Contract
begin

section \<open>Snapshot policy\<close>

text \<open>
  \<open>src/snapshots.mjs\<close>: the filter of a snapshot and its canonical identity, the binding check of
  every snapshot read, and the work bounds of a purge. \<open>toISOString\<close> is written out; \<open>Date.parse\<close>
  is a parameter where it is used.
\<close>

subsection \<open>Timestamps\<close>

text \<open>Days since 1970-01-01 to a proleptic Gregorian date, as \<open>Date.prototype.toISOString\<close>.\<close>

definition civilOfDays :: "int \<Rightarrow> int \<times> int \<times> int" where
  "civilOfDays z0 =
     (let z = z0 + 719468; era = z div 146097; doe = z mod 146097;
          yoe = (doe - doe div 1460 + doe div 36524 - doe div 146096) div 365;
          doy = doe - (365 * yoe + yoe div 4 - yoe div 100);
          mp = (5 * doy + 2) div 153; d = doy - (153 * mp + 2) div 5 + 1;
          m = (if mp < 10 then mp + 3 else mp - 9)
      in (yoe + era * 400 + (if m \<le> 2 then 1 else 0), m, d))"

definition padNum :: "nat \<Rightarrow> nat \<Rightarrow> jsstr" where
  "padNum w n = (let s = decOfNat n in replicate (w - length s) 0x30 @ s)"

definition isoYear :: "int \<Rightarrow> jsstr" where
  "isoYear y = (if 0 \<le> y \<and> y \<le> 9999 then padNum 4 (nat y)
                else (if y < 0 then 0x2D else 0x2B) # padNum 6 (nat \<bar>y\<bar>))"

definition toISOString :: "int \<Rightarrow> jsstr result" where
  "toISOString ms =
     (if \<bar>ms\<bar> \<le> 8640000000000000
      then let (y, m, d) = civilOfDays (ms div 86400000); t = nat (ms mod 86400000)
           in Inr (isoYear y @ js ''-'' @ padNum 2 (nat m) @ js ''-'' @ padNum 2 (nat d) @ js ''T''
                   @ padNum 2 (t div 3600000) @ js '':'' @ padNum 2 (t div 60000 mod 60) @ js '':''
                   @ padNum 2 (t div 1000 mod 60) @ js ''.'' @ padNum 3 (t mod 1000) @ js ''Z'')
      else Inl (range_error ''Invalid time value''))"

subsection \<open>Filters\<close>

record snap_filter =
  fDirection :: "jsstr option"
  fMessageBox :: "jsstr option"
  fParticipant :: "jsstr option"

definition invalidFilter :: "string \<Rightarrow> jserr" where
  "invalidFilter m = JsErr TypeError (Some ERR_INVALID_RECORD) m"

definition optField :: "(jsstr \<times> jsval) list \<Rightarrow> string \<Rightarrow> (jsval \<Rightarrow> jsstr result) \<Rightarrow> string \<Rightarrow> jsstr option result" where
  "optField ps k validate m =
     (if getProp ps (js k) = Undefined then Inr None
      else case validate (getProp ps (js k)) of
        Inr s \<Rightarrow> Inr (Some s) | Inl _ \<Rightarrow> Inl (invalidFilter m))"

definition validateSnapshotFilter :: "jsval \<Rightarrow> snap_filter result" where
  "validateSnapshotFilter v = (case (if v = Undefined then Obj [] else v) of
       Obj ps \<Rightarrow>
         (case filter (\<lambda>k. k \<notin> {js ''direction'', js ''messageBox'', js ''participant''}) (map fst ps) of
            k # _ \<Rightarrow> Inl (invalidFilter (''unknown filter key: '' @ unjs k))
          | [] \<Rightarrow>
              andThen (optField ps ''direction'' validateDirection ''filter.direction must be inbound or outbound'') (\<lambda>d.
              andThen (optField ps ''messageBox'' validateMessageBox ''filter.messageBox must be 1..128 non-blank chars'') (\<lambda>b.
              andThen (optField ps ''participant'' (requireIdentity ''participant'')
                         ''filter.participant must be a compressed lowercase identity key'') (\<lambda>p.
              Inr \<lparr>fDirection = d, fMessageBox = b, fParticipant = p\<rparr>))))
     | _ \<Rightarrow> Inl (invalidFilter ''filter must be an object''))"

definition filterMembers :: "snap_filter \<Rightarrow> (jsstr \<times> json) list" where
  "filterMembers f =
     (case fDirection f of Some d \<Rightarrow> [(js ''direction'', JStr d)] | None \<Rightarrow> [])
     @ (case fMessageBox f of Some b \<Rightarrow> [(js ''messageBox'', JStr b)] | None \<Rightarrow> [])
     @ (case fParticipant f of Some p \<Rightarrow> [(js ''participant'', JStr p)] | None \<Rightarrow> [])"

definition snapshotFilterHash :: "snap_filter \<Rightarrow> jsstr" where
  "snapshotFilterHash f =
     (if filterMembers f = [] then [] else sha256Hex (utf8Bytes (stringify (JObj (filterMembers f)))))"

record row =
  rOwner :: jsstr
  rKey :: jsstr
  rMessageId :: jsstr
  rMessageBox :: jsstr
  rDirection :: jsstr
  rSender :: jsstr
  rRecipient :: jsstr
  rBody :: jsstr
  rBodyHash :: jsstr
  rBodyBytes :: nat
  rDelivery :: jsstr
  rRevision :: jsstr
  rChangeSequence :: jsstr
  rCreatedAt :: jsstr
  rArchivedAt :: jsstr
  rExpiresAt :: "jsstr option"

definition matchesSnapshotFilter :: "row \<Rightarrow> snap_filter \<Rightarrow> bool" where
  "matchesSnapshotFilter r f \<longleftrightarrow>
     \<not> (fDirection f \<noteq> None \<and> Some (rDirection r) \<noteq> fDirection f)
     \<and> \<not> (fMessageBox f \<noteq> None \<and> Some (rMessageBox r) \<noteq> fMessageBox f)
     \<and> \<not> (fParticipant f \<noteq> None \<and> Some (rSender r) \<noteq> fParticipant f \<and> Some (rRecipient r) \<noteq> fParticipant f)"

subsection \<open>Snapshots and their binding\<close>

datatype snap_status = Active | Invalidated

record snap_meta =
  mId :: jsstr
  mOwner :: jsstr
  mEpoch :: jsstr
  mFilterHash :: jsstr
  mFilter :: snap_filter
  mWatermark :: jsstr
  mStatus :: snap_status
  mCreatedAt :: jsstr
  mExpiresAt :: jsstr

definition SNAPSHOT_TTL_SECONDS :: int where "SNAPSHOT_TTL_SECONDS = 3600"
definition MAX_SNAPSHOTS_PER_OWNER :: nat where "MAX_SNAPSHOTS_PER_OWNER = 32"
definition MAX_SNAPSHOT_ITEMS_PER_OWNER :: nat where "MAX_SNAPSHOT_ITEMS_PER_OWNER = 40000"
definition SNAPSHOT_PURGE_BATCH :: int where "SNAPSHOT_PURGE_BATCH = 500"
definition SNAPSHOT_PURGE_MAX_ITEMS_PER_CALL :: int where "SNAPSHOT_PURGE_MAX_ITEMS_PER_CALL = 5000"
definition SNAPSHOT_PURGE_MAX_SNAPSHOTS_PER_CALL :: int where "SNAPSHOT_PURGE_MAX_SNAPSHOTS_PER_CALL = 100"
definition SNAPSHOT_FEED :: jsstr where "SNAPSHOT_FEED = js ''snapshot''"

record snap_expect =
  xEpoch :: "jsstr option"
  xFeed :: "jsstr option"
  xFilter :: "jsval"
  xWatermark :: "jsstr option"

definition noExpect :: snap_expect where
  "noExpect = \<lparr>xEpoch = None, xFeed = None, xFilter = Undefined, xWatermark = None\<rparr>"

definition assertSnapshotBinding :: "snap_meta option \<Rightarrow> jsval \<Rightarrow> snap_expect \<Rightarrow> unit result" where
  "assertSnapshotBinding stored owner x =
     andThen (require (isStr owner \<and> owner \<noteq> Str []) (invalidRecord ''owner is required for snapshot reads'')) (\<lambda>_.
     case stored of
       None \<Rightarrow> Inl (JsErr PlainError (Some ERR_FORBIDDEN) ''snapshot owner mismatch'')
     | Some m \<Rightarrow>
         andThen (require (Str (mOwner m) = owner) (JsErr PlainError (Some ERR_FORBIDDEN) ''snapshot owner mismatch'')) (\<lambda>_.
         andThen (require (xEpoch x = None \<or> xEpoch x = Some (mEpoch m))
                    (JsErr RangeError (Some ERR_EPOCH_CHANGED)
                       ''snapshot epoch mismatch; reconcile against the current snapshot'')) (\<lambda>_.
         andThen (require (xFeed x = None \<or> xFeed x = Some SNAPSHOT_FEED)
                    (invalidCursor ''snapshot feed mismatch'')) (\<lambda>_.
         andThen (if xFilter x = Undefined then Inr ()
                  else andThen (validateSnapshotFilter (xFilter x)) (\<lambda>f.
                       require (mFilterHash m = snapshotFilterHash f)
                         (invalidCursor ''snapshot filter mismatch''))) (\<lambda>_.
         require (xWatermark x = None \<or> xWatermark x = Some (mWatermark m))
           (invalidCursor ''snapshot watermark mismatch''))))))"

text \<open>\<open>Math.max(1, Math.min(Number(x) || default, 5000))\<close> for integers; \<open>None\<close> is an absent
  argument.\<close>

definition clampPurge :: "int option \<Rightarrow> int \<Rightarrow> nat" where
  "clampPurge x d = nat (max 1 (min (case x of None \<Rightarrow> d | Some n \<Rightarrow> if n = 0 then d else n) 5000))"

definition boundPurgeParams :: "int option \<Rightarrow> int option \<Rightarrow> int option \<Rightarrow> nat \<times> nat \<times> nat" where
  "boundPurgeParams batchSize maxItems maxSnapshots =
     (clampPurge batchSize SNAPSHOT_PURGE_BATCH, clampPurge maxItems SNAPSHOT_PURGE_MAX_ITEMS_PER_CALL,
      clampPurge maxSnapshots SNAPSHOT_PURGE_MAX_SNAPSHOTS_PER_CALL)"

definition snapshotExpiryIso :: "int \<Rightarrow> jsstr result" where
  "snapshotExpiryIso nowMs = toISOString (nowMs + SNAPSHOT_TTL_SECONDS * 1000)"

lemma clampPurge_bounds: "1 \<le> clampPurge x d \<and> clampPurge x d \<le> 5000"
  by (auto simp: clampPurge_def)

text \<open>A read is bound to the owner: nobody else's snapshot is ever returned.\<close>

lemma assertSnapshotBinding_Inr:
  "assertSnapshotBinding stored owner x = Inr () \<longleftrightarrow>
     (\<exists>m. stored = Some m \<and> owner = Str (mOwner m) \<and> mOwner m \<noteq> []
        \<and> (xEpoch x = None \<or> xEpoch x = Some (mEpoch m)) \<and> (xFeed x = None \<or> xFeed x = Some SNAPSHOT_FEED)
        \<and> (xFilter x = Undefined \<or> (\<exists>f. validateSnapshotFilter (xFilter x) = Inr f
              \<and> mFilterHash m = snapshotFilterHash f))
        \<and> (xWatermark x = None \<or> xWatermark x = Some (mWatermark m)))"
  by (auto simp: assertSnapshotBinding_def result_simps split: option.splits if_splits)

end
