(* ===== verification/Feeds.thy ===== *)
theory Feeds
  imports Snapshots
begin

section \<open>Feeds\<close>

text \<open>
  \<open>src/feeds.mjs\<close>: the policy of the change and snapshot feeds. Which window a changes read
  covers, when a purged gap expires it, how many records fit a page in bytes of JSON, and the
  cursor and checkpoint of the page. A page item is anything with a JSON form.
\<close>

definition feedError :: "code \<Rightarrow> string \<Rightarrow> jserr" where
  "feedError c m = JsErr PlainError (Some c) m"

definition FEED_START :: jsstr where "FEED_START = js ''0''"
definition PAGE_OVERHEAD_BYTES :: nat where "PAGE_OVERHEAD_BYTES = 512"

definition validateFeedOwner :: "jsval \<Rightarrow> jsstr result" where
  "validateFeedOwner owner = (case owner of
       Str s \<Rightarrow> if s = [] then Inl (feedError ERR_INVALID_RECORD ''owner is required for feed reads'') else Inr s
     | _ \<Rightarrow> Inl (feedError ERR_INVALID_RECORD ''owner is required for feed reads''))"

definition validateServerSecret :: "jsval \<Rightarrow> jsstr result" where
  "validateServerSecret secret = (case secret of
       Str s \<Rightarrow> if length s < 16 then Inl (feedError ERR_INVALID_RECORD ''serverSecret must be at least 16 chars'') else Inr s
     | _ \<Rightarrow> Inl (feedError ERR_INVALID_RECORD ''serverSecret must be at least 16 chars''))"

text \<open>\<open>Math.trunc\<close>, and the page limit of \<open>Number(limit)\<close>.\<close>

definition truncRat :: "rat \<Rightarrow> int" where
  "truncRat q = (if 0 \<le> q then \<lfloor>q\<rfloor> else - \<lfloor>- q\<rfloor>)"

definition boundFeedLimit :: "jsnum \<Rightarrow> nat" where
  "boundFeedLimit n = (case n of
       Fin q \<Rightarrow> nat (max 1 (min (if truncRat q = 0 then 100 else truncRat q) (int MAX_PAGE_RECORDS)))
     | _ \<Rightarrow> 100)"

definition retentionCutoffIso :: "(jsstr \<Rightarrow> int option) \<Rightarrow> jsstr \<Rightarrow> jsstr result" where
  "retentionCutoffIso dateParse nowIso = (case dateParse nowIso of
       None \<Rightarrow> Inl (feedError ERR_INVALID_RECORD ''nowIso must be an ISO timestamp'')
     | Some ms \<Rightarrow> toISOString (ms - 30 * 24 * 60 * 60 * 1000))"

subsection \<open>Positions\<close>

definition encodeSnapshotPosition :: "(jsstr \<Rightarrow> int option) \<Rightarrow> jsstr \<Rightarrow> jsstr \<Rightarrow> jsstr result" where
  "encodeSnapshotPosition dateParse createdAt key =
     (if dateParse createdAt = None
      then Inl (feedError ERR_INVALID_CURSOR ''snapshot position timestamp malformed'')
      else if \<not> hex64Re key then Inl (feedError ERR_INVALID_CURSOR ''snapshot position recordKey malformed'')
      else let pos = createdAt @ js ''|'' @ key
           in if 128 < length pos then Inl (feedError ERR_INVALID_CURSOR ''snapshot position too long'')
              else Inr pos)"

text \<open>\<open>lastIndexOf('|')\<close>: the text before the last bar and the text after it.\<close>

definition splitLast :: "code_unit \<Rightarrow> jsstr \<Rightarrow> (jsstr \<times> jsstr) option" where
  "splitLast c s =
     (if c \<in> set s
      then Some (rev (tl (dropWhile (\<lambda>u. u \<noteq> c) (rev s))), rev (takeWhile (\<lambda>u. u \<noteq> c) (rev s)))
      else None)"

definition decodeSnapshotPosition ::
  "(jsstr \<Rightarrow> int option) \<Rightarrow> jsstr \<Rightarrow> (jsstr \<times> jsstr) option result" where
  "decodeSnapshotPosition dateParse pos =
     (if pos = FEED_START then Inr None
      else if pos = [] \<or> 128 < length pos then Inl (feedError ERR_INVALID_CURSOR ''snapshot position malformed'')
      else case splitLast 0x7C pos of
        None \<Rightarrow> Inl (feedError ERR_INVALID_CURSOR ''snapshot position malformed'')
      | Some (createdAt, key) \<Rightarrow>
          if createdAt = [] \<or> dateParse createdAt = None \<or> \<not> hex64Re key
          then Inl (feedError ERR_INVALID_CURSOR ''snapshot position malformed'')
          else Inr (Some (createdAt, key)))"

definition validateChangesPosition :: "jsval \<Rightarrow> jsstr result" where
  "validateChangesPosition p = (case validateChangeSequence p ''position'' of
       Inl _ \<Rightarrow> Inl (feedError ERR_INVALID_CURSOR ''changes position malformed'')
     | Inr s \<Rightarrow> Inr s)"

subsection \<open>Cursors of the two feeds\<close>

record feed_context =
  cSecret :: jsstr
  cOwner :: jsstr
  cEpoch :: jsstr
  cFilterDigest :: jsstr
  cWatermark :: jsstr
  cTtl :: "int option"
  cNow :: int

definition newFeedCursor :: "string \<Rightarrow> feed_context \<Rightarrow> jsstr \<Rightarrow> jsstr result" where
  "newFeedCursor fd c p =
     createCursor \<lparr>serverSecret = Str (cSecret c), ownerIdentityKey = Str (cOwner c), epoch = Str (cEpoch c),
       feed = Str (js fd), filterDigest = Str (cFilterDigest c), watermark = Str (cWatermark c),
       position = Str p, ttlSeconds = (case cTtl c of None \<Rightarrow> CURSOR_TTL_SECONDS | Some t \<Rightarrow> t),
       nowSeconds = cNow c\<rparr>"

definition newChangesCursor :: "feed_context \<Rightarrow> jsstr \<Rightarrow> jsstr result" where
  "newChangesCursor = newFeedCursor ''changes''"

definition newSnapshotCursor :: "feed_context \<Rightarrow> jsstr \<Rightarrow> jsstr result" where
  "newSnapshotCursor = newFeedCursor ''snapshot''"

text \<open>An error without a code becomes \<open>ERR_INVALID_CURSOR\<close>.\<close>

definition recodeCursor :: "'a result \<Rightarrow> 'a result" where
  "recodeCursor r = (case r of
       Inr x \<Rightarrow> Inr x
     | Inl e \<Rightarrow> if err_code e \<noteq> None then Inl e
                else Inl (feedError ERR_INVALID_CURSOR ''cursor is not valid for this owner''))"

definition verifyFeedCursor :: "string \<Rightarrow> jsstr \<Rightarrow> jsstr \<Rightarrow> jsstr \<Rightarrow> jsstr \<Rightarrow> int \<Rightarrow> jsval \<Rightarrow> jsval result" where
  "verifyFeedCursor fd secret owner ep digest nw token =
     recodeCursor (verifyCursor token \<lparr>vSecret = Str secret, vOwner = Str owner, expectedEpoch = Str ep,
       expectedFeed = Str (js fd), expectedFilterDigest = Str digest, vNow = nw\<rparr>)"

definition verifyChangesCursor where "verifyChangesCursor = verifyFeedCursor ''changes''"
definition verifySnapshotCursor where "verifySnapshotCursor = verifyFeedCursor ''snapshot''"

text \<open>\<open>String(v)\<close> for the claims of a verified payload.\<close>

definition strOf :: "jsval \<Rightarrow> jsstr" where
  "strOf v = (case v of Str s \<Rightarrow> s | Undefined \<Rightarrow> js ''undefined'' | Null \<Rightarrow> js ''null''
     | Boolean b \<Rightarrow> (if b then js ''true'' else js ''false'') | Number (Fin q) \<Rightarrow> intString \<lfloor>q\<rfloor> | _ \<Rightarrow> [])"

subsection \<open>The window of a changes read\<close>

record changes_window =
  wW :: jsstr
  wC :: jsstr
  wEpoch :: jsstr
  wExplicit :: bool

definition prepareChangesRead ::
  "jsval \<Rightarrow> jsval \<Rightarrow> jsval \<Rightarrow> jsstr \<Rightarrow> jsstr \<Rightarrow> jsstr \<Rightarrow> jsstr \<Rightarrow> jsstr \<Rightarrow> int \<Rightarrow> bool \<Rightarrow> changes_window result" where
  "prepareChangesRead cursor afterSequence expEpoch currentEpoch wmark secret owner digest nw validateW =
     andThen (require ((afterSequence = Undefined) = (expEpoch = Undefined))
                (feedError ERR_INVALID_CURSOR ''afterSequence and expectedEpoch must be supplied together'')) (\<lambda>_.
     let explicit = (afterSequence \<noteq> Undefined); given = (cursor \<noteq> Null \<and> cursor \<noteq> Undefined) in
     andThen (require (\<not> (explicit \<and> given))
                (feedError ERR_INVALID_CURSOR ''cursor and checkpoint mode are mutually exclusive'')) (\<lambda>_.
     andThen
       (if explicit then
          andThen (validateChangesPosition afterSequence) (\<lambda>c.
          andThen (require (expEpoch = Str currentEpoch)
                     (feedError ERR_EPOCH_CHANGED ''epoch changed; take a full snapshot'')) (\<lambda>_.
          andThen (require (natOfDec c \<le> natOfDec wmark)
                     (feedError ERR_INVALID_CURSOR ''checkpoint is beyond the current watermark'')) (\<lambda>_.
          Inr \<lparr>wW = wmark, wC = c, wEpoch = currentEpoch, wExplicit = True\<rparr>)))
        else if given then
          andThen (verifyChangesCursor secret owner currentEpoch digest nw cursor) (\<lambda>payload.
          andThen (validateChangesPosition (Str (strOf (field payload ''p'')))) (\<lambda>c.
          Inr \<lparr>wW = strOf (field payload ''w''), wC = c, wEpoch = strOf (field payload ''epoch''), wExplicit = False\<rparr>))
        else Inr \<lparr>wW = wmark, wC = FEED_START, wEpoch = currentEpoch, wExplicit = False\<rparr>) (\<lambda>w.
     andThen (require (\<not> validateW \<or> explicit \<or> is_ok (validateChangeSequence (Str (wW w)) ''watermark''))
                (feedError ERR_INVALID_CURSOR ''watermark malformed'')) (\<lambda>_.
     Inr w))))"

subsection \<open>Retention gaps\<close>

definition outsideRetained :: jserr where
  "outsideRetained = feedError ERR_CURSOR_EXPIRED ''cursor outside retained history; take a full snapshot''"

definition assertNoRetentionGap :: "jsstr \<Rightarrow> jsstr option \<Rightarrow> unit result" where
  "assertNoRetentionGap pos earliest = (case earliest of
       None \<Rightarrow> Inr ()
     | Some e \<Rightarrow>
         andThen (compareUint64Decimal (Str (decOfNat (natOfDec pos + 1))) (Str e)) (\<lambda>c.
         if c < 0 then Inl outsideRetained else Inr ()))"

definition assertRetainedChanges :: "jsstr \<Rightarrow> jsstr \<Rightarrow> jsstr option \<Rightarrow> bool \<Rightarrow> unit result" where
  "assertRetainedChanges pos wmark earliest explicit =
     (if pos = FEED_START \<and> \<not> explicit then Inr ()
      else andThen (assertNoRetentionGap pos earliest) (\<lambda>_.
           require (\<not> (earliest = None \<and> pos \<noteq> wmark)) outsideRetained))"

fun contiguousFrom :: "nat \<Rightarrow> jsstr list \<Rightarrow> bool" where
  "contiguousFrom n [] = True"
| "contiguousFrom n (s # ss) = (natOfDec s = n \<and> contiguousFrom (Suc n) ss)"

definition assertNoInternalRetentionGap :: "jsstr \<Rightarrow> jsstr \<Rightarrow> jsstr list \<Rightarrow> nat \<Rightarrow> bool \<Rightarrow> unit result" where
  "assertNoInternalRetentionGap pos wmark sequences bounded explicit =
     (if pos = FEED_START \<and> \<not> explicit then Inr ()
      else let w = natOfDec wmark; c = natOfDec pos in
        if c = w then require (sequences = []) outsideRetained
        else andThen (require (sequences \<noteq> []) outsideRetained) (\<lambda>_.
             andThen (require (contiguousFrom (c + 1) sequences) outsideRetained) (\<lambda>_.
             require (\<not> (length sequences < bounded \<and> natOfDec (last sequences) \<noteq> w)) outsideRetained)))"

subsection \<open>Fitting a page\<close>

fun fitLoop :: "('a \<Rightarrow> json) \<Rightarrow> nat \<Rightarrow> nat \<Rightarrow> nat \<Rightarrow> nat \<Rightarrow> 'a list \<Rightarrow> 'a list \<Rightarrow> ('a list \<times> nat) result" where
  "fitLoop toJson count overhead maxBytes acc admitted [] = Inr (admitted, acc)"
| "fitLoop toJson count overhead maxBytes acc admitted (r # rs) =
     (let bytes = estimateJsonBytes (toJson r); comma = (if admitted = [] then 0 else 1)
      in if maxBytes < bytes + overhead + 2
         then Inl (feedError ERR_REQUEST_TOO_LARGE ''single record exceeds page budget'')
         else if count \<le> length admitted \<or> maxBytes < acc + bytes + comma then Inr (admitted, acc)
         else fitLoop toJson count overhead maxBytes (acc + bytes + comma) (admitted @ [r]) rs)"

definition fitRecordsToPage :: "('a \<Rightarrow> json) \<Rightarrow> 'a list \<Rightarrow> nat \<Rightarrow> nat \<Rightarrow> nat \<Rightarrow> nat \<Rightarrow> ('a list \<times> nat) result" where
  "fitRecordsToPage toJson records limit overhead maxBytes maxRecords =
     (let count = max 1 (min (if limit = 0 then 100 else limit) maxRecords) in
      andThen (fitLoop toJson count overhead maxBytes (overhead + 2) [] records) (\<lambda>(admitted, acc).
      case checkPageFits (map toJson admitted) overhead maxBytes maxRecords of
        Fits _ \<Rightarrow> Inr (admitted, acc)
      | TooLarge reason \<Rightarrow> Inl (feedError ERR_REQUEST_TOO_LARGE reason)))"

record 'a page =
  pgRecords :: "'a list"
  pgNextCursor :: "jsstr option"
  pgCheckpoint :: jsstr
  pgHasMore :: bool
  pgWatermark :: jsstr
  pgEpoch :: jsstr
  pgServerTime :: jsstr

definition pageMembers :: "json \<Rightarrow> 'a page \<Rightarrow> json" where
  "pageMembers recs p =
     JObj [(js ''records'', recs),
           (js ''nextCursor'', case pgNextCursor p of None \<Rightarrow> JNull | Some c \<Rightarrow> JStr c),
           (js ''checkpoint'', JStr (pgCheckpoint p)), (js ''hasMore'', JBool (pgHasMore p)),
           (js ''watermark'', JStr (pgWatermark p)), (js ''epoch'', JStr (pgEpoch p)),
           (js ''serverTime'', JStr (pgServerTime p))]"

definition historyPageOverheadBytes :: "'a page \<Rightarrow> nat" where
  "historyPageOverheadBytes p =
     (let marker = JStr (js ''__MESSAGE_BOX_RECORDS__'')
      in estimateJsonBytes (pageMembers marker p) - estimateJsonBytes marker)"

definition assembleChangePage ::
  "('a \<Rightarrow> json) \<Rightarrow> 'a list \<Rightarrow> jsstr list \<Rightarrow> jsstr \<Rightarrow> jsstr option \<Rightarrow> nat \<Rightarrow> feed_context \<Rightarrow> jsstr \<Rightarrow> 'a page result" where
  "assembleChangePage toJson candidates seqs previous lastScanned limit c serverTime =
     andThen (require (length candidates = length seqs)
                (feedError ERR_INVALID_RECORD ''candidate sequence alignment mismatch'')) (\<lambda>_.
     let W = cWatermark c;
         page = (\<lambda>rs nc ck hm. \<lparr>pgRecords = rs, pgNextCursor = nc, pgCheckpoint = ck, pgHasMore = hm,
                   pgWatermark = W, pgEpoch = cEpoch c, pgServerTime = serverTime\<rparr>) in
     andThen (newChangesCursor c W) (\<lambda>budgetCursor.
     andThen (fitRecordsToPage toJson candidates limit
                (historyPageOverheadBytes (page [] (Some budgetCursor) W True)) MAX_PAGE_BYTES MAX_PAGE_RECORDS)
       (\<lambda>(admitted, _).
     if length admitted < length candidates then
       let checkpoint = (if admitted = [] then previous else seqs ! (length admitted - 1)) in
       andThen (newChangesCursor c checkpoint) (\<lambda>nc. Inr (page admitted (Some nc) checkpoint True))
     else case lastScanned of
       None \<Rightarrow> Inr (page admitted None W False)
     | Some l \<Rightarrow>
         if natOfDec l < natOfDec W
         then andThen (newChangesCursor c l) (\<lambda>nc. Inr (page admitted (Some nc) l True))
         else Inr (page admitted None W False))))"

definition assembleSnapshotPage ::
  "(jsstr \<Rightarrow> int option) \<Rightarrow> (row \<Rightarrow> json) \<Rightarrow> row list \<Rightarrow> nat \<Rightarrow> feed_context \<Rightarrow> jsstr \<Rightarrow> row page result" where
  "assembleSnapshotPage dateParse toJson records limit c serverTime =
     (let W = cWatermark c;
          cursorAt = (\<lambda>r. andThen (encodeSnapshotPosition dateParse (rCreatedAt r) (rKey r)) (newSnapshotCursor c));
          page = (\<lambda>rs nc hm. \<lparr>pgRecords = rs, pgNextCursor = nc, pgCheckpoint = W, pgHasMore = hm,
                    pgWatermark = W, pgEpoch = cEpoch c, pgServerTime = serverTime\<rparr>) in
      andThen (if records = [] then Inr None else andThen (cursorAt (last records)) (\<lambda>t. Inr (Some t))) (\<lambda>budget.
      andThen (fitRecordsToPage toJson records limit (historyPageOverheadBytes (page [] budget (budget \<noteq> None)))
                 MAX_PAGE_BYTES MAX_PAGE_RECORDS) (\<lambda>(admitted, _).
      if length admitted < length records
      then andThen (cursorAt (last admitted)) (\<lambda>nc. Inr (page admitted (Some nc) True))
      else Inr (page admitted None False))))"

subsection \<open>Browse pages\<close>

definition browseOverhead :: "jsstr \<Rightarrow> jsstr \<Rightarrow> nat" where
  "browseOverhead createdAt key =
     estimateJsonBytes (JObj [(js ''records'', JArr []),
       (js ''nextAfter'', JObj [(js ''createdAt'', JStr createdAt), (js ''recordKey'', JStr key)])])"

record browse_builder =
  bItems :: "row list"
  bBytes :: nat

definition browseAdd :: "(row \<Rightarrow> json) \<Rightarrow> nat \<Rightarrow> nat \<Rightarrow> row \<Rightarrow> browse_builder \<Rightarrow> (bool \<times> browse_builder) result" where
  "browseAdd toJson limit maxBytes r b =
     (if limit \<le> length (bItems b) then Inr (False, b)
      else let bytes = estimateJsonBytes (toJson r);
               acc = browseOverhead (rCreatedAt r) (rKey r) + bBytes b + bytes + length (bItems b)
           in if maxBytes < acc
              then (if bItems b = []
                    then Inl (feedError ERR_REQUEST_TOO_LARGE ''single record exceeds browse page budget'')
                    else Inr (False, b))
              else Inr (True, \<lparr>bItems = bItems b @ [r], bBytes = bBytes b + bytes\<rparr>))"

definition browseFinish :: "bool \<Rightarrow> browse_builder \<Rightarrow> row list \<times> (jsstr \<times> jsstr) option" where
  "browseFinish hasMore b =
     (bItems b, if hasMore \<and> bItems b \<noteq> []
                then Some (rCreatedAt (last (bItems b)), rKey (last (bItems b))) else None)"

end
