(* ===== verification/MemoryStore.thy ===== *)
theory MemoryStore
  imports Feeds
begin

section \<open>The memory repository: writes\<close>

text \<open>
  \<open>createMemoryCore\<close> of \<open>src/repository.mjs\<close>, the reference adapter. Its maps are association
  lists in insertion order; a composite key is the owner, a NUL unit and the record or
  idempotency key. An operation takes the store and returns its result or error together with
  the store it leaves: an error thrown half way keeps the mutations made before it. Each call
  reads its environment (clock, random ids, \<open>Date.parse\<close>) from an argument. Owner, record key and
  state arguments are strings, as the service layer passes them.
\<close>

subsection \<open>State\<close>

record owner_state =
  sEpoch :: jsstr
  sNext :: jsstr
  sCount :: int
  sBytes :: int

datatype change_kind = Upsert | StateChange | Delete

record change =
  cSeq :: jsstr
  cKey :: jsstr
  cKind :: change_kind
  cVersion :: jsstr
  cState :: "jsstr option"
  cDeletedAt :: "jsstr option"
  cCreatedAt :: "jsstr option"

record tombstone =
  tSeq :: jsstr
  tDeletedAt :: jsstr

record snap_item =
  siKey :: jsstr
  siRevision :: jsstr
  siDelivery :: jsstr
  siChangeSequence :: jsstr
  siCreatedAt :: jsstr

datatype op_result =
    PatchResult (prKey: jsstr) (prRevision: jsstr) (prSequence: jsstr) (prDeduped: bool)
  | DeleteResult (drDeleted: bool) (drSequence: "jsstr option") (drEpoch: jsstr)
  | DeleteAllResult (daEpoch: jsstr)

record idem_entry =
  iOperation :: string
  iParams :: jsstr
  iResult :: op_result
  iCreatedAt :: jsstr

datatype store_op = ArchiveBatch | PatchState | DeleteRecord | DeleteAll | SnapshotCleanup

record audit_entry =
  aKind :: string
  aKey :: jsstr
  aDetail :: string
  aAt :: jsstr

record store =
  owners :: "(jsstr \<times> owner_state) list"
  records :: "(jsstr \<times> row) list"
  tombstones :: "(jsstr \<times> tombstone) list"
  changes :: "(jsstr \<times> change list) list"
  purgePositions :: "(jsstr \<times> jsstr) list"
  audits :: "(jsstr \<times> audit_entry list) list"
  snapshots :: "(jsstr \<times> snap_meta) list"
  snapshotItems :: "(jsstr \<times> snap_item list) list"
  idempotency :: "(jsstr \<times> idem_entry) list"
  commitFailureOnce :: bool
  failOnce :: "store_op list"

definition emptyStore :: store where
  "emptyStore = \<lparr>owners = [], records = [], tombstones = [], changes = [], purgePositions = [], audits = [],
     snapshots = [], snapshotItems = [], idempotency = [], commitFailureOnce = False, failOnce = []\<rparr>"

record env =
  eNow :: jsstr
  eDateParse :: "jsstr \<Rightarrow> int option"
  eUuids :: "jsstr list"
  eSnapshotId :: jsstr

type_synonym 'a op = "store \<Rightarrow> 'a result \<times> store"

definition opReturn :: "'a \<Rightarrow> 'a op" where "opReturn x s = (Inr x, s)"
definition opThrow :: "jserr \<Rightarrow> 'a op" where "opThrow e s = (Inl e, s)"
definition opBind :: "'a op \<Rightarrow> ('a \<Rightarrow> 'b op) \<Rightarrow> 'b op" where
  "opBind m f s = (case m s of (Inl e, s') \<Rightarrow> (Inl e, s') | (Inr x, s') \<Rightarrow> f x s')"
definition opLift :: "'a result \<Rightarrow> 'a op" where "opLift r s = (r, s)"
definition opUpd :: "(store \<Rightarrow> store) \<Rightarrow> unit op" where "opUpd f s = (Inr (), f s)"

lemma op_simps [simp]:
  "opBind (opReturn x) f = f x" "opBind (opThrow e) f = opThrow e" "opReturn x s = (Inr x, s)"
  "opThrow e s = (Inl e, s)" "opUpd g s = (Inr (), g s)" "opLift r s = (r, s)"
  by (auto simp: opBind_def opReturn_def opThrow_def opUpd_def opLift_def fun_eq_iff)

lemma opBind_eq: "opBind m f s = (case m s of (Inl e, s') \<Rightarrow> (Inl e, s') | (Inr x, s') \<Rightarrow> f x s')"
  by (simp add: opBind_def)

definition mkKey :: "jsstr \<Rightarrow> jsstr \<Rightarrow> jsstr" where
  "mkKey owner k = owner @ [0] @ k"

definition ownedKey :: "jsstr \<Rightarrow> jsstr \<Rightarrow> bool" where
  "ownedKey owner k = startsWith k (owner @ [0])"

subsection \<open>Helpers\<close>

definition initialOwner :: owner_state where
  "initialOwner = \<lparr>sEpoch = js ''gen-1'', sNext = js ''1'', sCount = 0, sBytes = 0\<rparr>"

definition ownerOf :: "jsstr \<Rightarrow> store \<Rightarrow> owner_state" where
  "ownerOf owner s = agetOr initialOwner owner (owners s)"

definition ownerState :: "jsstr \<Rightarrow> owner_state op" where
  "ownerState owner s = (case map_of (owners s) owner of
       Some st \<Rightarrow> (Inr st, s)
     | None \<Rightarrow> (Inr initialOwner,
         s\<lparr>owners := aset owner initialOwner (owners s), changes := aset owner [] (changes s),
           audits := aset owner [] (audits s)\<rparr>))"

definition setOwner :: "jsstr \<Rightarrow> owner_state \<Rightarrow> store \<Rightarrow> store" where
  "setOwner owner st s = s\<lparr>owners := aset owner st (owners s)\<rparr>"

definition changesOf :: "jsstr \<Rightarrow> store \<Rightarrow> change list" where
  "changesOf owner s = agetOr [] owner (changes s)"

definition pushChange :: "jsstr \<Rightarrow> change \<Rightarrow> store \<Rightarrow> store" where
  "pushChange owner c s = s\<lparr>changes := aset owner (changesOf owner s @ [c]) (changes s)\<rparr>"

definition audit :: "env \<Rightarrow> jsstr \<Rightarrow> string \<Rightarrow> jsstr \<Rightarrow> string \<Rightarrow> store \<Rightarrow> store" where
  "audit e owner kind k detail s =
     (let l = agetOr [] owner (audits s) @ [\<lparr>aKind = kind, aKey = k, aDetail = detail, aAt = eNow e\<rparr>]
      in s\<lparr>audits := aset owner (drop (length l - 200) l) (audits s)\<rparr>)"

text \<open>\<open>allocSequence\<close>: the sequence, and the owner's state after it.\<close>

definition allocSequence :: "owner_state \<Rightarrow> jsstr \<times> owner_state" where
  "allocSequence st = (sNext st, st\<lparr>sNext := nextSequenceString (sNext st)\<rparr>)"

record idem_ticket =
  kMapKey :: jsstr
  kParams :: jsstr
  kExisting :: "op_result option"

definition dateLe :: "env \<Rightarrow> jsstr \<Rightarrow> int option \<Rightarrow> bool" where
  "dateLe e t c = (case (eDateParse e t, c) of (Some a, Some b) \<Rightarrow> a \<le> b | _ \<Rightarrow> False)"

text \<open>\<open>checkIdempotency\<close> drops the owner's expired entries first, whatever happens after.\<close>

definition checkIdempotency ::
  "env \<Rightarrow> jsstr \<Rightarrow> jsval \<Rightarrow> string \<Rightarrow> (jsstr \<times> jsstr option) list \<Rightarrow> idem_ticket option op" where
  "checkIdempotency e owner key operation params s =
     (if key = Undefined then (Inr None, s)
      else (case validateIdempotencyKey key of
          Inl err \<Rightarrow> (Inl err, s)
        | Inr k \<Rightarrow>
            let cutoff = map_option (\<lambda>t. t - IDEMPOTENCY_TTL_MS) (eDateParse e (eNow e));
                live = filter (\<lambda>(sk, en). \<not> (ownedKey owner sk \<and> dateLe e (iCreatedAt en) cutoff)) (idempotency s);
                count = length (filter (\<lambda>(sk, en). ownedKey owner sk) live);
                s' = s\<lparr>idempotency := live\<rparr>;
                mk = mkKey owner k; ph = canonicalParamsHash params
            in case map_of live mk of
                 None \<Rightarrow> if MAX_IDEMPOTENCY_ROWS_PER_OWNER \<le> count
                          then (Inl (auxiliaryQuotaExceeded ''idempotency''), s')
                          else (Inr (Some \<lparr>kMapKey = mk, kParams = ph, kExisting = None\<rparr>), s')
               | Some en \<Rightarrow> if iOperation en \<noteq> operation \<or> iParams en \<noteq> ph
                             then (Inl idempotencyConflict, s')
                             else (Inr (Some \<lparr>kMapKey = mk, kParams = ph, kExisting = Some (iResult en)\<rparr>), s')))"

definition storeIdempotency :: "env \<Rightarrow> idem_ticket option \<Rightarrow> string \<Rightarrow> op_result \<Rightarrow> store \<Rightarrow> store" where
  "storeIdempotency e t operation r s = (case t of
       None \<Rightarrow> s
     | Some k \<Rightarrow> s\<lparr>idempotency := aset (kMapKey k)
         \<lparr>iOperation = operation, iParams = kParams k, iResult = r, iCreatedAt = eNow e\<rparr> (idempotency s)\<rparr>)"

definition opName :: "store_op \<Rightarrow> string" where
  "opName p = (case p of ArchiveBatch \<Rightarrow> ''archiveBatch'' | PatchState \<Rightarrow> ''patchState''
     | DeleteRecord \<Rightarrow> ''deleteRecord'' | DeleteAll \<Rightarrow> ''deleteAll'' | SnapshotCleanup \<Rightarrow> ''snapshotCleanup'')"

definition consumeFailure :: "store_op \<Rightarrow> unit op" where
  "consumeFailure p s =
     (if p \<in> set (failOnce s)
      then (Inl (JsErr PlainError (Some ERR_UNAVAILABLE) (''injected '' @ opName p @ '' failure'')),
            s\<lparr>failOnce := filter (\<lambda>q. q \<noteq> p) (failOnce s)\<rparr>)
      else (Inr (), s))"

definition injectCommitFailureOnce :: "store \<Rightarrow> store" where
  "injectCommitFailureOnce s = s\<lparr>commitFailureOnce := True\<rparr>"

definition injectFailureOnce :: "string \<Rightarrow> unit op" where
  "injectFailureOnce name s =
     (case filter (\<lambda>p. opName p = name) [ArchiveBatch, PatchState, DeleteRecord, DeleteAll, SnapshotCleanup] of
        [] \<Rightarrow> (Inl (invalidRecord (''unknown operation '' @ name)), s)
      | p # _ \<Rightarrow> (Inr (), s\<lparr>failOnce := p # failOnce s\<rparr>))"

subsection \<open>Archiving a batch\<close>

text \<open>The content of a stored row, as \<open>sameImmutableRecord\<close> reads it.\<close>

definition rowContent :: "row \<Rightarrow> content" where
  "rowContent r = \<lparr>messageId = Str (rMessageId r), messageBox = Str (rMessageBox r),
     direction = Str (rDirection r), sender = Str (rSender r), recipient = Str (rRecipient r),
     contentHash = Str (rBodyHash r), body = Str (rBody r)\<rparr>"

record plan =
  plProj :: projection
  plPending :: "(jsstr \<times> content) list"
  plStore :: store

text \<open>Phase 1 for one item: validation, duplicate, tombstone, quota, in that order.\<close>

definition planItem :: "env \<Rightarrow> store_limits \<Rightarrow> jsstr \<Rightarrow> jsval \<Rightarrow> nat \<Rightarrow> jsval \<Rightarrow> plan \<Rightarrow> outcome \<times> plan" where
  "planItem e L owner ep i r p =
     (case validateArchiveInput (Str owner) ep r (Str (sEpoch (ownerOf owner (plStore p)))) of
        Invalid c _ \<Rightarrow> (archiveInvalidOutcome i r c, p)
      | Valid hash key bytes \<Rightarrow>
          let k = mkKey owner key;
              existing = (case map_of (plPending p) k of
                  Some c \<Rightarrow> Some c
                | None \<Rightarrow> map_option rowContent (map_of (records (plStore p)) k))
          in case existing of
               Some c \<Rightarrow>
                 let out = archiveExistingOutcome i r hash key c
                 in (out, if oKind out = Conflict
                          then p\<lparr>plStore := audit e owner ''immutable-conflict'' key ''same key different content'' (plStore p)\<rparr>
                          else p)
             | None \<Rightarrow>
                 if map_of (tombstones (plStore p)) k \<noteq> None
                 then (plainOutcome i (Str key) DeletedItem (Some ERR_INVALID_RECORD), p)
                 else case archiveAdmissionOutcome i r hash key bytes (plProj p) L of (out, pr) \<Rightarrow>
                   (out, p\<lparr>plProj := pr,
                           plPending := (if oKind out = Stored then aset k (contentOf r hash) (plPending p)
                                         else plPending p)\<rparr>))"

fun planLoop :: "env \<Rightarrow> store_limits \<Rightarrow> jsstr \<Rightarrow> jsval \<Rightarrow> nat \<Rightarrow> jsval list \<Rightarrow> plan \<Rightarrow> outcome list \<times> plan" where
  "planLoop e L owner ep i [] p = ([], p)"
| "planLoop e L owner ep i (r # rs) p =
     (let (out, p1) = planItem e L owner ep i r p; (outs, p2) = planLoop e L owner ep (Suc i) rs p1
      in (out # outs, p2))"

definition initialDelivery :: "jsval \<Rightarrow> jsstr" where
  "initialDelivery src = (case field src ''deliveryState'' of
       Undefined \<Rightarrow> if field src ''direction'' = Str (js ''outbound'') then js ''prepared'' else js ''received''
     | Null \<Rightarrow> if field src ''direction'' = Str (js ''outbound'') then js ''prepared'' else js ''received''
     | v \<Rightarrow> strOf v)"

definition newRow :: "jsstr \<Rightarrow> jsstr \<Rightarrow> outcome \<Rightarrow> jsstr \<Rightarrow> row" where
  "newRow owner now o' seq =
     \<lparr>rOwner = owner, rKey = strOf (oKey o'), rMessageId = strOf (field (oSrc o') ''messageId''),
      rMessageBox = strOf (field (oSrc o') ''messageBox''), rDirection = strOf (field (oSrc o') ''direction''),
      rSender = strOf (field (oSrc o') ''sender''), rRecipient = strOf (field (oSrc o') ''recipient''),
      rBody = strOf (field (oSrc o') ''body''), rBodyHash = (case oHash o' of Some h \<Rightarrow> h | None \<Rightarrow> []),
      rBodyBytes = oBytes o', rDelivery = initialDelivery (oSrc o'), rRevision = js ''1'',
      rChangeSequence = seq, rCreatedAt = now, rArchivedAt = now, rExpiresAt = None\<rparr>"

text \<open>Phase 2 for one admitted item.\<close>

definition commitItem :: "env \<Rightarrow> jsstr \<Rightarrow> outcome \<Rightarrow> store \<Rightarrow> outcome \<times> store" where
  "commitItem e owner o' s =
     (let (seq, st) = allocSequence (ownerOf owner s); r = newRow owner (eNow e) o' seq;
          s1 = s\<lparr>records := aset (mkKey owner (rKey r)) r (records s)\<rparr>;
          s2 = setOwner owner (st\<lparr>sCount := sCount st + 1, sBytes := sBytes st + int (oBytes o')\<rparr>) s1;
          s3 = pushChange owner \<lparr>cSeq = seq, cKey = rKey r, cKind = Upsert, cVersion = js ''1'',
                 cState = Some (rDelivery r), cDeletedAt = None, cCreatedAt = Some (eNow e)\<rparr> s2
      in (o'\<lparr>oSeq := Some seq, oSrc := Undefined\<rparr>, s3))"

fun commitLoop :: "env \<Rightarrow> jsstr \<Rightarrow> outcome list \<Rightarrow> store \<Rightarrow> outcome list \<times> store" where
  "commitLoop e owner [] s = ([], s)"
| "commitLoop e owner (o' # os) s =
     (let (o1, s1) = (if oKind o' = Stored then commitItem e owner o' s else (o', s));
          (os', s2) = commitLoop e owner os s1
      in (o1 # os', s2))"

definition failStored :: "outcome \<Rightarrow> outcome" where
  "failStored o' = (if oKind o' = Stored then plainOutcome (oIndex o') (oKey o') Failed (Some ERR_UNAVAILABLE) else o')"

record batch_result =
  brEpoch :: jsstr
  brCommitted :: bool
  brOutcomes :: "outcome list"

definition archiveBatch :: "env \<Rightarrow> store_limits \<Rightarrow> jsstr \<Rightarrow> jsval \<Rightarrow> jsval \<Rightarrow> batch_result op" where
  "archiveBatch e L owner ep input =
     opBind (ownerState owner) (\<lambda>st.
     opBind (opLift (validateArchiveBatchBounds input L)) (\<lambda>rs.
     if ep \<noteq> Str (sEpoch st)
     then opReturn \<lparr>brEpoch = sEpoch st, brCommitted = False, brOutcomes = archiveEpochChanged rs\<rparr>
     else (\<lambda>s.
       let markers = length (filter (\<lambda>(k, t). ownedKey owner k) (tombstones s));
           (planned, p) = planLoop e L owner ep 0 rs
             \<lparr>plProj = \<lparr>pCount = sCount st, pBytes = sBytes st, pReserved = sCount st + int markers\<rparr>,
              plPending = [], plStore = s\<rparr>;
           s1 = plStore p
       in if commitFailureOnce s1 \<or> ArchiveBatch \<in> set (failOnce s1)
          then (Inr \<lparr>brEpoch = sEpoch st, brCommitted = False, brOutcomes = map failStored planned\<rparr>,
                s1\<lparr>commitFailureOnce := False, failOnce := filter (\<lambda>q. q \<noteq> ArchiveBatch) (failOnce s1)\<rparr>)
          else let (outs, s2) = commitLoop e owner planned s1
               in (Inr \<lparr>brEpoch = sEpoch st, brCommitted = True, brOutcomes = outs\<rparr>, s2))))"

subsection \<open>Delivery state\<close>

definition DELIVERY_STATES :: "jsstr list" where
  "DELIVERY_STATES = map js [''prepared'', ''received'', ''unknown'', ''accepted'', ''failed'']"

definition rangeCode :: "code \<Rightarrow> string \<Rightarrow> jserr" where
  "rangeCode c m = JsErr RangeError (Some c) m"

definition patchGuards :: "jsstr \<Rightarrow> jsstr \<Rightarrow> jsstr \<Rightarrow> jsstr \<Rightarrow> store \<Rightarrow> row result" where
  "patchGuards owner key newState erev s =
     andThen (require (newState \<in> set DELIVERY_STATES) (invalidRecord ''unknown delivery state'')) (\<lambda>_.
     andThen (require (map_of (tombstones s) (mkKey owner key) = None)
                (rangeCode ERR_INVALID_RECORD ''record deleted; deletion wins'')) (\<lambda>_.
     case map_of (records s) (mkKey owner key) of
       None \<Rightarrow> Inl (rangeCode ERR_INVALID_RECORD ''record not found'')
     | Some r \<Rightarrow>
         andThen (require (rRevision r = erev) (rangeCode ERR_REVISION_CONFLICT ''revision conflict'')) (\<lambda>_.
         andThen (require (\<not> (rDelivery r = js ''accepted'' \<and> newState \<noteq> js ''accepted''))
                    (rangeCode ERR_REVISION_CONFLICT ''accepted cannot downgrade'')) (\<lambda>_. Inr r))))"

text \<open>A result and whether it is a replay.\<close>

definition patchState :: "env \<Rightarrow> jsstr \<Rightarrow> jsstr \<Rightarrow> jsstr \<Rightarrow> jsval \<Rightarrow> jsval \<Rightarrow> (op_result \<times> bool) op" where
  "patchState e owner key newState expectedRevision idempotencyKey =
     opBind (opLift (validateStateMutationInput expectedRevision idempotencyKey)) (\<lambda>(erev, ik).
     opBind (checkIdempotency e owner idempotencyKey ''patchState''
               [(js ''recordKey'', Some key), (js ''newState'', Some newState), (js ''expectedRevision'', Some erev)])
       (\<lambda>idem.
     case (case idem of Some k \<Rightarrow> kExisting k | None \<Rightarrow> None) of
       Some r \<Rightarrow> opReturn (r, True)
     | None \<Rightarrow>
         opBind (consumeFailure PatchState) (\<lambda>_.
         opBind (ownerState owner) (\<lambda>st.
         opBind (\<lambda>s. (patchGuards owner key newState erev s, s)) (\<lambda>r.
         if rDelivery r = newState
         then let result = PatchResult key (rRevision r) (rChangeSequence r) True
              in opBind (opUpd (storeIdempotency e idem ''patchState'' result)) (\<lambda>_. opReturn (result, False))
         else
           let (seq, st') = allocSequence st; rev2 = nextSequenceString (rRevision r);
               r' = r\<lparr>rDelivery := newState, rRevision := rev2, rChangeSequence := seq\<rparr>;
               result = PatchResult key rev2 seq False
           in opBind (opUpd (\<lambda>s. storeIdempotency e idem ''patchState'' result
                 (pushChange owner \<lparr>cSeq = seq, cKey = key, cKind = StateChange, cVersion = rev2,
                    cState = Some newState, cDeletedAt = None, cCreatedAt = Some (eNow e)\<rparr>
                 (setOwner owner st' (s\<lparr>records := aset (mkKey owner key) r' (records s)\<rparr>)))))
              (\<lambda>_. opReturn (result, False)))))))"

subsection \<open>Deletion\<close>

definition hasItem :: "jsstr \<Rightarrow> jsstr \<Rightarrow> store \<Rightarrow> bool" where
  "hasItem sid key s = list_ex (\<lambda>it. siKey it = key) (agetOr [] sid (snapshotItems s))"

definition invalidateSnapshotsForRecord :: "jsstr \<Rightarrow> jsstr \<Rightarrow> jsstr \<Rightarrow> store \<Rightarrow> store" where
  "invalidateSnapshotsForRecord owner ep key s =
     s\<lparr>snapshots := map (\<lambda>(sid, m). (sid,
         if mOwner m = owner \<and> mEpoch m = ep \<and> mStatus m = Active \<and> hasItem (mId m) key s
         then m\<lparr>mStatus := Invalidated\<rparr> else m)) (snapshots s)\<rparr>"

definition invalidateSnapshotsForEpoch :: "jsstr \<Rightarrow> jsstr \<Rightarrow> store \<Rightarrow> store" where
  "invalidateSnapshotsForEpoch owner ep s =
     s\<lparr>snapshots := map (\<lambda>(sid, m). (sid,
         if mOwner m = owner \<and> mEpoch m = ep \<and> mStatus m = Active then m\<lparr>mStatus := Invalidated\<rparr> else m))
       (snapshots s)\<rparr>"

definition deleteRecord :: "env \<Rightarrow> jsstr \<Rightarrow> jsstr \<Rightarrow> jsval \<Rightarrow> (op_result \<times> bool) op" where
  "deleteRecord e owner key idempotencyKey =
     opBind (checkIdempotency e owner idempotencyKey ''deleteRecord'' [(js ''recordKey'', Some key)]) (\<lambda>idem.
     case (case idem of Some k \<Rightarrow> kExisting k | None \<Rightarrow> None) of
       Some r \<Rightarrow> opReturn (r, True)
     | None \<Rightarrow>
         opBind (consumeFailure DeleteRecord) (\<lambda>_.
         opBind (ownerState owner) (\<lambda>st s.
           let k = mkKey owner key; row = map_of (records s) k in
           if row = None \<and> map_of (tombstones s) k = None
           then let result = DeleteResult False None (sEpoch st)
                in (Inr (result, False), storeIdempotency e idem ''deleteRecord'' result s)
           else
             let (seq, st1) = allocSequence st;
                 (st2, s1) = (case row of
                     Some r \<Rightarrow> (st1\<lparr>sCount := sCount st1 - 1, sBytes := sBytes st1 - int (rBodyBytes r)\<rparr>,
                                 s\<lparr>records := adel k (records s)\<rparr>)
                   | None \<Rightarrow> (st1, s));
                 s2 = setOwner owner st2 (s1\<lparr>tombstones := aset k \<lparr>tSeq = seq, tDeletedAt = eNow e\<rparr> (tombstones s1)\<rparr>);
                 s3 = pushChange owner \<lparr>cSeq = seq, cKey = key, cKind = Delete, cVersion = js ''1'', cState = None,
                        cDeletedAt = Some (eNow e), cCreatedAt = Some (eNow e)\<rparr> s2;
                 s4 = invalidateSnapshotsForRecord owner (sEpoch st) key s3;
                 result = DeleteResult True (Some seq) (sEpoch st)
             in (Inr (result, False), storeIdempotency e idem ''deleteRecord'' result s4))))"

definition deleteAll :: "env \<Rightarrow> jsstr \<Rightarrow> jsval \<Rightarrow> jsstr option \<Rightarrow> (op_result \<times> bool) op" where
  "deleteAll e owner idempotencyKey expEpoch =
     opBind (checkIdempotency e owner idempotencyKey ''deleteAll'' [(js ''expectedEpoch'', expEpoch)]) (\<lambda>idem.
     case (case idem of Some k \<Rightarrow> kExisting k | None \<Rightarrow> None) of
       Some r \<Rightarrow> opReturn (r, True)
     | None \<Rightarrow>
         opBind (\<lambda>s. (require (expEpoch = None \<or> expEpoch = Some (sEpoch (ownerOf owner s)))
                        (rangeCode ERR_EPOCH_CHANGED ''epoch changed''), s)) (\<lambda>_.
         opBind (consumeFailure DeleteAll) (\<lambda>_.
         opBind (ownerState owner) (\<lambda>st s.
           let s1 = s\<lparr>records := filter (\<lambda>(k, r). \<not> ownedKey owner k) (records s),
                      tombstones := filter (\<lambda>(k, t). \<not> ownedKey owner k) (tombstones s)\<rparr>;
               st1 = st\<lparr>sCount := 0, sBytes := 0\<rparr>
           in case rotateOwnerEpoch (eUuids e) (sEpoch st) of
                Inl err \<Rightarrow> (Inl err, setOwner owner st1 s1)
              | Inr ep' \<Rightarrow>
                  let s2 = setOwner owner (st1\<lparr>sEpoch := ep'\<rparr>) s1;
                      s3 = s2\<lparr>changes := aset owner [] (changes s2)\<rparr>;
                      s4 = invalidateSnapshotsForEpoch owner (sEpoch st) s3;
                      result = DeleteAllResult ep'
                  in (Inr (result, False), storeIdempotency e idem ''deleteAll'' result s4)))))"

end
