(* ===== verification/MemoryReads.thy ===== *)
theory MemoryReads
  imports MemoryStore
begin

section \<open>The memory repository: snapshots, feeds and purges\<close>

text \<open>
  The rest of \<open>createMemoryCore\<close> of \<open>src/repository.mjs\<close>: snapshot capture and bound snapshot
  reads, the browse, change and snapshot pages, usage and statistics, and the two purges. Clock
  readings and the server secret are arguments, as in the code.
\<close>

subsection \<open>The keyset order\<close>

text \<open>Live rows and snapshot members are ordered by creation time, then record key, both as
  strings of code units.\<close>

datatype keyset = Keyset (ksCreated: jsstr) (ksKey: jsstr)

instantiation keyset :: linorder
begin

definition less_eq_keyset :: "keyset \<Rightarrow> keyset \<Rightarrow> bool" where
  "less_eq_keyset a b \<longleftrightarrow> ksCreated a < ksCreated b \<or> ksCreated a = ksCreated b \<and> ksKey a \<le> ksKey b"

definition less_keyset :: "keyset \<Rightarrow> keyset \<Rightarrow> bool" where
  "less_keyset a b \<longleftrightarrow> ksCreated a < ksCreated b \<or> ksCreated a = ksCreated b \<and> ksKey a < ksKey b"

instance
proof
  fix a b c :: keyset
  show "a < b \<longleftrightarrow> a \<le> b \<and> \<not> b \<le> a" by (auto simp: less_keyset_def less_eq_keyset_def)
  show "a \<le> a" by (simp add: less_eq_keyset_def)
  show "a \<le> b \<Longrightarrow> b \<le> c \<Longrightarrow> a \<le> c" by (auto simp: less_eq_keyset_def)
  show "a \<le> b \<Longrightarrow> b \<le> a \<Longrightarrow> a = b" by (cases a; cases b) (auto simp: less_eq_keyset_def)
  show "a \<le> b \<or> b \<le> a" by (auto simp: less_eq_keyset_def)
qed

end

definition rowKeyset :: "row \<Rightarrow> keyset" where
  "rowKeyset r = Keyset (rCreatedAt r) (rKey r)"

definition itemKeyset :: "snap_item \<Rightarrow> keyset" where
  "itemKeyset it = Keyset (siCreatedAt it) (siKey it)"

definition rowJson :: "row \<Rightarrow> json" where
  "rowJson r = JObj
     [(js ''owner'', JStr (rOwner r)), (js ''recordKey'', JStr (rKey r)), (js ''messageId'', JStr (rMessageId r)),
      (js ''messageBox'', JStr (rMessageBox r)), (js ''direction'', JStr (rDirection r)),
      (js ''sender'', JStr (rSender r)), (js ''recipient'', JStr (rRecipient r)), (js ''body'', JStr (rBody r)),
      (js ''bodyHash'', JStr (rBodyHash r)), (js ''bodyBytes'', JInt (int (rBodyBytes r))),
      (js ''deliveryState'', JStr (rDelivery r)), (js ''revision'', JStr (rRevision r)),
      (js ''changeSequence'', JStr (rChangeSequence r)), (js ''createdAt'', JStr (rCreatedAt r)),
      (js ''archivedAt'', JStr (rArchivedAt r)),
      (js ''expiresAt'', case rExpiresAt r of None \<Rightarrow> JNull | Some t \<Rightarrow> JStr t)]"

subsection \<open>Watermarks and creation\<close>

definition currentWatermark :: "owner_state \<Rightarrow> jsstr" where
  "currentWatermark st = (if sNext st = js ''1'' then js ''0'' else decOfNat (natOfDec (sNext st) - 1))"

definition creationSequenceOf :: "jsstr \<Rightarrow> jsstr \<Rightarrow> store \<Rightarrow> jsstr option" where
  "creationSequenceOf owner key s =
     map_option cSeq (List.find (\<lambda>c. cKey c = key \<and> cKind c = Upsert) (changesOf owner s))"

definition earliestSequence :: "jsstr \<Rightarrow> store \<Rightarrow> jsstr option" where
  "earliestSequence owner s =
     fold (\<lambda>c m. case m of None \<Rightarrow> Some (cSeq c)
             | Some x \<Rightarrow> if natOfDec (cSeq c) < natOfDec x then Some (cSeq c) else Some x) (changesOf owner s) None"

definition getRecord :: "jsstr \<Rightarrow> jsstr \<Rightarrow> store \<Rightarrow> row option" where
  "getRecord owner key s = map_of (records s) (mkKey owner key)"

record usage =
  uCount :: int
  uBytes :: int
  uEpoch :: jsstr
  uNext :: jsstr

definition getUsage :: "jsstr \<Rightarrow> usage op" where
  "getUsage owner = opBind (ownerState owner) (\<lambda>st.
     opReturn \<lparr>uCount = sCount st, uBytes = sBytes st, uEpoch = sEpoch st, uNext = sNext st\<rparr>)"

definition listChanges :: "jsstr \<Rightarrow> store \<Rightarrow> (jsstr \<times> jsstr \<times> change_kind \<times> jsstr \<times> jsstr option) list" where
  "listChanges owner s = map (\<lambda>c. (cSeq c, cKey c, cKind c, cVersion c, cDeletedAt c)) (changesOf owner s)"

definition listDeleteEvents :: "jsstr \<Rightarrow> store \<Rightarrow> (jsstr \<times> jsstr \<times> jsstr option) list" where
  "listDeleteEvents owner s =
     map (\<lambda>c. (cKey c, cSeq c, cDeletedAt c)) (filter (\<lambda>c. cKind c = Delete) (changesOf owner s))"

subsection \<open>Capturing a snapshot\<close>

definition snapshotMembers :: "jsstr \<Rightarrow> snap_filter \<Rightarrow> jsstr \<Rightarrow> store \<Rightarrow> row list" where
  "snapshotMembers owner f w s =
     filter (\<lambda>r. rOwner r = owner
       \<and> (case creationSequenceOf owner (rKey r) s of None \<Rightarrow> False | Some c \<Rightarrow> natOfDec c \<le> natOfDec w)
       \<and> matchesSnapshotFilter r f) (map snd (records s))"

definition itemOf :: "row \<Rightarrow> snap_item" where
  "itemOf r = \<lparr>siKey = rKey r, siRevision = rRevision r, siDelivery = rDelivery r,
     siChangeSequence = rChangeSequence r, siCreatedAt = rCreatedAt r\<rparr>"

definition ownedSnapshots :: "jsstr \<Rightarrow> store \<Rightarrow> snap_meta list" where
  "ownedSnapshots owner s = filter (\<lambda>m. mOwner m = owner) (map snd (snapshots s))"

definition ownedItems :: "jsstr \<Rightarrow> store \<Rightarrow> nat" where
  "ownedItems owner s = sum_list (map (\<lambda>m. length (agetOr [] (mId m) (snapshotItems s))) (ownedSnapshots owner s))"

record snap_created =
  scId :: jsstr
  scEpoch :: jsstr
  scFilterHash :: jsstr
  scWatermark :: jsstr
  scCount :: nat

definition createSnapshot :: "env \<Rightarrow> jsstr \<Rightarrow> jsval \<Rightarrow> snap_created op" where
  "createSnapshot e owner flt =
     opBind (opLift (validateSnapshotFilter flt)) (\<lambda>f.
     opBind (ownerState owner) (\<lambda>st s.
       let w = currentWatermark st; members = snapshotMembers owner f w s; n = length members in
       if MAX_SNAPSHOTS_PER_OWNER \<le> length (ownedSnapshots owner s)
       then (Inl (auxiliaryQuotaExceeded ''snapshot''), s)
       else if 0 < n \<and> MAX_SNAPSHOT_ITEMS_PER_OWNER \<le> ownedItems owner s + (n - 1)
       then (Inl (auxiliaryQuotaExceeded ''snapshot''), s)
       else case (case eDateParse e (eNow e) of Some ms \<Rightarrow> snapshotExpiryIso ms
                  | None \<Rightarrow> Inl (range_error ''Invalid time value'')) of
         Inl err \<Rightarrow> (Inl err, s)
       | Inr expires \<Rightarrow>
           let hash = snapshotFilterHash f;
               meta = \<lparr>mId = eSnapshotId e, mOwner = owner, mEpoch = sEpoch st, mFilterHash = hash, mFilter = f,
                       mWatermark = w, mStatus = Active, mCreatedAt = eNow e, mExpiresAt = expires\<rparr>
           in (Inr \<lparr>scId = eSnapshotId e, scEpoch = sEpoch st, scFilterHash = hash, scWatermark = w, scCount = n\<rparr>,
               s\<lparr>snapshots := aset (eSnapshotId e) meta (snapshots s),
                 snapshotItems := aset (eSnapshotId e) (map itemOf (sort_key rowKeyset members)) (snapshotItems s)\<rparr>)))"

definition getSnapshot :: "jsstr \<Rightarrow> jsval \<Rightarrow> snap_expect \<Rightarrow> store \<Rightarrow> snap_meta option result" where
  "getSnapshot sid owner x s =
     (if owner = Undefined then Inl (invalidRecord ''owner is required for snapshot reads'')
      else case map_of (snapshots s) sid of
        None \<Rightarrow> Inr None
      | Some m \<Rightarrow> andThen (assertSnapshotBinding (Some m) owner x) (\<lambda>_. Inr (Some m)))"

definition boundMembers :: "int \<Rightarrow> nat" where
  "boundMembers limit = nat (max 1 (min (if limit = 0 then 100 else limit) (int MAX_PAGE_RECORDS)))"

definition expired :: "(jsstr \<Rightarrow> int option) \<Rightarrow> jsstr \<Rightarrow> int option \<Rightarrow> bool" where
  "expired dateParse t now = (case (dateParse t, now) of (Some a, Some b) \<Rightarrow> a \<le> b | _ \<Rightarrow> False)"

definition listSnapshotMembers ::
  "(jsstr \<Rightarrow> int option) \<Rightarrow> int \<Rightarrow> jsstr \<Rightarrow> jsval \<Rightarrow> snap_expect \<Rightarrow> int \<Rightarrow> keyset option \<Rightarrow> store
   \<Rightarrow> (snap_status \<times> snap_item list) option result" where
  "listSnapshotMembers dateParse nowMs sid owner x limit after s =
     (if owner = Undefined then Inl (invalidRecord ''owner is required for snapshot reads'')
      else case map_of (snapshots s) sid of
        None \<Rightarrow> Inr None
      | Some m \<Rightarrow> andThen (assertSnapshotBinding (Some m) owner x) (\<lambda>_.
          if mStatus m \<noteq> Active \<or> expired dateParse (mExpiresAt m) (Some nowMs) then Inr (Some (mStatus m, []))
          else let items = agetOr [] sid (snapshotItems s);
                   rest = (case after of None \<Rightarrow> items | Some a \<Rightarrow> filter (\<lambda>it. a < itemKeyset it) items)
               in Inr (Some (mStatus m, take (boundMembers limit) rest))))"

subsection \<open>Purging snapshots\<close>

function spliceLoop :: "nat \<Rightarrow> nat \<Rightarrow> 'a list \<Rightarrow> nat \<Rightarrow> 'a list \<times> nat \<times> nat" where
  "spliceLoop bounded allowance items purged =
     (if items = [] \<or> allowance = 0 \<or> bounded = 0 then (items, allowance, purged)
      else let n = min bounded (min allowance (length items))
           in if n < bounded then (drop n items, allowance - n, purged + n)
              else spliceLoop bounded (allowance - n) (drop n items) (purged + n))"
  by pat_completeness auto
termination by (relation "measure (\<lambda>(b, a, items, p). length items)") auto

declare spliceLoop.simps [simp del]

definition snapshotDue :: "jsstr \<Rightarrow> store \<Rightarrow> jsstr \<times> snap_meta \<Rightarrow> bool" where
  "snapshotDue now s p \<longleftrightarrow> \<not> (now < mExpiresAt (snd p)) \<or>
     mStatus (snd p) = Invalidated \<and> agetOr [] (fst p) (snapshotItems s) \<noteq> []"

record purge_result =
  puItems :: nat
  puSnapshots :: nat
  puExamined :: nat
  puHasMore :: bool

fun purgeSnapLoop :: "nat \<Rightarrow> jsstr \<Rightarrow> (jsstr \<times> snap_meta) list \<Rightarrow> nat \<Rightarrow> nat \<Rightarrow> nat \<Rightarrow> store \<Rightarrow> (nat \<times> nat \<times> nat) \<times> store" where
  "purgeSnapLoop bounded now [] allowance ni ns s = ((allowance, ni, ns), s)"
| "purgeSnapLoop bounded now ((sid, m) # rest) allowance ni ns s =
     (if allowance = 0 then ((allowance, ni, ns), s)
      else if \<not> snapshotDue now s (sid, m) then purgeSnapLoop bounded now rest allowance ni ns s
      else case spliceLoop bounded allowance (agetOr [] sid (snapshotItems s)) ni of (items, allowance', ni') \<Rightarrow>
        if items \<noteq> [] then ((allowance', ni', ns), s\<lparr>snapshotItems := aset sid items (snapshotItems s)\<rparr>)
        else let s1 = s\<lparr>snapshotItems := adel sid (snapshotItems s)\<rparr>
             in if mExpiresAt m \<le> now
                then purgeSnapLoop bounded now rest allowance' ni' (ns + 1) (s1\<lparr>snapshots := adel sid (snapshots s1)\<rparr>)
                else purgeSnapLoop bounded now rest allowance' ni' ns s1)"

definition purgeExpiredSnapshots :: "jsstr \<Rightarrow> int option \<Rightarrow> int option \<Rightarrow> int option \<Rightarrow> purge_result op" where
  "purgeExpiredSnapshots now batchSize maxItems maxSnapshots =
     opBind (consumeFailure SnapshotCleanup) (\<lambda>_ s.
       case boundPurgeParams batchSize maxItems maxSnapshots of (bounded, itemBudget, snapBudget) \<Rightarrow>
       let ordered = take snapBudget (filter (snapshotDue now s) (snapshots s)) in
       case purgeSnapLoop bounded now ordered itemBudget 0 0 s of ((allowance, ni, ns), s') \<Rightarrow>
         (Inr \<lparr>puItems = ni, puSnapshots = ns, puExamined = length ordered,
               puHasMore = (allowance = 0 \<or> snapBudget \<le> length ordered)\<rparr>, s'))"

subsection \<open>Browse\<close>

fun browseLoop :: "nat \<Rightarrow> nat \<Rightarrow> row list \<Rightarrow> browse_builder \<Rightarrow> bool \<Rightarrow> (row list \<times> (jsstr \<times> jsstr) option) result" where
  "browseLoop limit maxBytes [] b hm = Inr (browseFinish hm b)"
| "browseLoop limit maxBytes (r # rs) b hm =
     andThen (browseAdd rowJson limit maxBytes r b) (\<lambda>(ok, b').
     if ok then browseLoop limit maxBytes rs b' hm else Inr (browseFinish True b'))"

definition listBrowse :: "jsval \<Rightarrow> jsval \<Rightarrow> jsnum \<Rightarrow> keyset option \<Rightarrow> store \<Rightarrow> (row list \<times> (jsstr \<times> jsstr) option) result" where
  "listBrowse owner flt limit after s =
     andThen (validateFeedOwner owner) (\<lambda>own.
     andThen (validateSnapshotFilter flt) (\<lambda>f.
     let bounded = boundFeedLimit limit;
         live = sort_key rowKeyset (filter (\<lambda>r. rOwner r = own \<and> matchesSnapshotFilter r f) (map snd (records s)));
         rest = (case after of None \<Rightarrow> live | Some a \<Rightarrow> filter (\<lambda>r. a < rowKeyset r) live)
     in browseLoop bounded MAX_PAGE_BYTES (take bounded rest) \<lparr>bItems = [], bBytes = 0\<rparr> (bounded < length rest)))"

subsection \<open>The changes feed\<close>

datatype feed_item =
    LiveItem row
  | GoneItem (giKey: jsstr) (giSeq: jsstr) (giDeletedAt: "jsstr option")

definition itemJson :: "feed_item \<Rightarrow> json" where
  "itemJson it = (case it of
       LiveItem r \<Rightarrow> rowJson r
     | GoneItem k q d \<Rightarrow> JObj ([(js ''recordKey'', JStr k), (js ''sequence'', JStr q)]
         @ (case d of None \<Rightarrow> [] | Some t \<Rightarrow> [(js ''deletedAt'', JStr t)])))"

definition findLatestDelete :: "jsstr \<Rightarrow> jsstr \<Rightarrow> store \<Rightarrow> change option" where
  "findLatestDelete owner key s =
     fold (\<lambda>c m. if cKey c = key \<and> cKind c = Delete
               then (case m of None \<Rightarrow> Some c
                     | Some l \<Rightarrow> if natOfDec (cSeq l) < natOfDec (cSeq c) then Some c else Some l)
               else m) (changesOf owner s) None"

text \<open>What one scanned change contributes to the page.\<close>

definition candidateOf :: "jsstr \<Rightarrow> snap_filter \<Rightarrow> jsstr \<Rightarrow> store \<Rightarrow> change \<Rightarrow> (feed_item \<times> jsstr) list" where
  "candidateOf owner f w s c =
     (if cKind c = Delete then [(GoneItem (cKey c) (cSeq c) (cDeletedAt c), cSeq c)]
      else case getRecord owner (cKey c) s of
        None \<Rightarrow> (case findLatestDelete owner (cKey c) s of
            Some d \<Rightarrow> if natOfDec w < natOfDec (cSeq d) then [(GoneItem (cKey c) (cSeq d) (cDeletedAt d), cSeq c)] else []
          | None \<Rightarrow> [])
      | Some r \<Rightarrow>
          if \<not> matchesSnapshotFilter r f then []
          else [(LiveItem (r\<lparr>rDelivery := (case cState c of Some d \<Rightarrow> d | None \<Rightarrow> rDelivery r),
                             rRevision := cVersion c, rChangeSequence := cSeq c\<rparr>), cSeq c)])"

record feed_args =
  faSecret :: jsval
  faCursor :: jsval
  faAfter :: jsval
  faEpoch :: jsval
  faLimit :: jsnum
  faFilter :: jsval
  faNow :: int
  faServerTime :: jsstr
  faTtl :: "int option"

definition scanChanges :: "jsstr \<Rightarrow> changes_window \<Rightarrow> nat \<Rightarrow> store \<Rightarrow> change list" where
  "scanChanges owner w bounded s =
     take bounded (sort_key (\<lambda>c. natOfDec (cSeq c))
       (filter (\<lambda>c. natOfDec (wC w) < natOfDec (cSeq c) \<and> natOfDec (cSeq c) \<le> natOfDec (wW w)) (changesOf owner s)))"

definition changesPage :: "jsstr \<Rightarrow> jsstr \<Rightarrow> snap_filter \<Rightarrow> nat \<Rightarrow> feed_args \<Rightarrow> owner_state \<Rightarrow> store \<Rightarrow> feed_item page result" where
  "changesPage own secret f bounded a st s =
     andThen (prepareChangesRead (faCursor a) (faAfter a) (faEpoch a) (sEpoch st) (currentWatermark st) secret own
                (snapshotFilterHash f) (faNow a) True) (\<lambda>w.
     andThen (assertRetainedChanges (wC w) (wW w) (earliestSequence own s) (wExplicit w)) (\<lambda>_.
     let scanned = scanChanges own w bounded s in
     andThen (assertNoInternalRetentionGap (wC w) (wW w) (map cSeq scanned) bounded (wExplicit w)) (\<lambda>_.
     let cands = concat (map (candidateOf own f (wW w) s) scanned) in
     assembleChangePage itemJson (map fst cands) (map snd cands) (wC w)
       (if scanned = [] then None else Some (cSeq (last scanned))) bounded
       \<lparr>cSecret = secret, cOwner = own, cEpoch = wEpoch w, cFilterDigest = snapshotFilterHash f,
        cWatermark = wW w, cTtl = faTtl a, cNow = faNow a\<rparr> (faServerTime a))))"

definition listChangesPage :: "jsval \<Rightarrow> feed_args \<Rightarrow> feed_item page op" where
  "listChangesPage owner a =
     opBind (opLift (validateFeedOwner owner)) (\<lambda>own.
     opBind (opLift (validateServerSecret (faSecret a))) (\<lambda>secret.
     opBind (opLift (validateSnapshotFilter (faFilter a))) (\<lambda>f.
     opBind (ownerState own) (\<lambda>st s.
       (changesPage own secret f (boundFeedLimit (faLimit a)) a st s, s)))))"

subsection \<open>The snapshot feed\<close>

definition snapshotInvalidated :: jserr where
  "snapshotInvalidated = feedError ERR_CURSOR_EXPIRED ''snapshot invalidated; take a new snapshot''"

definition snapshotExpired :: jserr where
  "snapshotExpired = feedError ERR_CURSOR_EXPIRED ''snapshot expired; take a new snapshot''"

definition resolveItem :: "(jsstr \<Rightarrow> int option) \<Rightarrow> jsstr \<Rightarrow> jsstr \<Rightarrow> store \<Rightarrow> snap_item \<Rightarrow> row result" where
  "resolveItem dateParse owner serverTime s it = (case getRecord owner (siKey it) s of
       None \<Rightarrow> Inl snapshotInvalidated
     | Some r \<Rightarrow>
         if (case rExpiresAt r of None \<Rightarrow> False | Some t \<Rightarrow> expired dateParse t (dateParse serverTime))
         then Inl snapshotInvalidated
         else Inr (r\<lparr>rDelivery := siDelivery it, rRevision := siRevision it,
                     rChangeSequence := siChangeSequence it, rCreatedAt := siCreatedAt it\<rparr>))"

definition snapshotServes :: "(jsstr \<Rightarrow> int option) \<Rightarrow> jsstr \<Rightarrow> snap_meta \<Rightarrow> unit result" where
  "snapshotServes dateParse serverTime m =
     andThen (require (mStatus m = Active) snapshotInvalidated) (\<lambda>_.
     require (\<not> expired dateParse (mExpiresAt m) (dateParse serverTime)) snapshotExpired)"

definition snapshotPosition ::
  "(jsstr \<Rightarrow> int option) \<Rightarrow> jsstr \<Rightarrow> jsstr \<Rightarrow> snap_meta \<Rightarrow> int \<Rightarrow> jsval \<Rightarrow> keyset option result" where
  "snapshotPosition dateParse secret own m nw cursor =
     (if cursor = Null \<or> cursor = Undefined then Inr None
      else andThen (verifySnapshotCursor secret own (mEpoch m) (mFilterHash m) nw cursor) (\<lambda>payload.
           andThen (require (strOf (field payload ''w'') = mWatermark m) (invalidCursor ''snapshot watermark mismatch'')) (\<lambda>_.
           andThen (decodeSnapshotPosition dateParse (strOf (field payload ''p''))) (\<lambda>pos.
           Inr (map_option (\<lambda>(c, k). Keyset c k) pos)))))"

definition listSnapshotPage ::
  "(jsstr \<Rightarrow> int option) \<Rightarrow> jsval \<Rightarrow> jsstr \<Rightarrow> feed_args \<Rightarrow> store \<Rightarrow> row page option result" where
  "listSnapshotPage dateParse owner sid a s =
     andThen (validateFeedOwner owner) (\<lambda>own.
     andThen (validateServerSecret (faSecret a)) (\<lambda>secret.
     let bounded = boundFeedLimit (faLimit a) in
     case map_of (snapshots s) sid of
       None \<Rightarrow> Inr None
     | Some m \<Rightarrow>
         andThen (assertSnapshotBinding (Some m) owner noExpect) (\<lambda>_.
         andThen (snapshotPosition dateParse secret own m (faNow a) (faCursor a)) (\<lambda>pos.
         andThen (snapshotServes dateParse (faServerTime a) m) (\<lambda>_.
         let all = agetOr [] sid (snapshotItems s);
             items = (case pos of None \<Rightarrow> all | Some p \<Rightarrow> filter (\<lambda>it. p < itemKeyset it) all) in
         andThen (mapM (resolveItem dateParse own (faServerTime a) s) (take (bounded + 1) items)) (\<lambda>resolved.
         andThen (case map_of (snapshots s) sid of
             None \<Rightarrow> Inl snapshotInvalidated | Some fresh \<Rightarrow> snapshotServes dateParse (faServerTime a) fresh) (\<lambda>_.
         andThen (assembleSnapshotPage dateParse rowJson resolved bounded
             \<lparr>cSecret = secret, cOwner = own, cEpoch = mEpoch m, cFilterDigest = mFilterHash m,
              cWatermark = mWatermark m, cTtl = faTtl a, cNow = faNow a\<rparr> (faServerTime a)) (\<lambda>pg.
         Inr (Some pg)))))))))"

subsection \<open>Statistics and change retention\<close>

record storage_stats =
  ssUsage :: usage
  ssChanges :: nat
  ssDetails :: nat
  ssTombstones :: nat
  ssSnapshots :: nat
  ssItems :: nat
  ssIdempotency :: nat
  ssAudits :: nat

definition getStorageStats :: "jsval \<Rightarrow> storage_stats op" where
  "getStorageStats owner =
     opBind (opLift (validateFeedOwner owner)) (\<lambda>own.
     opBind (getUsage own) (\<lambda>u s.
       (Inr \<lparr>ssUsage = u, ssChanges = length (changesOf own s),
             ssDetails = length (filter (\<lambda>c. cKind c \<noteq> Delete) (changesOf own s)),
             ssTombstones = length (filter (\<lambda>p. ownedKey own (fst p)) (tombstones s)),
             ssSnapshots = length (ownedSnapshots own s), ssItems = ownedItems own s,
             ssIdempotency = length (filter (\<lambda>p. ownedKey own (fst p)) (idempotency s)),
             ssAudits = length (agetOr [] own (audits s))\<rparr>, s)))"

text \<open>The scan of one owner's changes in sequence order: the rows examined and the targets.\<close>

fun purgeScan :: "jsstr \<Rightarrow> jsstr \<Rightarrow> store \<Rightarrow> nat \<Rightarrow> change list \<Rightarrow> nat \<times> jsstr option \<times> change list" where
  "purgeScan owner cutoff s budget [] = (0, None, [])"
| "purgeScan owner cutoff s budget (c # cs) =
     (if budget = 0 then (0, None, [])
      else case cCreatedAt c of
        None \<Rightarrow> purgeScan owner cutoff s budget cs
      | Some t \<Rightarrow>
          if cutoff \<le> t then purgeScan owner cutoff s budget cs
          else case purgeScan owner cutoff s (budget - 1) cs of (n, lastSeq, ts) \<Rightarrow>
            (n + 1, Some (case lastSeq of None \<Rightarrow> cSeq c | Some q \<Rightarrow> q),
             if cKind c = Upsert \<and> getRecord owner (cKey c) s \<noteq> None then ts else c # ts))"

text \<open>One batch of the removal loop walks the array from its end.\<close>

definition removeBatch :: "nat \<Rightarrow> change set \<Rightarrow> change list \<Rightarrow> change list" where
  "removeBatch n victims arr =
     rev (snd (fold (\<lambda>c (k, kept). if 0 < k \<and> c \<in> victims then (k - 1, kept) else (k, kept @ [c])) (rev arr) (n, [])))"

primrec removeLoop :: "nat \<Rightarrow> nat \<Rightarrow> nat \<Rightarrow> change list \<Rightarrow> change list \<Rightarrow> nat \<Rightarrow> change list \<times> nat \<times> nat" where
  "removeLoop 0 bounded allowance victims arr purged = (arr, purged, allowance)"
| "removeLoop (Suc fuel) bounded allowance victims arr purged =
     (if victims = [] \<or> allowance = 0 then (arr, purged, allowance)
      else let n = min bounded (min allowance (length victims));
               arr' = removeBatch n (set victims) arr; removed = length arr - length arr';
               victims' = filter (\<lambda>c. c \<in> set arr') victims
           in if removed < n then (arr', purged + removed, allowance - removed)
              else removeLoop fuel bounded (allowance - removed) victims' arr' (purged + removed))"

fun purgeAllOwners :: "jsstr \<Rightarrow> store \<Rightarrow> nat \<Rightarrow> (jsstr \<times> change) list \<Rightarrow> nat \<Rightarrow> nat \<Rightarrow> nat \<times> nat" where
  "purgeAllOwners cutoff s budget [] examined targets = (examined, targets)"
| "purgeAllOwners cutoff s budget ((own, c) # cs) examined targets =
     (case cCreatedAt c of
        None \<Rightarrow> purgeAllOwners cutoff s budget cs examined targets
      | Some t \<Rightarrow>
          if cutoff \<le> t then purgeAllOwners cutoff s budget cs examined targets
          else if cKind c = Upsert \<and> getRecord own (cKey c) s \<noteq> None
          then purgeAllOwners cutoff s budget cs (examined + 1) targets
          else if budget \<le> targets + 1 then (examined + 1, targets + 1)
          else purgeAllOwners cutoff s budget cs (examined + 1) (targets + 1))"

record change_purge =
  cpPurged :: nat
  cpExamined :: nat
  cpHasMore :: bool

definition advancePurge :: "jsstr \<Rightarrow> change list \<Rightarrow> jsstr option \<Rightarrow> store \<Rightarrow> store" where
  "advancePurge own ordered lastSeq s = (case lastSeq of
       Some q \<Rightarrow> if list_ex (\<lambda>c. natOfDec q < natOfDec (cSeq c)) ordered
         then s\<lparr>purgePositions := aset own q (purgePositions s)\<rparr>
         else s\<lparr>purgePositions := adel own (purgePositions s)\<rparr>
     | None \<Rightarrow> s\<lparr>purgePositions := adel own (purgePositions s)\<rparr>)"

definition purgeExpiredChanges ::
  "(jsstr \<Rightarrow> int option) \<Rightarrow> jsstr option \<Rightarrow> jsstr \<Rightarrow> int option \<Rightarrow> int option \<Rightarrow> change_purge op" where
  "purgeExpiredChanges dateParse owner now batchSize maxItems s =
     (case boundPurgeParams batchSize maxItems (Some 100) of (bounded, budget, _) \<Rightarrow>
      (case retentionCutoffIso dateParse now of
         Inl err \<Rightarrow> (Inl err, s)
       | Inr cutoff \<Rightarrow>
           (case owner of
              Some own \<Rightarrow>
                let ordered = sort_key (\<lambda>c. natOfDec (cSeq c)) (changesOf own s);
                    start = (case map_of (purgePositions s) own of
                        None \<Rightarrow> ordered
                      | Some p \<Rightarrow> (case dropWhile (\<lambda>c. \<not> natOfDec p < natOfDec (cSeq c)) ordered of
                            [] \<Rightarrow> ordered | cs \<Rightarrow> cs));
                    (examined, lastSeq, targets) = purgeScan own cutoff s budget start;
                    s1 = advancePurge own ordered lastSeq s;
                    (arr, purged, allowance) = removeLoop (length targets) bounded budget targets (changesOf own s) 0;
                    s2 = (if map_of (changes s1) own = None then s1 else s1\<lparr>changes := aset own arr (changes s1)\<rparr>)
                in (Inr \<lparr>cpPurged = purged, cpExamined = examined,
                         cpHasMore = (map_of (purgePositions s1) own \<noteq> None \<or> budget \<le> length targets \<or> allowance = 0)\<rparr>, s2)
            | None \<Rightarrow>
                let (examined, targets) = purgeAllOwners cutoff s budget
                      (concat (map (\<lambda>(own, cs). map (Pair own) cs) (changes s))) 0 0
                in (Inr \<lparr>cpPurged = 0, cpExamined = examined, cpHasMore = (budget \<le> targets)\<rparr>, s))))"

end
