(* ===== verification/StoreInv.thy ===== *)
theory StoreInv
  imports MemoryReads
begin

section \<open>The invariant of the memory repository\<close>

text \<open>
  What every operation keeps true of the reference adapter. Rows are stored under their own key,
  with the key, the body hash and the byte count recomputed from the content; a key is never live
  and deleted at once; the owner's counters are the number of its rows and the sum of their bytes
  and stay within the quotas; its change log is strictly increasing and ends before the next
  sequence.
\<close>

subsection \<open>Owned keys\<close>

definition noNul :: "jsstr \<Rightarrow> bool" where
  "noNul s \<longleftrightarrow> 0 \<notin> set s"

lemma mkKey_inject: "noNul a \<Longrightarrow> noNul b \<Longrightarrow> mkKey a x = mkKey b y \<longleftrightarrow> a = b \<and> x = y"
proof -
  assume n: "noNul a" "noNul b"
  have "takeWhile (\<lambda>u. u \<noteq> 0) (mkKey c z) = c" if "noNul c" for c z
    using that unfolding mkKey_def noNul_def by (subst takeWhile_append2) auto
  then have "mkKey a x = mkKey b y \<Longrightarrow> a = b" using n by metis
  then show ?thesis by (auto simp: mkKey_def)
qed

lemma ownedKey_mkKey: "noNul a \<Longrightarrow> noNul x \<Longrightarrow> ownedKey b (mkKey a x) \<longleftrightarrow> a = b"
proof
  assume n: "noNul a" "noNul x" and o: "ownedKey b (mkKey a x)"
  then obtain r where r: "a @ 0 # x = b @ 0 # r"
    using append_take_drop_id [of "Suc (length b)" "a @ 0 # x"]
    by (simp add: ownedKey_def startsWith_def mkKey_def) (metis append.assoc append_Cons append_Nil)
  have "noNul b"
  proof (rule ccontr)
    assume "\<not> noNul b"
    then have "2 \<le> count_list (b @ 0 # r) 0"
      using count_list_0_iff [of b 0] by (cases "count_list b 0") (simp_all add: noNul_def count_list_append)
    moreover have "count_list (a @ 0 # x) 0 = 1"
      using n by (simp add: noNul_def count_list_append)
    ultimately show False using r by simp
  qed
  then have "mkKey a x = mkKey b r \<Longrightarrow> a = b" using n mkKey_inject by blast
  then show "a = b" using r by (simp add: mkKey_def)
qed (simp add: ownedKey_def startsWith_def mkKey_def)

lemma identityKeyRe_noNul: "identityKeyRe s \<Longrightarrow> noNul s"
  by (auto simp: identityKeyRe_def noNul_def list_all_iff isLowerHex_def isDigit_def split: list.splits)

lemma hex64Re_noNul: "hex64Re s \<Longrightarrow> noNul s"
  by (auto simp: hex64Re_def noNul_def list_all_iff isLowerHex_def isDigit_def)

subsection \<open>The invariant\<close>

definition goodKey :: "jsstr \<Rightarrow> bool" where
  "goodKey k \<longleftrightarrow> (\<exists>o' h. identityKeyRe o' \<and> hex64Re h \<and> k = mkKey o' h)"

definition rowOk :: "row \<Rightarrow> bool" where
  "rowOk r \<longleftrightarrow> identityKeyRe (rOwner r)
     \<and> rKey r = sha256Hex (recordPreimage (rOwner r) (rDirection r) (rMessageBox r) (rSender r) (rRecipient r) (rMessageId r))
     \<and> rBodyHash r = sha256Hex (utf8Bytes (rBody r)) \<and> rBodyBytes r = utf8ByteLength (rBody r)
     \<and> rBodyBytes r \<le> MAX_BODY_BYTES
     \<and> (rDirection r = js ''inbound'' \<and> rRecipient r = rOwner r
        \<or> rDirection r = js ''outbound'' \<and> rSender r = rOwner r)
     \<and> rDelivery r \<in> set DELIVERY_STATES"

definition recordsOk :: "store \<Rightarrow> bool" where
  "recordsOk s \<longleftrightarrow> distinct (map fst (records s))
     \<and> (\<forall>(k, r) \<in> set (records s). rowOk r \<and> k = mkKey (rOwner r) (rKey r))"

definition tombstonesOk :: "store \<Rightarrow> bool" where
  "tombstonesOk s \<longleftrightarrow> distinct (map fst (tombstones s)) \<and> (\<forall>k \<in> fst ` set (tombstones s). goodKey k)
     \<and> fst ` set (tombstones s) \<inter> fst ` set (records s) = {}"

definition ownedRows :: "jsstr \<Rightarrow> store \<Rightarrow> row list" where
  "ownedRows owner s = map snd (filter (\<lambda>p. ownedKey owner (fst p)) (records s))"

definition markers :: "jsstr \<Rightarrow> store \<Rightarrow> nat" where
  "markers owner s = length (filter (\<lambda>p. ownedKey owner (fst p)) (tombstones s))"

definition countsOk :: "store \<Rightarrow> bool" where
  "countsOk s \<longleftrightarrow> (\<forall>owner. sCount (ownerOf owner s) = int (length (ownedRows owner s))
     \<and> sBytes (ownerOf owner s) = int (sum_list (map rBodyBytes (ownedRows owner s))))"

definition quotasOk :: "store_limits \<Rightarrow> store \<Rightarrow> bool" where
  "quotasOk L s \<longleftrightarrow> (\<forall>owner. length (ownedRows owner s) \<le> MAX_RECORDS_PER_OWNER L
     \<and> sum_list (map rBodyBytes (ownedRows owner s)) \<le> MAX_BYTES_PER_OWNER L
     \<and> length (ownedRows owner s) + markers owner s \<le> MAX_RESERVED_RECORD_KEYS_PER_OWNER L)"

definition seqNats :: "change list \<Rightarrow> nat list" where
  "seqNats cs = map (\<lambda>c. natOfDec (cSeq c)) cs"

definition logOk :: "owner_state \<Rightarrow> change list \<Rightarrow> bool" where
  "logOk st cs \<longleftrightarrow> (\<exists>n \<ge> 1. sNext st = decOfNat n \<and> (\<forall>c \<in> set cs. \<exists>m. cSeq c = decOfNat m \<and> 1 \<le> m \<and> m < n)
     \<and> sorted_wrt (<) (seqNats cs))"

definition logsOk :: "store \<Rightarrow> bool" where
  "logsOk s \<longleftrightarrow> (\<forall>owner. logOk (ownerOf owner s) (changesOf owner s))"

text \<open>The change log of an owner without a state is empty, so creating the state changes nothing
  that can be read.\<close>

definition linked :: "store \<Rightarrow> bool" where
  "linked s \<longleftrightarrow> (\<forall>owner. map_of (owners s) owner = None \<longrightarrow> changesOf owner s = [])"

definition storeInv :: "store_limits \<Rightarrow> store \<Rightarrow> bool" where
  "storeInv L s \<longleftrightarrow> recordsOk s \<and> tombstonesOk s \<and> countsOk s \<and> quotasOk L s \<and> logsOk s
     \<and> linked s"

lemma storeInv_empty: "storeInv L emptyStore"
proof -
  have "decOfNat 1 = js ''1''" by (subst decOfNat.simps) (simp add: digitChar_def js_def)
  then show ?thesis
    by (auto simp: storeInv_def recordsOk_def tombstonesOk_def countsOk_def quotasOk_def logsOk_def
        emptyStore_def ownedRows_def markers_def ownerOf_def agetOr_def initialOwner_def changesOf_def
        logOk_def seqNats_def linked_def intro!: exI [of _ 1])
qed

subsection \<open>What the invariant reads\<close>

definition sameCore :: "store \<Rightarrow> store \<Rightarrow> bool" where
  "sameCore s s' \<longleftrightarrow> records s = records s' \<and> tombstones s = tombstones s'
     \<and> (\<forall>owner. ownerOf owner s = ownerOf owner s' \<and> changesOf owner s = changesOf owner s')
     \<and> (linked s \<longrightarrow> linked s')"

lemma sameCore_refl [simp]: "sameCore s s"
  by (simp add: sameCore_def)

lemma sameCore_trans: "sameCore a b \<Longrightarrow> sameCore b c \<Longrightarrow> sameCore a c"
  by (simp add: sameCore_def)

lemma storeInv_sameCore: "sameCore s s' \<Longrightarrow> storeInv L s \<Longrightarrow> storeInv L s'"
  by (simp add: sameCore_def storeInv_def recordsOk_def tombstonesOk_def countsOk_def quotasOk_def
      logsOk_def ownedRows_def markers_def)

lemma ownerState_result: "fst (ownerState owner s) = Inr (ownerOf owner s)"
  by (simp add: ownerState_def ownerOf_def agetOr_def split: option.splits)

lemma sameCore_ownerState: "linked s \<Longrightarrow> sameCore s (snd (ownerState owner s))"
  by (auto simp: sameCore_def ownerState_def linked_def ownerOf_def agetOr_def changesOf_def
      split: option.splits)

lemma sameCore_checkIdempotency: "sameCore s (snd (checkIdempotency e owner key opn params s))"
  by (simp add: sameCore_def checkIdempotency_def ownerOf_def changesOf_def linked_def Let_def
      split: sum.split option.split)

lemma sameCore_storeIdempotency: "sameCore s (storeIdempotency e t opn r s)"
  by (auto simp: sameCore_def storeIdempotency_def linked_def ownerOf_def changesOf_def split: option.splits)

lemma sameCore_consumeFailure: "sameCore s (snd (consumeFailure p s))"
  by (auto simp: sameCore_def consumeFailure_def linked_def ownerOf_def changesOf_def)

lemma sameCore_audit: "sameCore s (audit e owner kind k detail s)"
  by (auto simp: sameCore_def audit_def linked_def ownerOf_def changesOf_def Let_def)

lemma sameCore_invalidate:
  "sameCore s (invalidateSnapshotsForRecord owner ep key s)"
  "sameCore s (invalidateSnapshotsForEpoch owner ep s)"
  by (auto simp: sameCore_def invalidateSnapshotsForRecord_def invalidateSnapshotsForEpoch_def
      linked_def ownerOf_def changesOf_def)

subsection \<open>The primitive updates\<close>

lemma setOwner_simps [simp]:
  "records (setOwner owner st s) = records s" "tombstones (setOwner owner st s) = tombstones s"
  "changes (setOwner owner st s) = changes s" "changesOf own (setOwner owner st s) = changesOf own s"
  "ownerOf own (setOwner owner st s) = (if own = owner then st else ownerOf own s)"
  by (simp_all add: setOwner_def ownerOf_def changesOf_def)

lemma pushChange_simps [simp]:
  "records (pushChange owner c s) = records s" "tombstones (pushChange owner c s) = tombstones s"
  "owners (pushChange owner c s) = owners s" "ownerOf own (pushChange owner c s) = ownerOf own s"
  "changesOf own (pushChange owner c s) = (if own = owner then changesOf owner s @ [c] else changesOf own s)"
  by (simp_all add: pushChange_def ownerOf_def changesOf_def)

lemma records_upd_simps [simp]:
  "ownerOf own (s\<lparr>records := x\<rparr>) = ownerOf own s" "changesOf own (s\<lparr>records := x\<rparr>) = changesOf own s"
  "ownerOf own (s\<lparr>tombstones := y\<rparr>) = ownerOf own s" "changesOf own (s\<lparr>tombstones := y\<rparr>) = changesOf own s"
  by (simp_all add: ownerOf_def changesOf_def)

lemma linked_step:
  "linked s \<Longrightarrow> linked (pushChange owner c (setOwner owner st s))"
  by (simp add: linked_def) (simp add: setOwner_def)

lemma linked_upd [simp]:
  "linked (s\<lparr>records := x\<rparr>) = linked s" "linked (s\<lparr>tombstones := y\<rparr>) = linked s"
  by (simp_all add: linked_def)

lemma decOfNat_1: "js ''1'' = decOfNat 1"
  by (subst decOfNat.simps) (simp add: digitChar_def js_def)

lemma logOk_append:
  assumes "logOk st cs" "cSeq c = sNext st" "sNext st' = nextSequenceString (sNext st)"
  shows "logOk st' (cs @ [c])"
proof -
  obtain n where n: "1 \<le> n" "sNext st = decOfNat n" "\<forall>c \<in> set cs. \<exists>m. cSeq c = decOfNat m \<and> 1 \<le> m \<and> m < n"
    and s: "sorted_wrt (<) (seqNats cs)"
    using assms(1) by (auto simp: logOk_def)
  have "\<forall>x \<in> set (seqNats cs). x < n" using n(3) by (force simp: seqNats_def)
  then have "sorted_wrt (<) (seqNats (cs @ [c]))"
    using s assms(2) n by (simp add: seqNats_def sorted_wrt_append)
  moreover have "\<forall>c' \<in> set (cs @ [c]). \<exists>m. cSeq c' = decOfNat m \<and> 1 \<le> m \<and> m < Suc n"
    using n assms(2) by (auto intro: less_SucI)
  ultimately show ?thesis using n assms(3) by (auto simp: logOk_def intro!: exI [of _ "Suc n"])
qed

lemma logOk_owner: "logOk st cs \<Longrightarrow> sNext st' = sNext st \<Longrightarrow> logOk st' cs"
  by (simp add: logOk_def)

lemma rowOk_key: "rowOk r \<Longrightarrow> noNul (rOwner r) \<and> noNul (rKey r) \<and> goodKey (mkKey (rOwner r) (rKey r))"
proof -
  assume r: "rowOk r"
  then have "identityKeyRe (rOwner r)" "hex64Re (rKey r)" by (simp_all add: rowOk_def sha256Hex_hex64)
  then show ?thesis using identityKeyRe_noNul hex64Re_noNul by (auto simp: goodKey_def)
qed

lemma rowOk_owned: "rowOk r \<Longrightarrow> ownedKey owner (mkKey (rOwner r) (rKey r)) \<longleftrightarrow> rOwner r = owner"
  using rowOk_key by (simp add: ownedKey_mkKey)

lemma ownedRows_eq:
  "recordsOk s \<Longrightarrow> ownedRows owner s = filter (\<lambda>r. rOwner r = owner) (map snd (records s))"
proof -
  have "\<forall>(k, r) \<in> set rs. rowOk r \<and> k = mkKey (rOwner r) (rKey r) \<Longrightarrow>
      map snd (filter (\<lambda>p. ownedKey owner (fst p)) rs) = filter (\<lambda>r. rOwner r = owner) (map snd rs)" for rs
    by (induction rs) (auto simp: rowOk_owned)
  then show "recordsOk s \<Longrightarrow> ?thesis" by (simp add: recordsOk_def ownedRows_def)
qed

lemma recordsOk_lookup: "recordsOk s \<Longrightarrow> map_of (records s) k = Some r \<Longrightarrow> rowOk r \<and> k = mkKey (rOwner r) (rKey r)"
  by (auto simp: recordsOk_def dest!: map_of_SomeD)

subsection \<open>Inserting a row\<close>

lemma storeInv_insert:
  assumes inv: "storeInv L s" and r: "rowOk r" and k: "k = mkKey owner (rKey r)" and own: "rOwner r = owner"
    and fresh: "map_of (records s) k = None" "map_of (tombstones s) k = None"
    and q: "length (ownedRows owner s) + 1 \<le> MAX_RECORDS_PER_OWNER L"
      "sum_list (map rBodyBytes (ownedRows owner s)) + rBodyBytes r \<le> MAX_BYTES_PER_OWNER L"
      "length (ownedRows owner s) + 1 + markers owner s \<le> MAX_RESERVED_RECORD_KEYS_PER_OWNER L"
    and st: "st = (ownerOf owner s)\<lparr>sNext := nextSequenceString (sNext (ownerOf owner s)),
      sCount := sCount (ownerOf owner s) + 1, sBytes := sBytes (ownerOf owner s) + int (rBodyBytes r)\<rparr>"
    and c: "cSeq c = sNext (ownerOf owner s)"
    and s': "s' = pushChange owner c (setOwner owner st (s\<lparr>records := aset k r (records s)\<rparr>))"
  shows "storeInv L s'" and "ownedRows owner s' = ownedRows owner s @ [r]" and "markers owner s' = markers owner s"
    and "records s' = records s @ [(k, r)]" and "tombstones s' = tombstones s"
proof -
  have notin: "k \<notin> fst ` set (records s)" "k \<notin> fst ` set (tombstones s)"
    using fresh by (simp_all add: map_of_eq_None_iff)
  show rs: "records s' = records s @ [(k, r)]" by (simp add: s' aset_fresh notin)
  show ts: "tombstones s' = tombstones s" by (simp add: s')
  have ow: "ownedKey o' k \<longleftrightarrow> o' = owner" for o' using rowOk_owned [OF r] k own by auto
  have rows: "ownedRows o' s' = ownedRows o' s @ (if o' = owner then [r] else [])" for o'
    by (simp add: ownedRows_def rs ow)
  then show "ownedRows owner s' = ownedRows owner s @ [r]" by simp
  have mk: "markers o' s' = markers o' s" for o' by (simp add: markers_def ts)
  then show "markers owner s' = markers owner s" .
  have oo: "ownerOf o' s' = (if o' = owner then st else ownerOf o' s)" for o' by (simp add: s')
  have ch: "changesOf o' s' = (if o' = owner then changesOf owner s @ [c] else changesOf o' s)" for o'
    by (simp add: s')
  have "recordsOk s'" using inv r k own notin by (auto simp: storeInv_def recordsOk_def rs)
  moreover have "tombstonesOk s'" using inv notin by (auto simp: storeInv_def tombstonesOk_def rs ts)
  moreover have "countsOk s'" using inv by (auto simp: storeInv_def countsOk_def rows oo st)
  moreover have "quotasOk L s'" using inv q by (auto simp: storeInv_def quotasOk_def rows mk)
  moreover have "logsOk s'"
    using inv c logOk_append [of "ownerOf owner s" "changesOf owner s" c st]
    by (auto simp: storeInv_def logsOk_def oo ch st)
  moreover have "linked s'"
    using inv unfolding s' by (intro linked_step) (simp add: storeInv_def)
  ultimately show "storeInv L s'" by (simp add: storeInv_def)
qed

subsection \<open>Updating a row\<close>

lemma map_aset_same:
  "map_of m k = Some v \<Longrightarrow> f v' = f v \<Longrightarrow> map (\<lambda>(a, b). (a, f b)) (aset k v' m) = map (\<lambda>(a, b). (a, f b)) m"
  by (induction k v' m rule: aset.induct) (auto split: if_splits)

lemma ownedRows_map:
  "map f (ownedRows owner s) = map snd (filter (\<lambda>p. ownedKey owner (fst p)) (map (\<lambda>(a, b). (a, f b)) (records s)))"
  by (simp add: ownedRows_def filter_map comp_def case_prod_unfold)

lemma storeInv_update:
  assumes inv: "storeInv L s" and look: "map_of (records s) k = Some r"
    and r': "rowOk r'" "rOwner r' = rOwner r" "rKey r' = rKey r" "rBodyBytes r' = rBodyBytes r"
    and own: "owner = rOwner r"
    and st: "st = (ownerOf owner s)\<lparr>sNext := nextSequenceString (sNext (ownerOf owner s))\<rparr>"
    and c: "cSeq c = sNext (ownerOf owner s)"
    and s': "s' = pushChange owner c (setOwner owner st (s\<lparr>records := aset k r' (records s)\<rparr>))"
  shows "storeInv L s'"
proof -
  have k: "k = mkKey (rOwner r) (rKey r)" using inv look recordsOk_lookup by (auto simp: storeInv_def)
  have kin: "k \<in> fst ` set (records s)" using look by (force dest: map_of_SomeD)
  have rs: "records s' = aset k r' (records s)" and ts: "tombstones s' = tombstones s" by (simp_all add: s')
  have bytes: "map rBodyBytes (ownedRows o' s') = map rBodyBytes (ownedRows o' s)" for o'
    unfolding ownedRows_map rs using look r' by (simp add: map_aset_same)
  then have len: "length (ownedRows o' s') = length (ownedRows o' s)" for o' by (metis length_map)
  have mk: "markers o' s' = markers o' s" for o' by (simp add: markers_def ts)
  have oo: "ownerOf o' s' = (if o' = owner then st else ownerOf o' s)" for o' by (simp add: s')
  have ch: "changesOf o' s' = (if o' = owner then changesOf owner s @ [c] else changesOf o' s)" for o'
    by (simp add: s')
  have mem: "p \<in> set (aset k r' m) \<Longrightarrow> p = (k, r') \<or> p \<in> set m" for p m
    by (induction k r' m rule: aset.induct) (auto split: if_splits)
  have "recordsOk s'" using inv r' k mem by (fastforce simp: storeInv_def recordsOk_def rs)
  moreover have "tombstonesOk s'" using inv kin by (auto simp: storeInv_def tombstonesOk_def rs ts)
  moreover have "countsOk s'" using inv by (auto simp: storeInv_def countsOk_def bytes len oo st)
  moreover have "quotasOk L s'" using inv by (auto simp: storeInv_def quotasOk_def bytes len mk)
  moreover have "logsOk s'"
    using inv c logOk_append [of "ownerOf owner s" "changesOf owner s" c st]
    by (auto simp: storeInv_def logsOk_def oo ch st)
  moreover have "linked s'"
    using inv unfolding s' by (intro linked_step) (simp add: storeInv_def)
  ultimately show ?thesis by (simp add: storeInv_def)
qed

end
