(* ===== verification/StoreSteps.thy ===== *)
theory StoreSteps
  imports StoreInv
begin

section \<open>Every operation of the memory repository keeps the invariant\<close>

text \<open>
  The three updates of the memory repository that take something away: a row replaced by its
  deletion marker, a marker written again, and an owner cleared. Each keeps \<open>storeInv\<close>.
\<close>

subsection \<open>Removing a row\<close>

lemma map_of_split:
  assumes "distinct (map fst m)" "map_of m k = Some v"
  obtains a b where "m = a @ (k, v) # b" "adel k m = a @ b"
proof -
  obtain a b where m: "m = a @ (k, v) # b"
    using assms(2) by (meson map_of_SomeD split_list)
  then have "\<forall>p \<in> set (a @ b). fst p \<noteq> k" using assms(1) by force
  then have "adel k m = a @ b" using m by (simp add: adel_def)
  then show thesis using m that by blast
qed

lemma storeInv_remove:
  assumes inv: "storeInv L s" and look: "map_of (records s) k = Some r" and own: "owner = rOwner r"
    and st: "st = (ownerOf owner s)\<lparr>sNext := nextSequenceString (sNext (ownerOf owner s)),
      sCount := sCount (ownerOf owner s) - 1, sBytes := sBytes (ownerOf owner s) - int (rBodyBytes r)\<rparr>"
    and c: "cSeq c = sNext (ownerOf owner s)"
    and s': "s' = pushChange owner c (setOwner owner st
      (s\<lparr>records := adel k (records s), tombstones := aset k t (tombstones s)\<rparr>))"
  shows "storeInv L s'"
proof -
  have rk: "rowOk r" "k = mkKey (rOwner r) (rKey r)"
    using inv look recordsOk_lookup by (auto simp: storeInv_def)
  have rec: "recordsOk s" and tomb: "tombstonesOk s" using inv by (simp_all add: storeInv_def)
  obtain a b where ab: "records s = a @ (k, r) # b" "adel k (records s) = a @ b"
    using map_of_split [OF _ look] rec unfolding recordsOk_def by blast
  have kin: "k \<in> fst ` set (records s)" by (simp add: ab)
  then have knot: "k \<notin> fst ` set (tombstones s)" using tomb by (auto simp: tombstonesOk_def)
  have rs: "records s' = a @ b" using ab(2) by (simp add: s')
  have ts: "tombstones s' = tombstones s @ [(k, t)]" by (simp add: s' aset_fresh knot)
  have ow: "ownedKey o' k \<longleftrightarrow> o' = owner" for o' using rowOk_owned [OF rk(1)] rk(2) own by auto
  have rows: "map rBodyBytes (ownedRows o' s) =
      map rBodyBytes (map snd (filter (\<lambda>p. ownedKey o' (fst p)) a)) @ (if o' = owner then [rBodyBytes r] else [])
      @ map rBodyBytes (map snd (filter (\<lambda>p. ownedKey o' (fst p)) b))" for o'
    by (simp add: ownedRows_def ab ow)
  have rows': "map rBodyBytes (ownedRows o' s') =
      map rBodyBytes (map snd (filter (\<lambda>p. ownedKey o' (fst p)) a))
      @ map rBodyBytes (map snd (filter (\<lambda>p. ownedKey o' (fst p)) b))" for o'
    by (simp add: ownedRows_def rs)
  have sum: "sum_list (map rBodyBytes (ownedRows o' s)) =
      sum_list (map rBodyBytes (ownedRows o' s')) + (if o' = owner then rBodyBytes r else 0)" for o'
    unfolding rows rows' by simp
  have len: "length (ownedRows o' s) = length (ownedRows o' s') + (if o' = owner then 1 else 0)" for o'
    using arg_cong [OF rows, of length] arg_cong [OF rows', of length] by simp
  have mk: "markers o' s' = markers o' s + (if o' = owner then 1 else 0)" for o'
    by (simp add: markers_def ts ow)
  have oo: "ownerOf o' s' = (if o' = owner then st else ownerOf o' s)" for o' by (simp add: s')
  have ch: "changesOf o' s' = (if o' = owner then changesOf owner s @ [c] else changesOf o' s)" for o'
    by (simp add: s')
  have "recordsOk s'" using rec by (auto simp: recordsOk_def rs ab)
  moreover have "tombstonesOk s'"
    using tomb rec knot rowOk_key [OF rk(1)] rk(2) by (auto simp: tombstonesOk_def recordsOk_def rs ts ab)
  moreover have "countsOk s'" using inv by (auto simp: storeInv_def countsOk_def sum len oo st)
  moreover have "quotasOk L s'"
    unfolding quotasOk_def
  proof
    fix o'
    have "length (ownedRows o' s) \<le> MAX_RECORDS_PER_OWNER L"
      "sum_list (map rBodyBytes (ownedRows o' s)) \<le> MAX_BYTES_PER_OWNER L"
      "length (ownedRows o' s) + markers o' s \<le> MAX_RESERVED_RECORD_KEYS_PER_OWNER L"
      using inv by (simp_all add: storeInv_def quotasOk_def)
    then show "length (ownedRows o' s') \<le> MAX_RECORDS_PER_OWNER L
      \<and> sum_list (map rBodyBytes (ownedRows o' s')) \<le> MAX_BYTES_PER_OWNER L
      \<and> length (ownedRows o' s') + markers o' s' \<le> MAX_RESERVED_RECORD_KEYS_PER_OWNER L"
      using sum [of o'] len [of o'] mk [of o'] by (simp split: if_splits)
  qed
  moreover have "logsOk s'"
    using inv c logOk_append [of "ownerOf owner s" "changesOf owner s" c st]
    by (auto simp: storeInv_def logsOk_def oo ch st)
  moreover have "linked s'"
    using inv unfolding s' by (intro linked_step) (simp add: storeInv_def)
  ultimately show ?thesis by (simp add: storeInv_def)
qed

lemma markers_keys: "markers o' x = length (filter (ownedKey o') (map fst (tombstones x)))"
  by (simp add: markers_def filter_map comp_def)

text \<open>Deleting an already deleted key only writes its marker and the log.\<close>

lemma storeInv_remark:
  assumes inv: "storeInv L s" and look: "map_of (tombstones s) k \<noteq> None"
    and st: "st = (ownerOf owner s)\<lparr>sNext := nextSequenceString (sNext (ownerOf owner s))\<rparr>"
    and c: "cSeq c = sNext (ownerOf owner s)"
    and s': "s' = pushChange owner c (setOwner owner st (s\<lparr>tombstones := aset k t (tombstones s)\<rparr>))"
  shows "storeInv L s'"
proof -
  have kin: "k \<in> fst ` set (tombstones s)" using look by (force dest: map_of_SomeD)
  have rs: "records s' = records s" and ts: "tombstones s' = aset k t (tombstones s)" by (simp_all add: s')
  have keys: "map fst (tombstones s') = map fst (tombstones s)" by (simp add: ts keys_aset kin)
  have rows: "ownedRows o' s' = ownedRows o' s" for o' by (simp add: ownedRows_def rs)
  have mk: "markers o' s' = markers o' s" for o' by (simp only: markers_keys keys)
  have oo: "ownerOf o' s' = (if o' = owner then st else ownerOf o' s)" for o' by (simp add: s')
  have ch: "changesOf o' s' = (if o' = owner then changesOf owner s @ [c] else changesOf o' s)" for o'
    by (simp add: s')
  have "recordsOk s'" using inv by (simp add: storeInv_def recordsOk_def rs)
  moreover have "tombstonesOk s'"
    using inv keys by (metis storeInv_def tombstonesOk_def rs list.set_map)
  moreover have "countsOk s'" using inv by (auto simp: storeInv_def countsOk_def rows oo st)
  moreover have "quotasOk L s'" using inv by (simp add: storeInv_def quotasOk_def rows mk)
  moreover have "logsOk s'"
    using inv c logOk_append [of "ownerOf owner s" "changesOf owner s" c st]
    by (auto simp: storeInv_def logsOk_def oo ch st)
  moreover have "linked s'"
    using inv unfolding s' by (intro linked_step) (simp add: storeInv_def)
  ultimately show ?thesis by (simp add: storeInv_def)
qed

subsection \<open>Clearing an owner\<close>

lemma length_filter_mono: "(\<And>x. P x \<Longrightarrow> Q x) \<Longrightarrow> length (filter P xs) \<le> length (filter Q xs)"
  by (induction xs) (auto simp: le_SucI)

lemma storeInv_clear:
  assumes inv: "storeInv L s" and st: "sNext st = sNext (ownerOf owner s)" "sCount st = 0" "sBytes st = 0"
    and cs: "cs = changesOf owner s \<or> cs = []"
    and s1: "records s' = filter (\<lambda>(k, r). \<not> ownedKey owner k) (records s)"
      "tombstones s' = filter (\<lambda>(k, t). \<not> ownedKey owner k) (tombstones s)"
    and oo: "\<And>o'. ownerOf o' s' = (if o' = owner then st else ownerOf o' s)"
    and ch: "\<And>o'. changesOf o' s' = (if o' = owner then cs else changesOf o' s)"
    and lk: "linked s'"
  shows "storeInv L s'"
proof -
  have rec: "recordsOk s" and tomb: "tombstonesOk s" using inv by (simp_all add: storeInv_def)
  have keys: "ownedKey o' k \<Longrightarrow> ownedKey owner k \<Longrightarrow> o' = owner"
    if "k \<in> fst ` set (records s) \<or> k \<in> fst ` set (tombstones s)" for o' k
  proof -
    from that have "\<exists>a x. noNul a \<and> noNul x \<and> k = mkKey a x"
    proof
      assume "k \<in> fst ` set (records s)"
      then obtain r where "(k, r) \<in> set (records s)" by auto
      then have "rowOk r" "k = mkKey (rOwner r) (rKey r)" using rec by (auto simp: recordsOk_def)
      then show ?thesis using rowOk_key by blast
    next
      assume "k \<in> fst ` set (tombstones s)"
      then have "goodKey k" using tomb unfolding tombstonesOk_def by blast
      then show ?thesis unfolding goodKey_def using identityKeyRe_noNul hex64Re_noNul by blast
    qed
    then show "ownedKey o' k \<Longrightarrow> ownedKey owner k \<Longrightarrow> o' = owner" by (auto simp: ownedKey_mkKey)
  qed
  have rows: "ownedRows o' s' = (if o' = owner then [] else ownedRows o' s)" for o'
  proof -
    have "filter (\<lambda>p. ownedKey o' (fst p)) (records s') =
        (if o' = owner then [] else filter (\<lambda>p. ownedKey o' (fst p)) (records s))"
      unfolding s1 filter_filter using keys
      by (auto simp: case_prod_unfold filter_empty_conv intro!: filter_cong)
    then show ?thesis by (simp add: ownedRows_def)
  qed
  have mk: "markers o' s' \<le> markers o' s" for o'
    unfolding markers_def s1 filter_filter by (rule length_filter_mono) simp
  have "recordsOk s'" using rec by (auto simp: recordsOk_def s1 distinct_map_filter)
  moreover have "tombstonesOk s'"
    using tomb by (auto simp: tombstonesOk_def s1 distinct_map_filter)
  moreover have "countsOk s'" using inv st by (auto simp: storeInv_def countsOk_def rows oo)
  moreover have "quotasOk L s'"
    unfolding quotasOk_def
  proof
    fix o'
    have "length (ownedRows o' s) \<le> MAX_RECORDS_PER_OWNER L"
      "sum_list (map rBodyBytes (ownedRows o' s)) \<le> MAX_BYTES_PER_OWNER L"
      "length (ownedRows o' s) + markers o' s \<le> MAX_RESERVED_RECORD_KEYS_PER_OWNER L"
      using inv by (simp_all add: storeInv_def quotasOk_def)
    then show "length (ownedRows o' s') \<le> MAX_RECORDS_PER_OWNER L
      \<and> sum_list (map rBodyBytes (ownedRows o' s')) \<le> MAX_BYTES_PER_OWNER L
      \<and> length (ownedRows o' s') + markers o' s' \<le> MAX_RESERVED_RECORD_KEYS_PER_OWNER L"
      using mk [of o'] by (auto simp: rows)
  qed
  moreover have "logsOk s'"
  proof -
    have "logOk st (changesOf owner s)"
      using inv st logOk_owner by (auto simp: storeInv_def logsOk_def)
    then have "logOk st cs" using cs by (auto simp: logOk_def seqNats_def)
    then show ?thesis using inv by (simp add: storeInv_def logsOk_def oo ch)
  qed
  ultimately show ?thesis using lk by (simp add: storeInv_def)
qed

end
