(* ===== verification/StoreOps.thy ===== *)
theory StoreOps
  imports StoreSteps
begin

section \<open>Every operation of the memory repository keeps the invariant\<close>

text \<open>
  The preservation of \<open>storeInv\<close> by each write operation, on every branch, errors and injected
  failures included; then the step relation over all operations, whose reachable states satisfy
  the invariant.
\<close>

subsection \<open>Archiving\<close>

abbreviation keyOf :: "jsstr \<Rightarrow> outcome \<Rightarrow> jsstr" where
  "keyOf owner x \<equiv> mkKey owner (strOf (oKey x))"

lemma delivery_known: "js ''prepared'' \<in> set DELIVERY_STATES" "js ''received'' \<in> set DELIVERY_STATES"
  by (simp_all add: DELIVERY_STATES_def)

lemma newRow_ok:
  assumes v: "validateArchiveInput (Str owner) ep r oe = Valid hash key bytes"
    and x: "oKey x = Str key" "oHash x = Some hash" "oBytes x = bytes" "oSrc x = r"
  shows "rowOk (newRow owner now x seq)" "strOf (oKey x) = key"
proof -
  obtain dir box sdr rcp mid bdy where f: "field r ''direction'' = Str dir" "field r ''messageBox'' = Str box"
      "field r ''sender'' = Str sdr" "field r ''recipient'' = Str rcp" "field r ''messageId'' = Str mid"
      "field r ''body'' = Str bdy" "bytes = utf8ByteLength bdy" "bytes \<le> MAX_BODY_BYTES"
      "hash = sha256Hex (utf8Bytes bdy)"
    and k: "canonicalRecordKey (Str owner) (Str dir) (Str box) (Str sdr) (Str rcp) (Str mid) = Inr key"
    and d: "dir = js ''inbound'' \<and> rcp = owner \<or> dir = js ''outbound'' \<and> sdr = owner"
    and ik: "isIdentityKey (Str owner)"
    and ds: "field r ''deliveryState'' \<in> {Undefined, Str (js ''prepared''), Str (js ''received'')}"
    by (rule validateArchiveInput_Valid [OF v])
  have "key = sha256Hex (recordPreimage owner dir box sdr rcp mid)"
    using k by (auto simp: canonicalRecordKey_Inr)
  moreover have "initialDelivery r \<in> set DELIVERY_STATES"
    using ds delivery_known by (auto simp: initialDelivery_def strOf_def)
  moreover have "identityKeyRe owner" using ik by (simp add: isIdentityKey_def)
  ultimately show "rowOk (newRow owner now x seq)"
    using f d x by (auto simp: rowOk_def newRow_def strOf_def)
  show "strOf (oKey x) = key" using x by (simp add: strOf_def)
qed

definition withinQuota :: "store_limits \<Rightarrow> projection \<Rightarrow> bool" where
  "withinQuota L p \<longleftrightarrow> pCount p \<le> int (MAX_RECORDS_PER_OWNER L) \<and> pBytes p \<le> int (MAX_BYTES_PER_OWNER L)
     \<and> pReserved p \<le> int (MAX_RESERVED_RECORD_KEYS_PER_OWNER L)"

text \<open>What planning one item tells of it.\<close>

lemma planItem_cases:
  assumes "planItem e L owner ep i r p = (x, p1)"
  shows "oKind x \<noteq> Stored \<and> plProj p1 = plProj p \<and> plPending p1 = plPending p
       \<and> sameCore (plStore p) (plStore p1)
     \<or> oKind x = Stored \<and> plStore p1 = plStore p
       \<and> (\<forall>now seq. rowOk (newRow owner now x seq))
       \<and> (\<exists>c. plPending p1 = aset (keyOf owner x) c (plPending p))
       \<and> map_of (plPending p) (keyOf owner x) = None \<and> map_of (records (plStore p)) (keyOf owner x) = None
       \<and> map_of (tombstones (plStore p)) (keyOf owner x) = None
       \<and> plProj p1 = \<lparr>pCount = pCount (plProj p) + 1, pBytes = pBytes (plProj p) + int (oBytes x),
           pReserved = pReserved (plProj p) + 1\<rparr>
       \<and> withinQuota L (plProj p1)"
proof (cases "validateArchiveInput (Str owner) ep r (Str (sEpoch (ownerOf owner (plStore p))))")
  case Invalid
  with assms show ?thesis by (auto simp: planItem_def)
next
  case v: (Valid hash key bytes)
  define k where "k = mkKey owner key"
  define ex where "ex = (case map_of (plPending p) k of Some c \<Rightarrow> Some c
      | None \<Rightarrow> map_option rowContent (map_of (records (plStore p)) k))"
  show ?thesis
  proof (cases ex)
    case (Some c)
    then have "planItem e L owner ep i r p =
        (let out = archiveExistingOutcome i r hash key c
         in (out, if oKind out = Conflict
                  then p\<lparr>plStore := audit e owner ''immutable-conflict'' key ''same key different content'' (plStore p)\<rparr>
                  else p))"
      unfolding ex_def k_def by (simp add: planItem_def v)
    then have x: "x = archiveExistingOutcome i r hash key c"
        "p1 = p \<or> p1 = p\<lparr>plStore := audit e owner ''immutable-conflict'' key ''same key different content'' (plStore p)\<rparr>"
      using assms by (auto simp: Let_def split: if_splits)
    then show ?thesis by (auto simp: sameCore_audit)
  next
    case None
    then have n: "map_of (plPending p) k = None" "map_of (records (plStore p)) k = None"
      by (simp_all add: ex_def split: option.splits)
    show ?thesis
    proof (cases "map_of (tombstones (plStore p)) k = None
        \<and> oKind (fst (archiveAdmissionOutcome i r hash key bytes (plProj p) L)) = Stored")
      case True
      then have q: "\<not> int (MAX_RECORDS_PER_OWNER L) < pCount (plProj p) + 1"
        "\<not> int (MAX_BYTES_PER_OWNER L) < pBytes (plProj p) + int bytes"
        "\<not> int (MAX_RESERVED_RECORD_KEYS_PER_OWNER L) < pReserved (plProj p) + 1"
        by (auto simp: archiveAdmissionOutcome_def split: if_splits)
      have x: "oKey x = Str key" "oHash x = Some hash" "oBytes x = bytes" "oSrc x = r" "oKind x = Stored"
        and p1: "plProj p1 = \<lparr>pCount = pCount (plProj p) + 1, pBytes = pBytes (plProj p) + int bytes,
           pReserved = pReserved (plProj p) + 1\<rparr>" "plStore p1 = plStore p"
          "plPending p1 = aset k (contentOf r hash) (plPending p)"
        using assms v n True q by (auto simp: planItem_def k_def Let_def archiveAdmissionOutcome_def)
      have "keyOf owner x = k" using newRow_ok(2) [OF v x(1,2,3,4)] by (simp add: k_def)
      then show ?thesis
        using x p1 n q True newRow_ok(1) [OF v x(1,2,3,4)] by (auto simp: withinQuota_def)
    next
      case False
      with assms v n show ?thesis
        by (auto simp: planItem_def k_def Let_def archiveAdmissionOutcome_def split: if_splits)
    qed
  qed
qed

abbreviation storedOf :: "outcome list \<Rightarrow> outcome list" where
  "storedOf \<equiv> filter (\<lambda>x. oKind x = Stored)"

definition admissible :: "jsstr \<Rightarrow> store \<Rightarrow> outcome list \<Rightarrow> bool" where
  "admissible owner s xs \<longleftrightarrow> distinct (map (keyOf owner) xs) \<and> (\<forall>x \<in> set xs.
     (\<forall>now seq. rowOk (newRow owner now x seq))
     \<and> map_of (records s) (keyOf owner x) = None \<and> map_of (tombstones s) (keyOf owner x) = None)"

lemma admissible_sameCore: "sameCore s s' \<Longrightarrow> admissible owner s xs = admissible owner s' xs"
  by (simp add: admissible_def sameCore_def)

lemma planLoop_stored:
  assumes "planLoop e L owner ep i rs p = (outs, p2)"
  shows "sameCore (plStore p) (plStore p2) \<and> admissible owner (plStore p) (storedOf outs)
     \<and> (\<forall>x \<in> set (storedOf outs). map_of (plPending p) (keyOf owner x) = None)
     \<and> plProj p2 = \<lparr>pCount = pCount (plProj p) + int (length (storedOf outs)),
         pBytes = pBytes (plProj p) + int (sum_list (map oBytes (storedOf outs))),
         pReserved = pReserved (plProj p) + int (length (storedOf outs))\<rparr>
     \<and> (storedOf outs \<noteq> [] \<longrightarrow> withinQuota L (plProj p2))"
  using assms
proof (induction rs arbitrary: i p outs)
  case Nil
  then show ?case by (simp add: admissible_def)
next
  case (Cons r rs)
  obtain x p1 where x: "planItem e L owner ep i r p = (x, p1)" by fastforce
  obtain xs where xs: "planLoop e L owner ep (Suc i) rs p1 = (xs, p2)" and outs: "outs = x # xs"
    using Cons.prems x by (auto split: prod.splits)
  note IH = Cons.IH [OF xs] and C = planItem_cases [OF x]
  have same: "sameCore (plStore p) (plStore p1)" using C by auto
  have adm: "admissible owner (plStore p) (storedOf xs)"
    using IH admissible_sameCore [OF same] by simp
  show ?case
  proof (cases "oKind x = Stored")
    case False
    then have "plProj p1 = plProj p" "plPending p1 = plPending p" using C by auto
    with False IH adm same show ?thesis by (auto simp: outs intro: sameCore_trans)
  next
    case True
    then obtain c where s: "\<forall>now seq. rowOk (newRow owner now x seq)" and c: "plPending p1 = aset (keyOf owner x) c (plPending p)"
      and n: "map_of (plPending p) (keyOf owner x) = None" "map_of (records (plStore p)) (keyOf owner x) = None"
        "map_of (tombstones (plStore p)) (keyOf owner x) = None"
      and pr: "plProj p1 = \<lparr>pCount = pCount (plProj p) + 1, pBytes = pBytes (plProj p) + int (oBytes x),
           pReserved = pReserved (plProj p) + 1\<rparr>" and q: "withinQuota L (plProj p1)"
      using C by blast
    have pend: "\<forall>y \<in> set (storedOf xs). keyOf owner y \<noteq> keyOf owner x \<and> map_of (plPending p) (keyOf owner y) = None"
      using IH unfolding c by (auto split: if_splits)
    have "admissible owner (plStore p) (storedOf outs)"
      using adm s n pend True unfolding admissible_def outs by (auto simp: image_iff)
    moreover have "storedOf outs \<noteq> [] \<longrightarrow> withinQuota L (plProj p2)"
      using IH q by (cases "storedOf xs = []") (auto simp: withinQuota_def)
    moreover have "plProj p2 = \<lparr>pCount = pCount (plProj p) + int (length (storedOf outs)),
         pBytes = pBytes (plProj p) + int (sum_list (map oBytes (storedOf outs))),
         pReserved = pReserved (plProj p) + int (length (storedOf outs))\<rparr>"
      using IH pr True by (simp add: outs)
    moreover have "\<forall>y \<in> set (storedOf outs). map_of (plPending p) (keyOf owner y) = None"
      using pend n True by (simp add: outs)
    ultimately show ?thesis using IH same sameCore_trans by blast
  qed
qed

definition roomFor :: "store_limits \<Rightarrow> jsstr \<Rightarrow> store \<Rightarrow> outcome list \<Rightarrow> bool" where
  "roomFor L owner s xs \<longleftrightarrow> length (ownedRows owner s) + length xs \<le> MAX_RECORDS_PER_OWNER L
     \<and> sum_list (map rBodyBytes (ownedRows owner s)) + sum_list (map oBytes xs) \<le> MAX_BYTES_PER_OWNER L
     \<and> length (ownedRows owner s) + length xs + markers owner s \<le> MAX_RESERVED_RECORD_KEYS_PER_OWNER L"

lemma newRow_simps [simp]:
  "rOwner (newRow owner now x seq) = owner" "rKey (newRow owner now x seq) = strOf (oKey x)"
  "rBodyBytes (newRow owner now x seq) = oBytes x"
  by (simp_all add: newRow_def)

lemma commitItem_inv:
  assumes inv: "storeInv L s" and adm: "admissible owner s (x # xs)" and room: "roomFor L owner s (x # xs)"
    and c: "commitItem e owner x s = (x', s')"
  shows "storeInv L s' \<and> admissible owner s' xs \<and> roomFor L owner s' xs"
proof -
  define r where "r = newRow owner (eNow e) x (sNext (ownerOf owner s))"
  define st where "st = (ownerOf owner s)\<lparr>sNext := nextSequenceString (sNext (ownerOf owner s)),
      sCount := sCount (ownerOf owner s) + 1, sBytes := sBytes (ownerOf owner s) + int (rBodyBytes r)\<rparr>"
  define ch where "ch = \<lparr>cSeq = sNext (ownerOf owner s), cKey = rKey r, cKind = Upsert, cVersion = js ''1'',
                 cState = Some (rDelivery r), cDeletedAt = None, cCreatedAt = Some (eNow e)\<rparr>"
  have s': "s' = pushChange owner ch (setOwner owner st (s\<lparr>records := aset (keyOf owner x) r (records s)\<rparr>))"
    using c by (simp add: commitItem_def allocSequence_def Let_def r_def st_def ch_def)
  have r: "rowOk r" "keyOf owner x = mkKey owner (rKey r)" "rOwner r = owner"
    and n: "map_of (records s) (keyOf owner x) = None" "map_of (tombstones s) (keyOf owner x) = None"
    using adm by (auto simp: admissible_def r_def)
  have q: "length (ownedRows owner s) + 1 \<le> MAX_RECORDS_PER_OWNER L"
      "sum_list (map rBodyBytes (ownedRows owner s)) + rBodyBytes r \<le> MAX_BYTES_PER_OWNER L"
      "length (ownedRows owner s) + 1 + markers owner s \<le> MAX_RESERVED_RECORD_KEYS_PER_OWNER L"
    using room by (simp_all add: roomFor_def r_def)
  have "cSeq ch = sNext (ownerOf owner s)" by (simp add: ch_def)
  note I = storeInv_insert [OF inv r n q st_def this s']
  have "admissible owner s' xs"
    using adm unfolding admissible_def I(4,5) by (auto simp: map_add_def image_iff)
  moreover have "roomFor L owner s' xs" using room unfolding roomFor_def I(2,3) by (simp add: r_def)
  ultimately show ?thesis using I(1) by blast
qed

lemma commitLoop_inv:
  assumes "commitLoop e owner xs s = (xs', s')" "storeInv L s" "admissible owner s (storedOf xs)"
    "roomFor L owner s (storedOf xs)"
  shows "storeInv L s'"
  using assms
proof (induction xs arbitrary: s xs')
  case (Cons x xs)
  show ?case
  proof (cases "oKind x = Stored")
    case True
    obtain x1 s1 where c: "commitItem e owner x s = (x1, s1)" by fastforce
    obtain ys where "commitLoop e owner xs s1 = (ys, s')"
      using Cons.prems(1) c True by (auto split: prod.splits)
    then show ?thesis
      using Cons.IH commitItem_inv [OF Cons.prems(2) _ _ c, of "storedOf xs"] Cons.prems(3,4) True by auto
  next
    case False
    with Cons show ?thesis by (auto split: prod.splits)
  qed
qed simp

lemma ownedKey_markers: "markers owner s = length (filter (\<lambda>(k, t). ownedKey owner k) (tombstones s))"
  by (simp add: markers_def case_prod_unfold)

text \<open>What a batch plans fits the owner's quotas.\<close>

lemma planned_room:
  assumes inv: "storeInv L s" and p: "planLoop e L owner ep 0 rs
      \<lparr>plProj = \<lparr>pCount = sCount (ownerOf owner s), pBytes = sBytes (ownerOf owner s),
         pReserved = sCount (ownerOf owner s) + int (markers owner s)\<rparr>, plPending = [], plStore = s\<rparr> = (outs, p2)"
  shows "storeInv L (plStore p2)" "admissible owner (plStore p2) (storedOf outs)"
    "roomFor L owner (plStore p2) (storedOf outs)" "sameCore s (plStore p2)"
proof -
  note P = planLoop_stored [OF p]
  show same: "sameCore s (plStore p2)" using P by simp
  then show inv2: "storeInv L (plStore p2)" using inv storeInv_sameCore by blast
  show "admissible owner (plStore p2) (storedOf outs)" using P admissible_sameCore [OF same] by simp
  have rows: "ownedRows owner (plStore p2) = ownedRows owner s" "markers owner (plStore p2) = markers owner s"
    using same by (simp_all add: sameCore_def ownedRows_def markers_def)
  have c: "sCount (ownerOf owner s) = int (length (ownedRows owner s))"
    "sBytes (ownerOf owner s) = int (sum_list (map rBodyBytes (ownedRows owner s)))"
    and q: "length (ownedRows owner s) \<le> MAX_RECORDS_PER_OWNER L"
     "sum_list (map rBodyBytes (ownedRows owner s)) \<le> MAX_BYTES_PER_OWNER L"
     "length (ownedRows owner s) + markers owner s \<le> MAX_RESERVED_RECORD_KEYS_PER_OWNER L"
    using inv by (simp_all add: storeInv_def countsOk_def quotasOk_def)
  show "roomFor L owner (plStore p2) (storedOf outs)"
  proof (cases "storedOf outs = []")
    case True
    with q show ?thesis by (simp add: roomFor_def rows)
  next
    case False
    then have "withinQuota L (plProj p2)" using P by blast
    then show ?thesis using P c unfolding roomFor_def rows withinQuota_def by auto
  qed
qed

lemma ownerOf_ownerState: "ownerOf o' (snd (ownerState owner s)) = ownerOf o' s"
  by (auto simp: ownerState_def ownerOf_def agetOr_def split: option.splits)

lemma ownerState_eq: "ownerState owner s = (Inr (ownerOf owner s), snd (ownerState owner s))"
  by (metis ownerState_result prod.collapse)

lemma storeInv_ownerState: "storeInv L s \<Longrightarrow> storeInv L (snd (ownerState owner s))"
  using sameCore_ownerState storeInv_sameCore unfolding storeInv_def by blast

lemma archiveBatch_inv:
  assumes inv: "storeInv L s"
  shows "storeInv L (snd (archiveBatch e L owner ep input s))"
proof -
  define s0 where "s0 = snd (ownerState owner s)"
  have os: "ownerState owner s = (Inr (ownerOf owner s0), s0)"
    by (simp add: s0_def ownerOf_ownerState flip: ownerState_eq)
  have inv0: "storeInv L s0" using inv by (simp add: s0_def storeInv_ownerState)
  show ?thesis
  proof (cases "validateArchiveBatchBounds input L")
    case Inl
    then show ?thesis by (simp add: archiveBatch_def opBind_eq os inv0)
  next
    case (Inr rs)
    obtain outs p2 where p: "planLoop e L owner ep 0 rs
      \<lparr>plProj = \<lparr>pCount = sCount (ownerOf owner s0), pBytes = sBytes (ownerOf owner s0),
         pReserved = sCount (ownerOf owner s0) + int (markers owner s0)\<rparr>, plPending = [], plStore = s0\<rparr> = (outs, p2)"
      by fastforce
    note P = planned_room [OF inv0 p]
    obtain outs' s2 where c: "commitLoop e owner outs (plStore p2) = (outs', s2)" by fastforce
    have i2: "storeInv L s2" using commitLoop_inv [OF c P(1,2,3)] .
    have "sameCore (plStore p2) ((plStore p2)\<lparr>commitFailureOnce := b, failOnce := fs\<rparr>)" for b fs
      by (auto simp: sameCore_def ownerOf_def changesOf_def linked_def)
    then have "storeInv L ((plStore p2)\<lparr>commitFailureOnce := b, failOnce := fs\<rparr>)" for b fs
      using P(1) storeInv_sameCore by blast
    then show ?thesis
      using inv0 i2 p c
      by (cases "ep = Str (sEpoch (ownerOf owner s0))")
        (simp_all add: archiveBatch_def opBind_eq os Inr ownedKey_markers Let_def)
  qed
qed

subsection \<open>Composing operations\<close>

text \<open>An operation keeps the invariant and its result satisfies \<open>Q\<close>; the rule for sequencing.\<close>

definition keeps :: "store_limits \<Rightarrow> 'a op \<Rightarrow> ('a \<Rightarrow> store \<Rightarrow> bool) \<Rightarrow> bool" where
  "keeps L m Q \<longleftrightarrow> (\<forall>s. storeInv L s \<longrightarrow> storeInv L (snd (m s)) \<and> (\<forall>x. fst (m s) = Inr x \<longrightarrow> Q x (snd (m s))))"

abbreviation anyResult :: "'a \<Rightarrow> store \<Rightarrow> bool" where
  "anyResult \<equiv> \<lambda>_ _. True"

named_theorems keeps_rules \<open>operations that keep the invariant\<close>

lemma opUpd_bind: "opBind (opUpd f) g s = g () (f s)"
  by (simp add: opBind_eq)

lemma keepsD: "keeps L m Q \<Longrightarrow> storeInv L s \<Longrightarrow> storeInv L (snd (m s))"
  by (simp add: keeps_def)

lemma keeps_bind:
  assumes "keeps L m Q"
    and "\<And>x s. storeInv L s \<Longrightarrow> Q x s \<Longrightarrow> storeInv L (snd (f x s))"
  shows "keeps L (opBind m f) anyResult"
  unfolding keeps_def opBind_eq
proof (intro allI impI conjI)
  fix s assume s: "storeInv L s"
  obtain r s' where m: "m s = (r, s')" by fastforce
  have "storeInv L s'" "\<forall>x. r = Inr x \<longrightarrow> Q x s'" using assms(1) s m by (auto simp: keeps_def)
  then show "storeInv L (snd (case m s of (Inl e, s') \<Rightarrow> (Inl e, s') | (Inr x, s') \<Rightarrow> f x s'))"
    using assms(2) m by (cases r) auto
qed simp

lemma keeps_bind': "keeps L m anyResult \<Longrightarrow> (\<And>x. keeps L (f x) anyResult) \<Longrightarrow> keeps L (opBind m f) anyResult"
  by (rule keeps_bind) (auto simp: keeps_def)

lemma keeps_return [keeps_rules]: "keeps L (opReturn x) anyResult"
  by (simp add: keeps_def)

lemma keeps_lift [keeps_rules]: "keeps L (opLift r) anyResult" "keeps L (\<lambda>s. (g s, s)) anyResult"
  by (simp_all add: keeps_def)

lemma keeps_sameCore: "(\<And>s. linked s \<Longrightarrow> sameCore s (snd (m s))) \<Longrightarrow> keeps L m anyResult"
  using storeInv_sameCore unfolding keeps_def storeInv_def by blast

lemma keeps_checkIdempotency [keeps_rules]: "keeps L (checkIdempotency e owner key opn params) anyResult"
  by (rule keeps_sameCore) (rule sameCore_checkIdempotency)

lemma keeps_consumeFailure [keeps_rules]: "keeps L (consumeFailure p) anyResult"
  by (rule keeps_sameCore) (rule sameCore_consumeFailure)

lemma keeps_ownerState [keeps_rules]: "keeps L (ownerState owner) (\<lambda>st s. st = ownerOf owner s)"
  using storeInv_ownerState by (auto simp: keeps_def ownerState_result ownerOf_ownerState)

lemma storeInv_storeIdempotency [simp]: "storeInv L (storeIdempotency e t opn r s) = storeInv L s"
proof -
  have "sameCore s (storeIdempotency e t opn r s)" by (rule sameCore_storeIdempotency)
  moreover have "sameCore (storeIdempotency e t opn r s) s"
    by (auto simp: sameCore_def storeIdempotency_def linked_def ownerOf_def changesOf_def split: option.splits)
  ultimately show ?thesis using storeInv_sameCore by blast
qed

lemma storeInv_invalidate: 
  "storeInv L s \<Longrightarrow> storeInv L (invalidateSnapshotsForRecord owner ep key s)"
  "storeInv L s \<Longrightarrow> storeInv L (invalidateSnapshotsForEpoch owner ep s)"
  using sameCore_invalidate storeInv_sameCore by blast+

subsection \<open>Delivery state, deletion\<close>

lemma patchGuards_Inr:
  "patchGuards owner key newState erev s = Inr r \<longleftrightarrow>
     newState \<in> set DELIVERY_STATES \<and> map_of (tombstones s) (mkKey owner key) = None
     \<and> map_of (records s) (mkKey owner key) = Some r \<and> rRevision r = erev
     \<and> (rDelivery r = js ''accepted'' \<longrightarrow> newState = js ''accepted'')"
  by (auto simp: patchGuards_def result_simps split: option.splits)

lemma mkKey_row:
  assumes "storeInv L s" "map_of (records s) (mkKey owner key) = Some r" "noNul owner"
  shows "rOwner r = owner" "rKey r = key" "rowOk r"
proof -
  have r: "rowOk r" "mkKey owner key = mkKey (rOwner r) (rKey r)"
    using assms recordsOk_lookup by (auto simp: storeInv_def)
  then show "rowOk r" by simp
  have "owner = rOwner r \<and> key = rKey r"
    using r assms(3) rowOk_key mkKey_inject by blast
  then show "rOwner r = owner" "rKey r = key" by simp_all
qed

lemma rowOk_patch:
  "rowOk r \<Longrightarrow> newState \<in> set DELIVERY_STATES \<Longrightarrow>
     rowOk (r\<lparr>rDelivery := newState, rRevision := v, rChangeSequence := q\<rparr>)"
  by (simp add: rowOk_def)

lemma keeps_patchState [keeps_rules]:
  assumes o': "noNul owner"
  shows "keeps L (patchState e owner key newState erev ik) anyResult"
  unfolding patchState_def
  apply (rule keeps_bind' [OF keeps_lift(1)], clarify)
  apply (rule keeps_bind' [OF keeps_checkIdempotency])
  apply (split option.split, intro conjI impI allI)
   apply (rule keeps_bind' [OF keeps_consumeFailure])
   apply (rule keeps_bind [OF keeps_ownerState])
  subgoal for rv kk idem u st s
    apply (simp add: opBind_eq split: sum.split, intro conjI impI allI)
     apply (clarsimp simp: Let_def opUpd_bind)
    apply (clarsimp simp: Let_def allocSequence_def patchGuards_Inr opUpd_bind)
    subgoal for r
      by (rule storeInv_update [of L s "mkKey owner key" r, OF _ _ _ _ _ _ _ refl _ refl])
        (auto simp: mkKey_row [OF _ _ o'] rowOk_patch)
    done
  by (rule keeps_return)

lemma keeps_deleteRecord [keeps_rules]:
  assumes o': "noNul owner"
  shows "keeps L (deleteRecord e owner key ik) anyResult"
  unfolding deleteRecord_def
  apply (rule keeps_bind' [OF keeps_checkIdempotency])
  apply (split option.split, intro conjI impI allI)
   apply (rule keeps_bind' [OF keeps_consumeFailure])
   apply (rule keeps_bind [OF keeps_ownerState])
  subgoal for idem u st s
    apply (cases "map_of (records s) (mkKey owner key)")
     apply (clarsimp simp: Let_def allocSequence_def)
    subgoal for t
      by (rule storeInv_invalidate(1), rule storeInv_remark [of L s "mkKey owner key", OF _ _ refl _ refl]) auto
    subgoal for r
      apply (clarsimp simp: Let_def allocSequence_def)
      by (rule storeInv_invalidate(1),
          rule storeInv_remove [of L s "mkKey owner key" r, OF _ _ _ refl _ refl])
        (auto simp: mkKey_row [OF _ _ o'])
    done
  by (rule keeps_return)

lemma linked_setOwner: "linked s \<Longrightarrow> linked (setOwner owner st s)"
  by (simp add: linked_def) (simp add: setOwner_def)

lemma keeps_deleteAll [keeps_rules]: "keeps L (deleteAll e owner ik ep) anyResult"
  unfolding deleteAll_def
  apply (rule keeps_bind' [OF keeps_checkIdempotency])
  apply (split option.split, intro conjI impI allI)
   apply (rule keeps_bind' [OF keeps_lift(2)])
   apply (rule keeps_bind' [OF keeps_consumeFailure])
   apply (rule keeps_bind [OF keeps_ownerState])
  subgoal for idem u u' st s
    apply (clarsimp simp: Let_def split: sum.split, intro conjI impI allI)
    subgoal
      by (rule storeInv_clear [where owner = owner and s = s
            and st = "(ownerOf owner s)\<lparr>sCount := 0, sBytes := 0\<rparr>" and cs = "changesOf owner s"])
        (auto simp: linked_setOwner storeInv_def)
    subgoal for ep'
      apply (rule storeInv_invalidate(2))
      by (rule storeInv_clear [where owner = owner and s = s and cs = "[]"
            and st = "(ownerOf owner s)\<lparr>sCount := 0, sBytes := 0, sEpoch := ep'\<rparr>"])
        (auto simp: linked_def storeInv_def changesOf_def ownerOf_def setOwner_def)
    done
  by (rule keeps_return)

end
