(* ===== verification/StoreReach.thy ===== *)
theory StoreReach
  imports StoreOps "HOL-Library.Sublist"
begin

section \<open>Reachable states of the memory repository\<close>

text \<open>
  The remaining operations that change the store (snapshot capture, the two purges, injected
  failures and the reads, which create an owner's state), and the step relation over every
  operation. The reachable states satisfy \<open>storeInv\<close>.
\<close>

subsection \<open>Snapshots and purges\<close>

lemma sameCoreI:
  "records s' = records s \<Longrightarrow> tombstones s' = tombstones s \<Longrightarrow> owners s' = owners s \<Longrightarrow> changes s' = changes s
     \<Longrightarrow> sameCore s s'"
  by (simp add: sameCore_def ownerOf_def changesOf_def linked_def)

lemma storeInv_snapshots [simp]:
  "storeInv L (s\<lparr>snapshots := a, snapshotItems := b\<rparr>) = storeInv L s"
  "storeInv L (s\<lparr>purgePositions := c\<rparr>) = storeInv L s"
  "storeInv L (s\<lparr>commitFailureOnce := d\<rparr>) = storeInv L s" "storeInv L (s\<lparr>failOnce := f\<rparr>) = storeInv L s"
  by (rule iffI; rule storeInv_sameCore, rule sameCoreI, auto)+

lemma keeps_createSnapshot [keeps_rules]: "keeps L (createSnapshot e owner flt) anyResult"
  unfolding createSnapshot_def
  by (rule keeps_bind' [OF keeps_lift(1)], rule keeps_bind [OF keeps_ownerState])
    (simp add: Let_def split: sum.split)

lemma purgeSnapLoop_frame:
  "purgeSnapLoop b now ms a ni ns s = (r, s') \<Longrightarrow>
     records s' = records s \<and> tombstones s' = tombstones s \<and> owners s' = owners s \<and> changes s' = changes s"
proof (induction ms arbitrary: a ni ns s r s')
  case (Cons x ms)
  obtain sid m where x: "x = (sid, m)" by fastforce
  obtain items a' ni' where sp: "spliceLoop b a (agetOr [] sid (snapshotItems s)) ni = (items, a', ni')"
    by (metis prod_cases3)
  show ?case
    using Cons.prems unfolding x
    by (auto simp: Let_def sp split: if_splits dest!: Cons.IH)
qed simp

lemma purgeSnapLoop_same: "purgeSnapLoop b now ms a ni ns s = (r, s') \<Longrightarrow> sameCore s s'"
  by (rule sameCoreI) (auto dest: purgeSnapLoop_frame)

lemma keeps_purgeExpiredSnapshots [keeps_rules]: "keeps L (purgeExpiredSnapshots now b mi ms) anyResult"
  unfolding purgeExpiredSnapshots_def
  apply (rule keeps_bind' [OF keeps_consumeFailure])
  apply (rule keeps_sameCore)
  by (auto simp: Let_def split: prod.split dest: purgeSnapLoop_same)

text \<open>What the removal keeps is a subsequence of the log.\<close>

lemma removeFold_subseq:
  "snd (fold (\<lambda>c (k, kept). if 0 < k \<and> c \<in> vs then (k - 1, kept) else (k, kept @ [c])) xs (n, ys)) = zs
     \<Longrightarrow> \<exists>ws. zs = ys @ ws \<and> subseq ws xs"
proof (induction xs arbitrary: n ys)
  case (Cons x xs)
  show ?case
  proof (cases "0 < n \<and> x \<in> vs")
    case True
    with Cons.prems Cons.IH [of "n - 1" ys] show ?thesis by auto
  next
    case False
    with Cons.prems Cons.IH [of n "ys @ [x]"] show ?thesis by auto
  qed
qed simp

lemma subseq_rev: "subseq xs ys \<Longrightarrow> subseq (rev xs) (rev ys)"
proof (induction rule: list_emb.induct)
  case (list_emb_Cons2 x y xs ys)
  then show ?case using subseq_append [of "rev xs" "[x]" "rev ys"] by simp
qed (auto intro: subseq_rev_drop_many)

lemma removeBatch_subseq: "subseq (removeBatch n vs arr) arr"
proof -
  obtain ws where "snd (fold (\<lambda>c (k, kept). if 0 < k \<and> c \<in> vs then (k - 1, kept) else (k, kept @ [c])) (rev arr) (n, [])) = ws"
    "subseq ws (rev arr)"
    using removeFold_subseq [OF refl, of vs "rev arr" n "[]"] by auto
  then show ?thesis using subseq_rev by (fastforce simp: removeBatch_def)
qed

lemma removeLoop_subseq: "removeLoop fuel b a vs arr n = (arr', x, y) \<Longrightarrow> subseq arr' arr"
proof (induction fuel arbitrary: a vs arr n)
  case (Suc fuel)
  then show ?case
    by (auto simp: Let_def split: if_splits dest!: Suc.IH
        intro: removeBatch_subseq subseq_order.order_trans [OF _ removeBatch_subseq])
qed simp

lemma subseq_set: "subseq xs ys \<Longrightarrow> set xs \<subseteq> set ys"
  by (auto elim: list_emb_set)

lemma logOk_subseq:
  assumes "logOk st cs" "subseq ds cs"
  shows "logOk st ds"
proof -
  have "set ds \<subseteq> set cs" using assms(2) by (auto elim: list_emb_set)
  moreover have "sorted_wrt (<) (seqNats ds)"
  proof -
    have s: "subseq (seqNats ds) (seqNats cs)" unfolding seqNats_def by (rule subseq_map [OF assms(2)])
    have "sorted_wrt (<) ys \<Longrightarrow> subseq xs ys \<Longrightarrow> sorted_wrt (<) xs" for xs ys :: "nat list"
    proof (induction ys arbitrary: xs)
      case (Cons y ys)
      show ?case
      proof (cases "\<exists>zs. xs = y # zs \<and> subseq zs ys")
        case True
        then obtain zs where "xs = y # zs" "subseq zs ys" by blast
        then show ?thesis using Cons.IH Cons.prems(1) subseq_set by fastforce
      next
        case False
        then have "subseq xs ys" using Cons.prems(2) by (cases xs) (auto split: if_splits)
        then show ?thesis using Cons by simp
      qed
    qed (auto dest: list_emb_Nil2)
    then show ?thesis using s assms(1) unfolding logOk_def by blast
  qed
  ultimately show ?thesis using assms(1) by (auto simp: logOk_def)
qed

lemma storeInv_changes:
  assumes inv: "storeInv L s" and arr: "subseq arr (changesOf own s)"
  shows "storeInv L (s\<lparr>changes := aset own arr (changes s)\<rparr>)"
proof -
  let ?s = "s\<lparr>changes := aset own arr (changes s)\<rparr>"
  have ch: "changesOf o' ?s = (if o' = own then arr else changesOf o' s)" "ownerOf o' ?s = ownerOf o' s" for o'
    by (simp_all add: changesOf_def ownerOf_def)
  have "logsOk ?s" using inv logOk_subseq [OF _ arr] by (auto simp: storeInv_def logsOk_def ch)
  moreover have "linked ?s" using inv arr by (auto simp: storeInv_def linked_def ch)
  ultimately show ?thesis
    using inv by (simp add: storeInv_def recordsOk_def tombstonesOk_def countsOk_def quotasOk_def
        ownedRows_def markers_def ch)
qed

lemma advancePurge_eq: "\<exists>pp. advancePurge own ordered q s = s\<lparr>purgePositions := pp\<rparr>"
  by (auto simp: advancePurge_def split: option.split)

lemma storeInv_purged:
  assumes "storeInv L s" "removeLoop fuel b a vs (changesOf own s) n = (arr, x)" "s1 = advancePurge own ordered q s"
  shows "storeInv L (if map_of (changes s1) own = None then s1 else s1\<lparr>changes := aset own arr (changes s1)\<rparr>)"
proof -
  obtain pp where "s1 = s\<lparr>purgePositions := pp\<rparr>" using assms(3) advancePurge_eq by blast
  then have "storeInv L s1" "changesOf own s1 = changesOf own s" using assms(1) by (simp_all add: changesOf_def)
  moreover have "subseq arr (changesOf own s)" using assms(2) removeLoop_subseq by (cases x) auto
  ultimately show ?thesis using storeInv_changes [of L s1 arr own] by simp
qed

lemma keeps_purgeExpiredChanges [keeps_rules]:
  "keeps L (purgeExpiredChanges dateParse owner now b mi) anyResult"
proof -
  have "storeInv L (snd (purgeExpiredChanges dateParse owner now b mi s))" if inv: "storeInv L s" for s
  proof -
    obtain bo bu x where b: "boundPurgeParams b mi (Some 100) = (bo, bu, x)" by (metis prod_cases3)
    show ?thesis
    proof (cases "retentionCutoffIso dateParse now")
      case Inl
      with inv b show ?thesis by (simp add: purgeExpiredChanges_def)
    next
      case (Inr cutoff)
      show ?thesis
      proof (cases owner)
        case None
        then show ?thesis using inv b Inr by (simp add: purgeExpiredChanges_def split: prod.split)
      next
        case (Some own)
        show ?thesis
          unfolding purgeExpiredChanges_def b Inr Some sum.case option.case prod.case Let_def
          by (simp only: snd_conv split: prod.split) (intro allI impI storeInv_purged [OF inv], auto)
      qed
    qed
  qed
  then show ?thesis by (simp add: keeps_def)
qed

subsection \<open>Steps and reachable states\<close>

text \<open>One call of the adapter's interface, with any arguments, clock and random draws. The service
  passes the authenticated identity key as the owner of a mutation, so it holds no NUL unit.\<close>

inductive storeStep :: "store_limits \<Rightarrow> store \<Rightarrow> store \<Rightarrow> bool" for L :: store_limits where
  step_archive: "storeStep L s (snd (archiveBatch e L owner ep input s))"
| step_patch: "noNul owner \<Longrightarrow> storeStep L s (snd (patchState e owner key st erev ik s))"
| step_delete: "noNul owner \<Longrightarrow> storeStep L s (snd (deleteRecord e owner key ik s))"
| step_deleteAll: "storeStep L s (snd (deleteAll e owner ik xp s))"
| step_snapshot: "storeStep L s (snd (createSnapshot e owner flt s))"
| step_purgeSnapshots: "storeStep L s (snd (purgeExpiredSnapshots now b mi ms s))"
| step_purgeChanges: "storeStep L s (snd (purgeExpiredChanges dp own now b mi s))"
| step_usage: "storeStep L s (snd (getUsage owner s))"
| step_stats: "storeStep L s (snd (getStorageStats ov s))"
| step_changes: "storeStep L s (snd (listChangesPage ov fa s))"
| step_injectCommit: "storeStep L s (injectCommitFailureOnce s)"
| step_inject: "storeStep L s (snd (injectFailureOnce name s))"

inductive storeReach :: "store_limits \<Rightarrow> store \<Rightarrow> bool" for L :: store_limits where
  reach_empty: "storeReach L emptyStore"
| reach_step: "storeReach L s \<Longrightarrow> storeStep L s s' \<Longrightarrow> storeReach L s'"

lemma keeps_reads [keeps_rules]:
  "keeps L (getUsage owner) anyResult" "keeps L (getStorageStats ov) anyResult"
  "keeps L (listChangesPage ov fa) anyResult"
proof -
  show u: "keeps L (getUsage owner) anyResult" for owner
    unfolding getUsage_def by (rule keeps_bind [OF keeps_ownerState]) simp
  show "keeps L (getStorageStats ov) anyResult"
    unfolding getStorageStats_def by (rule keeps_bind' [OF keeps_lift(1)], rule keeps_bind' [OF u], rule keeps_lift(2))
  show "keeps L (listChangesPage ov fa) anyResult"
    unfolding listChangesPage_def
    by (rule keeps_bind' [OF keeps_lift(1)], rule keeps_bind' [OF keeps_lift(1)], rule keeps_bind' [OF keeps_lift(1)],
        rule keeps_bind [OF keeps_ownerState]) simp
qed

lemma storeInv_inject: "storeInv L s \<Longrightarrow> storeInv L (snd (injectFailureOnce name s))"
  by (simp add: injectFailureOnce_def split: list.split)

lemma storeStep_inv: "storeStep L s s' \<Longrightarrow> storeInv L s \<Longrightarrow> storeInv L s'"
  by (induction rule: storeStep.induct)
    (simp_all add: archiveBatch_inv storeInv_inject injectCommitFailureOnce_def keepsD [OF keeps_patchState]
      keepsD [OF keeps_deleteRecord] keepsD [OF keeps_deleteAll] keepsD [OF keeps_createSnapshot]
      keepsD [OF keeps_purgeExpiredSnapshots] keepsD [OF keeps_purgeExpiredChanges] keepsD [OF keeps_reads(1)]
      keepsD [OF keeps_reads(2)] keepsD [OF keeps_reads(3)])

lemma storeReach_inv: "storeReach L s \<Longrightarrow> storeInv L s"
  by (induction rule: storeReach.induct) (auto intro: storeInv_empty storeStep_inv)

end
