(* ===== verification/ArchiveProps.thy ===== *)
theory ArchiveProps
  imports StoreReach
begin

section \<open>What archiving a batch does\<close>

text \<open>
  The functional behaviour of \<open>archiveBatch\<close>: the rows, change rows and sequence numbers a
  committed batch adds, a batch that does not commit changes nothing, and a batch sent again
  stores nothing twice.
\<close>

subsection \<open>Phase two\<close>

definition newRows :: "jsstr \<Rightarrow> jsstr \<Rightarrow> nat \<Rightarrow> outcome list \<Rightarrow> (jsstr \<times> row) list" where
  "newRows owner now n xs = map (\<lambda>(i, x). (keyOf owner x, newRow owner now x (decOfNat i))) (enumerate n (storedOf xs))"

definition upsertOf :: "row \<Rightarrow> change" where
  "upsertOf r = \<lparr>cSeq = rChangeSequence r, cKey = rKey r, cKind = Upsert, cVersion = js ''1'',
     cState = Some (rDelivery r), cDeletedAt = None, cCreatedAt = Some (rCreatedAt r)\<rparr>"

lemma newRow_times [simp]:
  "rChangeSequence (newRow owner now x seq) = seq" "rCreatedAt (newRow owner now x seq) = now"
  "rRevision (newRow owner now x seq) = js ''1''"
  by (simp_all add: newRow_def)

lemma commitItem_eq:
  assumes "sNext (ownerOf owner s) = decOfNat n"
  shows "commitItem e owner x s = (x\<lparr>oSeq := Some (decOfNat n), oSrc := Undefined\<rparr>,
    let r = newRow owner (eNow e) x (decOfNat n); st = ownerOf owner s in
    pushChange owner (upsertOf r) (setOwner owner (st\<lparr>sNext := decOfNat (Suc n), sCount := sCount st + 1,
      sBytes := sBytes st + int (oBytes x)\<rparr>) (s\<lparr>records := aset (keyOf owner x) r (records s)\<rparr>)))"
  by (simp add: commitItem_def allocSequence_def assms upsertOf_def Let_def)

definition committedOutcome :: "outcome \<Rightarrow> outcome \<Rightarrow> bool" where
  "committedOutcome x y \<longleftrightarrow> oIndex y = oIndex x \<and> oKey y = oKey x \<and> oKind y = oKind x \<and> oError y = oError x
     \<and> oHash y = oHash x \<and> oBytes y = oBytes x \<and> (oKind x \<noteq> Stored \<longrightarrow> y = x)"

definition commits :: "jsstr \<Rightarrow> jsstr \<Rightarrow> nat \<Rightarrow> outcome list \<Rightarrow> store \<Rightarrow> outcome list \<Rightarrow> store \<Rightarrow> bool" where
  "commits owner now n xs s ys s' \<longleftrightarrow>
     records s' = records s @ newRows owner now n xs \<and> tombstones s' = tombstones s
     \<and> changesOf owner s' = changesOf owner s @ map (upsertOf \<circ> snd) (newRows owner now n xs)
     \<and> (\<forall>o'. o' \<noteq> owner \<longrightarrow> changesOf o' s' = changesOf o' s \<and> ownerOf o' s' = ownerOf o' s)
     \<and> sNext (ownerOf owner s') = decOfNat (n + length (storedOf xs))
     \<and> sEpoch (ownerOf owner s') = sEpoch (ownerOf owner s)
     \<and> sCount (ownerOf owner s') = sCount (ownerOf owner s) + int (length (storedOf xs))
     \<and> sBytes (ownerOf owner s') = sBytes (ownerOf owner s) + int (sum_list (map oBytes (storedOf xs)))
     \<and> list_all2 committedOutcome xs ys
     \<and> map oSeq (storedOf ys) = map (\<lambda>i. Some (decOfNat i)) [n..<n + length (storedOf xs)]"

lemma commits_skip:
  "oKind x \<noteq> Stored \<Longrightarrow> commits owner now n xs s ys s' \<Longrightarrow> commits owner now n (x # xs) s (x # ys) s'"
  by (simp add: commits_def newRows_def committedOutcome_def)

lemma commits_step:
  assumes x: "oKind x = Stored" and k: "keyOf owner x \<notin> fst ` set (records s)"
    and r: "r = newRow owner now x (decOfNat n)"
    and s1: "s1 = pushChange owner (upsertOf r) (setOwner owner st (s\<lparr>records := aset (keyOf owner x) r (records s)\<rparr>))"
    and st: "sEpoch st = sEpoch (ownerOf owner s)" "sCount st = sCount (ownerOf owner s) + 1"
      "sBytes st = sBytes (ownerOf owner s) + int (oBytes x)"
    and c: "commits owner now (Suc n) xs s1 ys s'"
  shows "commits owner now n (x # xs) s (x\<lparr>oSeq := Some (decOfNat n), oSrc := Undefined\<rparr> # ys) s'"
  using c x k st unfolding commits_def s1 r
  by (simp add: newRows_def committedOutcome_def aset_fresh upt_conv_Cons del: upt_Suc)

lemma commitLoop_commits:
  assumes "commitLoop e owner xs s = (ys, s')" "admissible owner s (storedOf xs)" "sNext (ownerOf owner s) = decOfNat n"
  shows "commits owner (eNow e) n xs s ys s'"
  using assms
proof (induction xs arbitrary: s ys n)
  case Nil
  then show ?case by (simp add: commits_def newRows_def)
next
  case (Cons x xs)
  show ?case
  proof (cases "oKind x = Stored")
    case False
    then obtain zs where "commitLoop e owner xs s = (zs, s')" "ys = x # zs"
      using Cons.prems(1) by (auto split: prod.splits)
    then show ?thesis using Cons.IH Cons.prems(2,3) False by (auto intro: commits_skip)
  next
    case True
    define r where "r = newRow owner (eNow e) x (decOfNat n)"
    define st where "st = (ownerOf owner s)\<lparr>sNext := decOfNat (Suc n), sCount := sCount (ownerOf owner s) + 1,
      sBytes := sBytes (ownerOf owner s) + int (oBytes x)\<rparr>"
    define s1 where "s1 = pushChange owner (upsertOf r) (setOwner owner st (s\<lparr>records := aset (keyOf owner x) r (records s)\<rparr>))"
    have c: "commitItem e owner x s = (x\<lparr>oSeq := Some (decOfNat n), oSrc := Undefined\<rparr>, s1)"
      by (simp add: commitItem_eq [OF Cons.prems(3)] r_def st_def s1_def Let_def)
    obtain zs where z: "commitLoop e owner xs s1 = (zs, s')" "ys = x\<lparr>oSeq := Some (decOfNat n), oSrc := Undefined\<rparr> # zs"
      using Cons.prems(1) True c by (auto split: prod.splits)
    have k: "keyOf owner x \<notin> fst ` set (records s)"
      using Cons.prems(2) True by (auto simp: admissible_def map_of_eq_None_iff)
    have "admissible owner s1 (storedOf xs)"
      using Cons.prems(2) True by (auto simp: admissible_def s1_def image_iff)
    then have "commits owner (eNow e) (Suc n) xs s1 zs s'"
      using Cons.IH [OF z(1)] by (simp add: s1_def st_def)
    from commits_step [OF True k r_def s1_def _ _ _ this] show ?thesis by (simp add: z st_def)
  qed
qed

subsection \<open>The whole batch\<close>

lemma logOk_next: "storeInv L s \<Longrightarrow> \<exists>n \<ge> 1. sNext (ownerOf owner s) = decOfNat n"
  by (auto simp: storeInv_def logsOk_def logOk_def)

lemma storedOf_fail: "storedOf (map failStored xs) = []"
  by (induction xs) (auto simp: failStored_def)

text \<open>Every call either commits or leaves rows, markers, logs and counters as they were.\<close>

lemma archiveBatch_cases:
  assumes inv: "storeInv L s" and run: "archiveBatch e L owner ep input s = (res, s')"
  obtains (refused) "sameCore s s'" "\<forall>b. res = Inr b \<longrightarrow> \<not> brCommitted b \<and> storedOf (brOutcomes b) = []"
  | (committed) rs outs p2 n ys where "validateArchiveBatchBounds input L = Inr rs"
      "ep = Str (sEpoch (ownerOf owner s))" "sNext (ownerOf owner s) = decOfNat n"
      "planLoop e L owner ep 0 rs
         \<lparr>plProj = \<lparr>pCount = sCount (ownerOf owner s), pBytes = sBytes (ownerOf owner s),
           pReserved = sCount (ownerOf owner s) + int (markers owner s)\<rparr>, plPending = [],
           plStore = snd (ownerState owner s)\<rparr> = (outs, p2)"
      "sameCore s (plStore p2)" "commits owner (eNow e) n outs (plStore p2) ys s'"
      "res = Inr \<lparr>brEpoch = sEpoch (ownerOf owner s), brCommitted = True, brOutcomes = ys\<rparr>"
proof -
  define s0 where "s0 = snd (ownerState owner s)"
  have os: "ownerState owner s = (Inr (ownerOf owner s), s0)"
    by (simp add: s0_def flip: ownerState_eq)
  have same0: "sameCore s s0" using inv sameCore_ownerState by (simp add: s0_def storeInv_def)
  have inv0: "storeInv L s0" using inv by (simp add: s0_def storeInv_ownerState)
  have o0: "ownerOf owner s0 = ownerOf owner s" "markers owner s0 = markers owner s"
    using same0 by (simp_all add: sameCore_def markers_def)
  show thesis
  proof (cases "validateArchiveBatchBounds input L")
    case Inl
    then show thesis using run refused same0 by (auto simp: archiveBatch_def opBind_eq os)
  next
    case (Inr rs)
    show thesis
    proof (cases "ep = Str (sEpoch (ownerOf owner s))")
      case False
      then have "res = Inr \<lparr>brEpoch = sEpoch (ownerOf owner s), brCommitted = False, brOutcomes = archiveEpochChanged rs\<rparr>"
          "s' = s0"
        using run by (simp_all add: archiveBatch_def opBind_eq os Inr)
      then show thesis using refused same0
        by (auto simp: archiveEpochChanged_def plainOutcome_def filter_empty_conv case_prod_unfold)
    next
      case True
      obtain outs p2 where p: "planLoop e L owner ep 0 rs
        \<lparr>plProj = \<lparr>pCount = sCount (ownerOf owner s0), pBytes = sBytes (ownerOf owner s0),
           pReserved = sCount (ownerOf owner s0) + int (markers owner s0)\<rparr>, plPending = [], plStore = s0\<rparr> = (outs, p2)"
        by fastforce
      note P = planned_room [OF inv0 p]
      have same2: "sameCore s (plStore p2)" using same0 P(4) sameCore_trans by blast
      show thesis
      proof (cases "commitFailureOnce (plStore p2) \<or> ArchiveBatch \<in> set (failOnce (plStore p2))")
        case fail: True
        then have "res = Inr \<lparr>brEpoch = sEpoch (ownerOf owner s), brCommitted = False, brOutcomes = map failStored outs\<rparr>"
          "s' = (plStore p2)\<lparr>commitFailureOnce := False, failOnce := filter (\<lambda>q. q \<noteq> ArchiveBatch) (failOnce (plStore p2))\<rparr>"
          using run p True by (auto simp: archiveBatch_def opBind_eq os Inr ownedKey_markers Let_def o0)
        moreover from this have "sameCore (plStore p2) s'" by (auto intro: sameCoreI)
        then have "sameCore s s'" by (rule sameCore_trans [OF same2])
        ultimately show thesis using refused by (simp add: storedOf_fail)
      next
        case False
        obtain ys where c: "commitLoop e owner outs (plStore p2) = (ys, s')"
            "res = Inr \<lparr>brEpoch = sEpoch (ownerOf owner s), brCommitted = True, brOutcomes = ys\<rparr>"
          using run p True False
          by (auto simp: archiveBatch_def opBind_eq os Inr ownedKey_markers Let_def o0 split: prod.splits)
        obtain n where n: "sNext (ownerOf owner s) = decOfNat n" using logOk_next [OF inv] by blast
        then have "sNext (ownerOf owner (plStore p2)) = decOfNat n" using same2 by (simp add: sameCore_def)
        from committed [OF Inr True n p [unfolded o0, unfolded s0_def] same2 commitLoop_commits [OF c(1) P(2) this] c(2)]
        show thesis .
      qed
    qed
  qed
qed

subsection \<open>Sending a batch again\<close>

definition overQuota :: "store_limits \<Rightarrow> projection \<Rightarrow> nat \<Rightarrow> bool" where
  "overQuota L p bytes \<longleftrightarrow> int (MAX_RECORDS_PER_OWNER L) < pCount p + 1
     \<or> int (MAX_BYTES_PER_OWNER L) < pBytes p + int bytes \<or> int (MAX_RESERVED_RECORD_KEYS_PER_OWNER L) < pReserved p + 1"

text \<open>An item is settled when the store already holds its key or its marker, or has no room for it.\<close>

definition settled :: "store_limits \<Rightarrow> jsstr \<Rightarrow> jsval \<Rightarrow> projection \<Rightarrow> jsstr set \<Rightarrow> jsval \<Rightarrow> bool" where
  "settled L owner ep pr ks r \<longleftrightarrow> (\<forall>hash key bytes. validateArchiveInput (Str owner) ep r ep = Valid hash key bytes
     \<longrightarrow> mkKey owner key \<in> ks \<or> overQuota L pr bytes)"

definition taken :: "plan \<Rightarrow> jsstr set" where
  "taken p = dom (map_of (plPending p)) \<union> dom (map_of (records (plStore p))) \<union> dom (map_of (tombstones (plStore p)))"

definition currentEpoch :: "jsstr \<Rightarrow> jsval \<Rightarrow> plan \<Rightarrow> bool" where
  "currentEpoch owner ep p \<longleftrightarrow> ep = Str (sEpoch (ownerOf owner (plStore p)))"

lemma planItem_settled:
  assumes x: "planItem e L owner ep i r p = (x, p1)" and ep: "currentEpoch owner ep p"
  shows "settled L owner ep (plProj p) (taken p \<union> keyOf owner ` set (storedOf [x])) r"
    and "taken p1 \<subseteq> taken p \<union> keyOf owner ` set (storedOf [x])" and "currentEpoch owner ep p1"
    and "oKind x = Stored \<Longrightarrow> \<exists>hash key bytes. validateArchiveInput (Str owner) ep r ep = Valid hash key bytes
          \<and> oSrc x = r \<and> oKey x = Str key \<and> oHash x = Some hash"
proof -
  note C = planItem_cases [OF x]
  show "currentEpoch owner ep p1" using C ep by (auto simp: currentEpoch_def sameCore_def)
  show "taken p1 \<subseteq> taken p \<union> keyOf owner ` set (storedOf [x])"
    using C by (elim disjE conjE exE) (auto simp: taken_def sameCore_def)
  have e: "Str (sEpoch (ownerOf owner (plStore p))) = ep" using ep by (simp add: currentEpoch_def)
  show "settled L owner ep (plProj p) (taken p \<union> keyOf owner ` set (storedOf [x])) r"
    unfolding settled_def
  proof (intro allI impI)
    fix hash key bytes assume v: "validateArchiveInput (Str owner) ep r ep = Valid hash key bytes"
    show "mkKey owner key \<in> taken p \<union> keyOf owner ` set (storedOf [x]) \<or> overQuota L (plProj p) bytes"
    proof (cases "mkKey owner key \<in> taken p")
      case False
      then have n: "map_of (plPending p) (mkKey owner key) = None" "map_of (records (plStore p)) (mkKey owner key) = None"
        "map_of (tombstones (plStore p)) (mkKey owner key) = None"
        by (auto simp: taken_def dom_def)
      then show ?thesis
        using x v by (auto simp: planItem_def e Let_def archiveAdmissionOutcome_def overQuota_def strOf_def split: if_splits)
    qed simp
  qed
  assume s: "oKind x = Stored"
  show "\<exists>hash key bytes. validateArchiveInput (Str owner) ep r ep = Valid hash key bytes
          \<and> oSrc x = r \<and> oKey x = Str key \<and> oHash x = Some hash"
  proof (cases "validateArchiveInput (Str owner) ep r ep")
    case Invalid
    then show ?thesis using x s by (auto simp: planItem_def e)
  next
    case (Valid hash key bytes)
    then have "oSrc x = r \<and> oKey x = Str key \<and> oHash x = Some hash"
      using x s by (auto simp: planItem_def e Let_def archiveAdmissionOutcome_def split: option.splits if_splits)
    with Valid show ?thesis by blast
  qed
qed

lemma settled_mono:
  "settled L owner ep pr ks r \<Longrightarrow> ks \<subseteq> ks' \<Longrightarrow>
     pCount pr \<le> pCount pr' \<and> pBytes pr \<le> pBytes pr' \<and> pReserved pr \<le> pReserved pr' \<Longrightarrow> settled L owner ep pr' ks' r"
  by (auto simp: settled_def overQuota_def)

lemma planLoop_settled:
  assumes "planLoop e L owner ep i rs p = (outs, p2)" "currentEpoch owner ep p"
  shows "(\<forall>r \<in> set rs. settled L owner ep (plProj p2) (taken p \<union> keyOf owner ` set (storedOf outs)) r)
    \<and> list_all2 (\<lambda>r x. oKind x = Stored \<longrightarrow> (\<exists>hash key bytes. validateArchiveInput (Str owner) ep r ep = Valid hash key bytes
          \<and> oSrc x = r \<and> oKey x = Str key \<and> oHash x = Some hash)) rs outs"
  using assms
proof (induction rs arbitrary: i p outs)
  case (Cons r rs)
  obtain x p1 where x: "planItem e L owner ep i r p = (x, p1)" by fastforce
  obtain xs where xs: "planLoop e L owner ep (Suc i) rs p1 = (xs, p2)" and outs: "outs = x # xs"
    using Cons.prems x by (auto split: prod.splits)
  note I = planItem_settled [OF x Cons.prems(2)]
  note IH = Cons.IH [OF xs I(3)]
  have mono: "pCount (plProj p) \<le> pCount (plProj p2) \<and> pBytes (plProj p) \<le> pBytes (plProj p2)
      \<and> pReserved (plProj p) \<le> pReserved (plProj p2)"
    using planLoop_stored [OF Cons.prems(1)] by simp
  have "settled L owner ep (plProj p2) (taken p \<union> keyOf owner ` set (storedOf outs)) r"
    by (rule settled_mono [OF I(1) _ mono]) (auto simp: outs)
  moreover have "settled L owner ep (plProj p2) (taken p \<union> keyOf owner ` set (storedOf outs)) q" if "q \<in> set rs" for q
  proof (rule settled_mono)
    show "settled L owner ep (plProj p2) (taken p1 \<union> keyOf owner ` set (storedOf xs)) q" using IH that by blast
    show "taken p1 \<union> keyOf owner ` set (storedOf xs) \<subseteq> taken p \<union> keyOf owner ` set (storedOf outs)"
      using I(2) by (auto simp: outs)
  qed simp
  ultimately show ?case using IH I(4) by (simp add: outs)
qed simp

text \<open>Planning settled items stores nothing.\<close>

lemma planLoop_idle:
  assumes "planLoop e L owner ep i rs p = (outs, p2)" "currentEpoch owner ep p" "plPending p = []"
    and "\<forall>r \<in> set rs. settled L owner ep (plProj p) (taken p) r"
  shows "storedOf outs = [] \<and> sameCore (plStore p) (plStore p2)
    \<and> list_all2 (\<lambda>r y. \<forall>hash key bytes row. validateArchiveInput (Str owner) ep r ep = Valid hash key bytes
          \<and> map_of (records (plStore p)) (mkKey owner key) = Some row
          \<and> sameImmutableRecord (rowContent row) (contentOf r hash)
        \<longrightarrow> oKind y = AlreadyPresent \<and> oKey y = Str key \<and> oHash y = Some hash) rs outs"
  using assms
proof (induction rs arbitrary: i p outs)
  case (Cons r rs)
  obtain x p1 where x: "planItem e L owner ep i r p = (x, p1)" by fastforce
  obtain xs where xs: "planLoop e L owner ep (Suc i) rs p1 = (xs, p2)" and outs: "outs = x # xs"
    using Cons.prems x by (auto split: prod.splits)
  have e: "Str (sEpoch (ownerOf owner (plStore p))) = ep" using Cons.prems(2) by (simp add: currentEpoch_def)
  have ns: "oKind x \<noteq> Stored"
  proof
    assume s: "oKind x = Stored"
    from planItem_settled(4) [OF x Cons.prems(2) s] obtain hash key bytes
      where v: "validateArchiveInput (Str owner) ep r ep = Valid hash key bytes" and k: "oKey x = Str key" by blast
    have n: "mkKey owner key \<notin> taken p" using planItem_cases [OF x] s k by (auto simp: taken_def strOf_def)
    then have "overQuota L (plProj p) bytes" using Cons.prems(4) v by (auto simp: settled_def)
    then show False using x v s n
      by (auto simp: planItem_def e Let_def archiveAdmissionOutcome_def overQuota_def taken_def dom_def split: if_splits)
  qed
  then have p1: "plProj p1 = plProj p" "plPending p1 = plPending p" "sameCore (plStore p) (plStore p1)"
    using planItem_cases [OF x] by auto
  then have t: "taken p1 = taken p" "records (plStore p1) = records (plStore p)" by (simp_all add: taken_def sameCore_def)
  have IH: "storedOf xs = [] \<and> sameCore (plStore p1) (plStore p2)
    \<and> list_all2 (\<lambda>r y. \<forall>hash key bytes row. validateArchiveInput (Str owner) ep r ep = Valid hash key bytes
          \<and> map_of (records (plStore p)) (mkKey owner key) = Some row
          \<and> sameImmutableRecord (rowContent row) (contentOf r hash)
        \<longrightarrow> oKind y = AlreadyPresent \<and> oKey y = Str key \<and> oHash y = Some hash) rs xs"
    using Cons.IH [OF xs planItem_settled(3) [OF x Cons.prems(2)]] p1 t Cons.prems(3,4) by simp
  have "oKind x = AlreadyPresent \<and> oKey x = Str key \<and> oHash x = Some hash"
    if "validateArchiveInput (Str owner) ep r ep = Valid hash key bytes"
      "map_of (records (plStore p)) (mkKey owner key) = Some row"
      "sameImmutableRecord (rowContent row) (contentOf r hash)" for hash key bytes row
    using x that Cons.prems(3)
    by (auto simp: planItem_def e Let_def archiveExistingOutcome_def plainOutcome_def)
  then show ?case using IH ns p1(3) sameCore_trans by (auto simp: outs)
qed simp

subsection \<open>What a committed batch adds\<close>

lemma list_all2_mem: "list_all2 P xs ys \<Longrightarrow> y \<in> set ys \<Longrightarrow> \<exists>x \<in> set xs. P x y"
  by (induction rule: list_all2_induct) auto

lemma rowContent_newRow:
  assumes "validateArchiveInput (Str owner) ep r oe = Valid hash key bytes" "oSrc x = r" "oKey x = Str key" "oHash x = Some hash"
  shows "rowContent (newRow owner now x seq) = contentOf r hash" "keyOf owner x = mkKey owner key"
    "rBodyHash (newRow owner now x seq) = hash"
    "rDelivery (newRow owner now x seq) \<in> {js ''prepared'', js ''received''}"
proof -
  obtain dir box sdr rcp mid bdy where "field r ''direction'' = Str dir" "field r ''messageBox'' = Str box"
      "field r ''sender'' = Str sdr" "field r ''recipient'' = Str rcp" "field r ''messageId'' = Str mid"
      "field r ''body'' = Str bdy"
    and ds: "field r ''deliveryState'' \<in> {Undefined, Str (js ''prepared''), Str (js ''received'')}"
    by (rule validateArchiveInput_Valid [OF assms(1)])
  then show "rDelivery (newRow owner now x seq) \<in> {js ''prepared'', js ''received''}"
    using assms by (auto simp: newRow_def initialDelivery_def strOf_def)
  note \<open>field r ''direction'' = Str dir\<close> \<open>field r ''messageBox'' = Str box\<close> \<open>field r ''sender'' = Str sdr\<close>
    \<open>field r ''recipient'' = Str rcp\<close> \<open>field r ''messageId'' = Str mid\<close> \<open>field r ''body'' = Str bdy\<close>
  with assms show "rowContent (newRow owner now x seq) = contentOf r hash"
    by (simp add: rowContent_def contentOf_def newRow_def strOf_def)
  show "keyOf owner x = mkKey owner key" "rBodyHash (newRow owner now x seq) = hash"
    using assms by (simp_all add: strOf_def newRow_def)
qed

lemma newRows_keys: "map fst (newRows owner now n xs) = map (keyOf owner) (storedOf xs)"
  by (auto simp: newRows_def comp_def case_prod_unfold intro!: nth_equalityI simp: nth_enumerate_eq)

lemma newRows_seqs:
  "map (rChangeSequence \<circ> snd) (newRows owner now n xs) = map decOfNat [n..<n + length (storedOf xs)]"
  by (auto simp: newRows_def comp_def case_prod_unfold intro!: nth_equalityI simp: nth_enumerate_eq)

lemma newRows_set:
  "(k, r) \<in> set (newRows owner now n xs) \<Longrightarrow>
     \<exists>x seq. x \<in> set xs \<and> oKind x = Stored \<and> k = keyOf owner x \<and> r = newRow owner now x seq"
proof -
  assume "(k, r) \<in> set (newRows owner now n xs)"
  then obtain i x where x: "(i, x) \<in> set (enumerate n (storedOf xs))" "k = keyOf owner x"
      "r = newRow owner now x (decOfNat i)"
    by (auto simp: newRows_def)
  have "x \<in> set (storedOf xs)" using x(1) by (metis in_set_enumerate_eq fst_conv snd_conv nth_mem
        add.commute less_diff_conv2)
  with x show ?thesis by auto
qed

lemma newRows_mem: "x \<in> set (storedOf xs) \<Longrightarrow> \<exists>seq. (keyOf owner x, newRow owner now x seq) \<in> set (newRows owner now n xs)"
proof -
  assume "x \<in> set (storedOf xs)"
  then obtain i where "i < length (storedOf xs)" "storedOf xs ! i = x" unfolding in_set_conv_nth by blast
  then have "(n + i, x) \<in> set (enumerate n (storedOf xs))" by (auto simp: in_set_enumerate_eq)
  then show ?thesis by (force simp: newRows_def)
qed

lemma storedOf_committed: "list_all2 committedOutcome xs ys \<Longrightarrow> map oKey (storedOf ys) = map oKey (storedOf xs)"
  by (induction rule: list_all2_induct) (auto simp: committedOutcome_def)

lemma archive_effect:
  assumes inv: "storeInv L s" and run: "archiveBatch e L owner ep input s = (res, s')"
  shows "(sameCore s s' \<and> (\<forall>b. res = Inr b \<longrightarrow> \<not> brCommitted b \<and> (\<forall>x \<in> set (brOutcomes b). oKind x \<noteq> Stored)))
    \<or> (\<exists>b rs n new. res = Inr b \<and> brCommitted b \<and> input = Arr rs \<and> length (brOutcomes b) = length rs
        \<and> sNext (ownerOf owner s) = decOfNat n \<and> sNext (ownerOf owner s') = decOfNat (n + length new)
        \<and> records s' = records s @ new \<and> tombstones s' = tombstones s
        \<and> map fst new = map (keyOf owner) (storedOf (brOutcomes b))
        \<and> map (rChangeSequence \<circ> snd) new = map decOfNat [n..<n + length new]
        \<and> changesOf owner s' = changesOf owner s @ map (upsertOf \<circ> snd) new
        \<and> (\<forall>o'. o' \<noteq> owner \<longrightarrow> ownerOf o' s' = ownerOf o' s \<and> changesOf o' s' = changesOf o' s)
        \<and> (\<forall>(k, r) \<in> set new. rowOk r \<and> rOwner r = owner \<and> rRevision r = js ''1'' \<and> rCreatedAt r = eNow e
             \<and> rDelivery r \<in> {js ''prepared'', js ''received''}
             \<and> map_of (records s) k = None \<and> map_of (tombstones s) k = None
             \<and> (\<exists>item \<in> set rs. rowContent r = contentOf item (rBodyHash r))))"
proof (cases rule: archiveBatch_cases [OF inv run])
  case 1
  then show ?thesis by (auto simp: filter_empty_conv)
next
  case (2 rs outs p2 n ys)
  let ?new = "newRows owner (eNow e) n outs"
  note S = planLoop_stored [OF 2(4)] and C = 2(6) [unfolded commits_def]
  have same: "records (plStore p2) = records s" "tombstones (plStore p2) = tombstones s"
      "changesOf owner (plStore p2) = changesOf owner s"
    using 2(5) by (simp_all add: sameCore_def)
  have "currentEpoch owner ep \<lparr>plProj = q, plPending = [], plStore = snd (ownerState owner s)\<rparr>" for q
    using 2(2) by (simp add: currentEpoch_def ownerOf_ownerState)
  note V = planLoop_settled [OF 2(4) this, THEN conjunct2]
  have len: "length ?new = length (storedOf outs)" using newRows_keys by (metis length_map)
  let ?b = "\<lparr>brEpoch = sEpoch (ownerOf owner s), brCommitted = True, brOutcomes = ys\<rparr>"
  have input: "input = Arr rs" using 2(1) by (auto simp: validateArchiveBatchBounds_def split: jsval.splits if_splits)
  have co: "list_all2 committedOutcome outs ys" using C by blast
  then have ylen: "length ys = length rs" using V [THEN list_all2_lengthD] list_all2_lengthD by force
  have keys: "map (keyOf owner) zs = map (\<lambda>k. mkKey owner (strOf k)) (map oKey zs)" for zs by simp
  have fsts: "map fst ?new = map (keyOf owner) (storedOf ys)"
    unfolding newRows_keys keys by (simp only: storedOf_committed [OF co])
  have "admissible owner (snd (ownerState owner s)) (storedOf outs)"
    using S [THEN conjunct2, THEN conjunct1] by (simp only: plan.simps)
  then have adm: "admissible owner s (storedOf outs)"
    using admissible_sameCore [OF sameCore_ownerState] inv unfolding storeInv_def by blast
  have row: "rowOk r \<and> rOwner r = owner \<and> rRevision r = js ''1'' \<and> rCreatedAt r = eNow e
      \<and> rDelivery r \<in> {js ''prepared'', js ''received''} \<and> map_of (records s) k = None \<and> map_of (tombstones s) k = None
      \<and> (\<exists>item \<in> set rs. rowContent r = contentOf item (rBodyHash r))" if new: "(k, r) \<in> set ?new" for k r
  proof -
    obtain x seq where x: "x \<in> set outs" "oKind x = Stored" "k = keyOf owner x" "r = newRow owner (eNow e) x seq"
      using newRows_set [OF new] by blast
    have "rowOk r \<and> map_of (records s) k = None \<and> map_of (tombstones s) k = None"
      using adm x(1,2) unfolding x(3,4) admissible_def by simp
    moreover obtain item hash key bytes where "item \<in> set rs" "validateArchiveInput (Str owner) ep item ep = Valid hash key bytes"
        "oSrc x = item" "oKey x = Str key" "oHash x = Some hash"
      using list_all2_mem [OF V x(1)] x(2) by blast
    moreover from this have "rowContent r = contentOf item (rBodyHash r)"
        "rDelivery r \<in> {js ''prepared'', js ''received''}"
      using rowContent_newRow [of owner ep item ep hash key bytes x] x by simp_all
    ultimately show ?thesis using x by auto
  qed
  have log: "sNext (ownerOf owner s') = decOfNat (n + length ?new)" "records s' = records s @ ?new"
      "tombstones s' = tombstones s" "changesOf owner s' = changesOf owner s @ map (upsertOf \<circ> snd) ?new"
      "map (rChangeSequence \<circ> snd) ?new = map decOfNat [n..<n + length ?new]"
    using C same newRows_seqs by (simp_all only: len)
  have others: "\<forall>o'. o' \<noteq> owner \<longrightarrow> ownerOf o' s' = ownerOf o' s \<and> changesOf o' s' = changesOf o' s"
    using C 2(5) unfolding sameCore_def by simp
  have rows: "\<forall>(k, r) \<in> set ?new. rowOk r \<and> rOwner r = owner \<and> rRevision r = js ''1'' \<and> rCreatedAt r = eNow e
      \<and> rDelivery r \<in> {js ''prepared'', js ''received''} \<and> map_of (records s) k = None
      \<and> map_of (tombstones s) k = None \<and> (\<exists>item \<in> set rs. rowContent r = contentOf item (rBodyHash r))"
    using row by blast
  show ?thesis
    by (rule disjI2, rule exI [of _ ?b], rule exI [of _ rs], rule exI [of _ n], rule exI [of _ ?new])
      (use input ylen fsts rows log others 2(3,7) in simp)
qed

text \<open>C5: Archiving a batch on a store that satisfies the invariant has exactly two effects. Either
  nothing is stored: rows, deletion markers, change logs, counters and epochs are as before, and no
  outcome says \<open>stored\<close>. Or the batch commits: the rows of the items reported \<open>stored\<close> are appended
  in request order, each holding the content of an item of the request under its recomputed key,
  none of them was live or deleted before, they take the next consecutive change sequences, the
  owner's change log gets exactly one upsert row for each of them, and no other owner is touched.\<close>

theorem archive_all_or_nothing:
  assumes inv: "storeInv L s" and run: "archiveBatch e L owner ep input s = (res, s')"
  shows "(sameCore s s' \<and> (\<forall>b. res = Inr b \<longrightarrow> \<not> brCommitted b \<and> (\<forall>x \<in> set (brOutcomes b). oKind x \<noteq> Stored)))
    \<or> (\<exists>b rs n new. res = Inr b \<and> brCommitted b \<and> input = Arr rs \<and> length (brOutcomes b) = length rs
        \<and> sNext (ownerOf owner s) = decOfNat n \<and> sNext (ownerOf owner s') = decOfNat (n + length new)
        \<and> records s' = records s @ new \<and> tombstones s' = tombstones s
        \<and> map fst new = map (keyOf owner) (storedOf (brOutcomes b))
        \<and> map (rChangeSequence \<circ> snd) new = map decOfNat [n..<n + length new]
        \<and> changesOf owner s' = changesOf owner s @ map (upsertOf \<circ> snd) new
        \<and> (\<forall>o'. o' \<noteq> owner \<longrightarrow> ownerOf o' s' = ownerOf o' s \<and> changesOf o' s' = changesOf o' s)
        \<and> (\<forall>(k, r) \<in> set new. rowOk r \<and> rOwner r = owner \<and> rRevision r = js ''1'' \<and> rCreatedAt r = eNow e
             \<and> rDelivery r \<in> {js ''prepared'', js ''received''}
             \<and> map_of (records s) k = None \<and> map_of (tombstones s) k = None
             \<and> (\<exists>item \<in> set rs. rowContent r = contentOf item (rBodyHash r))))"
  by (rule archive_effect [OF assms])

lemma commits_idle:
  assumes c: "commits owner now n xs s ys s'" and idle: "storedOf xs = []" and n: "sNext (ownerOf owner s) = decOfNat n"
    and l: "linked s'"
  shows "sameCore s s' \<and> ys = xs"
proof -
  have "ownerOf o' s' = ownerOf o' s \<and> changesOf o' s' = changesOf o' s" for o'
    using c idle n by (cases "o' = owner") (simp_all add: commits_def newRows_def)
  moreover have "ys = xs"
  proof -
    have "list_all2 committedOutcome xs ys" "\<forall>x \<in> set xs. oKind x \<noteq> Stored"
      using c idle by (simp_all add: commits_def filter_empty_conv)
    then show ?thesis by (induction rule: list_all2_induct) (auto simp: committedOutcome_def)
  qed
  ultimately show ?thesis using c idle l by (simp add: commits_def sameCore_def newRows_def)
qed

text \<open>C6: Sending a committed batch again, under the same epoch and whatever the clock, stores nothing
  twice: rows, deletion markers, change logs, counters and epochs are as after the first call, no
  outcome says \<open>stored\<close>, and every item the first call stored is reported \<open>alreadyPresent\<close> under
  the same record key.\<close>

theorem archive_replay_stores_nothing:
  assumes inv: "storeInv L s" and run: "archiveBatch e L owner ep input s = (Inr b, s')" and com: "brCommitted b"
    and again: "archiveBatch e2 L owner ep input s' = (Inr b2, s2)"
  shows "sameCore s' s2 \<and> storedOf (brOutcomes b2) = []
    \<and> (brCommitted b2 \<longrightarrow> list_all2 (\<lambda>x y. oKind x = Stored \<longrightarrow> oKind y = AlreadyPresent \<and> oKey y = oKey x)
         (brOutcomes b) (brOutcomes b2))"
proof (cases rule: archiveBatch_cases [OF inv run])
  case 1
  with com show ?thesis by blast
next
  case one: (2 rs outs p2 n ys)
  have inv': "storeInv L s'" using archiveBatch_inv [OF inv, of e owner ep input] run by simp
  let ?p1 = "\<lparr>plProj = \<lparr>pCount = sCount (ownerOf owner s), pBytes = sBytes (ownerOf owner s),
           pReserved = sCount (ownerOf owner s) + int (markers owner s)\<rparr>, plPending = [],
           plStore = snd (ownerState owner s)\<rparr>"
  have C: "records s' = records s @ newRows owner (eNow e) n outs" "tombstones s' = tombstones s"
      "list_all2 committedOutcome outs ys" and b: "brOutcomes b = ys"
    using one(5,6,7) unfolding commits_def sameCore_def by simp_all
  have ce: "currentEpoch owner ep ?p1" using one(2) by (simp add: currentEpoch_def ownerOf_ownerState)
  note V1 = planLoop_settled [OF one(4) ce, THEN conjunct1] and V2 = planLoop_settled [OF one(4) ce, THEN conjunct2]
  show ?thesis
  proof (cases rule: archiveBatch_cases [OF inv' again])
    case 1
    then show ?thesis by simp
  next
    case two: (2 rs2 outs2 q2 n2 ys2)
    have rs: "rs2 = rs" using one(1) two(1) by simp
    let ?q1 = "\<lparr>plProj = \<lparr>pCount = sCount (ownerOf owner s'), pBytes = sBytes (ownerOf owner s'),
           pReserved = sCount (ownerOf owner s') + int (markers owner s')\<rparr>, plPending = [],
           plStore = snd (ownerState owner s')\<rparr>"
    have st: "records (snd (ownerState owner x)) = records x" "tombstones (snd (ownerState owner x)) = tombstones x" for x
      by (simp_all add: ownerState_def split: option.split)
    have proj: "plProj ?q1 = plProj p2"
      using planLoop_stored [OF one(4)] one(5,6) by (simp add: commits_def sameCore_def markers_def C)
    have stored: "\<exists>seq. (keyOf owner x, newRow owner (eNow e) x seq) \<in> set (records s')" if "x \<in> set (storedOf outs)" for x
      unfolding C using newRows_mem [OF that, of owner "eNow e" n] by auto
    have "keyOf owner ` set (storedOf outs) \<subseteq> dom (map_of (records s'))"
    proof
      fix k assume "k \<in> keyOf owner ` set (storedOf outs)"
      then obtain x where "x \<in> set (storedOf outs)" "k = keyOf owner x" by blast
      then show "k \<in> dom (map_of (records s'))"
        using stored unfolding dom_map_of_conv_image_fst by force
    qed
    moreover have "taken ?p1 \<subseteq> taken ?q1"
      by (auto simp: taken_def st C map_add_def dom_def split: option.splits)
    ultimately have sub: "taken ?p1 \<union> keyOf owner ` set (storedOf outs) \<subseteq> taken ?q1"
      by (simp add: taken_def st) blast
    have "settled L owner ep (plProj ?q1) (taken ?q1) r" if "r \<in> set rs" for r
      unfolding proj by (rule settled_mono [OF bspec [OF V1 that] sub]) simp
    then have "\<forall>r \<in> set rs. settled L owner ep (plProj ?q1) (taken ?q1) r" by blast
    moreover have ce2: "currentEpoch owner ep ?q1" using two(2) by (simp add: currentEpoch_def ownerOf_ownerState)
    ultimately have idle: "storedOf outs2 = []" and link: "list_all2 (\<lambda>r y. \<forall>hash key bytes row.
        validateArchiveInput (Str owner) ep r ep = Valid hash key bytes
          \<and> map_of (records s') (mkKey owner key) = Some row
          \<and> sameImmutableRecord (rowContent row) (contentOf r hash)
        \<longrightarrow> oKind y = AlreadyPresent \<and> oKey y = Str key \<and> oHash y = Some hash) rs outs2"
      using planLoop_idle [OF two(4) ce2] by (simp_all add: rs st)
    have "storeInv L s2" using archiveBatch_inv [OF inv', of e2 owner ep input] again by simp
    moreover have "sNext (ownerOf owner (plStore q2)) = decOfNat n2" using two(3,5) by (simp add: sameCore_def)
    ultimately have idle2: "sameCore (plStore q2) s2" "ys2 = outs2"
      using commits_idle [OF two(6) idle] by (auto simp: storeInv_def)
    have "list_all2 (\<lambda>x y. oKind x = Stored \<longrightarrow> oKind y = AlreadyPresent \<and> oKey y = oKey x) ys ys2"
      unfolding list_all2_conv_all_nth
    proof (intro conjI allI impI)
      show l: "length ys = length ys2"
        using list_all2_lengthD [OF C(3)] list_all2_lengthD [OF V2] list_all2_lengthD [OF link] idle2(2) by simp
      fix i assume i: "i < length ys" and s: "oKind (ys ! i) = Stored"
      have co: "committedOutcome (outs ! i) (ys ! i)" using C(3) i by (simp add: list_all2_conv_all_nth)
      then have k: "oKind (outs ! i) = Stored" "oKey (ys ! i) = oKey (outs ! i)"
        using s by (auto simp: committedOutcome_def)
      have io: "i < length outs" "i < length rs" "i < length outs2"
        using list_all2_lengthD [OF C(3)] list_all2_lengthD [OF V2] list_all2_lengthD [OF link] i by simp_all
      obtain hash key bytes where v: "validateArchiveInput (Str owner) ep (rs ! i) ep = Valid hash key bytes"
          "oSrc (outs ! i) = rs ! i" "oKey (outs ! i) = Str key" "oHash (outs ! i) = Some hash"
        using list_all2_nthD2 [OF V2 io(1)] k(1) by blast
      obtain seq where "(keyOf owner (outs ! i), newRow owner (eNow e) (outs ! i) seq) \<in> set (records s')"
        using stored [of "outs ! i"] k(1) io(1) by auto
      then have "map_of (records s') (mkKey owner key) = Some (newRow owner (eNow e) (outs ! i) seq)"
        using inv' rowContent_newRow(2) [OF v] by (simp add: storeInv_def recordsOk_def map_of_eq_Some_iff)
      moreover have "sameImmutableRecord (rowContent (newRow owner (eNow e) (outs ! i) seq)) (contentOf (rs ! i) hash)"
        using rowContent_newRow(1) [OF v] by (simp add: sameImmutableRecord_def)
      ultimately have "oKind (outs2 ! i) = AlreadyPresent \<and> oKey (outs2 ! i) = Str key"
        using list_all2_nthD2 [OF link io(3)] v(1) by blast
      then show "oKind (ys2 ! i) = AlreadyPresent" "oKey (ys2 ! i) = oKey (ys ! i)"
        using idle2(2) k(2) v(3) by simp_all
    qed
    then show ?thesis using two(5,7) b idle idle2 sameCore_trans [OF two(5) idle2(1)] by simp
  qed
qed

end
