(* ===== verification/StoreFixture.thy ===== *)
theory StoreFixture
  imports ArchiveProps
begin

section \<open>A concrete archive\<close>

text \<open>
  One record archived into the empty store: the message of the cross-runtime test vector of
  \<open>src/protocol.mjs\<close> with a three byte body. The properties of the memory repository are applied
  to this state.
\<close>

definition m0Record :: jsval where
  "m0Record = Obj [(js ''messageId'', Str (js ''m0-vector-1'')), (js ''messageBox'', Str (js ''general_inbox'')),
     (js ''direction'', Str (js ''outbound'')), (js ''sender'', Str m0Owner), (js ''recipient'', Str m0Recipient),
     (js ''body'', Str (encryptedBody [1, 2, 3]))]"

definition m0Env :: env where
  "m0Env = \<lparr>eNow = js ''2026-01-01T00:00:00.000Z'', eDateParse = (\<lambda>s. Some 1767225600000), eUuids = [],
     eSnapshotId = js ''snap-1''\<rparr>"

definition m0Key :: jsstr where
  "m0Key = sha256Hex (recordPreimage m0Owner (js ''outbound'') (js ''general_inbox'') m0Owner m0Recipient
     (js ''m0-vector-1''))"

definition m0Hash :: jsstr where
  "m0Hash = sha256Hex (utf8Bytes (encryptedBody [1, 2, 3]))"

lemma m0_field:
  "field m0Record ''messageId'' = Str (js ''m0-vector-1'')" "field m0Record ''messageBox'' = Str (js ''general_inbox'')"
  "field m0Record ''direction'' = Str (js ''outbound'')" "field m0Record ''sender'' = Str m0Owner"
  "field m0Record ''recipient'' = Str m0Recipient" "field m0Record ''body'' = Str (encryptedBody [1, 2, 3])"
  "field m0Record ''recordKey'' = Undefined" "field m0Record ''bodyHash'' = Undefined"
  "field m0Record ''deliveryState'' = Undefined"
  by (simp_all add: m0Record_def field_def getProp_def js_def)

lemma m0_owner: "isIdentityKey (Str m0Owner)" "identityKeyRe m0Owner"
  using m0_fields by (simp_all add: recordFields_def isIdentityKey_def)

lemma gen1_epoch: "validateEpoch (Str (js ''gen-1'')) = Inr (js ''gen-1'')"
  by (simp add: validateEpoch_Inr epochRe_def js_def isAlnum_def isDigit_def)

lemma m0_bytes: "utf8ByteLength (encryptedBody [1, 2, 3]) = 27"
  by (simp add: length_encryptedBody)

lemma m0_valid:
  "validateArchiveInput (Str m0Owner) (Str (js ''gen-1'')) m0Record (Str (js ''gen-1'')) = Valid m0Hash m0Key 27"
proof -
  have r: "readField m0Record ''messageBox'' = Inr (Str (js ''general_inbox''))"
    using m0_field(2) by (simp add: readField_def m0Record_def)
  have b: "is_ok (validateEncryptedBody (Str (encryptedBody [1, 2, 3])))"
    using encryptedBody_valid by (simp add: validateEncryptedBody_encryptedBody MAX_BODY_BYTES_def)
  have "checkArchiveFields (Str m0Owner) m0Record = Inr ()"
    using m0_fields b m0_owner
    by (auto simp: checkArchiveFields_def r m0_field result_simps recordFields_def is_ok_iff)
  moreover have "recomputeArchive (Str m0Owner) m0Record = Inr (m0Hash, m0Key)"
    by (simp add: recomputeArchive_def m0_field m0_key bodyHash_def m0Hash_def m0Key_def encryptedBody_valid)
  ultimately show ?thesis
    by (simp add: validateArchiveInput_def m0_owner gen1_epoch m0_field bodyLength_def m0_bytes MAX_BODY_BYTES_def)
qed

definition m0Row :: row where
  "m0Row = \<lparr>rOwner = m0Owner, rKey = m0Key, rMessageId = js ''m0-vector-1'', rMessageBox = js ''general_inbox'',
     rDirection = js ''outbound'', rSender = m0Owner, rRecipient = m0Recipient, rBody = encryptedBody [1, 2, 3],
     rBodyHash = m0Hash, rBodyBytes = 27, rDelivery = js ''prepared'', rRevision = js ''1'',
     rChangeSequence = js ''1'', rCreatedAt = eNow m0Env, rArchivedAt = eNow m0Env, rExpiresAt = None\<rparr>"

definition m0Out :: outcome where
  "m0Out = \<lparr>oIndex = 0, oKey = Str m0Key, oKind = Stored, oError = None, oHash = Some m0Hash,
              oBytes = 27, oSrc = Undefined, oSeq = Some (js ''1'')\<rparr>"

definition m0Store :: store where
  "m0Store = \<lparr>owners = [(m0Owner, \<lparr>sEpoch = js ''gen-1'', sNext = js ''2'', sCount = 1, sBytes = 27\<rparr>)],
     records = [(mkKey m0Owner m0Key, m0Row)], tombstones = [], changes = [(m0Owner, [upsertOf m0Row])],
     purgePositions = [], audits = [(m0Owner, [])], snapshots = [], snapshotItems = [], idempotency = [],
     commitFailureOnce = False, failOnce = []\<rparr>"

lemma decOfNat_2: "decOfNat (Suc (Suc 0)) = js ''2''"
  by (subst decOfNat.simps) (simp add: digitChar_def js_def)

lemma m0_archived:
  "archiveBatch m0Env LIMITS m0Owner (Str (js ''gen-1'')) (Arr [m0Record]) emptyStore =
     (Inr \<lparr>brEpoch = js ''gen-1'', brCommitted = True, brOutcomes = [m0Out]\<rparr>, m0Store)"
proof -
  define st where "st = snd (ownerState m0Owner emptyStore)"
  have os: "ownerState m0Owner emptyStore = (Inr initialOwner, st)" and
    st: "st = emptyStore\<lparr>owners := [(m0Owner, initialOwner)], changes := [(m0Owner, [])], audits := [(m0Owner, [])]\<rparr>"
    by (simp_all add: st_def ownerState_def emptyStore_def)
  have b: "validateArchiveBatchBounds (Arr [m0Record]) LIMITS = Inr [m0Record]"
    by (simp add: validateArchiveBatchBounds_def LIMITS_def bodyLength_def m0_field m0_bytes)
  have oo: "ownerOf m0Owner st = initialOwner" "records st = []" "tombstones st = []"
      "commitFailureOnce st = False" "failOnce st = []"
    by (simp_all add: st ownerOf_def agetOr_def emptyStore_def)
  have io: "sEpoch initialOwner = js ''gen-1''" "sNext initialOwner = js ''1''" "sCount initialOwner = 0" "sBytes initialOwner = 0"
    by (simp_all add: initialOwner_def)
  let ?x = "m0Out\<lparr>oSrc := m0Record, oSeq := None\<rparr>"
  have adm: "archiveAdmissionOutcome 0 m0Record m0Hash m0Key 27 \<lparr>pCount = 0, pBytes = 0, pReserved = 0\<rparr> LIMITS =
      (?x, \<lparr>pCount = 1, pBytes = 27, pReserved = 1\<rparr>)" and x: "oKind ?x = Stored"
    by (simp_all add: archiveAdmissionOutcome_def LIMITS_def m0Out_def)
  have p: "planLoop m0Env LIMITS m0Owner (Str (js ''gen-1'')) 0 [m0Record] \<lparr>plProj = \<lparr>pCount = 0, pBytes = 0, pReserved = 0\<rparr>,
      plPending = [], plStore = st\<rparr> = ([?x], \<lparr>plProj = \<lparr>pCount = 1, pBytes = 27, pReserved = 1\<rparr>,
      plPending = [(mkKey m0Owner m0Key, contentOf m0Record m0Hash)], plStore = st\<rparr>)"
    by (simp add: planItem_def oo io m0_valid Let_def adm x)
  have r: "newRow m0Owner (eNow m0Env) ?x (js ''1'') = m0Row"
    by (simp add: newRow_def m0Out_def m0Row_def m0_field strOf_def initialDelivery_def)
  have n1: "sNext (ownerOf m0Owner st) = decOfNat 1" using oo(1) io(2) by (simp add: decOfNat_1)
  have c: "commitItem m0Env m0Owner ?x st = (m0Out, m0Store)"
    unfolding commitItem_eq [OF n1] Let_def r [unfolded decOfNat_1]
    using decOfNat_1
    by (simp add: oo initialOwner_def decOfNat_2 setOwner_def pushChange_def)
      (simp add: st m0Out_def emptyStore_def m0Store_def changesOf_def agetOr_def strOf_def)
  have cl: "commitLoop m0Env m0Owner [?x] st = ([m0Out], m0Store)" using x c by simp
  show ?thesis
    unfolding archiveBatch_def
    by (simp add: opBind_eq os b io oo p cl Let_def del: planLoop.simps commitLoop.simps)
qed

lemma m0_store_inv: "storeInv LIMITS m0Store"
  using archiveBatch_inv [OF storeInv_empty [of LIMITS], of m0Env m0Owner "Str (js ''gen-1'')" "Arr [m0Record]"]
  by (simp add: m0_archived)

lemma m0_reach: "storeReach LIMITS m0Store"
  using reach_step [OF reach_empty step_archive [where e = m0Env and owner = m0Owner and ep = "Str (js ''gen-1'')"
        and input = "Arr [m0Record]" and L = LIMITS]]
  by (simp add: m0_archived)

theorem archive_all_or_nothing_witness:
  "\<exists>new. records m0Store = records emptyStore @ new \<and> map fst new = [mkKey m0Owner m0Key]
     \<and> (\<forall>(k, r) \<in> set new. rowOk r)"
proof -
  have "\<not> sameCore emptyStore m0Store" by (simp add: sameCore_def m0Store_def emptyStore_def)
  then show ?thesis
    using archive_all_or_nothing [OF storeInv_empty m0_archived]
    by (auto simp: m0Out_def strOf_def case_prod_unfold)
qed

lemma archive_returns:
  "validateArchiveBatchBounds input L = Inr rs \<Longrightarrow> \<exists>b s'. archiveBatch e L owner ep input s = (Inr b, s')"
  using ownerState_eq [of owner s]
  by (cases "ownerState owner s") (auto simp: archiveBatch_def opBind_eq Let_def split: prod.split)

theorem archive_replay_stores_nothing_witness:
  "\<exists>b2 s2. archiveBatch m0Env LIMITS m0Owner (Str (js ''gen-1'')) (Arr [m0Record]) m0Store = (Inr b2, s2)
     \<and> sameCore m0Store s2 \<and> storedOf (brOutcomes b2) = []"
proof -
  have "validateArchiveBatchBounds (Arr [m0Record]) LIMITS = Inr [m0Record]"
    by (simp add: validateArchiveBatchBounds_def LIMITS_def bodyLength_def m0_field m0_bytes)
  from archive_returns [OF this] obtain b2 s2
    where "archiveBatch m0Env LIMITS m0Owner (Str (js ''gen-1'')) (Arr [m0Record]) m0Store = (Inr b2, s2)" by blast
  with archive_replay_stores_nothing [OF storeInv_empty m0_archived _ this] show ?thesis by simp
qed

end
