(* ===== verification/StoreRefines.thy ===== *)
theory StoreRefines
  imports History StoreFixture
begin

section \<open>The memory repository refines the history contract\<close>

text \<open>
  The abstraction of the memory store, the effect of each mutation on it, and the refinement: every
  call of the adapter is a step of \<open>histStep\<close>. The interpretation of \<open>history_repository\<close> gives the
  store the contract's consequences.
\<close>

subsection \<open>The abstraction\<close>

definition msgOf :: "row \<Rightarrow> msg" where
  "msgOf r = \<lparr>msgContent = rowContent r, msgCreated = rCreatedAt r, msgState = rDelivery r,
     msgRevision = natOfDec (rRevision r), msgSequence = natOfDec (rChangeSequence r)\<rparr>"

definition proper :: "jsstr \<times> jsstr \<Rightarrow> bool" where
  "proper p \<longleftrightarrow> noNul (fst p) \<and> noNul (snd p)"

definition absStore :: "store \<Rightarrow> history" where
  "absStore s = \<lparr>
     live = (\<lambda>p. if proper p then map_option msgOf (map_of (records s) (mkKey (fst p) (snd p))) else None),
     gone = {p. proper p \<and> map_of (tombstones s) (mkKey (fst p) (snd p)) \<noteq> None},
     nextSeq = (\<lambda>owner. natOfDec (sNext (ownerOf owner s)))\<rparr>"

lemma absStore_same: "sameCore s s' \<Longrightarrow> absStore s' = absStore s"
  by (auto simp: absStore_def sameCore_def)

lemma mkKey_proper: "proper p \<Longrightarrow> proper q \<Longrightarrow> mkKey (fst p) (snd p) = mkKey (fst q) (snd q) \<longleftrightarrow> p = q"
  by (auto simp: proper_def mkKey_inject prod_eq_iff)

lemma absStore_empty: "absStore emptyStore = emptyHistory"
proof -
  have "natOfDec (js ''1'') = 1" using decOfNat_1 by (metis natOfDec_decOfNat)
  then show ?thesis
    by (simp add: absStore_def emptyHistory_def emptyStore_def ownerOf_def agetOr_def initialOwner_def
        fun_eq_iff)
qed

subsection \<open>Delivery state\<close>

definition patched :: "jsstr \<Rightarrow> jsstr \<Rightarrow> jsstr \<Rightarrow> jsstr \<Rightarrow> row \<Rightarrow> store \<Rightarrow> store" where
  "patched now owner key ns r s = (let st = ownerOf owner s; seq = sNext st; v = nextSequenceString (rRevision r) in
     pushChange owner \<lparr>cSeq = seq, cKey = key, cKind = StateChange, cVersion = v, cState = Some ns, cDeletedAt = None,
       cCreatedAt = Some now\<rparr>
     (setOwner owner (st\<lparr>sNext := nextSequenceString seq\<rparr>)
     (s\<lparr>records := aset (mkKey owner key) (r\<lparr>rDelivery := ns, rRevision := v, rChangeSequence := seq\<rparr>) (records s)\<rparr>)))"

lemma opBind_res: "opBind m f s = (res, s') \<longleftrightarrow>
    (\<exists>err. m s = (Inl err, s') \<and> res = Inl err) \<or> (\<exists>x s1. m s = (Inr x, s1) \<and> f x s1 = (res, s'))"
  by (auto simp: opBind_eq split: prod.splits sum.splits)

lemma frame_checkIdempotency: "checkIdempotency e owner key opn ps s = (r, s') \<Longrightarrow> sameCore s s'"
  using sameCore_checkIdempotency [of s e owner key opn ps] by simp

lemma frame_consumeFailure: "consumeFailure p s = (r, s') \<Longrightarrow> sameCore s s'"
  using sameCore_consumeFailure [of s p] by simp

lemma frame_ownerState: "linked s \<Longrightarrow> ownerState owner s = (r, s') \<Longrightarrow> sameCore s s' \<and> r = Inr (ownerOf owner s)"
  using sameCore_ownerState [of s owner] ownerState_eq [of owner s] by simp

lemma frame_idempotency: "linked s \<Longrightarrow> sameCore s (storeIdempotency e t opn r s)"
  by (rule sameCore_storeIdempotency)

lemma linked_sameCore: "sameCore s s' \<Longrightarrow> linked s \<Longrightarrow> linked s'"
  by (simp add: sameCore_def)

lemma ownerOf_same: "sameCore s s' \<Longrightarrow> ownerOf o' s' = ownerOf o' s"
  by (simp add: sameCore_def)

lemma patchGuards_same: "sameCore s s' \<Longrightarrow> patchGuards owner key ns v s' = patchGuards owner key ns v s"
  by (simp add: patchGuards_def sameCore_def)

lemma linked_patched: "linked s \<Longrightarrow> linked (patched now owner key ns r s)"
  unfolding patched_def Let_def by (rule linked_step) simp

lemma patched_same:
  "linked s \<Longrightarrow> sameCore s s' \<Longrightarrow> sameCore (patched now owner key ns r s) (patched now owner key ns r s')"
  using linked_patched [of s' now owner key ns r] linked_sameCore [of s s']
  by (simp add: sameCore_def patched_def Let_def)

text \<open>The two effects of \<open>patchState\<close>: none, or one row moved.\<close>

lemma patchState_cases:
  assumes l: "linked s" and run: "patchState e owner key ns erev ik s = (res, s')"
  obtains (same) "sameCore s s'"
      "\<forall>r. res = Inr (r, False) \<longrightarrow> (\<exists>v row. patchGuards owner key ns v s = Inr row \<and> erev = Str v \<and> rDelivery row = ns
         \<and> r = PatchResult key (rRevision row) (rChangeSequence row) True)"
  | (moved) v r where "erev = Str v" "patchGuards owner key ns v s = Inr r" "rDelivery r \<noteq> ns"
      "res = Inr (PatchResult key (nextSequenceString (rRevision r)) (sNext (ownerOf owner s)) False, False)"
      "sameCore (patched (eNow e) owner key ns r s) s'"
proof (cases "validateStateMutationInput erev ik")
  case Inl
  then show thesis using run same by (auto simp: patchState_def opBind_eq)
next
  case (Inr vk)
  obtain v k0 where vk: "vk = (v, k0)" by fastforce
  have ev: "erev = Str v" using Inr vk
    by (auto simp: validateStateMutationInput_def result_simps recode_def split: sum.splits)
  obtain ri s1 where ci: "checkIdempotency e owner ik ''patchState''
      [(js ''recordKey'', Some key), (js ''newState'', Some ns), (js ''expectedRevision'', Some v)] s = (ri, s1)"
    by fastforce
  have s1: "sameCore s s1" by (rule frame_checkIdempotency [OF ci])
  show thesis
  proof (cases ri)
    case e: (Inl err)
    then show thesis using run same s1 by (auto simp: patchState_def opBind_eq Inr vk ci)
  next
    case idem: (Inr idem)
    show thesis
    proof (cases "case idem of Some k \<Rightarrow> kExisting k | None \<Rightarrow> None")
      case (Some r)
      then show thesis using run same s1 idem by (auto simp: patchState_def opBind_eq Inr vk ci)
    next
      case None
      obtain rf s2 where cf: "consumeFailure PatchState s1 = (rf, s2)" by fastforce
      have s2: "sameCore s s2" using sameCore_trans [OF s1 frame_consumeFailure [OF cf]] .
      show thesis
      proof (cases rf)
        case e: (Inl err)
        then show thesis using run same s2 idem None by (auto simp: patchState_def opBind_eq Inr vk ci cf)
      next
        case u: (Inr u)
        obtain s3 where os: "ownerState owner s2 = (Inr (ownerOf owner s2), s3)" using ownerState_eq by blast
        have l2: "linked s2" using linked_sameCore [OF s2 l] .
        have s3: "sameCore s s3" using frame_ownerState [OF l2 os] sameCore_trans [OF s2] by blast
        have oo: "ownerOf owner s2 = ownerOf owner s" using ownerOf_same [OF s2] .
        show thesis
        proof (cases "patchGuards owner key ns v s")
          case g: (Inl err)
          then show thesis using run same s3 idem None u
            by (auto simp: patchState_def opBind_eq Inr vk ci cf os patchGuards_same [OF s3])
        next
          case g: (Inr r)
          show thesis
          proof (cases "rDelivery r = ns")
            case True
            have i: "sameCore s (storeIdempotency e idem ''patchState''
                (PatchResult key (rRevision r) (rChangeSequence r) True) s3)" 
              by (rule sameCore_trans [OF s3 sameCore_storeIdempotency])
            have "s' = storeIdempotency e idem ''patchState'' (PatchResult key (rRevision r) (rChangeSequence r) True) s3"
              "res = Inr (PatchResult key (rRevision r) (rChangeSequence r) True, False)"
              using run idem None u g True
              by (simp_all add: patchState_def opBind_eq Inr vk ci cf os patchGuards_same [OF s3] Let_def)
            then show thesis using same i g True ev by blast
          next
            case False
            have c3: "sameCore (patched (eNow e) owner key ns r s) (patched (eNow e) owner key ns r s3)"
              by (rule patched_same [OF l s3])
            have "s' = storeIdempotency e idem ''patchState''
                (PatchResult key (nextSequenceString (rRevision r)) (sNext (ownerOf owner s)) False)
                (patched (eNow e) owner key ns r s3)"
              "res = Inr (PatchResult key (nextSequenceString (rRevision r)) (sNext (ownerOf owner s)) False, False)"
              using run idem None u g False
              by (simp_all add: patchState_def opBind_eq Inr vk ci cf os oo patchGuards_same [OF s3] allocSequence_def
                  patched_def Let_def ownerOf_same [OF s3])
            then show thesis
              using moved [OF ev g False] sameCore_trans [OF c3 sameCore_storeIdempotency] by blast
          qed
        qed
      qed
    qed
  qed
qed

subsection \<open>Deletion\<close>

definition deleted :: "jsstr \<Rightarrow> jsstr \<Rightarrow> jsstr \<Rightarrow> store \<Rightarrow> store" where
  "deleted now owner key s = (let st = ownerOf owner s; seq = sNext st; k = mkKey owner key;
     st1 = st\<lparr>sNext := nextSequenceString seq\<rparr> in
     pushChange owner \<lparr>cSeq = seq, cKey = key, cKind = Delete, cVersion = js ''1'', cState = None,
       cDeletedAt = Some now, cCreatedAt = Some now\<rparr>
     (setOwner owner (case map_of (records s) k of
         Some r \<Rightarrow> st1\<lparr>sCount := sCount st1 - 1, sBytes := sBytes st1 - int (rBodyBytes r)\<rparr> | None \<Rightarrow> st1)
     (s\<lparr>records := (if map_of (records s) k = None then records s else adel k (records s)),
        tombstones := aset k \<lparr>tSeq = seq, tDeletedAt = now\<rparr> (tombstones s)\<rparr>)))"

lemma linked_deleted: "linked s \<Longrightarrow> linked (deleted now owner key s)"
  unfolding deleted_def Let_def by (rule linked_step) (simp add: linked_def changesOf_def)

lemma deleted_same: "linked s \<Longrightarrow> sameCore s s' \<Longrightarrow> sameCore (deleted now owner key s) (deleted now owner key s')"
  using linked_deleted [of s' now owner key] linked_sameCore [of s s']
  by (simp add: sameCore_def deleted_def Let_def)

lemma deleteRecord_cases:
  assumes l: "linked s" and run: "deleteRecord e owner key ik s = (res, s')"
  obtains (same) "sameCore s s'"
      "\<forall>r. res = Inr (r, False) \<longrightarrow> r = DeleteResult False None (sEpoch (ownerOf owner s))
         \<and> map_of (records s) (mkKey owner key) = None \<and> map_of (tombstones s) (mkKey owner key) = None"
  | (deleted) "map_of (records s) (mkKey owner key) \<noteq> None \<or> map_of (tombstones s) (mkKey owner key) \<noteq> None"
      "res = Inr (DeleteResult True (Some (sNext (ownerOf owner s))) (sEpoch (ownerOf owner s)), False)"
      "sameCore (deleted (eNow e) owner key s) s'"
proof -
  obtain ri s1 where ci: "checkIdempotency e owner ik ''deleteRecord'' [(js ''recordKey'', Some key)] s = (ri, s1)"
    by fastforce
  have s1: "sameCore s s1" by (rule frame_checkIdempotency [OF ci])
  show thesis
  proof (cases ri)
    case e: (Inl err)
    then show thesis using run same s1 by (auto simp: deleteRecord_def opBind_eq ci)
  next
    case idem: (Inr idem)
    show thesis
    proof (cases "case idem of Some k \<Rightarrow> kExisting k | None \<Rightarrow> None")
      case (Some r)
      then show thesis using run same s1 idem by (auto simp: deleteRecord_def opBind_eq ci)
    next
      case None
      obtain rf s2 where cf: "consumeFailure DeleteRecord s1 = (rf, s2)" by fastforce
      have s2: "sameCore s s2" using sameCore_trans [OF s1 frame_consumeFailure [OF cf]] .
      show thesis
      proof (cases rf)
        case e: (Inl err)
        then show thesis using run same s2 idem None by (auto simp: deleteRecord_def opBind_eq ci cf)
      next
        case u: (Inr u)
        obtain s3 where os: "ownerState owner s2 = (Inr (ownerOf owner s2), s3)" using ownerState_eq by blast
        have l2: "linked s2" using linked_sameCore [OF s2 l] .
        have s3: "sameCore s s3" using frame_ownerState [OF l2 os] sameCore_trans [OF s2] by blast
        have oo: "ownerOf owner s2 = ownerOf owner s" "records s3 = records s" "tombstones s3 = tombstones s"
            "ownerOf owner s3 = ownerOf owner s"
          using s2 s3 by (simp_all add: sameCore_def)
        show thesis
        proof (cases "map_of (records s) (mkKey owner key) = None \<and> map_of (tombstones s) (mkKey owner key) = None")
          case True
          have "s' = storeIdempotency e idem ''deleteRecord'' (DeleteResult False None (sEpoch (ownerOf owner s))) s3"
            "res = Inr (DeleteResult False None (sEpoch (ownerOf owner s)), False)"
            using run idem None u True by (simp_all add: deleteRecord_def opBind_eq ci cf os oo Let_def)
          then show thesis using same True sameCore_trans [OF s3 sameCore_storeIdempotency] by blast
        next
          case False
          have same_rec: "s3\<lparr>records := records s, tombstones := x\<rparr> = s3\<lparr>tombstones := x\<rparr>" for x
            using oo(2) by (cases s3) simp
          let ?r = "DeleteResult True (Some (sNext (ownerOf owner s))) (sEpoch (ownerOf owner s))"
          have "s' = storeIdempotency e idem ''deleteRecord'' ?r
              (invalidateSnapshotsForRecord owner (sEpoch (ownerOf owner s)) key (deleted (eNow e) owner key s3))"
            "res = Inr (?r, False)"
            using run idem None u False
            by (auto simp: deleteRecord_def opBind_eq ci cf os oo Let_def deleted_def allocSequence_def same_rec split: option.splits)
          moreover have "sameCore (deleted (eNow e) owner key s) (deleted (eNow e) owner key s3)"
            by (rule deleted_same [OF l s3])
          ultimately show thesis
            using deleted False sameCore_trans sameCore_invalidate(1) sameCore_storeIdempotency by meson
        qed
      qed
    qed
  qed
qed

definition cleared :: "jsstr \<Rightarrow> jsstr option \<Rightarrow> store \<Rightarrow> store" where
  "cleared owner ep s =
     (let st = (ownerOf owner s)\<lparr>sCount := 0, sBytes := 0\<rparr>;
          s1 = s\<lparr>records := filter (\<lambda>(k, r). \<not> ownedKey owner k) (records s),
                 tombstones := filter (\<lambda>(k, t). \<not> ownedKey owner k) (tombstones s)\<rparr>
      in case ep of None \<Rightarrow> setOwner owner st s1
         | Some ep' \<Rightarrow> (let s2 = setOwner owner (st\<lparr>sEpoch := ep'\<rparr>) s1 in s2\<lparr>changes := aset owner [] (changes s2)\<rparr>))"

lemma linked_cleared: "linked s \<Longrightarrow> linked (cleared owner ep s)"
  by (auto simp: cleared_def Let_def linked_def setOwner_def changesOf_def split: option.split)

lemma cleared_same: "linked s \<Longrightarrow> sameCore s s' \<Longrightarrow> sameCore (cleared owner ep s) (cleared owner ep s')"
  using linked_cleared [of s' owner ep] linked_sameCore [of s s']
  by (simp add: sameCore_def cleared_def Let_def setOwner_def ownerOf_def changesOf_def split: option.split)

lemma deleteAll_cases:
  assumes l: "linked s" and run: "deleteAll e owner ik xp s = (res, s')"
  obtains (same) "sameCore s s'" "\<forall>r. res \<noteq> Inr (r, False)"
  | (exhausted) err where "rotateOwnerEpoch (eUuids e) (sEpoch (ownerOf owner s)) = Inl err" "res = Inl err"
      "sameCore (cleared owner None s) s'"
  | (cleared) ep' where "rotateOwnerEpoch (eUuids e) (sEpoch (ownerOf owner s)) = Inr ep'"
      "xp = None \<or> xp = Some (sEpoch (ownerOf owner s))"
      "res = Inr (DeleteAllResult ep', False)" "sameCore (cleared owner (Some ep') s) s'"
proof -
  obtain ri s1 where ci: "checkIdempotency e owner ik ''deleteAll'' [(js ''expectedEpoch'', xp)] s = (ri, s1)"
    by fastforce
  have s1: "sameCore s s1" by (rule frame_checkIdempotency [OF ci])
  have o1: "ownerOf owner s1 = ownerOf owner s" by (rule ownerOf_same [OF s1])
  show thesis
  proof (cases ri)
    case e: (Inl err)
    then show thesis using run same s1 by (auto simp: deleteAll_def opBind_eq ci)
  next
    case idem: (Inr idem)
    show thesis
    proof (cases "(case idem of Some k \<Rightarrow> kExisting k | None \<Rightarrow> None) = None
        \<and> (xp = None \<or> xp = Some (sEpoch (ownerOf owner s)))")
      case False
      then show thesis using run same s1 idem
        by (auto simp: deleteAll_def opBind_eq ci o1 require_def split: option.splits if_splits)
    next
      case True
      obtain rf s2 where cf: "consumeFailure DeleteAll s1 = (rf, s2)" by fastforce
      have s2: "sameCore s s2" using sameCore_trans [OF s1 frame_consumeFailure [OF cf]] .
      show thesis
      proof (cases rf)
        case e: (Inl err)
        then show thesis using run same s2 idem True by (auto simp: deleteAll_def opBind_eq ci cf o1)
      next
        case u: (Inr u)
        obtain s3 where os: "ownerState owner s2 = (Inr (ownerOf owner s2), s3)" using ownerState_eq by blast
        have l2: "linked s2" using linked_sameCore [OF s2 l] .
        have s3: "sameCore s s3" using frame_ownerState [OF l2 os] sameCore_trans [OF s2] by blast
        have oo: "ownerOf owner s2 = ownerOf owner s" "ownerOf owner s3 = ownerOf owner s"
          using s2 s3 by (simp_all add: sameCore_def)
        have cl: "sameCore (cleared owner x s) (cleared owner x s3)" for x by (rule cleared_same [OF l s3])
        show thesis
        proof (cases "rotateOwnerEpoch (eUuids e) (sEpoch (ownerOf owner s))")
          case r: (Inl err)
          have "s' = cleared owner None s3" "res = Inl err"
            using run idem True u by (auto simp: deleteAll_def opBind_eq ci cf os o1 oo r Let_def cleared_def)
          then show thesis using exhausted [OF r] cl by blast
        next
          case r: (Inr ep')
          have "s' = storeIdempotency e idem ''deleteAll'' (DeleteAllResult ep')
              (invalidateSnapshotsForEpoch owner (sEpoch (ownerOf owner s)) (cleared owner (Some ep') s3))"
            "res = Inr (DeleteAllResult ep', False)"
            using run idem True u by (auto simp: deleteAll_def opBind_eq ci cf os o1 oo r Let_def cleared_def)
          then show thesis
            using cleared [OF r] True cl sameCore_trans sameCore_invalidate(2) sameCore_storeIdempotency by meson
        qed
      qed
    qed
  qed
qed

subsection \<open>Refinement\<close>

lemma map_of_filter_key: "map_of (filter (\<lambda>(k, v). P k) m) k = (if P k then map_of m k else None)"
  by (induction m) auto

lemma live_absStore: "live (absStore s) p = (if proper p then map_option msgOf (map_of (records s) (mkKey (fst p) (snd p))) else None)"
  by (simp add: absStore_def)

lemma refine_patched:
  assumes inv: "storeInv L s" and o': "noNul owner" and g: "patchGuards owner key ns v s = Inr r" and d: "rDelivery r \<noteq> ns"
  shows "ownerStep owner (absStore s) (absStore (patched now owner key ns r s))"
proof -
  have look: "map_of (records s) (mkKey owner key) = Some r" "map_of (tombstones s) (mkKey owner key) = None"
    and acc: "rDelivery r \<noteq> js ''accepted''"
    using g d by (auto simp: patchGuards_Inr)
  have "noNul key" using mkKey_row [OF inv look(1) o'] rowOk_key by blast
  then have p: "proper (owner, key)" using o' by (simp add: proper_def)
  obtain n where n: "sNext (ownerOf owner s) = decOfNat n" using logOk_next [OF inv] by blast
  have "absStore (patched now owner key ns r s) = tick owner ((absStore s)\<lparr>live := (live (absStore s))((owner, key) \<mapsto>
      moved ns (nextSeq (absStore s) owner) (msgOf r))\<rparr>)"
    using mkKey_proper [OF _ p]
    by (auto simp: absStore_def patched_def Let_def tick_def fun_eq_iff n moved_def msgOf_def p nextSequenceString_def
        rowContent_def)
  then show ?thesis
    using ownerStep.hist_deliver [of "absStore s" owner key "msgOf r" ns] look p d acc
    by (simp add: absStore_def msgOf_def)
qed

lemma stored_key_proper:
  assumes inv: "storeInv L s" and o': "noNul owner"
    and k: "map_of (records s) (mkKey owner key) \<noteq> None \<or> map_of (tombstones s) (mkKey owner key) \<noteq> None"
  shows "proper (owner, key)"
proof (cases "map_of (records s) (mkKey owner key)")
  case (Some r)
  then show ?thesis using mkKey_row [OF inv Some o'] rowOk_key o' by (auto simp: proper_def)
next
  case None
  then obtain t where "(mkKey owner key, t) \<in> set (tombstones s)" using k by (auto dest: map_of_SomeD)
  then have "goodKey (mkKey owner key)" using inv by (force simp: storeInv_def tombstonesOk_def)
  then show ?thesis using o' mkKey_inject identityKeyRe_noNul hex64Re_noNul
    unfolding goodKey_def proper_def by (metis fst_conv snd_conv)
qed

lemma refine_deleted:
  assumes inv: "storeInv L s" and o': "noNul owner"
    and k: "map_of (records s) (mkKey owner key) \<noteq> None \<or> map_of (tombstones s) (mkKey owner key) \<noteq> None"
  shows "ownerStep owner (absStore s) (absStore (deleted now owner key s))"
proof -
  have p: "proper (owner, key)" by (rule stored_key_proper [OF assms])
  obtain n where n: "sNext (ownerOf owner s) = decOfNat n" using logOk_next [OF inv] by blast
  have "absStore (deleted now owner key s) = tick owner ((absStore s)\<lparr>live := (live (absStore s))((owner, key) := None),
      gone := insert (owner, key) (gone (absStore s))\<rparr>)"
    using mkKey_proper [OF _ p] p
    by (auto simp: absStore_def deleted_def Let_def tick_def fun_eq_iff n nextSequenceString_def split: option.splits)
  then show ?thesis
    using ownerStep.hist_delete [of "absStore s" owner key] k p by (auto simp: absStore_def)
qed

lemma refine_cleared: "ownerStep owner (absStore s) (absStore (cleared owner ep s))"
proof -
  have own: "proper (a, b) \<Longrightarrow> ownedKey owner (mkKey a b) \<longleftrightarrow> a = owner" for a b
    by (auto simp: proper_def ownedKey_mkKey)
  have "absStore (cleared owner ep s) = (absStore s)\<lparr>live := (\<lambda>p. if fst p = owner then None else live (absStore s) p),
      gone := {p \<in> gone (absStore s). fst p \<noteq> owner}\<rparr>"
    by (auto simp: absStore_def cleared_def Let_def setOwner_def ownerOf_def map_of_filter_key own fun_eq_iff
        split: option.split)
  then show ?thesis using ownerStep.hist_clear by simp
qed

lemma map_of_new:
  assumes "\<forall>(k, r) \<in> set new. k = mkKey owner (rKey r) \<and> noNul (rKey r)" "noNul owner" "proper (o', k)"
  shows "map_option msgOf (map_of new (mkKey o' k)) =
     (if o' = owner then map_of (map (\<lambda>(k, r). (rKey r, msgOf r)) new) k else None)"
  using assms(1)
proof (induction new)
  case (Cons x new)
  obtain a r where x: "x = (a, r)" by fastforce
  have "mkKey o' k = mkKey owner (rKey r) \<longleftrightarrow> o' = owner \<and> k = rKey r"
    using mkKey_proper [of "(o', k)" "(owner, rKey r)"] Cons.prems assms(2,3) by (auto simp: proper_def x)
  then show ?case using Cons by (auto simp: x)
qed simp

lemma distinct_mapI: "distinct (map f xs) \<Longrightarrow> distinct xs"
  by (simp add: distinct_map)

lemma refine_archive:
  assumes inv: "storeInv L s" and run: "archiveBatch e L owner ep input s = (res, s')"
  shows "ownerStep owner (absStore s) (absStore s')"
proof (cases "sameCore s s'")
  case True
  then show ?thesis by (simp add: absStore_same ownerStep.hist_none)
next
  case False
  with archive_effect [OF inv run] obtain n new where
    n: "sNext (ownerOf owner s) = decOfNat n" "sNext (ownerOf owner s') = decOfNat (n + length new)"
    and r: "records s' = records s @ new" "tombstones s' = tombstones s"
    and seqs: "map (rChangeSequence \<circ> snd) new = map decOfNat [n..<n + length new]"
    and oth: "\<forall>o'. o' \<noteq> owner \<longrightarrow> ownerOf o' s' = ownerOf o' s \<and> changesOf o' s' = changesOf o' s"
    and new: "\<forall>(k, r) \<in> set new. rowOk r \<and> rOwner r = owner \<and> rRevision r = js ''1'' \<and> rCreatedAt r = eNow e
             \<and> rDelivery r \<in> {js ''prepared'', js ''received''}
             \<and> map_of (records s) k = None \<and> map_of (tombstones s) k = None"
    by (fastforce simp: case_prod_unfold)
  have inv': "storeInv L s'" using archiveBatch_inv [OF inv, of e owner ep input] run by simp
  have keys: "\<forall>(k, r) \<in> set new. k = mkKey owner (rKey r) \<and> noNul (rKey r) \<and> noNul owner"
    using inv' new rowOk_key unfolding storeInv_def recordsOk_def r by fastforce
  let ?ms = "map (\<lambda>(k, r). (rKey r, msgOf r)) new"
  have nx: "nextSeq (absStore s) owner = n" by (simp add: absStore_def n)
  show ?thesis
  proof (cases "new = []")
    case True
    have "sNext (ownerOf o' s') = sNext (ownerOf o' s)" for o'
      using oth n True by (cases "o' = owner") auto
    then have "absStore s' = absStore s" using True r by (auto simp: absStore_def)
    then show ?thesis by (simp add: ownerStep.hist_none)
  next
    case False
    then have o': "noNul owner" using keys by (cases new) auto
    have k2: "\<forall>(k, r) \<in> set new. k = mkKey owner (rKey r) \<and> noNul (rKey r)" using keys by blast
    have dk: "distinct (map fst ?ms)"
    proof -
      have d: "distinct (map fst new)" using inv' by (simp add: storeInv_def recordsOk_def r)
      have "map (mkKey owner) (map fst ?ms) = map fst new" using k2 by (auto simp: case_prod_unfold)
      with d have "distinct (map (mkKey owner) (map fst ?ms))" by (simp only:)
      then show ?thesis by (rule distinct_mapI)
    qed
    have one: "natOfDec (js ''1'') = 1" using decOfNat_1 by (metis natOfDec_decOfNat)
    have fresh: "freshMsgs owner ?ms (absStore s)"
      unfolding freshMsgs_def
    proof (intro conjI dk)
      have "map (msgSequence \<circ> snd) ?ms = map natOfDec (map (rChangeSequence \<circ> snd) new)"
        by (simp add: case_prod_unfold msgOf_def comp_def)
      then show "map (msgSequence \<circ> snd) ?ms = [nextSeq (absStore s) owner..<nextSeq (absStore s) owner + length ?ms]"
        unfolding seqs nx by (simp add: comp_def)
      show "\<forall>(k, m) \<in> set ?ms. live (absStore s) (owner, k) = None \<and> (owner, k) \<notin> gone (absStore s)
          \<and> msgRevision m = 1 \<and> msgState m \<in> {js ''prepared'', js ''received''}"
        using new k2 one by (auto simp: absStore_def msgOf_def case_prod_unfold)
    qed
    have nxt: "nextSeq (absStore s') = (nextSeq (absStore s))(owner := n + length new)"
      using oth n by (auto simp: absStore_def fun_eq_iff)
    have "absStore s' = archiveAll owner ?ms (absStore s)"
    proof (rule history.equality)
      show "live (absStore s') = live (archiveAll owner ?ms (absStore s))"
      proof
        fix p :: "jsstr \<times> jsstr"
        obtain a b where p: "p = (a, b)" by fastforce
        show "live (absStore s') p = live (archiveAll owner ?ms (absStore s)) p"
        proof (cases "proper p")
          case True
          then have "map_option msgOf (map_of new (mkKey a b)) = (if a = owner then map_of ?ms b else None)"
            using map_of_new [OF k2 o', of a b] by (simp add: p)
          moreover have "map_of (records s) k = None" if "map_of new k = Some z" for k z
            using new map_of_SomeD [OF that] by auto
          ultimately show ?thesis using True
            by (auto simp: p archiveAll_live [OF dk] live_absStore r map_add_def split: option.splits if_splits)
        next
          case np: False
          have "map_of ?ms b = None" if "a = owner"
            using np k2 o' that by (auto simp: p proper_def map_of_eq_None_iff)
          then show ?thesis using np by (auto simp: p archiveAll_live [OF dk] live_absStore)
        qed
      qed
    qed (use nxt nx in \<open>simp_all add: archiveAll_rest absStore_def r\<close>)
    then show ?thesis using ownerStep.hist_archive [OF fresh] by simp
  qed
qed

lemma core_patch:
  "storeInv L s \<Longrightarrow> noNul owner \<Longrightarrow> ownerStep owner (absStore s) (absStore (snd (patchState e owner key ns erev ik s)))"
proof -
  assume inv: "storeInv L s" and o': "noNul owner"
  obtain res s' where run: "patchState e owner key ns erev ik s = (res, s')" by fastforce
  have l: "linked s" using inv by (simp add: storeInv_def)
  show ?thesis
  proof (cases rule: patchState_cases [OF l run])
    case 1
    then show ?thesis by (simp add: run absStore_same ownerStep.hist_none)
  next
    case (2 v r)
    show ?thesis using refine_patched [OF inv o' 2(2,3), of "eNow e"] absStore_same [OF 2(5)] run by simp
  qed
qed

lemma core_delete:
  "storeInv L s \<Longrightarrow> noNul owner \<Longrightarrow> ownerStep owner (absStore s) (absStore (snd (deleteRecord e owner key ik s)))"
proof -
  assume inv: "storeInv L s" and o': "noNul owner"
  obtain res s' where run: "deleteRecord e owner key ik s = (res, s')" by fastforce
  have l: "linked s" using inv by (simp add: storeInv_def)
  show ?thesis
  proof (cases rule: deleteRecord_cases [OF l run])
    case 1
    then show ?thesis by (simp add: run absStore_same ownerStep.hist_none)
  next
    case 2
    then show ?thesis using refine_deleted [OF inv o' 2(1)] absStore_same [OF 2(3)] by (simp add: run)
  qed
qed

lemma core_deleteAll:
  "storeInv L s \<Longrightarrow> ownerStep owner (absStore s) (absStore (snd (deleteAll e owner ik xp s)))"
proof -
  assume inv: "storeInv L s"
  obtain res s' where run: "deleteAll e owner ik xp s = (res, s')" by fastforce
  have l: "linked s" using inv by (simp add: storeInv_def)
  show ?thesis
  proof (cases rule: deleteAll_cases [OF l run])
    case 1
    then show ?thesis by (simp add: run absStore_same ownerStep.hist_none)
  next
    case (2 err)
    then show ?thesis using refine_cleared absStore_same [OF 2(3)] by (simp add: run)
  next
    case (3 ep')
    then show ?thesis using refine_cleared absStore_same [OF 3(4)] by (simp add: run)
  qed
qed

text \<open>The other calls leave the history as it is.\<close>

lemma absStoreI:
  "records s' = records s \<Longrightarrow> tombstones s' = tombstones s \<Longrightarrow> (\<And>o'. ownerOf o' s' = ownerOf o' s) \<Longrightarrow> absStore s' = absStore s"
  by (auto simp: absStore_def)

lemma abs_bind_owner:
  "(\<And>st x. absStore (snd (f st x)) = absStore x) \<Longrightarrow> absStore (snd (opBind (ownerState owner) f s)) = absStore s"
proof -
  assume a: "\<And>st x. absStore (snd (f st x)) = absStore x"
  have "absStore (snd (ownerState owner s)) = absStore s"
    by (rule absStoreI) (simp_all add: ownerOf_ownerState, simp_all add: ownerState_def split: option.split)
  moreover obtain s1 where "ownerState owner s = (Inr (ownerOf owner s), s1)" using ownerState_eq by blast
  ultimately show ?thesis using a by (simp add: opBind_eq)
qed

lemma abs_bind_lift:
  "(\<And>x s. absStore (snd (f x s)) = absStore s) \<Longrightarrow> absStore (snd (opBind (opLift r) f s)) = absStore s"
  by (cases r) (simp_all add: opBind_eq)

lemma abs_reads:
  "absStore (snd (getUsage owner s)) = absStore s" "absStore (snd (getStorageStats ov s)) = absStore s"
  "absStore (snd (listChangesPage ov fa s)) = absStore s" "absStore (snd (createSnapshot e owner flt s)) = absStore s"
proof -
  show u: "absStore (snd (getUsage owner s)) = absStore s" for owner s
    unfolding getUsage_def by (rule abs_bind_owner) simp
  show "absStore (snd (getStorageStats ov s)) = absStore s"
    unfolding getStorageStats_def
  proof (rule abs_bind_lift)
    fix x s
    show "absStore (snd (opBind (getUsage x) (\<lambda>u s. (Inr \<lparr>ssUsage = u, ssChanges = length (changesOf x s),
             ssDetails = length (filter (\<lambda>c. cKind c \<noteq> Delete) (changesOf x s)),
             ssTombstones = length (filter (\<lambda>p. ownedKey x (fst p)) (tombstones s)),
             ssSnapshots = length (ownedSnapshots x s), ssItems = ownedItems x s,
             ssIdempotency = length (filter (\<lambda>p. ownedKey x (fst p)) (idempotency s)),
             ssAudits = length (agetOr [] x (audits s))\<rparr>, s)) s)) = absStore s"
      using u [of x s] by (auto simp: opBind_eq split: prod.split sum.split)
  qed
  show "absStore (snd (listChangesPage ov fa s)) = absStore s"
    unfolding listChangesPage_def by (intro abs_bind_lift abs_bind_owner) simp
  show "absStore (snd (createSnapshot e owner flt s)) = absStore s"
    unfolding createSnapshot_def
    by (intro abs_bind_lift abs_bind_owner) (auto simp: Let_def ownerOf_def split: sum.split intro!: absStoreI)
qed

lemma abs_purgeSnapshots: "absStore (snd (purgeExpiredSnapshots now b mi ms s)) = absStore s"
proof -
  have p: "purgeSnapLoop bo now xs a ni ns x = (r, x') \<Longrightarrow> absStore x' = absStore x" for bo xs a ni ns x r x'
    by (rule absStore_same) (rule purgeSnapLoop_same)
  have c: "consumeFailure SnapshotCleanup s = (r, x) \<Longrightarrow> absStore x = absStore s" for r x
    by (rule absStore_same) (rule frame_consumeFailure)
  show ?thesis
    by (auto simp: purgeExpiredSnapshots_def opBind_eq Let_def p c split: prod.split sum.split)
qed

lemma abs_purgeChanges: "absStore (snd (purgeExpiredChanges dp own now b mi s)) = absStore s"
proof -
  have 1: "absStore (advancePurge o' xs q s) = absStore s" for o' xs q
    using advancePurge_eq [of o' xs q s] by (auto simp: absStore_def ownerOf_def)
  have 2: "absStore (if c then x else x\<lparr>changes := y\<rparr>) = absStore x" for c x y
    by (auto simp: absStore_def ownerOf_def)
  show ?thesis
    by (cases "retentionCutoffIso dp now"; cases own)
      (simp_all add: purgeExpiredChanges_def Let_def 1 2 split: prod.split)
qed

lemma storeStep_refines: "storeStep L s s' \<Longrightarrow> storeInv L s \<Longrightarrow> histStep (absStore s) (absStore s')"
proof (induction rule: storeStep.induct)
  case (step_archive e owner ep input s)
  then show ?case using refine_archive histStepI by (metis prod.collapse)
next
  case (step_injectCommit s)
  have "absStore (injectCommitFailureOnce s) = absStore s"
    by (rule absStoreI) (simp_all add: injectCommitFailureOnce_def ownerOf_def)
  then show ?case by (simp add: histStepI [OF ownerStep.hist_none])
next
  case (step_inject s name)
  have "absStore (snd (injectFailureOnce name s)) = absStore s"
    by (rule absStoreI) (simp_all add: injectFailureOnce_def ownerOf_def split: list.split)
  then show ?case by (simp add: histStepI [OF ownerStep.hist_none])
qed (simp_all add: histStepI [OF core_patch] histStepI [OF core_delete] histStepI [OF core_deleteAll] abs_reads abs_purgeSnapshots abs_purgeChanges histStepI [OF ownerStep.hist_none])

subsection \<open>The store is a history repository\<close>

lemma absStore_exclusive: "storeInv L s \<Longrightarrow> p \<in> gone (absStore s) \<Longrightarrow> live (absStore s) p = None"
proof -
  assume inv: "storeInv L s" and p: "p \<in> gone (absStore s)"
  then have "mkKey (fst p) (snd p) \<in> fst ` set (tombstones s)"
    by (force simp: absStore_def dest: map_of_SomeD)
  then have "mkKey (fst p) (snd p) \<notin> fst ` set (records s)"
    using inv by (auto simp: storeInv_def tombstonesOk_def)
  then show ?thesis by (simp add: absStore_def map_of_eq_None_iff)
qed

interpretation mem: history_repository "storeStep L" "storeInv L" absStore emptyStore
  by unfold_locales
    (auto simp: storeInv_empty absStore_empty intro: storeStep_inv storeStep_refines absStore_exclusive)

lemma storeReach_rtrancl: "storeReach L s \<Longrightarrow> (storeStep L)\<^sup>*\<^sup>* emptyStore s"
  by (induction rule: storeReach.induct) (auto intro: rtranclp.rtrancl_into_rtrancl)

text \<open>C2: Every store the adapter reaches satisfies its invariant: each row is filed under its own
  key, with the record key, body hash and byte count recomputed from its content; no key is live and
  deleted at once; the owner's counters are exactly the number and the bytes of its rows and stay
  within the quotas; and its change log is strictly increasing and ends before the next sequence.\<close>

theorem store_invariant: "storeReach L s \<Longrightarrow> storeInv L s"
  by (rule mem.reachable_good) (rule storeReach_rtrancl)

theorem store_invariant_witness: "storeInv LIMITS m0Store"
  by (rule store_invariant) (rule m0_reach)

text \<open>C1: The adapter refines the history contract: along any run from the empty store, each call
  (archive, delivery state, delete, clear, snapshot, purge, read, injected failure; whatever its
  arguments, clock and errors) is one step of the abstract history, which only knows messages by
  owner and key, deleted keys and the next sequence.\<close>

theorem store_refines_history:
  assumes "storeReach L s" and "storeStep L s s'"
  shows "histStep (absStore s) (absStore s') \<and> histStep\<^sup>*\<^sup>* emptyHistory (absStore s')"
proof -
  have "histStep (absStore s) (absStore s')"
    using mem.refine assms mem.reachable_good storeReach_rtrancl by blast
  moreover have "histStep\<^sup>*\<^sup>* emptyHistory (absStore s)"
    using mem.run_refines storeReach_rtrancl assms(1) by blast
  ultimately show ?thesis by auto
qed

theorem store_refines_history_witness:
  "histStep (absStore emptyStore) (absStore m0Store) \<and> histStep\<^sup>*\<^sup>* emptyHistory (absStore m0Store)"
proof (rule store_refines_history [of LIMITS])
  show "storeStep LIMITS emptyStore m0Store"
    using step_archive [where e = m0Env and owner = m0Owner and ep = "Str (js ''gen-1'')"
        and input = "Arr [m0Record]" and L = LIMITS and s = emptyStore]
    by (simp add: m0_archived)
qed (rule reach_empty)

text \<open>C8: No call ever changes what a message is. While a record stays live, whatever is called, its
  content (ids, box, direction, parties, body hash and body) and creation time are the same and its
  revision never decreases; once its delivery state is \<open>accepted\<close> the row's state, revision and
  sequence are final.\<close>

theorem content_immutable:
  assumes "storeReach L s" "storeStep L s s'" "proper (owner, key)"
    and "getRecord owner key s = Some r" "getRecord owner key s' = Some r'"
  shows "rowContent r' = rowContent r \<and> rCreatedAt r' = rCreatedAt r
    \<and> natOfDec (rRevision r) \<le> natOfDec (rRevision r')
    \<and> (rDelivery r = js ''accepted'' \<longrightarrow> rDelivery r' = js ''accepted'' \<and> natOfDec (rRevision r') = natOfDec (rRevision r)
        \<and> natOfDec (rChangeSequence r') = natOfDec (rChangeSequence r))"
proof -
  have "laterHistory (absStore s) (absStore s')"
    using mem.step_later assms(1,2) mem.reachable_good storeReach_rtrancl by blast
  moreover have "live (absStore s) (owner, key) = Some (msgOf r)" "live (absStore s') (owner, key) = Some (msgOf r')"
    using assms(3-5) by (simp_all add: live_absStore getRecord_def)
  ultimately have "laterMsg (msgOf r) (msgOf r')" by (auto simp: laterHistory_def)
  then show ?thesis by (auto simp: laterMsg_def msgOf_def)
qed

text \<open>C7: Deletion wins. After any call, a deleted key of an owner still has its marker and no row, so
  it cannot be archived or patched back to life; the only way out is that the owner was cleared, and
  then the owner has no row and no marker at all.\<close>

theorem deletion_wins:
  assumes "storeReach L s" "storeStep L s s'" "proper (owner, key)"
    and "map_of (tombstones s) (mkKey owner key) \<noteq> None"
  shows "(getRecord owner key s' = None \<and> map_of (tombstones s') (mkKey owner key) \<noteq> None)
    \<or> (\<forall>k. noNul k \<longrightarrow> getRecord owner k s' = None \<and> map_of (tombstones s') (mkKey owner k) = None)"
proof -
  have good: "storeInv L s" using assms(1) mem.reachable_good storeReach_rtrancl by blast
  have "(owner, key) \<in> gone (absStore s)" using assms(3,4) by (simp add: absStore_def)
  from mem.gone_stays [OF assms(2) good this] show ?thesis
    using assms(3) by (auto simp: absStore_def getRecord_def proper_def)
qed

text \<open>C9: Change sequences are never reused: over any number of calls, clearing included, the owner's
  next sequence number never decreases.\<close>

theorem sequences_never_reused:
  assumes "storeReach L s" "(storeStep L)\<^sup>*\<^sup>* s s'"
  shows "natOfDec (sNext (ownerOf owner s)) \<le> natOfDec (sNext (ownerOf owner s'))"
proof -
  have "storeInv L s" using assms(1) mem.reachable_good storeReach_rtrancl by blast
  from mem.sequences_grow [OF assms(2) this] show ?thesis by (simp add: absStore_def)
qed

subsection \<open>The properties at a concrete store\<close>

definition m0Accepted :: store where
  "m0Accepted = snd (patchState m0Env m0Owner m0Key (js ''accepted'') (Str (js ''1'')) (Str (js ''retry-1'')) m0Store)"

definition m0Deleted :: store where
  "m0Deleted = snd (deleteRecord m0Env m0Owner m0Key Undefined m0Store)"

lemma m0_noNul: "noNul m0Owner" "noNul m0Key" "proper (m0Owner, m0Key)"
  using identityKeyRe_noNul [OF m0_owner(2)] hex64Re_noNul [OF sha256Hex_hex64]
  by (auto simp: proper_def m0Key_def)

lemma m0_find: "map_of (records m0Store) (mkKey m0Owner m0Key) = Some m0Row" "map_of (tombstones m0Store) k = None"
  "getRecord m0Owner m0Key m0Store = Some m0Row"
  by (simp_all add: m0Store_def getRecord_def)

lemma m0_linked: "linked m0Store"
  using m0_store_inv by (simp add: storeInv_def)

lemma m0_accepted: "getRecord m0Owner m0Key m0Accepted =
    Some (m0Row\<lparr>rDelivery := js ''accepted'', rRevision := js ''2'', rChangeSequence := js ''2''\<rparr>)"
proof -
  have v: "validateStateMutationInput (Str (js ''1'')) (Str (js ''retry-1'')) = Inr (js ''1'', js ''retry-1'')"
  proof -
    have "validateChangeSequence (Str (js ''1'')) ''expectedRevision'' = Inr (js ''1'')"
      unfolding decOfNat_1 by (simp add: MAX_UINT64_def)
    moreover have "validateIdempotencyKey (Str (js ''retry-1'')) = Inr (js ''retry-1'')"
      by (simp add: validateIdempotencyKey_Inr idempotencyRe_def js_def isAlnum_def isDigit_def)
    ultimately show ?thesis by (simp add: validateStateMutationInput_def recode_def)
  qed
  obtain ticket where i: "checkIdempotency m0Env m0Owner (Str (js ''retry-1'')) ''patchState''
      [(js ''recordKey'', Some m0Key), (js ''newState'', Some (js ''accepted'')), (js ''expectedRevision'', Some (js ''1''))]
      m0Store = (Inr (Some ticket), m0Store)" and ti: "kExisting ticket = None"
  proof -
    have "validateIdempotencyKey (Str (js ''retry-1'')) = Inr (js ''retry-1'')"
      by (simp add: validateIdempotencyKey_Inr idempotencyRe_def js_def isAlnum_def isDigit_def)
    then show thesis
      using that by (simp add: checkIdempotency_def m0Store_def Let_def MAX_IDEMPOTENCY_ROWS_PER_OWNER_def)
  qed
  have f: "consumeFailure PatchState m0Store = (Inr (), m0Store)" by (simp add: consumeFailure_def m0Store_def)
  have os: "ownerState m0Owner m0Store = (Inr \<lparr>sEpoch = js ''gen-1'', sNext = js ''2'', sCount = 1, sBytes = 27\<rparr>, m0Store)"
    by (simp add: ownerState_def m0Store_def)
  have g: "patchGuards m0Owner m0Key (js ''accepted'') (js ''1'') m0Store = Inr m0Row"
    by (simp add: patchGuards_Inr m0_find DELIVERY_STATES_def) (simp add: m0Row_def)
  have n: "nextSequenceString (js ''1'') = js ''2''"
    unfolding decOfNat_1 by (simp add: decOfNat_2)
  have d: "rDelivery m0Row \<noteq> js ''accepted''" "rRevision m0Row = js ''1''" by (simp_all add: m0Row_def js_def)
  show ?thesis
    by (simp add: m0Accepted_def patchState_def opBind_eq v i ti f os g allocSequence_def Let_def getRecord_def d n)
      (simp add: storeIdempotency_def)
qed

lemma m0_deleted: "getRecord m0Owner m0Key m0Deleted = None" "map_of (tombstones m0Deleted) (mkKey m0Owner m0Key) \<noteq> None"
proof -
  obtain res s' where run: "deleteRecord m0Env m0Owner m0Key Undefined m0Store = (res, s')" by fastforce
  have "m0Deleted = s'" by (simp add: m0Deleted_def run)
  moreover have "sameCore (deleted (eNow m0Env) m0Owner m0Key m0Store) s'"
  proof (cases rule: deleteRecord_cases [OF m0_linked run])
    case 1
    have "fst (deleteRecord m0Env m0Owner m0Key Undefined m0Store) = Inr (DeleteResult True (Some (js ''2'')) (js ''gen-1''), False)"
      by (simp add: deleteRecord_def checkIdempotency_def opBind_eq consumeFailure_def ownerState_def allocSequence_def
          Let_def m0Store_def)
    with 1 run show ?thesis by simp
  qed
  ultimately have "records m0Deleted = records (deleted (eNow m0Env) m0Owner m0Key m0Store)"
      "tombstones m0Deleted = tombstones (deleted (eNow m0Env) m0Owner m0Key m0Store)"
    by (simp_all add: sameCore_def)
  then show "getRecord m0Owner m0Key m0Deleted = None" "map_of (tombstones m0Deleted) (mkKey m0Owner m0Key) \<noteq> None"
    by (simp_all add: deleted_def Let_def getRecord_def m0_find)
qed

lemma m0_steps: "storeStep LIMITS m0Store m0Accepted" "storeStep LIMITS m0Store m0Deleted" "storeReach LIMITS m0Deleted"
proof -
  show "storeStep LIMITS m0Store m0Accepted" unfolding m0Accepted_def by (rule step_patch) (rule m0_noNul)
  show d: "storeStep LIMITS m0Store m0Deleted" unfolding m0Deleted_def by (rule step_delete) (rule m0_noNul)
  show "storeReach LIMITS m0Deleted" using m0_reach d by (rule reach_step)
qed

theorem content_immutable_witness:
  "rowContent (m0Row\<lparr>rDelivery := js ''accepted'', rRevision := js ''2'', rChangeSequence := js ''2''\<rparr>) = rowContent m0Row"
  using content_immutable [OF m0_reach m0_steps(1) m0_noNul(3) m0_find(3) m0_accepted] by blast

theorem deletion_wins_witness:
  "let s' = snd (archiveBatch m0Env LIMITS m0Owner (Str (js ''gen-1'')) (Arr [m0Record]) m0Deleted) in
   (getRecord m0Owner m0Key s' = None \<and> map_of (tombstones s') (mkKey m0Owner m0Key) \<noteq> None)
    \<or> (\<forall>k. noNul k \<longrightarrow> getRecord m0Owner k s' = None \<and> map_of (tombstones s') (mkKey m0Owner k) = None)"
  unfolding Let_def
  by (rule deletion_wins [OF m0_steps(3) step_archive m0_noNul(3) m0_deleted(2)])

theorem sequences_never_reused_witness:
  "natOfDec (sNext (ownerOf m0Owner emptyStore)) \<le> natOfDec (sNext (ownerOf m0Owner m0Store))"
  by (rule sequences_never_reused [OF reach_empty storeReach_rtrancl [OF m0_reach]])

end
