(* ===== verification/StoreIsolation.thy ===== *)
theory StoreIsolation
  imports StoreRefines
begin

section \<open>The memory repository keeps the owners apart\<close>

text \<open>
  Everything the store holds of an owner (state, rows, markers, log, audit trail, purge position,
  snapshots, idempotent results) is untouched by the mutations and reads of another owner. Owners
  are identity keys, so no key of one starts with the prefix of another. The id of a new snapshot is
  drawn at random; a snapshot it collides with is the one exception, and is named in the statement.
\<close>

record owner_part =
  opState :: "owner_state option"
  opRows :: "(jsstr \<times> row) list"
  opMarkers :: "(jsstr \<times> tombstone) list"
  opLog :: "change list option"
  opAudits :: "audit_entry list option"
  opPurge :: "jsstr option"
  opSnapshots :: "(jsstr \<times> snap_meta) list"
  opItems :: "jsstr \<Rightarrow> snap_item list option"
  opIdempotency :: "(jsstr \<times> idem_entry) list"

definition ownerPart :: "jsstr \<Rightarrow> jsstr \<Rightarrow> store \<Rightarrow> owner_part" where
  "ownerPart sid o' s = \<lparr>opState = map_of (owners s) o', opRows = filter (\<lambda>p. ownedKey o' (fst p)) (records s),
     opMarkers = filter (\<lambda>p. ownedKey o' (fst p)) (tombstones s), opLog = map_of (changes s) o',
     opAudits = map_of (audits s) o', opPurge = map_of (purgePositions s) o',
     opSnapshots = filter (\<lambda>p. mOwner (snd p) = o' \<and> fst p \<noteq> sid) (snapshots s),
     opItems = (map_of (snapshotItems s))(sid := None),
     opIdempotency = filter (\<lambda>p. ownedKey o' (fst p)) (idempotency s)\<rparr>"

definition apart :: "jsstr \<Rightarrow> jsstr \<Rightarrow> bool" where
  "apart a b \<longleftrightarrow> (\<forall>k. \<not> (ownedKey a k \<and> ownedKey b k)) \<and> a \<noteq> b"

lemma apart_identity: "identityKeyRe a \<Longrightarrow> identityKeyRe b \<Longrightarrow> a \<noteq> b \<Longrightarrow> apart a b"
proof -
  assume i: "identityKeyRe a" "identityKeyRe b" "a \<noteq> b"
  have len: "length a = 66" "length b = 66" using i by (auto simp: identityKeyRe_def split: list.splits)
  have "a = b" if "ownedKey a k" "ownedKey b k" for k
    using that len by (simp add: ownedKey_def startsWith_def)
  then show ?thesis using i(3) by (auto simp: apart_def)
qed

lemma apart_neq: "apart owner o' \<Longrightarrow> o' \<noteq> owner" "apart owner o' \<Longrightarrow> owner \<noteq> o'"
  by (auto simp: apart_def)

lemma apart_key: "apart owner o' \<Longrightarrow> \<not> ownedKey o' (mkKey owner k)"
proof -
  have "ownedKey owner (mkKey owner k)" by (simp add: ownedKey_def startsWith_def mkKey_def)
  then show "apart owner o' \<Longrightarrow> ?thesis" by (auto simp: apart_def)
qed

text \<open>An operation of \<open>owner\<close> that leaves the part of every other owner alone.\<close>

definition sparesOthers :: "jsstr \<Rightarrow> jsstr \<Rightarrow> 'a op \<Rightarrow> bool" where
  "sparesOthers sid owner m \<longleftrightarrow> (\<forall>s o'. apart owner o' \<longrightarrow> ownerPart sid o' (snd (m s)) = ownerPart sid o' s)"

named_theorems spare_rules \<open>operations that leave the other owners alone\<close>

lemma filter_aset_other: "\<not> P k \<Longrightarrow> filter (\<lambda>p. P (fst p)) (aset k v m) = filter (\<lambda>p. P (fst p)) m"
  by (induction k v m rule: aset.induct) auto

lemma filter_adel_other: "\<not> P k \<Longrightarrow> filter (\<lambda>p. P (fst p)) (adel k m) = filter (\<lambda>p. P (fst p)) m"
  by (induction m) (auto simp: adel_def)

lemma spares_bind [spare_rules]:
  "sparesOthers sid owner m \<Longrightarrow> (\<And>x. sparesOthers sid owner (f x)) \<Longrightarrow> sparesOthers sid owner (opBind m f)"
  unfolding sparesOthers_def opBind_eq
proof (intro allI impI)
  fix s o'
  assume m: "\<forall>s o'. apart owner o' \<longrightarrow> ownerPart sid o' (snd (m s)) = ownerPart sid o' s"
    and f: "\<And>x. \<forall>s o'. apart owner o' \<longrightarrow> ownerPart sid o' (snd (f x s)) = ownerPart sid o' s" and a: "apart owner o'"
  obtain r s1 where r: "m s = (r, s1)" by fastforce
  then have "ownerPart sid o' s1 = ownerPart sid o' s" using m a by (metis snd_conv)
  then show "ownerPart sid o' (snd (case m s of (Inl e, s') \<Rightarrow> (Inl e, s') | (Inr x, s') \<Rightarrow> f x s')) = ownerPart sid o' s"
    using f a r by (cases r) auto
qed

lemma spares_same [spare_rules]:
  "sparesOthers sid owner (opReturn x)" "sparesOthers sid owner (opLift r)" "sparesOthers sid owner (\<lambda>s. (g s, s))"
  by (simp_all add: sparesOthers_def)

lemma spares_upd [spare_rules]:
  "(\<And>s o'. apart owner o' \<Longrightarrow> ownerPart sid o' (g s) = ownerPart sid o' s) \<Longrightarrow> sparesOthers sid owner (opUpd g)"
  by (simp add: sparesOthers_def)

lemma part_setters:
  assumes "apart owner o'"
  shows "ownerPart sid o' (setOwner owner st s) = ownerPart sid o' s"
    "ownerPart sid o' (pushChange owner c s) = ownerPart sid o' s"
    "ownerPart sid o' (audit e owner kind k detail s) = ownerPart sid o' s"
    "ownerPart sid o' (s\<lparr>records := aset (mkKey owner key) r (records s)\<rparr>) = ownerPart sid o' s"
    "ownerPart sid o' (s\<lparr>records := adel (mkKey owner key) (records s)\<rparr>) = ownerPart sid o' s"
    "ownerPart sid o' (s\<lparr>tombstones := aset (mkKey owner key) t (tombstones s)\<rparr>) = ownerPart sid o' s"
    "ownerPart sid o' (s\<lparr>changes := aset owner cs (changes s)\<rparr>) = ownerPart sid o' s"
    "ownerPart sid o' (s\<lparr>commitFailureOnce := b, failOnce := fs\<rparr>) = ownerPart sid o' s"
    "ownerPart sid o' (s\<lparr>records := adel (mkKey owner key) (records s), tombstones := aset (mkKey owner key) t (tombstones s)\<rparr>)
       = ownerPart sid o' s"
  using apart_neq [OF assms] apart_key [OF assms]
  by (simp_all add: ownerPart_def setOwner_def pushChange_def audit_def Let_def filter_aset_other filter_adel_other)

lemma part_invalidate:
  assumes "apart owner o'"
  shows "ownerPart sid o' (invalidateSnapshotsForRecord owner ep key s) = ownerPart sid o' s"
    "ownerPart sid o' (invalidateSnapshotsForEpoch owner ep s) = ownerPart sid o' s"
proof -
  have "filter (\<lambda>p. mOwner (snd p) = o' \<and> fst p \<noteq> sid)
      (map (\<lambda>(i, m). (i, if mOwner m = owner \<and> Q m then m\<lparr>mStatus := x\<rparr> else m)) ms)
    = filter (\<lambda>p. mOwner (snd p) = o' \<and> fst p \<noteq> sid) ms" for Q x ms
    using apart_neq [OF assms] by (induction ms) auto
  then show "ownerPart sid o' (invalidateSnapshotsForRecord owner ep key s) = ownerPart sid o' s"
    "ownerPart sid o' (invalidateSnapshotsForEpoch owner ep s) = ownerPart sid o' s"
    by (simp_all add: ownerPart_def invalidateSnapshotsForRecord_def invalidateSnapshotsForEpoch_def)
qed

lemma spares_ownerState [spare_rules]: "sparesOthers sid owner (ownerState owner)"
  by (auto simp: sparesOthers_def ownerState_def ownerPart_def dest: apart_neq split: option.split)

lemma spares_consumeFailure [spare_rules]: "sparesOthers sid owner (consumeFailure p)"
  by (simp add: sparesOthers_def consumeFailure_def ownerPart_def)

lemma spares_checkIdempotency [spare_rules]: "sparesOthers sid owner (checkIdempotency e owner key opn params)"
proof -
  have "ownerPart sid o' (s\<lparr>idempotency := filter (\<lambda>(sk, en). \<not> (ownedKey owner sk \<and> Q en)) (idempotency s)\<rparr>) = ownerPart sid o' s"
    if "apart owner o'" for s o' Q
    using that by (auto simp: ownerPart_def apart_def intro!: filter_cong)
  then show ?thesis
    by (simp add: sparesOthers_def checkIdempotency_def Let_def split: sum.split option.split)
qed

lemma spares_cases [spare_rules]:
  "sparesOthers sid owner a \<Longrightarrow> sparesOthers sid owner b \<Longrightarrow> sparesOthers sid owner (if c then a else b)"
  "(\<And>x y. sparesOthers sid owner (f x y)) \<Longrightarrow> sparesOthers sid owner (case p of (x, y) \<Rightarrow> f x y)"
  "sparesOthers sid owner a \<Longrightarrow> (\<And>x. sparesOthers sid owner (g x)) \<Longrightarrow> sparesOthers sid owner (case t of None \<Rightarrow> a | Some x \<Rightarrow> g x)"
  by (simp_all split: prod.split option.split)

text \<open>A ticket names a key of its owner.\<close>

definition ownTicket :: "jsstr \<Rightarrow> idem_ticket option \<Rightarrow> bool" where
  "ownTicket owner t \<longleftrightarrow> (\<forall>k. t = Some k \<longrightarrow> (\<exists>x. kMapKey k = mkKey owner x))"

lemma checkIdempotency_ticket: "checkIdempotency e owner key opn params s = (Inr t, s') \<Longrightarrow> ownTicket owner t"
  by (auto simp: checkIdempotency_def ownTicket_def Let_def split: if_splits sum.splits option.splits)

lemma part_storeIdempotency:
  "apart owner o' \<Longrightarrow> ownTicket owner t \<Longrightarrow> ownerPart sid o' (storeIdempotency e t opn r s) = ownerPart sid o' s"
  using apart_key by (auto simp: storeIdempotency_def ownTicket_def ownerPart_def filter_aset_other split: option.split)

lemma spares_ticket:
  "(\<And>t. ownTicket owner t \<Longrightarrow> sparesOthers sid owner (f t))
   \<Longrightarrow> sparesOthers sid owner (opBind (checkIdempotency e owner key opn params) f)"
  unfolding sparesOthers_def opBind_eq
proof (intro allI impI)
  fix s o'
  assume f: "\<And>t. ownTicket owner t \<Longrightarrow> \<forall>s o'. apart owner o' \<longrightarrow> ownerPart sid o' (snd (f t s)) = ownerPart sid o' s"
    and a: "apart owner o'"
  obtain r s1 where r: "checkIdempotency e owner key opn params s = (r, s1)" by fastforce
  have "ownerPart sid o' s1 = ownerPart sid o' s"
    using spares_checkIdempotency [of sid owner e key opn params, unfolded sparesOthers_def] a r by (metis snd_conv)
  then show "ownerPart sid o' (snd (case checkIdempotency e owner key opn params s of
      (Inl e, s') \<Rightarrow> (Inl e, s') | (Inr x, s') \<Rightarrow> f x s')) = ownerPart sid o' s"
    using f checkIdempotency_ticket r a by (cases r) auto
qed

subsection \<open>The operations\<close>

lemma part_planLoop:
  "apart owner o' \<Longrightarrow> planLoop e L owner ep i rs p = (outs, p') \<Longrightarrow> ownerPart sid o' (plStore p') = ownerPart sid o' (plStore p)"
proof (induction rs arbitrary: i p outs)
  case (Cons r rs)
  obtain x p1 where x: "planItem e L owner ep i r p = (x, p1)" by fastforce
  have "ownerPart sid o' (plStore p1) = ownerPart sid o' (plStore p)"
    using x part_setters(3) [OF Cons.prems(1)]
    by (auto simp: planItem_def Let_def split: archive_check.splits option.splits if_splits prod.splits)
  then show ?case using Cons x by (auto split: prod.splits)
qed simp

lemma part_commitLoop:
  "apart owner o' \<Longrightarrow> commitLoop e owner xs s = (ys, s') \<Longrightarrow> ownerPart sid o' s' = ownerPart sid o' s"
proof (induction xs arbitrary: s ys)
  case (Cons x xs)
  have "ownerPart sid o' (snd (commitItem e owner x s)) = ownerPart sid o' s"
    using part_setters [OF Cons.prems(1)] by (simp add: commitItem_def allocSequence_def Let_def)
  then show ?case using Cons by (auto split: prod.splits if_splits)
qed simp

lemma spares_archiveBatch: "sparesOthers sid owner (archiveBatch e L owner ep input)"
proof -
  have last: "sparesOthers sid owner (\<lambda>s. let (planned, p) = planLoop e L owner ep 0 rs \<lparr>plProj = pr s, plPending = [], plStore = s\<rparr>;
       s1 = plStore p
     in if b s1 then (Inr (x planned), s1\<lparr>commitFailureOnce := False, failOnce := fs s1\<rparr>)
        else let (outs, s2) = commitLoop e owner planned s1 in (Inr (y outs), s2))" for rs pr b fs
    and x y :: "outcome list \<Rightarrow> batch_result"
    unfolding sparesOthers_def
  proof (intro allI impI, goal_cases)
    case a: (1 s o')
    obtain planned p where l: "planLoop e L owner ep 0 rs \<lparr>plProj = pr s, plPending = [], plStore = s\<rparr> = (planned, p)" by fastforce
    obtain outs s2 where c: "commitLoop e owner planned (plStore p) = (outs, s2)" by fastforce
    have "ownerPart sid o' (plStore p) = ownerPart sid o' s" using part_planLoop [OF a l] by simp
    moreover have "ownerPart sid o' s2 = ownerPart sid o' (plStore p)" by (rule part_commitLoop [OF a c])
    ultimately show ?case by (simp add: l c Let_def part_setters(8) [OF a])
  qed
  show ?thesis
    unfolding archiveBatch_def
    by (intro spare_rules) (use last in \<open>simp add: Let_def\<close>)
qed

lemma spares_patchState: "sparesOthers sid owner (patchState e owner key ns erev ik)"
  unfolding patchState_def Let_def allocSequence_def prod.case
  by (rule spares_bind [OF spares_same(2)], rule spares_cases, rule spares_ticket, intro spare_rules)
    (simp_all add: part_setters part_storeIdempotency)

lemma spares_step:
  "(\<And>s o'. apart owner o' \<Longrightarrow> ownerPart sid o' (snd (g s)) = ownerPart sid o' s) \<Longrightarrow> sparesOthers sid owner g"
  by (simp add: sparesOthers_def)

lemma spares_deleteRecord: "sparesOthers sid owner (deleteRecord e owner key ik)"
  unfolding deleteRecord_def Let_def allocSequence_def prod.case
  by (rule spares_ticket, intro spare_rules spares_step)
    (simp add: part_setters part_invalidate part_storeIdempotency split: option.split)

lemma part_dropOwner:
  assumes "apart owner o'"
  shows "ownerPart sid o' (s\<lparr>records := filter (\<lambda>(k, r). \<not> ownedKey owner k) (records s),
      tombstones := filter (\<lambda>(k, t). \<not> ownedKey owner k) (tombstones s)\<rparr>) = ownerPart sid o' s" (is ?drop)
    "ownerPart sid o' (setOwner owner st (s\<lparr>records := filter (\<lambda>(k, r). \<not> ownedKey owner k) (records s),
      tombstones := filter (\<lambda>(k, t). \<not> ownedKey owner k) (tombstones s)\<rparr>)\<lparr>changes := aset owner [] (changes s)\<rparr>)
       = ownerPart sid o' s" (is ?rotate)
proof -
  show drop: ?drop using assms by (auto simp: ownerPart_def apart_def intro!: filter_cong)
  have "ownerPart sid o' (setOwner owner st s1\<lparr>changes := aset owner [] (changes s1)\<rparr>) = ownerPart sid o' s1" for s1
    using apart_neq [OF assms] by (simp add: ownerPart_def setOwner_def)
  from this [of "s\<lparr>records := filter (\<lambda>(k, r). \<not> ownedKey owner k) (records s),
      tombstones := filter (\<lambda>(k, t). \<not> ownedKey owner k) (tombstones s)\<rparr>"] drop
  show ?rotate by simp
qed

lemma spares_deleteAll: "sparesOthers sid owner (deleteAll e owner ik xp)"
  unfolding deleteAll_def Let_def
  by (rule spares_ticket, intro spare_rules spares_step)
    (simp add: part_setters part_invalidate part_dropOwner part_storeIdempotency split: sum.split)

lemma part_snapshot:
  "apart owner o' \<Longrightarrow> mOwner m = owner \<Longrightarrow>
   ownerPart sid o' (s\<lparr>snapshots := aset sid m (snapshots s), snapshotItems := aset sid xs (snapshotItems s)\<rparr>) = ownerPart sid o' s"
proof -
  have "filter (\<lambda>p. mOwner (snd p) = o' \<and> fst p \<noteq> sid) (aset sid m ms) = filter (\<lambda>p. mOwner (snd p) = o' \<and> fst p \<noteq> sid) ms" for ms
    by (induction sid m ms rule: aset.induct) auto
  then show ?thesis by (auto simp: ownerPart_def)
qed

lemma spares_createSnapshot: "sparesOthers (eSnapshotId e) owner (createSnapshot e owner flt)"
  unfolding createSnapshot_def Let_def
  by (intro spare_rules spares_step) (simp add: part_snapshot split: sum.split option.split)

lemma spares_reads: "sparesOthers sid owner (getUsage owner)" "sparesOthers sid owner (listChangesPage (Str owner) fa)"
proof -
  have own: "validateFeedOwner (Str owner) = Inr own \<Longrightarrow> own = owner" for own
    by (auto simp: validateFeedOwner_def split: if_splits)
  have lift: "opBind (opLift (Inl x)) f = (\<lambda>s. (Inl x, s))" "opBind (opLift (Inr y)) f = f y" for x y and f :: "jsstr \<Rightarrow> 'z op"
    by (simp_all add: fun_eq_iff opBind_eq)
  show "sparesOthers sid owner (listChangesPage (Str owner) fa)"
  proof (cases "validateFeedOwner (Str owner)")
    case (Inl x)
    then show ?thesis by (simp add: listChangesPage_def lift spare_rules)
  next
    case (Inr own)
    then have "validateFeedOwner (Str owner) = Inr owner" using own by blast
    then show ?thesis unfolding listChangesPage_def by (simp only: lift) (intro spare_rules)
  qed
  show "sparesOthers sid owner (getUsage owner)"
    unfolding getUsage_def by (intro spare_rules)
qed

end
