(* ===== verification/NetAddress.thy ===== *)
theory NetAddress
  imports Cursor
begin

section \<open>Network addresses as rate-limit keys\<close>

text \<open>
  The IP address code of \<open>src/service.ts\<close>: \<open>canonicalizeIpv4\<close>, \<open>canonicalizeIpv6\<close>,
  \<open>normalizeIpLiteral\<close>, \<open>parseTrustedProxy\<close> and \<open>resolveRateLimitIpKey\<close>. A result that is
  \<open>null\<close> in the code is \<open>None\<close>. \<open>toLowerCase\<close> is written for the ASCII letters: no other code
  unit is mapped to one of the units an address may hold, so the others never matter here.
\<close>

subsection \<open>Strings\<close>

definition jsTrim :: "jsstr \<Rightarrow> jsstr" where
  "jsTrim s = List.rev (dropWhile isTrimmed (List.rev (dropWhile isTrimmed s)))"

definition lowerUnit :: "code_unit \<Rightarrow> code_unit" where
  "lowerUnit u = (if 0x41 \<le> u \<and> u \<le> 0x5A then u + 0x20 else u)"

definition hexChar :: "nat \<Rightarrow> code_unit" where
  "hexChar d = of_nat (if d < 10 then 0x30 + d else 0x57 + d)"

definition hexDigitVal :: "code_unit \<Rightarrow> nat" where
  "hexDigitVal u = (if isDigit u then unat u - 0x30 else unat u - 0x57)"

fun hexOfNat :: "nat \<Rightarrow> jsstr" where
  "hexOfNat n = (if n < 16 then [hexChar n] else hexOfNat (n div 16) @ [hexChar (n mod 16)])"

declare hexOfNat.simps [simp del]

definition natOfHex :: "jsstr \<Rightarrow> nat" where
  "natOfHex s = foldl (\<lambda>n u. 16 * n + hexDigitVal u) 0 s"

subsection \<open>IPv4\<close>

definition octetOf :: "jsstr \<Rightarrow> nat option" where
  "octetOf s = (if 1 \<le> length s \<and> length s \<le> 3 \<and> list_all isDigit s \<and> natOfDec s \<le> 255
     then Some (natOfDec s) else None)"

definition ipv4Octets :: "jsstr \<Rightarrow> nat list option" where
  "ipv4Octets v = (let octets = splitOn 0x2E v in
     if length octets \<noteq> 4 then None else those (map octetOf octets))"

definition ipv4Text :: "nat list \<Rightarrow> jsstr" where
  "ipv4Text ns = join (js ''.'') (map decOfNat ns)"

definition canonicalizeIpv4 :: "jsstr \<Rightarrow> jsstr option" where
  "canonicalizeIpv4 v = map_option ipv4Text (ipv4Octets v)"

subsection \<open>IPv6\<close>

definition afterLast :: "code_unit \<Rightarrow> jsstr \<Rightarrow> jsstr" where
  "afterLast c s = List.rev (takeWhile (\<lambda>u. u \<noteq> c) (List.rev s))"

definition uptoLast :: "code_unit \<Rightarrow> jsstr \<Rightarrow> jsstr" where
  "uptoLast c s = List.rev (dropWhile (\<lambda>u. u \<noteq> c) (List.rev s))"

text \<open>The trailing dotted quad of an IPv6 literal is rewritten as two groups.\<close>

definition embedIpv4 :: "jsstr \<Rightarrow> jsstr option" where
  "embedIpv4 s =
     (if 0x2E \<in> set s then
        if 0x3A \<notin> set s then None
        else (case ipv4Octets (afterLast 0x3A s) of
            Some [a, b, c, d] \<Rightarrow>
              Some (uptoLast 0x3A s @ hexOfNat (a * 256 + b) @ js '':'' @ hexOfNat (c * 256 + d))
          | _ \<Rightarrow> None)
      else Some s)"

text \<open>\<open>s.match(/::/g)\<close> counted, and the split at the first \<open>::\<close>.\<close>

fun countPairs :: "jsstr \<Rightarrow> nat" where
  "countPairs (a # b # s) = (if a = 0x3A \<and> b = 0x3A then Suc (countPairs s) else countPairs (b # s))"
| "countPairs s = 0"

fun splitPair :: "jsstr \<Rightarrow> (jsstr \<times> jsstr) option" where
  "splitPair (a # b # s) = (if a = 0x3A \<and> b = 0x3A then Some ([], s)
     else map_option (\<lambda>(l, r). (a # l, r)) (splitPair (b # s)))"
| "splitPair s = None"

definition groupsOf :: "jsstr \<Rightarrow> jsstr list" where
  "groupsOf s = (if s = [] then [] else splitOn 0x3A s)"

definition hexGroup :: "jsstr \<Rightarrow> bool" where
  "hexGroup s \<longleftrightarrow> 1 \<le> length s \<and> length s \<le> 4 \<and> list_all isLowerHex s"

definition expandGroups :: "jsstr \<Rightarrow> nat list option" where
  "expandGroups s =
     (if s = [] \<or> \<not> list_all (\<lambda>u. isLowerHex u \<or> u = 0x3A) s then None
      else if 1 < countPairs s then None
      else
        let (head, tail) = (case splitPair s of
            Some (l, r) \<Rightarrow> (groupsOf l, groupsOf r)
          | None \<Rightarrow> (splitOn 0x3A s, []));
          present = head @ tail
        in if \<not> list_all hexGroup present then None
           else if splitPair s \<noteq> None \<and> 7 < length present then None
           else if splitPair s = None \<and> length present \<noteq> 8 then None
           else Some (map natOfHex head @ replicate (8 - length present) 0 @ map natOfHex tail))"

definition ipv6Text :: "nat list \<Rightarrow> jsstr" where
  "ipv6Text gs = join (js '':'') (map hexOfNat gs)"

definition addressText :: "nat list \<Rightarrow> jsstr" where
  "addressText gs =
     (if take 6 gs = [0, 0, 0, 0, 0, 0xFFFF]
      then ipv4Text [gs ! 6 div 256, gs ! 6 mod 256, gs ! 7 div 256, gs ! 7 mod 256]
      else ipv6Text gs)"

definition canonicalizeIpv6 :: "jsstr \<Rightarrow> jsstr option" where
  "canonicalizeIpv6 v = (case embedIpv4 v of None \<Rightarrow> None
     | Some s \<Rightarrow> map_option addressText (expandGroups s))"

subsection \<open>Keys\<close>

definition normalizeIpLiteral :: "jsstr \<Rightarrow> jsstr option" where
  "normalizeIpLiteral v = (let cleaned = hd (splitOn 0x25 (map lowerUnit (jsTrim v))) in
     if cleaned = [] \<or> 45 < length cleaned then None
     else if 0x3A \<in> set cleaned then canonicalizeIpv6 cleaned
     else canonicalizeIpv4 cleaned)"

definition configError :: "string \<Rightarrow> jserr" where
  "configError msg = JsErr TypeError (Some (Other_Code ''ERR_STORAGE_CONFIGURATION'')) msg"

definition parseTrustedProxy :: "jsval \<Rightarrow> jsstr result" where
  "parseTrustedProxy v =
     (if v = Undefined \<or> v = Null \<or> v = Str [] then Inr []
      else case v of
        Str s \<Rightarrow> (case normalizeIpLiteral s of
            None \<Rightarrow> Inl (configError ''trustedProxy must be an exact IP address'')
          | Some k \<Rightarrow> Inr k)
      | _ \<Rightarrow> Inl (configError ''trustedProxy must be an exact IP address''))"

definition resolveRateLimitIpKey :: "jsval \<Rightarrow> jsval \<Rightarrow> jsstr \<Rightarrow> jsstr" where
  "resolveRateLimitIpKey remoteAddress forwarded trustedProxy =
     (let sock = (case remoteAddress of
          Str a \<Rightarrow> (case normalizeIpLiteral a of Some k \<Rightarrow> k | None \<Rightarrow> js ''unknown'')
        | _ \<Rightarrow> js ''unknown'') in
      if trustedProxy = [] \<or> sock \<noteq> trustedProxy then sock
      else case forwarded of
        Str f \<Rightarrow> if f = [] \<or> 256 < length f then sock
          else (case normalizeIpLiteral (last (splitOn 0x2C f)) of Some k \<Rightarrow> k | None \<Rightarrow> sock)
      | _ \<Rightarrow> sock)"

subsection \<open>Numerals and joined groups\<close>

lemma isLowerHex_hexChar: "d < 16 \<Longrightarrow> isLowerHex (hexChar d)"
  by (auto simp: isLowerHex_def isDigit_def hexChar_def word_le_nat_alt unat_of_nat_16 simp del: of_nat_add)

lemma hexDigitVal_hexChar: "d < 16 \<Longrightarrow> hexDigitVal (hexChar d) = d"
  by (auto simp: hexDigitVal_def isDigit_def hexChar_def word_le_nat_alt unat_of_nat_16 simp del: of_nat_add)

lemma hexDigitVal_less: "isLowerHex u \<Longrightarrow> hexDigitVal u < 16"
  by (auto simp: hexDigitVal_def isLowerHex_def isDigit_def word_le_nat_alt)

lemma natOfHex_snoc: "natOfHex (s @ [u]) = 16 * natOfHex s + hexDigitVal u"
  by (simp add: natOfHex_def)

lemma natOfHex_hexOfNat: "natOfHex (hexOfNat n) = n"
proof (induction n rule: hexOfNat.induct)
  case (1 n)
  show ?case
  proof (cases "n < 16")
    case True
    then show ?thesis by (subst hexOfNat.simps) (simp add: natOfHex_def hexDigitVal_hexChar)
  next
    case False
    with 1 show ?thesis by (subst hexOfNat.simps) (simp add: natOfHex_snoc hexDigitVal_hexChar)
  qed
qed

lemma hexOfNat_hex: "list_all isLowerHex (hexOfNat n)"
proof (induction n rule: hexOfNat.induct)
  case (1 n)
  then show ?case by (subst hexOfNat.simps) (simp add: isLowerHex_hexChar)
qed

lemma hexOfNat_not_Nil: "hexOfNat n \<noteq> []"
  by (subst hexOfNat.simps) simp

lemma length_hexOfNat: "n < 16 ^ Suc k \<Longrightarrow> length (hexOfNat n) \<le> Suc k"
proof (induction k arbitrary: n)
  case 0
  then show ?case by (subst hexOfNat.simps) simp
next
  case (Suc k)
  then have "n div 16 < 16 ^ Suc k" by auto
  from Suc.IH [OF this] show ?case by (subst hexOfNat.simps) simp
qed

lemma decOfNat_length_le: "n < 10 ^ Suc k \<Longrightarrow> length (decOfNat n) \<le> Suc k"
proof (induction k arbitrary: n)
  case 0
  then show ?case by (subst decOfNat.simps) simp
next
  case (Suc k)
  then have "n div 10 < 10 ^ Suc k" by auto
  from Suc.IH [OF this] show ?case by (subst decOfNat.simps) simp
qed

lemma natOfHex_less: "list_all isLowerHex s \<Longrightarrow> natOfHex s < 16 ^ length s"
proof (induction s rule: rev_induct)
  case (snoc u s)
  then have "natOfHex s < 16 ^ length s" "hexDigitVal u < 16" by (simp_all add: hexDigitVal_less)
  then show ?case by (simp add: natOfHex_snoc)
qed (simp add: natOfHex_def)

lemma join_Cons: "join [c] (x # xs) = x @ (if xs = [] then [] else c # join [c] xs)"
  by (cases xs) auto

lemma splitOn_join:
  "gs \<noteq> [] \<Longrightarrow> \<forall>g \<in> set gs. c \<notin> set g \<Longrightarrow> splitOn c (join [c] gs) = gs"
  by (induction gs) (auto simp: join_Cons splitOn_append splitOn_none)

lemma length_join: "length (join [c] gs) + 1 = sum_list (map length gs) + length gs \<or> gs = []"
  by (induction gs) (auto simp: join_Cons)

lemma set_join: "set (join [c] gs) \<subseteq> insert c (\<Union>g \<in> set gs. set g)"
  by (induction gs) (auto simp: join_Cons)

lemma those_map: "those (map f xs) = Some ys \<longleftrightarrow> list_all2 (\<lambda>x y. f x = Some y) xs ys"
  by (induction xs arbitrary: ys) (auto simp: list_all2_Cons1 split: option.splits)

subsection \<open>The parsers invert the canonical texts\<close>

definition octets4 :: "nat list \<Rightarrow> bool" where
  "octets4 ns \<longleftrightarrow> length ns = 4 \<and> list_all (\<lambda>n. n \<le> 255) ns"

definition groups8 :: "nat list \<Rightarrow> bool" where
  "groups8 gs \<longleftrightarrow> length gs = 8 \<and> list_all (\<lambda>g. g < 65536) gs"

lemma ipv4Octets_ok: "ipv4Octets v = Some ns \<Longrightarrow> octets4 ns"
proof -
  assume "ipv4Octets v = Some ns"
  then have l: "length (splitOn 0x2E v) = 4" and a: "list_all2 (\<lambda>x y. octetOf x = Some y) (splitOn 0x2E v) ns"
    by (simp_all add: ipv4Octets_def those_map Let_def split: if_splits)
  from a have "length ns = 4" using l by (simp add: list_all2_lengthD)
  moreover have "list_all (\<lambda>n. n \<le> 255) ns"
    using a by (induction rule: list_all2_induct) (auto simp: octetOf_def split: if_splits)
  ultimately show ?thesis by (simp add: octets4_def)
qed

lemma digit_not_dot: "isDigit u \<Longrightarrow> u \<noteq> 0x2E \<and> u \<noteq> 0x3A"
  by (auto simp: isDigit_def)

lemma decOfNat_units: "c \<in> set (decOfNat n) \<Longrightarrow> isDigit c"
  using decOfNat_digits [of n] by (auto simp: list_all_iff)

lemma octetOf_dec: "n \<le> 255 \<Longrightarrow> octetOf (decOfNat n) = Some n"
  using decOfNat_length_le [of n 2] decOfNat_digits [of n]
  by (auto simp: octetOf_def numeral_2_eq_2 Suc_le_eq)

lemma ipv4_roundtrip: "octets4 ns \<Longrightarrow> ipv4Octets (ipv4Text ns) = Some ns"
proof -
  assume o4: "octets4 ns"
  then have "map decOfNat ns \<noteq> []" by (auto simp: octets4_def)
  then have sp: "splitOn 0x2E (ipv4Text ns) = map decOfNat ns"
    unfolding ipv4Text_def js_def using decOfNat_units digit_not_dot
    by (simp, intro splitOn_join) auto
  have "list_all2 (\<lambda>x y. octetOf x = Some y) (map decOfNat ns) ns"
    using o4 by (auto simp: octets4_def list_all2_conv_all_nth list_all_length octetOf_dec)
  then show ?thesis using o4 by (simp add: ipv4Octets_def sp those_map octets4_def del: map_map)
qed

lemma splitPair_none_append:
  assumes "0x3A \<notin> set g" "t \<noteq> []" "hd t \<noteq> 0x3A" "splitPair t = None"
  shows "splitPair (g @ 0x3A # t) = None"
  using assms(1)
proof (induction g)
  case Nil
  then show ?case using assms by (cases t) auto
next
  case (Cons a g)
  then have "splitPair (g @ 0x3A # t) = None" "a \<noteq> 0x3A" by auto
  then show ?case by (cases "g @ 0x3A # t") auto
qed

lemma splitPair_none: "0x3A \<notin> set g \<Longrightarrow> splitPair g = None"
  by (induction g rule: splitPair.induct) auto

lemma splitPair_groups:
  "\<forall>g \<in> set gs. g \<noteq> [] \<and> 0x3A \<notin> set g \<Longrightarrow>
   splitPair (join [0x3A] gs) = None \<and> (gs \<noteq> [] \<longrightarrow> join [0x3A] gs \<noteq> [] \<and> hd (join [0x3A] gs) \<noteq> 0x3A)"
proof (induction gs)
  case (Cons x xs)
  then have x: "x \<noteq> []" "hd x \<noteq> 0x3A" "0x3A \<notin> set x" by (cases x; simp)+
  show ?case
  proof (cases "xs = []")
    case True
    then show ?thesis using x by (simp add: join_Cons splitPair_none)
  next
    case False
    then have "splitPair (join [0x3A] xs) = None" "join [0x3A] xs \<noteq> []" "hd (join [0x3A] xs) \<noteq> 0x3A"
      using Cons by auto
    with x False show ?thesis by (simp add: join_Cons splitPair_none_append)
  qed
qed simp

lemma countPairs_none: "splitPair s = None \<Longrightarrow> countPairs s = 0"
  by (induction s rule: countPairs.induct) (auto split: if_splits)

lemma hexGroup_hexOfNat: "g < 65536 \<Longrightarrow> hexGroup (hexOfNat g)"
  using length_hexOfNat [of g 3] hexOfNat_hex [of g] hexOfNat_not_Nil [of g]
  by (cases "hexOfNat g") (auto simp: hexGroup_def numeral_3_eq_3)

lemma lowerHex_units: "isLowerHex u \<Longrightarrow> u \<noteq> 0x3A \<and> u \<noteq> 0x2E"
  by (auto simp: isLowerHex_def isDigit_def)

lemma hexOfNat_units: "c \<in> set (hexOfNat n) \<Longrightarrow> isLowerHex c"
  using hexOfNat_hex [of n] by (auto simp: list_all_iff)

lemma expandGroups_ok: "expandGroups s = Some gs \<Longrightarrow> groups8 gs"
proof -
  assume e: "expandGroups s = Some gs"
  obtain head tail where ht: "(case splitPair s of Some (l, r) \<Rightarrow> (groupsOf l, groupsOf r)
      | None \<Rightarrow> (splitOn 0x3A s, [])) = (head, tail)" by fastforce
  from e have g: "gs = map natOfHex head @ replicate (8 - length (head @ tail)) 0 @ map natOfHex tail"
    and h: "list_all hexGroup (head @ tail)" and l: "length (head @ tail) \<le> 8"
    unfolding expandGroups_def ht Let_def by (auto split: if_splits)
  have "natOfHex x < 65536" if "hexGroup x" for x
  proof -
    have "natOfHex x < 16 ^ length x" using that by (simp add: hexGroup_def natOfHex_less)
    also have "\<dots> \<le> (16 :: nat) ^ 4" using that by (intro power_increasing) (simp_all add: hexGroup_def)
    finally show ?thesis by simp
  qed
  with h have "list_all (\<lambda>g. g < 65536) gs" by (auto simp: g list_all_iff)
  then show ?thesis using l by (auto simp: g groups8_def)
qed

lemma ipv6_roundtrip: "groups8 gs \<Longrightarrow> expandGroups (ipv6Text gs) = Some gs"
proof -
  assume g8: "groups8 gs"
  have ne: "map hexOfNat gs \<noteq> []" using g8 by (auto simp: groups8_def)
  have t: "ipv6Text gs = join [0x3A] (map hexOfNat gs)" by (simp add: ipv6Text_def js_def)
  have free: "\<forall>g \<in> set (map hexOfNat gs). g \<noteq> [] \<and> 0x3A \<notin> set g"
  proof -
    have "0x3A \<notin> set (hexOfNat n)" for n
      using hexOfNat_units [of "0x3A" n] lowerHex_units [of "0x3A"] by blast
    then show ?thesis by (simp add: hexOfNat_not_Nil)
  qed
  have p: "splitPair (ipv6Text gs) = None" "ipv6Text gs \<noteq> []"
    using splitPair_groups [OF free] ne by (auto simp: t)
  have s: "splitOn 0x3A (ipv6Text gs) = map hexOfNat gs"
    unfolding t using ne free by (intro splitOn_join) auto
  have u: "list_all (\<lambda>u. isLowerHex u \<or> u = 0x3A) (ipv6Text gs)"
    using set_join [of "0x3A" "map hexOfNat gs"] hexOfNat_units by (fastforce simp: list_all_iff t)
  have h: "list_all hexGroup (map hexOfNat gs)"
    using g8 by (auto simp: groups8_def list_all_iff hexGroup_hexOfNat)
  have m: "map natOfHex (map hexOfNat gs) = gs" by (simp add: natOfHex_hexOfNat comp_def)
  show ?thesis using p u s h m g8 countPairs_none [OF p(1)]
    by (simp add: expandGroups_def groups8_def)
qed

subsection \<open>Keys are canonical\<close>

definition addressUnit :: "code_unit \<Rightarrow> bool" where
  "addressUnit u \<longleftrightarrow> isLowerHex u \<or> u = 0x2E \<or> u = 0x3A"

lemma addressUnit_plain: "addressUnit u \<Longrightarrow> \<not> isTrimmed u \<and> lowerUnit u = u \<and> u \<noteq> 0x25"
  by (auto simp: addressUnit_def isLowerHex_def isDigit_def isTrimmed_def lowerUnit_def word_le_nat_alt)

lemma jsTrim_id: "list_all (\<lambda>u. \<not> isTrimmed u) s \<Longrightarrow> jsTrim s = s"
proof -
  assume "list_all (\<lambda>u. \<not> isTrimmed u) s"
  then have d: "dropWhile isTrimmed t = t" if "set t = set s" for t
    using that by (cases t) (auto simp: list_all_iff)
  show ?thesis by (simp add: jsTrim_def d)
qed

lemma cleaned_id: "list_all addressUnit k \<Longrightarrow> hd (splitOn 0x25 (map lowerUnit (jsTrim k))) = k"
proof -
  assume a: "list_all addressUnit k"
  then have "jsTrim k = k" by (intro jsTrim_id) (auto simp: list_all_iff addressUnit_plain)
  moreover have "map lowerUnit k = k" using a by (intro map_idI) (auto simp: list_all_iff addressUnit_plain)
  moreover have "0x25 \<notin> set k" using a addressUnit_plain [of "0x25"] by (auto simp: list_all_iff)
  ultimately show ?thesis by (simp add: splitOn_none)
qed

lemma sum_lengths: "\<forall>x \<in> set xs. length (f x) \<le> n \<Longrightarrow> sum_list (map (length \<circ> f) xs) \<le> length xs * n"
  by (induction xs) (auto simp: add_mono)

lemma ipv4Text_facts:
  assumes "octets4 ns"
  shows "list_all addressUnit (ipv4Text ns)" "0x3A \<notin> set (ipv4Text ns)" "ipv4Text ns \<noteq> []" "length (ipv4Text ns) \<le> 39"
proof -
  have t: "ipv4Text ns = join [0x2E] (map decOfNat ns)" by (simp add: ipv4Text_def js_def)
  have u: "u \<in> set (ipv4Text ns) \<Longrightarrow> isDigit u \<or> u = 0x2E" for u
    using set_join [of "0x2E" "map decOfNat ns"] decOfNat_units by (fastforce simp: t)
  then show "list_all addressUnit (ipv4Text ns)"
    by (auto simp: list_all_iff addressUnit_def isLowerHex_def)
  show "0x3A \<notin> set (ipv4Text ns)" using u [of "0x3A"] by (auto simp: isDigit_def)
  have "ns \<noteq> []" using assms by (auto simp: octets4_def)
  then show "ipv4Text ns \<noteq> []" unfolding t by (cases ns) (simp_all add: join_Cons)
  have "length (decOfNat n) \<le> 3" if "n \<in> set ns" for n
    using assms that decOfNat_length_le [of n 2] by (fastforce simp: octets4_def list_all_iff numeral_2_eq_2)
  then have "sum_list (map (length \<circ> decOfNat) ns) \<le> length ns * 3" by (intro sum_lengths) simp
  then show "length (ipv4Text ns) \<le> 39"
    using length_join [of "0x2E" "map decOfNat ns"] \<open>ns \<noteq> []\<close> assms by (simp add: t octets4_def)
qed

lemma ipv6Text_facts:
  assumes "groups8 gs"
  shows "list_all addressUnit (ipv6Text gs)" "0x3A \<in> set (ipv6Text gs)" "0x2E \<notin> set (ipv6Text gs)"
    "length (ipv6Text gs) \<le> 39"
proof -
  have t: "ipv6Text gs = join [0x3A] (map hexOfNat gs)" by (simp add: ipv6Text_def js_def)
  have u: "u \<in> set (ipv6Text gs) \<Longrightarrow> isLowerHex u \<or> u = 0x3A" for u
    using set_join [of "0x3A" "map hexOfNat gs"] hexOfNat_units by (fastforce simp: t)
  then show "list_all addressUnit (ipv6Text gs)" by (auto simp: list_all_iff addressUnit_def)
  show "0x2E \<notin> set (ipv6Text gs)" using u [of "0x2E"] lowerHex_units by auto
  obtain a b r where gs: "gs = a # b # r" using assms
    by (cases gs; cases "tl gs") (auto simp: groups8_def)
  then show "0x3A \<in> set (ipv6Text gs)" unfolding t by simp
  have "length (hexOfNat g) \<le> 4" if "g \<in> set gs" for g
    using assms that hexGroup_hexOfNat [of g] by (auto simp: groups8_def list_all_iff hexGroup_def)
  then have "sum_list (map (length \<circ> hexOfNat) gs) \<le> length gs * 4" by (intro sum_lengths) simp
  then show "length (ipv6Text gs) \<le> 39"
    using length_join [of "0x3A" "map hexOfNat gs"] gs assms unfolding t by (simp add: groups8_def)
qed

lemma normalize_ipv4Text: "octets4 ns \<Longrightarrow> normalizeIpLiteral (ipv4Text ns) = Some (ipv4Text ns)"
  using ipv4Text_facts [of ns]
  by (simp add: normalizeIpLiteral_def cleaned_id canonicalizeIpv4_def ipv4_roundtrip Let_def)

lemma normalize_ipv6Text:
  "groups8 gs \<Longrightarrow> addressText gs = ipv6Text gs \<Longrightarrow> normalizeIpLiteral (ipv6Text gs) = Some (ipv6Text gs)"
  using ipv6Text_facts [of gs]
  by (auto simp: normalizeIpLiteral_def cleaned_id canonicalizeIpv6_def embedIpv4_def ipv6_roundtrip Let_def)

lemma addressText_cases:
  assumes "groups8 gs"
  obtains ns where "addressText gs = ipv4Text ns" "octets4 ns"
  | "addressText gs = ipv6Text gs"
proof (cases "take 6 gs = [0, 0, 0, 0, 0, 0xFFFF]")
  case True
  have "gs ! 6 < 65536" "gs ! 7 < 65536" using assms by (auto simp: groups8_def list_all_length)
  then have "octets4 [gs ! 6 div 256, gs ! 6 mod 256, gs ! 7 div 256, gs ! 7 mod 256]"
    by (auto simp: octets4_def)
  with True that(1) show ?thesis by (simp add: addressText_def)
qed (use that(2) in \<open>simp add: addressText_def\<close>)

lemma normalize_cases:
  assumes "normalizeIpLiteral v = Some k"
  obtains ns where "k = ipv4Text ns" "octets4 ns"
  | gs where "k = ipv6Text gs" "groups8 gs" "addressText gs = ipv6Text gs"
proof -
  define c where "c = hd (splitOn 0x25 (map lowerUnit (jsTrim v)))"
  from assms consider "canonicalizeIpv4 c = Some k" | "canonicalizeIpv6 c = Some k"
    by (auto simp: normalizeIpLiteral_def c_def Let_def split: if_splits)
  then show ?thesis
  proof cases
    case 1
    then show ?thesis using that(1) by (auto simp: canonicalizeIpv4_def dest: ipv4Octets_ok)
  next
    case 2
    then obtain gs where "k = addressText gs" "groups8 gs"
      by (auto simp: canonicalizeIpv6_def dest: expandGroups_ok split: option.splits)
    then show ?thesis using that by (metis addressText_cases)
  qed
qed

lemma normalize_normalized:
  assumes "normalizeIpLiteral v = Some k"
  shows "normalizeIpLiteral k = Some k"
  using assms
proof (cases rule: normalize_cases)
  case (1 ns)
  then show ?thesis using ipv4Text_facts [of ns] by (simp add: normalize_ipv4Text)
next
  case (2 gs)
  then show ?thesis using ipv6Text_facts [of gs] by (simp add: normalize_ipv6Text)
qed

text \<open>An IP key is canonical: normalising a key again returns the key itself, so equal addresses
  in any accepted spelling share one bucket; it holds only lower-case hexadecimal digits, dots and
  colons, and at most 39 of them.\<close>

theorem ip_key_canonical:
  assumes "normalizeIpLiteral v = Some k"
  shows "normalizeIpLiteral k = Some k \<and> list_all addressUnit k \<and> length k \<le> 39"
  using assms
proof (cases rule: normalize_cases)
  case (1 ns)
  then show ?thesis using ipv4Text_facts [of ns] by (simp add: normalize_ipv4Text)
next
  case (2 gs)
  then show ?thesis using ipv6Text_facts [of gs] by (simp add: normalize_ipv6Text)
qed

lemma splitOn_not_Nil [simp]: "splitOn c s \<noteq> []"
  by (induction s) (auto split: list.splits)

lemma last_splitOn: "last (splitOn c (p @ c # s)) = last (splitOn c s)"
proof (induction p)
  case (Cons u p)
  have "tl (splitOn c (p @ c # s)) \<noteq> []" for p
    by (induction p) (auto split: list.splits)
  with Cons show ?case
    by (cases "splitOn c (p @ c # s)") (auto, metis list.sel(3))
qed simp

lemma replicate5: "replicate 5 x = [x, x, x, x, x]"
  by (simp add: eval_nat_numeral)

lemma mapped_loopback: "normalizeIpLiteral (js '' ::FFFF:127.0.0.1%eth0'') = Some (js ''127.0.0.1'')"
  by (simp add: normalizeIpLiteral_def js_def jsTrim_def isTrimmed_def lowerUnit_def
      canonicalizeIpv6_def embedIpv4_def afterLast_def uptoLast_def ipv4Octets_def octetOf_def isDigit_def
      natOfDec_def digitVal_def hexOfNat.simps hexChar_def expandGroups_def isLowerHex_def groupsOf_def
      hexGroup_def natOfHex_def hexDigitVal_def addressText_def ipv4Text_def decOfNat.simps digitChar_def
      Let_def word_le_nat_alt replicate5)

theorem ip_key_canonical_witness:
  "normalizeIpLiteral (js '' ::FFFF:127.0.0.1%eth0'') = Some (js ''127.0.0.1'')
   \<and> normalizeIpLiteral (js ''127.0.0.1'') = Some (js ''127.0.0.1'')"
  using ip_key_canonical [OF mapped_loopback] mapped_loopback by simp

text \<open>C22: What a client can do to its bucket with forwarding headers. Without a configured proxy, or when
  the peer is not that proxy, nothing: the key is the peer's own whatever the header holds. Through the
  proxy, the hops a client put before the proxy's own entry never count: while the header is at most
  256 units long the key is the one of the last hop alone, and a client that makes it longer is moved to
  the proxy's own bucket, and to no other.\<close>

theorem forwarded_not_spoofable:
  "(tp = [] \<or> resolveRateLimitIpKey remote Undefined [] \<noteq> tp \<longrightarrow>
      resolveRateLimitIpKey remote fwd tp = resolveRateLimitIpKey remote Undefined [])
   \<and> (hop \<noteq> [] \<and> 0x2C \<notin> set hop \<longrightarrow>
      resolveRateLimitIpKey remote (Str (spoofed @ 0x2C # hop)) tp
        = (if length (spoofed @ 0x2C # hop) \<le> 256 then resolveRateLimitIpKey remote (Str hop) tp
           else resolveRateLimitIpKey remote Undefined tp))"
proof -
  have l: "last (splitOn 0x2C (p @ 0x2C # hop)) = hop" if "0x2C \<notin> set hop" for p
    using last_splitOn [of "0x2C" p hop] that by (simp add: splitOn_none)
  show ?thesis
    by (auto simp: resolveRateLimitIpKey_def Let_def l splitOn_none)
qed

lemma proxied_key:
  "resolveRateLimitIpKey (Str (js ''10.0.0.1'')) (Str (js ''5.6.7.8'')) (js ''10.0.0.1'') = js ''5.6.7.8''"
  "resolveRateLimitIpKey (Str (js ''10.0.0.1'')) Undefined (js ''10.0.0.1'') = js ''10.0.0.1''"
  by code_simp+

theorem forwarded_not_spoofable_witness:
  "resolveRateLimitIpKey (Str (js ''10.0.0.9'')) (Str (js ''1.2.3.4,5.6.7.8'')) (js ''10.0.0.1'')
    = resolveRateLimitIpKey (Str (js ''10.0.0.9'')) Undefined []
   \<and> resolveRateLimitIpKey (Str (js ''10.0.0.1'')) (Str (js ''1.2.3.4'' @ 0x2C # js ''5.6.7.8'')) (js ''10.0.0.1'') = js ''5.6.7.8''
   \<and> resolveRateLimitIpKey (Str (js ''10.0.0.1'')) (Str (replicate 256 0x31 @ 0x2C # js ''5.6.7.8'')) (js ''10.0.0.1'') = js ''10.0.0.1''"
proof -
  have peer: "resolveRateLimitIpKey (Str (js ''10.0.0.9'')) Undefined [] \<noteq> js ''10.0.0.1''"
    by (simp add: resolveRateLimitIpKey_def normalizeIpLiteral_def js_def jsTrim_def isTrimmed_def lowerUnit_def
        canonicalizeIpv4_def ipv4Octets_def octetOf_def isDigit_def natOfDec_def digitVal_def ipv4Text_def
        decOfNat.simps digitChar_def Let_def word_le_nat_alt)
  have hop: "js ''5.6.7.8'' \<noteq> []" "0x2C \<notin> set (js ''5.6.7.8'')" by (simp_all add: js_def)
  have len: "length (js ''1.2.3.4'' @ 0x2C # js ''5.6.7.8'') \<le> 256" by (simp add: js_def)
  show ?thesis
    using forwarded_not_spoofable [of "js ''10.0.0.1''" "Str (js ''10.0.0.9'')" "Str (js ''1.2.3.4,5.6.7.8'')" "js ''5.6.7.8''" "[]"] peer
      forwarded_not_spoofable [of "js ''10.0.0.1''" "Str (js ''10.0.0.1'')" Undefined "js ''5.6.7.8''" "js ''1.2.3.4''"]
      forwarded_not_spoofable [of "js ''10.0.0.1''" "Str (js ''10.0.0.1'')" Undefined "js ''5.6.7.8''" "replicate 256 0x31"]
      hop len by (simp add: proxied_key)
qed

end
