(* ===== verification/JsConvert.thy ===== *)
theory JsConvert
  imports NetAddress
begin

section \<open>Conversions between JavaScript values\<close>

text \<open>
  \<open>Number(value)\<close> and \<open>String(value)\<close>, which \<open>src/service.ts\<close> applies to configuration values and
  query parameters: the grammar of numeric strings (\<open>StringToNumber\<close>), the shortest decimal text of
  a double (\<open>Number::toString\<close>), arrays joined by commas, and plain objects.
\<close>

subsection \<open>Number(text)\<close>

definition digitsHead :: "jsstr \<Rightarrow> jsstr" where
  "digitsHead s = takeWhile isDigit s"

definition digitsTail :: "jsstr \<Rightarrow> jsstr" where
  "digitsTail s = dropWhile isDigit s"

text \<open>The exponent part: absent, or \<open>e\<close>, an optional sign and digits to the end.\<close>

definition exponentOf :: "jsstr \<Rightarrow> int option" where
  "exponentOf s = (case s of
      [] \<Rightarrow> Some 0
    | e # t \<Rightarrow>
        if e \<noteq> 0x65 \<and> e \<noteq> 0x45 then None
        else let (neg, ds) = (case t of
               u # t' \<Rightarrow> if u = 0x2D then (True, t') else if u = 0x2B then (False, t') else (False, t)
             | [] \<Rightarrow> (False, []))
          in if ds \<noteq> [] \<and> list_all isDigit ds
             then Some (if neg then - int (natOfDec ds) else int (natOfDec ds)) else None)"

definition unsignedDecimal :: "jsstr \<Rightarrow> rat option" where
  "unsignedDecimal s =
     (let ip = digitsHead s; r = digitsTail s;
          (fp, r') = (case r of u # t \<Rightarrow> if u = 0x2E then (digitsHead t, digitsTail t) else ([], r) | [] \<Rightarrow> ([], []))
      in if ip = [] \<and> fp = [] then None
         else map_option (\<lambda>e. of_nat (natOfDec (ip @ fp)) * pow10 (e - int (length fp))) (exponentOf r'))"

definition radixDigit :: "nat \<Rightarrow> code_unit \<Rightarrow> nat option" where
  "radixDigit b u = (let u' = lowerUnit u in
     if isLowerHex u' \<and> hexDigitVal u' < b then Some (hexDigitVal u') else None)"

definition radixLiteral :: "nat \<Rightarrow> jsstr \<Rightarrow> nat option" where
  "radixLiteral b s = (if s = [] then None
     else map_option (foldl (\<lambda>n d. b * n + d) 0) (those (map (radixDigit b) s)))"

text \<open>An overlong exponent is an infinity or zero without its power being computed.\<close>

definition negateNum :: "jsnum \<Rightarrow> jsnum" where
  "negateNum n = (case n of Fin q \<Rightarrow> Fin (- q) | PosInf \<Rightarrow> NegInf | NegInf \<Rightarrow> PosInf | NaN \<Rightarrow> NaN)"

definition strToNum :: "jsstr \<Rightarrow> jsnum" where
  "strToNum raw =
     (let s = jsTrim raw;
          orNaN = (\<lambda>r. case r of None \<Rightarrow> NaN | Some q \<Rightarrow> toDouble q);
          radix = (\<lambda>b. orNaN (map_option of_nat (radixLiteral b (drop 2 s))));
          unsigned = (\<lambda>t. if t = js ''Infinity'' then PosInf else orNaN (unsignedDecimal t))
      in if s = [] then Fin 0
         else if map lowerUnit (take 2 s) = js ''0x'' then radix 16
         else if map lowerUnit (take 2 s) = js ''0o'' then radix 8
         else if map lowerUnit (take 2 s) = js ''0b'' then radix 2
         else if hd s = 0x2D then negateNum (unsigned (tl s))
         else if hd s = 0x2B then unsigned (tl s)
         else unsigned s)"

subsection \<open>String(number)\<close>

text \<open>The least \<open>n\<close> with \<open>q < 10 ^ n\<close>, and the least number of digits whose closest decimal at that
  place reads back as \<open>q\<close>; seventeen digits always do.\<close>

definition decimalPlace :: "rat \<Rightarrow> int" where
  "decimalPlace q = (case find (\<lambda>n. q < pow10 n) [- 325..310] of Some n \<Rightarrow> n | None \<Rightarrow> 310)"

definition shortestAt :: "rat \<Rightarrow> int \<Rightarrow> nat \<Rightarrow> nat option" where
  "shortestAt q n k =
     (let scaled = q * pow10 (int k - n); lo = nat \<lfloor>scaled\<rfloor>;
          reads = (\<lambda>c. toDouble (of_nat c * pow10 (n - int k)) = Fin q);
          near = (if scaled - of_nat lo \<le> 1 / 2 then [lo, Suc lo] else [Suc lo, lo])
      in find reads near)"

definition shortestDigits :: "rat \<Rightarrow> nat \<times> int" where
  "shortestDigits q =
     (let n = decimalPlace q in
      case find (\<lambda>k. shortestAt q n k \<noteq> None) [1..<18] of
        Some k \<Rightarrow> (case shortestAt q n k of
            Some c \<Rightarrow> if c = 10 ^ k then (1, n + 1) else (c, n) | None \<Rightarrow> (0, n))
      | None \<Rightarrow> (0, n))"

definition zeros :: "int \<Rightarrow> jsstr" where
  "zeros n = replicate (nat n) 0x30"

definition positiveText :: "rat \<Rightarrow> jsstr" where
  "positiveText q =
     (let (c, n) = shortestDigits q; ds = decOfNat c; k = int (length ds) in
      if k \<le> n \<and> n \<le> 21 then ds @ zeros (n - k)
      else if 0 < n \<and> n \<le> 21 then take (nat n) ds @ js ''.'' @ drop (nat n) ds
      else if - 6 < n \<and> n \<le> 0 then js ''0.'' @ zeros (- n) @ ds
      else let e = (if n - 1 < 0 then js ''e-'' else js ''e+'') @ decOfNat (nat \<bar>n - 1\<bar>)
        in if k = 1 then ds @ e else take 1 ds @ js ''.'' @ drop 1 ds @ e)"

definition numToStr :: "jsnum \<Rightarrow> jsstr" where
  "numToStr n = (case n of NaN \<Rightarrow> js ''NaN'' | PosInf \<Rightarrow> js ''Infinity'' | NegInf \<Rightarrow> js ''-Infinity''
     | Fin q \<Rightarrow> if q = 0 then js ''0'' else if q < 0 then 0x2D # positiveText (- q) else positiveText q)"

subsection \<open>String(value) and Number(value)\<close>

fun toStr :: "jsval \<Rightarrow> jsstr" where
  "toStr Undefined = js ''undefined''"
| "toStr Null = js ''null''"
| "toStr (Boolean b) = (if b then js ''true'' else js ''false'')"
| "toStr (Number n) = numToStr n"
| "toStr (Str s) = s"
| "toStr (Arr vs) = join (js '','') (map (\<lambda>v. if v = Undefined \<or> v = Null then [] else toStr v) vs)"
| "toStr (Obj ps) = js ''[object Object]''"

definition toNum :: "jsval \<Rightarrow> jsnum" where
  "toNum v = (case v of
      Undefined \<Rightarrow> NaN | Null \<Rightarrow> Fin 0 | Boolean b \<Rightarrow> Fin (if b then 1 else 0)
    | Number n \<Rightarrow> n | Str s \<Rightarrow> strToNum s | Arr vs \<Rightarrow> strToNum (toStr v) | Obj ps \<Rightarrow> NaN)"

end
