(* ===== verification/Admission.thy ===== *)
theory Admission
  imports Validators
begin

section \<open>Admission control of the service\<close>

text \<open>
  The process-local guards of \<open>src/service.ts\<close>: the fixed-window rate limiter, the replay window and
  the admission tracker. A JavaScript \<open>Map\<close> is an association list in insertion order. Clock
  readings are arguments, in milliseconds; a limiter reads the clock a second time when it denies.
\<close>

subsection \<open>Errors of the service\<close>

text \<open>\<open>authError\<close>: status code, stable code, generic description, and for a 429 the retry delay.\<close>

datatype http_error = HttpError (he_status: nat) (he_code: code) (he_desc: string) (he_retry: "int option")

definition authError :: "nat \<Rightarrow> code \<Rightarrow> string \<Rightarrow> http_error" where
  "authError status c d = HttpError status c d None"

definition rateLimitError :: "int \<Rightarrow> http_error" where
  "rateLimitError s = HttpError 429 ERR_RATE_LIMITED ''rate limited'' (Some s)"

subsection \<open>The fixed-window rate limiter\<close>

record bucket =
  bWindow :: int
  bCount :: int

record limiter =
  lLimit :: int
  lWindowMs :: int
  lMaxKeys :: nat

definition RATE_LIMIT_WINDOW_MS :: int where "RATE_LIMIT_WINDOW_MS = 60000"
definition RATE_LIMIT_MAX_KEYS :: nat where "RATE_LIMIT_MAX_KEYS = 10000"

definition positiveSafe :: "jsval \<Rightarrow> bool" where
  "positiveSafe v \<longleftrightarrow> isSafeInteger v \<and> (case v of Number (Fin q) \<Rightarrow> 1 \<le> q | _ \<Rightarrow> False)"

definition safeInt :: "jsval \<Rightarrow> int" where
  "safeInt v = (case v of Number (Fin q) \<Rightarrow> \<lfloor>q\<rfloor> | _ \<Rightarrow> 0)"

text \<open>\<open>options.windowMs ?? default\<close>\<close>

definition orDefault :: "jsval \<Rightarrow> jsval \<Rightarrow> jsval" where
  "orDefault v d = (if v = Undefined \<or> v = Null then d else v)"

definition createFixedWindowRateLimiter :: "jsval \<Rightarrow> jsval \<Rightarrow> jsval \<Rightarrow> limiter result" where
  "createFixedWindowRateLimiter limit windowMs maxKeys =
     andThen (require (positiveSafe limit) (type_error ''rate limiter limit must be a positive safe integer'')) (\<lambda>_.
     let w = orDefault windowMs (IntNum RATE_LIMIT_WINDOW_MS) in
     andThen (require (positiveSafe w) (type_error ''rate limiter windowMs must be a positive safe integer'')) (\<lambda>_.
     let k = orDefault maxKeys (IntNum (int RATE_LIMIT_MAX_KEYS)) in
     andThen (require (positiveSafe k) (type_error ''rate limiter maxKeys must be a positive safe integer'')) (\<lambda>_.
     Inr \<lparr>lLimit = safeInt limit, lWindowMs = safeInt w, lMaxKeys = nat (safeInt k)\<rparr>)))"

type_synonym buckets = "(jsstr \<times> bucket) list"

fun evictOldest :: "nat \<Rightarrow> buckets \<Rightarrow> buckets" where
  "evictOldest maxKeys [] = []"
| "evictOldest maxKeys (b # m) = (if maxKeys \<le> length (b # m) then evictOldest maxKeys m else b # m)"

definition evict :: "limiter \<Rightarrow> int \<Rightarrow> buckets \<Rightarrow> buckets" where
  "evict rl current m = evictOldest (lMaxKeys rl) (filter (\<lambda>(k, e). bWindow e = current) m)"

definition retryAfter :: "limiter \<Rightarrow> int \<Rightarrow> int \<Rightarrow> int" where
  "retryAfter rl w now2 = (let remaining = (w + 1) * lWindowMs rl - now2 in max 1 (- ((- remaining) div 1000)))"

datatype rate_decision = Allowed | Denied (retryAfterSeconds: int)

definition consume :: "limiter \<Rightarrow> jsstr \<Rightarrow> int \<Rightarrow> int \<Rightarrow> buckets \<Rightarrow> rate_decision \<times> buckets" where
  "consume rl key now1 now2 m =
     (let w = now1 div lWindowMs rl in
      case map_of m key of
        Some e \<Rightarrow>
          if bWindow e = w then
            if lLimit rl \<le> bCount e then (Denied (retryAfter rl w now2), m)
            else (Allowed, adel key m @ [(key, e\<lparr>bCount := bCount e + 1\<rparr>)])
          else (Allowed, adel key m @ [(key, e\<lparr>bWindow := w, bCount := 1\<rparr>)])
      | None \<Rightarrow>
          let m' = (if lMaxKeys rl \<le> length m then evict rl w m else m)
          in (Allowed, aset key \<lparr>bWindow = w, bCount = 1\<rparr> m'))"

text \<open>Well-formed limiter states: distinct keys, at most \<open>maxKeys\<close> of them, counts between one and
  the limit.\<close>

definition bucketsOk :: "limiter \<Rightarrow> buckets \<Rightarrow> bool" where
  "bucketsOk rl m \<longleftrightarrow> distinct (map fst m) \<and> length m \<le> lMaxKeys rl
     \<and> (\<forall>(k, e) \<in> set m. 1 \<le> bCount e \<and> bCount e \<le> lLimit rl)"

definition limiterOk :: "limiter \<Rightarrow> bool" where
  "limiterOk rl \<longleftrightarrow> 1 \<le> lLimit rl \<and> 1 \<le> lWindowMs rl \<and> 1 \<le> lMaxKeys rl"

lemma createLimiter_ok: "createFixedWindowRateLimiter l w k = Inr rl \<Longrightarrow> limiterOk rl"
proof -
  have p: "positiveSafe v \<Longrightarrow> 1 \<le> safeInt v" for v
    by (auto simp: positiveSafe_def safeInt_def split: jsval.splits jsnum.splits)
  show "createFixedWindowRateLimiter l w k = Inr rl \<Longrightarrow> limiterOk rl"
    using p [of l] p [of "orDefault w (IntNum RATE_LIMIT_WINDOW_MS)"] p [of "orDefault k (IntNum (int RATE_LIMIT_MAX_KEYS))"]
    by (auto simp: createFixedWindowRateLimiter_def result_simps Let_def limiterOk_def)
qed

lemma evictOldest_suffix: "\<exists>n. evictOldest k m = drop n m"
proof (induction m)
  case (Cons b m)
  then show ?case by (auto intro: exI [of _ "Suc _"] exI [of _ 0])
qed simp

lemma evictOldest_length: "0 < k \<Longrightarrow> length (evictOldest k m) < k"
  by (induction m) auto

lemma evict_ok:
  assumes "bucketsOk rl m" "limiterOk rl"
  shows "bucketsOk rl (evict rl w m) \<and> length (evict rl w m) < lMaxKeys rl \<and> set (evict rl w m) \<subseteq> set m"
proof -
  let ?f = "filter (\<lambda>(k, e). bWindow e = w) m"
  obtain n where n: "evict rl w m = drop n ?f"
    using evictOldest_suffix unfolding evict_def by blast
  have sub: "set (drop n ?f) \<subseteq> set m" by (auto dest: in_set_dropD)
  have "distinct (map fst (drop n ?f))"
    using assms(1) by (simp add: bucketsOk_def distinct_map_filter drop_map [symmetric] distinct_drop)
  moreover have "length (evict rl w m) < lMaxKeys rl"
    using evictOldest_length assms(2) by (simp add: evict_def limiterOk_def)
  ultimately show ?thesis using sub assms(1) unfolding n bucketsOk_def by fastforce
qed

lemma length_adel: "distinct (map fst m) \<Longrightarrow> map_of m k = Some v \<Longrightarrow> Suc (length (adel k m)) = length m"
proof (induction m)
  case (Cons x m)
  obtain a b where x: "x = (a, b)" by fastforce
  show ?case
  proof (cases "a = k")
    case True
    then have "adel k m = m" using Cons.prems by (auto simp: x adel_def intro!: filter_True)
    then show ?thesis using True by (simp add: x adel_def)
  next
    case False
    then show ?thesis using Cons by (simp add: x adel_def)
  qed
qed simp

lemma consume_ok: "limiterOk rl \<Longrightarrow> bucketsOk rl m \<Longrightarrow> bucketsOk rl (snd (consume rl key t t2 m))"
proof -
  assume lo: "limiterOk rl" and ok: "bucketsOk rl m"
  let ?w = "t div lWindowMs rl"
  show ?thesis
  proof (cases "map_of m key")
    case None
    define m' where "m' = (if lMaxKeys rl \<le> length m then evict rl ?w m else m)"
    have m': "bucketsOk rl m'" "length m' < lMaxKeys rl" "set m' \<subseteq> set m"
      using evict_ok [OF ok lo, of ?w] ok by (auto simp: m'_def)
    have "key \<notin> fst ` set m'" using None m'(3) by (auto simp: map_of_eq_None_iff)
    then have "snd (consume rl key t t2 m) = m' @ [(key, \<lparr>bWindow = ?w, bCount = 1\<rparr>)]"
      using None by (simp add: consume_def Let_def m'_def aset_fresh)
    then show ?thesis using m' \<open>key \<notin> fst ` set m'\<close> lo by (auto simp: bucketsOk_def limiterOk_def)
  next
    case (Some e)
    then have e: "1 \<le> bCount e" "bCount e \<le> lLimit rl" using ok by (auto simp: bucketsOk_def dest: map_of_SomeD)
    have "distinct (map fst m)" using ok by (simp add: bucketsOk_def)
    then have l: "Suc (length (adel key m)) = length m" using Some by (rule length_adel)
    have "bucketsOk rl (adel key m @ [(key, e')])" if "1 \<le> bCount e'" "bCount e' \<le> lLimit rl" for e'
      using ok l that by (auto simp: bucketsOk_def)
    then show ?thesis using Some ok e lo by (simp add: consume_def Let_def limiterOk_def)
  qed
qed

lemma consume_denied:
  "fst (consume rl key t t2 m) = Denied s \<Longrightarrow> s = retryAfter rl (t div lWindowMs rl) t2"
  by (simp add: consume_def Let_def split: option.splits if_splits)

subsection \<open>Exact allowance within one window\<close>

text \<open>A run of calls: each is a key with its two clock readings. The decisions and the last state.\<close>

fun consumeAll :: "limiter \<Rightarrow> (jsstr \<times> int \<times> int) list \<Rightarrow> buckets \<Rightarrow> rate_decision list \<times> buckets" where
  "consumeAll rl [] m = ([], m)"
| "consumeAll rl ((k, t, t2) # cs) m =
     (let (d, m1) = consume rl k t t2 m; (ds, m2) = consumeAll rl cs m1 in (d # ds, m2))"

definition admitted :: "jsstr \<Rightarrow> (jsstr \<times> int \<times> int) list \<Rightarrow> rate_decision list \<Rightarrow> nat" where
  "admitted k cs ds = length (filter (\<lambda>(c, d). fst c = k \<and> d = Allowed) (zip cs ds))"

definition callsOf :: "jsstr \<Rightarrow> (jsstr \<times> int \<times> int) list \<Rightarrow> nat" where
  "callsOf k cs = length (filter (\<lambda>c. fst c = k) cs)"

text \<open>What is left of a key's allowance in window \<open>w\<close>.\<close>

definition usedIn :: "int \<Rightarrow> buckets \<Rightarrow> jsstr \<Rightarrow> int" where
  "usedIn w m k = (case map_of m k of Some e \<Rightarrow> if bWindow e = w then bCount e else 0 | None \<Rightarrow> 0)"

lemma usedIn_bounds: "bucketsOk rl m \<Longrightarrow> limiterOk rl \<Longrightarrow> 0 \<le> usedIn w m k \<and> usedIn w m k \<le> lLimit rl"
  by (auto simp: usedIn_def bucketsOk_def limiterOk_def split: option.split dest!: map_of_SomeD)

lemma map_of_moved: "map_of (adel k m @ [(k, v)]) = (map_of m)(k \<mapsto> v)"
  by (auto simp: map_add_def fun_eq_iff split: option.split)

lemma consume_step:
  assumes w: "t div lWindowMs rl = w" and room: "map_of m key = None \<Longrightarrow> length m < lMaxKeys rl"
    and ok: "bucketsOk rl m" "limiterOk rl"
  shows "fst (consume rl key t t2 m) = Allowed \<longleftrightarrow> usedIn w m key < lLimit rl"
    and "usedIn w (snd (consume rl key t t2 m)) k =
       (if k = key \<and> usedIn w m key < lLimit rl then usedIn w m key + 1 else usedIn w m k)"
    and "fst ` set (snd (consume rl key t t2 m)) = insert key (fst ` set m)"
proof -
  have l: "1 \<le> lLimit rl" using ok by (simp add: limiterOk_def)
  have "(fst (consume rl key t t2 m) = Allowed \<longleftrightarrow> usedIn w m key < lLimit rl)
    \<and> usedIn w (snd (consume rl key t t2 m)) k =
       (if k = key \<and> usedIn w m key < lLimit rl then usedIn w m key + 1 else usedIn w m k)"
  proof (cases "map_of m key")
    case None
    with room have r: "\<not> lMaxKeys rl \<le> length m" by simp
    show ?thesis using None r l w by (simp add: consume_def usedIn_def map_of_aset)
  next
    case (Some e)
    then show ?thesis using l w
      by (cases "bWindow e = w") (simp_all add: consume_def usedIn_def map_of_moved del: map_of_append)
  qed
  then show "fst (consume rl key t t2 m) = Allowed \<longleftrightarrow> usedIn w m key < lLimit rl"
    and "usedIn w (snd (consume rl key t t2 m)) k =
       (if k = key \<and> usedIn w m key < lLimit rl then usedIn w m key + 1 else usedIn w m k)" by blast+
  show "fst ` set (snd (consume rl key t t2 m)) = insert key (fst ` set m)"
  proof (cases "map_of m key")
    case None
    with room show ?thesis by (simp add: consume_def Let_def)
  next
    case (Some e)
    then have "key \<in> fst ` set m" by (force dest: map_of_SomeD)
    moreover have "fst ` set (adel key m @ [(key, v)]) = insert key (fst ` set m)" for v by auto
    ultimately show ?thesis using Some by (auto simp: consume_def Let_def insert_absorb)
  qed
qed

lemma consumeAll_exact:
  assumes "\<forall>(k, t, t2) \<in> set cs. t div lWindowMs rl = w" "bucketsOk rl m" "limiterOk rl"
    "card (fst ` set m \<union> fst ` set cs) \<le> lMaxKeys rl" "consumeAll rl cs m = (ds, m')"
  shows "length ds = length cs \<and> int (admitted k cs ds) = min (lLimit rl - usedIn w m k) (int (callsOf k cs))"
  using assms
proof (induction cs arbitrary: m ds)
  case Nil
  then show ?case using usedIn_bounds [of rl m w k] by (simp add: admitted_def callsOf_def)
next
  case (Cons c cs)
  obtain key t t2 where c: "c = (key, t, t2)" by (cases c) auto
  obtain d m1 where d: "consume rl key t t2 m = (d, m1)" by fastforce
  obtain es where es: "consumeAll rl cs m1 = (es, m')" "ds = d # es"
    using Cons.prems(5) d by (auto simp: c split: prod.splits)
  have room: "length m < lMaxKeys rl" if "map_of m key = None"
  proof -
    have "key \<notin> fst ` set m" using that by (simp add: map_of_eq_None_iff)
    then have "card (fst ` set m) < card (fst ` set m \<union> fst ` set (c # cs))"
      by (intro psubset_card_mono) (auto simp: c)
    moreover have "card (fst ` set m) = length m"
      using Cons.prems(2) distinct_card [of "map fst m"] by (simp add: bucketsOk_def)
    ultimately show ?thesis using Cons.prems(4) by simp
  qed
  have tw: "t div lWindowMs rl = w" using Cons.prems(1) by (simp add: c)
  note S = consume_step [where key = key and m = m and t = t and ?t2.0 = t2, OF tw room Cons.prems(2,3)]
  have m1: "bucketsOk rl m1" using consume_ok [OF Cons.prems(3,2), of key t t2] d by simp
  have "fst ` set m1 \<union> fst ` set cs = fst ` set m \<union> fst ` set (c # cs)"
    using S(3) d by (auto simp: c)
  then have "card (fst ` set m1 \<union> fst ` set cs) \<le> lMaxKeys rl" using Cons.prems(4) by simp
  then have IH: "length es = length cs \<and> int (admitted k cs es) = min (lLimit rl - usedIn w m1 k) (int (callsOf k cs))"
    using Cons.IH [OF _ m1 Cons.prems(3) _ es(1)] Cons.prems(1) by simp
  have u: "usedIn w m1 k = (if k = key \<and> usedIn w m key < lLimit rl then usedIn w m key + 1 else usedIn w m k)"
    using S(2) [of k] d by simp
  have a: "d = Allowed \<longleftrightarrow> usedIn w m key < lLimit rl" using S(1) d by simp
  show ?case using IH u a usedIn_bounds [OF Cons.prems(2,3), of w k]
    by (auto simp: c es(2) admitted_def callsOf_def)
qed

text \<open>Eviction never takes an allowance away: whatever a call evicts, the key that makes it is answered by its
  own count, and no other key's count grows.\<close>

lemma consume_lower:
  assumes w: "t div lWindowMs rl = w" and ok: "bucketsOk rl m" "limiterOk rl"
  shows "fst (consume rl key t t2 m) = Allowed \<longleftrightarrow> usedIn w m key < lLimit rl"
    and "usedIn w (snd (consume rl key t t2 m)) k \<le>
       (if k = key \<and> usedIn w m key < lLimit rl then usedIn w m key + 1 else usedIn w m k)"
proof -
  have both: "(fst (consume rl key t t2 m) = Allowed \<longleftrightarrow> usedIn w m key < lLimit rl)
    \<and> usedIn w (snd (consume rl key t t2 m)) k \<le>
       (if k = key \<and> usedIn w m key < lLimit rl then usedIn w m key + 1 else usedIn w m k)"
  proof (cases "map_of m key = None \<and> lMaxKeys rl \<le> length m")
    case False
    then have room: "map_of m key = None \<Longrightarrow> length m < lMaxKeys rl" by auto
    show ?thesis using consume_step(1) [OF w room ok] consume_step(2) [OF w room ok] by auto
  next
    case True
    have l: "1 \<le> lLimit rl" using ok by (simp add: limiterOk_def)
    have c: "consume rl key t t2 m = (Allowed, aset key \<lparr>bWindow = w, bCount = 1\<rparr> (evict rl w m))"
      using True w by (simp add: consume_def Let_def)
    have e: "bucketsOk rl (evict rl w m)" "set (evict rl w m) \<subseteq> set m" using evict_ok [OF ok] by blast+
    have "usedIn w (evict rl w m) k \<le> usedIn w m k"
    proof (cases "map_of (evict rl w m) k")
      case None
      then show ?thesis using usedIn_bounds [OF ok, of w k] by (simp add: usedIn_def)
    next
      case (Some b)
      then have "(k, b) \<in> set m" using e(2) by (auto dest: map_of_SomeD)
      then have "map_of m k = Some b" using ok(1) by (simp add: bucketsOk_def)
      then show ?thesis using Some by (simp add: usedIn_def)
    qed
    then show ?thesis using True l by (simp add: c usedIn_def)
  qed
  then show "fst (consume rl key t t2 m) = Allowed \<longleftrightarrow> usedIn w m key < lLimit rl" by blast
  show "usedIn w (snd (consume rl key t t2 m)) k \<le>
       (if k = key \<and> usedIn w m key < lLimit rl then usedIn w m key + 1 else usedIn w m k)" using both by blast
qed

lemma consumeAll_lower:
  assumes "\<forall>(k, t, t2) \<in> set cs. t div lWindowMs rl = w" "bucketsOk rl m" "limiterOk rl" "consumeAll rl cs m = (ds, m')"
  shows "min (lLimit rl - usedIn w m k) (int (callsOf k cs)) \<le> int (admitted k cs ds)"
  using assms
proof (induction cs arbitrary: m ds)
  case (Cons c cs)
  obtain key t t2 where c: "c = (key, t, t2)" by (cases c) auto
  obtain d m1 where d: "consume rl key t t2 m = (d, m1)" by fastforce
  obtain es where es: "consumeAll rl cs m1 = (es, m')" "ds = d # es"
    using Cons.prems(4) d by (auto simp: c split: prod.splits)
  have tw: "t div lWindowMs rl = w" using Cons.prems(1) by (simp add: c)
  have m1: "bucketsOk rl m1" using consume_ok [OF Cons.prems(3,2), of key t t2] d by simp
  then have IH: "min (lLimit rl - usedIn w m1 k) (int (callsOf k cs)) \<le> int (admitted k cs es)"
    using Cons.IH [OF _ m1 Cons.prems(3) es(1)] Cons.prems(1) by simp
  have u: "usedIn w m1 k \<le> (if k = key \<and> usedIn w m key < lLimit rl then usedIn w m key + 1 else usedIn w m k)"
    using consume_lower(2) [OF tw Cons.prems(2,3), where key = key and ?t2.0 = t2 and k = k] d by simp
  have a: "d = Allowed \<longleftrightarrow> usedIn w m key < lLimit rl" using consume_lower(1) [OF tw Cons.prems(2,3), where key = key and ?t2.0 = t2] d by simp
  show ?case using IH u a usedIn_bounds [OF Cons.prems(2,3), of w k]
    by (auto simp: c es(2) admitted_def callsOf_def split: if_splits)
qed (simp add: admitted_def callsOf_def)

text \<open>C15: Within one window no key ever gets less than its own allowance, whatever the other keys do and in
  any interleaving: of its calls at least \<open>limit\<close>, or all of them if they are fewer, are admitted. As
  long as the window sees no more distinct keys than the bound on the buckets, that is exactly what
  it gets: the rest is denied. (With more keys a bucket may be evicted and its key starts again.)\<close>

theorem rate_limit_exact:
  assumes "createFixedWindowRateLimiter l wms mk = Inr rl"
    and "\<forall>(k, t, t2) \<in> set cs. t div lWindowMs rl = w" "consumeAll rl cs [] = (ds, m')"
  shows "min (lLimit rl) (int (callsOf k cs)) \<le> int (admitted k cs ds)
    \<and> (card (fst ` set cs) \<le> lMaxKeys rl \<longrightarrow> int (admitted k cs ds) = min (lLimit rl) (int (callsOf k cs)))"
proof -
  have ok: "limiterOk rl" using assms(1) by (rule createLimiter_ok)
  have b: "bucketsOk rl []" by (simp add: bucketsOk_def)
  show ?thesis using consumeAll_lower [OF assms(2) b ok assms(3), of k] consumeAll_exact [OF assms(2) b ok _ assms(3), of k]
    by (simp add: usedIn_def)
qed

theorem rate_limit_exact_witness:
  "int (admitted (js ''a'') [(js ''a'', 5, 5), (js ''b'', 6, 6), (js ''a'', 7, 7), (js ''a'', 8, 8)]
     (fst (consumeAll \<lparr>lLimit = 2, lWindowMs = 60000, lMaxKeys = 10000\<rparr>
       [(js ''a'', 5, 5), (js ''b'', 6, 6), (js ''a'', 7, 7), (js ''a'', 8, 8)] []))) = 2"
proof -
  let ?cs = "[(js ''a'', 5, 5), (js ''b'', 6, 6), (js ''a'', 7, 7), (js ''a'', 8, 8)] :: (jsstr \<times> int \<times> int) list"
  have ne: "js ''a'' \<noteq> js ''b''" by (simp add: js_def)
  have l: "createFixedWindowRateLimiter (IntNum 2) Undefined Undefined = Inr \<lparr>lLimit = 2, lWindowMs = 60000, lMaxKeys = 10000\<rparr>"
    by (simp add: createFixedWindowRateLimiter_def positiveSafe_def orDefault_def isSafeInteger_def safeInt_def
        RATE_LIMIT_WINDOW_MS_def RATE_LIMIT_MAX_KEYS_def Let_def)
  obtain ds m' where run: "consumeAll \<lparr>lLimit = 2, lWindowMs = 60000, lMaxKeys = 10000\<rparr> ?cs [] = (ds, m')"
    by fastforce
  have "int (admitted (js ''a'') ?cs ds) = min 2 (int (callsOf (js ''a'') ?cs))"
    using rate_limit_exact [OF l _ run, of 0 "js ''a''"] ne by (simp add: insert_commute)
  then show ?thesis using ne unfolding run by (simp add: callsOf_def)
qed

text \<open>The bound on the keys matters: with one bucket, a second key makes the first start again.\<close>

lemma eviction_restarts:
  "fst (consumeAll \<lparr>lLimit = 1, lWindowMs = 60000, lMaxKeys = 1\<rparr> [(js ''a'', 5, 5), (js ''b'', 6, 6), (js ''a'', 7, 7)] [])
     = [Allowed, Allowed, Allowed]"
  by code_simp

text \<open>The limiter's memory is bounded and its answers well formed: in every state it reaches its
  keys are distinct and at most \<open>maxKeys\<close>, and a denial names a delay of at least one second and,
  with a clock that has not gone back before the window, at most the window's length rounded up.\<close>

theorem rate_limiter_bounded:
  assumes "createFixedWindowRateLimiter l wms mk = Inr rl" and "consumeAll rl cs [] = (ds, m)"
  shows "bucketsOk rl m \<and> (\<forall>key t t2 s. fst (consume rl key t t2 m) = Denied s \<longrightarrow>
     1 \<le> s \<and> (t \<le> t2 \<longrightarrow> s \<le> (lWindowMs rl + 999) div 1000))"
proof -
  have ok: "limiterOk rl" using assms(1) by (rule createLimiter_ok)
  have run: "bucketsOk rl m0 \<Longrightarrow> consumeAll rl cs m0 = (ds, m) \<Longrightarrow> bucketsOk rl m" for m0 cs ds
  proof (induction cs arbitrary: m0 ds)
    case (Cons c cs)
    obtain key t t2 where c: "c = (key, t, t2)" by (cases c) auto
    show ?case using Cons consume_ok [OF ok, of m0 key t t2] by (auto simp: c split: prod.splits)
  qed simp
  have "bucketsOk rl []" by (simp add: bucketsOk_def)
  then have m: "bucketsOk rl m" using run assms(2) by blast
  have r: "1 \<le> retryAfter rl w t2" for w t2 by (simp add: retryAfter_def Let_def)
  have w1: "1 \<le> lWindowMs rl" using ok by (simp add: limiterOk_def)
  have u: "retryAfter rl (t div lWindowMs rl) t2 \<le> (lWindowMs rl + 999) div 1000"
    if "t \<le> t2" for t t2
  proof -
    have "t div lWindowMs rl * lWindowMs rl \<le> t"
      using w1 pos_mod_sign [of "lWindowMs rl" t] div_mult_mod_eq [of t "lWindowMs rl"] by linarith
    then have "(t div lWindowMs rl + 1) * lWindowMs rl - t2 \<le> lWindowMs rl"
      using that by (simp add: distrib_right)
    then show ?thesis unfolding retryAfter_def Let_def using w1 by linarith
  qed
  have "1 \<le> s \<and> (t \<le> t2 \<longrightarrow> s \<le> (lWindowMs rl + 999) div 1000)"
    if "fst (consume rl key t t2 m) = Denied s" for key t t2 s
    using consume_denied [OF that] r u [of t t2] by simp
  then show ?thesis using m by blast
qed

theorem rate_limiter_bounded_witness:
  "bucketsOk \<lparr>lLimit = 2, lWindowMs = 60000, lMaxKeys = 10000\<rparr>
     (snd (consumeAll \<lparr>lLimit = 2, lWindowMs = 60000, lMaxKeys = 10000\<rparr> [(js ''a'', 5, 5)] []))"
proof -
  have l: "createFixedWindowRateLimiter (IntNum 2) Undefined Undefined = Inr \<lparr>lLimit = 2, lWindowMs = 60000, lMaxKeys = 10000\<rparr>"
    by (simp add: createFixedWindowRateLimiter_def positiveSafe_def orDefault_def isSafeInteger_def safeInt_def
        RATE_LIMIT_WINDOW_MS_def RATE_LIMIT_MAX_KEYS_def Let_def)
  show ?thesis using rate_limiter_bounded [OF l surjective_pairing] by blast
qed

end
