(* ===== verification/ServiceInput.thy ===== *)
theory ServiceInput
  imports JsConvert Contract Admission
begin

section \<open>Request validation of the service\<close>

text \<open>
  The checks of \<open>src/service.ts\<close> on a request before any repository call: the owner of a request,
  owner claims, archive ownership, the shapes of the mutation and retrieval inputs, the early batch
  bounds, and the table that maps a repository error to a response. A throw is \<open>Inl\<close> of the HTTP
  error; a field that is \<open>undefined\<close> in the code's result is \<open>None\<close>.
\<close>

type_synonym 'a http = "http_error + 'a"

definition isRecord :: "jsval \<Rightarrow> bool" where
  "isRecord v = (case v of Obj _ \<Rightarrow> True | _ \<Rightarrow> False)"

text \<open>The own keys of an object.\<close>

definition keysOf :: "jsval \<Rightarrow> jsstr list" where
  "keysOf v = (case v of Obj ps \<Rightarrow> map fst ps | _ \<Rightarrow> [])"

text \<open>\<open>===\<close> on two values from different places: two objects are never the same one.\<close>

definition strictEq :: "jsval \<Rightarrow> jsval \<Rightarrow> bool" where
  "strictEq a b = (case a of Arr _ \<Rightarrow> False | Obj _ \<Rightarrow> False | Number NaN \<Rightarrow> False | _ \<Rightarrow> a = b)"

definition isEmptyParam :: "jsval \<Rightarrow> bool" where
  "isEmptyParam v \<longleftrightarrow> v = Undefined \<or> v = Null \<or> v = Str []"

definition invalidError :: "string \<Rightarrow> http_error" where
  "invalidError d = authError 400 ERR_INVALID_RECORD d"

definition tooLargeError :: "string \<Rightarrow> http_error" where
  "tooLargeError d = authError 413 ERR_REQUEST_TOO_LARGE d"

definition invalidCursorError :: "string \<Rightarrow> http_error" where
  "invalidCursorError d = authError 400 ERR_INVALID_CURSOR d"

subsection \<open>Owner binding\<close>

definition resolveRequestOwner :: "jsval \<Rightarrow> jsstr http" where
  "resolveRequestOwner identityKey = (case identityKey of
      Str k \<Rightarrow> if isIdentityKey identityKey then Inr k
        else Inl (authError 401 ERR_AUTHENTICATION_REQUIRED ''authentication required'')
    | _ \<Rightarrow> Inl (authError 401 ERR_AUTHENTICATION_REQUIRED ''authentication required''))"

definition OWNER_CLAIM_KEYS :: "string list" where
  "OWNER_CLAIM_KEYS = [''owner'', ''ownerIdentityKey'', ''owner_identity_key'']"

definition assertNoOwnerOverride :: "jsval \<Rightarrow> jsval \<Rightarrow> jsval \<Rightarrow> jsval \<Rightarrow> unit http" where
  "assertNoOwnerOverride owner bdy query params =
     andThen (require (isIdentityKey owner)
       (authError 401 ERR_AUTHENTICATION_REQUIRED ''authentication required'')) (\<lambda>_.
     require (list_all (\<lambda>source. isRecord source \<longrightarrow>
         list_all (\<lambda>key. isEmptyParam (field source key) \<or> field source key = owner) OWNER_CLAIM_KEYS)
         [bdy, query, params])
       (authError 403 ERR_FORBIDDEN ''owner claim does not match the authenticated identity''))"

definition ownedRecord :: "jsval \<Rightarrow> jsval \<Rightarrow> unit http" where
  "ownedRecord owner record =
     andThen (require (isRecord record) (invalidError ''record must be an object'')) (\<lambda>_.
     let direction = field record ''direction''; sender = field record ''sender'';
         recipient = field record ''recipient'' in
     andThen (require (direction = Str (js ''inbound'') \<or> direction = Str (js ''outbound''))
       (invalidError ''direction must be inbound or outbound'')) (\<lambda>_.
     andThen (require (isIdentityKey sender \<and> isIdentityKey recipient)
       (invalidError ''sender and recipient must be identity keys'')) (\<lambda>_.
     andThen (require (direction = Str (js ''inbound'') \<longrightarrow> recipient = owner)
       (authError 403 ERR_FORBIDDEN ''inbound recipient must equal the authenticated owner'')) (\<lambda>_.
     require (direction = Str (js ''outbound'') \<longrightarrow> sender = owner)
       (authError 403 ERR_FORBIDDEN ''outbound sender must equal the authenticated owner'')))))"

text \<open>A loop whose body may throw.\<close>

fun eachM :: "('a \<Rightarrow> unit http) \<Rightarrow> 'a list \<Rightarrow> unit http" where
  "eachM f [] = Inr ()"
| "eachM f (x # xs) = andThen (f x) (\<lambda>_. eachM f xs)"

definition assertArchiveOwnership :: "jsval \<Rightarrow> jsval \<Rightarrow> nat http" where
  "assertArchiveOwnership owner records =
     andThen (require (isIdentityKey owner)
       (authError 401 ERR_AUTHENTICATION_REQUIRED ''authentication required'')) (\<lambda>_.
     case records of
       Undefined \<Rightarrow> Inr 0
     | Arr rs \<Rightarrow> andThen (eachM (ownedRecord owner) rs) (\<lambda>_. Inr (length rs))
     | _ \<Rightarrow> Inl (invalidError ''records must be an array''))"

subsection \<open>Mutation input\<close>

definition onlyKeys :: "string list \<Rightarrow> jsval \<Rightarrow> string \<Rightarrow> unit http" where
  "onlyKeys allowed v d = require (list_all (\<lambda>k. k \<in> set (map js allowed)) (keysOf v)) (invalidError d)"

definition validateMutationQuery :: "jsval \<Rightarrow> string list \<Rightarrow> unit http" where
  "validateMutationQuery query allowed =
     (if query = Undefined \<or> query = Null then Inr ()
      else andThen (require (isRecord query) (invalidError ''query must be an object'')) (\<lambda>_.
        onlyKeys allowed query ''query carries unknown fields''))"

definition validateEpochShape :: "jsval \<Rightarrow> jsstr http" where
  "validateEpochShape v = (case v of
      Str s \<Rightarrow> if epochRe s then Inr s else Inl (invalidError ''epoch must be 1..128 [A-Za-z0-9:_-] chars'')
    | _ \<Rightarrow> Inl (invalidError ''epoch must be 1..128 [A-Za-z0-9:_-] chars''))"

definition validateIdempotencyShape :: "jsval \<Rightarrow> jsstr http" where
  "validateIdempotencyShape v = (case v of
      Str s \<Rightarrow> if idempotencyRe s then Inr s
        else Inl (invalidError ''idempotencyKey must be 1..128 [A-Za-z0-9_-] chars'')
    | _ \<Rightarrow> Inl (invalidError ''idempotencyKey must be 1..128 [A-Za-z0-9_-] chars''))"

definition validatePathRecordKey :: "jsval \<Rightarrow> jsstr http" where
  "validatePathRecordKey v = (case v of
      Str s \<Rightarrow> if hex64Re s \<and> isRecordKey v then Inr s
        else Inl (invalidError ''recordKey must be 64 lowercase hex chars'')
    | _ \<Rightarrow> Inl (invalidError ''recordKey must be 64 lowercase hex chars''))"

definition ARCHIVE_ALLOWED_KEYS :: "string list" where
  "ARCHIVE_ALLOWED_KEYS = [''recordKey'', ''messageId'', ''messageBox'', ''direction'', ''sender'',
     ''recipient'', ''body'', ''bodyHash'', ''deliveryState'']"

definition ARCHIVE_REQUIRED_KEYS :: "string list" where
  "ARCHIVE_REQUIRED_KEYS = [''messageId'', ''messageBox'', ''direction'', ''sender'', ''recipient'', ''body'']"

definition optionalHex :: "jsval \<Rightarrow> bool" where
  "optionalHex v = (case v of Undefined \<Rightarrow> True | Str s \<Rightarrow> hex64Re s | _ \<Rightarrow> False)"

definition checkBatchRecord :: "jsval \<Rightarrow> unit http" where
  "checkBatchRecord record =
     andThen (require (isRecord record) (invalidError ''record must be an object'')) (\<lambda>_.
     andThen (onlyKeys ARCHIVE_ALLOWED_KEYS record ''record carries unknown fields'') (\<lambda>_.
     andThen (require (list_all (\<lambda>key. field record key \<noteq> Undefined) ARCHIVE_REQUIRED_KEYS)
       (invalidError ''record is missing required fields'')) (\<lambda>_.
     let direction = field record ''direction'' in
     andThen (require (direction = Str (js ''inbound'') \<or> direction = Str (js ''outbound''))
       (invalidError ''direction must be inbound or outbound'')) (\<lambda>_.
     andThen (require (isStr (field record ''messageId'') \<and> isStr (field record ''messageBox'')
         \<and> isStr (field record ''body''))
       (invalidError ''record fields have invalid types'')) (\<lambda>_.
     andThen (require (isIdentityKey (field record ''sender'') \<and> isIdentityKey (field record ''recipient''))
       (invalidError ''sender and recipient must be identity keys'')) (\<lambda>_.
     andThen (require (optionalHex (field record ''recordKey''))
       (invalidError ''recordKey must be 64 lowercase hex chars'')) (\<lambda>_.
     andThen (require (optionalHex (field record ''bodyHash''))
       (invalidError ''bodyHash must be 64 lowercase hex chars'')) (\<lambda>_.
     require (field record ''deliveryState'' \<in> {Undefined, Str (js ''prepared''), Str (js ''received'')})
       (invalidError ''deliveryState must be prepared or received on archive'')))))))))"

definition validateArchiveBatchBody :: "jsval \<Rightarrow> (jsstr \<times> jsval list) http" where
  "validateArchiveBatchBody bdy =
     andThen (require (isRecord bdy) (invalidError ''request body must be a JSON object'')) (\<lambda>_.
     andThen (onlyKeys [''epoch'', ''records''] bdy ''request carries unknown fields'') (\<lambda>_.
     andThen (validateEpochShape (field bdy ''epoch'')) (\<lambda>validEpoch.
     case field bdy ''records'' of
       Arr rs \<Rightarrow>
         andThen (require (rs \<noteq> []) (invalidError ''records must be a non-empty array'')) (\<lambda>_.
         andThen (require (length rs \<le> MAX_BATCH_RECORDS LIMITS)
           (tooLargeError ''batch exceeds the configured record bound'')) (\<lambda>_.
         andThen (eachM checkBatchRecord rs) (\<lambda>_.
         andThen (require (sum_list (map bodyLength rs) \<le> MAX_BATCH_BYTES LIMITS)
           (tooLargeError ''batch exceeds the configured byte bound'')) (\<lambda>_.
         Inr (validEpoch, rs)))))
     | _ \<Rightarrow> Inl (invalidError ''records must be a non-empty array''))))"

text \<open>The early bounds add the bodies up and stop at the first prefix over the bound.\<close>

fun earlyBytes :: "nat \<Rightarrow> jsval list \<Rightarrow> unit http" where
  "earlyBytes n [] = Inr ()"
| "earlyBytes n (r # rs) = (case field r ''body'' of
       Str s \<Rightarrow> if MAX_BATCH_BYTES LIMITS < n + utf8ByteLength s
         then Inl (tooLargeError ''batch exceeds the configured byte bound'')
         else earlyBytes (n + utf8ByteLength s) rs
     | _ \<Rightarrow> earlyBytes n rs)"

definition assertEarlyBatchBounds :: "jsval \<Rightarrow> unit http" where
  "assertEarlyBatchBounds bdy = (case field bdy ''records'' of
      Arr rs \<Rightarrow> andThen (require (length rs \<le> MAX_BATCH_RECORDS LIMITS)
          (tooLargeError ''batch exceeds the configured record bound'')) (\<lambda>_. earlyBytes 0 rs)
    | _ \<Rightarrow> Inr ())"

record patch_input =
  piRecordKey :: jsstr
  piNewState :: jsstr
  piExpectedRevision :: jsstr
  piIdempotencyKey :: jsstr

definition DELIVERY_STATE_NAMES :: "string list" where
  "DELIVERY_STATE_NAMES = [''prepared'', ''received'', ''unknown'', ''accepted'', ''failed'']"

definition keyMismatch :: http_error where
  "keyMismatch = authError 403 ERR_FORBIDDEN ''record key does not match the authenticated request''"

definition validatePatchStateInput :: "jsval \<Rightarrow> jsval \<Rightarrow> jsval \<Rightarrow> patch_input http" where
  "validatePatchStateInput pathRecordKey bdy query =
     andThen (validateMutationQuery query []) (\<lambda>_.
     andThen (validatePathRecordKey pathRecordKey) (\<lambda>recordKey.
     andThen (require (isRecord bdy) (invalidError ''request body must be a JSON object'')) (\<lambda>_.
     andThen (onlyKeys [''recordKey'', ''newState'', ''expectedRevision'', ''idempotencyKey''] bdy
       ''request carries unknown fields'') (\<lambda>_.
     andThen (require (field bdy ''recordKey'' \<in> {Undefined, Str recordKey}) keyMismatch) (\<lambda>_.
     case field bdy ''newState'' of
       Str newState \<Rightarrow>
         andThen (require (newState \<in> set (map js DELIVERY_STATE_NAMES))
           (invalidError ''newState must be a known delivery state'')) (\<lambda>_.
         case field bdy ''expectedRevision'' of
           Str expectedRevision \<Rightarrow>
             andThen (require (isUint64DecimalString (Str expectedRevision))
               (invalidError ''expectedRevision must be a uint64 decimal string'')) (\<lambda>_.
             andThen (validateIdempotencyShape (field bdy ''idempotencyKey'')) (\<lambda>validKey.
             Inr \<lparr>piRecordKey = recordKey, piNewState = newState, piExpectedRevision = expectedRevision,
               piIdempotencyKey = validKey\<rparr>))
         | _ \<Rightarrow> Inl (invalidError ''expectedRevision must be a uint64 decimal string''))
     | _ \<Rightarrow> Inl (invalidError ''newState must be a known delivery state''))))))"

text \<open>A value that may come from the query or from the body, and must agree where both carry it.\<close>

definition agreed :: "string \<Rightarrow> string \<Rightarrow> jsval \<Rightarrow> jsval \<Rightarrow> jsval http" where
  "agreed key d query bdy =
     (let fromQuery = field query key; fromBody = field bdy key in
      andThen (require (fromQuery = Undefined \<or> fromBody = Undefined \<or> strictEq fromQuery fromBody) (invalidError d)) (\<lambda>_.
      Inr (if fromBody \<noteq> Undefined then fromBody else fromQuery)))"

definition optionalIdempotencyKey :: "jsval \<Rightarrow> jsval \<Rightarrow> jsstr option http" where
  "optionalIdempotencyKey query bdy =
     andThen (agreed ''idempotencyKey'' ''idempotencyKey must agree across query and body'' query bdy) (\<lambda>v.
     if v = Undefined then Inr None
     else andThen (validateIdempotencyShape v) (\<lambda>k. Inr (Some k)))"

definition validateDeleteOneInput :: "jsval \<Rightarrow> jsval \<Rightarrow> jsval \<Rightarrow> (jsstr \<times> jsstr option) http" where
  "validateDeleteOneInput pathRecordKey query bdy =
     andThen (validateMutationQuery query [''idempotencyKey'']) (\<lambda>_.
     andThen (validatePathRecordKey pathRecordKey) (\<lambda>recordKey.
     andThen (require (bdy = Undefined \<or> isRecord bdy) (invalidError ''request body must be a JSON object'')) (\<lambda>_.
     andThen (onlyKeys [''recordKey'', ''idempotencyKey''] bdy ''request carries unknown fields'') (\<lambda>_.
     andThen (require (field bdy ''recordKey'' \<in> {Undefined, Str recordKey}) keyMismatch) (\<lambda>_.
     andThen (optionalIdempotencyKey query bdy) (\<lambda>k. Inr (recordKey, k)))))))"

definition validateDeleteAllInput :: "jsval \<Rightarrow> jsval \<Rightarrow> (jsstr option \<times> jsstr option) http" where
  "validateDeleteAllInput query bdy =
     andThen (validateMutationQuery query [''idempotencyKey'', ''expectedEpoch'']) (\<lambda>_.
     andThen (require (bdy = Undefined \<or> isRecord bdy) (invalidError ''request body must be a JSON object'')) (\<lambda>_.
     andThen (onlyKeys [''idempotencyKey'', ''expectedEpoch''] bdy ''request carries unknown fields'') (\<lambda>_.
     andThen (optionalIdempotencyKey query bdy) (\<lambda>idempotencyKey.
     andThen (agreed ''expectedEpoch'' ''expectedEpoch must agree across query and body'' query bdy) (\<lambda>raw.
     if raw = Undefined then Inr (idempotencyKey, None)
     else andThen (validateEpochShape raw) (\<lambda>e. Inr (idempotencyKey, Some e)))))))"

subsection \<open>Retrieval input\<close>

definition parseLimitParam :: "jsval \<Rightarrow> nat option http" where
  "parseLimitParam v =
     (let bad = Inl (invalidError ''limit must be an integer 1..1000'') in
      if isEmptyParam v then Inr None
      else case v of
        Str s \<Rightarrow>
          if s = [] \<or> \<not> list_all isDigit s then bad
          else let n = Number (strToNum s) in
            if positiveSafe n \<and> safeInt n \<le> int MAX_PAGE_RECORDS then Inr (Some (nat (safeInt n))) else bad
      | _ \<Rightarrow> bad)"

definition parseCursorParam :: "jsval \<Rightarrow> jsstr option http" where
  "parseCursorParam v =
     (if isEmptyParam v then Inr None
      else case v of
        Str s \<Rightarrow> if length s \<le> 8192 then Inr (Some s)
          else Inl (invalidCursorError ''cursor is not valid for this request'')
      | _ \<Rightarrow> Inl (invalidCursorError ''cursor is not valid for this request''))"

record feed_filter =
  ffDirection :: "jsstr option"
  ffMessageBox :: "jsstr option"
  ffParticipant :: "jsstr option"

definition noFilter :: feed_filter where
  "noFilter = \<lparr>ffDirection = None, ffMessageBox = None, ffParticipant = None\<rparr>"

text \<open>An optional string field with its check.\<close>

definition optionalStr :: "(jsstr \<Rightarrow> bool) \<Rightarrow> jsval \<Rightarrow> string \<Rightarrow> jsstr option http" where
  "optionalStr ok v d = (case v of
      Undefined \<Rightarrow> Inr None
    | Str s \<Rightarrow> if ok s then Inr (Some s) else Inl (invalidError d)
    | _ \<Rightarrow> Inl (invalidError d))"

definition extractFeedFilter :: "jsval \<Rightarrow> string \<Rightarrow> feed_filter http" where
  "extractFeedFilter query prefix =
     andThen (optionalStr (\<lambda>s. s = js ''inbound'' \<or> s = js ''outbound'') (field query ''direction'')
       (prefix @ ''direction must be inbound or outbound'')) (\<lambda>d.
     andThen (optionalStr (\<lambda>s. s \<noteq> []) (field query ''messageBox'')
       (prefix @ ''messageBox must be a non-empty string'')) (\<lambda>b.
     andThen (optionalStr (\<lambda>s. isIdentityKey (Str s)) (field query ''participant'')
       (prefix @ ''participant must be an identity key'')) (\<lambda>p.
     Inr \<lparr>ffDirection = d, ffMessageBox = b, ffParticipant = p\<rparr>)))"

text \<open>
  \<open>CANONICAL_TIMESTAMP_RE\<close> and the round trip through \<open>Date\<close>: the second-precision prefix is printed
  back exactly when its fields name a day of the Gregorian calendar and a time of that day.
\<close>

definition daysInMonth :: "nat \<Rightarrow> nat \<Rightarrow> nat" where
  "daysInMonth y m =
     (if m = 2 then (if y mod 4 = 0 \<and> (y mod 100 \<noteq> 0 \<or> y mod 400 = 0) then 29 else 28)
      else if m \<in> {4, 6, 9, 11} then 30 else 31)"

definition shapeMatches :: "string \<Rightarrow> jsstr \<Rightarrow> bool" where
  "shapeMatches shape s \<longleftrightarrow>
     list_all2 (\<lambda>c u. if c = CHR ''d'' then isDigit u else u = of_char c) shape s"

definition numAt :: "nat \<Rightarrow> nat \<Rightarrow> jsstr \<Rightarrow> nat" where
  "numAt i n s = natOfDec (take n (drop i s))"

definition canonicalTimestamp :: "jsstr \<Rightarrow> bool" where
  "canonicalTimestamp s \<longleftrightarrow>
     shapeMatches ''dddd-dd-ddTdd:dd:dd'' (take 19 s)
     \<and> (drop 19 s = js ''Z'' \<or>
        (\<exists>n \<in> {1, 2, 3, 4, 5, 6}. shapeMatches (''.'' @ replicate n (CHR ''d'') @ ''Z'') (drop 19 s)))"

definition calendarTime :: "jsstr \<Rightarrow> bool" where
  "calendarTime s \<longleftrightarrow>
     (let y = numAt 0 4 s; mo = numAt 5 2 s; d = numAt 8 2 s in
      1 \<le> mo \<and> mo \<le> 12 \<and> 1 \<le> d \<and> d \<le> daysInMonth y mo
      \<and> numAt 11 2 s \<le> 23 \<and> numAt 14 2 s \<le> 59 \<and> numAt 17 2 s \<le> 59)"

record browse_query =
  bqFilter :: feed_filter
  bqLimit :: "nat option"
  bqAfter :: "(jsstr \<times> jsstr) option"

definition validateBrowseQuery :: "jsval \<Rightarrow> browse_query http" where
  "validateBrowseQuery query =
     andThen (require (isRecord query) (invalidError ''query must be an object'')) (\<lambda>_.
     andThen (onlyKeys [''direction'', ''messageBox'', ''participant'', ''limit'', ''afterCreatedAt'', ''afterRecordKey'']
       query ''query carries unknown fields'') (\<lambda>_.
     andThen (extractFeedFilter query '''') (\<lambda>filt.
     andThen (parseLimitParam (field query ''limit'')) (\<lambda>limit.
     let ac = field query ''afterCreatedAt''; ak = field query ''afterRecordKey'';
         together = invalidError ''afterCreatedAt and afterRecordKey must be supplied together'' in
     andThen (require ((ac = Undefined) = (ak = Undefined)) together) (\<lambda>_.
     if isEmptyParam ac then
       andThen (require (isEmptyParam ak) together) (\<lambda>_.
       Inr \<lparr>bqFilter = filt, bqLimit = limit, bqAfter = None\<rparr>)
     else case ac of
       Str t \<Rightarrow>
         andThen (require (canonicalTimestamp t \<and> calendarTime t)
           (invalidError ''afterCreatedAt must be an ISO timestamp'')) (\<lambda>_.
         case ak of
           Str k \<Rightarrow> andThen (require (hex64Re k \<and> isRecordKey ak)
               (invalidError ''afterRecordKey must be 64 lowercase hex chars'')) (\<lambda>_.
             Inr \<lparr>bqFilter = filt, bqLimit = limit, bqAfter = Some (t, k)\<rparr>)
         | _ \<Rightarrow> Inl (invalidError ''afterRecordKey must be 64 lowercase hex chars''))
     | _ \<Rightarrow> Inl (invalidError ''afterCreatedAt must be an ISO timestamp''))))))"

record changes_query =
  cqCursor :: "jsstr option"
  cqAfterSequence :: "jsstr option"
  cqExpectedEpoch :: "jsstr option"
  cqLimit :: "nat option"
  cqFilter :: feed_filter

definition checkpointParams :: "jsstr option \<Rightarrow> jsval \<Rightarrow> jsval \<Rightarrow> (jsstr option \<times> jsstr option) http" where
  "checkpointParams cursor rawAfter rawEpoch =
     andThen (require ((rawAfter = Undefined) = (rawEpoch = Undefined))
       (invalidError ''afterSequence and epoch must be supplied together'')) (\<lambda>_.
     if rawAfter = Undefined then Inr (None, None)
     else
       andThen (require (cursor = None) (invalidError ''cursor and checkpoint mode are mutually exclusive'')) (\<lambda>_.
       case rawAfter of
         Str a \<Rightarrow> andThen (require (isUint64DecimalString rawAfter)
             (invalidError ''afterSequence must be a canonical uint64 decimal string'')) (\<lambda>_.
           andThen (validateEpochShape rawEpoch) (\<lambda>e. Inr (Some a, Some e)))
       | _ \<Rightarrow> Inl (invalidError ''afterSequence must be a canonical uint64 decimal string'')))"

definition validateChangesQuery :: "jsval \<Rightarrow> changes_query http" where
  "validateChangesQuery query =
     andThen (require (isRecord query) (invalidError ''query must be an object'')) (\<lambda>_.
     andThen (onlyKeys [''cursor'', ''afterSequence'', ''epoch'', ''limit'', ''direction'', ''messageBox'', ''participant'']
       query ''query carries unknown fields'') (\<lambda>_.
     andThen (extractFeedFilter query '''') (\<lambda>filt.
     andThen (parseCursorParam (field query ''cursor'')) (\<lambda>cursor.
     andThen (checkpointParams cursor (field query ''afterSequence'') (field query ''epoch'')) (\<lambda>(a, e).
     andThen (parseLimitParam (field query ''limit'')) (\<lambda>limit.
     Inr \<lparr>cqCursor = cursor, cqAfterSequence = a, cqExpectedEpoch = e, cqLimit = limit, cqFilter = filt\<rparr>))))))"

definition snapshotIdRe :: "jsstr \<Rightarrow> bool" where
  "snapshotIdRe s \<longleftrightarrow> take 5 s = js ''snap_'' \<and> length s = 37 \<and> list_all isLowerHex (drop 5 s)"

definition validateSnapshotIdShape :: "jsval \<Rightarrow> jsstr http" where
  "validateSnapshotIdShape v = (case v of
      Str s \<Rightarrow> if snapshotIdRe s then Inr s
        else Inl (invalidCursorError ''snapshot identifier is not valid for this request'')
    | _ \<Rightarrow> Inl (invalidCursorError ''snapshot identifier is not valid for this request''))"

definition validateSnapshotPageQuery :: "jsval \<Rightarrow> (jsstr \<times> jsstr option \<times> nat option) http" where
  "validateSnapshotPageQuery query =
     andThen (require (isRecord query) (invalidError ''query must be an object'')) (\<lambda>_.
     andThen (onlyKeys [''snapshotId'', ''cursor'', ''limit''] query ''query carries unknown fields'') (\<lambda>_.
     andThen (validateSnapshotIdShape (field query ''snapshotId'')) (\<lambda>snapshotId.
     andThen (parseCursorParam (field query ''cursor'')) (\<lambda>cursor.
     andThen (parseLimitParam (field query ''limit'')) (\<lambda>limit.
     Inr (snapshotId, cursor, limit))))))"

definition validateSnapshotCreateBody :: "jsval \<Rightarrow> feed_filter http" where
  "validateSnapshotCreateBody bdy =
     (if bdy = Undefined then Inr noFilter
      else
        andThen (require (isRecord bdy) (invalidError ''request body must be a JSON object'')) (\<lambda>_.
        andThen (onlyKeys [''filter''] bdy ''request carries unknown fields'') (\<lambda>_.
        let rawFilter = field bdy ''filter'' in
        if rawFilter = Undefined then Inr noFilter
        else
          andThen (require (isRecord rawFilter) (invalidError ''filter must be an object'')) (\<lambda>_.
          andThen (onlyKeys [''direction'', ''messageBox'', ''participant''] rawFilter ''filter carries unknown fields'') (\<lambda>_.
          extractFeedFilter rawFilter ''filter.'')))))"

definition validateUsageQuery :: "jsval \<Rightarrow> unit http" where
  "validateUsageQuery query =
     (if query = Undefined \<or> query = Null then Inr ()
      else andThen (require (isRecord query) (invalidError ''query must be an object'')) (\<lambda>_.
        require (keysOf query = []) (invalidError ''query carries unknown fields'')))"

subsection \<open>Repository errors as responses\<close>

record envelope =
  evStatus :: nat
  evCode :: code
  evDescription :: string

definition mapRepositoryError :: "code option \<Rightarrow> envelope" where
  "mapRepositoryError c =
     (let internal = \<lparr>evStatus = 500, evCode = ERR_INTERNAL, evDescription = ''internal error''\<rparr>;
          unavailable = \<lparr>evStatus = 500, evCode = ERR_UNAVAILABLE, evDescription = ''service unavailable''\<rparr> in
      case c of
        None \<Rightarrow> internal
      | Some c \<Rightarrow> (case c of
          ERR_INVALID_RECORD \<Rightarrow> \<lparr>evStatus = 400, evCode = c, evDescription = ''invalid request''\<rparr>
        | ERR_INVALID_CURSOR \<Rightarrow> \<lparr>evStatus = 400, evCode = c, evDescription = ''invalid request''\<rparr>
        | ERR_CURSOR_EXPIRED \<Rightarrow>
            \<lparr>evStatus = 410, evCode = c, evDescription = ''cursor expired; take a full snapshot''\<rparr>
        | ERR_REQUEST_TOO_LARGE \<Rightarrow>
            \<lparr>evStatus = 413, evCode = c, evDescription = ''request exceeds the configured limit''\<rparr>
        | ERR_AUTHENTICATION_REQUIRED \<Rightarrow>
            \<lparr>evStatus = 401, evCode = c, evDescription = ''authentication required''\<rparr>
        | ERR_FORBIDDEN \<Rightarrow> \<lparr>evStatus = 403, evCode = c, evDescription = ''forbidden''\<rparr>
        | ERR_RATE_LIMITED \<Rightarrow> \<lparr>evStatus = 429, evCode = c, evDescription = ''rate limited''\<rparr>
        | ERR_UNAVAILABLE \<Rightarrow> \<lparr>evStatus = 503, evCode = c, evDescription = ''service unavailable''\<rparr>
        | ERR_INTERNAL \<Rightarrow> internal
        | ERR_PAID_TRANSPORT_UNSUPPORTED \<Rightarrow> unavailable
        | Other_Code s \<Rightarrow> if take 4 s = ''ERR_'' then unavailable else internal
        | _ \<Rightarrow> \<lparr>evStatus = 409, evCode = c, evDescription = ''request conflicts with current state''\<rparr>))"

subsection \<open>Properties\<close>

lemma eachM_Inr: "eachM f xs = Inr u \<longleftrightarrow> (\<forall>x \<in> set xs. f x = Inr ())"
  by (induction xs) (auto simp: result_simps)

lemma earlyBytes_ok: "n + sum_list (map bodyLength rs) \<le> MAX_BATCH_BYTES LIMITS \<Longrightarrow> earlyBytes n rs = Inr ()"
  by (induction rs arbitrary: n) (auto simp: bodyLength_def split: jsval.split)

lemma validateArchiveBatchBody_Inr:
  assumes "validateArchiveBatchBody bdy = Inr (e, rs)"
  shows "validateEpochShape (field bdy ''epoch'') = Inr e" "field bdy ''records'' = Arr rs" "rs \<noteq> []"
    "length rs \<le> MAX_BATCH_RECORDS LIMITS" "\<forall>r \<in> set rs. checkBatchRecord r = Inr ()"
    "sum_list (map bodyLength rs) \<le> MAX_BATCH_BYTES LIMITS"
  using assms
  by (cases "field bdy ''records''"; simp add: validateArchiveBatchBody_def result_simps eachM_Inr; blast)+

text \<open>The three bounds on a batch agree: whatever the route validator accepts, the check before
  authentication lets through as well, and the repository's own bound check finds nothing to refuse;
  every accepted record is an object whose identities and direction have the required form.\<close>

theorem batch_bounds_agree:
  assumes "validateArchiveBatchBody bdy = Inr (e, rs)"
  shows "assertEarlyBatchBounds bdy = Inr () \<and> validateArchiveBatchBounds (field bdy ''records'') LIMITS = Inr rs
    \<and> epochRe e \<and> (\<forall>r \<in> set rs. isRecord r \<and> isIdentityKey (field r ''sender'') \<and> isIdentityKey (field r ''recipient'')
         \<and> field r ''direction'' \<in> {Str (js ''inbound''), Str (js ''outbound'')})"
proof -
  note V = validateArchiveBatchBody_Inr [OF assms]
  have "\<forall>r \<in> set rs. isRecord r \<and> isIdentityKey (field r ''sender'') \<and> isIdentityKey (field r ''recipient'')
         \<and> field r ''direction'' \<in> {Str (js ''inbound''), Str (js ''outbound'')}"
    using V(5) by (auto simp: checkBatchRecord_def result_simps Let_def)
  moreover have "epochRe e" using V(1) by (auto simp: validateEpochShape_def split: jsval.splits if_splits)
  ultimately show ?thesis using V(2,3,4,6)
    by (simp add: assertEarlyBatchBounds_def validateArchiveBatchBounds_def earlyBytes_ok)
qed

definition sampleRecord :: jsval where
  "sampleRecord = Obj [(js ''messageId'', Str (js ''m'')), (js ''messageBox'', Str (js ''b'')),
     (js ''direction'', Str (js ''outbound'')), (js ''sender'', Str m0Owner), (js ''recipient'', Str m0Recipient),
     (js ''body'', Str (js ''{}''))]"

lemma sampleRecord_fields:
  "field sampleRecord ''messageId'' = Str (js ''m'')" "field sampleRecord ''messageBox'' = Str (js ''b'')"
  "field sampleRecord ''direction'' = Str (js ''outbound'')" "field sampleRecord ''sender'' = Str m0Owner"
  "field sampleRecord ''recipient'' = Str m0Recipient" "field sampleRecord ''body'' = Str (js ''{}'')"
  "field sampleRecord ''recordKey'' = Undefined" "field sampleRecord ''bodyHash'' = Undefined"
  "field sampleRecord ''deliveryState'' = Undefined"
  by (simp_all add: sampleRecord_def field_def getProp_def js_def)

lemma m0_identities: "isIdentityKey (Str m0Owner)" "isIdentityKey (Str m0Recipient)"
  by (simp_all add: isIdentityKey_def identityKeyRe_def m0Owner_def m0Recipient_def js_def isLowerHex_def isDigit_def)

lemma sampleRecord_ok: "checkBatchRecord sampleRecord = Inr ()"
  by (simp add: checkBatchRecord_def sampleRecord_fields onlyKeys_def ARCHIVE_REQUIRED_KEYS_def optionalHex_def
      m0_identities Let_def)
    (simp add: isRecord_def keysOf_def sampleRecord_def ARCHIVE_ALLOWED_KEYS_def js_def)

theorem batch_bounds_agree_witness:
  "assertEarlyBatchBounds (Obj [(js ''epoch'', Str (js ''gen-1'')), (js ''records'', Arr [sampleRecord])]) = Inr ()"
proof -
  let ?b = "Obj [(js ''epoch'', Str (js ''gen-1'')), (js ''records'', Arr [sampleRecord])]"
  have f: "field ?b ''epoch'' = Str (js ''gen-1'')" "field ?b ''records'' = Arr [sampleRecord]"
    by (simp_all add: field_def getProp_def js_def)
  have "validateArchiveBatchBody ?b = Inr (js ''gen-1'', [sampleRecord])"
    unfolding validateArchiveBatchBody_def f
    by (simp add: sampleRecord_ok isRecord_def onlyKeys_def keysOf_def validateEpochShape_def epochRe_def
        isAlnum_def isDigit_def LIMITS_def bodyLength_def sampleRecord_fields js_def
        utf8ByteLength_def utf8Bytes_def utf8Scalar_def is_high_def is_low_def)
  then show ?thesis using batch_bounds_agree by blast
qed

lemma isIdentityKeyE: "isIdentityKey v \<Longrightarrow> (\<And>s. v = Str s \<Longrightarrow> isIdentityKey (Str s) \<Longrightarrow> P) \<Longrightarrow> P"
  by (cases v) (simp_all add: isIdentityKey_def)

lemma isIdentityKey_iff: "isIdentityKey v \<longleftrightarrow> (\<exists>s. v = Str s \<and> identityKeyRe s)"
  by (cases v) (simp_all add: isIdentityKey_def)

lemma ownedRecord_iff:
  assumes "isIdentityKey owner"
  shows "ownedRecord owner r = Inr () \<longleftrightarrow> isRecord r \<and>
    assertOwnerDirection owner (field r ''direction'') (field r ''sender'') (field r ''recipient'') = Inr ()"
    (is "?l = ?r")
proof -
  have ne: "js ''inbound'' \<noteq> js ''outbound''" by (simp add: js_def)
  obtain ow where ow: "owner = Str ow" using assms by (rule isIdentityKeyE)
  have R: "assertOwnerDirection owner d s t = Inr () \<longleftrightarrow> isIdentityKey s \<and> isIdentityKey t \<and>
      (d = Str (js ''inbound'') \<and> t = owner \<or> d = Str (js ''outbound'') \<and> s = owner)" for d s t
  proof -
    have "assertOwnerDirection owner d s t = Inr () \<longleftrightarrow> (\<exists>dv sv tv. d = Str dv \<and> s = Str sv \<and> t = Str tv
        \<and> (dv = js ''inbound'' \<or> dv = js ''outbound'') \<and> isIdentityKey (Str sv) \<and> isIdentityKey (Str tv)
        \<and> (dv = js ''inbound'' \<longrightarrow> tv = ow) \<and> (dv = js ''outbound'' \<longrightarrow> sv = ow))"
      using assms unfolding ow assertOwnerDirection_def by (simp add: result_simps) blast
    also have "\<dots> \<longleftrightarrow> isIdentityKey s \<and> isIdentityKey t \<and>
      (d = Str (js ''inbound'') \<and> t = owner \<or> d = Str (js ''outbound'') \<and> s = owner)"
      using ne assms unfolding ow isIdentityKey_iff by auto
    finally show ?thesis .
  qed
  show ?thesis unfolding R using ne by (auto simp: ownedRecord_def result_simps Let_def)
qed

text \<open>The ownership check at the HTTP layer is the repository's owner-direction check applied to
  every record of the batch, for a verified owner.\<close>

theorem ownership_agrees:
  "assertArchiveOwnership owner (Arr rs) = Inr n \<longleftrightarrow>
     isIdentityKey owner \<and> n = length rs
     \<and> (\<forall>r \<in> set rs. isRecord r \<and>
          assertOwnerDirection owner (field r ''direction'') (field r ''sender'') (field r ''recipient'') = Inr ())"
  by (auto simp: assertArchiveOwnership_def result_simps eachM_Inr ownedRecord_iff)

theorem ownership_agrees_witness:
  "assertOwnerDirection (Str m0Owner) (field sampleRecord ''direction'') (field sampleRecord ''sender'')
     (field sampleRecord ''recipient'') = Inr ()"
proof -
  have "isRecord sampleRecord" "js ''inbound'' \<noteq> js ''outbound''" by (simp_all add: isRecord_def sampleRecord_def js_def)
  then have "assertArchiveOwnership (Str m0Owner) (Arr [sampleRecord]) = Inr 1"
    by (simp add: assertArchiveOwnership_def ownedRecord_def sampleRecord_fields m0_identities Let_def)
  then show ?thesis using ownership_agrees [of "Str m0Owner" "[sampleRecord]" 1] by simp
qed

text \<open>A delete-all guard is never dropped: when the request is accepted with no expected epoch,
  neither the query nor the body carried one, and an accepted guard is the well-formed value that
  each place that carried it holds; the same for the idempotency key.\<close>

theorem delete_all_guards_kept:
  assumes "validateDeleteAllInput query bdy = Inr (k, e)"
  shows "(case e of None \<Rightarrow> field query ''expectedEpoch'' = Undefined \<and> field bdy ''expectedEpoch'' = Undefined
      | Some x \<Rightarrow> epochRe x \<and> {field query ''expectedEpoch'', field bdy ''expectedEpoch''} \<subseteq> {Undefined, Str x})
    \<and> (case k of None \<Rightarrow> field query ''idempotencyKey'' = Undefined \<and> field bdy ''idempotencyKey'' = Undefined
      | Some x \<Rightarrow> idempotencyRe x \<and> {field query ''idempotencyKey'', field bdy ''idempotencyKey''} \<subseteq> {Undefined, Str x})"
proof -
  have eq: "strictEq a b \<Longrightarrow> a = b" for a b
    by (auto simp: strictEq_def split: jsval.splits jsnum.splits)
  show ?thesis using assms
    by (auto simp: validateDeleteAllInput_def optionalIdempotencyKey_def agreed_def validateEpochShape_def
        validateIdempotencyShape_def result_simps Let_def dest!: eq split: jsval.splits if_splits)
qed

text \<open>An accepted changes query is in exactly one mode: it carries a cursor, or a checkpoint that is
  a canonical sequence with its epoch, or neither; its page limit is between 1 and the page bound.\<close>

theorem changes_query_modes:
  assumes "validateChangesQuery query = Inr q"
  shows "(cqAfterSequence q = None \<longleftrightarrow> cqExpectedEpoch q = None)
    \<and> (cqAfterSequence q \<noteq> None \<longrightarrow> cqCursor q = None)
    \<and> (\<forall>a. cqAfterSequence q = Some a \<longrightarrow> isUint64DecimalString (Str a))
    \<and> (\<forall>n. cqLimit q = Some n \<longrightarrow> 1 \<le> n \<and> n \<le> MAX_PAGE_RECORDS)"
proof -
  have f: "1 \<le> nat \<lfloor>q\<rfloor>" if "1 \<le> (q :: rat)" for q
    using that by (simp add: le_nat_iff le_floor_iff)
  have l: "parseLimitParam v = Inr (Some n) \<Longrightarrow> 1 \<le> n \<and> n \<le> MAX_PAGE_RECORDS" for v n
    by (auto simp: parseLimitParam_def positiveSafe_def safeInt_def Let_def nat_le_iff
        simp del: One_nat_def intro: f split: jsval.splits if_splits jsnum.splits)
  obtain c a e where q: "checkpointParams c (field query ''afterSequence'') (field query ''epoch'') = Inr (a, e)"
      "cqCursor q = c" "cqAfterSequence q = a" "cqExpectedEpoch q = e"
      "parseLimitParam (field query ''limit'') = Inr (cqLimit q)"
    using assms by (auto simp: validateChangesQuery_def result_simps split: prod.splits)
  have "(a = None \<longleftrightarrow> e = None) \<and> (a \<noteq> None \<longrightarrow> c = None) \<and> (\<forall>x. a = Some x \<longrightarrow> isUint64DecimalString (Str x))"
    using q(1) by (auto simp: checkpointParams_def result_simps split: jsval.splits if_splits)
  then show ?thesis using q l by auto
qed

theorem delete_all_guards_kept_witness:
  "{field (Obj [(js ''expectedEpoch'', Str (js ''e''))]) ''expectedEpoch'', field Undefined ''expectedEpoch''}
     \<subseteq> {Undefined, Str (js ''e'')}"
proof -
  have "validateDeleteAllInput (Obj [(js ''expectedEpoch'', Str (js ''e''))]) Undefined = Inr (None, Some (js ''e''))"
    by (simp add: validateDeleteAllInput_def validateMutationQuery_def isRecord_def onlyKeys_def keysOf_def
        optionalIdempotencyKey_def agreed_def field_def getProp_def js_def validateEpochShape_def epochRe_def
        isAlnum_def isDigit_def Let_def)
  from delete_all_guards_kept [OF this] show ?thesis by simp
qed

theorem changes_query_modes_witness:
  "\<exists>q. validateChangesQuery (Obj [(js ''cursor'', Str (js ''c''))]) = Inr q \<and> cqCursor q = Some (js ''c'')
     \<and> cqAfterSequence q = None \<and> cqExpectedEpoch q = None"
proof -
  have "validateChangesQuery (Obj [(js ''cursor'', Str (js ''c''))]) =
      Inr \<lparr>cqCursor = Some (js ''c''), cqAfterSequence = None, cqExpectedEpoch = None, cqLimit = None, cqFilter = noFilter\<rparr>"
    by (simp add: validateChangesQuery_def isRecord_def onlyKeys_def keysOf_def extractFeedFilter_def optionalStr_def
        parseCursorParam_def parseLimitParam_def checkpointParams_def isEmptyParam_def field_def getProp_def js_def
        noFilter_def Let_def)
  from this changes_query_modes [OF this] show ?thesis by simp
qed

end
