(* ===== verification/Guards.thy ===== *)
theory Guards
  imports ServiceInput
begin

section \<open>The replay window and the admission tracker\<close>

text \<open>
  Two process-local guards of \<open>src/service.ts\<close> as state machines. \<open>createReplayGuard\<close> remembers the
  request ids it let through, in insertion order, and forgets the oldest beyond its limit.
  \<open>createAdmissionTracker\<close> counts the requests in flight and resolves the promises of \<open>waitIdle\<close>;
  the middleware of \<open>createServiceApp\<close> that acquires and releases the slots is modelled with it, so
  that a request that ends twice (\<open>finish\<close> then \<open>close\<close>) is part of the model. A promise is a number;
  the ones already resolved are listed with their value.
\<close>

subsection \<open>The replay window\<close>

definition REPLAY_CACHE_LIMIT :: nat where "REPLAY_CACHE_LIMIT = 5000"

definition AUTH_HANDSHAKE_PATH :: jsstr where "AUTH_HANDSHAKE_PATH = js ''/.well-known/auth''"

record replay =
  rgLimit :: nat
  rgSeen :: "jsstr list"

datatype guard_answer = Next | NextError http_error

definition authRequired :: http_error where
  "authRequired = authError 401 ERR_AUTHENTICATION_REQUIRED ''authentication required''"

definition createReplayGuard :: "jsval \<Rightarrow> replay result" where
  "createReplayGuard limit =
     (let l = orDefault limit (IntNum (int REPLAY_CACHE_LIMIT)) in
      andThen (require (positiveSafe l) (type_error ''replay guard limit must be a positive safe integer'')) (\<lambda>_.
      Inr \<lparr>rgLimit = nat (safeInt l), rgSeen = []\<rparr>))"

definition replayMiddleware :: "jsstr \<Rightarrow> jsval \<Rightarrow> replay \<Rightarrow> guard_answer \<times> replay" where
  "replayMiddleware path header g =
     (if path = AUTH_HANDSHAKE_PATH then (Next, g)
      else case header of
        Str h \<Rightarrow>
          if h = [] \<or> h \<in> set (rgSeen g) then (NextError authRequired, g)
          else let seen = rgSeen g @ [h] in
            (Next, g\<lparr>rgSeen := if rgLimit g < length seen then tl seen else seen\<rparr>)
      | _ \<Rightarrow> (NextError authRequired, g))"

text \<open>A run of requests, with the ids it let through.\<close>

fun replayRun :: "(jsstr \<times> jsval) list \<Rightarrow> replay \<Rightarrow> jsstr list \<times> replay" where
  "replayRun [] g = ([], g)"
| "replayRun ((p, h) # rs) g =
     (let (a, g1) = replayMiddleware p h g; (ids, g2) = replayRun rs g1 in
      (case (a, h) of (Next, Str i) \<Rightarrow> if p = AUTH_HANDSHAKE_PATH then ids else i # ids | _ \<Rightarrow> ids, g2))"

definition lastN :: "nat \<Rightarrow> 'a list \<Rightarrow> 'a list" where
  "lastN n xs = drop (length xs - n) xs"

lemma lastN_snoc: "0 < n \<Longrightarrow>
  lastN n (xs @ [x]) = (if n < length (lastN n xs @ [x]) then tl (lastN n xs @ [x]) else lastN n xs @ [x])"
  by (auto simp: lastN_def drop_Suc [symmetric] tl_drop Suc_diff_le not_less)

lemma replayRun_window:
  assumes "rgSeen g = lastN (rgLimit g) old" "0 < rgLimit g" "distinct (rgSeen g)" "replayRun rs g = (ids, g')"
  shows "rgSeen g' = lastN (rgLimit g) (old @ ids) \<and> rgLimit g' = rgLimit g \<and> distinct (lastN (rgLimit g) (old @ ids))"
  using assms
proof (induction rs arbitrary: g old ids)
  case (Cons r rs)
  obtain p h where r: "r = (p, h)" by fastforce
  obtain a g1 where m: "replayMiddleware p h g = (a, g1)" by fastforce
  obtain ids1 where run: "replayRun rs g1 = (ids1, g')"
    using Cons.prems(4) m by (auto simp: r split: prod.splits)
  show ?case
  proof (cases "a = Next \<and> p \<noteq> AUTH_HANDSHAKE_PATH")
    case False
    then have "g1 = g" "ids = ids1" using m run Cons.prems(4)
      by (auto simp: r replayMiddleware_def Let_def split: jsval.splits if_splits guard_answer.splits)
    then show ?thesis using Cons.IH [OF Cons.prems(1-3), of ids1] run by simp
  next
    case True
    then obtain i where i: "h = Str i" "i \<notin> set (rgSeen g)" "rgLimit g1 = rgLimit g"
        "rgSeen g1 = (if rgLimit g < length (rgSeen g @ [i]) then tl (rgSeen g @ [i]) else rgSeen g @ [i])"
      using m by (auto simp: replayMiddleware_def Let_def split: jsval.splits if_splits)
    have ids: "ids = i # ids1" using True i m run Cons.prems(4) by (auto simp: r)
    have "rgSeen g1 = lastN (rgLimit g1) (old @ [i])"
      using i Cons.prems(1) lastN_snoc [OF Cons.prems(2), of old i] by simp
    moreover have "distinct (rgSeen g1)" using i Cons.prems(3) by (auto intro: distinct_tl)
    ultimately show ?thesis using Cons.IH [of g1 "old @ [i]" ids1] run i(3) Cons.prems(2) ids by simp
  qed
qed simp

text \<open>C16: The replay window is exact: after any run of requests, a request id is let through exactly
  when it is not among the last \<open>limit\<close> ids that were let through, and the guard keeps no more than
  \<open>limit\<close> ids, each once.\<close>

theorem replay_window_exact:
  assumes "createReplayGuard l = Inr g" "replayRun rs g = (ids, g')" "path \<noteq> AUTH_HANDSHAKE_PATH" "h \<noteq> []"
  shows "(fst (replayMiddleware path (Str h) g') = Next \<longleftrightarrow> h \<notin> set (lastN (rgLimit g) ids))
    \<and> length (rgSeen g') \<le> rgLimit g \<and> distinct (rgSeen g')"
proof -
  have g: "rgSeen g = []" "0 < rgLimit g"
    using assms(1) by (auto simp: createReplayGuard_def positiveSafe_def safeInt_def Let_def result_simps
        le_floor_iff split: jsval.splits jsnum.splits)
  have s: "rgSeen g' = lastN (rgLimit g) ids" and d: "distinct (lastN (rgLimit g) ids)"
    using replayRun_window [of g "[]" rs ids g'] g assms(2) by (simp_all add: lastN_def)
  have "length (rgSeen g') \<le> rgLimit g" by (simp add: s lastN_def)
  moreover have "fst (replayMiddleware path (Str h) g') = Next \<longleftrightarrow> h \<notin> set (rgSeen g')"
    using assms(3,4) by (simp add: replayMiddleware_def Let_def)
  ultimately show ?thesis using s d by simp
qed

theorem replay_window_exact_witness:
  "fst (replayMiddleware (js ''/v1'') (Str (js ''id''))
     (snd (replayRun [(js ''/v1'', Str (js ''id''))] \<lparr>rgLimit = 5000, rgSeen = []\<rparr>))) \<noteq> Next"
proof -
  have c: "createReplayGuard Undefined = Inr \<lparr>rgLimit = 5000, rgSeen = []\<rparr>"
    by (simp add: createReplayGuard_def orDefault_def positiveSafe_def safeInt_def isSafeInteger_def REPLAY_CACHE_LIMIT_def)
  have p: "js ''/v1'' \<noteq> AUTH_HANDSHAKE_PATH" "js ''id'' \<noteq> []" by (simp_all add: AUTH_HANDSHAKE_PATH_def js_def)
  obtain g' where run: "replayRun [(js ''/v1'', Str (js ''id''))] \<lparr>rgLimit = 5000, rgSeen = []\<rparr> = ([js ''id''], g')"
    using p by (simp add: replayMiddleware_def Let_def)
  show ?thesis using replay_window_exact [OF c run p] unfolding run by (simp add: lastN_def)
qed

subsection \<open>The admission tracker\<close>

record tracker =
  tkActive :: nat
  tkDraining :: bool
  tkWaiters :: "nat list"
  tkResolved :: "(nat \<times> bool) list"

definition createAdmissionTracker :: tracker where
  "createAdmissionTracker = \<lparr>tkActive = 0, tkDraining = False, tkWaiters = [], tkResolved = []\<rparr>"

definition notifyIdle :: "tracker \<Rightarrow> tracker" where
  "notifyIdle t = (if 0 < tkActive t then t
     else t\<lparr>tkWaiters := [], tkResolved := tkResolved t @ map (\<lambda>w. (w, True)) (tkWaiters t)\<rparr>)"

definition tryAcquire :: "nat \<Rightarrow> tracker \<Rightarrow> bool \<times> tracker" where
  "tryAcquire limit t =
     (if tkDraining t then (False, t)
      else if limit \<le> tkActive t then (False, t)
      else (True, t\<lparr>tkActive := tkActive t + 1\<rparr>))"

definition releaseSlot :: "tracker \<Rightarrow> tracker" where
  "releaseSlot t = (if tkActive t = 0 then t else notifyIdle (t\<lparr>tkActive := tkActive t - 1\<rparr>))"

definition waitIdle :: "nat \<Rightarrow> jsval \<Rightarrow> tracker \<Rightarrow> tracker" where
  "waitIdle w timeoutMs t =
     (if tkActive t = 0 then t\<lparr>tkResolved := tkResolved t @ [(w, True)]\<rparr>
      else if \<not> positiveSafe timeoutMs then t\<lparr>tkResolved := tkResolved t @ [(w, False)]\<rparr>
      else t\<lparr>tkWaiters := tkWaiters t @ [w]\<rparr>)"

definition idleTimeout :: "nat \<Rightarrow> tracker \<Rightarrow> tracker" where
  "idleTimeout w t = (if w \<in> set (tkWaiters t)
     then t\<lparr>tkWaiters := filter (\<lambda>v. v \<noteq> w) (tkWaiters t), tkResolved := tkResolved t @ [(w, False)]\<rparr> else t)"

text \<open>The tracker with the requests that hold a slot and have not released it.\<close>

record admission =
  amTracker :: tracker
  amOpen :: "nat list"
  amNext :: nat

datatype admission_event =
    Arrive | Ends nat | WaitIdle jsval | IdleTimeout nat | BeginDrain | ClearDrain

fun admissionStep :: "nat \<Rightarrow> admission_event \<Rightarrow> admission \<Rightarrow> admission" where
  "admissionStep limit Arrive a =
     (let (ok, t) = tryAcquire limit (amTracker a) in
      a\<lparr>amTracker := t, amOpen := if ok then amOpen a @ [amNext a] else amOpen a, amNext := amNext a + 1\<rparr>)"
| "admissionStep limit (Ends r) a =
     (if r \<in> set (amOpen a)
      then a\<lparr>amTracker := releaseSlot (amTracker a), amOpen := filter (\<lambda>q. q \<noteq> r) (amOpen a)\<rparr> else a)"
| "admissionStep limit (WaitIdle timeoutMs) a =
     a\<lparr>amTracker := waitIdle (amNext a) timeoutMs (amTracker a), amNext := amNext a + 1\<rparr>"
| "admissionStep limit (IdleTimeout w) a = a\<lparr>amTracker := idleTimeout w (amTracker a)\<rparr>"
| "admissionStep limit BeginDrain a = a\<lparr>amTracker := (amTracker a)\<lparr>tkDraining := True\<rparr>\<rparr>"
| "admissionStep limit ClearDrain a = a\<lparr>amTracker := (amTracker a)\<lparr>tkDraining := False\<rparr>\<rparr>"

definition admissionRun :: "nat \<Rightarrow> admission_event list \<Rightarrow> admission \<Rightarrow> admission" where
  "admissionRun limit es a = fold (admissionStep limit) es a"

definition freshAdmission :: admission where
  "freshAdmission = \<lparr>amTracker = createAdmissionTracker, amOpen = [], amNext = 0\<rparr>"

definition admissionInv :: "nat \<Rightarrow> admission \<Rightarrow> bool" where
  "admissionInv limit a \<longleftrightarrow> tkActive (amTracker a) = length (amOpen a) \<and> length (amOpen a) \<le> limit
     \<and> distinct (amOpen a) \<and> (\<forall>r \<in> set (amOpen a). r < amNext a)
     \<and> (tkWaiters (amTracker a) \<noteq> [] \<longrightarrow> amOpen a \<noteq> [])
     \<and> (\<forall>w \<in> set (tkWaiters (amTracker a)). w < amNext a)"

lemma filter_absent: "r \<notin> set xs \<Longrightarrow> filter (\<lambda>q. q \<noteq> r) xs = xs"
  by (induction xs) auto

lemma length_remove_distinct: "distinct xs \<Longrightarrow> r \<in> set xs \<Longrightarrow> Suc (length (filter (\<lambda>q. q \<noteq> r) xs)) = length xs"
  by (induction xs) (auto simp: filter_absent)

lemma admissionStep_inv: "admissionInv limit a \<Longrightarrow> admissionInv limit (admissionStep limit e a)"
proof (induction limit e a rule: admissionStep.induct)
  case (2 limit r a)
  show ?case
  proof (cases "r \<in> set (amOpen a)")
    case True
    have "Suc (length (filter (\<lambda>q. q \<noteq> r) (amOpen a))) = length (amOpen a)"
      using 2 True by (intro length_remove_distinct) (auto simp: admissionInv_def)
    then have l: "length (filter (\<lambda>q. q \<noteq> r) (amOpen a)) = tkActive (amTracker a) - 1" "0 < tkActive (amTracker a)"
      using 2 True by (auto simp: admissionInv_def)
    then have "tkActive (amTracker a) = 1 \<or> filter (\<lambda>q. q \<noteq> r) (amOpen a) \<noteq> []" by fastforce
    then show ?thesis using 2 True l
      by (auto simp: admissionInv_def releaseSlot_def notifyIdle_def)
  qed (use 2 in simp)
qed (auto simp: admissionInv_def tryAcquire_def waitIdle_def idleTimeout_def split: prod.splits if_splits)

lemma admissionRun_inv: "admissionInv limit a \<Longrightarrow> admissionInv limit (admissionRun limit es a)"
  by (induction es arbitrary: a) (simp_all add: admissionRun_def admissionStep_inv)

lemma freshAdmission_inv: "admissionInv limit freshAdmission"
  by (simp add: admissionInv_def freshAdmission_def createAdmissionTracker_def)

text \<open>C23: In every run of arrivals, ends (each request may end several times), waits and drains, the
  active count is the number of admitted requests that have not ended, it never exceeds the limit,
  and a promise of \<open>waitIdle\<close> is pending only while some request is active.\<close>

theorem admission_invariant:
  "admissionInv limit (admissionRun limit es freshAdmission)"
  by (rule admissionRun_inv [OF freshAdmission_inv])

lemma drained_step:
  assumes "admissionInv limit a" "tkDraining (amTracker a)" "e \<noteq> ClearDrain"
  shows "tkDraining (amTracker (admissionStep limit e a))
    \<and> set (amOpen (admissionStep limit e a)) = set (amOpen a) - (case e of Ends r \<Rightarrow> {r} | _ \<Rightarrow> {})
    \<and> (\<forall>w \<in> set (tkWaiters (amTracker a)). w \<in> set (tkWaiters (amTracker (admissionStep limit e a)))
         \<or> (w, True) \<in> set (tkResolved (amTracker (admissionStep limit e a))) \<or> e = IdleTimeout w)
    \<and> set (tkResolved (amTracker a)) \<subseteq> set (tkResolved (amTracker (admissionStep limit e a)))"
  using assms
  by (cases e) (auto simp: tryAcquire_def releaseSlot_def notifyIdle_def waitIdle_def idleTimeout_def)

lemma drained_run:
  assumes "admissionInv limit a" "tkDraining (amTracker a)" "ClearDrain \<notin> set es"
  shows "tkDraining (amTracker (admissionRun limit es a))
    \<and> set (amOpen (admissionRun limit es a)) = set (amOpen a) - {r. Ends r \<in> set es}
    \<and> (\<forall>w \<in> set (tkWaiters (amTracker a)). w \<in> set (tkWaiters (amTracker (admissionRun limit es a)))
         \<or> (w, True) \<in> set (tkResolved (amTracker (admissionRun limit es a))) \<or> IdleTimeout w \<in> set es)
    \<and> set (tkResolved (amTracker a)) \<subseteq> set (tkResolved (amTracker (admissionRun limit es a)))"
  using assms
proof (induction es arbitrary: a)
  case (Cons e es)
  let ?b = "admissionStep limit e a"
  have ne: "e \<noteq> ClearDrain" using Cons.prems(3) by auto
  have S: "tkDraining (amTracker ?b)" "set (amOpen ?b) = set (amOpen a) - (case e of Ends r \<Rightarrow> {r} | _ \<Rightarrow> {})"
    "\<forall>w \<in> set (tkWaiters (amTracker a)). w \<in> set (tkWaiters (amTracker ?b))
         \<or> (w, True) \<in> set (tkResolved (amTracker ?b)) \<or> e = IdleTimeout w"
    "set (tkResolved (amTracker a)) \<subseteq> set (tkResolved (amTracker ?b))"
    using drained_step [OF Cons.prems(1,2) ne] by blast+
  have run: "admissionRun limit (e # es) a = admissionRun limit es ?b" by (simp add: admissionRun_def)
  note IH = Cons.IH [OF admissionStep_inv [OF Cons.prems(1)] S(1)]
  have "set (amOpen (admissionRun limit es ?b)) = set (amOpen a) - {r. Ends r \<in> set (e # es)}"
    using IH Cons.prems(3) S(2) by (cases e) auto
  moreover have "ClearDrain \<notin> set es" using Cons.prems(3) by simp
  ultimately show ?case unfolding run using IH S(3,4) by (simp only: list.set insert_iff) blast
qed (simp add: admissionRun_def)

text \<open>C24: Shutdown drains: once draining has begun and until it is cleared, no request is admitted;
  when every request in flight has ended, in any order and however often, the tracker is idle and
  every pending wait that its timer did not end first has been resolved with true.\<close>

theorem drain_completes:
  assumes "admissionInv limit a" "tkDraining (amTracker a)" "ClearDrain \<notin> set es"
    and "\<forall>r \<in> set (amOpen a). Ends r \<in> set es"
  shows "tkActive (amTracker (admissionRun limit es a)) = 0 \<and> tkWaiters (amTracker (admissionRun limit es a)) = []
    \<and> (\<forall>w \<in> set (tkWaiters (amTracker a)). IdleTimeout w \<notin> set es \<longrightarrow>
         (w, True) \<in> set (tkResolved (amTracker (admissionRun limit es a))))"
proof -
  note R = drained_run [OF assms(1-3)]
  have inv: "admissionInv limit (admissionRun limit es a)" using assms(1) by (rule admissionRun_inv)
  have "set (amOpen (admissionRun limit es a)) = set (amOpen a) - {r. Ends r \<in> set es}" using R by blast
  moreover have "set (amOpen a) \<subseteq> {r. Ends r \<in> set es}" using assms(4) by (intro subsetI CollectI) blast
  ultimately have "set (amOpen (admissionRun limit es a)) = {}" by (simp only: Diff_eq_empty_iff)
  then have op: "amOpen (admissionRun limit es a) = []" by simp
  then have "tkActive (amTracker (admissionRun limit es a)) = 0" "tkWaiters (amTracker (admissionRun limit es a)) = []"
    using inv by (auto simp: admissionInv_def)
  moreover have "\<forall>w \<in> set (tkWaiters (amTracker a)). w \<in> set (tkWaiters (amTracker (admissionRun limit es a)))
         \<or> (w, True) \<in> set (tkResolved (amTracker (admissionRun limit es a))) \<or> IdleTimeout w \<in> set es"
    using R by blast
  ultimately show ?thesis by (intro conjI ballI impI) (auto dest: bspec)
qed

theorem drain_completes_witness:
  "tkResolved (amTracker (admissionRun 1 [Ends 0, Ends 0]
     (admissionRun 1 [Arrive, BeginDrain, WaitIdle (IntNum 5000)] freshAdmission))) = [(1, True)]"
proof -
  let ?a = "admissionRun 1 [Arrive, BeginDrain, WaitIdle (IntNum 5000)] freshAdmission"
  have p: "positiveSafe (IntNum 5000)" by (simp add: positiveSafe_def isSafeInteger_def)
  have a: "tkDraining (amTracker ?a)" "amOpen ?a = [0]" "tkWaiters (amTracker ?a) = [1]"
    using p by (simp_all add: admissionRun_def freshAdmission_def createAdmissionTracker_def tryAcquire_def waitIdle_def)
  have "(1, True) \<in> set (tkResolved (amTracker (admissionRun 1 [Ends 0, Ends 0] ?a)))"
    using drain_completes [OF admissionRun_inv [OF freshAdmission_inv] a(1), of "[Ends 0, Ends 0]"] a by simp
  then show ?thesis using p
    by (simp add: admissionRun_def freshAdmission_def createAdmissionTracker_def tryAcquire_def waitIdle_def
        releaseSlot_def notifyIdle_def)
qed

end
