(* ===== verification/ServiceApp.thy ===== *)
theory ServiceApp
  imports StoreIsolation Guards
begin

section \<open>The service application\<close>

text \<open>
  \<open>createServiceApp\<close> of \<open>src/service.ts\<close> over the memory repository: the middlewares in the order the
  code registers them, the ten protected routes with \<open>protectedRoute\<close>, the ownership probe, and the
  error boundary. What Express, its body parser and the authentication middleware (third-party)
  decide about a request is part of the request: the endpoint its router finds, the result of
  parsing the body, and what the authentication middleware does with the request (\<open>auth_result\<close>).
  Clock readings and the fresh correlation id are part of the request too. Logging and the headers
  of \<open>Access-Control\<close> values other than the origin are left out. A slot of the tracker is held until the
  response ends; the event that releases it is \<open>releaseSlot\<close> (theory \<open>Guards\<close>).
\<close>

subsection \<open>Requests, responses, state\<close>

datatype endpoint =
    Healthz | Ready | ArchiveBatchRoute | PatchStateRoute | DeleteOneRoute | DeleteAllRoute | BrowseRoute
  | ChangesRoute | SnapshotCreateRoute | SnapshotPageRoute | UsageRoute | CapabilitiesRoute | ProbeRoute | NoRoute

text \<open>The body parser hands the body on, or fails: with a syntax error, with the size limit, or with any other
  status (an unsupported charset or encoding, a broken compression, an aborted upload) and perhaps a code.\<close>

datatype body_parse = Parsed jsval | BadJson | BodyTooLarge | BodyError nat "code option"

datatype auth_result = Verified jsval | AuthReplies nat | AuthPasses

record request =
  rqEndpoint :: endpoint
  rqMethod :: jsstr
  rqPath :: jsstr
  rqHeaders :: "(jsstr \<times> jsval) list"
  rqRemote :: jsval
  rqBody :: body_parse
  rqRaw :: "byte list option"
  rqIsJson :: bool
  rqQuery :: jsval
  rqParams :: jsval
  rqAuth :: auth_result
  rqClocks :: "(int \<times> int) \<times> (int \<times> int)"
  rqFreshId :: jsstr
  rqEnv :: env
  rqSeconds :: int

datatype answer =
    Problem code string "int option"
  | Live | IsReady | Plain nat | Empty
  | BatchAnswer batch_result | OpAnswer op_result bool | BrowseAnswer "row list" "(jsstr \<times> jsstr) option"
  | ChangesAnswer "feed_item page" | SnapshotCreated snap_created | SnapshotAnswer "row page"
  | UsageAnswer usage | CapabilitiesAnswer jsstr | ProbeAnswer jsstr nat

record response =
  rsStatus :: nat
  rsAnswer :: answer
  rsCorrelation :: jsstr
  rsAllowOrigin :: "jsstr option"

record app_config =
  acOrigins :: "jsstr list"
  acMaxConcurrent :: nat
  acTrustedProxy :: jsstr
  acIpLimiter :: limiter
  acIdLimiter :: limiter
  acAuth :: bool
  acRepository :: bool
  acSecret :: jsval
  acMigrated :: bool
  acProbe :: "bool option option"
  acMaxHttpBody :: nat
  acStoreLimits :: store_limits
  acDateParse :: "jsstr \<Rightarrow> int option"

record app =
  apTracker :: tracker
  apIp :: buckets
  apReplay :: replay
  apId :: buckets
  apStore :: store

text \<open>What a handler or middleware throws: \<open>statusCode\<close>, \<open>code\<close>, the class of a parser error, the
  retry delay.\<close>

datatype thrown_kind = Ordinary | SyntaxProblem | EntityTooLarge

record thrown =
  thStatus :: "nat option"
  thCode :: "code option"
  thKind :: thrown_kind
  thRetry :: "int option"

definition ofHttp :: "http_error \<Rightarrow> thrown" where
  "ofHttp e = \<lparr>thStatus = Some (he_status e), thCode = Some (he_code e), thKind = Ordinary, thRetry = he_retry e\<rparr>"

subsection \<open>The error boundary\<close>

definition errorBoundary :: "thrown \<Rightarrow> nat \<times> answer" where
  "errorBoundary t =
     (let rest =
        (if thKind t = SyntaxProblem then (400, Problem ERR_INVALID_RECORD ''request body is not valid JSON'' None)
         else if thKind t = EntityTooLarge then
           (413, Problem ERR_REQUEST_TOO_LARGE ''request body exceeds the configured limit'' None)
         else (case thCode t of
             Some c \<Rightarrow> if c \<noteq> Other_Code '''' then (500, Problem ERR_UNAVAILABLE ''service unavailable'' None)
               else (500, Problem ERR_INTERNAL ''internal error'' None)
           | None \<Rightarrow> (500, Problem ERR_INTERNAL ''internal error'' None)))
      in case (thStatus t, thCode t) of
        (Some st, Some c) \<Rightarrow>
          if st = 401 then (401, Problem c ''authentication required'' None)
          else if st = 403 then (403, Problem c ''forbidden'' None)
          else if st = 400 then (400, Problem c ''invalid request'' None)
          else if st = 404 then (404, Problem c ''invalid request'' None)
          else if st = 409 then (409, Problem c ''request conflicts with current state'' None)
          else if st = 410 then (410, Problem c ''cursor expired; take a full snapshot'' None)
          else if st = 413 then (413, Problem c ''request exceeds the configured limit'' None)
          else if st = 429 then (429, Problem c ''rate limited''
            (case thRetry t of Some r \<Rightarrow> if 0 \<le> r then Some r else None | None \<Rightarrow> None))
          else if st = 501 then (501, Problem c ''service not ready: repository not configured'' None)
          else if st = 503 then (503, Problem c ''service unavailable'' None)
          else rest
      | _ \<Rightarrow> rest)"

text \<open>A parser failure with a status outside the table, such as 415 for an unsupported charset, is answered as
  an internal error; a code the failure carries is answered as it is under the statuses of the table.\<close>

lemma parser_failure_answers:
  "errorBoundary \<lparr>thStatus = Some 415, thCode = None, thKind = Ordinary, thRetry = None\<rparr>
     = (500, Problem ERR_INTERNAL ''internal error'' None)"
  "errorBoundary \<lparr>thStatus = Some 400, thCode = Some c, thKind = Ordinary, thRetry = None\<rparr>
     = (400, Problem c ''invalid request'' None)"
  by (simp_all add: errorBoundary_def Let_def)

subsection \<open>The protected routes\<close>

datatype route_error = HttpProblem http_error | RepositoryProblem jserr

type_synonym 'a handler = "app \<Rightarrow> (route_error + 'a) \<times> app"

definition hBind :: "'a handler \<Rightarrow> ('a \<Rightarrow> 'b handler) \<Rightarrow> 'b handler" where
  "hBind m f a = (case m a of (Inl e, a') \<Rightarrow> (Inl e, a') | (Inr x, a') \<Rightarrow> f x a')"

definition hPure :: "'a http \<Rightarrow> 'a handler" where
  "hPure r a = ((case r of Inl e \<Rightarrow> Inl (HttpProblem e) | Inr x \<Rightarrow> Inr x), a)"

definition hStore :: "'a op \<Rightarrow> 'a handler" where
  "hStore f a = (case f (apStore a) of (r, s) \<Rightarrow>
     ((case r of Inl e \<Rightarrow> Inl (RepositoryProblem e) | Inr x \<Rightarrow> Inr x), a\<lparr>apStore := s\<rparr>))"

definition notConfigured :: http_error where
  "notConfigured = authError 501 ERR_UNAVAILABLE ''service not ready: repository not configured''"

definition requireRepository :: "app_config \<Rightarrow> unit http" where
  "requireRepository cfg = require (acRepository cfg) notConfigured"

definition requireServerSecret :: "app_config \<Rightarrow> jsstr http" where
  "requireServerSecret cfg = (case acSecret cfg of
      Str s \<Rightarrow> if length s < 16 then Inl notConfigured else Inr s | _ \<Rightarrow> Inl notConfigured)"

text \<open>The filter object the repository receives, and optional arguments.\<close>

definition filterValue :: "feed_filter \<Rightarrow> jsval" where
  "filterValue f = Obj ((case ffDirection f of None \<Rightarrow> [] | Some d \<Rightarrow> [(js ''direction'', Str d)])
     @ (case ffMessageBox f of None \<Rightarrow> [] | Some b \<Rightarrow> [(js ''messageBox'', Str b)])
     @ (case ffParticipant f of None \<Rightarrow> [] | Some p \<Rightarrow> [(js ''participant'', Str p)]))"

definition optStr :: "jsstr option \<Rightarrow> jsval" where
  "optStr x = (case x of None \<Rightarrow> Undefined | Some s \<Rightarrow> Str s)"

definition limitValue :: "nat option \<Rightarrow> jsnum" where
  "limitValue x = (case x of None \<Rightarrow> Fin 100 | Some n \<Rightarrow> Fin (of_nat n))"

definition cursorValue :: "jsstr option \<Rightarrow> jsval" where
  "cursorValue x = (case x of None \<Rightarrow> Null | Some s \<Rightarrow> Str s)"

definition handleArchiveBatch :: "app_config \<Rightarrow> request \<Rightarrow> jsval \<Rightarrow> jsstr \<Rightarrow> answer handler" where
  "handleArchiveBatch cfg rq bdy owner =
     hBind (hPure (validateMutationQuery (rqQuery rq) [])) (\<lambda>_.
     hBind (hPure (validateArchiveBatchBody bdy)) (\<lambda>(ep, rs).
     hBind (hPure (assertArchiveOwnership (Str owner) (Arr rs))) (\<lambda>_.
     hBind (hPure (requireRepository cfg)) (\<lambda>_.
     hBind (hStore (archiveBatch (rqEnv rq) (acStoreLimits cfg) owner (Str ep) (Arr rs))) (\<lambda>r.
     hPure (Inr (BatchAnswer r)))))))"

definition handlePatchState :: "app_config \<Rightarrow> request \<Rightarrow> jsval \<Rightarrow> jsstr \<Rightarrow> answer handler" where
  "handlePatchState cfg rq bdy owner =
     hBind (hPure (validatePatchStateInput (field (rqParams rq) ''recordKey'') bdy (rqQuery rq))) (\<lambda>i.
     hBind (hPure (requireRepository cfg)) (\<lambda>_.
     hBind (hStore (patchState (rqEnv rq) owner (piRecordKey i) (piNewState i) (Str (piExpectedRevision i))
                      (Str (piIdempotencyKey i)))) (\<lambda>(r, replayed).
     hPure (Inr (OpAnswer r replayed)))))"

definition handleDeleteOne :: "app_config \<Rightarrow> request \<Rightarrow> jsval \<Rightarrow> jsstr \<Rightarrow> answer handler" where
  "handleDeleteOne cfg rq bdy owner =
     hBind (hPure (validateDeleteOneInput (field (rqParams rq) ''recordKey'') (rqQuery rq) bdy)) (\<lambda>(key, ik).
     hBind (hPure (requireRepository cfg)) (\<lambda>_.
     hBind (hStore (deleteRecord (rqEnv rq) owner key (optStr ik))) (\<lambda>(r, replayed).
     hPure (Inr (OpAnswer r replayed)))))"

definition handleDeleteAll :: "app_config \<Rightarrow> request \<Rightarrow> jsval \<Rightarrow> jsstr \<Rightarrow> answer handler" where
  "handleDeleteAll cfg rq bdy owner =
     hBind (hPure (validateDeleteAllInput (rqQuery rq) bdy)) (\<lambda>(ik, xp).
     hBind (hPure (requireRepository cfg)) (\<lambda>_.
     hBind (hStore (deleteAll (rqEnv rq) owner (optStr ik) xp)) (\<lambda>(r, replayed).
     hPure (Inr (OpAnswer r replayed)))))"

definition handleBrowse :: "app_config \<Rightarrow> request \<Rightarrow> jsval \<Rightarrow> jsstr \<Rightarrow> answer handler" where
  "handleBrowse cfg rq bdy owner =
     hBind (hPure (validateBrowseQuery (rqQuery rq))) (\<lambda>q.
     hBind (hPure (requireRepository cfg)) (\<lambda>_.
     hBind (hStore (\<lambda>s. (listBrowse (Str owner) (filterValue (bqFilter q)) (limitValue (bqLimit q))
                          (map_option (\<lambda>(t, k). Keyset t k) (bqAfter q)) s, s))) (\<lambda>(items, nextAfter).
     hPure (Inr (BrowseAnswer items nextAfter)))))"

definition handleChanges :: "app_config \<Rightarrow> request \<Rightarrow> jsval \<Rightarrow> jsstr \<Rightarrow> answer handler" where
  "handleChanges cfg rq bdy owner =
     hBind (hPure (validateChangesQuery (rqQuery rq))) (\<lambda>q.
     hBind (hPure (requireRepository cfg)) (\<lambda>_.
     hBind (hPure (requireServerSecret cfg)) (\<lambda>secret.
     hBind (hStore (listChangesPage (Str owner) \<lparr>faSecret = Str secret, faCursor = cursorValue (cqCursor q),
         faAfter = optStr (cqAfterSequence q), faEpoch = optStr (cqExpectedEpoch q), faLimit = limitValue (cqLimit q),
         faFilter = filterValue (cqFilter q), faNow = rqSeconds rq, faServerTime = eNow (rqEnv rq), faTtl = None\<rparr>)) (\<lambda>pg.
     hPure (Inr (ChangesAnswer pg))))))"

definition handleSnapshotCreate :: "app_config \<Rightarrow> request \<Rightarrow> jsval \<Rightarrow> jsstr \<Rightarrow> answer handler" where
  "handleSnapshotCreate cfg rq bdy owner =
     hBind (hPure (require (\<not> (isRecord (rqQuery rq) \<and> keysOf (rqQuery rq) \<noteq> []))
              (invalidError ''query carries unknown fields''))) (\<lambda>_.
     hBind (hPure (validateSnapshotCreateBody bdy)) (\<lambda>f.
     hBind (hPure (requireRepository cfg)) (\<lambda>_.
     hBind (hStore (createSnapshot (rqEnv rq) owner (filterValue f))) (\<lambda>r.
     hPure (Inr (SnapshotCreated r))))))"

definition handleSnapshotPage :: "app_config \<Rightarrow> request \<Rightarrow> jsval \<Rightarrow> jsstr \<Rightarrow> answer handler" where
  "handleSnapshotPage cfg rq bdy owner =
     hBind (hPure (validateSnapshotPageQuery (rqQuery rq))) (\<lambda>(sid, cursor, limit).
     hBind (hPure (requireRepository cfg)) (\<lambda>_.
     hBind (hPure (requireServerSecret cfg)) (\<lambda>secret.
     hBind (hStore (\<lambda>s. (listSnapshotPage (acDateParse cfg) (Str owner) sid
         \<lparr>faSecret = Str secret, faCursor = cursorValue cursor, faAfter = Undefined, faEpoch = Undefined,
          faLimit = limitValue limit, faFilter = Undefined, faNow = rqSeconds rq, faServerTime = eNow (rqEnv rq),
          faTtl = None\<rparr> s, s))) (\<lambda>pg.
     hPure (case pg of
         None \<Rightarrow> Inl (authError 404 ERR_INVALID_CURSOR ''invalid request'')
       | Some p \<Rightarrow> Inr (SnapshotAnswer p))))))"

definition handleUsage :: "app_config \<Rightarrow> request \<Rightarrow> jsval \<Rightarrow> jsstr \<Rightarrow> answer handler" where
  "handleUsage cfg rq bdy owner =
     hBind (hPure (validateUsageQuery (rqQuery rq))) (\<lambda>_.
     hBind (hPure (requireRepository cfg)) (\<lambda>_.
     hBind (hStore (getUsage owner)) (\<lambda>u. hPure (Inr (UsageAnswer u)))))"

definition handleCapabilities :: "app_config \<Rightarrow> request \<Rightarrow> jsval \<Rightarrow> jsstr \<Rightarrow> answer handler" where
  "handleCapabilities cfg rq bdy owner =
     hBind (hPure (validateUsageQuery (rqQuery rq))) (\<lambda>_.
     hBind (hPure (requireRepository cfg)) (\<lambda>_.
     hBind (hStore (getUsage owner)) (\<lambda>u.
     if epochRe (uEpoch u) then hPure (Inr (CapabilitiesAnswer (uEpoch u)))
     else (\<lambda>a. (Inl (RepositoryProblem (JsErr TypeError (Some ERR_INTERNAL) ''repository reported a non-canonical epoch'')), a)))))"

definition protectedRoute :: "(request \<Rightarrow> jsval \<Rightarrow> jsstr \<Rightarrow> answer handler) \<Rightarrow> request \<Rightarrow> jsval \<Rightarrow> jsval
    \<Rightarrow> app \<Rightarrow> (thrown + answer) \<times> app" where
  "protectedRoute handle rq bdy identity a =
     (case hBind (hPure (resolveRequestOwner identity)) (\<lambda>owner.
           hBind (hPure (assertNoOwnerOverride (Str owner) bdy (rqQuery rq) (rqParams rq))) (\<lambda>_.
           handle rq bdy owner)) a of
        (Inr x, a') \<Rightarrow> (Inr x, a')
      | (Inl (HttpProblem e), a') \<Rightarrow> (Inl (ofHttp e), a')
      | (Inl (RepositoryProblem e), a') \<Rightarrow>
          (let m = mapRepositoryError (err_code e) in
           (Inl (ofHttp (authError (evStatus m) (evCode m) (evDescription m))), a')))"

definition handleProbe :: "request \<Rightarrow> jsval \<Rightarrow> jsval \<Rightarrow> answer http" where
  "handleProbe rq bdy identity =
     andThen (resolveRequestOwner identity) (\<lambda>owner.
     andThen (assertNoOwnerOverride (Str owner) bdy (rqQuery rq) (rqParams rq)) (\<lambda>_.
     andThen (assertArchiveOwnership (Str owner) (field bdy ''records'')) (\<lambda>n.
     Inr (ProbeAnswer owner n))))"

definition routeRequest :: "app_config \<Rightarrow> request \<Rightarrow> jsval \<Rightarrow> jsval \<Rightarrow> app \<Rightarrow> (thrown + (nat \<times> answer)) \<times> app" where
  "routeRequest cfg rq bdy identity a =
     (let protected = (\<lambda>h. case protectedRoute (h cfg) rq bdy identity a of
            (Inl t, a') \<Rightarrow> (Inl t, a') | (Inr x, a') \<Rightarrow> (Inr (200, x), a'))
      in case rqEndpoint rq of
        ArchiveBatchRoute \<Rightarrow> protected handleArchiveBatch
      | PatchStateRoute \<Rightarrow> protected handlePatchState
      | DeleteOneRoute \<Rightarrow> protected handleDeleteOne
      | DeleteAllRoute \<Rightarrow> protected handleDeleteAll
      | BrowseRoute \<Rightarrow> protected handleBrowse
      | ChangesRoute \<Rightarrow> protected handleChanges
      | SnapshotCreateRoute \<Rightarrow> protected handleSnapshotCreate
      | SnapshotPageRoute \<Rightarrow> protected handleSnapshotPage
      | UsageRoute \<Rightarrow> protected handleUsage
      | CapabilitiesRoute \<Rightarrow> protected handleCapabilities
      | ProbeRoute \<Rightarrow> (case handleProbe rq bdy identity of
            Inl e \<Rightarrow> (Inl (ofHttp e), a) | Inr x \<Rightarrow> (Inr (200, x), a))
      | _ \<Rightarrow> (Inr (404, Problem ERR_UNAVAILABLE ''unknown route'' None), a))"

subsection \<open>Middlewares\<close>

text \<open>A middleware continues (\<open>None\<close>), or ends the request with an error or a response.\<close>

type_synonym middleware = "app \<Rightarrow> (thrown + (nat \<times> answer)) option \<times> app"

fun runChain :: "middleware list \<Rightarrow> middleware" where
  "runChain [] a = (None, a)"
| "runChain (f # fs) a = (case f a of (None, a') \<Rightarrow> runChain fs a' | (Some r, a') \<Rightarrow> (Some r, a'))"

definition header :: "request \<Rightarrow> string \<Rightarrow> jsval" where
  "header rq name = getProp (rqHeaders rq) (js name)"

definition failWith :: "http_error \<Rightarrow> middleware" where
  "failWith e a = (Some (Inl (ofHttp e)), a)"

definition nonEmptyStr :: "jsval \<Rightarrow> bool" where
  "nonEmptyStr v = (case v of Str s \<Rightarrow> s \<noteq> [] | _ \<Rightarrow> False)"

definition correlationIdRe :: "jsstr \<Rightarrow> bool" where
  "correlationIdRe s \<longleftrightarrow> 8 \<le> length s \<and> length s \<le> 32 \<and> list_all (\<lambda>u. isAlnum u \<or> u = 0x5F \<or> u = 0x2D) s"

definition resolveCorrelationId :: "jsval \<Rightarrow> jsstr \<Rightarrow> jsstr" where
  "resolveCorrelationId raw fresh = (case raw of Str s \<Rightarrow> if correlationIdRe s then s else fresh | _ \<Rightarrow> fresh)"

definition correlationOf :: "request \<Rightarrow> jsstr" where
  "correlationOf rq = resolveCorrelationId
     (case header rq ''x-mbs-correlation-id'' of Arr (v # _) \<Rightarrow> v | Arr [] \<Rightarrow> Undefined | v \<Rightarrow> v) (rqFreshId rq)"

definition originOf :: "request \<Rightarrow> jsstr" where
  "originOf rq = (case header rq ''origin'' of Str x \<Rightarrow> x | _ \<Rightarrow> [])"

definition allowedOrigin :: "app_config \<Rightarrow> request \<Rightarrow> jsstr option" where
  "allowedOrigin cfg rq = (if header rq ''origin'' \<noteq> Undefined \<and> originOf rq \<in> set (acOrigins cfg)
     then Some (originOf rq) else None)"

definition originGate :: "app_config \<Rightarrow> request \<Rightarrow> middleware" where
  "originGate cfg rq a =
     (if header rq ''origin'' = Undefined then (None, a)
      else if originOf rq \<notin> set (acOrigins cfg) then failWith (authError 403 ERR_FORBIDDEN ''forbidden'') a
      else if rqMethod rq = js ''OPTIONS'' \<and> nonEmptyStr (header rq ''access-control-request-method'')
      then (Some (Inr (204, Empty)), a)
      else (None, a))"

definition numGreater :: "jsnum \<Rightarrow> nat \<Rightarrow> bool" where
  "numGreater n k = (case n of Fin q \<Rightarrow> of_nat k < q | PosInf \<Rightarrow> True | _ \<Rightarrow> False)"

definition contentLengthGate :: "app_config \<Rightarrow> request \<Rightarrow> middleware" where
  "contentLengthGate cfg rq a = (case header rq ''content-length'' of
      Str s \<Rightarrow> if s \<noteq> [] \<and> list_all isDigit s \<and> numGreater (strToNum s) (acMaxHttpBody cfg)
        then failWith (tooLargeError ''request exceeds the configured limit'') a else (None, a)
    | _ \<Rightarrow> (None, a))"

definition livenessRoute :: "request \<Rightarrow> middleware" where
  "livenessRoute rq a = (if rqEndpoint rq = Healthz then (Some (Inr (200, Live)), a) else (None, a))"

definition admissionGate :: "app_config \<Rightarrow> middleware" where
  "admissionGate cfg a = (case tryAcquire (acMaxConcurrent cfg) (apTracker a) of
      (ok, t) \<Rightarrow> if ok then (None, a\<lparr>apTracker := t\<rparr>)
        else failWith (authError 503 ERR_UNAVAILABLE ''service unavailable'') a)"

definition ipRateGate :: "app_config \<Rightarrow> request \<Rightarrow> middleware" where
  "ipRateGate cfg rq a =
     (let (t1, t2) = fst (rqClocks rq);
          key = resolveRateLimitIpKey (rqRemote rq) (header rq ''x-forwarded-for'') (acTrustedProxy cfg)
      in case consume (acIpLimiter cfg) key t1 t2 (apIp a) of
        (Allowed, m) \<Rightarrow> (None, a\<lparr>apIp := m\<rparr>)
      | (Denied s, m) \<Rightarrow> failWith (rateLimitError s) (a\<lparr>apIp := m\<rparr>))"

definition bodyGate :: "request \<Rightarrow> middleware" where
  "bodyGate rq a = (case rqBody rq of
      Parsed _ \<Rightarrow> (None, a)
    | BadJson \<Rightarrow> (Some (Inl \<lparr>thStatus = Some 400, thCode = None, thKind = SyntaxProblem, thRetry = None\<rparr>), a)
    | BodyTooLarge \<Rightarrow> (Some (Inl \<lparr>thStatus = Some 413, thCode = None, thKind = EntityTooLarge, thRetry = None\<rparr>), a)
    | BodyError st c \<Rightarrow> (Some (Inl \<lparr>thStatus = Some st, thCode = c, thKind = Ordinary, thRetry = None\<rparr>), a))"

definition parsedBody :: "request \<Rightarrow> jsval" where
  "parsedBody rq = (case rqBody rq of Parsed v \<Rightarrow> v | _ \<Rightarrow> Undefined)"

definition ARCHIVE_BATCH_PATH :: jsstr where "ARCHIVE_BATCH_PATH = js ''/v1/history/records''"

definition earlyBoundsGate :: "request \<Rightarrow> middleware" where
  "earlyBoundsGate rq a =
     (if rqMethod rq = js ''POST'' \<and> (rqPath rq = ARCHIVE_BATCH_PATH \<or> rqPath rq = ARCHIVE_BATCH_PATH @ js ''/'')
      then (case assertEarlyBatchBounds (parsedBody rq) of Inl e \<Rightarrow> failWith e a | Inr _ \<Rightarrow> (None, a))
      else (None, a))"

definition readyRoute :: "app_config \<Rightarrow> request \<Rightarrow> middleware" where
  "readyRoute cfg rq a =
     (if rqEndpoint rq \<noteq> Ready then (None, a)
      else if \<not> acMigrated cfg then
        (Some (Inr (503, Problem ERR_UNAVAILABLE ''service not ready: migrations not verified'' None)), a)
      else if acProbe cfg \<noteq> Some (Some True) then
        (Some (Inr (503, Problem ERR_UNAVAILABLE ''service not ready: database unavailable'' None)), a)
      else (Some (Inr (200, IsReady)), a))"

text \<open>A JSON value that is no object or array of the parser is replaced by its raw bytes, a Buffer.\<close>

definition bufferValue :: "byte list \<Rightarrow> jsval" where
  "bufferValue bs = Obj (map (\<lambda>i. (decOfNat i, IntNum (int (unat (bs ! i))))) [0..<length bs])"

definition routeBody :: "app_config \<Rightarrow> request \<Rightarrow> jsval" where
  "routeBody cfg rq = (case rqRaw rq of
      Some bs \<Rightarrow> if acAuth cfg \<and> rqIsJson rq \<and> \<not> isRecord (parsedBody rq) then bufferValue bs else parsedBody rq
    | None \<Rightarrow> parsedBody rq)"

definition unsignedGate :: "request \<Rightarrow> middleware" where
  "unsignedGate rq a =
     (if rqPath rq = AUTH_HANDSHAKE_PATH then (None, a)
      else if \<not> nonEmptyStr (header rq ''x-bsv-auth-signature'') \<or> \<not> nonEmptyStr (header rq ''x-bsv-auth-request-id'')
      then failWith authRequired a
      else (None, a))"

definition authGate :: "request \<Rightarrow> middleware" where
  "authGate rq a = (case rqAuth rq of AuthReplies st \<Rightarrow> (Some (Inr (st, Plain st)), a) | _ \<Rightarrow> (None, a))"

definition authIdentity :: "app_config \<Rightarrow> request \<Rightarrow> jsval" where
  "authIdentity cfg rq = (if acAuth cfg then (case rqAuth rq of Verified k \<Rightarrow> k | _ \<Rightarrow> Undefined) else Undefined)"

definition replayGate :: "request \<Rightarrow> middleware" where
  "replayGate rq a = (case replayMiddleware (rqPath rq) (header rq ''x-bsv-auth-request-id'') (apReplay a) of
      (Next, g) \<Rightarrow> (None, a\<lparr>apReplay := g\<rparr>)
    | (NextError e, g) \<Rightarrow> failWith e (a\<lparr>apReplay := g\<rparr>))"

definition identityRateGate :: "app_config \<Rightarrow> request \<Rightarrow> middleware" where
  "identityRateGate cfg rq a =
     (if rqPath rq = AUTH_HANDSHAKE_PATH then (None, a)
      else case authIdentity cfg rq of
        Str k \<Rightarrow>
          if \<not> isIdentityKey (Str k) then (None, a)
          else let (t1, t2) = snd (rqClocks rq) in
            (case consume (acIdLimiter cfg) k t1 t2 (apId a) of
               (Allowed, m) \<Rightarrow> (None, a\<lparr>apId := m\<rparr>)
             | (Denied s, m) \<Rightarrow> failWith (rateLimitError s) (a\<lparr>apId := m\<rparr>))
      | _ \<Rightarrow> (None, a))"

definition routes :: "app_config \<Rightarrow> request \<Rightarrow> middleware" where
  "routes cfg rq a = (case routeRequest cfg rq (routeBody cfg rq) (authIdentity cfg rq) a of (r, a') \<Rightarrow> (Some r, a'))"

definition ingress :: "app_config \<Rightarrow> request \<Rightarrow> middleware list" where
  "ingress cfg rq = [originGate cfg rq, contentLengthGate cfg rq, livenessRoute rq, admissionGate cfg,
     ipRateGate cfg rq, bodyGate rq, earlyBoundsGate rq, readyRoute cfg rq]"

definition signed :: "app_config \<Rightarrow> request \<Rightarrow> middleware list" where
  "signed cfg rq = (if acAuth cfg then [unsignedGate rq, authGate rq, replayGate rq, identityRateGate cfg rq] else [])"

definition serveRequest :: "app_config \<Rightarrow> request \<Rightarrow> app \<Rightarrow> response \<times> app" where
  "serveRequest cfg rq a =
     (case runChain (ingress cfg rq @ signed cfg rq @ [routes cfg rq]) a of
        (r, a') \<Rightarrow>
          (let (st, ans) = (case r of Some (Inr x) \<Rightarrow> x | Some (Inl t) \<Rightarrow> errorBoundary t
               | None \<Rightarrow> (404, Problem ERR_UNAVAILABLE ''unknown route'' None))
           in (\<lparr>rsStatus = st, rsAnswer = ans, rsCorrelation = correlationOf rq, rsAllowOrigin = allowedOrigin cfg rq\<rparr>, a')))"

subsection \<open>What a route may do to the store\<close>

text \<open>One call of the adapter, on the owner's part of the history only.\<close>

definition ownedEffect :: "store_limits \<Rightarrow> jsstr \<Rightarrow> jsstr \<Rightarrow> store \<Rightarrow> store \<Rightarrow> bool" where
  "ownedEffect L sid owner s s' \<longleftrightarrow> s' = s \<or>
     storeStep L s s' \<and> (storeInv L s \<longrightarrow> ownerStep owner (absStore s) (absStore s'))
       \<and> (\<forall>o'. apart owner o' \<longrightarrow> ownerPart sid o' s' = ownerPart sid o' s)"

definition touches :: "store_limits \<Rightarrow> jsstr \<Rightarrow> jsstr \<Rightarrow> 'a handler \<Rightarrow> bool" where
  "touches L sid owner m \<longleftrightarrow> (\<forall>a. \<exists>s'. snd (m a) = a\<lparr>apStore := s'\<rparr> \<and> ownedEffect L sid owner (apStore a) s')"

definition keepsApp :: "'a handler \<Rightarrow> bool" where
  "keepsApp m \<longleftrightarrow> (\<forall>a. snd (m a) = a)"

named_theorems touch_rules \<open>composition rules for route handlers\<close>

lemma ownedEffect_refl: "ownedEffect L sid owner s s"
  by (simp add: ownedEffect_def)

lemma keepsApp_pure [touch_rules]: "keepsApp (hPure r)"
  by (simp add: keepsApp_def hPure_def)

lemma touches_keeps: "keepsApp m \<Longrightarrow> touches L sid owner m"
proof -
  have "\<exists>s'. a = a\<lparr>apStore := s'\<rparr> \<and> ownedEffect L sid owner (apStore a) s'" for a :: app
    by (rule exI [of _ "apStore a"]) (simp add: ownedEffect_refl)
  then show "keepsApp m \<Longrightarrow> touches L sid owner m" by (simp add: touches_def keepsApp_def)
qed

lemma touches_pure [touch_rules]: "touches L sid owner (hPure r)"
  by (rule touches_keeps) (rule keepsApp_pure)

lemma touches_pure_bind [touch_rules]:
  "(\<And>x. touches L sid owner (f x)) \<Longrightarrow> touches L sid owner (hBind (hPure r) f)"
  using touches_pure [of L sid owner r] by (cases r) (auto simp: touches_def hBind_def hPure_def)

lemma touches_store_bind [touch_rules]:
  "(\<And>s. ownedEffect L sid owner s (snd (g s))) \<Longrightarrow> (\<And>x. keepsApp (f x)) \<Longrightarrow> touches L sid owner (hBind (hStore g) f)"
proof -
  assume g: "\<And>s. ownedEffect L sid owner s (snd (g s))" and f: "\<And>x. keepsApp (f x)"
  have "snd (hBind (hStore g) f a) = a\<lparr>apStore := snd (g (apStore a))\<rparr>" for a
    using f by (auto simp: hBind_def hStore_def keepsApp_def split: prod.split sum.split)
  then show ?thesis using g unfolding touches_def by blast
qed

lemma ownedEffectI:
  "storeStep L s (snd (m s)) \<Longrightarrow> (storeInv L s \<Longrightarrow> ownerStep owner (absStore s) (absStore (snd (m s))))
   \<Longrightarrow> sparesOthers sid owner m \<Longrightarrow> ownedEffect L sid owner s (snd (m s))"
  by (simp add: ownedEffect_def sparesOthers_def)

lemma ownedEffect_read:
  "storeStep L s (snd (m s)) \<Longrightarrow> absStore (snd (m s)) = absStore s \<Longrightarrow> sparesOthers sid owner m
   \<Longrightarrow> ownedEffect L sid owner s (snd (m s))"
  by (rule ownedEffectI) (simp_all add: ownerStep.hist_none)

lemma ownedEffects [touch_rules]:
  "ownedEffect L sid owner s (snd (archiveBatch e L owner ep input s))"
  "noNul owner \<Longrightarrow> ownedEffect L sid owner s (snd (patchState e owner key st erev ik s))"
  "noNul owner \<Longrightarrow> ownedEffect L sid owner s (snd (deleteRecord e owner key ik s))"
  "ownedEffect L sid owner s (snd (deleteAll e owner ik xp s))"
  "ownedEffect L sid owner s (snd (listChangesPage (Str owner) fa s))"
  "ownedEffect L (eSnapshotId e) owner s (snd (createSnapshot e owner flt s))"
  "ownedEffect L sid owner s (snd (getUsage owner s))"
proof -
  show "ownedEffect L sid owner s (snd (archiveBatch e L owner ep input s))"
    by (rule ownedEffectI [OF storeStep.step_archive _ spares_archiveBatch]) (metis refine_archive prod.collapse)
  show "noNul owner \<Longrightarrow> ownedEffect L sid owner s (snd (patchState e owner key st erev ik s))"
    by (rule ownedEffectI [OF storeStep.step_patch _ spares_patchState]) (auto intro: core_patch)
  show "noNul owner \<Longrightarrow> ownedEffect L sid owner s (snd (deleteRecord e owner key ik s))"
    by (rule ownedEffectI [OF storeStep.step_delete _ spares_deleteRecord]) (auto intro: core_delete)
  show "ownedEffect L sid owner s (snd (deleteAll e owner ik xp s))"
    by (rule ownedEffectI [OF storeStep.step_deleteAll _ spares_deleteAll]) (auto intro: core_deleteAll)
  show "ownedEffect L sid owner s (snd (listChangesPage (Str owner) fa s))"
    by (rule ownedEffect_read) (auto intro: storeStep.intros spares_reads simp: abs_reads)
  show "ownedEffect L (eSnapshotId e) owner s (snd (createSnapshot e owner flt s))"
    by (rule ownedEffect_read) (auto intro: storeStep.intros spares_createSnapshot simp: abs_reads)
  show "ownedEffect L sid owner s (snd (getUsage owner s))"
    by (rule ownedEffect_read) (auto intro: storeStep.intros spares_reads simp: abs_reads)
qed

lemma handlers_touch:
  assumes "noNul owner" "acStoreLimits cfg = L" "eSnapshotId (rqEnv rq) = sid"
  shows "touches L sid owner (handleArchiveBatch cfg rq bdy owner)" "touches L sid owner (handlePatchState cfg rq bdy owner)"
    "touches L sid owner (handleDeleteOne cfg rq bdy owner)" "touches L sid owner (handleDeleteAll cfg rq bdy owner)"
    "touches L sid owner (handleBrowse cfg rq bdy owner)" "touches L sid owner (handleChanges cfg rq bdy owner)"
    "touches L sid owner (handleSnapshotCreate cfg rq bdy owner)" "touches L sid owner (handleSnapshotPage cfg rq bdy owner)"
    "touches L sid owner (handleUsage cfg rq bdy owner)" "touches L sid owner (handleCapabilities cfg rq bdy owner)"
proof -
  note rules = touch_rules ownedEffect_refl
  show "touches L sid owner (handleArchiveBatch cfg rq bdy owner)"
    unfolding handleArchiveBatch_def assms(2) by (intro rules) (simp split: prod.split, intro allI impI rules)
  show "touches L sid owner (handlePatchState cfg rq bdy owner)"
    unfolding handlePatchState_def by (intro rules assms(1)) (simp split: prod.split add: rules)
  show "touches L sid owner (handleDeleteOne cfg rq bdy owner)"
    unfolding handleDeleteOne_def
    by (intro rules) (simp split: prod.split, intro allI impI rules assms(1), simp split: prod.split add: rules)
  show "touches L sid owner (handleDeleteAll cfg rq bdy owner)"
    unfolding handleDeleteAll_def
    by (intro rules) (simp split: prod.split, intro allI impI rules, simp split: prod.split add: rules)
  show "touches L sid owner (handleBrowse cfg rq bdy owner)"
    unfolding handleBrowse_def by (intro rules) (simp_all split: prod.split add: rules)
  show "touches L sid owner (handleChanges cfg rq bdy owner)"
    unfolding handleChanges_def by (intro rules)
  show "touches L sid owner (handleSnapshotCreate cfg rq bdy owner)"
    unfolding handleSnapshotCreate_def assms(3) [symmetric] by (intro rules)
  show "touches L sid owner (handleSnapshotPage cfg rq bdy owner)"
    unfolding handleSnapshotPage_def
    by (intro rules) (simp split: prod.split, intro allI impI rules, simp add: rules)
  show "touches L sid owner (handleUsage cfg rq bdy owner)"
    unfolding handleUsage_def by (intro rules)
  show "touches L sid owner (handleCapabilities cfg rq bdy owner)"
    unfolding handleCapabilities_def by (intro rules) (simp add: rules, simp add: keepsApp_def)
qed

text \<open>The protected routes change the store only for the verified owner.\<close>

lemma hBind_pure: "hBind (hPure r) f a = (case r of Inl e \<Rightarrow> (Inl (HttpProblem e), a) | Inr x \<Rightarrow> f x a)"
  by (simp add: hBind_def hPure_def split: sum.split)

lemma resolveRequestOwner_Inr: "resolveRequestOwner v = Inr owner \<longleftrightarrow> v = Str owner \<and> isIdentityKey v"
  by (auto simp: resolveRequestOwner_def split: jsval.splits)

lemma isIdentityKey_noNul: "isIdentityKey (Str owner) \<Longrightarrow> noNul owner"
  by (simp add: isIdentityKey_def identityKeyRe_noNul)

lemma protectedRoute_effect:
  assumes "protectedRoute h rq bdy identity a = (r, a')"
    and "\<And>owner. noNul owner \<Longrightarrow> touches L sid owner (h rq bdy owner)"
  shows "a' = a \<or> (\<exists>owner s'. identity = Str owner \<and> isIdentityKey identity \<and> a' = a\<lparr>apStore := s'\<rparr>
     \<and> assertNoOwnerOverride (Str owner) bdy (rqQuery rq) (rqParams rq) = Inr () \<and> ownedEffect L sid owner (apStore a) s')"
proof (cases "resolveRequestOwner identity")
  case (Inl e)
  then show ?thesis using assms(1) by (simp add: protectedRoute_def hBind_pure)
next
  case (Inr owner)
  then have ow: "identity = Str owner" "isIdentityKey identity" unfolding resolveRequestOwner_Inr by blast+
  show ?thesis
  proof (cases "assertNoOwnerOverride (Str owner) bdy (rqQuery rq) (rqParams rq)")
    case e: (Inl e)
    then show ?thesis using assms(1) Inr by (simp add: protectedRoute_def hBind_pure)
  next
    case (Inr u)
    have "a' = snd (h rq bdy owner a)"
      using assms(1) Inr \<open>resolveRequestOwner identity = Inr owner\<close>
      by (auto simp: protectedRoute_def hBind_pure Let_def split: prod.splits sum.splits route_error.splits)
    moreover have "touches L sid owner (h rq bdy owner)"
      using assms(2) ow isIdentityKey_noNul by metis
    ultimately show ?thesis using ow Inr unfolding touches_def by auto
  qed
qed

lemma routes_effect:
  assumes "routes cfg rq a = (r, a')"
  shows "a' = a \<or> (\<exists>owner s'. authIdentity cfg rq = Str owner \<and> isIdentityKey (Str owner) \<and> a' = a\<lparr>apStore := s'\<rparr>
     \<and> assertNoOwnerOverride (Str owner) (routeBody cfg rq) (rqQuery rq) (rqParams rq) = Inr ()
     \<and> ownedEffect (acStoreLimits cfg) (eSnapshotId (rqEnv rq)) owner (apStore a) s')"
proof -
  note P = protectedRoute_effect [where L = "acStoreLimits cfg" and sid = "eSnapshotId (rqEnv rq)"
    and identity = "authIdentity cfg rq" and rq = rq and bdy = "routeBody cfg rq"]
  note T = handlers_touch [where cfg = cfg and rq = rq and bdy = "routeBody cfg rq", OF _ refl refl]
  show ?thesis using assms unfolding routes_def routeRequest_def Let_def
    by (cases "rqEndpoint rq") (auto split: prod.splits sum.splits dest!:
        P [where h = "handleArchiveBatch cfg", OF _ T(1)] P [where h = "handlePatchState cfg", OF _ T(2)]
        P [where h = "handleDeleteOne cfg", OF _ T(3)] P [where h = "handleDeleteAll cfg", OF _ T(4)]
        P [where h = "handleBrowse cfg", OF _ T(5)] P [where h = "handleChanges cfg", OF _ T(6)]
        P [where h = "handleSnapshotCreate cfg", OF _ T(7)] P [where h = "handleSnapshotPage cfg", OF _ T(8)]
        P [where h = "handleUsage cfg", OF _ T(9)] P [where h = "handleCapabilities cfg", OF _ T(10)])
qed

subsection \<open>What a whole request may do\<close>

lemma runChain_append: "runChain (fs @ gs) a = (case runChain fs a of (None, a') \<Rightarrow> runChain gs a' | (Some r, a') \<Rightarrow> (Some r, a'))"
  by (induction fs arbitrary: a) (auto split: prod.splits option.splits)

text \<open>What the ingress middlewares, the signed ones and the route have let through when a request reaches the
  repository for \<open>owner\<close>.\<close>

definition ingressPassed :: "app_config \<Rightarrow> request \<Rightarrow> app \<Rightarrow> bool" where
  "ingressPassed cfg rq a \<longleftrightarrow>
     (header rq ''origin'' = Undefined \<or> originOf rq \<in> set (acOrigins cfg))
     \<and> (\<forall>s. header rq ''content-length'' = Str s \<and> s \<noteq> [] \<and> list_all isDigit s \<longrightarrow> \<not> numGreater (strToNum s) (acMaxHttpBody cfg))
     \<and> \<not> tkDraining (apTracker a) \<and> tkActive (apTracker a) < acMaxConcurrent cfg
     \<and> fst (consume (acIpLimiter cfg) (resolveRateLimitIpKey (rqRemote rq) (header rq ''x-forwarded-for'') (acTrustedProxy cfg))
            (fst (fst (rqClocks rq))) (snd (fst (rqClocks rq))) (apIp a)) = Allowed
     \<and> (\<exists>v. rqBody rq = Parsed v
          \<and> (rqMethod rq = js ''POST'' \<and> rqPath rq \<in> {ARCHIVE_BATCH_PATH, ARCHIVE_BATCH_PATH @ js ''/''}
               \<longrightarrow> assertEarlyBatchBounds v = Inr ()))"

definition signedPassed :: "app_config \<Rightarrow> request \<Rightarrow> jsstr \<Rightarrow> app \<Rightarrow> bool" where
  "signedPassed cfg rq owner a \<longleftrightarrow>
     nonEmptyStr (header rq ''x-bsv-auth-signature'')
     \<and> (\<exists>h. h \<noteq> [] \<and> header rq ''x-bsv-auth-request-id'' = Str h \<and> h \<notin> set (rgSeen (apReplay a)))
     \<and> fst (consume (acIdLimiter cfg) owner (fst (snd (rqClocks rq))) (snd (snd (rqClocks rq))) (apId a)) = Allowed"

definition passed :: "app_config \<Rightarrow> request \<Rightarrow> jsstr \<Rightarrow> app \<Rightarrow> bool" where
  "passed cfg rq owner a \<longleftrightarrow> ingressPassed cfg rq a
     \<and> (rqPath rq \<noteq> AUTH_HANDSHAKE_PATH \<longrightarrow> signedPassed cfg rq owner a)
     \<and> assertNoOwnerOverride (Str owner) (routeBody cfg rq) (rqQuery rq) (rqParams rq) = Inr ()"

lemma quiet_gates:
  "snd (originGate cfg rq a) = a" "snd (contentLengthGate cfg rq a) = a" "snd (livenessRoute rq a) = a"
  "snd (bodyGate rq a) = a" "snd (earlyBoundsGate rq a) = a" "snd (readyRoute cfg rq a) = a"
  "snd (unsignedGate rq a) = a" "snd (authGate rq a) = a"
  by (simp_all add: originGate_def contentLengthGate_def livenessRoute_def bodyGate_def earlyBoundsGate_def
      readyRoute_def unsignedGate_def authGate_def failWith_def
      split: jsval.split body_parse.split sum.split auth_result.split)

lemma runChain_quiet:
  "snd (f a) = a \<Longrightarrow> runChain (f # fs) a = (case fst (f a) of None \<Rightarrow> runChain fs a | Some r \<Rightarrow> (Some r, a))"
  by (cases "f a") (auto split: option.split)

lemma runChain_go:
  "f a = (q, b) \<Longrightarrow> runChain (f # fs) a = (case q of None \<Rightarrow> runChain fs b | Some r \<Rightarrow> (Some r, b))"
  by (cases q) simp_all

declare runChain.simps(2) [simp del]

lemma admissionGate_cases:
  assumes "admissionGate cfg a = (r, a')"
  shows "apStore a' = apStore a \<and> apReplay a' = apReplay a \<and> apId a' = apId a \<and> apIp a' = apIp a
    \<and> (r = None \<longrightarrow> \<not> tkDraining (apTracker a) \<and> tkActive (apTracker a) < acMaxConcurrent cfg)
    \<and> apTracker a' = (if r = None then (apTracker a)\<lparr>tkActive := tkActive (apTracker a) + 1\<rparr> else apTracker a)"
  using assms by (auto simp: admissionGate_def tryAcquire_def failWith_def split: if_splits)

lemma ipRateGate_keeps:
  assumes "ipRateGate cfg rq a = (r, a')"
  shows "\<exists>m t1 t2 k. a' = a\<lparr>apIp := m\<rparr> \<and> m = snd (consume (acIpLimiter cfg) k t1 t2 (apIp a))"
proof -
  obtain t1 t2 where c: "fst (rqClocks rq) = (t1, t2)" by fastforce
  let ?k = "resolveRateLimitIpKey (rqRemote rq) (header rq ''x-forwarded-for'') (acTrustedProxy cfg)"
  obtain d m where d: "consume (acIpLimiter cfg) ?k t1 t2 (apIp a) = (d, m)" by fastforce
  then have "a' = a\<lparr>apIp := m\<rparr>" using assms c by (cases d) (auto simp: ipRateGate_def failWith_def)
  moreover have "m = snd (consume (acIpLimiter cfg) ?k t1 t2 (apIp a))" using d by simp
  ultimately show ?thesis by blast
qed

lemma runChain_none: "runChain (f # fs) a = (None, a') \<longleftrightarrow> (\<exists>b. f a = (None, b) \<and> runChain fs b = (None, a'))"
  by (cases "f a") (auto simp: runChain_go split: option.split)

lemma quiet_none: "snd (f a) = a \<Longrightarrow> f a = (None, b) \<longleftrightarrow> b = a \<and> fst (f a) = None"
  by (cases "f a") auto

lemma ingress_store:
  assumes "runChain (ingress cfg rq) a = (r, a')"
  shows "apStore a' = apStore a \<and> apReplay a' = apReplay a \<and> apId a' = apId a"
proof -
  let ?late = "[ipRateGate cfg rq, bodyGate rq, earlyBoundsGate rq, readyRoute cfg rq]"
  have late: "apStore b' = apStore b \<and> apReplay b' = apReplay b \<and> apId b' = apId b" if "runChain ?late b = (q, b')" for q b b'
  proof -
    obtain q1 b1 where 1: "ipRateGate cfg rq b = (q1, b1)" by fastforce
    then have "b' = b1" using that by (auto simp: runChain_go runChain_quiet quiet_gates split: option.splits)
    then show ?thesis using ipRateGate_keeps [OF 1] by auto
  qed
  obtain q1 b1 where 1: "admissionGate cfg a = (q1, b1)" by fastforce
  show ?thesis using assms admissionGate_cases [OF 1] late [of b1 r a']
    by (auto simp: ingress_def runChain_quiet runChain_go quiet_gates 1 split: option.splits)
qed

lemma ipRateGate_allowed:
  assumes "ipRateGate cfg rq a = (None, a')"
  shows "fst (consume (acIpLimiter cfg) (resolveRateLimitIpKey (rqRemote rq) (header rq ''x-forwarded-for'') (acTrustedProxy cfg))
            (fst (fst (rqClocks rq))) (snd (fst (rqClocks rq))) (apIp a)) = Allowed"
proof -
  obtain t1 t2 where c: "fst (rqClocks rq) = (t1, t2)" by fastforce
  then show ?thesis using assms by (auto simp: ipRateGate_def failWith_def split: prod.splits rate_decision.splits)
qed

lemma ingress_passed:
  assumes "runChain (ingress cfg rq) a = (None, a')"
  shows "ingressPassed cfg rq a"
proof -
  obtain b where g: "fst (originGate cfg rq a) = None" "fst (contentLengthGate cfg rq a) = None"
    and 1: "admissionGate cfg a = (None, b)" and late: "runChain [ipRateGate cfg rq, bodyGate rq, earlyBoundsGate rq, readyRoute cfg rq] b = (None, a')"
    using assms unfolding ingress_def by (auto simp: runChain_none quiet_none quiet_gates)
  obtain c where 2: "ipRateGate cfg rq b = (None, c)" "fst (bodyGate rq c) = None" "fst (earlyBoundsGate rq c) = None"
    using late by (auto simp: runChain_none quiet_none quiet_gates)
  obtain v where v: "rqBody rq = Parsed v" using 2(2) by (auto simp: bodyGate_def split: body_parse.splits)
  have "rqMethod rq = js ''POST'' \<and> rqPath rq \<in> {ARCHIVE_BATCH_PATH, ARCHIVE_BATCH_PATH @ js ''/''} \<Longrightarrow> assertEarlyBatchBounds v = Inr ()"
    using 2(3) v by (auto simp: earlyBoundsGate_def parsedBody_def failWith_def split: sum.splits)
  moreover have "header rq ''origin'' = Undefined \<or> originOf rq \<in> set (acOrigins cfg)"
    using g(1) by (auto simp: originGate_def failWith_def split: if_splits)
  moreover have "header rq ''content-length'' = Str s \<and> s \<noteq> [] \<and> list_all isDigit s \<Longrightarrow> \<not> numGreater (strToNum s) (acMaxHttpBody cfg)" for s
    using g(2) by (auto simp: contentLengthGate_def failWith_def split: if_splits)
  ultimately show ?thesis using ipRateGate_allowed [OF 2(1)] admissionGate_cases [OF 1] v
    unfolding ingressPassed_def by auto
qed

lemma replayGate_cases:
  assumes "replayGate rq a = (r, a')"
  shows "apStore a' = apStore a \<and> apTracker a' = apTracker a \<and> apIp a' = apIp a \<and> apId a' = apId a
    \<and> apReplay a' = snd (replayMiddleware (rqPath rq) (header rq ''x-bsv-auth-request-id'') (apReplay a))
    \<and> (r = None \<and> rqPath rq \<noteq> AUTH_HANDSHAKE_PATH \<longrightarrow>
         (\<exists>h. header rq ''x-bsv-auth-request-id'' = Str h \<and> h \<notin> set (rgSeen (apReplay a))))"
proof -
  obtain g q where m: "replayMiddleware (rqPath rq) (header rq ''x-bsv-auth-request-id'') (apReplay a) = (g, q)" by fastforce
  have "g = Next \<and> rqPath rq \<noteq> AUTH_HANDSHAKE_PATH \<Longrightarrow>
      \<exists>h. header rq ''x-bsv-auth-request-id'' = Str h \<and> h \<notin> set (rgSeen (apReplay a))"
    using m by (auto simp: replayMiddleware_def split: if_splits jsval.splits)
  then show ?thesis using assms m by (auto simp: replayGate_def failWith_def split: guard_answer.splits)
qed

lemma identityRateGate_keeps:
  assumes "identityRateGate cfg rq a = (r, a')"
  shows "a' = a \<or> (\<exists>m t1 t2 k. a' = a\<lparr>apId := m\<rparr> \<and> m = snd (consume (acIdLimiter cfg) k t1 t2 (apId a)))"
proof (cases "\<exists>k. authIdentity cfg rq = Str k \<and> isIdentityKey (Str k) \<and> rqPath rq \<noteq> AUTH_HANDSHAKE_PATH")
  case False
  then show ?thesis using assms by (auto simp: identityRateGate_def split: if_splits jsval.splits)
next
  case True
  then obtain k where k: "authIdentity cfg rq = Str k" "isIdentityKey (Str k)" "rqPath rq \<noteq> AUTH_HANDSHAKE_PATH" by blast
  obtain t1 t2 where c: "snd (rqClocks rq) = (t1, t2)" by fastforce
  obtain d m where d: "consume (acIdLimiter cfg) k t1 t2 (apId a) = (d, m)" by fastforce
  then have "a' = a\<lparr>apId := m\<rparr>" using assms c k by (cases d) (auto simp: identityRateGate_def failWith_def)
  moreover have "m = snd (consume (acIdLimiter cfg) k t1 t2 (apId a))" using d by simp
  ultimately show ?thesis by blast
qed

lemma signed_store:
  assumes "runChain (signed cfg rq) a = (r, a')"
  shows "apStore a' = apStore a"
proof -
  obtain q1 b1 where 1: "replayGate rq a = (q1, b1)" by fastforce
  obtain q2 b2 where 2: "identityRateGate cfg rq b1 = (q2, b2)" by fastforce
  show ?thesis using assms replayGate_cases [OF 1] identityRateGate_keeps [OF 2]
    by (auto simp: signed_def runChain_quiet runChain_go quiet_gates 1 2 split: option.splits if_splits)
qed

lemma signed_passed:
  assumes "runChain (signed cfg rq) a = (None, a')" "authIdentity cfg rq = Str owner" "isIdentityKey (Str owner)"
    "rqPath rq \<noteq> AUTH_HANDSHAKE_PATH"
  shows "signedPassed cfg rq owner a"
proof -
  have "acAuth cfg" using assms(2) by (auto simp: authIdentity_def split: if_splits)
  then obtain b where u: "fst (unsignedGate rq a) = None" and 1: "replayGate rq a = (None, b)"
    and 2: "identityRateGate cfg rq b = (None, a')"
    using assms(1) unfolding signed_def by (auto simp: runChain_none quiet_none quiet_gates)
  have "nonEmptyStr (header rq ''x-bsv-auth-signature'')" "nonEmptyStr (header rq ''x-bsv-auth-request-id'')"
    using u assms(4) by (auto simp: unsignedGate_def failWith_def split: if_splits)
  moreover have "fst (consume (acIdLimiter cfg) owner (fst (snd (rqClocks rq))) (snd (snd (rqClocks rq))) (apId b)) = Allowed"
    using 2 assms by (cases "snd (rqClocks rq)")
      (auto simp: identityRateGate_def failWith_def split: prod.splits rate_decision.splits)
  ultimately show ?thesis using replayGate_cases [OF 1] assms(4)
    unfolding signedPassed_def by (auto simp: nonEmptyStr_def)
qed

lemma serveRequest_effect:
  assumes "serveRequest cfg rq a = (rs, a')"
  shows "apStore a' = apStore a \<or> (\<exists>owner. authIdentity cfg rq = Str owner \<and> isIdentityKey (Str owner) \<and> passed cfg rq owner a
     \<and> ownedEffect (acStoreLimits cfg) (eSnapshotId (rqEnv rq)) owner (apStore a) (apStore a'))"
proof -
  obtain r1 a1 where i: "runChain (ingress cfg rq) a = (r1, a1)" by fastforce
  obtain r2 a2 where g: "runChain (signed cfg rq) a1 = (r2, a2)" by fastforce
  obtain q3 a3 where q: "routeRequest cfg rq (routeBody cfg rq) (authIdentity cfg rq) a2 = (q3, a3)" by fastforce
  then have o: "routes cfg rq a2 = (Some q3, a3)" by (simp add: routes_def)
  have go: "runChain [routes cfg rq] a2 = (Some q3, a3)" by (simp add: runChain.simps(2) o)
  have s1: "apStore a1 = apStore a" "apReplay a1 = apReplay a" "apId a1 = apId a" using ingress_store [OF i] by auto
  have s2: "apStore a2 = apStore a1" using signed_store [OF g] by blast
  have "a' = (case r1 of Some x \<Rightarrow> a1 | None \<Rightarrow> case r2 of Some x \<Rightarrow> a2 | None \<Rightarrow> a3)"
    using assms i g by (auto simp: serveRequest_def runChain_append go split: option.splits prod.splits)
  then consider "a' = a1" | "a' = a2" | "r1 = None" "r2 = None" "a' = a3" by (auto split: option.splits)
  then show ?thesis
  proof cases
    case 3
    have "signedPassed cfg rq owner a \<longleftrightarrow> signedPassed cfg rq owner a1" for owner by (simp add: signedPassed_def s1)
    then have "passed cfg rq owner a" if "authIdentity cfg rq = Str owner" "isIdentityKey (Str owner)"
      "assertNoOwnerOverride (Str owner) (routeBody cfg rq) (rqQuery rq) (rqParams rq) = Inr ()" for owner
      using that ingress_passed i signed_passed [of cfg rq a1 a2 owner] g 3 unfolding passed_def by blast
    then show ?thesis using routes_effect [OF o] 3(3) s1 s2 by auto
  qed (use s1 s2 in auto)
qed

text \<open>C3: The service never mixes owners and never bypasses its guards. Serving any request keeps the
  repository reachable (so all its invariants hold). When it changes anything the repository holds, then
  the authentication middleware had verified an identity key, and the request had passed every guard
  (\<open>passed\<close>): the origin policy, the declared length, the admission bound, the rate limit of its address,
  the parser and the early batch bounds, a signature and an unseen request id and the rate limit of the
  identity (these three unless its path is the handshake's, which no route of the service serves), and
  no field claiming another owner. Then nothing that is held of any other identity changed: not its
  state, rows, deletion markers, log, audit trail, purge position, snapshots or idempotent results, and
  not its part of the abstract history. The one exception is a snapshot stored under the very id that
  was drawn at random for this request.\<close>

theorem request_owner_isolation:
  assumes "storeReach (acStoreLimits cfg) (apStore a)" "serveRequest cfg rq a = (rs, a')"
  shows "storeReach (acStoreLimits cfg) (apStore a')
    \<and> (apStore a' \<noteq> apStore a \<longrightarrow> (\<exists>owner. acAuth cfg \<and> rqAuth rq = Verified (Str owner) \<and> isIdentityKey (Str owner)
        \<and> passed cfg rq owner a \<and> othersKept owner (absStore (apStore a)) (absStore (apStore a'))
        \<and> (\<forall>o'. identityKeyRe o' \<and> o' \<noteq> owner \<longrightarrow>
             ownerPart (eSnapshotId (rqEnv rq)) o' (apStore a') = ownerPart (eSnapshotId (rqEnv rq)) o' (apStore a))))"
proof (cases "apStore a' = apStore a")
  case True
  then show ?thesis using assms(1) by simp
next
  case False
  with serveRequest_effect [OF assms(2)] obtain owner where
    ow: "authIdentity cfg rq = Str owner" "isIdentityKey (Str owner)" "passed cfg rq owner a"
    and e: "storeStep (acStoreLimits cfg) (apStore a) (apStore a')"
    and s: "storeInv (acStoreLimits cfg) (apStore a) \<longrightarrow> ownerStep owner (absStore (apStore a)) (absStore (apStore a'))"
    and o: "\<And>o'. apart owner o' \<Longrightarrow> ownerPart (eSnapshotId (rqEnv rq)) o' (apStore a') = ownerPart (eSnapshotId (rqEnv rq)) o' (apStore a)"
    by (auto simp: ownedEffect_def)
  have "othersKept owner (absStore (apStore a)) (absStore (apStore a'))"
    using s storeReach_inv [OF assms(1)] ownerStep_others by blast
  moreover have "acAuth cfg \<and> rqAuth rq = Verified (Str owner)"
    using ow(1) by (auto simp: authIdentity_def split: if_splits auth_result.splits)
  moreover have "identityKeyRe o' \<and> o' \<noteq> owner \<Longrightarrow> apart owner o'" for o'
    using ow(2) apart_identity by (auto simp: isIdentityKey_def)
  ultimately show ?thesis using ow o reach_step [OF assms(1) e] by blast
qed

text \<open>A service with no data answers a verified owner's usage request.\<close>

definition usageConfig :: app_config where
  "usageConfig = \<lparr>acOrigins = [], acMaxConcurrent = 10, acTrustedProxy = [],
     acIpLimiter = \<lparr>lLimit = 60, lWindowMs = 60000, lMaxKeys = 100\<rparr>,
     acIdLimiter = \<lparr>lLimit = 60, lWindowMs = 60000, lMaxKeys = 100\<rparr>, acAuth = True, acRepository = True,
     acSecret = Undefined, acMigrated = True, acProbe = None, acMaxHttpBody = 1000, acStoreLimits = LIMITS,
     acDateParse = (\<lambda>s. None)\<rparr>"

definition usageRequest :: request where
  "usageRequest = \<lparr>rqEndpoint = UsageRoute, rqMethod = js ''GET'', rqPath = js ''/v1/history/usage'',
     rqHeaders = [(js ''x-bsv-auth-signature'', Str (js ''sig'')), (js ''x-bsv-auth-request-id'', Str (js ''id''))],
     rqRemote = Undefined, rqBody = Parsed Undefined, rqRaw = None, rqIsJson = False, rqQuery = Obj [],
     rqParams = Obj [], rqAuth = Verified (Str m0Owner), rqClocks = ((0, 0), (0, 0)), rqFreshId = js ''fresh'',
     rqEnv = m0Env, rqSeconds = 0\<rparr>"

definition freshApp :: app where
  "freshApp = \<lparr>apTracker = createAdmissionTracker, apIp = [],
     apReplay = \<lparr>rgLimit = REPLAY_CACHE_LIMIT, rgSeen = []\<rparr>, apId = [], apStore = emptyStore\<rparr>"

lemma usage_headers:
  "header usageRequest ''origin'' = Undefined" "header usageRequest ''content-length'' = Undefined"
  "header usageRequest ''x-bsv-auth-signature'' = Str (js ''sig'')"
  "header usageRequest ''x-bsv-auth-request-id'' = Str (js ''id'')"
  by (simp_all add: header_def usageRequest_def getProp_def js_def)

lemma usage_paths: "rqPath usageRequest \<noteq> AUTH_HANDSHAKE_PATH" "rqMethod usageRequest \<noteq> js ''POST''"
  by (simp_all add: usageRequest_def AUTH_HANDSHAKE_PATH_def js_def)

lemma usage_ingress:
  "\<exists>a1. runChain (ingress usageConfig usageRequest) freshApp = (None, a1)"
proof -
  have 1: "fst (originGate usageConfig usageRequest b) = None" "fst (contentLengthGate usageConfig usageRequest b) = None"
    "fst (livenessRoute usageRequest b) = None" "fst (bodyGate usageRequest b) = None"
    "fst (earlyBoundsGate usageRequest b) = None" "fst (readyRoute usageConfig usageRequest b) = None" for b
    using usage_paths by (simp_all add: originGate_def contentLengthGate_def usage_headers livenessRoute_def bodyGate_def
        earlyBoundsGate_def readyRoute_def) (simp_all add: usageRequest_def)
  obtain b1 where 2: "admissionGate usageConfig freshApp = (None, b1)"
    by (simp add: admissionGate_def tryAcquire_def usageConfig_def freshApp_def createAdmissionTracker_def)
  have "apIp b1 = []" using admissionGate_cases [OF 2] by (simp add: freshApp_def)
  then obtain b2 where 3: "ipRateGate usageConfig usageRequest b1 = (None, b2)"
    by (simp add: ipRateGate_def usageRequest_def usageConfig_def consume_def Let_def)
  show ?thesis using 1 by (simp add: ingress_def runChain_quiet quiet_gates runChain_go 2 3)
qed

lemma usage_signed:
  assumes "apReplay a = \<lparr>rgLimit = REPLAY_CACHE_LIMIT, rgSeen = []\<rparr>" "apId a = []"
  shows "\<exists>a1. runChain (signed usageConfig usageRequest) a = (None, a1)"
proof -
  have 1: "fst (unsignedGate usageRequest b) = None" "fst (authGate usageRequest b) = None" for b
    by (simp_all add: unsignedGate_def authGate_def usage_headers nonEmptyStr_def js_def)
      (simp add: usageRequest_def)
  obtain b1 where 2: "replayGate usageRequest a = (None, b1)" using assms(1) usage_paths(1)
    by (simp add: replayGate_def replayMiddleware_def usage_headers js_def REPLAY_CACHE_LIMIT_def)
  have "apId b1 = []" using replayGate_cases [OF 2] assms(2) by simp
  then obtain b2 where 3: "identityRateGate usageConfig usageRequest b1 = (None, b2)" using usage_paths(1) m0_owner(1)
    by (simp add: identityRateGate_def authIdentity_def usageConfig_def usageRequest_def consume_def Let_def)
  have "acAuth usageConfig" by (simp add: usageConfig_def)
  then show ?thesis using 1 by (simp add: signed_def runChain_quiet quiet_gates runChain_go 2 3)
qed

lemma usage_route:
  assumes "apStore a = emptyStore"
  shows "\<exists>x. routes usageConfig usageRequest a = (Some (Inr (200, UsageAnswer x)), a\<lparr>apStore := snd (ownerState m0Owner emptyStore)\<rparr>)"
proof -
  have 1: "authIdentity usageConfig usageRequest = Str m0Owner" "rqEndpoint usageRequest = UsageRoute"
    by (simp_all add: authIdentity_def usageConfig_def usageRequest_def)
  have 2: "assertNoOwnerOverride (Str m0Owner) b (rqQuery usageRequest) (rqParams usageRequest) = Inr ()"
    if "b = Undefined" for b
    unfolding that usageRequest_def
    by (simp add: assertNoOwnerOverride_def field_def getProp_def isEmptyParam_def list_all_iff result_simps m0_owner)
  have 3: "routeBody usageConfig usageRequest = Undefined"
    by (simp add: routeBody_def usageRequest_def parsedBody_def)
  have 4: "validateUsageQuery (rqQuery usageRequest) = Inr ()" "requireRepository usageConfig = Inr ()"
    by (simp_all add: validateUsageQuery_def usageRequest_def requireRepository_def usageConfig_def isRecord_def keysOf_def)
  have 5: "resolveRequestOwner (Str m0Owner) = Inr m0Owner" using resolveRequestOwner_Inr m0_owner(1) by blast
  show ?thesis using assms
    by (simp add: routes_def routeRequest_def 1 3 protectedRoute_def handleUsage_def hBind_pure 2 4 5 hBind_def hStore_def
        hPure_def getUsage_def opBind_def opReturn_def ownerState_def emptyStore_def Let_def)
qed

lemma usage_served:
  "\<exists>rs x a'. serveRequest usageConfig usageRequest freshApp = (rs, a') \<and> rsStatus rs = 200 \<and> rsAnswer rs = UsageAnswer x
     \<and> apStore a' = snd (ownerState m0Owner emptyStore)"
proof -
  obtain a1 where 1: "runChain (ingress usageConfig usageRequest) freshApp = (None, a1)" using usage_ingress by blast
  have a1: "apStore a1 = emptyStore" "apReplay a1 = \<lparr>rgLimit = REPLAY_CACHE_LIMIT, rgSeen = []\<rparr>" "apId a1 = []"
    using ingress_store [OF 1] by (auto simp: freshApp_def)
  obtain a2 where 2: "runChain (signed usageConfig usageRequest) a1 = (None, a2)" using usage_signed [OF a1(2,3)] by blast
  have "apStore a2 = emptyStore" using signed_store [OF 2] a1 by simp
  then obtain x where 3: "routes usageConfig usageRequest a2 =
      (Some (Inr (200, UsageAnswer x)), a2\<lparr>apStore := snd (ownerState m0Owner emptyStore)\<rparr>)" using usage_route by blast
  have go: "runChain [routes usageConfig usageRequest] a2 =
      (Some (Inr (200, UsageAnswer x)), a2\<lparr>apStore := snd (ownerState m0Owner emptyStore)\<rparr>)"
    by (simp add: runChain.simps(2) 3)
  show ?thesis by (simp add: serveRequest_def runChain_append 1 2 go)
qed

lemma freshApp_reach: "storeReach (acStoreLimits usageConfig) (apStore freshApp)"
  by (simp add: freshApp_def reach_empty)

theorem request_owner_isolation_witness:
  "\<exists>rs a'. serveRequest usageConfig usageRequest freshApp = (rs, a') \<and> rsStatus rs = 200 \<and> storeReach LIMITS (apStore a')
     \<and> apStore a' \<noteq> apStore freshApp \<and> passed usageConfig usageRequest m0Owner freshApp"
proof -
  obtain rs x a' where s: "serveRequest usageConfig usageRequest freshApp = (rs, a')" "rsStatus rs = 200"
    "apStore a' = snd (ownerState m0Owner emptyStore)" using usage_served by blast
  have "apStore a' \<noteq> apStore freshApp"
    by (simp add: s(3) freshApp_def ownerState_def emptyStore_def)
  moreover have "rqAuth usageRequest = Verified (Str m0Owner)" by (simp add: usageRequest_def)
  ultimately show ?thesis using request_owner_isolation [OF freshApp_reach s(1)] s by (auto simp: usageConfig_def)
qed

end
