(* ===== verification/ServiceRun.thy ===== *)
theory ServiceRun
  imports ServiceApp
begin

section \<open>Error responses and runs of the service application\<close>

text \<open>
  What the error responses of \<open>createServiceApp\<close> may say, and the states a running application
  reaches when middlewares of concurrent requests interleave, slots are released and a drain begins.
\<close>

subsection \<open>Error responses\<close>

text \<open>The documented responses: a status and a generic description for each repository code.\<close>

definition repositoryResponses :: "(code \<times> nat \<times> string) list" where
  "repositoryResponses =
    [(ERR_INVALID_RECORD, 400, ''invalid request''), (ERR_INVALID_CURSOR, 400, ''invalid request''),
     (ERR_AUTHENTICATION_REQUIRED, 401, ''authentication required''), (ERR_FORBIDDEN, 403, ''forbidden''),
     (ERR_REVISION_CONFLICT, 409, ''request conflicts with current state''),
     (ERR_IMMUTABLE_CONFLICT, 409, ''request conflicts with current state''),
     (ERR_EPOCH_CHANGED, 409, ''request conflicts with current state''),
     (ERR_IDEMPOTENCY_CONFLICT, 409, ''request conflicts with current state''),
     (ERR_EPOCH_EXHAUSTED, 409, ''request conflicts with current state''),
     (ERR_QUOTA_EXCEEDED, 409, ''request conflicts with current state''),
     (ERR_CURSOR_EXPIRED, 410, ''cursor expired; take a full snapshot''),
     (ERR_REQUEST_TOO_LARGE, 413, ''request exceeds the configured limit''),
     (ERR_RATE_LIMITED, 429, ''rate limited''), (ERR_UNAVAILABLE, 503, ''service unavailable'')]"

definition repositoryResponse :: "code option \<Rightarrow> nat \<times> answer" where
  "repositoryResponse c =
     (case (case c of None \<Rightarrow> None | Some k \<Rightarrow> map_option (Pair k) (map_of repositoryResponses k)) of
        Some (k, st, d) \<Rightarrow> (st, Problem k d None)
      | None \<Rightarrow> (500, Problem ERR_UNAVAILABLE ''service unavailable'' None))"

lemma errorBoundary_repository:
  "errorBoundary (ofHttp (authError (evStatus (mapRepositoryError c)) (evCode (mapRepositoryError c))
     (evDescription (mapRepositoryError c)))) = repositoryResponse c"
proof (cases c)
  case (Some k)
  then show ?thesis
    by (cases k) (simp_all add: mapRepositoryError_def errorBoundary_def ofHttp_def authError_def
        repositoryResponse_def repositoryResponses_def)
qed (simp add: mapRepositoryError_def errorBoundary_def ofHttp_def authError_def repositoryResponse_def)

text \<open>C20: What a client sees of a repository error: when the handler of a protected route fails with an
  error of the repository, the route throws what the error boundary answers by the table
  \<open>repositoryResponses\<close>: fourteen codes, \<open>ERR_UNAVAILABLE\<close> with 503 among them, keep their name and get the
  status and the generic description listed, and an error with any other code (\<open>ERR_INTERNAL\<close> and
  \<open>ERR_PAID_TRANSPORT_UNSUPPORTED\<close> included) or with none is answered 500 \<open>ERR_UNAVAILABLE\<close>, so no
  repository error is ever reported as \<open>ERR_INTERNAL\<close>; the class and message of the error never show.\<close>

theorem repository_error_response:
  assumes "h rq bdy owner a = (Inl (RepositoryProblem e), a')"
    "isIdentityKey (Str owner)" "assertNoOwnerOverride (Str owner) bdy (rqQuery rq) (rqParams rq) = Inr ()"
  shows "\<exists>t. protectedRoute h rq bdy (Str owner) a = (Inl t, a')
    \<and> errorBoundary t = repositoryResponse (err_code e)"
proof -
  have "resolveRequestOwner (Str owner) = Inr owner" using assms(2) resolveRequestOwner_Inr by blast
  then show ?thesis using assms errorBoundary_repository
    by (simp add: protectedRoute_def hBind_pure Let_def)
qed

text \<open>Deleting everything under an epoch that is no longer current.\<close>

definition staleDelete :: jsval where
  "staleDelete = Obj [(js ''expectedEpoch'', Str (js ''gen-2''))]"

lemma staleDelete_fails:
  "\<exists>a' m. handleDeleteAll usageConfig usageRequest staleDelete m0Owner freshApp
     = (Inl (RepositoryProblem (JsErr RangeError (Some ERR_EPOCH_CHANGED) m)), a')"
  "assertNoOwnerOverride (Str m0Owner) staleDelete (rqQuery usageRequest) (rqParams usageRequest) = Inr ()"
proof -
  have v: "validateDeleteAllInput (rqQuery usageRequest) staleDelete = Inr (None, Some (js ''gen-2''))"
    by code_simp
  have "acRepository usageConfig" "rqEnv usageRequest = m0Env" "apStore freshApp = emptyStore"
    by (simp_all add: usageConfig_def usageRequest_def freshApp_def)
  moreover have "js ''gen-2'' \<noteq> sEpoch (ownerOf m0Owner emptyStore)"
    by (simp add: ownerOf_def emptyStore_def agetOr_def initialOwner_def js_def)
  ultimately show "\<exists>a' m. handleDeleteAll usageConfig usageRequest staleDelete m0Owner freshApp
     = (Inl (RepositoryProblem (JsErr RangeError (Some ERR_EPOCH_CHANGED) m)), a')"
    by (simp add: handleDeleteAll_def hBind_pure v requireRepository_def optStr_def)
      (simp add: hBind_def hStore_def deleteAll_def opBind_eq checkIdempotency_def rangeCode_def)
  show "assertNoOwnerOverride (Str m0Owner) staleDelete (rqQuery usageRequest) (rqParams usageRequest) = Inr ()"
    by code_simp
qed

theorem repository_error_response_witness:
  "\<exists>t a'. protectedRoute (handleDeleteAll usageConfig) usageRequest staleDelete (Str m0Owner) freshApp = (Inl t, a')
     \<and> errorBoundary t = (409, Problem ERR_EPOCH_CHANGED ''request conflicts with current state'' None)"
proof -
  obtain a' m where f: "handleDeleteAll usageConfig usageRequest staleDelete m0Owner freshApp
     = (Inl (RepositoryProblem (JsErr RangeError (Some ERR_EPOCH_CHANGED) m)), a')" using staleDelete_fails(1) by blast
  from repository_error_response [where h = "handleDeleteAll usageConfig", OF f m0_owner(1) staleDelete_fails(2)]
  show ?thesis by (auto simp: repositoryResponse_def repositoryResponses_def)
qed

definition knownDescriptions :: "string list" where
  "knownDescriptions = [''authentication required'', ''forbidden'', ''invalid request'',
     ''request conflicts with current state'', ''cursor expired; take a full snapshot'',
     ''request exceeds the configured limit'', ''rate limited'', ''service not ready: repository not configured'',
     ''service unavailable'', ''request body is not valid JSON'', ''request body exceeds the configured limit'',
     ''internal error'', ''unknown route'', ''service not ready: migrations not verified'',
     ''service not ready: database unavailable'']"

lemma known_boundary:
  "''authentication required'' \<in> set knownDescriptions" "''forbidden'' \<in> set knownDescriptions"
  "''invalid request'' \<in> set knownDescriptions" "''request conflicts with current state'' \<in> set knownDescriptions"
  "''cursor expired; take a full snapshot'' \<in> set knownDescriptions"
  "''request exceeds the configured limit'' \<in> set knownDescriptions" "''rate limited'' \<in> set knownDescriptions"
  "''service not ready: repository not configured'' \<in> set knownDescriptions"
  "''service unavailable'' \<in> set knownDescriptions" "''request body is not valid JSON'' \<in> set knownDescriptions"
  "''request body exceeds the configured limit'' \<in> set knownDescriptions" "''internal error'' \<in> set knownDescriptions"
  "''unknown route'' \<in> set knownDescriptions" "''service not ready: migrations not verified'' \<in> set knownDescriptions"
  "''service not ready: database unavailable'' \<in> set knownDescriptions"
  by (simp_all only: knownDescriptions_def list.set insert_iff simp_thms)

definition knownProblem :: "nat \<Rightarrow> answer \<Rightarrow> bool" where
  "knownProblem st ans \<longleftrightarrow> (case ans of Problem c d r \<Rightarrow> d \<in> set knownDescriptions \<and> 400 \<le> st
     \<and> (st = 500 \<longrightarrow> c = ERR_UNAVAILABLE \<or> c = ERR_INTERNAL) | _ \<Rightarrow> True)"

lemma errorBoundary_known: "errorBoundary t = (st, ans) \<Longrightarrow> knownProblem st ans"
  unfolding errorBoundary_def Let_def knownProblem_def
  by (cases "thStatus t"; cases "thCode t") (simp_all add: known_boundary split: if_splits, auto simp: known_boundary)


text \<open>An answer a middleware or a route may end the request with.\<close>

definition knownEnd :: "thrown + (nat \<times> answer) \<Rightarrow> bool" where
  "knownEnd x \<longleftrightarrow> (case x of Inl _ \<Rightarrow> True | Inr (st, ans) \<Rightarrow> knownProblem st ans)"

lemma knownEnd_simps [simp]:
  "knownEnd (Inl t)" "knownEnd (Inr (st, ans)) = knownProblem st ans"
  by (simp_all add: knownEnd_def)

definition isProblem :: "answer \<Rightarrow> bool" where
  "isProblem ans \<longleftrightarrow> (case ans of Problem _ _ _ \<Rightarrow> True | _ \<Rightarrow> False)"

lemma knownProblem_ok: "\<not> isProblem ans \<Longrightarrow> knownProblem st ans"
  by (simp add: knownProblem_def isProblem_def split: answer.splits)

lemma knownProblem_fixed [simp]:
  "knownProblem 503 (Problem ERR_UNAVAILABLE ''service not ready: migrations not verified'' None)"
  "knownProblem 503 (Problem ERR_UNAVAILABLE ''service not ready: database unavailable'' None)"
  "knownProblem 404 (Problem ERR_UNAVAILABLE ''unknown route'' None)"
  by (simp_all add: knownProblem_def known_boundary)

definition plainHandler :: "answer handler \<Rightarrow> bool" where
  "plainHandler m \<longleftrightarrow> (\<forall>a x. fst (m a) = Inr x \<longrightarrow> \<not> isProblem x)"

lemma plain_bind: "(\<And>x. plainHandler (f x)) \<Longrightarrow> plainHandler (hBind m f)"
  by (auto simp: plainHandler_def hBind_def split: prod.splits sum.splits)

lemma plain_pure: "(\<And>x. r = Inr x \<Longrightarrow> \<not> isProblem x) \<Longrightarrow> plainHandler (hPure r)"
  by (simp add: plainHandler_def hPure_def split: sum.splits)

lemma handlers_plain:
  "plainHandler (handleArchiveBatch cfg rq bdy owner)" "plainHandler (handlePatchState cfg rq bdy owner)"
  "plainHandler (handleDeleteOne cfg rq bdy owner)" "plainHandler (handleDeleteAll cfg rq bdy owner)"
  "plainHandler (handleBrowse cfg rq bdy owner)" "plainHandler (handleChanges cfg rq bdy owner)"
  "plainHandler (handleSnapshotCreate cfg rq bdy owner)" "plainHandler (handleSnapshotPage cfg rq bdy owner)"
  "plainHandler (handleUsage cfg rq bdy owner)" "plainHandler (handleCapabilities cfg rq bdy owner)"
proof -
  note P = plain_bind plain_pure
  show "plainHandler (handleArchiveBatch cfg rq bdy owner)" unfolding handleArchiveBatch_def
    by (intro P) (auto simp: isProblem_def split: prod.splits intro!: P)
  show "plainHandler (handlePatchState cfg rq bdy owner)" unfolding handlePatchState_def
    by (intro P) (auto simp: isProblem_def split: prod.splits intro!: P)
  show "plainHandler (handleDeleteOne cfg rq bdy owner)" unfolding handleDeleteOne_def
    by (intro P) (auto simp: isProblem_def split: prod.splits intro!: P)
  show "plainHandler (handleDeleteAll cfg rq bdy owner)" unfolding handleDeleteAll_def
    by (intro P) (auto simp: isProblem_def split: prod.splits intro!: P)
  show "plainHandler (handleBrowse cfg rq bdy owner)" unfolding handleBrowse_def
    by (intro P) (auto simp: isProblem_def split: prod.splits intro!: P)
  show "plainHandler (handleChanges cfg rq bdy owner)" unfolding handleChanges_def
    by (intro P) (auto simp: isProblem_def)
  show "plainHandler (handleSnapshotCreate cfg rq bdy owner)" unfolding handleSnapshotCreate_def
    by (intro P) (auto simp: isProblem_def)
  show "plainHandler (handleSnapshotPage cfg rq bdy owner)" unfolding handleSnapshotPage_def
    by (intro P) (auto simp: isProblem_def split: prod.splits option.splits intro!: P)
  show "plainHandler (handleUsage cfg rq bdy owner)" unfolding handleUsage_def
    by (intro P) (auto simp: isProblem_def)
  show "plainHandler (handleCapabilities cfg rq bdy owner)" unfolding handleCapabilities_def
    by (intro P) (auto simp: isProblem_def plainHandler_def hPure_def)
qed

lemma protectedRoute_plain:
  assumes "protectedRoute h rq bdy identity a = (Inr x, a')" "\<And>owner. plainHandler (h rq bdy owner)"
  shows "\<not> isProblem x"
proof -
  define m where "m = hBind (hPure (resolveRequestOwner identity)) (\<lambda>owner.
           hBind (hPure (assertNoOwnerOverride (Str owner) bdy (rqQuery rq) (rqParams rq))) (\<lambda>_. h rq bdy owner))"
  have pl: "plainHandler m" unfolding m_def by (intro plain_bind assms(2))
  obtain q b where q: "m a = (q, b)" by fastforce
  have "q = Inr x" using assms(1) unfolding protectedRoute_def m_def [symmetric] q
    by (cases q) (auto simp: Let_def split: route_error.splits)
  then show ?thesis using pl q unfolding plainHandler_def by (metis fst_conv)
qed

text \<open>A middleware that ends a request does so with an error or a known answer.\<close>

definition endsKnown :: "middleware \<Rightarrow> bool" where
  "endsKnown f \<longleftrightarrow> (\<forall>a y. fst (f a) = Some y \<longrightarrow> knownEnd y)"

lemma endsKnownI: "(\<And>a y. fst (f a) = Some y \<Longrightarrow> knownEnd y) \<Longrightarrow> endsKnown f"
  by (simp add: endsKnown_def)

lemma endsKnown_gates:
  "endsKnown (originGate cfg rq)"
  "endsKnown (contentLengthGate cfg rq)"
  "endsKnown (livenessRoute rq)"
  "endsKnown (admissionGate cfg)"
  "endsKnown (bodyGate rq)"
  "endsKnown (earlyBoundsGate rq)"
  "endsKnown (readyRoute cfg rq)"
  "endsKnown (unsignedGate rq)"
  "endsKnown (authGate rq)"
proof -
  note E = failWith_def knownProblem_ok isProblem_def
  show "endsKnown (originGate cfg rq)"
    by (rule endsKnownI) (auto simp: originGate_def E split: if_splits)
  show "endsKnown (contentLengthGate cfg rq)"
    by (rule endsKnownI) (auto simp: contentLengthGate_def E split: jsval.splits if_splits)
  show "endsKnown (livenessRoute rq)"
    by (rule endsKnownI) (auto simp: livenessRoute_def E split: if_splits)
  show "endsKnown (admissionGate cfg)"
    by (rule endsKnownI) (auto simp: admissionGate_def E split: prod.splits if_splits)
  show "endsKnown (bodyGate rq)"
    by (rule endsKnownI) (auto simp: bodyGate_def E split: body_parse.splits if_splits)
  show "endsKnown (earlyBoundsGate rq)"
    by (rule endsKnownI) (auto simp: earlyBoundsGate_def E split: sum.splits if_splits)
  show "endsKnown (readyRoute cfg rq)"
    by (rule endsKnownI) (auto simp: readyRoute_def E split: if_splits)
  show "endsKnown (unsignedGate rq)"
    by (rule endsKnownI) (auto simp: unsignedGate_def E split: if_splits)
  show "endsKnown (authGate rq)"
    by (rule endsKnownI) (auto simp: authGate_def E split: auth_result.splits if_splits)
qed

lemma endsKnown_replay: "endsKnown (replayGate rq)"
  by (rule endsKnownI) (auto simp: replayGate_def failWith_def split: prod.splits guard_answer.splits)

lemma endsKnown_ipRate: "endsKnown (ipRateGate cfg rq)"
  unfolding endsKnown_def ipRateGate_def Let_def failWith_def
  by (cases "fst (rqClocks rq)") (simp split: prod.split rate_decision.split)

lemma endsKnown_idRate: "endsKnown (identityRateGate cfg rq)"
  unfolding endsKnown_def identityRateGate_def Let_def failWith_def
  by (cases "snd (rqClocks rq)") (simp split: prod.split rate_decision.split jsval.split)

lemma endsKnown_routes: "endsKnown (routes cfg rq)"
proof -
  note P = protectedRoute_plain [OF _ handlers_plain(1)] protectedRoute_plain [OF _ handlers_plain(2)] protectedRoute_plain [OF _ handlers_plain(3)]
    protectedRoute_plain [OF _ handlers_plain(4)] protectedRoute_plain [OF _ handlers_plain(5)] protectedRoute_plain [OF _ handlers_plain(6)]
    protectedRoute_plain [OF _ handlers_plain(7)] protectedRoute_plain [OF _ handlers_plain(8)] protectedRoute_plain [OF _ handlers_plain(9)]
    protectedRoute_plain [OF _ handlers_plain(10)]
  have probe: "handleProbe rq bdy i = Inr x \<Longrightarrow> \<not> isProblem x" for bdy i x
    by (auto simp: handleProbe_def result_simps isProblem_def)
  have "knownEnd (fst (routeRequest cfg rq bdy i a))" for bdy i a
    unfolding routeRequest_def Let_def
    by (cases "rqEndpoint rq") (auto split: prod.split sum.split intro!: knownProblem_ok dest: probe P)
  then show ?thesis by (auto simp: endsKnown_def routes_def split: prod.splits) (metis fst_conv)
qed

lemma endsKnown_chain: "list_all endsKnown fs \<Longrightarrow> endsKnown (runChain fs)"
proof (induction fs)
  case (Cons f fs)
  show ?case unfolding endsKnown_def
  proof (intro allI impI)
    fix a y assume y: "fst (runChain (f # fs) a) = Some y"
    obtain q b where f: "f a = (q, b)" by fastforce
    show "knownEnd y"
    proof (cases q)
      case None
      then show ?thesis using Cons y f by (simp add: runChain_go endsKnown_def)
    next
      case (Some z)
      moreover have "fst (f a) = Some y" using y f Some by (simp add: runChain_go)
      ultimately show ?thesis using Cons.prems by (simp add: endsKnown_def)
    qed
  qed
qed (simp add: endsKnown_def)

lemma serve_known:
  assumes "serveRequest cfg rq a = (rs, a')"
  shows "knownProblem (rsStatus rs) (rsAnswer rs)"
proof -
  obtain q b where q: "runChain (ingress cfg rq @ signed cfg rq @ [routes cfg rq]) a = (q, b)" by fastforce
  have "list_all endsKnown (ingress cfg rq @ signed cfg rq @ [routes cfg rq])"
    by (simp add: ingress_def signed_def endsKnown_gates endsKnown_replay endsKnown_ipRate endsKnown_idRate endsKnown_routes)
  from endsKnown_chain [OF this] q have "q = Some y \<Longrightarrow> knownEnd y" for y unfolding endsKnown_def by (metis fst_conv)
  then show ?thesis using assms q
    by (auto simp: serveRequest_def Let_def knownEnd_def dest: errorBoundary_known split: option.splits sum.splits prod.splits)
qed

text \<open>C19: Error responses never leak: whatever fails, and in whatever state, an error answer has one of
  fifteen fixed descriptions and a status of at least 400, a 500 carries \<open>ERR_UNAVAILABLE\<close> or
  \<open>ERR_INTERNAL\<close> only, and the correlation id echoed is the client's only if it matches the
  short token pattern.\<close>

theorem error_responses_generic:
  assumes "serveRequest cfg rq a = (rs, a')" "rsAnswer rs = Problem c d r"
  shows "d \<in> set knownDescriptions \<and> 400 \<le> rsStatus rs
    \<and> (rsStatus rs = 500 \<longrightarrow> c = ERR_UNAVAILABLE \<or> c = ERR_INTERNAL)
    \<and> (rsCorrelation rs = rqFreshId rq \<or> correlationIdRe (rsCorrelation rs))"
proof -
  have "knownProblem (rsStatus rs) (rsAnswer rs)" by (rule serve_known [OF assms(1)])
  moreover have "rsCorrelation rs = correlationOf rq" using assms(1)
    by (auto simp: serveRequest_def Let_def split: prod.splits)
  ultimately show ?thesis using assms(2)
    by (auto simp: knownProblem_def correlationOf_def resolveCorrelationId_def split: jsval.splits)
qed


theorem error_responses_generic_witness:
  "\<exists>rs. fst (serveRequest usageConfig (usageRequest\<lparr>rqHeaders := [(js ''origin'', Str (js ''http://x''))]\<rparr>) freshApp) = rs
     \<and> rsStatus rs = 403 \<and> rsAnswer rs = Problem ERR_FORBIDDEN ''forbidden'' None \<and> ''forbidden'' \<in> set knownDescriptions"
proof -
  let ?rq = "usageRequest\<lparr>rqHeaders := [(js ''origin'', Str (js ''http://x''))]\<rparr>"
  have "fst (originGate usageConfig ?rq freshApp) = Some (Inl (ofHttp (authError 403 ERR_FORBIDDEN ''forbidden'')))"
    by (simp add: originGate_def header_def getProp_def js_def usageConfig_def failWith_def)
  then have r: "fst (runChain (ingress usageConfig ?rq @ fs) freshApp) = Some (Inl (ofHttp (authError 403 ERR_FORBIDDEN ''forbidden'')))" for fs
    by (simp add: ingress_def runChain_quiet quiet_gates)
  obtain b where "runChain (ingress usageConfig ?rq @ signed usageConfig ?rq @ [routes usageConfig ?rq]) freshApp
      = (Some (Inl (ofHttp (authError 403 ERR_FORBIDDEN ''forbidden''))), b)" using r by (metis prod.collapse)
  then obtain rs where rs: "serveRequest usageConfig ?rq freshApp = (rs, b)" "rsStatus rs = 403"
      "rsAnswer rs = Problem ERR_FORBIDDEN ''forbidden'' None"
    by (simp add: serveRequest_def errorBoundary_def ofHttp_def authError_def)
  from error_responses_generic [OF rs(1,3)] rs show ?thesis by simp
qed

subsection \<open>The running application\<close>

text \<open>The states of a running application: it starts empty, and then middlewares of any requests run in
  any interleaving (each is atomic on the event loop), a slot is given back when a response ends,
  and draining may begin.\<close>

inductive appReach :: "app_config \<Rightarrow> app \<Rightarrow> bool" for cfg :: app_config where
  app_starts: "createReplayGuard Undefined = Inr g \<Longrightarrow>
    appReach cfg \<lparr>apTracker = createAdmissionTracker, apIp = [], apReplay = g, apId = [], apStore = emptyStore\<rparr>"
| app_middleware: "appReach cfg a \<Longrightarrow> f \<in> set (ingress cfg rq @ signed cfg rq @ [routes cfg rq]) \<Longrightarrow> appReach cfg (snd (f a))"
| app_releases: "appReach cfg a \<Longrightarrow> appReach cfg (a\<lparr>apTracker := releaseSlot (apTracker a)\<rparr>)"
| app_drains: "appReach cfg a \<Longrightarrow> appReach cfg (a\<lparr>apTracker := (apTracker a)\<lparr>tkDraining := True\<rparr>\<rparr>)"

lemma appReach_chain: "appReach cfg a \<Longrightarrow> set fs \<subseteq> set (ingress cfg rq @ signed cfg rq @ [routes cfg rq]) \<Longrightarrow>
    appReach cfg (snd (runChain fs a))"
proof (induction fs arbitrary: a)
  case (Cons f fs)
  obtain q b where f: "f a = (q, b)" by fastforce
  have "f \<in> set (ingress cfg rq @ signed cfg rq @ [routes cfg rq])" using Cons.prems(2) by auto
  from app_middleware [OF Cons.prems(1) this] f have "appReach cfg b" by simp
  then show ?case using Cons.IH [of b] Cons.prems(2) f by (cases q) (simp_all add: runChain_go)
qed simp

lemma app_serves:
  assumes "appReach cfg a"
  shows "appReach cfg (snd (serveRequest cfg rq a))"
proof -
  obtain q b where q: "runChain (ingress cfg rq @ signed cfg rq @ [routes cfg rq]) a = (q, b)" by fastforce
  then have "snd (serveRequest cfg rq a) = b" by (simp add: serveRequest_def Let_def split: prod.split)
  then show ?thesis using appReach_chain [OF assms subset_refl] q by (metis snd_conv)
qed

definition appInv :: "app_config \<Rightarrow> app \<Rightarrow> bool" where
  "appInv cfg a \<longleftrightarrow> tkActive (apTracker a) \<le> acMaxConcurrent cfg
     \<and> bucketsOk (acIpLimiter cfg) (apIp a) \<and> bucketsOk (acIdLimiter cfg) (apId a)
     \<and> 0 < rgLimit (apReplay a) \<and> length (rgSeen (apReplay a)) \<le> rgLimit (apReplay a)
     \<and> storeInv (acStoreLimits cfg) (apStore a)"

definition limitersOk :: "app_config \<Rightarrow> bool" where
  "limitersOk cfg \<longleftrightarrow> limiterOk (acIpLimiter cfg) \<and> limiterOk (acIdLimiter cfg)"

lemma replayMiddleware_bound:
  "0 < rgLimit g \<Longrightarrow> length (rgSeen g) \<le> rgLimit g \<Longrightarrow>
     rgLimit (snd (replayMiddleware p h g)) = rgLimit g \<and> length (rgSeen (snd (replayMiddleware p h g))) \<le> rgLimit g"
  by (auto simp: replayMiddleware_def Let_def split: jsval.splits)

definition keepsInv :: "app_config \<Rightarrow> middleware \<Rightarrow> bool" where
  "keepsInv cfg f \<longleftrightarrow> (\<forall>a. appInv cfg a \<longrightarrow> appInv cfg (snd (f a)))"

lemma keepsInv_quiet: "(\<And>a. snd (f a) = a) \<Longrightarrow> keepsInv cfg f"
  by (simp add: keepsInv_def)

lemma keepsInv_admission: "keepsInv cfg (admissionGate cfg)"
  by (auto simp: keepsInv_def appInv_def admissionGate_def tryAcquire_def failWith_def)

lemma keepsInv_ipRate: "limitersOk cfg \<Longrightarrow> keepsInv cfg (ipRateGate cfg rq)"
  unfolding keepsInv_def
proof (intro allI impI)
  fix a assume "limitersOk cfg" "appInv cfg a"
  then show "appInv cfg (snd (ipRateGate cfg rq a))"
    using ipRateGate_keeps [of cfg rq a "fst (ipRateGate cfg rq a)" "snd (ipRateGate cfg rq a)"]
    by (auto simp: appInv_def limitersOk_def intro: consume_ok)
qed

lemma keepsInv_idRate: "limitersOk cfg \<Longrightarrow> keepsInv cfg (identityRateGate cfg rq)"
  unfolding keepsInv_def
proof (intro allI impI)
  fix a assume "limitersOk cfg" "appInv cfg a"
  then show "appInv cfg (snd (identityRateGate cfg rq a))"
    using identityRateGate_keeps [of cfg rq a "fst (identityRateGate cfg rq a)" "snd (identityRateGate cfg rq a)"]
    by (auto simp: appInv_def limitersOk_def intro: consume_ok)
qed

lemma keepsInv_replay: "keepsInv cfg (replayGate rq)"
  unfolding keepsInv_def
proof (intro allI impI)
  fix a assume a: "appInv cfg a"
  have r: "replayGate rq a = (fst (replayGate rq a), snd (replayGate rq a))" by simp
  show "appInv cfg (snd (replayGate rq a))"
    using a replayGate_cases [OF r] replayMiddleware_bound [of "apReplay a"] by (simp add: appInv_def)
qed

lemma keepsInv_routes: "keepsInv cfg (routes cfg rq)"
  unfolding keepsInv_def
proof (intro allI impI)
  fix a assume a: "appInv cfg a"
  have r: "routes cfg rq a = (fst (routes cfg rq a), snd (routes cfg rq a))" by simp
  show "appInv cfg (snd (routes cfg rq a))"
    using routes_effect [OF r] a storeStep_inv by (auto simp: appInv_def ownedEffect_def)
qed

lemma appReach_inv: "appReach cfg a \<Longrightarrow> limitersOk cfg \<Longrightarrow> appInv cfg a"
proof (induction rule: appReach.induct)
  case (app_starts g)
  have "storeInv (acStoreLimits cfg) emptyStore" by (rule storeReach_inv) (rule reach_empty)
  moreover have "0 < rgLimit g \<and> rgSeen g = []" using app_starts(1)
    by (auto simp: createReplayGuard_def result_simps positiveSafe_def safeInt_def orDefault_def REPLAY_CACHE_LIMIT_def)
  ultimately show ?case by (simp add: appInv_def createAdmissionTracker_def bucketsOk_def)
next
  case (app_middleware a f rq)
  have "list_all (keepsInv cfg) (ingress cfg rq @ signed cfg rq @ [routes cfg rq])"
    by (simp add: ingress_def signed_def keepsInv_quiet quiet_gates keepsInv_admission keepsInv_ipRate keepsInv_idRate
        keepsInv_replay keepsInv_routes app_middleware)
  then show ?case using app_middleware unfolding keepsInv_def list_all_iff by blast
next
  case (app_releases a)
  then show ?case by (auto simp: appInv_def releaseSlot_def notifyIdle_def)
qed (simp add: appInv_def)

text \<open>C14: A running service is bounded whatever clients send and however requests interleave: at most the
  configured number of requests holds a slot, the rate limiters hold at most their key bounds with
  counts within their limits, the replay window holds at most its limit of request ids, and the
  store satisfies its invariant.\<close>

theorem service_bounded:
  assumes "appReach cfg a" "limitersOk cfg"
  shows "tkActive (apTracker a) \<le> acMaxConcurrent cfg
    \<and> length (apIp a) \<le> lMaxKeys (acIpLimiter cfg) \<and> length (apId a) \<le> lMaxKeys (acIdLimiter cfg)
    \<and> length (rgSeen (apReplay a)) \<le> rgLimit (apReplay a)
    \<and> storeInv (acStoreLimits cfg) (apStore a)"
  using appReach_inv [OF assms] by (simp add: appInv_def bucketsOk_def)

theorem service_bounded_witness:
  "tkActive (apTracker (snd (serveRequest usageConfig usageRequest freshApp))) \<le> 10"
proof -
  have "createReplayGuard Undefined = Inr \<lparr>rgLimit = REPLAY_CACHE_LIMIT, rgSeen = []\<rparr>"
    by (simp add: createReplayGuard_def orDefault_def positiveSafe_def safeInt_def isSafeInteger_def REPLAY_CACHE_LIMIT_def)
  from app_starts [OF this] have r: "appReach usageConfig (snd (serveRequest usageConfig usageRequest freshApp))"
    by (intro app_serves) (simp add: freshApp_def)
  have l: "limitersOk usageConfig" by (simp add: limitersOk_def usageConfig_def limiterOk_def)
  from service_bounded [OF r l] show ?thesis by (simp add: usageConfig_def)
qed

end
