(* ===== verification/Config.thy ===== *)
theory Config
  imports ServiceInput Feeds
begin

section \<open>Service configuration\<close>

text \<open>
  The configuration parsers of \<open>src/service.ts\<close> (\<open>parseRetentionDays\<close> to
  \<open>validateServiceConfig\<close>) and \<open>loadServiceConfigFromEnv\<close>. The URL parser of the platform is the
  parameter \<open>parseUrl\<close>: the protocol and the origin of a text it accepts, \<open>None\<close> where the
  constructor throws. A set built in insertion order is a list without duplicates.
\<close>

subsection \<open>Constants\<close>

definition SERVICE_VERSION :: jsstr where "SERVICE_VERSION = js ''0.0.0-m2.2b.3''"
definition RATE_LIMIT_MIN_PER_WINDOW :: int where "RATE_LIMIT_MIN_PER_WINDOW = 2"
definition CLEANUP_INTERVAL_DEFAULT_MS :: int where "CLEANUP_INTERVAL_DEFAULT_MS = 300000"
definition CLEANUP_INTERVAL_MIN_MS :: int where "CLEANUP_INTERVAL_MIN_MS = 1000"
definition CLEANUP_OWNERS_MAX :: nat where "CLEANUP_OWNERS_MAX = 64"
definition SHUTDOWN_DRAIN_TIMEOUT_DEFAULT_MS :: int where "SHUTDOWN_DRAIN_TIMEOUT_DEFAULT_MS = 10000"
definition PRE_AUTH_RATE_PER_MIN_PER_IP :: int where "PRE_AUTH_RATE_PER_MIN_PER_IP = 300"
definition AUTH_RATE_PER_MIN_PER_IDENTITY :: int where "AUTH_RATE_PER_MIN_PER_IDENTITY = 1000"
definition MAX_CONCURRENT_REQUESTS :: int where "MAX_CONCURRENT_REQUESTS = 24"
definition DB_POOL_MAX :: int where "DB_POOL_MAX = 7"
definition MAX_HTTP_BODY_BYTES :: nat where "MAX_HTTP_BODY_BYTES = 4194304"

subsection \<open>Parsers of single settings\<close>

definition mysqlError :: "string \<Rightarrow> jserr" where
  "mysqlError msg = JsErr TypeError (Some (Other_Code ''ERR_MYSQL_CONFIG'')) msg"

definition absent :: "jsval \<Rightarrow> bool" where
  "absent v \<longleftrightarrow> v = Undefined \<or> v = Null \<or> v = Str []"

definition parseRetentionDays :: "jsval \<Rightarrow> jsstr result" where
  "parseRetentionDays v =
     (if absent v then Inr (js ''permanent'')
      else if jsTrim (toStr v) = js ''permanent'' then Inr (js ''permanent'')
      else Inl (configError ''retention must be permanent until finite retention enforcement is available''))"

text \<open>The entries of a list setting: an array, or a text split at commas.\<close>

definition listEntries :: "jsval \<Rightarrow> jsval list option" where
  "listEntries v = (case v of Arr vs \<Rightarrow> Some vs | Str s \<Rightarrow> Some (map Str (splitOn 0x2C s)) | _ \<Rightarrow> None)"

definition setAdd :: "'a \<Rightarrow> 'a list \<Rightarrow> 'a list" where
  "setAdd x xs = (if x \<in> set xs then xs else xs @ [x])"

definition originsMessage :: string where
  "originsMessage = ''allowedOrigins must be exact HTTPS origins''"

type_synonym url_parser = "jsstr \<Rightarrow> (jsstr \<times> jsstr) option"

fun collectOrigins :: "url_parser \<Rightarrow> jsval list \<Rightarrow> jsstr list \<Rightarrow> jsstr list result" where
  "collectOrigins parseUrl [] found = Inr found"
| "collectOrigins parseUrl (v # vs) found = (case v of
      Str s \<Rightarrow>
        (let candidate = jsTrim s in
         if candidate = [] then collectOrigins parseUrl vs found
         else case parseUrl candidate of
             None \<Rightarrow> Inl (configError originsMessage)
           | Some (protocol, origin) \<Rightarrow>
               if protocol \<noteq> js ''https:'' \<or> origin \<noteq> candidate then Inl (configError originsMessage)
               else collectOrigins parseUrl vs (setAdd origin found))
    | _ \<Rightarrow> Inl (configError originsMessage))"

definition parseAllowedOrigins :: "url_parser \<Rightarrow> jsval \<Rightarrow> jsstr list result" where
  "parseAllowedOrigins parseUrl v =
     (if absent v then Inr []
      else case listEntries v of
          None \<Rightarrow> Inl (configError originsMessage)
        | Some vs \<Rightarrow> collectOrigins parseUrl vs [])"

definition validatePort :: "jsval \<Rightarrow> int result" where
  "validatePort v =
     (let port = Number (toNum v) in
      if \<not> isSafeInteger port \<or> safeInt port < 1 \<or> 65535 < safeInt port
      then Inl (configError ''mysql port must be 1..65535'') else Inr (safeInt port))"

definition parseBoundedInteger :: "jsval \<Rightarrow> int \<Rightarrow> int \<Rightarrow> jserr \<Rightarrow> int result" where
  "parseBoundedInteger v fallback least err =
     (if absent v then Inr fallback
      else case v of
          Number _ \<Rightarrow> (let n = Number (toNum v) in
            if \<not> isSafeInteger n \<or> safeInt n < least then Inl err else Inr (safeInt n))
        | Str _ \<Rightarrow> (let n = Number (toNum v) in
            if \<not> isSafeInteger n \<or> safeInt n < least then Inl err else Inr (safeInt n))
        | _ \<Rightarrow> Inl err)"

definition parseMaxConcurrentRequests :: "jsval \<Rightarrow> int result" where
  "parseMaxConcurrentRequests v =
     parseBoundedInteger v MAX_CONCURRENT_REQUESTS 1 (configError ''maxConcurrentRequests must be a positive integer'')"

definition parseRatePerWindow :: "jsval \<Rightarrow> int \<Rightarrow> string \<Rightarrow> int result" where
  "parseRatePerWindow v fallback msg = parseBoundedInteger v fallback RATE_LIMIT_MIN_PER_WINDOW (configError msg)"

definition parseMysqlPool :: "jsval \<Rightarrow> (int \<times> int) result" where
  "parseMysqlPool v =
     (if v = Undefined \<or> v = Null then Inr (0, DB_POOL_MAX)
      else andThen (require (isRecord v)
             (mysqlError ''mysql pool must be finite integers with 0 <= min <= max'')) (\<lambda>_.
           andThen (parseBoundedInteger (field v ''min'') 0 0
             (mysqlError ''mysql pool min must be a non-negative integer'')) (\<lambda>lo.
           andThen (parseBoundedInteger (field v ''max'') DB_POOL_MAX 1
             (mysqlError ''mysql pool max must be a positive integer'')) (\<lambda>hi.
           andThen (require (lo \<le> hi)
             (mysqlError ''mysql pool must be finite integers with 0 <= min <= max'')) (\<lambda>_.
           Inr (lo, hi))))))"

definition parseCleanupInterval :: "jsval \<Rightarrow> int result" where
  "parseCleanupInterval v = parseBoundedInteger v CLEANUP_INTERVAL_DEFAULT_MS CLEANUP_INTERVAL_MIN_MS
     (configError ''cleanupIntervalMs must be an integer of at least 1000'')"

definition ownersMessage :: string where
  "ownersMessage = ''cleanupOwners must be identity keys''"

fun collectOwners :: "jsval list \<Rightarrow> jsstr list \<Rightarrow> jsstr list result" where
  "collectOwners [] found = Inr found"
| "collectOwners (v # vs) found = (case v of
      Str s \<Rightarrow>
        (let candidate = jsTrim s in
         if candidate = [] then collectOwners vs found
         else if \<not> isIdentityKey (Str candidate) then Inl (configError ownersMessage)
         else let found' = setAdd candidate found in
           if CLEANUP_OWNERS_MAX < length found'
           then Inl (configError ''cleanupOwners accepts at most 64 identity keys'')
           else collectOwners vs found')
    | _ \<Rightarrow> Inl (configError ownersMessage))"

definition parseCleanupOwners :: "jsval \<Rightarrow> jsstr list result" where
  "parseCleanupOwners v =
     (if absent v then Inr []
      else case listEntries v of
          None \<Rightarrow> Inl (configError ownersMessage)
        | Some vs \<Rightarrow> collectOwners vs [])"

definition parseShutdownDrainTimeout :: "jsval \<Rightarrow> int result" where
  "parseShutdownDrainTimeout v = parseBoundedInteger v SHUTDOWN_DRAIN_TIMEOUT_DEFAULT_MS 0
     (configError ''shutdownDrainTimeoutMs must be a non-negative integer'')"

subsection \<open>The whole configuration\<close>

record mysql_config =
  myHost :: jsstr
  myPort :: int
  myUser :: jsstr
  myPassword :: jsstr
  myDatabase :: jsstr
  myPool :: "int \<times> int"

record service_config =
  cfSecret :: jsstr
  cfMysql :: mysql_config
  cfRetention :: jsstr
  cfVersion :: jsstr
  cfOrigins :: "jsstr list"
  cfMaxConcurrent :: int
  cfPreAuthRate :: int
  cfAuthRate :: int
  cfTrustedProxy :: jsstr
  cfCleanupInterval :: int
  cfCleanupOwners :: "jsstr list"
  cfDrainTimeout :: int

definition presentStr :: "jsval \<Rightarrow> bool" where
  "presentStr v = (case v of Str s \<Rightarrow> s \<noteq> [] | _ \<Rightarrow> False)"

definition validateMysql :: "jsval \<Rightarrow> mysql_config result" where
  "validateMysql raw =
     andThen (require (isRecord raw) (mysqlError ''mysql configuration is required'')) (\<lambda>_.
     let user = field raw ''user''; password = field raw ''password''; database = field raw ''database'' in
     andThen (require (presentStr user \<and> presentStr password \<and> presentStr database)
       (mysqlError ''MySQL user/password/database are required (via env, never committed)'')) (\<lambda>_.
     let host = (if field raw ''host'' = Undefined then js ''127.0.0.1'' else toStr (field raw ''host'')) in
     andThen (require (host \<noteq> [] \<and> length host \<le> 255) (mysqlError ''mysql host is invalid'')) (\<lambda>_.
     andThen (if field raw ''port'' = Undefined then Inr 3306 else validatePort (field raw ''port'')) (\<lambda>port.
     andThen (parseMysqlPool (field raw ''pool'')) (\<lambda>pool.
     Inr \<lparr>myHost = host, myPort = port, myUser = strOf user, myPassword = strOf password,
          myDatabase = strOf database, myPool = pool\<rparr>)))))"

definition validateServiceConfig :: "url_parser \<Rightarrow> jsval \<Rightarrow> service_config result" where
  "validateServiceConfig parseUrl input =
     andThen (require (isRecord input) (configError ''service configuration must be an object'')) (\<lambda>_.
     let secret = field input ''serverSecret'' in
     andThen (require (case secret of Str s \<Rightarrow> 16 \<le> length s | _ \<Rightarrow> False) (configError ''serverSecret must be at least 16 chars'')) (\<lambda>_.
     andThen (validateMysql (field input ''mysql'')) (\<lambda>mysql.
     andThen (parseMaxConcurrentRequests (field input ''maxConcurrentRequests'')) (\<lambda>maxConcurrent.
     andThen (parseRatePerWindow (field input ''preAuthRatePerMinPerIp'') PRE_AUTH_RATE_PER_MIN_PER_IP
       ''preAuthRatePerMinPerIp must be an integer of at least 2'') (\<lambda>preAuth.
     andThen (parseRatePerWindow (field input ''authRatePerMinPerIdentity'') AUTH_RATE_PER_MIN_PER_IDENTITY
       ''authRatePerMinPerIdentity must be an integer of at least 2'') (\<lambda>auth.
     andThen (parseTrustedProxy (field input ''trustedProxy'')) (\<lambda>proxy.
     andThen (parseCleanupInterval (field input ''cleanupIntervalMs'')) (\<lambda>interval.
     andThen (parseCleanupOwners (field input ''cleanupOwners'')) (\<lambda>owners.
     andThen (parseShutdownDrainTimeout (field input ''shutdownDrainTimeoutMs'')) (\<lambda>drain.
     andThen (parseRetentionDays (orDefault (field input ''retention'') (field input ''retentionDays''))) (\<lambda>retention.
     let version = (if presentStr (field input ''version'') then strOf (field input ''version'') else SERVICE_VERSION) in
     andThen (parseAllowedOrigins parseUrl (field input ''allowedOrigins'')) (\<lambda>origins.
     Inr \<lparr>cfSecret = strOf secret, cfMysql = mysql, cfRetention = retention, cfVersion = version, cfOrigins = origins,
          cfMaxConcurrent = maxConcurrent, cfPreAuthRate = preAuth, cfAuthRate = auth, cfTrustedProxy = proxy,
          cfCleanupInterval = interval, cfCleanupOwners = owners, cfDrainTimeout = drain\<rparr>))))))))))))"

text \<open>The environment gives a text or nothing for every name.\<close>

definition envValue :: "(string \<Rightarrow> jsstr option) \<Rightarrow> string \<Rightarrow> jsval" where
  "envValue env name = (case env name of Some s \<Rightarrow> Str s | None \<Rightarrow> Undefined)"

definition loadServiceConfigFromEnv :: "url_parser \<Rightarrow> (string \<Rightarrow> jsstr option) \<Rightarrow> service_config result" where
  "loadServiceConfigFromEnv parseUrl env = validateServiceConfig parseUrl (Obj [
     (js ''serverSecret'', orDefault (envValue env ''MESSAGE_BOX_STORE_SERVER_SECRET'') (envValue env ''SERVER_SECRET'')),
     (js ''mysql'', Obj [
        (js ''host'', orDefault (envValue env ''MYSQL_HOST'') (Str (js ''127.0.0.1''))),
        (js ''port'', orDefault (envValue env ''MYSQL_PORT'') (IntNum 3306)),
        (js ''user'', envValue env ''MYSQL_USER''),
        (js ''password'', envValue env ''MYSQL_PASSWORD''),
        (js ''database'', envValue env ''MYSQL_DATABASE''),
        (js ''pool'', Obj [(js ''min'', envValue env ''MYSQL_POOL_MIN''), (js ''max'', envValue env ''MYSQL_POOL_MAX'')])]),
     (js ''retention'', orDefault (envValue env ''MESSAGE_BOX_STORE_RETENTION_DAYS'') (Str (js ''permanent''))),
     (js ''version'', orDefault (envValue env ''MESSAGE_BOX_STORE_VERSION'') (Str SERVICE_VERSION)),
     (js ''allowedOrigins'', envValue env ''MESSAGE_BOX_STORE_ALLOWED_ORIGINS''),
     (js ''maxConcurrentRequests'', envValue env ''MESSAGE_BOX_STORE_MAX_CONCURRENT_REQUESTS''),
     (js ''preAuthRatePerMinPerIp'', envValue env ''MESSAGE_BOX_STORE_PRE_AUTH_RATE_PER_MIN_PER_IP''),
     (js ''authRatePerMinPerIdentity'', envValue env ''MESSAGE_BOX_STORE_AUTH_RATE_PER_MIN_PER_IDENTITY''),
     (js ''trustedProxy'', envValue env ''MESSAGE_BOX_STORE_TRUSTED_PROXY''),
     (js ''cleanupIntervalMs'', envValue env ''MESSAGE_BOX_STORE_CLEANUP_INTERVAL_MS''),
     (js ''cleanupOwners'', envValue env ''MESSAGE_BOX_STORE_CLEANUP_OWNERS''),
     (js ''shutdownDrainTimeoutMs'', envValue env ''MESSAGE_BOX_STORE_SHUTDOWN_DRAIN_TIMEOUT_MS'')])"

subsection \<open>What is accepted\<close>

definition safeInteger :: "int \<Rightarrow> bool" where
  "safeInteger z \<longleftrightarrow> \<bar>z\<bar> \<le> 9007199254740991"

lemma isSafeInteger_safeInt: "isSafeInteger v \<Longrightarrow> safeInteger (safeInt v) \<and> v = IntNum (safeInt v)"
  by (auto simp: isSafeInteger_def safeInt_def safeInteger_def split: jsval.splits jsnum.splits)

lemma boundedInteger_ok:
  "parseBoundedInteger v d least e = Inr n \<Longrightarrow> least \<le> d \<Longrightarrow> safeInteger d \<Longrightarrow> least \<le> n \<and> safeInteger n"
  by (auto simp: parseBoundedInteger_def Let_def dest: isSafeInteger_safeInt split: if_splits jsval.splits)

lemma boundedInteger_error: "parseBoundedInteger v d least e = Inl e' \<Longrightarrow> e' = e"
  by (auto simp: parseBoundedInteger_def Let_def split: if_splits jsval.splits)

lemma setAdd_facts [simp]: "set (setAdd x xs) = insert x (set xs)" "distinct (setAdd x xs) = distinct xs"
  by (auto simp: setAdd_def)

lemma collectOwners_ok:
  "collectOwners vs found = Inr ws \<Longrightarrow> distinct found \<Longrightarrow> \<forall>w \<in> set found. isIdentityKey (Str w) \<Longrightarrow>
     length found \<le> CLEANUP_OWNERS_MAX \<Longrightarrow>
     distinct ws \<and> length ws \<le> CLEANUP_OWNERS_MAX \<and> (\<forall>w \<in> set ws. isIdentityKey (Str w))"
proof (induction vs found rule: collectOwners.induct)
  case (2 v vs found)
  show ?case
  proof (cases v)
    case (Str s)
    note ih = 2(1,2) [OF Str refl]
    show ?thesis
    proof (cases "jsTrim s = []")
      case True
      then show ?thesis using ih(1) 2(3-6) Str by simp
    next
      case False
      then show ?thesis using ih(2) [OF False _ refl] 2(3-6) Str
        by (auto simp: Let_def split: if_splits)
    qed
  qed (use 2(3) in auto)
qed simp

text \<open>An origin the platform's URL parser reads as itself, over HTTPS.\<close>

definition httpsOrigin :: "url_parser \<Rightarrow> jsstr \<Rightarrow> bool" where
  "httpsOrigin parseUrl w \<longleftrightarrow> parseUrl w = Some (js ''https:'', w)"

lemma collectOrigins_ok:
  "collectOrigins parseUrl vs found = Inr origins \<Longrightarrow> distinct found \<Longrightarrow> \<forall>w \<in> set found. httpsOrigin parseUrl w \<Longrightarrow>
     distinct origins \<and> (\<forall>w \<in> set origins. httpsOrigin parseUrl w)"
proof (induction parseUrl vs found rule: collectOrigins.induct)
  case (2 parseUrl v vs found)
  show ?case
  proof (cases v)
    case (Str s)
    show ?thesis
    proof (cases "jsTrim s = []")
      case True
      then show ?thesis using 2(1) [OF Str refl] 2(3-5) Str by simp
    next
      case False
      then obtain pr og where u: "parseUrl (jsTrim s) = Some (pr, og)" "pr = js ''https:''" "og = jsTrim s"
          "collectOrigins parseUrl vs (setAdd og found) = Inr origins"
        using 2(3) Str by (auto simp: Let_def split: option.splits if_splits)
      have "httpsOrigin parseUrl og" using u by (simp add: httpsOrigin_def)
      then show ?thesis using 2(2) [OF Str refl False u(1)] u 2(4,5) by simp
    qed
  qed (use 2(3) in auto)
qed simp

lemma mysqlPool_ok: "parseMysqlPool v = Inr (lo, hi) \<Longrightarrow>
    0 \<le> lo \<and> lo \<le> hi \<and> 1 \<le> hi \<and> safeInteger lo \<and> safeInteger hi"
  by (auto simp: parseMysqlPool_def result_simps DB_POOL_MAX_def safeInteger_def split: if_splits
      dest!: boundedInteger_ok)

definition mysqlOk :: "mysql_config \<Rightarrow> bool" where
  "mysqlOk m \<longleftrightarrow> myUser m \<noteq> [] \<and> myPassword m \<noteq> [] \<and> myDatabase m \<noteq> []
     \<and> myHost m \<noteq> [] \<and> length (myHost m) \<le> 255 \<and> 1 \<le> myPort m \<and> myPort m \<le> 65535
     \<and> 0 \<le> fst (myPool m) \<and> fst (myPool m) \<le> snd (myPool m) \<and> 1 \<le> snd (myPool m)"

lemma validateMysql_ok: "validateMysql raw = Inr m \<Longrightarrow> mysqlOk m"
  by (auto simp: validateMysql_def mysqlOk_def result_simps validatePort_def presentStr_def strOf_def Let_def
      split: if_splits jsval.splits prod.splits dest: mysqlPool_ok)

definition configOk :: "url_parser \<Rightarrow> service_config \<Rightarrow> bool" where
  "configOk parseUrl c \<longleftrightarrow> 16 \<le> length (cfSecret c) \<and> mysqlOk (cfMysql c) \<and> cfRetention c = js ''permanent''
     \<and> cfVersion c \<noteq> [] \<and> distinct (cfOrigins c) \<and> (\<forall>w \<in> set (cfOrigins c). httpsOrigin parseUrl w)
     \<and> 1 \<le> cfMaxConcurrent c \<and> 2 \<le> cfPreAuthRate c \<and> 2 \<le> cfAuthRate c \<and> 1000 \<le> cfCleanupInterval c
     \<and> 0 \<le> cfDrainTimeout c
     \<and> list_all safeInteger [cfMaxConcurrent c, cfPreAuthRate c, cfAuthRate c, cfCleanupInterval c, cfDrainTimeout c]
     \<and> (cfTrustedProxy c = [] \<or> normalizeIpLiteral (cfTrustedProxy c) = Some (cfTrustedProxy c))
     \<and> distinct (cfCleanupOwners c) \<and> length (cfCleanupOwners c) \<le> CLEANUP_OWNERS_MAX
     \<and> (\<forall>w \<in> set (cfCleanupOwners c). isIdentityKey (Str w))"

lemma trustedProxy_ok: "parseTrustedProxy v = Inr p \<Longrightarrow> p = [] \<or> normalizeIpLiteral p = Some p"
  by (auto simp: parseTrustedProxy_def dest: normalize_normalized split: if_splits jsval.splits option.splits)

lemma retention_ok: "parseRetentionDays v = Inr p \<Longrightarrow> p = js ''permanent''"
  by (auto simp: parseRetentionDays_def split: if_splits)

lemma cleanupOwners_ok: "parseCleanupOwners v = Inr ws \<Longrightarrow>
    distinct ws \<and> length ws \<le> CLEANUP_OWNERS_MAX \<and> (\<forall>w \<in> set ws. isIdentityKey (Str w))"
  by (auto simp: parseCleanupOwners_def split: if_splits option.splits dest!: collectOwners_ok)

lemma allowedOrigins_ok: "parseAllowedOrigins parseUrl v = Inr origins \<Longrightarrow>
    distinct origins \<and> (\<forall>w \<in> set origins. httpsOrigin parseUrl w)"
  by (auto simp: parseAllowedOrigins_def split: if_splits option.splits dest!: collectOrigins_ok)

lemmas config_constants = RATE_LIMIT_MIN_PER_WINDOW_def CLEANUP_INTERVAL_DEFAULT_MS_def CLEANUP_INTERVAL_MIN_MS_def
  SHUTDOWN_DRAIN_TIMEOUT_DEFAULT_MS_def PRE_AUTH_RATE_PER_MIN_PER_IP_def AUTH_RATE_PER_MIN_PER_IDENTITY_def
  MAX_CONCURRENT_REQUESTS_def safeInteger_def

lemmas config_parsers = parseMaxConcurrentRequests_def parseRatePerWindow_def parseCleanupInterval_def
  parseShutdownDrainTimeout_def

lemma config_integers:
  "parseMaxConcurrentRequests v = Inr n \<Longrightarrow> 1 \<le> n \<and> safeInteger n"
  "parseRatePerWindow v 300 msg = Inr n \<Longrightarrow> 2 \<le> n \<and> safeInteger n"
  "parseRatePerWindow v 1000 msg = Inr n \<Longrightarrow> 2 \<le> n \<and> safeInteger n"
  "parseCleanupInterval v = Inr n \<Longrightarrow> 1000 \<le> n \<and> safeInteger n"
  "parseShutdownDrainTimeout v = Inr n \<Longrightarrow> 0 \<le> n \<and> safeInteger n"
  unfolding config_parsers by (drule boundedInteger_ok; auto simp: config_constants)+

text \<open>C27: An accepted configuration is well-formed: the secret has at least sixteen characters, the
  MySQL settings are complete with a port and a pool in range, every bound is a safe integer at or
  above its least, the retention is permanent, the trusted proxy is empty or a normalised address,
  the cleanup owners are at most 64 distinct identity keys, and the origins are distinct and each is
  read by the platform's URL parser as the HTTPS origin it spells.\<close>

theorem accepted_config_ok:
  assumes "validateServiceConfig parseUrl input = Inr c"
  shows "configOk parseUrl c"
proof -
  let ?f = "field input"
  have m: "validateMysql (?f ''mysql'') = Inr (cfMysql c)"
    and parts: "parseMaxConcurrentRequests (?f ''maxConcurrentRequests'') = Inr (cfMaxConcurrent c)"
      "parseRatePerWindow (?f ''preAuthRatePerMinPerIp'') 300
        ''preAuthRatePerMinPerIp must be an integer of at least 2'' = Inr (cfPreAuthRate c)"
      "parseRatePerWindow (?f ''authRatePerMinPerIdentity'') 1000
        ''authRatePerMinPerIdentity must be an integer of at least 2'' = Inr (cfAuthRate c)"
      "parseTrustedProxy (?f ''trustedProxy'') = Inr (cfTrustedProxy c)"
      "parseCleanupInterval (?f ''cleanupIntervalMs'') = Inr (cfCleanupInterval c)"
      "parseCleanupOwners (?f ''cleanupOwners'') = Inr (cfCleanupOwners c)"
      "parseShutdownDrainTimeout (?f ''shutdownDrainTimeoutMs'') = Inr (cfDrainTimeout c)"
      "parseRetentionDays (orDefault (?f ''retention'') (?f ''retentionDays'')) = Inr (cfRetention c)"
      "parseAllowedOrigins parseUrl (?f ''allowedOrigins'') = Inr (cfOrigins c)"
    and v: "cfVersion c = (if presentStr (?f ''version'') then strOf (?f ''version'') else SERVICE_VERSION)"
    and s: "\<exists>x. ?f ''serverSecret'' = Str x \<and> 16 \<le> length x \<and> cfSecret c = x"
    using assms unfolding validateServiceConfig_def PRE_AUTH_RATE_PER_MIN_PER_IP_def AUTH_RATE_PER_MIN_PER_IDENTITY_def
    by (auto simp: result_simps Let_def strOf_def split: jsval.splits)
  have "cfVersion c \<noteq> []" unfolding v by (auto simp: presentStr_def strOf_def SERVICE_VERSION_def js_def split: jsval.splits)
  then show ?thesis using s validateMysql_ok [OF m] config_integers(1) [OF parts(1)] config_integers(2) [OF parts(2)]
      config_integers(3) [OF parts(3)] trustedProxy_ok [OF parts(4)] config_integers(4) [OF parts(5)]
      cleanupOwners_ok [OF parts(6)] config_integers(5) [OF parts(7)] retention_ok [OF parts(8)]
      allowedOrigins_ok [OF parts(9)]
    unfolding configOk_def by auto
qed

subsection \<open>What is rejected\<close>

definition configMessages :: "string list" where
  "configMessages = [''service configuration must be an object'', ''serverSecret must be at least 16 chars'',
     ''maxConcurrentRequests must be a positive integer'', ''preAuthRatePerMinPerIp must be an integer of at least 2'',
     ''authRatePerMinPerIdentity must be an integer of at least 2'', ''trustedProxy must be an exact IP address'',
     ''cleanupIntervalMs must be an integer of at least 1000'', ''cleanupOwners must be identity keys'',
     ''cleanupOwners accepts at most 64 identity keys'', ''shutdownDrainTimeoutMs must be a non-negative integer'',
     ''retention must be permanent until finite retention enforcement is available'',
     ''allowedOrigins must be exact HTTPS origins'', ''mysql port must be 1..65535'']"

definition mysqlMessages :: "string list" where
  "mysqlMessages = [''mysql configuration is required'',
     ''MySQL user/password/database are required (via env, never committed)'', ''mysql host is invalid'',
     ''mysql pool must be finite integers with 0 <= min <= max'', ''mysql pool min must be a non-negative integer'',
     ''mysql pool max must be a positive integer'']"

definition genericConfigError :: "jserr \<Rightarrow> bool" where
  "genericConfigError e \<longleftrightarrow> (\<exists>m \<in> set configMessages. e = configError m) \<or> (\<exists>m \<in> set mysqlMessages. e = mysqlError m)"

lemma config_messages:
  "genericConfigError (configError ''service configuration must be an object'')"
  "genericConfigError (configError ''serverSecret must be at least 16 chars'')"
  "genericConfigError (configError ''maxConcurrentRequests must be a positive integer'')"
  "genericConfigError (configError ''preAuthRatePerMinPerIp must be an integer of at least 2'')"
  "genericConfigError (configError ''authRatePerMinPerIdentity must be an integer of at least 2'')"
  "genericConfigError (configError ''trustedProxy must be an exact IP address'')"
  "genericConfigError (configError ''cleanupIntervalMs must be an integer of at least 1000'')"
  "genericConfigError (configError ownersMessage)"
  "genericConfigError (configError ''cleanupOwners accepts at most 64 identity keys'')"
  "genericConfigError (configError ''shutdownDrainTimeoutMs must be a non-negative integer'')"
  "genericConfigError (configError ''retention must be permanent until finite retention enforcement is available'')"
  "genericConfigError (configError originsMessage)"
  "genericConfigError (configError ''mysql port must be 1..65535'')"
  by (simp_all only: genericConfigError_def configMessages_def ownersMessage_def originsMessage_def list.set bex_simps simp_thms
      insert_iff)

lemma mysql_messages:
  "genericConfigError (mysqlError ''mysql configuration is required'')"
  "genericConfigError (mysqlError ''MySQL user/password/database are required (via env, never committed)'')"
  "genericConfigError (mysqlError ''mysql host is invalid'')"
  "genericConfigError (mysqlError ''mysql pool must be finite integers with 0 <= min <= max'')"
  "genericConfigError (mysqlError ''mysql pool min must be a non-negative integer'')"
  "genericConfigError (mysqlError ''mysql pool max must be a positive integer'')"
  by (simp_all only: genericConfigError_def mysqlMessages_def list.set bex_simps simp_thms insert_iff)

lemma collectOwners_error: "collectOwners vs found = Inl e \<Longrightarrow> genericConfigError e"
  by (induction vs found rule: collectOwners.induct)
    (auto simp: Let_def config_messages split: jsval.splits if_splits)

lemma collectOrigins_error: "collectOrigins parseUrl vs found = Inl e \<Longrightarrow> genericConfigError e"
  by (induction parseUrl vs found rule: collectOrigins.induct)
    (auto simp: Let_def config_messages split: jsval.splits if_splits option.splits)

lemma parser_errors:
  "parseMaxConcurrentRequests v = Inl e \<Longrightarrow> genericConfigError e"
  "parseRatePerWindow v d ''preAuthRatePerMinPerIp must be an integer of at least 2'' = Inl e \<Longrightarrow> genericConfigError e"
  "parseRatePerWindow v d ''authRatePerMinPerIdentity must be an integer of at least 2'' = Inl e \<Longrightarrow> genericConfigError e"
  "parseCleanupInterval v = Inl e \<Longrightarrow> genericConfigError e"
  "parseShutdownDrainTimeout v = Inl e \<Longrightarrow> genericConfigError e"
  unfolding config_parsers by (drule boundedInteger_error; simp only: config_messages)+

lemma list_errors:
  "parseCleanupOwners v = Inl e \<Longrightarrow> genericConfigError e"
  "parseAllowedOrigins parseUrl v = Inl e \<Longrightarrow> genericConfigError e"
  "parseTrustedProxy v = Inl e \<Longrightarrow> genericConfigError e"
  "parseRetentionDays v = Inl e \<Longrightarrow> genericConfigError e"
  by (auto simp: parseCleanupOwners_def parseAllowedOrigins_def parseTrustedProxy_def parseRetentionDays_def config_messages
      split: if_splits option.splits jsval.splits dest: collectOwners_error collectOrigins_error)

lemma validateMysql_error: "validateMysql raw = Inl e \<Longrightarrow> genericConfigError e"
  by (auto simp: validateMysql_def parseMysqlPool_def validatePort_def result_simps Let_def mysql_messages config_messages
      split: if_splits dest!: boundedInteger_error)

text \<open>A rejected configuration never leaks: whatever the input holds, the error is one of nineteen fixed
  messages with one of the two configuration codes, and none of them carries any of the input.\<close>

theorem config_errors_generic:
  assumes "validateServiceConfig parseUrl input = Inl e"
  shows "genericConfigError e \<and> err_class e = TypeError
    \<and> err_code e \<in> {Some (Other_Code ''ERR_STORAGE_CONFIGURATION''), Some (Other_Code ''ERR_MYSQL_CONFIG'')}"
proof -
  have "genericConfigError e" using assms unfolding validateServiceConfig_def
    by (auto simp: result_simps Let_def config_messages parser_errors list_errors validateMysql_error)
  then show ?thesis by (auto simp: genericConfigError_def configError_def mysqlError_def)
qed

theorem config_errors_generic_witness:
  "err_msg (projl (validateServiceConfig (\<lambda>s. None) (Obj [(js ''serverSecret'', Str (js ''short''))])))
     = ''serverSecret must be at least 16 chars'' \<and>
   genericConfigError (projl (validateServiceConfig (\<lambda>s. None) (Obj [(js ''serverSecret'', Str (js ''short''))])))"
proof -
  have "validateServiceConfig (\<lambda>s. None) (Obj [(js ''serverSecret'', Str (js ''short''))]) =
      Inl (configError ''serverSecret must be at least 16 chars'')"
    by (simp add: validateServiceConfig_def isRecord_def field_def getProp_def js_def Let_def)
  from config_errors_generic [OF this] this show ?thesis by (simp add: configError_def)
qed

subsection \<open>The environment and its defaults\<close>

definition bareEnv :: "string \<Rightarrow> jsstr option" where
  "bareEnv name =
     (if name = ''MESSAGE_BOX_STORE_SERVER_SECRET'' then Some (js ''0123456789abcdef'')
      else if name = ''MYSQL_USER'' then Some (js ''u'') else if name = ''MYSQL_PASSWORD'' then Some (js ''p'')
      else if name = ''MYSQL_DATABASE'' then Some (js ''d'') else None)"

text \<open>The names of the environment that only override a default.\<close>

definition optionalNames :: "string list" where
  "optionalNames = [''MYSQL_HOST'', ''MYSQL_PORT'', ''MYSQL_POOL_MIN'', ''MYSQL_POOL_MAX'',
     ''MESSAGE_BOX_STORE_RETENTION_DAYS'', ''MESSAGE_BOX_STORE_VERSION'', ''MESSAGE_BOX_STORE_ALLOWED_ORIGINS'',
     ''MESSAGE_BOX_STORE_MAX_CONCURRENT_REQUESTS'', ''MESSAGE_BOX_STORE_PRE_AUTH_RATE_PER_MIN_PER_IP'',
     ''MESSAGE_BOX_STORE_AUTH_RATE_PER_MIN_PER_IDENTITY'', ''MESSAGE_BOX_STORE_TRUSTED_PROXY'',
     ''MESSAGE_BOX_STORE_CLEANUP_INTERVAL_MS'', ''MESSAGE_BOX_STORE_CLEANUP_OWNERS'',
     ''MESSAGE_BOX_STORE_SHUTDOWN_DRAIN_TIMEOUT_MS'']"

lemma optional_absent:
  assumes "\<forall>n \<in> set optionalNames. env n = None"
  shows "envValue env ''MYSQL_HOST'' = Undefined" "envValue env ''MYSQL_PORT'' = Undefined"
    "envValue env ''MYSQL_POOL_MIN'' = Undefined" "envValue env ''MYSQL_POOL_MAX'' = Undefined"
    "envValue env ''MESSAGE_BOX_STORE_RETENTION_DAYS'' = Undefined" "envValue env ''MESSAGE_BOX_STORE_VERSION'' = Undefined"
    "envValue env ''MESSAGE_BOX_STORE_ALLOWED_ORIGINS'' = Undefined"
    "envValue env ''MESSAGE_BOX_STORE_MAX_CONCURRENT_REQUESTS'' = Undefined"
    "envValue env ''MESSAGE_BOX_STORE_PRE_AUTH_RATE_PER_MIN_PER_IP'' = Undefined"
    "envValue env ''MESSAGE_BOX_STORE_AUTH_RATE_PER_MIN_PER_IDENTITY'' = Undefined"
    "envValue env ''MESSAGE_BOX_STORE_TRUSTED_PROXY'' = Undefined"
    "envValue env ''MESSAGE_BOX_STORE_CLEANUP_INTERVAL_MS'' = Undefined"
    "envValue env ''MESSAGE_BOX_STORE_CLEANUP_OWNERS'' = Undefined"
    "envValue env ''MESSAGE_BOX_STORE_SHUTDOWN_DRAIN_TIMEOUT_MS'' = Undefined"
  using assms by (simp_all add: optionalNames_def envValue_def)

lemma fields_cons: "field (Obj ((k, v) # ps)) n = (if k = js n then v else field (Obj ps) n)" "field (Obj []) n = Undefined"
  by (simp_all add: field_def getProp_def)

lemma js_eq [simp]: "js a = js b \<longleftrightarrow> map of_char a = (map of_char b :: jsstr)"
  by (simp add: js_def)

text \<open>A configuration that only names the secret and the database credentials has every default.\<close>

lemma env_defaults:
  assumes "\<forall>n \<in> set optionalNames. env n = None"
    and "env ''MESSAGE_BOX_STORE_SERVER_SECRET'' = Some s" "16 \<le> length s"
    and "env ''MYSQL_USER'' = Some u" "env ''MYSQL_PASSWORD'' = Some p" "env ''MYSQL_DATABASE'' = Some d"
    and "u \<noteq> []" "p \<noteq> []" "d \<noteq> []"
  shows "loadServiceConfigFromEnv parseUrl env = Inr \<lparr>cfSecret = s,
     cfMysql = \<lparr>myHost = js ''127.0.0.1'', myPort = 3306, myUser = u, myPassword = p, myDatabase = d, myPool = (0, 7)\<rparr>,
     cfRetention = js ''permanent'', cfVersion = SERVICE_VERSION, cfOrigins = [], cfMaxConcurrent = 24,
     cfPreAuthRate = 300, cfAuthRate = 1000, cfTrustedProxy = [], cfCleanupInterval = 300000, cfCleanupOwners = [],
     cfDrainTimeout = 10000\<rparr>"
proof -
  have given: "envValue env ''MESSAGE_BOX_STORE_SERVER_SECRET'' = Str s" "envValue env ''MYSQL_USER'' = Str u"
    "envValue env ''MYSQL_PASSWORD'' = Str p" "envValue env ''MYSQL_DATABASE'' = Str d"
    using assms by (simp_all add: envValue_def)
  have od: "orDefault Undefined v = v" "orDefault (Str s) v = Str s" "absent Undefined" for s v
    by (simp_all add: orDefault_def absent_def)
  have port: "validatePort (Number (Fin 3306)) = Inr 3306"
    by (simp add: validatePort_def toNum_def isSafeInteger_def safeInt_def Let_def)
  have pool: "parseMysqlPool (Obj [(js ''min'', Undefined), (js ''max'', Undefined)]) = Inr (0, 7)"
    by (simp add: parseMysqlPool_def isRecord_def fields_cons parseBoundedInteger_def od DB_POOL_MAX_def)
  have mysql: "validateMysql (Obj [(js ''host'', Str (js ''127.0.0.1'')), (js ''port'', Number (Fin 3306)), (js ''user'', Str u),
      (js ''password'', Str p), (js ''database'', Str d), (js ''pool'', Obj [(js ''min'', Undefined), (js ''max'', Undefined)])]) =
      Inr \<lparr>myHost = js ''127.0.0.1'', myPort = 3306, myUser = u, myPassword = p, myDatabase = d, myPool = (0, 7)\<rparr>"
    using assms(7-9)
    by (simp add: validateMysql_def isRecord_def fields_cons presentStr_def strOf_def port pool Let_def) (simp add: js_def)
  have ret: "parseRetentionDays (Str (js ''permanent'')) = Inr (js ''permanent'')"
    by (simp add: parseRetentionDays_def absent_def jsTrim_def js_def isTrimmed_def)
  have none: "parseTrustedProxy Undefined = Inr []" "parseCleanupOwners Undefined = Inr []"
    "parseAllowedOrigins parseUrl Undefined = Inr []"
    by (simp_all add: parseTrustedProxy_def parseCleanupOwners_def parseAllowedOrigins_def absent_def)
  have ver: "presentStr (Str SERVICE_VERSION)" by (simp add: presentStr_def SERVICE_VERSION_def js_def)
  show ?thesis using assms(3) unfolding loadServiceConfigFromEnv_def optional_absent [OF assms(1)] given od
    by (simp add: validateServiceConfig_def isRecord_def fields_cons mysql config_parsers parseBoundedInteger_def od none
        ret ver strOf_def config_constants Let_def)
qed

theorem accepted_config_ok_witness:
  "\<exists>c. loadServiceConfigFromEnv (\<lambda>s. None) bareEnv = Inr c \<and> configOk (\<lambda>s. None) c \<and> cfMaxConcurrent c = 24"
proof -
  have opt: "\<forall>n \<in> set optionalNames. bareEnv n = None" by (simp add: optionalNames_def bareEnv_def)
  obtain c where c: "loadServiceConfigFromEnv (\<lambda>s. None) bareEnv = Inr c" "cfMaxConcurrent c = 24"
    using env_defaults [OF opt, of "js ''0123456789abcdef''" "js ''u''" "js ''p''" "js ''d''"]
    by (simp add: bareEnv_def js_def)
  then show ?thesis using accepted_config_ok [OF c(1) [unfolded loadServiceConfigFromEnv_def]] by blast
qed

end
