(* ===== verification/Cleanup.thy ===== *)
theory Cleanup
  imports StoreReach Guards
begin

section \<open>The cleanup pass and its scheduler\<close>

text \<open>
  \<open>createRepositoryCleanup\<close> and \<open>createCleanupScheduler\<close> of \<open>src/service.ts\<close>: one bounded pass over
  the purges of the repository (here the memory repository), its redacted outcome, and the
  scheduler as a state machine. The scheduler's environment is part of the state: the armed timers,
  the passes in flight, and the continuations \<open>then(scheduleNext)\<close> that wait for a pass. A timer and
  a pass are numbers. Durations are left out of an outcome.
\<close>

subsection \<open>One pass\<close>

definition toBoundedCount :: "jsval \<Rightarrow> int" where
  "toBoundedCount v = (if isSafeInteger v \<and> 0 \<le> safeInt v then safeInt v else 0)"

record cleanup_result =
  crSnapshots :: int
  crItems :: int
  crChanges :: int
  crHasMore :: bool

fun purgeOwners :: "(jsstr \<Rightarrow> int option) \<Rightarrow> jsstr \<Rightarrow> jsstr list \<Rightarrow> int \<Rightarrow> bool \<Rightarrow> (int \<times> bool) op" where
  "purgeOwners dateParse now [] n hm = opReturn (n, hm)"
| "purgeOwners dateParse now (own # rest) n hm =
     opBind (purgeExpiredChanges dateParse (Some own) now (Some SNAPSHOT_PURGE_BATCH)
               (Some SNAPSHOT_PURGE_MAX_ITEMS_PER_CALL)) (\<lambda>c.
     purgeOwners dateParse now rest (n + toBoundedCount (IntNum (int (cpPurged c)))) (hm \<or> cpHasMore c))"

definition runCleanupPass :: "(jsstr \<Rightarrow> int option) \<Rightarrow> jsstr list \<Rightarrow> jsstr \<Rightarrow> cleanup_result op" where
  "runCleanupPass dateParse cleanupOwners stamp =
     opBind (purgeExpiredSnapshots stamp (Some SNAPSHOT_PURGE_BATCH) (Some SNAPSHOT_PURGE_MAX_ITEMS_PER_CALL)
               (Some SNAPSHOT_PURGE_MAX_SNAPSHOTS_PER_CALL)) (\<lambda>sn.
     opBind (purgeOwners dateParse stamp cleanupOwners 0 False) (\<lambda>(n, hm).
     opReturn \<lparr>crSnapshots = toBoundedCount (IntNum (int (puSnapshots sn))),
       crItems = toBoundedCount (IntNum (int (puItems sn))), crChanges = n, crHasMore = puHasMore sn \<or> hm\<rparr>))"

text \<open>\<open>/^ERR_[A-Z0-9_]\{1,64\}$/\<close>; the named codes all match it.\<close>

definition errCodeRe :: "string \<Rightarrow> bool" where
  "errCodeRe s \<longleftrightarrow> take 4 s = ''ERR_'' \<and> 1 \<le> length (drop 4 s) \<and> length (drop 4 s) \<le> 64
     \<and> list_all (\<lambda>c. 65 \<le> (of_char c :: nat) \<and> (of_char c :: nat) \<le> 90
       \<or> 48 \<le> (of_char c :: nat) \<and> (of_char c :: nat) \<le> 57 \<or> c = CHR ''_'') (drop 4 s)"

definition safeCleanupErrorCode :: "jserr \<Rightarrow> code" where
  "safeCleanupErrorCode e = (case err_code e of
      None \<Rightarrow> ERR_UNAVAILABLE
    | Some (Other_Code s) \<Rightarrow> if errCodeRe s then Other_Code s else ERR_UNAVAILABLE
    | Some c \<Rightarrow> c)"

record cleanup_outcome =
  coOk :: bool
  coSnapshots :: int
  coItems :: int
  coChanges :: int
  coHasMore :: bool
  coErrorCode :: "code option"

definition outcomeOf :: "cleanup_result result \<Rightarrow> cleanup_outcome" where
  "outcomeOf r = (case r of
      Inr x \<Rightarrow> \<lparr>coOk = True, coSnapshots = toBoundedCount (IntNum (crSnapshots x)), coItems = toBoundedCount (IntNum (crItems x)),
        coChanges = toBoundedCount (IntNum (crChanges x)), coHasMore = crHasMore x, coErrorCode = None\<rparr>
    | Inl e \<Rightarrow> \<lparr>coOk = False, coSnapshots = 0, coItems = 0, coChanges = 0, coHasMore = False,
        coErrorCode = Some (safeCleanupErrorCode e)\<rparr>)"

subsection \<open>The scheduler\<close>

record scheduler =
  scStopped :: bool
  scTimer :: "nat option"
  scRun :: "nat option"
  scFresh :: nat
  evTimers :: "nat list"
  evRuns :: "nat list"
  evJoins :: "nat list"
  evOutcomes :: "cleanup_outcome list"

definition createCleanupScheduler :: "jsval \<Rightarrow> scheduler result" where
  "createCleanupScheduler intervalMs =
     andThen (require (positiveSafe intervalMs)
       (type_error ''cleanup scheduler intervalMs must be a positive safe integer'')) (\<lambda>_.
     Inr \<lparr>scStopped = True, scTimer = None, scRun = None, scFresh = 0, evTimers = [], evRuns = [],
       evJoins = [], evOutcomes = []\<rparr>)"

definition scheduleNext :: "scheduler \<Rightarrow> scheduler" where
  "scheduleNext s = (if scStopped s \<or> scTimer s \<noteq> None then s
     else s\<lparr>scTimer := Some (scFresh s), evTimers := evTimers s @ [scFresh s], scFresh := scFresh s + 1\<rparr>)"

text \<open>The pass joined or started, with the state after it.\<close>

definition executePass :: "scheduler \<Rightarrow> nat \<times> scheduler" where
  "executePass s = (case scRun s of
      Some r \<Rightarrow> (r, s)
    | None \<Rightarrow> (scFresh s, s\<lparr>scRun := Some (scFresh s), evRuns := evRuns s @ [scFresh s], scFresh := scFresh s + 1\<rparr>))"

definition onTick :: "scheduler \<Rightarrow> scheduler" where
  "onTick s = (let s1 = s\<lparr>scTimer := None\<rparr> in
     if scStopped s1 then s1
     else let (r, s2) = executePass s1 in s2\<lparr>evJoins := evJoins s2 @ [r]\<rparr>)"

definition startScheduler :: "scheduler \<Rightarrow> scheduler" where
  "startScheduler s = (if \<not> scStopped s then s else scheduleNext (s\<lparr>scStopped := False\<rparr>))"

definition runNow :: "scheduler \<Rightarrow> nat option \<times> scheduler" where
  "runNow s = (if scStopped s then (None, s) else let (r, s1) = executePass s in (Some r, s1))"

record stop_result =
  srCancelled :: bool
  srDrained :: "bool option"

text \<open>\<open>stop\<close> up to its wait: \<open>srDrained\<close> is \<open>None\<close> while the result still depends on which of the
  pass and the stop timer ends first.\<close>

definition stopScheduler :: "jsval \<Rightarrow> scheduler \<Rightarrow> stop_result result \<times> scheduler" where
  "stopScheduler timeoutMs s =
     (let t = orDefault timeoutMs (IntNum 5000) in
      if \<not> (isSafeInteger t \<and> 0 \<le> safeInt t)
      then (Inl (type_error ''cleanup stop timeoutMs must be a non-negative safe integer''), s)
      else
        let s1 = (case scTimer s of
            Some h \<Rightarrow> s\<lparr>scStopped := True, evTimers := filter (\<lambda>x. x \<noteq> h) (evTimers s), scTimer := None\<rparr>
          | None \<Rightarrow> s\<lparr>scStopped := True\<rparr>)
        in (Inr \<lparr>srCancelled = (scTimer s \<noteq> None),
              srDrained = (if scRun s1 = None then Some True else if safeInt t = 0 then Some False else None)\<rparr>, s1))"

text \<open>The end of pass \<open>r\<close>: the continuation registered by \<open>execute\<close>.\<close>

definition passEnds :: "nat \<Rightarrow> cleanup_result result \<Rightarrow> scheduler \<Rightarrow> scheduler" where
  "passEnds r res s =
     s\<lparr>evRuns := filter (\<lambda>x. x \<noteq> r) (evRuns s), scRun := (if scRun s = Some r then None else scRun s),
       evOutcomes := evOutcomes s @ [outcomeOf res]\<rparr>"

datatype sched_event =
    Start | Tick nat | RunNow | Stop jsval | PassEnds nat "cleanup_result result" | Joined nat

text \<open>Events as they can happen: only an armed timer fires, only a pass in flight ends, and a
  continuation runs after its pass has ended.\<close>

inductive schedStep :: "scheduler \<Rightarrow> sched_event \<Rightarrow> scheduler \<Rightarrow> bool" where
  sched_start: "schedStep s Start (startScheduler s)"
| sched_tick: "h \<in> set (evTimers s) \<Longrightarrow>
     schedStep s (Tick h) (onTick (s\<lparr>evTimers := filter (\<lambda>x. x \<noteq> h) (evTimers s)\<rparr>))"
| sched_runNow: "schedStep s RunNow (snd (runNow s))"
| sched_stop: "schedStep s (Stop t) (snd (stopScheduler t s))"
| sched_ends: "r \<in> set (evRuns s) \<Longrightarrow> schedStep s (PassEnds r res) (passEnds r res s)"
| sched_joined: "r \<in> set (evJoins s) \<Longrightarrow> r \<notin> set (evRuns s) \<Longrightarrow>
     schedStep s (Joined r) (scheduleNext (s\<lparr>evJoins := remove1 r (evJoins s)\<rparr>))"

inductive schedReach :: "scheduler \<Rightarrow> bool" where
  sched_init: "createCleanupScheduler i = Inr s \<Longrightarrow> schedReach s"
| sched_next: "schedReach s \<Longrightarrow> schedStep s e s' \<Longrightarrow> schedReach s'"

definition schedInv :: "scheduler \<Rightarrow> bool" where
  "schedInv s \<longleftrightarrow> evTimers s = (case scTimer s of None \<Rightarrow> [] | Some h \<Rightarrow> [h])
     \<and> evRuns s = (case scRun s of None \<Rightarrow> [] | Some r \<Rightarrow> [r])
     \<and> (scStopped s \<longrightarrow> scTimer s = None)
     \<and> (\<not> scStopped s \<longrightarrow> scTimer s \<noteq> None \<or> evJoins s \<noteq> [])"

lemma scheduleNext_inv:
  "evTimers s = (case scTimer s of None \<Rightarrow> [] | Some h \<Rightarrow> [h]) \<Longrightarrow>
   evRuns s = (case scRun s of None \<Rightarrow> [] | Some r \<Rightarrow> [r]) \<Longrightarrow>
   (scStopped s \<longrightarrow> scTimer s = None) \<Longrightarrow> schedInv (scheduleNext s)"
  by (auto simp: schedInv_def scheduleNext_def)

lemma executePass_inv: "schedInv s \<Longrightarrow> schedInv (snd (executePass s))"
  by (auto simp: schedInv_def executePass_def split: option.splits)

lemma schedStep_inv: "schedStep s e s' \<Longrightarrow> schedInv s \<Longrightarrow> schedInv s'"
proof (induction rule: schedStep.induct)
  case (sched_start s)
  then have "scStopped s \<Longrightarrow> schedInv (scheduleNext (s\<lparr>scStopped := False\<rparr>))"
    by (intro scheduleNext_inv) (auto simp: schedInv_def)
  with sched_start show ?case by (simp add: startScheduler_def)
next
  case (sched_tick h s)
  then have "scTimer s = Some h" "evTimers s = [h]" "\<not> scStopped s"
    by (auto simp: schedInv_def split: option.splits)
  then show ?case using sched_tick
    by (auto simp: schedInv_def onTick_def executePass_def Let_def split: option.splits)
next
  case (sched_runNow s)
  then show ?case using executePass_inv by (auto simp: runNow_def split: prod.splits) (metis snd_conv)
next
  case (sched_stop s t)
  then show ?case by (auto simp: schedInv_def stopScheduler_def Let_def split: option.splits)
next
  case (sched_ends r s res)
  then show ?case by (auto simp: schedInv_def passEnds_def split: option.splits)
next
  case (sched_joined r s)
  then show ?case by (intro scheduleNext_inv) (auto simp: schedInv_def)
qed

lemma schedReach_inv: "schedReach s \<Longrightarrow> schedInv s"
proof (induction rule: schedReach.induct)
  case (sched_init i s)
  then show ?case by (auto simp: createCleanupScheduler_def schedInv_def result_simps)
qed (rule schedStep_inv)

text \<open>C21: Passes never overlap and ticks never pile up: in every reachable state at most one pass is in
  flight and at most one timer armed, and after a stop no timer is armed, whatever starts, stops,
  manual runs and ends came before, in any order.\<close>

theorem scheduler_single_run:
  assumes "schedReach s"
  shows "length (evRuns s) \<le> 1 \<and> length (evTimers s) \<le> 1 \<and> (scStopped s \<longrightarrow> evTimers s = [])
    \<and> (scStopped s \<longrightarrow> snd (runNow s) = s)"
  using schedReach_inv [OF assms] by (auto simp: schedInv_def runNow_def split: option.splits)

definition busyScheduler :: scheduler where
  "busyScheduler = \<lparr>scStopped = False, scTimer = None, scRun = Some (Suc 0), scFresh = Suc (Suc 0), evTimers = [], evRuns = [Suc 0],
     evJoins = [Suc 0], evOutcomes = []\<rparr>"

lemma busy_reach: "schedReach busyScheduler"
proof -
  define s0 where "s0 = \<lparr>scStopped = True, scTimer = None, scRun = None, scFresh = 0, evTimers = [], evRuns = [],
       evJoins = [], evOutcomes = []\<rparr>"
  have "createCleanupScheduler (IntNum 1000) = Inr s0"
    by (simp add: createCleanupScheduler_def positiveSafe_def isSafeInteger_def s0_def)
  then have "schedReach s0" by (rule sched_init)
  then have 1: "schedReach (startScheduler s0)" by (rule sched_next [OF _ sched_start])
  have "0 \<in> set (evTimers (startScheduler s0))" by (simp add: startScheduler_def scheduleNext_def s0_def)
  from sched_next [OF 1 sched_tick [OF this]] show ?thesis
    by (simp add: startScheduler_def scheduleNext_def s0_def onTick_def executePass_def busyScheduler_def)
qed

theorem scheduler_single_run_witness:
  "length (evRuns (snd (runNow busyScheduler))) \<le> 1"
  using scheduler_single_run [OF sched_next [OF busy_reach sched_runNow]] by blast

text \<open>A started scheduler never stalls: from every reachable state that is not stopped, the ends of
  the pass in flight and of its continuation alone lead to a state where the next tick is armed,
  whether that pass succeeds or fails.\<close>

theorem scheduler_rearms:
  assumes "schedReach s" "\<not> scStopped s"
  shows "length (evTimers s) = 1 \<or>
    (\<exists>r \<in> set (evJoins s). \<forall>res. \<exists>s1 s2. (r \<in> set (evRuns s) \<and> schedStep s (PassEnds r res) s1 \<or> r \<notin> set (evRuns s) \<and> s1 = s)
       \<and> schedStep s1 (Joined r) s2 \<and> \<not> scStopped s2 \<and> length (evTimers s2) = 1)"
proof (cases "scTimer s")
  case (Some h)
  then show ?thesis using schedReach_inv [OF assms(1)] by (simp add: schedInv_def)
next
  case None
  have inv: "schedInv s" using assms(1) by (rule schedReach_inv)
  then obtain r where r: "r \<in> set (evJoins s)" using None assms(2) by (cases "evJoins s") (auto simp: schedInv_def)
  have t: "evTimers s = []" using inv None by (simp add: schedInv_def)
  have "\<exists>s1 s2. (r \<in> set (evRuns s) \<and> schedStep s (PassEnds r res) s1 \<or> r \<notin> set (evRuns s) \<and> s1 = s)
       \<and> schedStep s1 (Joined r) s2 \<and> \<not> scStopped s2 \<and> length (evTimers s2) = 1" for res
  proof -
    define s1 where "s1 = (if r \<in> set (evRuns s) then passEnds r res s else s)"
    have s1: "evJoins s1 = evJoins s" "r \<notin> set (evRuns s1)" "scTimer s1 = None" "\<not> scStopped s1" "evTimers s1 = []"
      using None t assms(2) by (simp_all add: s1_def passEnds_def)
    then have "schedStep s1 (Joined r) (scheduleNext (s1\<lparr>evJoins := remove1 r (evJoins s1)\<rparr>))"
      using r by (intro sched_joined) simp_all
    moreover have "r \<in> set (evRuns s) \<and> schedStep s (PassEnds r res) s1 \<or> r \<notin> set (evRuns s) \<and> s1 = s"
      by (auto simp: s1_def intro: sched_ends)
    moreover have "\<not> scStopped (scheduleNext (s1\<lparr>evJoins := remove1 r (evJoins s1)\<rparr>))
        \<and> length (evTimers (scheduleNext (s1\<lparr>evJoins := remove1 r (evJoins s1)\<rparr>))) = 1"
      using s1 by (simp add: scheduleNext_def)
    ultimately show ?thesis by blast
  qed
  then show ?thesis using r by blast
qed

theorem scheduler_rearms_witness:
  "\<exists>s1 s2. schedStep busyScheduler (PassEnds 1 (Inl (type_error ''x''))) s1 \<and> schedStep s1 (Joined 1) s2
     \<and> length (evTimers s2) = 1"
proof -
  have one: "(1 :: nat) = Suc 0" by simp
  have "\<not> scStopped busyScheduler" "evTimers busyScheduler = []" "set (evJoins busyScheduler) = {1}" "set (evRuns busyScheduler) = {1}"
    by (simp_all add: busyScheduler_def)
  with scheduler_rearms [OF busy_reach] show ?thesis by fastforce
qed

subsection \<open>Repeated passes come to an end\<close>

text \<open>What the snapshot purge still has to look after: snapshots, and items of snapshots.\<close>

definition purgeWork :: "store \<Rightarrow> nat" where
  "purgeWork s = length (snapshots s) + sum_list (map (\<lambda>p. length (snd p)) (snapshotItems s))"

primrec purgeTimes :: "jsstr \<Rightarrow> int option \<Rightarrow> int option \<Rightarrow> int option \<Rightarrow> nat \<Rightarrow> store \<Rightarrow> store" where
  "purgeTimes now b mi ms 0 s = s"
| "purgeTimes now b mi ms (Suc n) s = purgeTimes now b mi ms n (snd (purgeExpiredSnapshots now b mi ms s))"

lemma spliceLoop_shrinks:
  "spliceLoop b a xs p = (ys, a', p') \<Longrightarrow> length ys \<le> length xs \<and> (xs \<noteq> [] \<and> 0 < a \<and> 0 < b \<longrightarrow> length ys < length xs)"
proof (induction b a xs p arbitrary: ys a' p' rule: spliceLoop.induct)
  case (1 b a xs p)
  show ?case
  proof (cases "xs = [] \<or> a = 0 \<or> b = 0")
    case True
    then show ?thesis using "1.prems" by (subst (asm) spliceLoop.simps) auto
  next
    case False
    define n where "n = min b (min a (length xs))"
    have n: "0 < n" "n \<le> length xs" using False by (auto simp: n_def)
    show ?thesis
    proof (cases "n < b")
      case True
      then have "ys = drop n xs" using "1.prems" False
        by (subst (asm) spliceLoop.simps) (simp add: Let_def n_def [symmetric])
      then show ?thesis using n by simp
    next
      case F: False
      then have "spliceLoop b (a - n) (drop n xs) (p + n) = (ys, a', p')" using "1.prems" False
        by (subst (asm) spliceLoop.simps) (simp add: Let_def n_def [symmetric])
      then have "length ys \<le> length (drop n xs)" using "1.IH" [OF False n_def F] by blast
      then show ?thesis using n by (simp only: length_drop) linarith
    qed
  qed
qed

lemma sum_adel: "sum_list (map (\<lambda>p. length (snd p)) (adel k m)) + length (agetOr [] k m)
    \<le> sum_list (map (\<lambda>p. length (snd p)) m)"
proof (induction m)
  case (Cons p m)
  obtain a v where p: "p = (a, v)" by fastforce
  have "sum_list (map (\<lambda>p. length (snd p)) (adel k m)) \<le> sum_list (map (\<lambda>p. length (snd p)) m)"
    using Cons by linarith
  then show ?case using Cons by (auto simp: p adel_def agetOr_def)
qed (simp add: adel_def agetOr_def)

lemma sum_aset: "length v \<le> length (agetOr [] k m) \<Longrightarrow> v \<noteq> [] \<Longrightarrow>
   sum_list (map (\<lambda>p. length (snd p)) (aset k v m)) + length (agetOr [] k m)
    = sum_list (map (\<lambda>p. length (snd p)) m) + length v"
  by (induction k v m rule: aset.induct) (auto simp: agetOr_def)

lemma length_adel_le: "length (adel k m) \<le> length m"
  by (simp add: adel_def)

lemma length_adel_less: "(k, v) \<in> set m \<Longrightarrow> length (adel k m) < length m"
  unfolding adel_def by (rule length_filter_less) auto

lemma purgeSnapLoop_work: "purgeSnapLoop b now ms a ni ns s = (x, s') \<Longrightarrow> purgeWork s' \<le> purgeWork s"
proof (induction ms arbitrary: a ni ns s)
  case (Cons p rest)
  obtain sid m where p: "p = (sid, m)" by fastforce
  obtain items a1 ni1 where sp: "spliceLoop b a (agetOr [] sid (snapshotItems s)) ni = (items, a1, ni1)"
    by (metis prod_cases3)
  have l: "length items \<le> length (agetOr [] sid (snapshotItems s))" using spliceLoop_shrinks [OF sp] by simp
  have d: "purgeWork (s\<lparr>snapshotItems := adel sid (snapshotItems s)\<rparr>) \<le> purgeWork s"
    "purgeWork (s\<lparr>snapshotItems := adel sid (snapshotItems s), snapshots := adel sid (snapshots s)\<rparr>) \<le> purgeWork s"
    using sum_adel [of sid "snapshotItems s"] length_adel_le [of sid "snapshots s"] by (simp_all add: purgeWork_def)
  show ?case
  proof (cases "a = 0 \<or> \<not> snapshotDue now s (sid, m)")
    case True
    then show ?thesis using Cons by (auto simp: p split: if_splits)
  next
    case False
    then show ?thesis using Cons.prems Cons.IH l d sum_aset [of items sid "snapshotItems s"]
      by (auto simp: p sp purgeWork_def Let_def split: if_splits intro: le_trans dest!: Cons.IH)
  qed
qed simp

lemma purgeSnapLoop_strict:
  assumes "purgeSnapLoop b now ((sid, m) # rest) a ni ns s = (x, s')" "0 < a" "0 < b"
    "snapshotDue now s (sid, m)" "(sid, m) \<in> set (snapshots s)"
  shows "purgeWork s' < purgeWork s"
proof -
  obtain items a1 ni1 where sp: "spliceLoop b a (agetOr [] sid (snapshotItems s)) ni = (items, a1, ni1)"
    by (metis prod_cases3)
  have l: "length items \<le> length (agetOr [] sid (snapshotItems s))"
    "agetOr [] sid (snapshotItems s) \<noteq> [] \<Longrightarrow> length items < length (agetOr [] sid (snapshotItems s))"
    using spliceLoop_shrinks [OF sp] assms(2,3) by auto
  let ?s1 = "s\<lparr>snapshotItems := adel sid (snapshotItems s)\<rparr>"
  let ?s2 = "?s1\<lparr>snapshots := adel sid (snapshots s)\<rparr>"
  have w2: "purgeWork ?s2 < purgeWork s"
    using sum_adel [of sid "snapshotItems s"] length_adel_less [OF assms(5)] by (simp add: purgeWork_def)
  have w1: "purgeWork ?s1 < purgeWork s" if "agetOr [] sid (snapshotItems s) \<noteq> []"
  proof -
    have "0 < length (agetOr [] sid (snapshotItems s))" using that by simp
    then show ?thesis using sum_adel [of sid "snapshotItems s"] by (simp add: purgeWork_def del: length_greater_0_conv)
  qed
  show ?thesis
  proof (cases "items = []")
    case False
    then have "s' = s\<lparr>snapshotItems := aset sid items (snapshotItems s)\<rparr>" "agetOr [] sid (snapshotItems s) \<noteq> []"
      using assms(1,2,4) l(1) by (auto simp: sp)
    then show ?thesis using l False sum_aset [of items sid "snapshotItems s"] by (simp add: purgeWork_def)
  next
    case True
    show ?thesis
    proof (cases "mExpiresAt m \<le> now")
      case e: True
      then have "purgeSnapLoop b now rest a1 ni1 (ns + 1) ?s2 = (x, s')"
        using assms(1,2,4) True by (simp add: sp Let_def)
      then show ?thesis using purgeSnapLoop_work w2 by fastforce
    next
      case e: False
      then have "purgeSnapLoop b now rest a1 ni1 ns ?s1 = (x, s')" "agetOr [] sid (snapshotItems s) \<noteq> []"
        using assms(1,2,4) True by (simp_all add: sp Let_def snapshotDue_def)
      then show ?thesis using purgeSnapLoop_work w1 by fastforce
    qed
  qed
qed

lemma purge_progress:
  assumes "purgeExpiredSnapshots now b mi ms s = (Inr r, s')"
  shows "puHasMore r \<longrightarrow> purgeWork s' < purgeWork s" and "failOnce s' = failOnce s"
proof -
  obtain bo bu sb where bp: "boundPurgeParams b mi ms = (bo, bu, sb)" by (metis prod_cases3)
  then have pos: "0 < bo" "0 < bu" "0 < sb" using clampPurge_bounds by (auto simp: boundPurgeParams_def Suc_le_eq)
  define ordered where "ordered = take sb (filter (snapshotDue now s) (snapshots s))"
  have lo: "sb \<le> length (filter (snapshotDue now s) (snapshots s)) \<longleftrightarrow> sb \<le> length ordered"
    by (simp add: ordered_def)
  have nf: "SnapshotCleanup \<notin> set (failOnce s)"
    using assms by (auto simp: purgeExpiredSnapshots_def opBind_def consumeFailure_def split: if_splits)
  obtain al ni ns where run: "purgeSnapLoop bo now ordered bu 0 0 s = ((al, ni, ns), s')"
      and r: "puHasMore r \<longleftrightarrow> al = 0 \<or> sb \<le> length ordered"
    using assms nf unfolding purgeExpiredSnapshots_def opBind_def consumeFailure_def
    by (auto simp: bp lo ordered_def [symmetric] Let_def split: prod.splits)
  show "puHasMore r \<longrightarrow> purgeWork s' < purgeWork s"
  proof (cases ordered)
    case Nil
    then show ?thesis using run r pos by simp
  next
    case (Cons p rest)
    obtain sid m where p: "p = (sid, m)" by fastforce
    have "p \<in> set ordered" using Cons by simp
    then have "snapshotDue now s (sid, m)" "(sid, m) \<in> set (snapshots s)"
      unfolding ordered_def p by (auto dest: in_set_takeD)
    then show ?thesis using purgeSnapLoop_strict run pos unfolding Cons p by blast
  qed
  have "purgeSnapLoop bo now xs a i j t = (y, t') \<Longrightarrow> failOnce t' = failOnce t" for xs a i j t y t'
  proof (induction xs arbitrary: a i j t)
    case (Cons q xs)
    then show ?case by (cases q) (auto simp: Let_def split: if_splits prod.splits dest!: Cons.IH)
  qed simp
  then show "failOnce s' = failOnce s" using run by blast
qed

text \<open>C25: Cleanup comes to an end: with any positive bounds, repeating the snapshot purge at one time
  reports that no more is left after at most as many passes as there are snapshots and snapshot items,
  since every pass that reports more has removed some.\<close>

theorem purge_terminates:
  assumes "SnapshotCleanup \<notin> set (failOnce s)"
  shows "\<exists>n \<le> purgeWork s. \<exists>r s'. purgeExpiredSnapshots now b mi ms (purgeTimes now b mi ms n s) = (Inr r, s') \<and> \<not> puHasMore r"
  using assms
proof (induction "purgeWork s" arbitrary: s rule: less_induct)
  case less
  obtain r s' where p: "purgeExpiredSnapshots now b mi ms s = (Inr r, s')"
    using less.prems by (simp add: purgeExpiredSnapshots_def opBind_def consumeFailure_def Let_def case_prod_beta)
  show ?case
  proof (cases "puHasMore r")
    case False
    then show ?thesis using p by (intro exI [of _ 0]) simp
  next
    case True
    then have w: "purgeWork s' < purgeWork s" using purge_progress [OF p] by blast
    have "SnapshotCleanup \<notin> set (failOnce s')" using purge_progress(2) [OF p] less.prems by simp
    from less.hyps [OF w this] obtain n r' s'' where
      "n \<le> purgeWork s'" "purgeExpiredSnapshots now b mi ms (purgeTimes now b mi ms n s') = (Inr r', s'')" "\<not> puHasMore r'"
      by blast
    then show ?thesis using w p by (intro exI [of _ "Suc n"]) auto
  qed
qed

definition dueStore :: store where
  "dueStore = emptyStore\<lparr>snapshots := [(js ''s'', \<lparr>mId = js ''s'', mOwner = js ''o'', mEpoch = js ''gen-1'',
     mFilterHash = [], mFilter = \<lparr>fDirection = None, fMessageBox = None, fParticipant = None\<rparr>, mWatermark = js ''0'',
     mStatus = Active, mCreatedAt = js ''a'', mExpiresAt = js ''b''\<rparr>)]\<rparr>"

theorem purge_terminates_witness:
  "snapshotDue (js ''t'') dueStore (hd (snapshots dueStore))
   \<and> (\<exists>n \<le> 1. \<exists>r s'. purgeExpiredSnapshots (js ''t'') None None None
     (purgeTimes (js ''t'') None None None n dueStore) = (Inr r, s') \<and> \<not> puHasMore r)"
proof -
  have "SnapshotCleanup \<notin> set (failOnce dueStore)" "purgeWork dueStore = 1"
    by (simp_all add: dueStore_def emptyStore_def purgeWork_def)
  moreover have "snapshotDue (js ''t'') dueStore (hd (snapshots dueStore))"
    by (simp add: snapshotDue_def dueStore_def js_def)
  ultimately show ?thesis using purge_terminates [of dueStore "js ''t''" None None None] by metis
qed

end
