(* ===== verification/Lifecycle.thy ===== *)
theory Lifecycle
  imports ServiceRun Config Cleanup
begin

section \<open>The service lifecycle\<close>

text \<open>
  \<open>createService\<close> of \<open>src/service.ts\<close>: what it hands to the application, and \<open>migrate\<close>,
  \<open>checkReadiness\<close>, \<open>start\<close>, \<open>stop\<close>, \<open>close\<close> as a state machine. Every \<open>await\<close> splits an operation:
  a listen call in flight, a stop pass in one of its phases, and a close that awaits a stop pass are
  parts of the state, and any other event may happen between them. The HTTP server and the connection
  pool are represented by the identities of the servers listening and the number of times the pool
  was destroyed. Logging is left out.
\<close>

subsection \<open>The application of a configuration\<close>

text \<open>\<open>parse\<close> stands for the clock parser of the application, \<open>probe\<close> for the database round trip.\<close>

definition limiterFor :: "int \<Rightarrow> limiter result" where
  "limiterFor limit = createFixedWindowRateLimiter (IntNum limit) Undefined Undefined"

definition appConfigOf :: "service_config \<Rightarrow> (jsstr \<Rightarrow> int option) \<Rightarrow> bool \<Rightarrow> bool option option \<Rightarrow> app_config result" where
  "appConfigOf c parse migrated probe =
     andThen (parseTrustedProxy (Str (cfTrustedProxy c))) (\<lambda>proxy.
     andThen (limiterFor (cfPreAuthRate c)) (\<lambda>ip.
     andThen (limiterFor (cfAuthRate c)) (\<lambda>ident.
     Inr \<lparr>acOrigins = cfOrigins c, acMaxConcurrent = nat (cfMaxConcurrent c), acTrustedProxy = proxy,
          acIpLimiter = ip, acIdLimiter = ident, acAuth = True, acRepository = True, acSecret = Str (cfSecret c),
          acMigrated = migrated, acProbe = probe, acMaxHttpBody = MAX_HTTP_BODY_BYTES, acStoreLimits = LIMITS,
          acDateParse = parse\<rparr>)))"

subsection \<open>State\<close>

datatype stop_phase = StopsCleanup | StopsIdle nat | ClosesServer nat bool | Stopped bool | StopFailed

datatype close_phase = AwaitsStop nat | PoolClosed

record service =
  svVersions :: "jsstr list option"
  svServer :: "nat option"
  svListens :: "nat list"
  svOpen :: "nat list"
  svTracker :: tracker
  svSched :: scheduler
  svStops :: "(nat \<times> stop_phase) list"
  svStop :: "nat option"
  svCloses :: "(nat \<times> close_phase) list"
  svClose :: "nat option"
  svOwnsPool :: bool
  svDestroyed :: nat
  svFresh :: nat

definition createService :: "service_config \<Rightarrow> bool \<Rightarrow> service result" where
  "createService c ownsPool =
     andThen (createCleanupScheduler (IntNum (cfCleanupInterval c))) (\<lambda>sched.
     Inr \<lparr>svVersions = None, svServer = None, svListens = [], svOpen = [], svTracker = createAdmissionTracker,
          svSched = sched, svStops = [], svStop = None, svCloses = [], svClose = None, svOwnsPool = ownsPool,
          svDestroyed = 0, svFresh = 0\<rparr>)"

definition checkReadiness :: "service \<Rightarrow> bool" where
  "checkReadiness s \<longleftrightarrow> svVersions s \<noteq> None"

text \<open>\<open>migrate\<close> with the outcome of the migration function.\<close>

definition migrate :: "bool \<Rightarrow> jsstr list result \<Rightarrow> service \<Rightarrow> jsstr list result \<times> service" where
  "migrate hasHandle outcome s =
     (if \<not> hasHandle
      then (Inl (JsErr TypeError (Some (Other_Code ''ERR_MIGRATION_STRUCTURE'')) ''migrations require a knex handle''), s)
      else case outcome of
          Inr vs \<Rightarrow> (Inr vs, s\<lparr>svVersions := Some vs\<rparr>)
        | Inl e \<Rightarrow> (Inl e, s\<lparr>svVersions := None\<rparr>))"

subsection \<open>start, stop, close\<close>

definition startService :: "service \<Rightarrow> service" where
  "startService s = (if svServer s \<noteq> None then s
     else s\<lparr>svStop := None, svClose := None, svTracker := (svTracker s)\<lparr>tkDraining := False\<rparr>,
            svListens := svListens s @ [svFresh s], svFresh := svFresh s + 1\<rparr>)"

definition listening :: "nat \<Rightarrow> service \<Rightarrow> service" where
  "listening n s = s\<lparr>svListens := removeAll n (svListens s), svServer := Some n, svOpen := svOpen s @ [n],
     svSched := startScheduler (svSched s)\<rparr>"

definition listenFails :: "nat \<Rightarrow> service \<Rightarrow> service" where
  "listenFails n s = s\<lparr>svListens := removeAll n (svListens s)\<rparr>"

text \<open>\<open>performStop\<close> up to its first \<open>await\<close>, then the memo of \<open>stop\<close>.\<close>

definition performStop :: "service \<Rightarrow> nat \<times> service" where
  "performStop s = (svFresh s,
     s\<lparr>svTracker := (svTracker s)\<lparr>tkDraining := True\<rparr>, svSched := snd (stopScheduler Undefined (svSched s)),
       svStops := aset (svFresh s) StopsCleanup (svStops s), svFresh := svFresh s + 1\<rparr>)"

definition stopService :: "service \<Rightarrow> nat \<times> service" where
  "stopService s = (case svStop s of
      Some p \<Rightarrow> (p, s)
    | None \<Rightarrow> let (p, s1) = performStop s in (p, s1\<lparr>svStop := Some p\<rparr>))"

definition cleanupStopped :: "int \<Rightarrow> nat \<Rightarrow> service \<Rightarrow> service" where
  "cleanupStopped drainTimeout p s =
     s\<lparr>svTracker := waitIdle (svFresh s) (IntNum drainTimeout) (svTracker s),
       svStops := aset p (StopsIdle (svFresh s)) (svStops s), svFresh := svFresh s + 1\<rparr>"

definition idleKnown :: "nat \<Rightarrow> bool \<Rightarrow> service \<Rightarrow> service" where
  "idleKnown p drained s = (case svServer s of
      None \<Rightarrow> s\<lparr>svStops := aset p (Stopped drained) (svStops s)\<rparr>
    | Some n \<Rightarrow> s\<lparr>svServer := None, svStops := aset p (ClosesServer n drained) (svStops s)\<rparr>)"

definition serverClosed :: "nat \<Rightarrow> nat \<Rightarrow> bool \<Rightarrow> service \<Rightarrow> service" where
  "serverClosed p n drained s =
     s\<lparr>svOpen := removeAll n (svOpen s), svStops := aset p (Stopped drained) (svStops s)\<rparr>"

definition closeFails :: "nat \<Rightarrow> service \<Rightarrow> service" where
  "closeFails p s = s\<lparr>svStops := aset p StopFailed (svStops s)\<rparr>"

definition closeService :: "service \<Rightarrow> nat \<times> service" where
  "closeService s = (case svClose s of
      Some c \<Rightarrow> (c, s)
    | None \<Rightarrow> let (p, s1) = stopService s; c = svFresh s1 in
        (c, s1\<lparr>svCloses := aset c (AwaitsStop p) (svCloses s1), svClose := Some c, svFresh := svFresh s1 + 1\<rparr>))"

definition closeResumes :: "nat \<Rightarrow> service \<Rightarrow> service" where
  "closeResumes c s = s\<lparr>svDestroyed := (if svOwnsPool s then svDestroyed s + 1 else svDestroyed s),
     svCloses := aset c PoolClosed (svCloses s)\<rparr>"

subsection \<open>Runs\<close>

datatype service_event =
    Migrate bool "jsstr list result" | StartCall | Listening nat | ListenFails nat | StopCall | CleanupStopped nat
  | IdleKnown nat | ServerClosed nat | ServerCloseFails nat | CloseCall | CloseResumes nat
  | Admit nat | Release | IdleTimer nat | SchedulerEvent sched_event

inductive serviceStep :: "int \<Rightarrow> service \<Rightarrow> service_event \<Rightarrow> service \<Rightarrow> bool" for drain :: int where
  sv_migrate: "serviceStep drain s (Migrate h v) (snd (migrate h v s))"
| sv_start: "serviceStep drain s StartCall (startService s)"
| sv_listening: "n \<in> set (svListens s) \<Longrightarrow> serviceStep drain s (Listening n) (listening n s)"
| sv_listenFails: "n \<in> set (svListens s) \<Longrightarrow> serviceStep drain s (ListenFails n) (listenFails n s)"
| sv_stop: "serviceStep drain s StopCall (snd (stopService s))"
| sv_cleanup: "map_of (svStops s) p = Some StopsCleanup \<Longrightarrow>
    serviceStep drain s (CleanupStopped p) (cleanupStopped drain p s)"
| sv_idle: "map_of (svStops s) p = Some (StopsIdle w) \<Longrightarrow> (w, d) \<in> set (tkResolved (svTracker s)) \<Longrightarrow>
    serviceStep drain s (IdleKnown p) (idleKnown p d s)"
| sv_closed: "map_of (svStops s) p = Some (ClosesServer n d) \<Longrightarrow>
    serviceStep drain s (ServerClosed p) (serverClosed p n d s)"
| sv_closeFails: "map_of (svStops s) p = Some (ClosesServer n d) \<Longrightarrow>
    serviceStep drain s (ServerCloseFails p) (closeFails p s)"
| sv_close: "serviceStep drain s CloseCall (snd (closeService s))"
| sv_resume: "map_of (svCloses s) c = Some (AwaitsStop p) \<Longrightarrow> map_of (svStops s) p = Some (Stopped d) \<Longrightarrow>
    serviceStep drain s (CloseResumes c) (closeResumes c s)"
| sv_admit: "serviceStep drain s (Admit limit) (s\<lparr>svTracker := snd (tryAcquire limit (svTracker s))\<rparr>)"
| sv_release: "serviceStep drain s Release (s\<lparr>svTracker := releaseSlot (svTracker s)\<rparr>)"
| sv_timer: "serviceStep drain s (IdleTimer w) (s\<lparr>svTracker := idleTimeout w (svTracker s)\<rparr>)"
| sv_sched: "schedStep (svSched s) e t \<Longrightarrow> (\<forall>x. e \<noteq> Stop x) \<Longrightarrow> e \<noteq> Start \<Longrightarrow>
    serviceStep drain s (SchedulerEvent e) (s\<lparr>svSched := t\<rparr>)"

text \<open>A call is settled when no \<open>start\<close> is waiting for its server to listen.\<close>

definition settled :: "service_event \<Rightarrow> service \<Rightarrow> bool" where
  "settled e s \<longleftrightarrow> (e \<in> {StartCall, StopCall, CloseCall} \<longrightarrow> svListens s = [])"

text \<open>Any run, and runs whose calls are settled.\<close>

inductive serviceRun :: "service_config \<Rightarrow> bool \<Rightarrow> service \<Rightarrow> bool" for c :: service_config and careful :: bool where
  run_created: "createService c ownsPool = Inr s \<Longrightarrow> serviceRun c careful s"
| run_step: "serviceRun c careful s \<Longrightarrow> serviceStep (cfDrainTimeout c) s e s' \<Longrightarrow> (careful \<longrightarrow> settled e s) \<Longrightarrow>
    serviceRun c careful s'"

subsection \<open>The invariant of settled runs\<close>

definition keysOk :: "service \<Rightarrow> bool" where
  "keysOk s \<longleftrightarrow> (\<forall>q v. map_of (svStops s) q = Some v \<longrightarrow> q < svFresh s) \<and> (\<forall>q v. map_of (svCloses s) q = Some v \<longrightarrow> q < svFresh s)"

definition listenOk :: "service \<Rightarrow> bool" where
  "listenOk s \<longleftrightarrow> svListens s = [] \<or> svServer s = None \<and> svStop s = None \<and> svClose s = None \<and> (\<exists>n. svListens s = [n])"

definition openOk :: "service \<Rightarrow> bool" where
  "openOk s \<longleftrightarrow> (\<forall>n \<in> set (svOpen s). svServer s = Some n \<or> (\<exists>q d. map_of (svStops s) q = Some (ClosesServer n d))
     \<or> (\<exists>q. map_of (svStops s) q = Some StopFailed))"

definition stopOk :: "service \<Rightarrow> bool" where
  "stopOk s \<longleftrightarrow> (\<forall>p. svStop s = Some p \<longrightarrow> tkDraining (svTracker s) \<and> scStopped (svSched s)
     \<and> (\<exists>ph. map_of (svStops s) p = Some ph \<and> (ph = StopsCleanup \<or> (\<exists>w. ph = StopsIdle w) \<or> svServer s = None)))"

definition closeOk :: "service \<Rightarrow> bool" where
  "closeOk s \<longleftrightarrow> (\<forall>c. svClose s = Some c \<longrightarrow> svStop s \<noteq> None \<and> (map_of (svCloses s) c = Some (AwaitsStop (the (svStop s)))
     \<or> map_of (svCloses s) c = Some PoolClosed \<and> (\<exists>d. map_of (svStops s) (the (svStop s)) = Some (Stopped d))))"

definition lifeInv :: "service \<Rightarrow> bool" where
  "lifeInv s \<longleftrightarrow> keysOk s \<and> listenOk s \<and> openOk s \<and> stopOk s \<and> closeOk s"

lemmas lifeInv_defs = lifeInv_def keysOk_def listenOk_def openOk_def stopOk_def closeOk_def

lemma draining_kept [simp]:
  "tkDraining (snd (tryAcquire k t)) = tkDraining t" "tkDraining (releaseSlot t) = tkDraining t"
  "tkDraining (idleTimeout w t) = tkDraining t" "tkDraining (waitIdle w v t) = tkDraining t"
  by (simp_all add: tryAcquire_def releaseSlot_def notifyIdle_def idleTimeout_def waitIdle_def)

lemma stopScheduler_stops: "scStopped (snd (stopScheduler Undefined s))"
  by (simp add: stopScheduler_def orDefault_def isSafeInteger_def safeInt_def Let_def split: option.split)

lemma schedStep_stopped: "schedStep s e t \<Longrightarrow> \<forall>x. e \<noteq> Stop x \<Longrightarrow> e \<noteq> Start \<Longrightarrow> scStopped t = scStopped s"
  by (induction rule: schedStep.induct)
    (auto simp: onTick_def executePass_def runNow_def passEnds_def scheduleNext_def Let_def split: option.splits)

lemma less_Suc_all: "(\<forall>q v. m q = Some v \<longrightarrow> q < n) \<Longrightarrow> (\<forall>q v. m q = Some v \<longrightarrow> q < Suc n)" for n :: nat
  by fastforce

lemma inv_start: "lifeInv s \<Longrightarrow> svListens s = [] \<Longrightarrow> lifeInv (startService s)"
  by (auto simp: startService_def lifeInv_defs dest: less_SucI)

lemma inv_listening: "lifeInv s \<Longrightarrow> n \<in> set (svListens s) \<Longrightarrow> lifeInv (listening n s)"
  by (auto simp: listening_def lifeInv_defs)

lemma inv_listenFails: "lifeInv s \<Longrightarrow> n \<in> set (svListens s) \<Longrightarrow> lifeInv (listenFails n s)"
  by (auto simp: listenFails_def lifeInv_defs)

lemma inv_performStop:
  assumes "lifeInv s" "svListens s = []" "svStop s = None"
  shows "lifeInv (snd (performStop s)\<lparr>svStop := Some (svFresh s)\<rparr>)"
proof -
  have new: "map_of (svStops s) (svFresh s) = None" using assms(1) by (auto simp: lifeInv_defs)
  have "openOk (snd (performStop s)\<lparr>svStop := Some (svFresh s)\<rparr>)" unfolding openOk_def
  proof
    fix n assume "n \<in> set (svOpen (snd (performStop s)\<lparr>svStop := Some (svFresh s)\<rparr>))"
    then have "n \<in> set (svOpen s)" by (simp add: performStop_def)
    with assms(1) consider "svServer s = Some n" | q d where "map_of (svStops s) q = Some (ClosesServer n d)"
      | q where "map_of (svStops s) q = Some StopFailed" by (auto simp: lifeInv_def openOk_def)
    then show "svServer (snd (performStop s)\<lparr>svStop := Some (svFresh s)\<rparr>) = Some n
        \<or> (\<exists>q d. map_of (svStops (snd (performStop s)\<lparr>svStop := Some (svFresh s)\<rparr>)) q = Some (ClosesServer n d))
        \<or> (\<exists>q. map_of (svStops (snd (performStop s)\<lparr>svStop := Some (svFresh s)\<rparr>)) q = Some StopFailed)"
      using new by cases (auto simp: performStop_def, (metis option.distinct(1))+)
  qed
  moreover have "keysOk (snd (performStop s)\<lparr>svStop := Some (svFresh s)\<rparr>)"
    using assms(1) by (auto simp: performStop_def lifeInv_def keysOk_def less_SucI)
  moreover have "svClose s = None" using assms(1,3) by (auto simp: lifeInv_def closeOk_def)
  ultimately show ?thesis using assms stopScheduler_stops
    by (auto simp: performStop_def lifeInv_def listenOk_def stopOk_def closeOk_def)
qed

lemma stopService_simps:
  "svStop s = Some p \<Longrightarrow> stopService s = (p, s)"
  "svStop s = None \<Longrightarrow> stopService s = (svFresh s, snd (performStop s)\<lparr>svStop := Some (svFresh s)\<rparr>)"
  by (simp_all add: stopService_def performStop_def)

lemma inv_stop: "lifeInv s \<Longrightarrow> svListens s = [] \<Longrightarrow> lifeInv (snd (stopService s)) \<and> svStop (snd (stopService s)) = Some (fst (stopService s))
    \<and> svListens (snd (stopService s)) = [] \<and> svClose (snd (stopService s)) = svClose s"
  by (cases "svStop s") (use inv_performStop in \<open>auto simp: stopService_simps\<close>, auto simp: performStop_def)

lemma inv_close: "lifeInv s \<Longrightarrow> svListens s = [] \<Longrightarrow> lifeInv (snd (closeService s))"
proof (cases "svClose s")
  case None
  assume i: "lifeInv s" "svListens s = []"
  obtain p s1 where p: "stopService s = (p, s1)" by fastforce
  have "lifeInv s1 \<and> svStop s1 = Some p \<and> svListens s1 = [] \<and> svClose s1 = None" using inv_stop [OF i] p None by simp
  moreover have "snd (closeService s) = s1\<lparr>svCloses := aset (svFresh s1) (AwaitsStop p) (svCloses s1), svClose := Some (svFresh s1),
      svFresh := svFresh s1 + 1\<rparr>" using None p by (simp add: closeService_def Let_def)
  ultimately show ?thesis by (auto simp: lifeInv_defs less_SucI)
qed (simp add: closeService_def)

text \<open>A stop pass that moves on, seen by the servers still open.\<close>

lemma openOk_phase:
  assumes "openOk s" "\<forall>n d. map_of (svStops s) p \<noteq> Some (ClosesServer n d)" "map_of (svStops s) p \<noteq> Some StopFailed"
    and "svOpen s' = svOpen s" "svServer s' = svServer s" "svStops s' = aset p ph (svStops s)"
  shows "openOk s'"
  using assms unfolding openOk_def
  by (metis (no_types, lifting) fun_upd_other map_of_aset)

lemma inv_cleanup:
  assumes "lifeInv s" "map_of (svStops s) p = Some StopsCleanup"
  shows "lifeInv (cleanupStopped drain p s)"
proof -
  have "openOk (cleanupStopped drain p s)"
    by (rule openOk_phase [of s p]) (use assms in \<open>auto simp: lifeInv_def cleanupStopped_def\<close>)
  then show ?thesis using assms
    by (auto simp: cleanupStopped_def lifeInv_def keysOk_def listenOk_def stopOk_def closeOk_def less_SucI)
qed

lemma inv_idle:
  assumes "lifeInv s" "map_of (svStops s) p = Some (StopsIdle w)"
  shows "lifeInv (idleKnown p d s)"
proof (cases "svServer s")
  case None
  have "openOk (idleKnown p d s)"
    by (rule openOk_phase [of s p]) (use assms None in \<open>auto simp: lifeInv_def idleKnown_def\<close>)
  then show ?thesis using assms None
    by (auto simp: idleKnown_def lifeInv_def keysOk_def listenOk_def stopOk_def closeOk_def)
next
  case (Some n)
  have "openOk (idleKnown p d s)" unfolding openOk_def
  proof
    fix m assume "m \<in> set (svOpen (idleKnown p d s))"
    then have "m \<in> set (svOpen s)" using Some by (simp add: idleKnown_def)
    then consider "m = n" | q d' where "map_of (svStops s) q = Some (ClosesServer m d')"
      | q where "map_of (svStops s) q = Some StopFailed"
      using assms(1) Some by (auto simp: lifeInv_def openOk_def)
    then show "svServer (idleKnown p d s) = Some m \<or> (\<exists>q d'. map_of (svStops (idleKnown p d s)) q = Some (ClosesServer m d'))
        \<or> (\<exists>q. map_of (svStops (idleKnown p d s)) q = Some StopFailed)"
    proof cases
      case (2 q d')
      then have "q \<noteq> p" using assms(2) by auto
      then show ?thesis using 2 Some by (auto simp: idleKnown_def)
    next
      case (3 q)
      then have "q \<noteq> p" using assms(2) by auto
      then show ?thesis using 3 Some by (auto simp: idleKnown_def)
    qed (use Some in \<open>auto simp: idleKnown_def\<close>)
  qed
  then show ?thesis using assms Some
    by (auto simp: idleKnown_def lifeInv_def keysOk_def listenOk_def stopOk_def closeOk_def)
qed

lemma inv_closed:
  assumes "lifeInv s" "map_of (svStops s) p = Some (ClosesServer n d)"
  shows "lifeInv (serverClosed p n d s)"
proof -
  have "openOk (serverClosed p n d s)" unfolding openOk_def
  proof
    fix m assume "m \<in> set (svOpen (serverClosed p n d s))"
    then have m: "m \<in> set (svOpen s)" "m \<noteq> n" by (auto simp: serverClosed_def)
    then consider "svServer s = Some m" | q d' where "map_of (svStops s) q = Some (ClosesServer m d')" "q \<noteq> p"
      | q where "map_of (svStops s) q = Some StopFailed" "q \<noteq> p"
      using assms by (fastforce simp: lifeInv_def openOk_def)
    then show "svServer (serverClosed p n d s) = Some m
        \<or> (\<exists>q d'. map_of (svStops (serverClosed p n d s)) q = Some (ClosesServer m d'))
        \<or> (\<exists>q. map_of (svStops (serverClosed p n d s)) q = Some StopFailed)"
      by cases (auto simp: serverClosed_def)
  qed
  moreover have "svStop s = Some p \<Longrightarrow> svServer s = None" using assms by (auto simp: lifeInv_def stopOk_def)
  ultimately show ?thesis using assms
    by (auto simp: serverClosed_def lifeInv_def keysOk_def listenOk_def stopOk_def closeOk_def)
qed

lemma inv_closeFails:
  assumes "lifeInv s" "map_of (svStops s) p = Some (ClosesServer n d)"
  shows "lifeInv (closeFails p s)"
proof -
  have "map_of (svStops (closeFails p s)) p = Some StopFailed" by (simp add: closeFails_def)
  then have "openOk (closeFails p s)" unfolding openOk_def by blast
  moreover have "svStop s = Some p \<Longrightarrow> svServer s = None" using assms by (auto simp: lifeInv_def stopOk_def)
  ultimately show ?thesis using assms
    by (auto simp: closeFails_def lifeInv_def keysOk_def listenOk_def stopOk_def closeOk_def)
qed

lemma inv_resume:
  assumes "lifeInv s" "map_of (svCloses s) c = Some (AwaitsStop p)" "map_of (svStops s) p = Some (Stopped d)"
  shows "lifeInv (closeResumes c s)"
  using assms by (auto simp: closeResumes_def lifeInv_def keysOk_def listenOk_def openOk_def stopOk_def closeOk_def)

lemma inv_quiet:
  assumes "lifeInv s" "tkDraining (svTracker s') = tkDraining (svTracker s)" "scStopped (svSched s') = scStopped (svSched s)"
    and "svServer s' = svServer s" "svListens s' = svListens s" "svOpen s' = svOpen s" "svStops s' = svStops s"
    "svStop s' = svStop s" "svCloses s' = svCloses s" "svClose s' = svClose s" "svFresh s' = svFresh s"
  shows "lifeInv s'"
  using assms by (simp add: lifeInv_defs)

lemma step_inv: "serviceStep drain s e s' \<Longrightarrow> settled e s \<Longrightarrow> lifeInv s \<Longrightarrow> lifeInv s'"
proof (induction rule: serviceStep.induct)
  case (sv_migrate s h v)
  have "lifeInv s" by fact
  then show ?case by (rule inv_quiet) (simp_all add: migrate_def split: sum.split)
next
  case (sv_sched s e t)
  have "lifeInv s" by fact
  then show ?case by (rule inv_quiet) (use schedStep_stopped [OF sv_sched(1-3)] in simp_all)
next
  case (sv_admit s limit)
  have "lifeInv s" by fact
  then show ?case by (rule inv_quiet) simp_all
next
  case (sv_release s)
  have "lifeInv s" by fact
  then show ?case by (rule inv_quiet) simp_all
next
  case (sv_timer s w)
  have "lifeInv s" by fact
  then show ?case by (rule inv_quiet) simp_all
qed (simp_all add: settled_def inv_start inv_listening inv_listenFails inv_stop inv_cleanup inv_idle inv_closed
    inv_closeFails inv_close inv_resume)

lemma created_inv: "createService c ownsPool = Inr s \<Longrightarrow> lifeInv s"
  by (auto simp: createService_def result_simps lifeInv_defs)

lemma run_inv: "serviceRun c careful s \<Longrightarrow> careful \<Longrightarrow> lifeInv s"
  by (induction rule: serviceRun.induct) (auto intro: created_inv step_inv)

text \<open>C26: Shutdown is ordered, in runs in which start, stop and close are never called while a start is
  still waiting for its server (C28 shows why): once a close has destroyed the pool, and until the
  service is started again (which forgets the close), new work is being rejected, the cleanup scheduler
  is stopped, no server is registered or about to listen, and a server that is still open is
  being closed by its stop pass, unless some stop pass of the run failed to close its server.\<close>

theorem shutdown_ordered:
  assumes "serviceRun c True s" "svClose s = Some k" "map_of (svCloses s) k = Some PoolClosed"
  shows "fst (tryAcquire limit (svTracker s)) = False \<and> scStopped (svSched s) \<and> svServer s = None \<and> svListens s = []
    \<and> (\<forall>n \<in> set (svOpen s). (\<exists>q d. map_of (svStops s) q = Some (ClosesServer n d))
         \<or> (\<exists>q. map_of (svStops s) q = Some StopFailed))"
proof -
  have i: "lifeInv s" using run_inv [OF assms(1)] by simp
  obtain p d where p: "svStop s = Some p" "map_of (svStops s) p = Some (Stopped d)"
    using i assms(2,3) by (auto simp: lifeInv_def closeOk_def)
  have "tkDraining (svTracker s)" "scStopped (svSched s)" "svServer s = None"
    using i p by (auto simp: lifeInv_def stopOk_def)
  moreover have "svListens s = []" using i p by (auto simp: lifeInv_def listenOk_def)
  ultimately show ?thesis using i by (auto simp: lifeInv_def openOk_def tryAcquire_def)
qed

subsection \<open>A close that overtakes a start\<close>

text \<open>Any sequence of events from a state.\<close>

inductive serviceSteps :: "int \<Rightarrow> service \<Rightarrow> service_event list \<Rightarrow> service \<Rightarrow> bool" for drain :: int where
  steps_none: "serviceSteps drain s [] s"
| steps_more: "serviceStep drain s e s1 \<Longrightarrow> serviceSteps drain s1 es s2 \<Longrightarrow> serviceSteps drain s (e # es) s2"

definition passesOver :: "(nat \<times> stop_phase) list \<Rightarrow> bool" where
  "passesOver m \<longleftrightarrow> (\<forall>q ph. map_of m q = Some ph \<longrightarrow> (\<exists>d. ph = Stopped d) \<or> ph = StopFailed)"

text \<open>A start waits for server \<open>n\<close> to listen, and no earlier stop pass is under way.\<close>

definition startPending :: "nat \<Rightarrow> service \<Rightarrow> bool" where
  "startPending n s \<longleftrightarrow> svListens s = [n] \<and> svServer s = None \<and> svStop s = None \<and> svClose s = None
     \<and> passesOver (svStops s)"

definition overtaken :: "nat \<Rightarrow> nat \<Rightarrow> service \<Rightarrow> bool" where
  "overtaken n p s \<longleftrightarrow> svListens s = [n] \<and> svServer s = None \<and> svStop s = Some p \<and> svClose s \<noteq> None
     \<and> passesOver (filter (\<lambda>x. fst x \<noteq> p) (svStops s)) \<and> (\<forall>m d. map_of (svStops s) p \<noteq> Some (ClosesServer m d))"

definition leaked :: "nat \<Rightarrow> service \<Rightarrow> bool" where
  "leaked n s \<longleftrightarrow> svListens s = [] \<and> svServer s = Some n \<and> n \<in> set (svOpen s) \<and> svStop s \<noteq> None \<and> svClose s \<noteq> None
     \<and> passesOver (svStops s)"

lemma map_of_others: "q \<noteq> p \<Longrightarrow> map_of (filter (\<lambda>x. fst x \<noteq> p) m) q = map_of m q"
  by (induction m) auto

lemma passesOver_others:
  "passesOver (filter (\<lambda>x. fst x \<noteq> p) m) \<longleftrightarrow> (\<forall>q ph. q \<noteq> p \<and> map_of m q = Some ph \<longrightarrow> (\<exists>d. ph = Stopped d) \<or> ph = StopFailed)"
proof -
  have "map_of (filter (\<lambda>x. fst x \<noteq> p) m) p = None" by (induction m) auto
  then show ?thesis unfolding passesOver_def by (metis map_of_others option.distinct(1))
qed

lemma overtaken_step:
  "serviceStep drain s e s' \<Longrightarrow> e \<notin> {StartCall, Listening n, ListenFails n} \<Longrightarrow> overtaken n p s \<Longrightarrow> overtaken n p s'"
  unfolding overtaken_def passesOver_others
  by (induction rule: serviceStep.induct)
    (auto simp: migrate_def stopService_def closeService_def cleanupStopped_def idleKnown_def serverClosed_def
      closeFails_def closeResumes_def split: sum.splits option.splits if_splits)

lemma overtaken_steps:
  "serviceSteps drain s es s' \<Longrightarrow> set es \<inter> {StartCall, Listening n, ListenFails n} = {} \<Longrightarrow> overtaken n p s \<Longrightarrow> overtaken n p s'"
proof (induction rule: serviceSteps.induct)
  case (steps_more s e s1 es s2)
  then have "overtaken n p s1" using overtaken_step [OF steps_more(1)] by auto
  then show ?case using steps_more by auto
qed

lemma leaked_step: "serviceStep drain s e s' \<Longrightarrow> leaked n s \<Longrightarrow> leaked n s'"
  unfolding leaked_def passesOver_def
  by (induction rule: serviceStep.induct)
    (auto simp: migrate_def startService_def stopService_def closeService_def cleanupStopped_def idleKnown_def
      serverClosed_def closeFails_def closeResumes_def split: sum.splits option.splits if_splits)

lemma leaked_steps: "serviceSteps drain s es s' \<Longrightarrow> leaked n s \<Longrightarrow> leaked n s'"
  by (induction rule: serviceSteps.induct) (auto dest: leaked_step)

lemma step_pool:
  "serviceStep drain s e s' \<Longrightarrow> svOwnsPool s' = svOwnsPool s \<and> svDestroyed s \<le> svDestroyed s'
     \<and> (svOwnsPool s \<and> (\<exists>k. e = CloseResumes k) \<longrightarrow> svDestroyed s < svDestroyed s')"
  by (induction rule: serviceStep.induct)
    (auto simp: migrate_def startService_def listening_def listenFails_def stopService_def performStop_def closeService_def
      cleanupStopped_def idleKnown_def serverClosed_def closeFails_def closeResumes_def Let_def
      split: sum.splits option.splits prod.splits)

lemma steps_pool:
  "serviceSteps drain s es s' \<Longrightarrow> svOwnsPool s' = svOwnsPool s \<and> svDestroyed s \<le> svDestroyed s'
     \<and> (svOwnsPool s \<and> CloseResumes k \<in> set es \<longrightarrow> svDestroyed s < svDestroyed s')"
proof (induction rule: serviceSteps.induct)
  case (steps_more s e s1 es s2)
  then show ?case using step_pool [OF steps_more(1)] by auto
qed simp

subsection \<open>Two concrete runs\<close>

definition lifeConfig :: service_config where
  "lifeConfig = \<lparr>cfSecret = js ''0123456789abcdef'',
     cfMysql = \<lparr>myHost = js ''h'', myPort = 3306, myUser = js ''u'', myPassword = js ''p'', myDatabase = js ''d'', myPool = (0, 7)\<rparr>,
     cfRetention = js ''permanent'', cfVersion = SERVICE_VERSION, cfOrigins = [], cfMaxConcurrent = 24,
     cfPreAuthRate = 300, cfAuthRate = 1000, cfTrustedProxy = [], cfCleanupInterval = 300000, cfCleanupOwners = [],
     cfDrainTimeout = 10000\<rparr>"

definition lifeFresh :: service where
  "lifeFresh = \<lparr>svVersions = None, svServer = None, svListens = [], svOpen = [], svTracker = createAdmissionTracker,
     svSched = \<lparr>scStopped = True, scTimer = None, scRun = None, scFresh = 0, evTimers = [], evRuns = [],
       evJoins = [], evOutcomes = []\<rparr>,
     svStops = [], svStop = None, svCloses = [], svClose = None, svOwnsPool = True, svDestroyed = 0, svFresh = 0\<rparr>"

lemma lifeFresh_run: "serviceRun lifeConfig careful lifeFresh"
  by (rule run_created [of _ True])
    (simp add: createService_def lifeConfig_def lifeFresh_def createCleanupScheduler_def positiveSafe_def isSafeInteger_def)

lemmas life_simps = lifeFresh_def startService_def listening_def closeService_def stopService_def performStop_def
  cleanupStopped_def idleKnown_def serverClosed_def closeResumes_def createAdmissionTracker_def waitIdle_def
  stopScheduler_def startScheduler_def scheduleNext_def orDefault_def isSafeInteger_def safeInt_def Let_def

text \<open>Start, listen, then close to the end: \<open>orderedRun\<close>. A close called while the start still
  waits for its server, which then listens after the stop pass is over: \<open>racingRun\<close>.\<close>

definition orderedRun :: service where
  "orderedRun = closeResumes 2 (serverClosed 1 0 True (idleKnown 1 True (cleanupStopped (cfDrainTimeout lifeConfig) 1
     (snd (closeService (listening 0 (startService lifeFresh)))))))"

definition racingRun :: service where
  "racingRun = closeResumes 2 (listening 0 (idleKnown 1 True (cleanupStopped (cfDrainTimeout lifeConfig) 1
     (snd (closeService (startService lifeFresh))))))"

lemmas run_simps = life_simps lifeConfig_def settled_def

lemma orderedRun_reached: "serviceRun lifeConfig True orderedRun"
proof -
  note step = run_step [where c = lifeConfig and careful = True]
  note r0 = lifeFresh_run [of True]
  note r1 = step [OF r0 sv_start]
  have r2: "serviceRun lifeConfig True (listening 0 (startService lifeFresh))"
    by (rule step [OF r1 sv_listening]) (simp_all add: run_simps)
  have r3: "serviceRun lifeConfig True (snd (closeService (listening 0 (startService lifeFresh))))"
    by (rule step [OF r2 sv_close]) (simp add: run_simps)
  let ?s4 = "cleanupStopped (cfDrainTimeout lifeConfig) 1 (snd (closeService (listening 0 (startService lifeFresh))))"
  have r4: "serviceRun lifeConfig True ?s4"
    by (rule step [OF r3 sv_cleanup]) (simp_all add: run_simps)
  have r5: "serviceRun lifeConfig True (idleKnown 1 True ?s4)"
    by (rule step [OF r4 sv_idle [where w = 3]]) (simp_all add: run_simps)
  have r6: "serviceRun lifeConfig True (serverClosed 1 0 True (idleKnown 1 True ?s4))"
    by (rule step [OF r5 sv_closed]) (simp_all add: run_simps)
  show ?thesis unfolding orderedRun_def
    by (rule step [OF r6 sv_resume [where p = 1 and d = True]]) (simp_all add: run_simps)
qed

lemma racingRun_reached: "serviceRun lifeConfig False racingRun"
proof -
  note step = run_step [where c = lifeConfig and careful = False]
  note r0 = lifeFresh_run [of False]
  have r1: "serviceRun lifeConfig False (startService lifeFresh)" by (rule step [OF r0 sv_start]) simp
  have r2: "serviceRun lifeConfig False (snd (closeService (startService lifeFresh)))" by (rule step [OF r1 sv_close]) simp
  let ?s3 = "cleanupStopped (cfDrainTimeout lifeConfig) 1 (snd (closeService (startService lifeFresh)))"
  have r3: "serviceRun lifeConfig False ?s3"
    by (rule step [OF r2 sv_cleanup]) (simp_all add: run_simps)
  have r4: "serviceRun lifeConfig False (idleKnown 1 True ?s3)"
    by (rule step [OF r3 sv_idle [where w = 3]]) (simp_all add: run_simps)
  have r5: "serviceRun lifeConfig False (listening 0 (idleKnown 1 True ?s3))"
    by (rule step [OF r4 sv_listening]) (simp_all add: run_simps)
  show ?thesis unfolding racingRun_def
    by (rule step [OF r5 sv_resume [where p = 1 and d = True]]) (simp_all add: run_simps)
qed

theorem shutdown_ordered_witness:
  "fst (tryAcquire 24 (svTracker orderedRun)) = False \<and> svServer orderedRun = None \<and> svDestroyed orderedRun = 1
     \<and> svOpen orderedRun = []"
proof -
  have "svClose orderedRun = Some 2" "map_of (svCloses orderedRun) 2 = Some PoolClosed"
    "svDestroyed orderedRun = 1" "svOpen orderedRun = []" "svStops orderedRun = [(1, Stopped True)]"
    by (simp_all add: orderedRun_def run_simps)
  then show ?thesis using shutdown_ordered [OF orderedRun_reached, of 2 24] by simp
qed

text \<open>C28: A close that overtakes a start leaks the server. Whenever close is called while a start waits for
  its server and no stop pass is under way, and its own stop pass ends before the listen completes
  (whatever else happens, except another start), then once the server listens it is registered and
  open for ever: no later sequence of events of any kind closes it, since start, stop and close change
  nothing any more, although the close destroys the pool of connections when it resumes.\<close>

theorem close_during_start_leaks:
  assumes "startPending n s" "serviceSteps drain (snd (closeService s)) es1 s1"
    "set es1 \<inter> {StartCall, Listening n, ListenFails n} = {}"
    "map_of (svStops s1) (fst (stopService s)) = Some (Stopped d)" "serviceSteps drain (listening n s1) es2 s2"
  shows "svServer s2 = Some n \<and> n \<in> set (svOpen s2) \<and> startService s2 = s2 \<and> snd (stopService s2) = s2
    \<and> snd (closeService s2) = s2
    \<and> (svOwnsPool s \<and> CloseResumes (fst (closeService s)) \<in> set es1 \<union> set es2 \<longrightarrow> svDestroyed s < svDestroyed s2)"
proof -
  let ?p = "fst (stopService s)"
  have "overtaken n ?p (snd (closeService s))"
    using assms(1) [unfolded startPending_def passesOver_def] unfolding overtaken_def passesOver_others
    by (auto simp: closeService_def stopService_def performStop_def Let_def)
  then have o: "overtaken n ?p s1" using overtaken_steps assms(2,3) by blast
  have "leaked n (listening n s1)"
    using o [unfolded overtaken_def passesOver_others] assms(4) unfolding leaked_def passesOver_def
    by (auto simp: listening_def) (metis option.inject)
  then have l: "leaked n s2" using leaked_steps assms(5) by blast
  have pool0: "svOwnsPool (snd (closeService s)) = svOwnsPool s \<and> svDestroyed (snd (closeService s)) = svDestroyed s"
    by (auto simp: closeService_def stopService_def performStop_def Let_def split: option.splits)
  have mid: "svOwnsPool (listening n s1) = svOwnsPool s1" "svDestroyed (listening n s1) = svDestroyed s1"
    by (simp_all add: listening_def)
  have "svOwnsPool s \<and> CloseResumes k \<in> set es1 \<union> set es2 \<Longrightarrow> svDestroyed s < svDestroyed s2" for k
    using steps_pool [OF assms(2), of k] steps_pool [OF assms(5), of k] pool0 mid by auto
  moreover have "startService s2 = s2 \<and> snd (stopService s2) = s2 \<and> snd (closeService s2) = s2"
    using l by (auto simp: leaked_def startService_def stopService_def closeService_def)
  ultimately show ?thesis using l unfolding leaked_def by blast
qed

theorem close_during_start_leaks_witness:
  "serviceRun lifeConfig False racingRun \<and> svServer racingRun = Some 0 \<and> 0 \<in> set (svOpen racingRun)
     \<and> 0 < svDestroyed racingRun \<and> snd (stopService racingRun) = racingRun"
proof -
  let ?s = "startService lifeFresh" and ?c = "cleanupStopped (cfDrainTimeout lifeConfig) 1 (snd (closeService (startService lifeFresh)))"
  note none = steps_none [of "cfDrainTimeout lifeConfig"]
  have p: "startPending 0 ?s" by (simp add: startPending_def passesOver_def run_simps)
  have "serviceStep (cfDrainTimeout lifeConfig) (snd (closeService ?s)) (CleanupStopped 1) ?c"
    by (rule sv_cleanup) (simp add: run_simps)
  moreover have "serviceStep (cfDrainTimeout lifeConfig) ?c (IdleKnown 1) (idleKnown 1 True ?c)"
    by (rule sv_idle [where w = 3]) (simp_all add: run_simps)
  ultimately have e1: "serviceSteps (cfDrainTimeout lifeConfig) (snd (closeService ?s)) [CleanupStopped 1, IdleKnown 1] (idleKnown 1 True ?c)"
    using none steps_more by meson
  have "serviceStep (cfDrainTimeout lifeConfig) (listening 0 (idleKnown 1 True ?c)) (CloseResumes 2) racingRun"
    unfolding racingRun_def by (rule sv_resume [where p = 1 and d = True]) (simp_all add: run_simps)
  then have e2: "serviceSteps (cfDrainTimeout lifeConfig) (listening 0 (idleKnown 1 True ?c)) [CloseResumes 2] racingRun"
    using none steps_more by meson
  have m: "map_of (svStops (idleKnown 1 True ?c)) (fst (stopService ?s)) = Some (Stopped True)"
    "fst (closeService ?s) = 2" "svOwnsPool ?s" "svDestroyed ?s = 0"
    by (simp_all add: run_simps)
  show ?thesis using close_during_start_leaks [OF p e1 _ m(1) e2] racingRun_reached m by simp
qed

text \<open>A configuration that was accepted starts an application whose limiters are well-formed.\<close>

lemma limiterFor_ok:
  assumes "2 \<le> n" "safeInteger n"
  shows "\<exists>l. limiterFor n = Inr l \<and> limiterOk l \<and> lLimit l = n"
proof -
  have "positiveSafe (IntNum n)" "safeInt (IntNum n) = n"
    using assms by (simp_all add: positiveSafe_def isSafeInteger_def safeInteger_def safeInt_def)
  moreover have "positiveSafe (IntNum RATE_LIMIT_WINDOW_MS)" "positiveSafe (IntNum (int RATE_LIMIT_MAX_KEYS))"
    by (simp_all add: positiveSafe_def isSafeInteger_def RATE_LIMIT_WINDOW_MS_def RATE_LIMIT_MAX_KEYS_def)
  ultimately show ?thesis using assms(1)
    by (simp add: limiterFor_def createFixedWindowRateLimiter_def orDefault_def Let_def limiterOk_def safeInt_def
        RATE_LIMIT_WINDOW_MS_def RATE_LIMIT_MAX_KEYS_def)
qed

text \<open>An accepted configuration is enforced by the service it creates: creation cannot fail on its
  limits, and in every state the application reaches the configured number of requests in flight is
  never exceeded, nor the key bound of the limiters, which admit the configured rates.\<close>

theorem config_enforced:
  assumes "configOk parseUrl c"
  shows "\<exists>svc cfg. createService c ownsPool = Inr svc \<and> appConfigOf c parse migrated probe = Inr cfg
    \<and> lLimit (acIpLimiter cfg) = cfPreAuthRate c \<and> lLimit (acIdLimiter cfg) = cfAuthRate c
    \<and> acTrustedProxy cfg = cfTrustedProxy c \<and> acOrigins cfg = cfOrigins c
    \<and> (\<forall>a. appReach cfg a \<longrightarrow> int (tkActive (apTracker a)) \<le> cfMaxConcurrent c
         \<and> length (apIp a) \<le> RATE_LIMIT_MAX_KEYS \<and> length (apId a) \<le> RATE_LIMIT_MAX_KEYS)"
proof -
  have c: "2 \<le> cfPreAuthRate c" "2 \<le> cfAuthRate c" "safeInteger (cfPreAuthRate c)" "safeInteger (cfAuthRate c)"
      "1 \<le> cfMaxConcurrent c" "1000 \<le> cfCleanupInterval c" "safeInteger (cfCleanupInterval c)"
      "cfTrustedProxy c = [] \<or> normalizeIpLiteral (cfTrustedProxy c) = Some (cfTrustedProxy c)"
    using assms by (simp_all add: configOk_def)
  obtain l1 l2 where l: "limiterFor (cfPreAuthRate c) = Inr l1" "limiterOk l1" "lLimit l1 = cfPreAuthRate c"
      "limiterFor (cfAuthRate c) = Inr l2" "limiterOk l2" "lLimit l2 = cfAuthRate c"
    using limiterFor_ok c by metis
  have k: "lMaxKeys l = RATE_LIMIT_MAX_KEYS" if "limiterFor n = Inr l" for n l
    using that by (auto simp: limiterFor_def createFixedWindowRateLimiter_def orDefault_def result_simps Let_def safeInt_def)
  have p: "parseTrustedProxy (Str (cfTrustedProxy c)) = Inr (cfTrustedProxy c)"
    using c(8) by (auto simp: parseTrustedProxy_def)
  obtain cfg where cfg: "appConfigOf c parse migrated probe = Inr cfg" "acIpLimiter cfg = l1" "acIdLimiter cfg = l2"
      "acTrustedProxy cfg = cfTrustedProxy c" "acOrigins cfg = cfOrigins c" "acMaxConcurrent cfg = nat (cfMaxConcurrent c)"
    using l p by (simp add: appConfigOf_def)
  have "positiveSafe (IntNum (cfCleanupInterval c))"
    using c(6,7) by (simp add: positiveSafe_def isSafeInteger_def safeInteger_def)
  then obtain svc where svc: "createService c ownsPool = Inr svc" by (simp add: createService_def createCleanupScheduler_def)
  have ok: "limitersOk cfg" using cfg l by (simp add: limitersOk_def)
  have "int (tkActive (apTracker a)) \<le> cfMaxConcurrent c \<and> length (apIp a) \<le> RATE_LIMIT_MAX_KEYS
      \<and> length (apId a) \<le> RATE_LIMIT_MAX_KEYS" if "appReach cfg a" for a
    using appReach_inv [OF that ok] cfg k [OF l(1)] k [OF l(4)] c(5) by (auto simp: appInv_def bucketsOk_def)
  then show ?thesis using svc cfg l by blast
qed

theorem config_enforced_witness:
  "\<exists>cfg. appConfigOf lifeConfig (\<lambda>s. None) True None = Inr cfg \<and> lLimit (acIpLimiter cfg) = 300"
proof -
  have "configOk (\<lambda>s. None) lifeConfig"
    by (simp add: configOk_def mysqlOk_def lifeConfig_def safeInteger_def CLEANUP_OWNERS_MAX_def)
      (simp add: js_def SERVICE_VERSION_def)
  from config_enforced [OF this, of True "\<lambda>s. None" True None] show ?thesis by (auto simp: lifeConfig_def)
qed

end
