(* ===== verification/Calls.thy ===== *)
theory Calls
  imports Prelude
begin

section \<open>Programs that call other systems\<close>

text \<open>
  The client modules of \<open>src/\<close> (\<open>replica.ts\<close>, \<open>inbound.ts\<close>, \<open>outbound-runtime.js\<close>) call services the
  repository does not contain: a message box server, a local database, the history service over
  HTTP. Such a program is a function from the calls made so far to a result and the calls made
  after it; what a call answers is given by a parameter that may depend on the whole history, so a
  statement about a program holds for every behaviour of what it calls. A policy says which call
  may follow which history; the rules collected in \<open>call_rules\<close> compose it.
\<close>

type_synonym ('c, 'e, 'a) act = "'c list \<Rightarrow> ('e + 'a) \<times> 'c list"

definition actPure :: "'e + 'a \<Rightarrow> ('c, 'e, 'a) act" where
  "actPure r h = (r, h)"

definition actBind :: "('c, 'e, 'a) act \<Rightarrow> ('a \<Rightarrow> ('c, 'e, 'b) act) \<Rightarrow> ('c, 'e, 'b) act" where
  "actBind m f h = (case m h of (Inl e, h') \<Rightarrow> (Inl e, h') | (Inr x, h') \<Rightarrow> f x h')"

text \<open>\<open>try\<close> with \<open>catch\<close>, and \<open>try\<close> with \<open>finally\<close> whose block may throw.\<close>

definition actTry :: "('c, 'e, 'a) act \<Rightarrow> ('e \<Rightarrow> ('c, 'f, 'a) act) \<Rightarrow> ('c, 'f, 'a) act" where
  "actTry m f h = (case m h of (Inl e, h') \<Rightarrow> f e h' | (Inr x, h') \<Rightarrow> (Inr x, h'))"

text \<open>A call: it is recorded, and answered by what the history so far makes of it.\<close>

definition actCall :: "'c \<Rightarrow> ('c list \<Rightarrow> 'e + 'a) \<Rightarrow> ('c, 'e, 'a) act" where
  "actCall c answer h = (answer h, h @ [c])"

text \<open>A condition read from the outside world, such as an abort signal.\<close>

definition actSees :: "('c list \<Rightarrow> bool) \<Rightarrow> (bool \<Rightarrow> ('c, 'e, 'a) act) \<Rightarrow> ('c, 'e, 'a) act" where
  "actSees p f h = f (p h) h"

lemma actBind_cong [fundef_cong]:
  "m = m' \<Longrightarrow> (\<And>x. f x = f' x) \<Longrightarrow> actBind m f = actBind m' f'"
  by (simp add: actBind_def fun_eq_iff split: prod.split sum.split)

subsection \<open>Policies\<close>

inductive callsFrom :: "('c list \<Rightarrow> 'c \<Rightarrow> bool) \<Rightarrow> 'c list \<Rightarrow> 'c list \<Rightarrow> bool" for P and h where
  calls_none: "callsFrom P h h"
| calls_more: "callsFrom P h g \<Longrightarrow> P g c \<Longrightarrow> callsFrom P h (g @ [c])"

lemma callsFrom_trans: "callsFrom P g k \<Longrightarrow> callsFrom P h g \<Longrightarrow> callsFrom P h k"
  by (induction rule: callsFrom.induct) (auto intro: calls_more)

lemma callsFrom_prefix: "callsFrom P h k \<Longrightarrow> \<exists>new. k = h @ new"
  by (induction rule: callsFrom.induct) auto

text \<open>Every call of an allowed run, with the history before it.\<close>

lemma callsFrom_split: "callsFrom P h k \<Longrightarrow> k = g @ c # rest \<Longrightarrow> length h \<le> length g \<Longrightarrow> P g c"
proof (induction arbitrary: rest rule: callsFrom.induct)
  case (calls_more k' d)
  then show ?case
    by (cases rest rule: rev_cases) auto
qed simp

definition obeys :: "('c list \<Rightarrow> 'c \<Rightarrow> bool) \<Rightarrow> ('c, 'e, 'a) act \<Rightarrow> bool" where
  "obeys P m \<longleftrightarrow> (\<forall>h. callsFrom P h (snd (m h)))"

named_theorems call_rules \<open>programs that obey a policy of calls\<close>

lemma obeys_pure [call_rules]: "obeys P (actPure r)"
  by (simp add: obeys_def actPure_def calls_none)

lemma obeys_bind: "obeys P m \<Longrightarrow> (\<And>x. obeys P (f x)) \<Longrightarrow> obeys P (actBind m f)"
  unfolding obeys_def actBind_def
  by (auto split: prod.split sum.split) (metis snd_conv, metis callsFrom_trans snd_conv)

lemma obeys_try: "obeys P m \<Longrightarrow> (\<And>e. obeys P (f e)) \<Longrightarrow> obeys P (actTry m f)"
  unfolding obeys_def actTry_def
  by (auto split: prod.split sum.split) (metis callsFrom_trans snd_conv, metis snd_conv)

lemma obeys_call: "(\<And>h. P h c) \<Longrightarrow> obeys P (actCall c answer)"
  by (simp add: obeys_def actCall_def calls_more calls_none)

lemma obeys_sees: "(\<And>b. obeys P (f b)) \<Longrightarrow> obeys P (actSees p f)"
  by (simp add: obeys_def actSees_def)

lemma obeys_if [call_rules]: "(b \<Longrightarrow> obeys P m) \<Longrightarrow> (\<not> b \<Longrightarrow> obeys P n) \<Longrightarrow> obeys P (if b then m else n)"
  by simp

lemma obeys_calls: "obeys P m \<Longrightarrow> m h = (r, h') \<Longrightarrow> callsFrom P h h'"
  by (metis obeys_def snd_conv)

text \<open>A check that may throw before the rest runs, and a part that runs under a condition on the
  history, such as right after a signal was read.\<close>

lemma obeys_check [call_rules]:
  "(\<And>x. r = Inr x \<Longrightarrow> obeys P (f x)) \<Longrightarrow> obeys P (actBind (actPure r) f)"
  by (cases r) (simp_all add: obeys_def actBind_def actPure_def calls_none)

lemma obeys_call_bind [call_rules]:
  "(\<And>h. P h c) \<Longrightarrow> (\<And>x. obeys P (f x)) \<Longrightarrow> obeys P (actBind (actCall c a) f)"
  by (intro obeys_bind obeys_call)

definition obeysWhen :: "('c list \<Rightarrow> bool) \<Rightarrow> ('c list \<Rightarrow> 'c \<Rightarrow> bool) \<Rightarrow> ('c, 'e, 'a) act \<Rightarrow> bool" where
  "obeysWhen Q P m \<longleftrightarrow> (\<forall>h. Q h \<longrightarrow> callsFrom P h (snd (m h)))"

lemma obeysWhen_obeys: "obeys P m \<Longrightarrow> obeysWhen Q P m"
  by (simp add: obeys_def obeysWhen_def)

lemma obeysWhen_call:
  assumes "\<And>h. Q h \<Longrightarrow> P h c" "\<And>x. obeys P (f x)"
  shows "obeysWhen Q P (actBind (actCall c answer) f)"
  unfolding obeysWhen_def
proof (intro allI impI)
  fix h assume "Q h"
  then have c: "callsFrom P h (h @ [c])" using assms(1) by (simp add: calls_more calls_none)
  show "callsFrom P h (snd (actBind (actCall c answer) f h))"
  proof (cases "answer h")
    case (Inr x)
    have "callsFrom P (h @ [c]) (snd (f x (h @ [c])))" using assms(2) by (simp add: obeys_def)
    then show ?thesis using c Inr callsFrom_trans by (simp add: actBind_def actCall_def)
  qed (use c in \<open>simp add: actBind_def actCall_def\<close>)
qed

lemma obeys_obeysWhen: "obeys P m \<longleftrightarrow> obeysWhen (\<lambda>h. True) P m"
  by (simp add: obeys_def obeysWhen_def)

lemma callsFrom_step:
  assumes "callsFrom P h (snd (m h))" "m h = (r, h')" "callsFrom P h' k"
  shows "callsFrom P h k"
  using assms callsFrom_trans by fastforce

lemma obeysWhen_bind: "obeysWhen Q P m \<Longrightarrow> (\<And>x. obeys P (f x)) \<Longrightarrow> obeysWhen Q P (actBind m f)"
  unfolding obeys_def obeysWhen_def actBind_def
  by (auto split: prod.split sum.split intro: callsFrom_step)

lemma obeysWhen_try: "obeysWhen Q P m \<Longrightarrow> (\<And>e. obeys P (f e)) \<Longrightarrow> obeysWhen Q P (actTry m f)"
  unfolding obeys_def obeysWhen_def actTry_def
  by (auto split: prod.split sum.split intro: callsFrom_step)

lemma obeysWhen_check:
  "(\<And>x. r = Inr x \<Longrightarrow> obeysWhen Q P (f x)) \<Longrightarrow> obeysWhen Q P (actBind (actPure r) f)"
  by (cases r) (simp_all add: obeysWhen_def actBind_def actPure_def calls_none)

text \<open>An error may be replaced by another when it leaves a program.\<close>

lemma obeysWhen_rethrow:
  "obeysWhen Q P m \<Longrightarrow> obeysWhen Q P (\<lambda>h. case m h of (Inr x, h') \<Rightarrow> (Inr x, h') | (Inl e, h') \<Rightarrow> (Inl (g h h' e), h'))"
  unfolding obeysWhen_def by (auto split: prod.split sum.split intro: callsFrom_step calls_none)

lemma obeys_sees_when:
  "obeysWhen (\<lambda>h. \<not> p h) P (f False) \<Longrightarrow> obeys P (f True) \<Longrightarrow> obeys P (actSees p f)"
  unfolding obeys_def obeysWhen_def actSees_def by (metis (full_types))

text \<open>A count of calls that a program raises by at most a bound.\<close>

definition callsAtMost :: "('c \<Rightarrow> bool) \<Rightarrow> nat \<Rightarrow> ('c, 'e, 'a) act \<Rightarrow> bool" where
  "callsAtMost p n m \<longleftrightarrow> (\<forall>h. length (filter p (snd (m h))) \<le> length (filter p h) + n)"

named_theorems count_rules \<open>bounds on the number of calls\<close>

lemma callsAtMost_pure [count_rules]: "callsAtMost p n (actPure r)"
  by (simp add: callsAtMost_def actPure_def)

lemma callsAtMost_check [count_rules]: "(\<And>x. r = Inr x \<Longrightarrow> callsAtMost p n (f x)) \<Longrightarrow> callsAtMost p n (actBind (actPure r) f)"
  by (cases r) (simp_all add: callsAtMost_def actBind_def actPure_def)

lemma callsAtMost_bind: "callsAtMost p m a \<Longrightarrow> (\<And>x. callsAtMost p k (f x)) \<Longrightarrow> m + k \<le> n \<Longrightarrow> callsAtMost p n (actBind a f)"
  unfolding callsAtMost_def actBind_def
proof
  fix h assume a: "\<forall>h. length (filter p (snd (a h))) \<le> length (filter p h) + m"
    "\<And>x. \<forall>h. length (filter p (snd (f x h))) \<le> length (filter p h) + k" "m + k \<le> n"
  show "length (filter p (snd (case a h of (Inl e, h') \<Rightarrow> (Inl e, h') | (Inr x, h') \<Rightarrow> f x h'))) \<le> length (filter p h) + n"
  proof (cases "a h")
    case (Pair r h1)
    then have h1: "length (filter p h1) \<le> length (filter p h) + m" using a(1) by (metis snd_conv)
    show ?thesis
    proof (cases r)
      case (Inr x)
      have "length (filter p (snd (f x h1))) \<le> length (filter p h1) + k" using a(2) by blast
      then show ?thesis using Pair Inr h1 a(3) by simp
    qed (use Pair h1 a(3) in simp)
  qed
qed

lemma callsAtMost_free [count_rules]: "\<not> p c \<Longrightarrow> (\<And>x. callsAtMost p n (f x)) \<Longrightarrow> callsAtMost p n (actBind (actCall c a) f)"
  by (rule callsAtMost_bind [of p 0 _ n]) (simp_all add: callsAtMost_def actCall_def)

lemma callsAtMost_one: "(\<And>x. callsAtMost p n (f x)) \<Longrightarrow> callsAtMost p (Suc n) (actBind (actCall c a) f)"
  by (rule callsAtMost_bind [of p 1 _ n]) (simp_all add: callsAtMost_def actCall_def)

lemma callsAtMost_sees [count_rules]: "callsAtMost p n (f True) \<Longrightarrow> callsAtMost p n (f False) \<Longrightarrow> callsAtMost p n (actSees q f)"
  unfolding callsAtMost_def actSees_def by (metis (full_types))

lemma callsAtMost_mono: "callsAtMost p m a \<Longrightarrow> m \<le> n \<Longrightarrow> callsAtMost p n a"
  unfolding callsAtMost_def by (meson add_mono_thms_linordered_semiring(2) le_trans)

lemma callsAtMost_try: "callsAtMost p m a \<Longrightarrow> (\<And>e. callsAtMost p k (f e)) \<Longrightarrow> m + k \<le> n \<Longrightarrow> callsAtMost p n (actTry a f)"
  unfolding callsAtMost_def actTry_def
proof
  fix h assume a: "\<forall>h. length (filter p (snd (a h))) \<le> length (filter p h) + m"
    "\<And>e. \<forall>h. length (filter p (snd (f e h))) \<le> length (filter p h) + k" "m + k \<le> n"
  show "length (filter p (snd (case a h of (Inl e, h') \<Rightarrow> f e h' | (Inr x, h') \<Rightarrow> (Inr x, h')))) \<le> length (filter p h) + n"
  proof (cases "a h")
    case (Pair r h1)
    then have h1: "length (filter p h1) \<le> length (filter p h) + m" using a(1) by (metis snd_conv)
    show ?thesis
    proof (cases r)
      case (Inl e)
      have "length (filter p (snd (f e h1))) \<le> length (filter p h1) + k" using a(2) by blast
      then show ?thesis using Pair Inl h1 a(3) by simp
    qed (use Pair h1 a(3) in simp)
  qed
qed

subsection \<open>Weakest preconditions\<close>

text \<open>What holds of the result and the calls of a program; the equations in \<open>wp_simps\<close> compute it.\<close>

definition wp :: "('c, 'e, 'a) act \<Rightarrow> ('e + 'a \<Rightarrow> 'c list \<Rightarrow> bool) \<Rightarrow> 'c list \<Rightarrow> bool" where
  "wp m Q h = Q (fst (m h)) (snd (m h))"

named_theorems wp_simps \<open>weakest preconditions of programs\<close>

lemma wp_pure [wp_simps]: "wp (actPure r) Q h = Q r h"
  by (simp add: wp_def actPure_def)

lemma wp_call [wp_simps]: "wp (actCall c a) Q h = Q (a h) (h @ [c])"
  by (simp add: wp_def actCall_def)

lemma wp_bind [wp_simps]:
  "wp (actBind m f) Q h = wp m (\<lambda>r h'. case r of Inl e \<Rightarrow> Q (Inl e) h' | Inr x \<Rightarrow> wp (f x) Q h') h"
  by (simp add: wp_def actBind_def split: prod.split sum.split)

lemma wp_try [wp_simps]:
  "wp (actTry m f) Q h = wp m (\<lambda>r h'. case r of Inl e \<Rightarrow> wp (f e) Q h' | Inr x \<Rightarrow> Q (Inr x) h') h"
  by (simp add: wp_def actTry_def split: prod.split sum.split)

lemma wp_if [wp_simps]: "wp (if b then m else n) Q h = (if b then wp m Q h else wp n Q h)"
  by simp

lemma wp_mono: "wp m Q h \<Longrightarrow> (\<And>r h'. Q r h' \<Longrightarrow> R r h') \<Longrightarrow> wp m R h"
  by (simp add: wp_def)

lemma wp_run: "wp m Q h \<Longrightarrow> m h = (r, h') \<Longrightarrow> Q r h'"
  by (simp add: wp_def)

end
