(* ===== verification/Replica.thy ===== *)
theory Replica
  imports Calls ServiceInput "HOL-Library.Multiset"
begin

section \<open>Synchronising a local replica\<close>

text \<open>
  \<open>src/replica.ts\<close>: one bounded reconciliation cycle of a local replica with the history service.
  The service, the local database and the abort signal are parameters (\<open>replica_env\<close>), whose answers
  may depend on every call made before; the calls themselves are the trace (theory \<open>Calls\<close>). The
  content of a history record beyond its key and sequence is passed on unread.
\<close>

subsection \<open>Data\<close>

record replica_filter =
  rfDirection :: "jsstr option"
  rfMessageBox :: "jsstr option"
  rfParticipant :: "jsstr option"

definition normalizeReplicaFilter :: "feed_filter \<Rightarrow> replica_filter" where
  "normalizeReplicaFilter f = \<lparr>rfDirection = ffDirection f, rfMessageBox = ffMessageBox f, rfParticipant = ffParticipant f\<rparr>"

definition wireFilter :: "replica_filter \<Rightarrow> feed_filter" where
  "wireFilter f = \<lparr>ffDirection = rfDirection f, ffMessageBox = rfMessageBox f, ffParticipant = rfParticipant f\<rparr>"

record replica_scope =
  rsOwner :: jsstr
  rsFilter :: replica_filter

record continuation =
  cnCursor :: jsstr
  cnWatermark :: jsstr

record replica_version =
  rvEpoch :: jsstr
  rvCheckpoint :: jsstr
  rvGeneration :: jsstr
  rvContinuation :: "continuation option"

record replica_coverage = replica_version +
  rvScope :: replica_scope

definition replicaVersion :: "replica_coverage \<Rightarrow> replica_version" where
  "replicaVersion c = \<lparr>rvEpoch = rvEpoch c, rvCheckpoint = rvCheckpoint c, rvGeneration = rvGeneration c,
     rvContinuation = rvContinuation c\<rparr>"

datatype page_event = RecordEvent jsstr jsstr jsval | DeletionEvent jsstr jsstr jsstr

record history_page =
  hpRecords :: "page_event list"
  hpHasMore :: bool
  hpNextCursor :: "jsstr option"
  hpCheckpoint :: jsstr
  hpWatermark :: jsstr
  hpEpoch :: jsstr

record created_snapshot =
  csId :: jsstr
  csEpoch :: jsstr
  csWatermark :: jsstr
  csActive :: bool

record snapshot_ref =
  rfScope :: replica_scope
  rfEpoch :: jsstr
  rfSnapshot :: jsstr

subsection \<open>Checks of a page\<close>

definition replicaSyncError :: "string \<Rightarrow> jserr" where
  "replicaSyncError m = JsErr PlainError (Some (Other_Code ''ERR_REPLICA_PAGE_INCONSISTENT'')) m"

text \<open>The number of a canonical decimal text. The messages of the code name the field.\<close>

definition decimal :: "jsstr \<Rightarrow> string \<Rightarrow> nat result" where
  "decimal value name =
     (if \<not> canonicalDec value then Inl (replicaSyncError (name @ '' is not a canonical uint64 decimal''))
      else if MAX_UINT64 < natOfDec value then Inl (replicaSyncError (name @ '' exceeds uint64''))
      else Inr (natOfDec value))"

definition eventSequence :: "page_event \<Rightarrow> jsstr" where
  "eventSequence e = (case e of RecordEvent _ s _ \<Rightarrow> s | DeletionEvent _ s _ \<Rightarrow> s)"

definition isRecordEvent :: "page_event \<Rightarrow> bool" where
  "isRecordEvent e = (case e of RecordEvent _ _ _ \<Rightarrow> True | DeletionEvent _ _ _ \<Rightarrow> False)"

fun sequenced :: "page_event list \<Rightarrow> (page_event \<times> nat) list result" where
  "sequenced [] = Inr []"
| "sequenced (e # es) = andThen (decimal (eventSequence e) ''record sequence'') (\<lambda>n.
     andThen (sequenced es) (\<lambda>ps. Inr ((e, n) # ps)))"

text \<open>The comparison of the code orders by sequence and keeps the order of equal sequences.\<close>

definition orderedEvents :: "history_page \<Rightarrow> page_event list result" where
  "orderedEvents p =
     andThen (decimal (hpCheckpoint p) ''page checkpoint'') (\<lambda>checkpoint.
     andThen (sequenced (hpRecords p)) (\<lambda>ps.
     let sorted = sort_key snd ps in
     andThen (require (list_all (\<lambda>(e, n). n \<le> checkpoint) sorted)
       (replicaSyncError ''record sequence exceeds page checkpoint'')) (\<lambda>_.
     Inr (map fst sorted))))"

definition assertPageShape :: "history_page \<Rightarrow> unit result" where
  "assertPageShape p =
     andThen (decimal (hpCheckpoint p) ''page checkpoint'') (\<lambda>c.
     andThen (decimal (hpWatermark p) ''page watermark'') (\<lambda>w.
     andThen (require (hpHasMore p \<longleftrightarrow> hpNextCursor p \<noteq> None) (replicaSyncError ''page continuation fields disagree'')) (\<lambda>_.
     andThen (require (c \<le> w) (replicaSyncError ''page checkpoint exceeds watermark'')) (\<lambda>_.
     require (hpHasMore p \<or> hpCheckpoint p = hpWatermark p)
       (replicaSyncError ''terminal page checkpoint must equal watermark'')))))"

subsection \<open>The outside world\<close>

datatype replica_call =
    RcReadCoverage replica_scope
  | RcCreateSnapshot feed_filter
  | RcBegin snapshot_ref "replica_version option"
  | RcSnapshotPage jsstr "jsstr option"
  | RcStage snapshot_ref "page_event list"
  | RcCommit snapshot_ref jsstr
  | RcDiscard snapshot_ref
  | RcChanges feed_filter "jsstr + (jsstr \<times> jsstr)"
  | RcApply replica_scope jsstr "page_event list" jsstr "continuation option" replica_version

record replica_env =
  reCoverage :: "replica_call list \<Rightarrow> replica_coverage option result"
  reSnapshot :: "replica_call list \<Rightarrow> created_snapshot result"
  rePage :: "replica_call list \<Rightarrow> history_page result"
  reWritten :: "replica_call list \<Rightarrow> unit result"
  reCovered :: "replica_call list \<Rightarrow> replica_coverage result"
  reAborted :: "replica_call list \<Rightarrow> bool"

type_synonym 'a replica_act = "(replica_call, jserr, 'a) act"

datatype sync_status = SyncComplete | SyncPartial | SyncCancelled
datatype sync_mode = SnapshotMode | IncrementalMode

record sync_result =
  syStatus :: sync_status
  syMode :: sync_mode
  syPages :: nat
  syRecords :: nat
  syCoverage :: "replica_coverage option"

definition snapshotResult :: "sync_status \<Rightarrow> nat \<Rightarrow> nat \<Rightarrow> replica_coverage option \<Rightarrow> sync_result" where
  "snapshotResult st p r c = \<lparr>syStatus = st, syMode = SnapshotMode, syPages = p, syRecords = r, syCoverage = c\<rparr>"

definition incrementalResult :: "sync_status \<Rightarrow> nat \<Rightarrow> nat \<Rightarrow> replica_coverage \<Rightarrow> sync_result" where
  "incrementalResult st p r c = \<lparr>syStatus = st, syMode = IncrementalMode, syPages = p, syRecords = r, syCoverage = Some c\<rparr>"

text \<open>\<open>if (cancelled(signal)) return r\<close>.\<close>

definition unlessAborted :: "replica_env \<Rightarrow> 'a \<Rightarrow> 'a replica_act \<Rightarrow> 'a replica_act" where
  "unlessAborted E r m = actSees (reAborted E) (\<lambda>b. if b then actPure (Inr r) else m)"

subsection \<open>Staging a snapshot\<close>

text \<open>The loop over the snapshot's pages with its page budget.\<close>

fun snapshotLoop :: "replica_env \<Rightarrow> snapshot_ref \<Rightarrow> created_snapshot \<Rightarrow> nat \<Rightarrow> jsstr option \<Rightarrow> nat \<Rightarrow> nat \<Rightarrow> sync_result replica_act" where
  "snapshotLoop E ref s 0 cursor pages recs = actPure (Inr (snapshotResult SyncPartial pages recs None))"
| "snapshotLoop E ref s (Suc n) cursor pages recs =
     unlessAborted E (snapshotResult SyncCancelled pages recs None)
       (actBind (actCall (RcSnapshotPage (csId s) cursor) (rePage E)) (\<lambda>page.
        actBind (actPure (assertPageShape page)) (\<lambda>_.
        actBind (actPure (require (hpEpoch page = csEpoch s \<and> hpWatermark page = csWatermark s \<and> hpCheckpoint page = csWatermark s)
          (replicaSyncError ''snapshot page changed epoch or watermark''))) (\<lambda>_.
        actBind (actPure (require (list_all isRecordEvent (hpRecords page))
          (replicaSyncError ''snapshot page contained a deletion event''))) (\<lambda>_.
        unlessAborted E (snapshotResult SyncCancelled pages recs None)
          (actBind (actCall (RcStage ref (hpRecords page)) (reWritten E)) (\<lambda>_.
           if \<not> hpHasMore page then
             unlessAborted E (snapshotResult SyncCancelled (pages + 1) (recs + length (hpRecords page)) None)
               (actBind (actCall (RcCommit ref (csWatermark s)) (reCovered E)) (\<lambda>coverage.
                actPure (Inr (snapshotResult SyncComplete (pages + 1) (recs + length (hpRecords page)) (Some coverage)))))
           else snapshotLoop E ref s n (hpNextCursor page) (pages + 1) (recs + length (hpRecords page)))))))))"

text \<open>\<open>finally { if (!committed) await discardSnapshot }\<close>; only the complete result is committed.\<close>

definition discardUnlessCommitted :: "replica_env \<Rightarrow> snapshot_ref \<Rightarrow> sync_result replica_act \<Rightarrow> sync_result replica_act" where
  "discardUnlessCommitted E ref m h =
     (case m h of
        (Inr r, h1) \<Rightarrow>
          if syStatus r = SyncComplete then (Inr r, h1)
          else (case actCall (RcDiscard ref) (reWritten E) h1 of (Inl e, h2) \<Rightarrow> (Inl e, h2) | (Inr _, h2) \<Rightarrow> (Inr r, h2))
      | (Inl e, h1) \<Rightarrow>
          (case actCall (RcDiscard ref) (reWritten E) h1 of (Inl e', h2) \<Rightarrow> (Inl e', h2) | (Inr _, h2) \<Rightarrow> (Inl e, h2)))"

definition stageSnapshot :: "replica_env \<Rightarrow> replica_scope \<Rightarrow> feed_filter \<Rightarrow> replica_version option \<Rightarrow> nat \<Rightarrow> sync_result replica_act" where
  "stageSnapshot E scope flt expct maxPages =
     unlessAborted E (snapshotResult SyncCancelled 0 0 None)
       (actBind (actCall (RcCreateSnapshot flt) (reSnapshot E)) (\<lambda>s.
        actBind (actPure (require (csActive s) (replicaSyncError ''snapshot was invalidated before paging''))) (\<lambda>_.
        actBind (actPure (decimal (csWatermark s) ''snapshot watermark'')) (\<lambda>_.
        let ref = \<lparr>rfScope = scope, rfEpoch = csEpoch s, rfSnapshot = csId s\<rparr> in
        unlessAborted E (snapshotResult SyncCancelled 0 0 None)
          (actBind (actCall (RcBegin ref expct) (reWritten E)) (\<lambda>_.
           discardUnlessCommitted E ref (snapshotLoop E ref s maxPages None 0 0)))))))"

subsection \<open>Applying changes\<close>

definition changesArgs :: "replica_coverage \<Rightarrow> jsstr + (jsstr \<times> jsstr)" where
  "changesArgs c = (case rvContinuation c of None \<Rightarrow> Inr (rvCheckpoint c, rvEpoch c) | Some k \<Rightarrow> Inl (cnCursor k))"

definition pageContinuation :: "history_page \<Rightarrow> continuation option" where
  "pageContinuation p = (if hpHasMore p
     then Some \<lparr>cnCursor = (case hpNextCursor p of Some c \<Rightarrow> c | None \<Rightarrow> []), cnWatermark = hpWatermark p\<rparr> else None)"

fun changesLoop :: "replica_env \<Rightarrow> replica_scope \<Rightarrow> feed_filter \<Rightarrow> nat \<Rightarrow> jsstr option \<Rightarrow> replica_coverage \<Rightarrow> nat \<Rightarrow> nat \<Rightarrow> sync_result replica_act" where
  "changesLoop E scope flt 0 fixed cov pages recs = actPure (Inr (incrementalResult SyncPartial pages recs cov))"
| "changesLoop E scope flt (Suc n) fixed cov pages recs =
     unlessAborted E (incrementalResult SyncCancelled pages recs cov)
       (actBind (actCall (RcChanges flt (changesArgs cov)) (rePage E)) (\<lambda>page.
        actBind (actPure (assertPageShape page)) (\<lambda>_.
        actBind (actPure (require (hpEpoch page = rvEpoch cov)
          (JsErr PlainError (Some ERR_EPOCH_CHANGED) ''history epoch changed''))) (\<lambda>_.
        let expectedWatermark = (case fixed of None \<Rightarrow> hpWatermark page | Some w \<Rightarrow> w) in
        actBind (actPure (require (hpWatermark page = expectedWatermark)
          (replicaSyncError ''incremental pass watermark changed''))) (\<lambda>_.
        actBind (actPure (orderedEvents page)) (\<lambda>ordered.
        unlessAborted E (incrementalResult SyncCancelled pages recs cov)
          (actBind (actCall (RcApply scope (hpEpoch page) ordered (hpCheckpoint page) (pageContinuation page) (replicaVersion cov))
              (reCovered E)) (\<lambda>cov'.
           if \<not> hpHasMore page then actPure (Inr (incrementalResult SyncComplete (pages + 1) (recs + length ordered) cov'))
           else changesLoop E scope flt n (Some expectedWatermark) cov' (pages + 1) (recs + length ordered)))))))))"

definition applyChanges :: "replica_env \<Rightarrow> replica_scope \<Rightarrow> feed_filter \<Rightarrow> replica_coverage \<Rightarrow> nat \<Rightarrow> sync_result replica_act" where
  "applyChanges E scope flt cov maxPages =
     changesLoop E scope flt maxPages (map_option cnWatermark (rvContinuation cov)) cov 0 0"

subsection \<open>One cycle\<close>

definition isResnapshotError :: "jserr \<Rightarrow> bool" where
  "isResnapshotError e \<longleftrightarrow> err_code e = Some ERR_CURSOR_EXPIRED \<or> err_code e = Some ERR_EPOCH_CHANGED"

text \<open>The part of the cycle that starts with a snapshot, with the coverage read last.\<close>

definition snapshotCycle :: "replica_env \<Rightarrow> replica_scope \<Rightarrow> feed_filter \<Rightarrow> nat \<Rightarrow> replica_coverage option \<Rightarrow> sync_result replica_act" where
  "snapshotCycle E scope flt maxPages coverage =
     actBind (stageSnapshot E scope flt (map_option replicaVersion coverage) maxPages) (\<lambda>snap.
     case syCoverage snap of
       None \<Rightarrow> actPure (Inr snap)
     | Some c \<Rightarrow>
         if syStatus snap \<noteq> SyncComplete \<or> maxPages \<le> syPages snap then actPure (Inr snap)
         else actBind (applyChanges E scope flt c (maxPages - syPages snap)) (\<lambda>inc.
           actPure (Inr (inc\<lparr>syMode := SnapshotMode, syPages := syPages snap + syPages inc,
             syRecords := syRecords snap + syRecords inc\<rparr>))))"

text \<open>The cycle after the coverage was read: an incremental pass, with a snapshot when there is no
  coverage or the pass reports an expired cursor or a changed epoch.\<close>

definition cycleFrom :: "replica_env \<Rightarrow> replica_scope \<Rightarrow> feed_filter \<Rightarrow> nat \<Rightarrow> replica_coverage option \<Rightarrow> sync_result replica_act" where
  "cycleFrom E scope flt n coverage =
     (case coverage of
        None \<Rightarrow> snapshotCycle E scope flt n None
      | Some c \<Rightarrow> actTry (applyChanges E scope flt c n) (\<lambda>e.
          if \<not> isResnapshotError e then actPure (Inl e)
          else actBind (actCall (RcReadCoverage scope) (reCoverage E)) (snapshotCycle E scope flt n)))"

definition syncHistory :: "replica_env \<Rightarrow> jsval \<Rightarrow> jsstr \<Rightarrow> feed_filter \<Rightarrow> sync_result replica_act" where
  "syncHistory E maxPagesArg owner filterArg =
     (let maxPages = orDefault maxPagesArg (IntNum 100) in
      actBind (actPure (require (positiveSafe maxPages) (type_error ''maxPages must be a positive safe integer''))) (\<lambda>_.
      actBind (actPure (require (owner \<noteq> []) (type_error ''owner is required''))) (\<lambda>_.
      let n = nat (safeInt maxPages); normalized = normalizeReplicaFilter filterArg;
          scope = \<lparr>rsOwner = owner, rsFilter = normalized\<rparr>; flt = wireFilter normalized in
      actBind (actCall (RcReadCoverage scope) (reCoverage E)) (\<lambda>coverage.
      unlessAborted E \<lparr>syStatus = SyncCancelled, syMode = (if coverage = None then SnapshotMode else IncrementalMode),
          syPages = 0, syRecords = 0, syCoverage = coverage\<rparr>
        (cycleFrom E scope flt n coverage)))))"

subsection \<open>What a cycle may write\<close>

text \<open>The page an apply call writes: in sequence order, within its checkpoint, of the epoch of the
  coverage it replaces, with a continuation only below its watermark.\<close>

definition appliedPage :: "jsstr \<Rightarrow> page_event list \<Rightarrow> jsstr \<Rightarrow> continuation option \<Rightarrow> replica_version \<Rightarrow> bool" where
  "appliedPage epch evs checkpoint ctn version \<longleftrightarrow>
     sorted (map (natOfDec \<circ> eventSequence) evs)
     \<and> (\<forall>e \<in> set evs. canonicalDec (eventSequence e) \<and> natOfDec (eventSequence e) \<le> natOfDec checkpoint)
     \<and> canonicalDec checkpoint \<and> natOfDec checkpoint \<le> MAX_UINT64 \<and> epch = rvEpoch version
     \<and> (\<forall>k. ctn = Some k \<longrightarrow> natOfDec checkpoint \<le> natOfDec (cnWatermark k))"

definition syncPolicy :: "replica_env \<Rightarrow> replica_call list \<Rightarrow> replica_call \<Rightarrow> bool" where
  "syncPolicy E h c = (case c of
      RcBegin ref v \<Rightarrow> \<not> reAborted E h
    | RcStage ref evs \<Rightarrow> \<not> reAborted E h \<and> list_all isRecordEvent evs
    | RcCommit ref w \<Rightarrow> \<not> reAborted E h
    | RcApply scope epch evs checkpoint ctn version \<Rightarrow> \<not> reAborted E h \<and> appliedPage epch evs checkpoint ctn version
    | _ \<Rightarrow> True)"

lemma decimal_Inr: "decimal s n = Inr k \<longleftrightarrow> canonicalDec s \<and> natOfDec s = k \<and> k \<le> MAX_UINT64"
  by (auto simp: decimal_def not_le)

lemma sequenced_Inr: "sequenced es = Inr ps \<Longrightarrow>
    map fst ps = es \<and> (\<forall>(e, n) \<in> set ps. canonicalDec (eventSequence e) \<and> natOfDec (eventSequence e) = n)"
  by (induction es arbitrary: ps) (auto simp: result_simps decimal_Inr)

lemma orderedEvents_Inr:
  assumes "orderedEvents p = Inr evs"
  shows "sorted (map (natOfDec \<circ> eventSequence) evs)"
    and "\<forall>e \<in> set evs. canonicalDec (eventSequence e) \<and> natOfDec (eventSequence e) \<le> natOfDec (hpCheckpoint p)"
    and "canonicalDec (hpCheckpoint p)" "natOfDec (hpCheckpoint p) \<le> MAX_UINT64" "mset evs = mset (hpRecords p)"
proof -
  obtain ps where ps: "canonicalDec (hpCheckpoint p)" "natOfDec (hpCheckpoint p) \<le> MAX_UINT64"
      "sequenced (hpRecords p) = Inr ps" "\<forall>(e, n) \<in> set ps. n \<le> natOfDec (hpCheckpoint p)"
      "evs = map fst (sort_key snd ps)"
    using assms by (auto simp: orderedEvents_def result_simps decimal_Inr list_all_iff Let_def)
  note S = sequenced_Inr [OF ps(3)]
  have "map (natOfDec \<circ> eventSequence) evs = map snd (sort_key snd ps)"
    using S by (auto simp: ps(5) intro!: map_cong)
  then show "sorted (map (natOfDec \<circ> eventSequence) evs)" by simp
  show "\<forall>e \<in> set evs. canonicalDec (eventSequence e) \<and> natOfDec (eventSequence e) \<le> natOfDec (hpCheckpoint p)"
    using S ps(4) by (fastforce simp: ps(5))
  show "mset evs = mset (hpRecords p)" using S by (metis ps(5) mset_map mset_sort)
qed (use assms in \<open>auto simp: orderedEvents_def result_simps decimal_Inr\<close>)

lemma assertPageShape_ok: "assertPageShape p = Inr u \<Longrightarrow> natOfDec (hpCheckpoint p) \<le> natOfDec (hpWatermark p)"
  by (auto simp: assertPageShape_def result_simps decimal_Inr)

lemma obeys_unlessAborted [call_rules]:
  "obeysWhen (\<lambda>h. \<not> reAborted E h) P m \<Longrightarrow> obeys P (unlessAborted E r m)"
  unfolding unlessAborted_def by (rule obeys_sees_when) (simp_all add: obeys_pure)

lemma snapshotLoop_obeys: "obeys (syncPolicy E) (snapshotLoop E ref s n cursor pages recs)"
proof (induction n arbitrary: cursor pages recs)
  case (Suc n)
  show ?case unfolding snapshotLoop.simps
    by (intro call_rules obeysWhen_call obeysWhen_obeys Suc) (auto simp: syncPolicy_def result_simps)
qed (simp add: call_rules)

lemma changesLoop_obeys: "obeys (syncPolicy E) (changesLoop E scope flt n fixed cov pages recs)"
proof (induction n arbitrary: fixed cov pages recs)
  case (Suc n)
  have apply_ok: "syncPolicy E h (RcApply scope (hpEpoch page) evs (hpCheckpoint page) (pageContinuation page) (replicaVersion cov))"
    if "\<not> reAborted E h" "assertPageShape page = Inr u" "hpEpoch page = rvEpoch cov" "orderedEvents page = Inr evs" for h page u evs
    using that orderedEvents_Inr [OF that(4)] assertPageShape_ok [OF that(2)]
    by (simp add: syncPolicy_def appliedPage_def replicaVersion_def pageContinuation_def)
  show ?case unfolding changesLoop.simps Let_def
    by (intro call_rules obeysWhen_call obeysWhen_obeys Suc apply_ok) (auto simp: syncPolicy_def result_simps)
qed (simp add: call_rules)

lemma discard_obeys:
  assumes "obeys (syncPolicy E) m"
  shows "obeys (syncPolicy E) (discardUnlessCommitted E ref m)"
proof -
  have d: "callsFrom (syncPolicy E) h (g @ [RcDiscard ref])" if "callsFrom (syncPolicy E) h g" for h g
    using that by (simp add: calls_more syncPolicy_def)
  show ?thesis unfolding obeys_def discardUnlessCommitted_def actCall_def
  proof
    fix h
    have "callsFrom (syncPolicy E) h (snd (m h))" using assms by (simp add: obeys_def)
    then show "callsFrom (syncPolicy E) h (snd (case m h of
        (Inr r, h1) \<Rightarrow> if syStatus r = SyncComplete then (Inr r, h1)
          else (case (reWritten E h1, h1 @ [RcDiscard ref]) of (Inl e, h2) \<Rightarrow> (Inl e, h2) | (Inr _, h2) \<Rightarrow> (Inr r, h2))
      | (Inl e, h1) \<Rightarrow> (case (reWritten E h1, h1 @ [RcDiscard ref]) of (Inl e', h2) \<Rightarrow> (Inl e', h2) | (Inr _, h2) \<Rightarrow> (Inl e, h2))))"
      using d by (cases "m h") (auto split: sum.split)
  qed
qed

lemma stageSnapshot_obeys: "obeys (syncPolicy E) (stageSnapshot E scope flt v n)"
  unfolding stageSnapshot_def Let_def
  by (intro call_rules obeysWhen_call obeysWhen_obeys discard_obeys snapshotLoop_obeys) (auto simp: syncPolicy_def)

lemma snapshotCycle_obeys: "obeys (syncPolicy E) (snapshotCycle E scope flt n cov)"
  unfolding snapshotCycle_def applyChanges_def
  by (intro obeys_bind stageSnapshot_obeys) (auto split: option.split intro!: call_rules obeys_bind [OF changesLoop_obeys])

lemma cycleFrom_obeys: "obeys (syncPolicy E) (cycleFrom E scope flt n cov)"
  unfolding cycleFrom_def applyChanges_def
  by (auto simp: syncPolicy_def split: option.split intro!: call_rules obeys_try changesLoop_obeys snapshotCycle_obeys)

lemma syncHistory_obeys: "obeys (syncPolicy E) (syncHistory E mp owner f)"
  unfolding syncHistory_def Let_def
  by (intro call_rules obeysWhen_obeys cycleFrom_obeys) (simp add: syncPolicy_def)

text \<open>C29: Whatever the service and the local database answer and whenever the caller aborts, a cycle
  writes only what it may: no snapshot is begun, staged or committed and no page applied once the
  abort signal is set, staged pages hold records only, and an applied page is in sequence order
  within its checkpoint, belongs to the epoch of the coverage it replaces, and leaves a
  continuation only below its watermark.\<close>

theorem sync_writes_safe:
  assumes "syncHistory E maxPages owner f [] = (r, trace)" "trace = before @ c # after"
  shows "(case c of
      RcBegin ref v \<Rightarrow> \<not> reAborted E before
    | RcStage ref evs \<Rightarrow> \<not> reAborted E before \<and> list_all isRecordEvent evs
    | RcCommit ref w \<Rightarrow> \<not> reAborted E before
    | RcApply scope epch evs checkpoint ctn version \<Rightarrow> \<not> reAborted E before \<and> appliedPage epch evs checkpoint ctn version
    | _ \<Rightarrow> True)"
  using callsFrom_split [OF obeys_calls [OF syncHistory_obeys assms(1)] assms(2)] unfolding syncPolicy_def by simp

subsection \<open>The page budget\<close>

fun fetchesPage :: "replica_call \<Rightarrow> bool" where
  "fetchesPage (RcSnapshotPage _ _) = True"
| "fetchesPage (RcChanges _ _) = True"
| "fetchesPage _ = False"

lemma atMost_unlessAborted [count_rules]: "callsAtMost p n m \<Longrightarrow> callsAtMost p n (unlessAborted E r m)"
  unfolding unlessAborted_def by (rule callsAtMost_sees) (simp_all add: callsAtMost_pure)

lemma snapshotLoop_count: "callsAtMost fetchesPage n (snapshotLoop E ref s n cursor pages recs)"
proof (induction n arbitrary: cursor pages recs)
  case (Suc n)
  show ?case unfolding snapshotLoop.simps
    by (intro callsAtMost_one count_rules) (simp_all add: Suc count_rules)
qed (simp add: count_rules)

lemma changesLoop_count: "callsAtMost fetchesPage n (changesLoop E scope flt n fixed cov pages recs)"
proof (induction n arbitrary: fixed cov pages recs)
  case (Suc n)
  show ?case unfolding changesLoop.simps Let_def
    by (intro callsAtMost_one count_rules) (simp_all add: Suc count_rules)
qed (simp add: count_rules)

definition pageCalls :: "replica_call list \<Rightarrow> nat" where
  "pageCalls h = length (filter fetchesPage h)"

definition coverageReads :: "replica_call list \<Rightarrow> nat" where
  "coverageReads h = length (filter (\<lambda>c. case c of RcReadCoverage _ \<Rightarrow> True | _ \<Rightarrow> False) h)"

lemma count_simps [simp]:
  "pageCalls [] = 0" "pageCalls (h @ g) = pageCalls h + pageCalls g" "pageCalls (c # h) = (if fetchesPage c then 1 else 0) + pageCalls h"
  "coverageReads [] = 0" "coverageReads (h @ g) = coverageReads h + coverageReads g"
  "coverageReads (c # h) = (case c of RcReadCoverage _ \<Rightarrow> 1 | _ \<Rightarrow> 0) + coverageReads h"
  by (simp_all add: pageCalls_def coverageReads_def split: replica_call.split)

lemma atMost_pages: "callsAtMost fetchesPage n m \<Longrightarrow> m h = (r, h') \<Longrightarrow> pageCalls h' \<le> pageCalls h + n"
  unfolding callsAtMost_def pageCalls_def by (metis snd_conv)

lemma bind_cases:
  assumes "actBind m f h = (r, h')"
  obtains e where "m h = (Inl e, h')" "r = Inl e" | x h1 where "m h = (Inr x, h1)" "f x h1 = (r, h')"
  using assms by (auto simp: actBind_def split: prod.splits sum.splits)

text \<open>A complete snapshot has fetched as many pages as it reports.\<close>

lemma snapshotLoop_complete:
  "snapshotLoop E ref s n cursor pages recs h = (Inr r, h') \<Longrightarrow> syStatus r = SyncComplete \<Longrightarrow>
     pageCalls h' + pages = pageCalls h + syPages r \<and> syPages r \<le> pages + n"
proof (induction n arbitrary: cursor pages recs h)
  case 0
  then show ?case by (auto simp: actPure_def snapshotResult_def)
next
  case (Suc n)
  show ?case using Suc.prems
    by (auto simp: unlessAborted_def actSees_def actBind_def actPure_def actCall_def snapshotResult_def
        split: if_splits prod.splits sum.splits dest: Suc.IH)
qed

lemma discard_count: "callsAtMost fetchesPage n m \<Longrightarrow> callsAtMost fetchesPage n (discardUnlessCommitted E ref m)"
  by (auto simp: callsAtMost_def discardUnlessCommitted_def actCall_def split: prod.split sum.split) (metis snd_conv)+

lemma stageSnapshot_count: "callsAtMost fetchesPage n (stageSnapshot E scope flt v n)"
  unfolding stageSnapshot_def Let_def by (intro count_rules discard_count snapshotLoop_count) simp_all

lemma stageSnapshot_complete:
  assumes "stageSnapshot E scope flt v n h = (Inr r, h')" "syStatus r = SyncComplete"
  shows "pageCalls h' = pageCalls h + syPages r \<and> syPages r \<le> n"
proof -
  have loop: ?thesis if "snapshotLoop E ref s n None 0 0 h1 = (Inr r, h')" "pageCalls h1 = pageCalls h" for ref s h1
    using snapshotLoop_complete [OF that(1) assms(2)] that(2) by simp
  show ?thesis using assms
    by (auto simp: stageSnapshot_def unlessAborted_def actSees_def actBind_def actPure_def actCall_def snapshotResult_def Let_def
        discardUnlessCommitted_def split: if_splits prod.splits sum.splits dest!: loop)
qed

lemma snapshotCycle_count: "callsAtMost fetchesPage n (snapshotCycle E scope flt n cov)"
  unfolding callsAtMost_def pageCalls_def [symmetric]
proof
  fix h
  obtain r h1 where st: "stageSnapshot E scope flt (map_option replicaVersion cov) n h = (r, h1)" by fastforce
  have le: "pageCalls h1 \<le> pageCalls h + n" by (rule atMost_pages [OF stageSnapshot_count st])
  show "pageCalls (snd (snapshotCycle E scope flt n cov h)) \<le> pageCalls h + n"
  proof (cases "\<exists>snap c. r = Inr snap \<and> syCoverage snap = Some c \<and> syStatus snap = SyncComplete \<and> syPages snap < n")
    case False
    then have "snd (snapshotCycle E scope flt n cov h) = h1" using st
      by (auto simp: snapshotCycle_def actBind_def actPure_def split: sum.split option.split)
    then show ?thesis using le by simp
  next
    case True
    then obtain snap c where r: "r = Inr snap" "syCoverage snap = Some c" "syStatus snap = SyncComplete" "syPages snap < n" by blast
    obtain q h2 where ch: "applyChanges E scope flt c (n - syPages snap) h1 = (q, h2)" by fastforce
    have "snd (snapshotCycle E scope flt n cov h) = h2" using st r ch
      by (auto simp: snapshotCycle_def actBind_def actPure_def split: sum.split)
    moreover have "pageCalls h2 \<le> pageCalls h1 + (n - syPages snap)"
      using atMost_pages [OF changesLoop_count] ch unfolding applyChanges_def by blast
    ultimately show ?thesis using stageSnapshot_complete [OF st [unfolded r(1)] r(3)] by simp
  qed
qed

text \<open>Reading the coverage once means that the incremental pass did not fall back.\<close>

fun readsCoverage :: "replica_call \<Rightarrow> bool" where
  "readsCoverage (RcReadCoverage _) = True"
| "readsCoverage _ = False"

lemma reads_iff: "coverageReads h = length (filter readsCoverage h)"
proof -
  have "(\<lambda>c. case c of RcReadCoverage _ \<Rightarrow> True | _ \<Rightarrow> False) = readsCoverage"
    by (rule ext) (simp split: replica_call.split)
  then show ?thesis by (simp add: coverageReads_def)
qed

lemma grows: "obeys P m \<Longrightarrow> m h = (r, h') \<Longrightarrow> \<exists>new. h' = h @ new"
  by (metis obeys_calls callsFrom_prefix)

lemma cycleFrom_count:
  assumes "cycleFrom E scope flt n coverage h = (r, h')"
  shows "pageCalls h' \<le> pageCalls h + 2 * n \<and> (coverageReads h' \<le> coverageReads h \<longrightarrow> pageCalls h' \<le> pageCalls h + n)"
proof (cases coverage)
  case None
  then show ?thesis using assms atMost_pages [OF snapshotCycle_count, of E scope flt n None h r h'] by (simp add: cycleFrom_def)
next
  case (Some c)
  obtain q h1 where ch: "applyChanges E scope flt c n h = (q, h1)" by fastforce
  have p1: "pageCalls h1 \<le> pageCalls h + n" using atMost_pages [OF changesLoop_count] ch unfolding applyChanges_def by blast
  have g1: "coverageReads h \<le> coverageReads h1"
    using grows [OF changesLoop_obeys] ch unfolding applyChanges_def by fastforce
  show ?thesis
  proof (cases "\<exists>e. q = Inl e \<and> isResnapshotError e")
    case False
    then have "h' = h1" using assms Some ch by (auto simp: cycleFrom_def actTry_def actPure_def split: sum.splits)
    then show ?thesis using p1 by simp
  next
    case True
    then have t: "actBind (actCall (RcReadCoverage scope) (reCoverage E)) (snapshotCycle E scope flt n) h1 = (r, h')"
      using assms Some ch by (auto simp: cycleFrom_def actTry_def)
    let ?h2 = "h1 @ [RcReadCoverage scope]"
    consider "h' = ?h2" | cov where "snapshotCycle E scope flt n cov ?h2 = (r, h')"
      using t by (auto simp: actBind_def actCall_def split: sum.splits)
    then show ?thesis
    proof cases
      case (2 cov)
      have "pageCalls h' \<le> pageCalls ?h2 + n" by (rule atMost_pages [OF snapshotCycle_count 2])
      moreover have "coverageReads ?h2 \<le> coverageReads h'" using grows [OF snapshotCycle_obeys 2] by auto
      ultimately show ?thesis using p1 g1 by simp
    qed (use p1 g1 in simp)
  qed
qed

text \<open>C30: A cycle stays within its page budget unless it falls back: it fetches at most \<open>maxPages\<close>
  pages when it reads its coverage once, and at most twice as many when an expired cursor or a
  changed epoch makes it restart with a snapshot, because the fallback gets a fresh budget.\<close>

theorem sync_page_budget:
  assumes "syncHistory E (IntNum (int n)) owner f [] = (r, trace)"
  shows "pageCalls trace \<le> 2 * n \<and> (coverageReads trace \<le> 1 \<longrightarrow> pageCalls trace \<le> n)"
proof (cases "positiveSafe (IntNum (int n)) \<and> owner \<noteq> []")
  case False
  then have "trace = []" using assms
    by (auto simp: syncHistory_def orDefault_def actBind_def actPure_def require_def Let_def split: if_splits)
  then show ?thesis by simp
next
  case True
  let ?scope = "\<lparr>rsOwner = owner, rsFilter = normalizeReplicaFilter f\<rparr>" let ?flt = "wireFilter (normalizeReplicaFilter f)"
  let ?h = "[RcReadCoverage ?scope]"
  have n: "nat (safeInt (IntNum (int n))) = n" by (simp add: safeInt_def)
  consider "trace = ?h" | cov where "cycleFrom E ?scope ?flt n cov ?h = (r, trace)"
    using assms True n
    by (auto simp: syncHistory_def orDefault_def actBind_def actPure_def actCall_def unlessAborted_def actSees_def Let_def
        split: sum.splits if_splits)
  then show ?thesis
  proof cases
    case (2 cov)
    show ?thesis using cycleFrom_count [OF 2] by simp
  qed simp
qed

subsection \<open>Snapshots in staging\<close>

text \<open>The snapshots begun and neither committed nor discarded, with the latest call first.\<close>

fun staged :: "replica_env \<Rightarrow> replica_call list \<Rightarrow> snapshot_ref list" where
  "staged E [] = []"
| "staged E (c # before) = (case c of
      RcBegin ref v \<Rightarrow> if is_ok (reWritten E (List.rev before)) then ref # staged E before else staged E before
    | RcCommit ref w \<Rightarrow> if is_ok (reCovered E (List.rev before)) then remove1 ref (staged E before) else staged E before
    | RcDiscard ref \<Rightarrow> remove1 ref (staged E before)
    | _ \<Rightarrow> staged E before)"

definition stagedAfter :: "replica_env \<Rightarrow> replica_call list \<Rightarrow> snapshot_ref list" where
  "stagedAfter E h = staged E (List.rev h)"

lemma stagedAfter_snoc: "stagedAfter E (h @ [c]) = (case c of
      RcBegin ref v \<Rightarrow> if is_ok (reWritten E h) then ref # stagedAfter E h else stagedAfter E h
    | RcCommit ref w \<Rightarrow> if is_ok (reCovered E h) then remove1 ref (stagedAfter E h) else stagedAfter E h
    | RcDiscard ref \<Rightarrow> remove1 ref (stagedAfter E h)
    | _ \<Rightarrow> stagedAfter E h)"
  by (simp add: stagedAfter_def split: replica_call.split)

lemma changesLoop_staged: "changesLoop E scope flt n fixed cov pages recs h = (r, h') \<Longrightarrow> stagedAfter E h' = stagedAfter E h"
proof (induction n arbitrary: fixed cov pages recs h)
  case (Suc n)
  then show ?case
    by (auto simp: unlessAborted_def actSees_def actBind_def actPure_def actCall_def stagedAfter_snoc Let_def
        simp flip: append.append_Cons append_assoc split: if_splits prod.splits sum.splits dest!: Suc.IH)
qed (simp add: actPure_def)

lemma snapshotLoop_staged: "snapshotLoop E ref s n cursor pages recs h = (r, h') \<Longrightarrow>
    stagedAfter E h' = (if \<exists>x. r = Inr x \<and> syStatus x = SyncComplete then remove1 ref (stagedAfter E h) else stagedAfter E h)"
proof (induction n arbitrary: cursor pages recs h)
  case (Suc n)
  have two: "stagedAfter E (h @ [c, d]) = stagedAfter E ((h @ [c]) @ [d])"
    "stagedAfter E (h @ [c, d, e]) = stagedAfter E (((h @ [c]) @ [d]) @ [e])" for c d e by simp_all
  show ?case using Suc.prems
    by (auto simp: unlessAborted_def actSees_def actBind_def actPure_def actCall_def snapshotResult_def two stagedAfter_snoc
        simp del: append_assoc split: if_splits prod.splits sum.splits dest!: Suc.IH)
qed (auto simp: actPure_def snapshotResult_def)

lemma discard_staged:
  assumes "discardUnlessCommitted E ref (snapshotLoop E ref s n None 0 0) h = (r, h')"
  shows "stagedAfter E h' = remove1 ref (stagedAfter E h)"
proof -
  obtain q h1 where l: "snapshotLoop E ref s n None 0 0 h = (q, h1)" by fastforce
  show ?thesis using assms l snapshotLoop_staged [OF l]
    by (auto simp: discardUnlessCommitted_def actCall_def stagedAfter_snoc split: sum.splits if_splits)
qed

lemma stageSnapshot_staged:
  assumes "stageSnapshot E scope flt v n h = (r, h')"
  shows "stagedAfter E h' = stagedAfter E h"
proof -
  define c1 where "c1 = RcCreateSnapshot flt"
  have one: "stagedAfter E (h @ [c1]) = stagedAfter E h" by (simp add: stagedAfter_snoc c1_def)
  have begin_fails: "stagedAfter E (h @ [c1, RcBegin ref v]) = stagedAfter E h" if "reWritten E (h @ [c1]) = Inl e" for ref e
    using stagedAfter_snoc [of E "h @ [c1]" "RcBegin ref v"] that one by simp
  have begun: "stagedAfter E h' = stagedAfter E h"
    if "reWritten E (h @ [c1]) = Inr u"
      "discardUnlessCommitted E ref (snapshotLoop E ref s n None 0 0) (h @ [c1, RcBegin ref v]) = (r, h')" for ref s u
    using stagedAfter_snoc [of E "h @ [c1]" "RcBegin ref v"] that(1) one discard_staged [OF that(2)] by simp
  show ?thesis using assms one
    by (auto simp: stageSnapshot_def unlessAborted_def actSees_def actBind_def actPure_def actCall_def Let_def
        c1_def [symmetric] begin_fails split: if_splits sum.splits dest: begun)
qed

lemma snapshotCycle_staged:
  assumes "snapshotCycle E scope flt n cov h = (r, h')"
  shows "stagedAfter E h' = stagedAfter E h"
proof -
  obtain q h1 where st: "stageSnapshot E scope flt (map_option replicaVersion cov) n h = (q, h1)" by fastforce
  have "stagedAfter E h' = stagedAfter E h1" using assms st
    by (auto simp: snapshotCycle_def actBind_def actPure_def applyChanges_def
        split: sum.splits prod.splits option.splits if_splits dest!: changesLoop_staged)
  then show ?thesis using stageSnapshot_staged [OF st] by simp
qed

text \<open>No snapshot is left in staging: whatever fails and whenever the caller aborts, a cycle ends
  with exactly the snapshots in staging that it started with, every one it began being either
  committed or handed to a discard.\<close>

theorem sync_leaves_nothing_staged:
  assumes "syncHistory E maxPages owner f h = (r, h')"
  shows "stagedAfter E h' = stagedAfter E h"
proof -
  have read: "stagedAfter E (g @ [RcReadCoverage sc]) = stagedAfter E g" for g sc by (simp add: stagedAfter_snoc)
  have cyc: "stagedAfter E h2 = stagedAfter E g" if "cycleFrom E scope flt n cov g = (q, h2)" for scope flt n cov g q h2
    using that by (auto simp: cycleFrom_def actTry_def actPure_def actBind_def actCall_def applyChanges_def read
        split: option.splits sum.splits prod.splits if_splits dest!: changesLoop_staged snapshotCycle_staged)
  show ?thesis using assms
    by (auto simp: syncHistory_def unlessAborted_def actSees_def actBind_def actPure_def actCall_def Let_def read
        split: sum.splits if_splits dest!: cyc)
qed

subsection \<open>A concrete cycle\<close>

text \<open>An incremental pass that fails with an expired cursor and falls back to an empty snapshot: with a
  budget of one page it fetches two.\<close>

definition fallbackCoverage :: replica_coverage where
  "fallbackCoverage = \<lparr>rvEpoch = js ''e'', rvCheckpoint = js ''0'', rvGeneration = js ''0'', rvContinuation = None,
     rvScope = \<lparr>rsOwner = js ''w'', rsFilter = normalizeReplicaFilter noFilter\<rparr>\<rparr>"

definition fallbackEnv :: replica_env where
  "fallbackEnv = \<lparr>reCoverage = (\<lambda>h. Inr (Some fallbackCoverage)),
     reSnapshot = (\<lambda>h. Inr \<lparr>csId = js ''s'', csEpoch = js ''e'', csWatermark = js ''0'', csActive = True\<rparr>),
     rePage = (\<lambda>h. if length h = 1 then Inl (JsErr PlainError (Some ERR_CURSOR_EXPIRED) ''expired'')
       else Inr \<lparr>hpRecords = [], hpHasMore = False, hpNextCursor = None, hpCheckpoint = js ''0'', hpWatermark = js ''0'',
         hpEpoch = js ''e''\<rparr>),
     reWritten = (\<lambda>h. Inr ()), reCovered = (\<lambda>h. Inr fallbackCoverage), reAborted = (\<lambda>h. False)\<rparr>"

definition fallbackTrace :: "replica_call list" where
  "fallbackTrace =
     (let scope = \<lparr>rsOwner = js ''w'', rsFilter = normalizeReplicaFilter noFilter\<rparr>;
          flt = wireFilter (normalizeReplicaFilter noFilter);
          ref = \<lparr>rfScope = scope, rfEpoch = js ''e'', rfSnapshot = js ''s''\<rparr>
      in [RcReadCoverage scope, RcChanges flt (Inr (js ''0'', js ''e'')), RcReadCoverage scope, RcCreateSnapshot flt,
          RcBegin ref (Some (replicaVersion fallbackCoverage)), RcSnapshotPage (js ''s'') None, RcStage ref [],
          RcCommit ref (js ''0'')])"

lemma zero_decimal: "decimal (js ''0'') n = Inr 0"
  by (simp add: decimal_def js_def isDigit_def natOfDec_def digitVal_def)

lemma fallback_run:
  "\<exists>r. syncHistory fallbackEnv (IntNum (int 1)) (js ''w'') noFilter [] = (Inr r, fallbackTrace) \<and> syPages r = 1"
proof -
  have shape: "assertPageShape \<lparr>hpRecords = [], hpHasMore = False, hpNextCursor = None, hpCheckpoint = js ''0'',
      hpWatermark = js ''0'', hpEpoch = js ''e''\<rparr> = Inr ()"
    by (simp add: assertPageShape_def zero_decimal)
  have w: "js ''w'' \<noteq> []" by (simp add: js_def)
  show ?thesis
    by (simp add: syncHistory_def cycleFrom_def snapshotCycle_def stageSnapshot_def discardUnlessCommitted_def applyChanges_def
        unlessAborted_def actSees_def actTry_def actBind_def actPure_def actCall_def orDefault_def positiveSafe_def isSafeInteger_def
        safeInt_def isResnapshotError_def fallbackEnv_def fallbackTrace_def shape w zero_decimal snapshotResult_def changesArgs_def
        Let_def) (simp add: fallbackCoverage_def)
qed

theorem sync_page_budget_witness:
  "pageCalls fallbackTrace = 2 \<and> pageCalls fallbackTrace \<le> 2 * 1 \<and> coverageReads fallbackTrace = 2"
proof -
  obtain r where "syncHistory fallbackEnv (IntNum (int 1)) (js ''w'') noFilter [] = (Inr r, fallbackTrace)"
    using fallback_run by blast
  from sync_page_budget [OF this] show ?thesis by (simp add: fallbackTrace_def Let_def)
qed

theorem sync_writes_safe_witness:
  "\<not> reAborted fallbackEnv (take 6 fallbackTrace) \<and> list_all isRecordEvent []
     \<and> fallbackTrace ! 6 = RcStage \<lparr>rfScope = \<lparr>rsOwner = js ''w'', rsFilter = normalizeReplicaFilter noFilter\<rparr>,
         rfEpoch = js ''e'', rfSnapshot = js ''s''\<rparr> []"
proof -
  obtain r where r: "syncHistory fallbackEnv (IntNum (int 1)) (js ''w'') noFilter [] = (Inr r, fallbackTrace)"
    using fallback_run by blast
  have "fallbackTrace = take 6 fallbackTrace @ fallbackTrace ! 6 # drop 7 fallbackTrace"
    by (simp add: fallbackTrace_def Let_def)
  from sync_writes_safe [OF r this] show ?thesis by (simp add: fallbackTrace_def Let_def)
qed

theorem sync_leaves_nothing_staged_witness:
  "stagedAfter fallbackEnv fallbackTrace = [] \<and> stagedAfter fallbackEnv (take 5 fallbackTrace) \<noteq> []"
proof -
  obtain r where r: "syncHistory fallbackEnv (IntNum (int 1)) (js ''w'') noFilter [] = (Inr r, fallbackTrace)"
    using fallback_run by blast
  have "stagedAfter fallbackEnv fallbackTrace = stagedAfter fallbackEnv []" by (rule sync_leaves_nothing_staged [OF r])
  then show ?thesis by (simp add: stagedAfter_def fallbackTrace_def fallbackEnv_def Let_def)
qed

end
