(* ===== verification/Worker.thy ===== *)
theory Worker
  imports Replica
begin

section \<open>The polling worker\<close>

text \<open>
  \<open>MessageBoxArchiveWorker\<close> of \<open>src/worker.ts\<close> as a state machine. The fields of the class come
  first in the state, the world around it after them: the armed timers with their delays, the calls
  of \<open>syncHistory\<close> that run, their abort signals, the callbacks that wait for a call to settle, and
  the \<open>stop\<close> calls that wait. Timers, calls and controllers are numbers. JavaScript runs one callback
  at a time, so every step is one callback or one call of a method; a promise settles before its
  callbacks run, and they run in the order they were added (\<open>finally\<close> before \<open>then\<close>).
\<close>

subsection \<open>The worker and its world\<close>

record worker_options =
  woOwner :: jsstr
  woMaxPages :: int
  woPoll :: int
  woBackoff :: int

record sync_run =
  snId :: nat
  snMaxPages :: int
  snSignal :: nat

record worker =
  wkOptions :: worker_options
  wkTimer :: "nat option"
  wkActive :: "nat option"
  wkController :: "nat option"
  wkStarted :: bool
  wkStopped :: bool
  wkFailures :: nat
  wFresh :: nat
  wTimers :: "(nat \<times> int) list"
  wRuns :: "sync_run list"
  wAborted :: "nat list"
  wFinally :: "(nat \<times> nat) list"
  wSettled :: "(nat \<times> (jserr + sync_result)) list"
  wPolls :: "nat list"
  wStops :: "nat option list"
  wReturned :: nat

definition positiveSafeInteger :: "jsval \<Rightarrow> string \<Rightarrow> int result" where
  "positiveSafeInteger v fld =
     andThen (require (positiveSafe v) (type_error (fld @ '' must be a positive safe integer''))) (\<lambda>_.
     Inr (safeInt v))"

definition createWorker :: "jsstr \<Rightarrow> jsval \<Rightarrow> jsval \<Rightarrow> jsval \<Rightarrow> worker result" where
  "createWorker owner maxPagesPerCycle pollIntervalMs maxBackoffMs =
     andThen (require (owner \<noteq> []) (type_error ''owner is required'')) (\<lambda>_.
     andThen (positiveSafeInteger (orDefault maxPagesPerCycle (IntNum 100)) ''maxPagesPerCycle'') (\<lambda>pages.
     andThen (positiveSafeInteger (orDefault pollIntervalMs (IntNum 30000)) ''pollIntervalMs'') (\<lambda>poll.
     andThen (positiveSafeInteger (orDefault maxBackoffMs (IntNum 300000)) ''maxBackoffMs'') (\<lambda>backoff.
     andThen (require (poll \<le> backoff) (type_error ''maxBackoffMs must be at least pollIntervalMs'')) (\<lambda>_.
     Inr \<lparr>wkOptions = \<lparr>woOwner = owner, woMaxPages = pages, woPoll = poll, woBackoff = backoff\<rparr>,
       wkTimer = None, wkActive = None, wkController = None, wkStarted = False, wkStopped = False, wkFailures = 0,
       wFresh = 0, wTimers = [], wRuns = [], wAborted = [], wFinally = [], wSettled = [], wPolls = [], wStops = [],
       wReturned = 0\<rparr>)))))"

subsection \<open>Its operations\<close>

definition schedulePoll :: "int \<Rightarrow> worker \<Rightarrow> worker" where
  "schedulePoll delayMs w = (if wkStopped w then w
     else w\<lparr>wkTimer := Some (wFresh w), wTimers := wTimers w @ [(wFresh w, delayMs)], wFresh := wFresh w + 1\<rparr>)"

text \<open>What \<open>setTimeout\<close> makes of a delay.\<close>

definition timerDelay :: "int \<Rightarrow> int" where
  "timerDelay d = (if d < 1 \<or> 2147483647 < d then 1 else d)"

definition startWorker :: "worker \<Rightarrow> unit result \<times> worker" where
  "startWorker w =
     (if wkStopped w then (Inl (JsErr PlainError None ''worker has been stopped''), w)
      else if wkStarted w then (Inr (), w)
      else (Inr (), schedulePoll 0 (w\<lparr>wkStarted := True\<rparr>)))"

datatype sync_promise = CancelledPromise | SyncPromise nat

text \<open>A sync that starts: the controller is the number before that of the call.\<close>

definition launchSync :: "int \<Rightarrow> worker \<Rightarrow> nat \<times> worker" where
  "launchSync maxPages w = (wFresh w + 1,
     w\<lparr>wkController := Some (wFresh w), wkActive := Some (wFresh w + 1),
       wRuns := wRuns w @ [\<lparr>snId = wFresh w + 1, snMaxPages = maxPages, snSignal = wFresh w\<rparr>],
       wFinally := wFinally w @ [(wFresh w + 1, wFresh w)], wFresh := wFresh w + 2\<rparr>)"

definition syncOnce :: "jsval \<Rightarrow> worker \<Rightarrow> sync_promise result \<times> worker" where
  "syncOnce maxPagesArg w =
     (if wkStopped w then (Inr CancelledPromise, w)
      else case wkActive w of
        Some p \<Rightarrow> (Inr (SyncPromise p), w)
      | None \<Rightarrow>
          (case (if maxPagesArg = Undefined then Inr (woMaxPages (wkOptions w))
                 else positiveSafeInteger maxPagesArg ''maxPages'') of
             Inl e \<Rightarrow> (Inl e, w)
           | Inr maxPages \<Rightarrow> (let (p, w1) = launchSync maxPages w in (Inr (SyncPromise p), w1))))"

text \<open>\<open>stop\<close> up to its wait for the active promise.\<close>

definition stopWorker :: "worker \<Rightarrow> worker" where
  "stopWorker w =
     (let w1 = (case wkTimer w of
          Some h \<Rightarrow> w\<lparr>wkStopped := True, wTimers := filter (\<lambda>t. fst t \<noteq> h) (wTimers w), wkTimer := None\<rparr>
        | None \<Rightarrow> w\<lparr>wkStopped := True\<rparr>);
        w2 = (case wkController w1 of Some c \<Rightarrow> w1\<lparr>wAborted := c # wAborted w1\<rparr> | None \<Rightarrow> w1)
      in w2\<lparr>wStops := wStops w2 @ [wkActive w2]\<rparr>)"

text \<open>The timer's callback; the poll then waits for the promise it got.\<close>

definition onTimer :: "worker \<Rightarrow> worker" where
  "onTimer w = (let (r, w1) = syncOnce Undefined (w\<lparr>wkTimer := None\<rparr>) in
     case r of Inr (SyncPromise p) \<Rightarrow> w1\<lparr>wPolls := wPolls w1 @ [p]\<rparr> | _ \<Rightarrow> w1)"

text \<open>The callback of \<open>finally\<close>.\<close>

definition clearActive :: "nat \<Rightarrow> nat \<Rightarrow> worker \<Rightarrow> worker" where
  "clearActive p c w = w\<lparr>wkActive := (if wkActive w = Some p then None else wkActive w),
     wkController := (if wkController w = Some c then None else wkController w)\<rparr>"

definition backoffDelay :: "worker_options \<Rightarrow> nat \<Rightarrow> int" where
  "backoffDelay opts failures = min (woPoll opts * 2 ^ min (failures - 1) 20) (woBackoff opts)"

text \<open>The two callbacks of \<open>then\<close>.\<close>

definition pollContinues :: "jserr + sync_result \<Rightarrow> worker \<Rightarrow> worker" where
  "pollContinues r w = (if wkStopped w then w else
     case r of
       Inr _ \<Rightarrow> schedulePoll (woPoll (wkOptions w)) (w\<lparr>wkFailures := 0\<rparr>)
     | Inl _ \<Rightarrow> schedulePoll (backoffDelay (wkOptions w) (wkFailures w + 1)) (w\<lparr>wkFailures := wkFailures w + 1\<rparr>))"

subsection \<open>What can happen\<close>

datatype worker_event =
    WStart | WSyncOnce jsval | WStop | WTimer nat | WSettles nat "jserr + sync_result"
  | WFinally nat | WPoll nat | WStopReturns

inductive workerStep :: "worker \<Rightarrow> worker_event \<Rightarrow> worker \<Rightarrow> bool" where
  w_start: "workerStep w WStart (snd (startWorker w))"
| w_sync: "workerStep w (WSyncOnce v) (snd (syncOnce v w))"
| w_stop: "workerStep w WStop (stopWorker w)"
| w_timer: "(h, d) \<in> set (wTimers w) \<Longrightarrow>
     workerStep w (WTimer h) (onTimer (w\<lparr>wTimers := filter (\<lambda>t. fst t \<noteq> h) (wTimers w)\<rparr>))"
| w_settles: "p \<in> set (map snId (wRuns w)) \<Longrightarrow>
     workerStep w (WSettles p r) (w\<lparr>wRuns := filter (\<lambda>n. snId n \<noteq> p) (wRuns w), wSettled := (p, r) # wSettled w\<rparr>)"
| w_finally: "(p, c) \<in> set (wFinally w) \<Longrightarrow> p \<in> fst ` set (wSettled w) \<Longrightarrow>
     workerStep w (WFinally p) (clearActive p c (w\<lparr>wFinally := remove1 (p, c) (wFinally w)\<rparr>))"
| w_poll: "p \<in> set (wPolls w) \<Longrightarrow> (p, r) \<in> set (wSettled w) \<Longrightarrow> p \<notin> fst ` set (wFinally w) \<Longrightarrow>
     workerStep w (WPoll p) (pollContinues r (w\<lparr>wPolls := remove1 p (wPolls w)\<rparr>))"
| w_returns: "wStops w = x # rest \<Longrightarrow> (case x of None \<Rightarrow> True | Some p \<Rightarrow> p \<in> fst ` set (wSettled w)) \<Longrightarrow>
     workerStep w WStopReturns (w\<lparr>wStops := rest, wReturned := wReturned w + 1\<rparr>)"

inductive workerReach :: "worker \<Rightarrow> bool" where
  w_created: "createWorker owner a b c = Inr w \<Longrightarrow> workerReach w"
| w_next: "workerReach w \<Longrightarrow> workerStep w e w' \<Longrightarrow> workerReach w'"

subsection \<open>The invariant\<close>

definition pollsOk :: "worker \<Rightarrow> bool" where
  "pollsOk w \<longleftrightarrow> (case wkTimer w of None \<Rightarrow> wTimers w = [] | Some h \<Rightarrow> \<exists>d. wTimers w = [(h, d)] \<and> wPolls w = [])
     \<and> (wkStopped w \<longrightarrow> wkTimer w = None)
     \<and> length (wPolls w) \<le> 1
     \<and> (wkTimer w \<noteq> None \<or> wPolls w \<noteq> [] \<longrightarrow> wkStarted w)
     \<and> (wkStarted w \<and> \<not> wkStopped w \<longrightarrow> wkTimer w \<noteq> None \<or> wPolls w \<noteq> [])"

definition runsOk :: "worker \<Rightarrow> bool" where
  "runsOk w \<longleftrightarrow> (case wkActive w of
       None \<Rightarrow> wRuns w = [] \<and> wFinally w = [] \<and> wkController w = None
     | Some p \<Rightarrow> \<exists>c. wkController w = Some c \<and> wFinally w = [(p, c)]
         \<and> (wRuns w = [] \<and> p \<in> fst ` set (wSettled w)
            \<or> (\<exists>m. wRuns w = [\<lparr>snId = p, snMaxPages = m, snSignal = c\<rparr>] \<and> 1 \<le> m)))
     \<and> (wkStopped w \<longrightarrow> (\<forall>n \<in> set (wRuns w). snSignal n \<in> set (wAborted w)))"

definition waitsOk :: "worker \<Rightarrow> bool" where
  "waitsOk w \<longleftrightarrow> (\<forall>p \<in> set (wPolls w). p \<in> fst ` set (wSettled w) \<or> p \<in> set (map snId (wRuns w)))
     \<and> (wStops w \<noteq> [] \<or> 0 < wReturned w \<longrightarrow> wkStopped w)
     \<and> (\<forall>x \<in> set (wStops w). \<forall>n \<in> set (wRuns w). x = Some (snId n))
     \<and> (0 < wReturned w \<longrightarrow> wRuns w = [])"

definition numbersOk :: "worker \<Rightarrow> bool" where
  "numbersOk w \<longleftrightarrow> (\<forall>p \<in> fst ` set (wSettled w). p < wFresh w) \<and> (\<forall>n \<in> set (wRuns w). snId n \<notin> fst ` set (wSettled w))
     \<and> (\<forall>n \<in> set (wRuns w). snId n < wFresh w)"

definition delaysOk :: "worker \<Rightarrow> bool" where
  "delaysOk w \<longleftrightarrow> 1 \<le> woPoll (wkOptions w) \<and> woPoll (wkOptions w) \<le> woBackoff (wkOptions w) \<and> 1 \<le> woMaxPages (wkOptions w)
     \<and> (\<forall>(h, d) \<in> set (wTimers w). d = 0 \<or> woPoll (wkOptions w) \<le> d \<and> d \<le> woBackoff (wkOptions w))"

lemmas worker_inv_defs = pollsOk_def runsOk_def waitsOk_def numbersOk_def delaysOk_def

definition workerInv :: "worker \<Rightarrow> bool" where
  "workerInv w \<longleftrightarrow> pollsOk w \<and> runsOk w \<and> waitsOk w \<and> numbersOk w \<and> delaysOk w"

lemma backoffDelay_bounds:
  assumes "1 \<le> woPoll opts" "woPoll opts \<le> woBackoff opts"
  shows "woPoll opts \<le> backoffDelay opts n \<and> backoffDelay opts n \<le> woBackoff opts"
proof -
  have "(1 :: int) \<le> 2 ^ min (n - 1) 20" by simp
  then have "woPoll opts * 1 \<le> woPoll opts * 2 ^ min (n - 1) 20" using assms(1) by (intro mult_left_mono) auto
  then show ?thesis using assms(2) by (simp add: backoffDelay_def)
qed

lemma positiveSafeInteger_Inr: "positiveSafeInteger v f = Inr n \<Longrightarrow> 1 \<le> n"
  by (auto simp: positiveSafeInteger_def andThen_eq_Inr require_eq_Inr positiveSafe_def isSafeInteger_def
      safeInt_def split: jsval.splits jsnum.splits)

lemma schedulePoll_inv:
  assumes "wTimers w = []" "wkTimer w = None" "wPolls w = []" "wkStarted w" "\<not> wkStopped w"
    "runsOk w" "waitsOk w" "numbersOk w" "delaysOk w"
    "d = 0 \<or> woPoll (wkOptions w) \<le> d \<and> d \<le> woBackoff (wkOptions w)"
  shows "workerInv (schedulePoll d w)"
  unfolding workerInv_def
proof (intro conjI)
  show "pollsOk (schedulePoll d w)" using assms by (simp add: pollsOk_def schedulePoll_def)
  show "runsOk (schedulePoll d w)" using assms by (simp add: runsOk_def schedulePoll_def cong: option.case_cong)
  show "waitsOk (schedulePoll d w)" using assms by (simp add: waitsOk_def schedulePoll_def)
  show "numbersOk (schedulePoll d w)" using assms by (auto simp: numbersOk_def schedulePoll_def)
  show "delaysOk (schedulePoll d w)" using assms by (auto simp: delaysOk_def schedulePoll_def)
qed

lemma launchSync_inv:
  assumes "workerInv w" "wkActive w = None" "\<not> wkStopped w" "1 \<le> m"
  shows "workerInv (snd (launchSync m w))"
  using assms by (auto simp: workerInv_def worker_inv_defs launchSync_def split: option.splits)

lemma syncOnce_inv:
  assumes "workerInv w"
  shows "workerInv (snd (syncOnce v w))"
proof -
  have "1 \<le> woMaxPages (wkOptions w)" using assms by (simp add: workerInv_def delaysOk_def)
  then show ?thesis using assms launchSync_inv positiveSafeInteger_Inr
    by (auto simp: syncOnce_def split: option.splits sum.splits prod.splits) (metis snd_conv)+
qed


lemma onTimer_inv:
  assumes inv: "workerInv w" and h: "(h, d) \<in> set (wTimers w)"
  shows "workerInv (onTimer (w\<lparr>wTimers := filter (\<lambda>t. fst t \<noteq> h) (wTimers w)\<rparr>))"
proof -
  have t: "wkTimer w = Some h" "wTimers w = [(h, d)]" "wPolls w = []" "\<not> wkStopped w" "wkStarted w"
    using assms by (auto simp: workerInv_def pollsOk_def split: option.splits)
  show ?thesis
  proof (cases "wkActive w")
    case None
    then show ?thesis using inv t
      by (auto simp: onTimer_def syncOnce_def launchSync_def workerInv_def worker_inv_defs)
  next
    case (Some p)
    then show ?thesis using inv t
      by (auto simp: onTimer_def syncOnce_def workerInv_def worker_inv_defs)
  qed
qed

lemma stopWorker_simps [simp]:
  "wkOptions (stopWorker w) = wkOptions w" "wkTimer (stopWorker w) = None" "wkActive (stopWorker w) = wkActive w"
  "wkController (stopWorker w) = wkController w" "wkStarted (stopWorker w) = wkStarted w" "wkStopped (stopWorker w)"
  "wFresh (stopWorker w) = wFresh w" "wRuns (stopWorker w) = wRuns w" "wFinally (stopWorker w) = wFinally w"
  "wSettled (stopWorker w) = wSettled w" "wPolls (stopWorker w) = wPolls w" "wStops (stopWorker w) = wStops w @ [wkActive w]"
  "wReturned (stopWorker w) = wReturned w" "wkFailures (stopWorker w) = wkFailures w"
  "wTimers (stopWorker w) = (case wkTimer w of Some h \<Rightarrow> filter (\<lambda>t. fst t \<noteq> h) (wTimers w) | None \<Rightarrow> wTimers w)"
  "wAborted (stopWorker w) = (case wkController w of Some c \<Rightarrow> c # wAborted w | None \<Rightarrow> wAborted w)"
  by (simp_all add: stopWorker_def Let_def split: option.split)

lemma stopWorker_inv:
  assumes "workerInv w"
  shows "workerInv (stopWorker w)"
  unfolding workerInv_def
proof (intro conjI)
  show "pollsOk (stopWorker w)"
    using assms by (cases "wkTimer w") (auto simp: workerInv_def pollsOk_def)
  show "runsOk (stopWorker w)"
    using assms by (cases "wkActive w") (auto simp: workerInv_def runsOk_def)
  show "waitsOk (stopWorker w)"
    using assms by (cases "wkActive w") (auto simp: workerInv_def runsOk_def waitsOk_def)
  show "numbersOk (stopWorker w)"
    using assms by (simp add: workerInv_def numbersOk_def)
  show "delaysOk (stopWorker w)"
    using assms by (cases "wkTimer w") (auto simp: workerInv_def delaysOk_def)
qed

lemma settles_inv:
  assumes "workerInv w" "p \<in> set (map snId (wRuns w))"
  shows "workerInv (w\<lparr>wRuns := filter (\<lambda>n. snId n \<noteq> p) (wRuns w), wSettled := (p, r) # wSettled w\<rparr>)"
proof -
  obtain c m where "wkActive w = Some p" "wRuns w = [\<lparr>snId = p, snMaxPages = m, snSignal = c\<rparr>]"
    using assms by (auto simp: workerInv_def runsOk_def split: option.split_asm)
  then show ?thesis using assms by (simp add: workerInv_def worker_inv_defs cong: option.case_cong) fast
qed

lemma finally_inv:
  assumes "workerInv w" "(p, c) \<in> set (wFinally w)" "p \<in> fst ` set (wSettled w)"
  shows "workerInv (clearActive p c (w\<lparr>wFinally := remove1 (p, c) (wFinally w)\<rparr>))"
proof -
  have "wkActive w = Some p" "wFinally w = [(p, c)]" "wkController w = Some c"
    using assms(1,2) by (auto simp: workerInv_def runsOk_def split: option.split_asm)
  moreover have "wRuns w = []"
    using assms calculation by (force simp: workerInv_def runsOk_def numbersOk_def)
  ultimately show ?thesis using assms by (simp add: clearActive_def workerInv_def worker_inv_defs cong: option.case_cong)
qed

lemma poll_inv:
  assumes "workerInv w" "p \<in> set (wPolls w)"
  shows "workerInv (pollContinues r (w\<lparr>wPolls := remove1 p (wPolls w)\<rparr>))"
proof -
  have t: "wPolls w = [p]"
    using assms by (cases "wPolls w") (auto simp: workerInv_def pollsOk_def)
  then have t': "wkTimer w = None" "wTimers w = []" "wkStarted w"
    using assms by (auto simp: workerInv_def pollsOk_def split: option.split_asm)
  have d: "1 \<le> woPoll (wkOptions w)" "woPoll (wkOptions w) \<le> woBackoff (wkOptions w)"
    using assms(1) by (auto simp: workerInv_def delaysOk_def)
  show ?thesis
  proof (cases "wkStopped w")
    case True
    then show ?thesis using assms(1) t t'
      by (simp add: pollContinues_def workerInv_def worker_inv_defs cong: option.case_cong)
  next
    case False
    have sched: "workerInv (schedulePoll d (w\<lparr>wPolls := [], wkFailures := n\<rparr>))"
      if "woPoll (wkOptions w) \<le> d" "d \<le> woBackoff (wkOptions w)" for d n
      by (rule schedulePoll_inv) (use assms(1) t t' that False in \<open>auto simp: workerInv_def worker_inv_defs cong: option.case_cong\<close>)
    note sched [of "woPoll (wkOptions w)" 0] sched [of "backoffDelay (wkOptions w) (wkFailures w + 1)" "wkFailures w + 1"]
    with d backoffDelay_bounds [OF d] show ?thesis using False t by (simp add: pollContinues_def split: sum.split)
  qed
qed

lemma returns_inv:
  assumes "workerInv w" "wStops w = x # rest" "case x of None \<Rightarrow> True | Some p \<Rightarrow> p \<in> fst ` set (wSettled w)"
  shows "workerInv (w\<lparr>wStops := rest, wReturned := Suc (wReturned w)\<rparr>)"
proof -
  have "wRuns w = []"
  proof (cases "wRuns w")
    case (Cons n ns)
    then have "x = Some (snId n)" "snId n \<notin> fst ` set (wSettled w)"
      using assms(1,2) by (auto simp: workerInv_def waitsOk_def numbersOk_def)
    then show ?thesis using assms(3) by simp
  qed simp
  then show ?thesis using assms by (auto simp: workerInv_def worker_inv_defs cong: option.case_cong)
qed

lemma startWorker_inv:
  assumes "workerInv w"
  shows "workerInv (snd (startWorker w))"
proof (cases "wkStopped w \<or> wkStarted w")
  case False
  then have "wkTimer w = None" "wPolls w = []" "wTimers w = []"
    using assms by (auto simp: workerInv_def pollsOk_def split: option.split_asm)
  then have "workerInv (schedulePoll 0 (w\<lparr>wkStarted := True\<rparr>))"
    by (intro schedulePoll_inv) (use assms False in \<open>auto simp: workerInv_def worker_inv_defs cong: option.case_cong\<close>)
  then show ?thesis using False by (simp add: startWorker_def)
qed (use assms in \<open>auto simp: startWorker_def\<close>)

lemma workerStep_inv: "workerStep w e w' \<Longrightarrow> workerInv w \<Longrightarrow> workerInv w'"
  by (induction rule: workerStep.induct)
    (simp_all add: startWorker_inv syncOnce_inv stopWorker_inv onTimer_inv settles_inv finally_inv poll_inv returns_inv)

lemma createWorker_inv: "createWorker owner a b c = Inr w \<Longrightarrow> workerInv w"
  by (auto simp: createWorker_def andThen_eq_Inr require_eq_Inr workerInv_def worker_inv_defs
      dest: positiveSafeInteger_Inr)

lemma workerReach_inv: "workerReach w \<Longrightarrow> workerInv w"
  by (induction rule: workerReach.induct) (blast intro: createWorker_inv workerStep_inv)+


subsection \<open>Its properties\<close>

text \<open>C18: The worker is single flight and never loses its poll: in every state it can reach, at most
  one sync runs and at most one timer is armed; a started worker that was not stopped has exactly
  one of an armed timer and a poll that waits for a sync; and the sync has a positive page budget.\<close>

theorem worker_single_flight:
  assumes "workerReach w"
  shows "length (wRuns w) \<le> 1 \<and> length (wTimers w) + length (wPolls w) \<le> 1
    \<and> (wkStarted w \<and> \<not> wkStopped w \<longrightarrow> length (wTimers w) + length (wPolls w) = 1)
    \<and> (\<forall>n \<in> set (wRuns w). 1 \<le> snMaxPages n \<and> wkActive w = Some (snId n))"
proof -
  have "pollsOk w" "runsOk w" using workerReach_inv [OF assms] by (simp_all add: workerInv_def)
  then show ?thesis
    by (cases "wkTimer w"; cases "wkActive w"; cases "wPolls w") (auto simp: pollsOk_def runsOk_def)
qed

lemma stopped_step:
  assumes "workerStep w e w'" "workerInv w" "wkStopped w"
  shows "wkStopped w' \<and> set (wRuns w') \<subseteq> set (wRuns w)"
  using assms
proof (cases rule: workerStep.cases)
  case (w_timer h d)
  then show ?thesis using assms by (auto simp: workerInv_def pollsOk_def split: option.split_asm)
qed (use assms in \<open>auto simp: startWorker_def syncOnce_def clearActive_def pollContinues_def\<close>)

text \<open>C37: A stop is final: once the worker was stopped no timer is armed and the sync that runs, if
  any, has its signal aborted, whatever happens next no sync starts and no timer is armed again, and
  when a \<open>stop\<close> has returned no sync runs any more.\<close>

theorem worker_stop_final:
  assumes "workerReach w" "wkStopped w" "workerStep w e w'"
  shows "wTimers w = [] \<and> (\<forall>n \<in> set (wRuns w). snSignal n \<in> set (wAborted w))
    \<and> wkStopped w' \<and> set (wRuns w') \<subseteq> set (wRuns w) \<and> (0 < wReturned w \<longrightarrow> wRuns w = [])"
proof -
  have inv: "workerInv w" using assms(1) by (rule workerReach_inv)
  then have "pollsOk w" "runsOk w" "waitsOk w" by (simp_all add: workerInv_def)
  then show ?thesis using stopped_step [OF assms(3) inv assms(2)] assms(2)
    by (auto simp: pollsOk_def runsOk_def waitsOk_def)
qed


text \<open>A timer beyond the range of \<open>setTimeout\<close> fires after a millisecond: a worker that should poll
  every 25 days polls without a pause.\<close>

lemma long_interval_polls_at_once:
  assumes "workerReach w" "wkOptions w = \<lparr>woOwner = owner, woMaxPages = 100, woPoll = 2160000000, woBackoff = 2160000000\<rparr>"
    "\<not> wkStopped w" "wPolls w = [p]"
  shows "map (timerDelay \<circ> snd) (wTimers (pollContinues r (w\<lparr>wPolls := remove1 p (wPolls w)\<rparr>))) = [1]"
proof -
  have "wTimers w = []"
    using workerReach_inv [OF assms(1)] assms(4) by (cases "wkTimer w") (auto simp: workerInv_def pollsOk_def)
  moreover have "backoffDelay (wkOptions w) n = 2160000000" for n
    using backoffDelay_bounds [of "wkOptions w" n] assms(2) by simp
  ultimately show ?thesis using assms(2-4)
    by (simp add: pollContinues_def schedulePoll_def timerDelay_def split: sum.split)
qed

subsection \<open>A run\<close>

definition w0 :: worker where
  "w0 = \<lparr>wkOptions = \<lparr>woOwner = js ''a'', woMaxPages = 100, woPoll = 30000, woBackoff = 300000\<rparr>,
       wkTimer = None, wkActive = None, wkController = None, wkStarted = False, wkStopped = False, wkFailures = 0,
       wFresh = 0, wTimers = [], wRuns = [], wAborted = [], wFinally = [], wSettled = [], wPolls = [], wStops = [],
       wReturned = 0\<rparr>"

text \<open>Started, its first timer fired, its first sync under way.\<close>

definition w2 :: worker where
  "w2 = w0\<lparr>wkStarted := True, wkActive := Some 2, wkController := Some 1, wFresh := 3,
     wRuns := [\<lparr>snId = 2, snMaxPages = 100, snSignal = 1\<rparr>], wFinally := [(2, 1)], wPolls := [2]\<rparr>"

lemma w2_reach: "workerReach w2"
proof -
  have "createWorker (js ''a'') Undefined Undefined Undefined = Inr w0"
    by (simp add: createWorker_def positiveSafeInteger_def orDefault_def positiveSafe_def isSafeInteger_def safeInt_def
        w0_def andThen_def require_def js_def)
  then have "workerReach w0" by (rule w_created)
  then have 1: "workerReach (snd (startWorker w0))" by (rule w_next [OF _ w_start])
  have "(0, 0) \<in> set (wTimers (snd (startWorker w0)))" by (simp add: startWorker_def schedulePoll_def w0_def)
  from w_next [OF 1 w_timer [OF this]] show ?thesis
    by (simp add: startWorker_def schedulePoll_def w0_def onTimer_def syncOnce_def launchSync_def w2_def
        eval_nat_numeral)
qed

lemma w2_stopped: "workerReach (stopWorker w2)"
  by (rule w_next [OF w2_reach w_stop])

theorem worker_single_flight_witness: "length (wRuns w2) = 1 \<and> length (wRuns (snd (syncOnce (IntNum 5) w2))) \<le> 1"
  using worker_single_flight [OF w_next [OF w2_reach w_sync [of _ "IntNum 5"]]] by (simp add: w2_def w0_def)

theorem worker_stop_final_witness:
  "wRuns (stopWorker w2) \<noteq> [] \<and> wTimers (stopWorker w2) = [] \<and> snSignal (hd (wRuns (stopWorker w2))) \<in> set (wAborted (stopWorker w2))"
  using worker_stop_final [OF w2_stopped _ w_start] by (simp add: w2_def)


end
