(* ===== verification/Wire.thy ===== *)
theory Wire
  imports StoreReach
begin

section \<open>What the repository hands out is well-formed\<close>

text \<open>
  A second invariant of the memory repository, about the shape of everything that can end up in an
  answer: revisions and sequences are canonical decimals, epochs are generations, delivery states
  are known, a delete event has its time, and a stored idempotent result is one of its operation.
  Theory \<open>Interop\<close> shows from it that the client accepts what the service answers.
\<close>

subsection \<open>Values of an association list\<close>

definition entries :: "('v \<Rightarrow> bool) \<Rightarrow> ('k \<times> 'v) list \<Rightarrow> bool" where
  "entries P m \<longleftrightarrow> (\<forall>v \<in> snd ` set m. P v)"

lemma entries_simps [simp]: "entries P []" "entries P (p # m) \<longleftrightarrow> P (snd p) \<and> entries P m"
  by (simp_all add: entries_def)

lemma entries_aset [intro]: "P v \<Longrightarrow> entries P m \<Longrightarrow> entries P (aset k v m)"
  by (induction k v m rule: aset.induct) auto

lemma entries_subset: "set m' \<subseteq> set m \<Longrightarrow> entries P m \<Longrightarrow> entries P m'"
  by (auto simp: entries_def)

lemma entries_filter [intro]: "entries P m \<Longrightarrow> entries P (filter Q m)"
  by (rule entries_subset [of _ m]) auto

lemma entries_adel [intro]: "entries P m \<Longrightarrow> entries P (adel k m)"
  by (auto simp: adel_def)

lemma entries_lookup: "map_of m k = Some v \<Longrightarrow> entries P m \<Longrightarrow> P v"
  by (force simp: entries_def dest: map_of_SomeD)

lemma entries_agetOr: "P d \<Longrightarrow> entries P m \<Longrightarrow> P (agetOr d k m)"
  by (auto simp: agetOr_def intro: entries_lookup split: option.split)

lemma entries_map: "(\<And>p. P (snd p) \<Longrightarrow> P (snd (f p))) \<Longrightarrow> entries P m \<Longrightarrow> entries P (map f m)"
  by (induction m) auto

subsection \<open>The invariant\<close>

definition wireRow :: "row \<Rightarrow> bool" where
  "wireRow r \<longleftrightarrow> canonicalDec (rRevision r) \<and> canonicalDec (rChangeSequence r)"

definition wireOwner :: "owner_state \<Rightarrow> bool" where
  "wireOwner st \<longleftrightarrow> canonicalDec (sNext st) \<and> (\<exists>n \<le> MAX_EPOCH_GENERATION. sEpoch st = js ''gen-'' @ decOfNat n)"

definition wireChange :: "change \<Rightarrow> bool" where
  "wireChange c \<longleftrightarrow> canonicalDec (cVersion c) \<and> canonicalDec (cSeq c) \<and> hex64Re (cKey c)
     \<and> (cKind c = Delete \<longrightarrow> cDeletedAt c \<noteq> None) \<and> (\<forall>d. cState c = Some d \<longrightarrow> d \<in> set DELIVERY_STATES)"

definition wireMeta :: "snap_meta \<Rightarrow> bool" where
  "wireMeta m \<longleftrightarrow> epochRe (mEpoch m) \<and> canonicalDec (mWatermark m)"

definition wireItem :: "snap_item \<Rightarrow> bool" where
  "wireItem it \<longleftrightarrow> siDelivery it \<in> set DELIVERY_STATES \<and> canonicalDec (siRevision it) \<and> canonicalDec (siChangeSequence it)"

definition wireResult :: "string \<Rightarrow> op_result \<Rightarrow> bool" where
  "wireResult opn r = (case r of
      PatchResult k v q d \<Rightarrow> opn = ''patchState'' \<and> hex64Re k \<and> canonicalDec v \<and> canonicalDec q
    | DeleteResult d q ep \<Rightarrow> opn = ''deleteRecord'' \<and> (\<forall>s. q = Some s \<longrightarrow> canonicalDec s) \<and> epochRe ep
    | DeleteAllResult ep \<Rightarrow> opn = ''deleteAll'' \<and> epochRe ep)"

definition wireInv :: "store \<Rightarrow> bool" where
  "wireInv s \<longleftrightarrow> entries wireRow (records s) \<and> entries wireOwner (owners s) \<and> entries (\<lambda>cs. \<forall>c \<in> set cs. wireChange c) (changes s)
     \<and> entries wireMeta (snapshots s) \<and> entries (\<lambda>its. \<forall>it \<in> set its. wireItem it) (snapshotItems s)
     \<and> entries (\<lambda>en. wireResult (iOperation en) (iResult en)) (idempotency s)"

text \<open>What an operation must change for the invariant to be at stake.\<close>

definition sameWire :: "store \<Rightarrow> store \<Rightarrow> bool" where
  "sameWire s s' \<longleftrightarrow> records s' = records s \<and> owners s' = owners s \<and> changes s' = changes s
     \<and> snapshots s' = snapshots s \<and> snapshotItems s' = snapshotItems s \<and> idempotency s' = idempotency s"

lemma sameWire_inv: "sameWire s s' \<Longrightarrow> wireInv s \<Longrightarrow> wireInv s'"
  by (simp add: sameWire_def wireInv_def)

lemma wireInv_empty: "wireInv emptyStore"
  by (simp add: wireInv_def emptyStore_def)

lemma canonicalDec_next [simp]: "canonicalDec (nextSequenceString s)"
  by (simp add: nextSequenceString_def canonicalDec_decOfNat)

lemma canonicalDec_one [simp]: "canonicalDec (js ''1'')"
  by (simp add: js_def isDigit_def)

lemma wireOwner_initial: "wireOwner initialOwner"
proof -
  have "js ''gen-1'' = js ''gen-'' @ decOfNat 1" by (subst decOfNat.simps) (simp add: js_def digitChar_def)
  then show ?thesis unfolding wireOwner_def initialOwner_def by (auto simp: MAX_EPOCH_GENERATION_def intro!: exI [of _ 1])
qed

lemma wireOwner_of: "wireInv s \<Longrightarrow> wireOwner (ownerOf owner s)"
  unfolding ownerOf_def by (rule entries_agetOr) (auto simp: wireInv_def wireOwner_initial)

lemma decOfNat_bound: "n < 10 ^ Suc k \<Longrightarrow> length (decOfNat n) \<le> Suc k"
proof (induction k arbitrary: n)
  case 0
  then show ?case by (subst decOfNat.simps) simp
next
  case (Suc k)
  show ?case
  proof (cases "n < 10")
    case False
    have "n div 10 < 10 ^ Suc k" using Suc.prems by (simp add: div_less_iff_less_mult)
    from Suc.IH [OF this] False show ?thesis by (subst decOfNat.simps) simp
  qed (subst decOfNat.simps, simp)
qed

lemma epochRe_owner: "wireOwner st \<Longrightarrow> epochRe (sEpoch st)"
proof -
  assume "wireOwner st"
  then obtain n where n: "n \<le> MAX_EPOCH_GENERATION" "sEpoch st = js ''gen-'' @ decOfNat n" by (auto simp: wireOwner_def)
  then have "length (decOfNat n) \<le> Suc 19" by (intro decOfNat_bound) (simp add: MAX_EPOCH_GENERATION_def)
  moreover have "list_all isAlnum (decOfNat n)"
    using decOfNat_digits [of n] by (auto simp: list_all_iff isAlnum_def)
  moreover have "list_all (\<lambda>u. isAlnum u \<or> u = 0x3A \<or> u = 0x5F \<or> u = 0x2D) (js ''gen-'')"
    by (simp add: js_def isAlnum_def isDigit_def)
  ultimately show ?thesis using n(2) by (auto simp: epochRe_def list_all_iff js_def)
qed

lemma wireChanges_of: "wireInv s \<Longrightarrow> c \<in> set (changesOf owner s) \<Longrightarrow> wireChange c"
  unfolding changesOf_def
  using entries_agetOr [of "\<lambda>cs. \<forall>c \<in> set cs. wireChange c" "[]" "changes s" owner] by (auto simp: wireInv_def)

subsection \<open>The parts of a store\<close>

lemma wire_setOwner: "wireOwner st \<Longrightarrow> wireInv s \<Longrightarrow> wireInv (setOwner owner st s)"
  by (auto simp: wireInv_def setOwner_def)

lemma wire_pushChange: "wireChange c \<Longrightarrow> wireInv s \<Longrightarrow> wireInv (pushChange owner c s)"
  using wireChanges_of [of s _ owner] by (auto simp: wireInv_def pushChange_def intro!: entries_aset)

lemma wire_ownerState: "wireInv s \<Longrightarrow> wireInv (snd (ownerState owner s))"
  by (auto simp: ownerState_def wireInv_def wireOwner_initial split: option.split)

lemma wire_audit: "wireInv s \<Longrightarrow> wireInv (audit e owner kind k detail s)"
  by (rule sameWire_inv) (auto simp: sameWire_def audit_def Let_def)

lemma wire_storeIdempotency: "wireResult opn r \<Longrightarrow> wireInv s \<Longrightarrow> wireInv (storeIdempotency e t opn r s)"
  by (auto simp: storeIdempotency_def wireInv_def split: option.split)

lemma wire_invalidate:
  "wireInv s \<Longrightarrow> wireInv (invalidateSnapshotsForRecord owner ep key s)"
  "wireInv s \<Longrightarrow> wireInv (invalidateSnapshotsForEpoch owner ep s)"
  by (auto simp: wireInv_def invalidateSnapshotsForRecord_def invalidateSnapshotsForEpoch_def wireMeta_def intro!: entries_map)

lemma wire_consumeFailure: "wireInv s \<Longrightarrow> wireInv (snd (consumeFailure p s))"
  by (rule sameWire_inv) (auto simp: sameWire_def consumeFailure_def)

lemma wire_alloc:
  "wireOwner st \<Longrightarrow> allocSequence st = (sq, st') \<Longrightarrow> wireOwner st' \<and> canonicalDec sq \<and> sEpoch st' = sEpoch st"
  by (auto simp: allocSequence_def wireOwner_def)

lemma wireOwner_counts [simp]: "wireOwner (st\<lparr>sCount := a, sBytes := b\<rparr>) = wireOwner st"
  by (simp add: wireOwner_def)

text \<open>A replayed result is one of its operation.\<close>

lemma wire_checkIdempotency:
  assumes "wireInv s" "checkIdempotency e owner key opn params s = (r, s')"
  shows "wireInv s' \<and> (\<forall>k x. r = Inr (Some k) \<and> kExisting k = Some x \<longrightarrow> wireResult opn x)"
proof -
  have inv: "wireInv (s\<lparr>idempotency := filter Q (idempotency s)\<rparr>)" for Q
    using assms(1) by (auto simp: wireInv_def)
  have found: "map_of (filter Q (idempotency s)) k = Some en \<Longrightarrow> wireResult (iOperation en) (iResult en)" for Q k en
    using assms(1) entries_lookup [of "filter Q (idempotency s)" k en] by (auto simp: wireInv_def)
  show ?thesis
    using assms inv by (auto simp: checkIdempotency_def Let_def dest: found split: sum.splits option.splits if_splits)
qed

subsection \<open>Composing operations\<close>

text \<open>An operation that keeps both invariants and whose result satisfies \<open>Q\<close>.\<close>

definition wires :: "store_limits \<Rightarrow> 'a op \<Rightarrow> ('a \<Rightarrow> store \<Rightarrow> bool) \<Rightarrow> bool" where
  "wires L m Q \<longleftrightarrow> (\<forall>s. storeInv L s \<and> wireInv s \<longrightarrow> wireInv (snd (m s)) \<and> (\<forall>x. fst (m s) = Inr x \<longrightarrow> Q x (snd (m s))))"

lemma wiresD: "wires L m Q \<Longrightarrow> storeInv L s \<Longrightarrow> wireInv s \<Longrightarrow> wireInv (snd (m s))"
  by (simp add: wires_def)

lemma wires_result: "wires L m Q \<Longrightarrow> storeInv L s \<Longrightarrow> wireInv s \<Longrightarrow> m s = (Inr x, s') \<Longrightarrow> Q x s'"
  by (metis wires_def fst_conv snd_conv)

lemma wires_bind:
  assumes "keeps L m K" "wires L m Q"
    and "\<And>x s. storeInv L s \<Longrightarrow> wireInv s \<Longrightarrow> K x s \<Longrightarrow> Q x s \<Longrightarrow>
      wireInv (snd (f x s)) \<and> (\<forall>y. fst (f x s) = Inr y \<longrightarrow> R y (snd (f x s)))"
  shows "wires L (opBind m f) R"
  unfolding wires_def opBind_eq
proof (intro allI impI)
  fix s assume s: "storeInv L s \<and> wireInv s"
  obtain r s' where m: "m s = (r, s')" by fastforce
  have "storeInv L s'" "wireInv s'" "\<forall>x. r = Inr x \<longrightarrow> K x s' \<and> Q x s'"
    using assms(1,2) s m by (auto simp: keeps_def wires_def)
  then show "wireInv (snd (case m s of (Inl e, s') \<Rightarrow> (Inl e, s') | (Inr x, s') \<Rightarrow> f x s')) \<and>
      (\<forall>y. fst (case m s of (Inl e, s') \<Rightarrow> (Inl e, s') | (Inr x, s') \<Rightarrow> f x s') = Inr y \<longrightarrow>
        R y (snd (case m s of (Inl e, s') \<Rightarrow> (Inl e, s') | (Inr x, s') \<Rightarrow> f x s')))"
    using assms(3) m by (cases r) auto
qed

lemma wires_bind':
  "keeps L m anyResult \<Longrightarrow> wires L m Q \<Longrightarrow> (\<And>x. (\<exists>s. Q x s) \<Longrightarrow> wires L (f x) R) \<Longrightarrow> wires L (opBind m f) R"
  by (rule wires_bind [where K = anyResult and Q = Q]) (assumption | (unfold wires_def, blast))+

lemma wires_lift: "wires L (opLift r) (\<lambda>x s. r = Inr x)" "wires L (\<lambda>s. (g s, s)) (\<lambda>x s. g s = Inr x)"
  "wires L (opLift r) anyResult" "wires L (\<lambda>s. (g s, s)) anyResult"
  by (simp_all add: wires_def)

lemma wires_return: "(\<And>s. Q x s) \<Longrightarrow> wires L (opReturn x) Q"
  by (simp add: wires_def)

lemma wires_check: "wires L (checkIdempotency e owner key opn params)
    (\<lambda>t s. \<forall>k x. t = Some k \<and> kExisting k = Some x \<longrightarrow> wireResult opn x)"
  unfolding wires_def using wire_checkIdempotency by (metis prod.collapse)

lemma wires_consume: "wires L (consumeFailure p) anyResult"
  by (simp add: wires_def wire_consumeFailure)

lemma wires_owner: "wires L (ownerState owner) (\<lambda>st s. st = ownerOf owner s \<and> wireOwner st)"
  unfolding wires_def using wire_ownerState wireOwner_of
  by (auto simp: ownerState_result ownerOf_ownerState)

lemma wireInv_key:
  assumes "storeInv L s" "noNul owner" "map_of (records s) (mkKey owner key) = Some r \<or> map_of (tombstones s) (mkKey owner key) = Some t"
  shows "hex64Re key"
  using assms(3)
proof
  assume "map_of (records s) (mkKey owner key) = Some r"
  then have "rowOk r" "rKey r = key" using mkKey_row [OF assms(1) _ assms(2)] by auto
  then show ?thesis using isRecordKey_sha256Hex by (auto simp: rowOk_def isRecordKey_def)
next
  assume "map_of (tombstones s) (mkKey owner key) = Some t"
  then have "goodKey (mkKey owner key)"
    using assms(1) by (force simp: storeInv_def tombstonesOk_def dest: map_of_SomeD)
  then obtain o' h where "identityKeyRe o'" "hex64Re h" "mkKey owner key = mkKey o' h" by (auto simp: goodKey_def)
  then show ?thesis using mkKey_inject [OF assms(2) identityKeyRe_noNul] by metis
qed

subsection \<open>Mutations\<close>

lemma wire_patched:
  assumes inv: "storeInv L s" "wireInv s" and o': "noNul owner" and g: "patchGuards owner key newState erev s = Inr r"
    and seq: "allocSequence (ownerOf owner s) = (seq, st')"
  shows "wireResult ''patchState'' (PatchResult key (rRevision r) (rChangeSequence r) d)"
    "wireResult ''patchState'' (PatchResult key (nextSequenceString v) seq d)"
    "wireInv (pushChange owner \<lparr>cSeq = seq, cKey = key, cKind = StateChange, cVersion = nextSequenceString v,
        cState = Some newState, cDeletedAt = None, cCreatedAt = t\<rparr>
      (setOwner owner st' (s\<lparr>records := aset (mkKey owner key)
         (r\<lparr>rDelivery := newState, rRevision := nextSequenceString v, rChangeSequence := seq\<rparr>) (records s)\<rparr>)))"
proof -
  have k: "newState \<in> set DELIVERY_STATES" "map_of (records s) (mkKey owner key) = Some r"
    using g by (auto simp: patchGuards_Inr)
  have key: "hex64Re key" by (rule wireInv_key [OF inv(1) o' disjI1 [OF k(2)]])
  have row: "wireRow r" using entries_lookup [OF k(2), of wireRow] inv(2) by (simp add: wireInv_def)
  have al: "wireOwner st'" "canonicalDec seq" using wire_alloc [OF wireOwner_of [OF inv(2)] seq] by auto
  show "wireResult ''patchState'' (PatchResult key (rRevision r) (rChangeSequence r) d)"
    "wireResult ''patchState'' (PatchResult key (nextSequenceString v) seq d)"
    using key row al by (auto simp: wireResult_def wireRow_def)
  have "wireInv (s\<lparr>records := aset (mkKey owner key)
         (r\<lparr>rDelivery := newState, rRevision := nextSequenceString v, rChangeSequence := seq\<rparr>) (records s)\<rparr>)"
    using inv(2) al by (auto simp: wireInv_def wireRow_def)
  then show "wireInv (pushChange owner \<lparr>cSeq = seq, cKey = key, cKind = StateChange, cVersion = nextSequenceString v,
        cState = Some newState, cDeletedAt = None, cCreatedAt = t\<rparr>
      (setOwner owner st' (s\<lparr>records := aset (mkKey owner key)
         (r\<lparr>rDelivery := newState, rRevision := nextSequenceString v, rChangeSequence := seq\<rparr>) (records s)\<rparr>)))"
    using key k al by (intro wire_pushChange wire_setOwner) (auto simp: wireChange_def)
qed

lemma wire_patchTail:
  assumes inv: "storeInv L s" "wireInv s" and o': "noNul owner"
    and m: "m = opBind (\<lambda>s. (patchGuards owner key newState erev s, s)) (\<lambda>r.
         if rDelivery r = newState
         then let result = PatchResult key (rRevision r) (rChangeSequence r) True
              in opBind (opUpd (storeIdempotency e idem ''patchState'' result)) (\<lambda>_. opReturn (result, False))
         else
           let (seq, st') = allocSequence (ownerOf owner s); rev2 = nextSequenceString (rRevision r);
               r' = r\<lparr>rDelivery := newState, rRevision := rev2, rChangeSequence := seq\<rparr>;
               result = PatchResult key rev2 seq False
           in opBind (opUpd (\<lambda>s. storeIdempotency e idem ''patchState'' result
                 (pushChange owner \<lparr>cSeq = seq, cKey = key, cKind = StateChange, cVersion = rev2,
                    cState = Some newState, cDeletedAt = None, cCreatedAt = Some (eNow e)\<rparr>
                 (setOwner owner st' (s\<lparr>records := aset (mkKey owner key) r' (records s)\<rparr>)))))
              (\<lambda>_. opReturn (result, False)))"
  shows "wireInv (snd (m s)) \<and> (\<forall>y. fst (m s) = Inr y \<longrightarrow> (\<lambda>(r, d) _. wireResult ''patchState'' r) y (snd (m s)))"
proof (cases "patchGuards owner key newState erev s")
  case (Inl e)
  then show ?thesis using inv by (simp add: m opBind_eq)
next
  case (Inr r)
  obtain seq st' where al: "allocSequence (ownerOf owner s) = (seq, st')" by fastforce
  note P = wire_patched [OF inv o' Inr al]
  show ?thesis using inv P
    by (simp add: m opBind_eq Inr al Let_def wire_storeIdempotency)
qed

lemma wires_patchState:
  assumes o': "noNul owner"
  shows "wires L (patchState e owner key newState erev ik) (\<lambda>(r, d) _. wireResult ''patchState'' r)"
  unfolding patchState_def
  apply (rule wires_bind' [OF keeps_lift(1) wires_lift(3)], clarsimp)
  apply (rule wires_bind' [OF keeps_checkIdempotency wires_check])
  apply (split option.split, intro conjI impI allI)
   apply (rule wires_bind' [OF keeps_consumeFailure wires_consume])
   apply (rule wires_bind [OF keeps_ownerState wires_owner])
   apply (simp only:)
   apply (rule wire_patchTail [OF _ _ o' refl]; assumption)
  by (auto intro!: wires_return split: option.splits)

lemma wireInv_upd:
  "wireInv (s\<lparr>tombstones := ts\<rparr>) = wireInv s"
  "wireInv s \<Longrightarrow> wireInv (s\<lparr>records := adel k (records s), tombstones := ts\<rparr>)"
  "wireInv s \<Longrightarrow> wireInv (s\<lparr>records := filter P (records s), tombstones := ts\<rparr>)"
  by (auto simp: wireInv_def)

lemma wire_deleted:
  assumes inv: "storeInv L s" "wireInv s" and o': "noNul owner" and seq: "allocSequence (ownerOf owner s) = (seq, st')"
    and ex: "map_of (records s) (mkKey owner key) = Some r \<or> map_of (tombstones s) (mkKey owner key) = Some t"
  shows "wireInv s' \<Longrightarrow> wireOwner st2 \<Longrightarrow> wireInv (pushChange owner \<lparr>cSeq = seq, cKey = key, cKind = Delete,
      cVersion = js ''1'', cState = None, cDeletedAt = Some now, cCreatedAt = c\<rparr> (setOwner owner st2 s'))"
    "wireResult ''deleteRecord'' (DeleteResult d (Some seq) (sEpoch (ownerOf owner s)))" "wireOwner st'"
proof -
  show al: "wireOwner st'" using wire_alloc [OF wireOwner_of [OF inv(2)] seq] by auto
  have sq: "canonicalDec seq" using wire_alloc [OF wireOwner_of [OF inv(2)] seq] by auto
  have key: "hex64Re key" by (rule wireInv_key [OF inv(1) o' ex])
  show "wireInv s' \<Longrightarrow> wireOwner st2 \<Longrightarrow> wireInv (pushChange owner \<lparr>cSeq = seq, cKey = key, cKind = Delete,
      cVersion = js ''1'', cState = None, cDeletedAt = Some now, cCreatedAt = c\<rparr> (setOwner owner st2 s'))"
    using key sq by (intro wire_pushChange wire_setOwner) (auto simp: wireChange_def)
  show "wireResult ''deleteRecord'' (DeleteResult d (Some seq) (sEpoch (ownerOf owner s)))"
    using sq epochRe_owner [OF wireOwner_of [OF inv(2)]] by (simp add: wireResult_def)
qed

lemma wires_deleteRecord:
  assumes o': "noNul owner"
  shows "wires L (deleteRecord e owner key ik) (\<lambda>(r, d) _. wireResult ''deleteRecord'' r)"
  unfolding deleteRecord_def
  apply (rule wires_bind' [OF keeps_checkIdempotency wires_check])
  apply (split option.split, intro conjI impI allI)
   apply (rule wires_bind' [OF keeps_consumeFailure wires_consume])
   apply (rule wires_bind [OF keeps_ownerState wires_owner])
  subgoal for idem u st s
  proof -
    assume inv: "storeInv L s" "wireInv s" and st: "st = ownerOf owner s" "st = ownerOf owner s \<and> wireOwner st"
    have none: "wireResult ''deleteRecord'' (DeleteResult False None (sEpoch (ownerOf owner s)))"
      using epochRe_owner [OF wireOwner_of [OF inv(2)]] by (simp add: wireResult_def)
    obtain seq st1 where al: "allocSequence (ownerOf owner s) = (seq, st1)" by fastforce
    note D = wire_deleted [OF inv o' al]
    show ?thesis
    proof (cases "map_of (records s) (mkKey owner key)")
      case None
      show ?thesis
      proof (cases "map_of (tombstones s) (mkKey owner key)")
        case n: None
        then show ?thesis using None none inv st by (simp add: Let_def wire_storeIdempotency)
      next
        case (Some t)
        note D1 = D [OF disjI2 [OF Some]]
        show ?thesis using None Some inv
          by (simp add: Let_def al st(1) wire_storeIdempotency D1(2) wire_invalidate(1) D1(1) D1(3) wireInv_upd(1))
      qed
    next
      case (Some r)
      note D1 = D [OF disjI1 [OF Some]]
      show ?thesis using Some inv
        by (simp add: Let_def al st(1) wire_storeIdempotency D1(2) wire_invalidate(1) D1(1) D1(3) wireInv_upd(2))
    qed
  qed
  by (auto intro!: wires_return split: option.splits)


lemma wireOwner_rotated:
  assumes "wireOwner st" "rotateOwnerEpoch us (sEpoch st) = Inr ep"
  shows "wireOwner (st\<lparr>sCount := a, sBytes := b, sEpoch := ep\<rparr>)"
proof -
  obtain n where "sEpoch st = js ''gen-'' @ decOfNat n" using assms(1) by (auto simp: wireOwner_def)
  then have "n < MAX_EPOCH_GENERATION" "ep = js ''gen-'' @ decOfNat (Suc n)"
    using assms(2) by (auto simp: rotate_gen split: if_splits)
  then show ?thesis using assms(1) by (auto simp: wireOwner_def intro!: exI [of _ "Suc n"])
qed

lemma wires_deleteAll: "wires L (deleteAll e owner ik ep) (\<lambda>(r, d) _. wireResult ''deleteAll'' r)"
  unfolding deleteAll_def
  apply (rule wires_bind' [OF keeps_checkIdempotency wires_check])
  apply (split option.split, intro conjI impI allI)
   apply (rule wires_bind' [OF keeps_lift(2) wires_lift(4)])
   apply (rule wires_bind' [OF keeps_consumeFailure wires_consume])
   apply (rule wires_bind [OF keeps_ownerState wires_owner])
  subgoal for idem u u' st s
  proof -
    assume inv: "wireInv s" and "st = ownerOf owner s" "st = ownerOf owner s \<and> wireOwner st"
    then have st: "wireOwner st" by blast
    let ?s = "s\<lparr>records := filter (\<lambda>(k, r). \<not> ownedKey owner k) (records s),
       tombstones := filter (\<lambda>(k, t). \<not> ownedKey owner k) (tombstones s)\<rparr>"
    have s: "wireInv ?s" by (rule wireInv_upd(3) [OF inv])
    show ?thesis
    proof (cases "rotateOwnerEpoch (eUuids e) (sEpoch st)")
      case (Inl err)
      have "wireInv (setOwner owner (st\<lparr>sCount := 0, sBytes := 0\<rparr>) ?s)"
        using st by (intro wire_setOwner s) (simp only: wireOwner_counts)
      then show ?thesis using Inl by (simp add: Let_def)
    next
      case (Inr ep')
      have w: "wireOwner (st\<lparr>sCount := 0, sBytes := 0, sEpoch := ep'\<rparr>)" using wireOwner_rotated [OF _ Inr] st by blast
      define s2 where "s2 = setOwner owner (st\<lparr>sCount := 0, sBytes := 0, sEpoch := ep'\<rparr>) ?s"
      have "wireInv s2" unfolding s2_def by (rule wire_setOwner [OF w s])
      then have s3: "wireInv (s2\<lparr>changes := aset owner [] (changes s2)\<rparr>)" by (auto simp: wireInv_def)
      have "wireResult ''deleteAll'' (DeleteAllResult ep')" using epochRe_owner [OF w] by (simp add: wireResult_def)
      then show ?thesis using Inr wire_storeIdempotency [OF _ wire_invalidate(2) [OF s3]]
        by (simp add: Let_def s2_def)
    qed
  qed
  by (auto intro!: wires_return split: option.splits)

subsection \<open>Archiving\<close>

definition wireOutcome :: "outcome \<Rightarrow> bool" where
  "wireOutcome x \<longleftrightarrow> (\<forall>h. oHash x = Some h \<longrightarrow> hex64Re h) \<and> (\<forall>c. oError x = Some c \<longrightarrow> (\<forall>t. c \<noteq> Other_Code t))
     \<and> (oKind x \<in> {Stored, AlreadyPresent} \<longrightarrow> oHash x \<noteq> None) \<and> oBytes x \<le> MAX_BODY_BYTES
     \<and> (oKind x \<notin> {EpochChanged, InvalidItem} \<longrightarrow> (\<exists>k. oKey x = Str k \<and> hex64Re k))
     \<and> (\<forall>q. oSeq x = Some q \<longrightarrow> canonicalDec q)"

text \<open>An outcome of an item of a batch: of a plan, and of a committed plan.\<close>

definition plannedOk :: "jsval \<Rightarrow> outcome \<Rightarrow> bool" where
  "plannedOk r x \<longleftrightarrow> wireOutcome x \<and> (oKind x \<in> {EpochChanged, InvalidItem} \<longrightarrow> oKey x = suppliedKey r)
     \<and> (oKind x = Stored \<longrightarrow> initialDelivery (oSrc x) \<in> set DELIVERY_STATES)"

definition answeredOk :: "jsval \<Rightarrow> outcome \<Rightarrow> bool" where
  "answeredOk r x \<longleftrightarrow> wireOutcome x \<and> (oKind x \<in> {EpochChanged, InvalidItem} \<longrightarrow> oKey x = suppliedKey r)
     \<and> (oKind x = Stored \<longrightarrow> oSeq x \<noteq> None)"

lemma hex64Re_sha256Hex: "hex64Re (sha256Hex m)"
  by (rule sha256Hex_hex64)

lemma validateArchiveInput_facts:
  assumes "validateArchiveInput (Str owner) ep r oe = Valid hash key bytes"
  shows "hex64Re hash" "hex64Re key" "bytes \<le> MAX_BODY_BYTES" "initialDelivery r \<in> set DELIVERY_STATES"
proof -
  obtain dir box sdr rcp mid bdy where f: "bytes \<le> MAX_BODY_BYTES" "hash = sha256Hex (utf8Bytes bdy)"
      "canonicalRecordKey (Str owner) (Str dir) (Str box) (Str sdr) (Str rcp) (Str mid) = Inr key"
      "field r ''deliveryState'' \<in> {Undefined, Str (js ''prepared''), Str (js ''received'')}"
    by (rule validateArchiveInput_Valid [OF assms]) blast
  show "hex64Re hash" "bytes \<le> MAX_BODY_BYTES" using f by (simp_all add: hex64Re_sha256Hex)
  show "hex64Re key" using f(3) by (auto simp: canonicalRecordKey_Inr hex64Re_sha256Hex)
  show "initialDelivery r \<in> set DELIVERY_STATES"
    using f(4) delivery_known by (auto simp: initialDelivery_def strOf_def)
qed

lemma planItem_wire:
  assumes "planItem e L owner ep i r p = (x, p')" "wireInv (plStore p)"
  shows "plannedOk r x \<and> oIndex x = i \<and> wireInv (plStore p')"
proof (cases "validateArchiveInput (Str owner) ep r (Str (sEpoch (ownerOf owner (plStore p))))")
  case (Invalid c why)
  then have "c \<noteq> Other_Code t" for t
    by (auto simp: validateArchiveInput_def split: if_splits sum.splits prod.splits)
  with Invalid assms show ?thesis
    by (cases "c = ERR_EPOCH_CHANGED")
      (auto simp: planItem_def archiveInvalidOutcome_def plainOutcome_def plannedOk_def wireOutcome_def MAX_BODY_BYTES_def)
next
  case (Valid hash key bytes)
  note V = validateArchiveInput_facts [OF Valid]
  show ?thesis
    using assms V Valid wire_audit
    by (auto simp: planItem_def Let_def archiveExistingOutcome_def archiveAdmissionOutcome_def plainOutcome_def
        plannedOk_def wireOutcome_def MAX_BODY_BYTES_def split: option.splits if_splits)
qed

lemma planLoop_wire:
  "planLoop e L owner ep i rs p = (outs, p') \<Longrightarrow> wireInv (plStore p) \<Longrightarrow>
   list_all2 plannedOk rs outs \<and> map oIndex outs = [i..<i + length rs] \<and> wireInv (plStore p')"
proof (induction rs arbitrary: i p outs)
  case (Cons r rs)
  obtain x p1 where x: "planItem e L owner ep i r p = (x, p1)" by fastforce
  obtain xs where xs: "planLoop e L owner ep (Suc i) rs p1 = (xs, p')" "outs = x # xs"
    using Cons.prems(1) x by (auto split: prod.splits)
  note X = planItem_wire [OF x Cons.prems(2)]
  then have "list_all2 plannedOk rs xs \<and> map oIndex xs = [Suc i..<Suc i + length rs] \<and> wireInv (plStore p')"
    using Cons.IH [OF xs(1)] by blast
  with X xs(2) show ?case by (simp add: upt_conv_Cons del: upt_Suc)
qed simp

lemma commitItem_wire:
  assumes "commitItem e owner x s = (x', s')" "wireInv s" "plannedOk r x" "oKind x = Stored"
  shows "answeredOk r x' \<and> oIndex x' = oIndex x \<and> wireInv s'"
proof -
  obtain seq st where al: "allocSequence (ownerOf owner s) = (seq, st)" by fastforce
  have w: "wireOwner st" "canonicalDec seq" using wire_alloc [OF wireOwner_of [OF assms(2)] al] by auto
  obtain k where k: "oKey x = Str k" "hex64Re k" using assms(3,4) by (auto simp: plannedOk_def wireOutcome_def)
  let ?r = "newRow owner (eNow e) x seq"
  have key: "rKey ?r = k" using k by (simp add: strOf_def)
  have row: "wireRow ?r" "rDelivery ?r \<in> set DELIVERY_STATES"
    using w assms(3,4) by (simp_all add: newRow_def wireRow_def plannedOk_def)
  have "wireInv (s\<lparr>records := aset (mkKey owner (rKey ?r)) ?r (records s)\<rparr>)"
    using assms(2) row(1) by (auto simp: wireInv_def)
  moreover have "wireChange \<lparr>cSeq = seq, cKey = rKey ?r, cKind = Upsert, cVersion = js ''1'', cState = Some (rDelivery ?r),
      cDeletedAt = None, cCreatedAt = Some (eNow e)\<rparr>"
    using w k row(2) by (simp add: wireChange_def strOf_def)
  ultimately have "wireInv s'"
    using assms(1) w(1) by (auto simp: commitItem_def al Let_def intro!: wire_pushChange wire_setOwner)
  moreover have "x' = x\<lparr>oSeq := Some seq, oSrc := Undefined\<rparr>"
    using assms(1) by (simp add: commitItem_def al Let_def)
  ultimately show ?thesis using assms(3,4) w(2) by (simp add: answeredOk_def plannedOk_def wireOutcome_def)
qed

lemma commitLoop_wire:
  "commitLoop e owner xs s = (ys, s') \<Longrightarrow> wireInv s \<Longrightarrow> list_all2 plannedOk rs xs \<Longrightarrow>
   list_all2 answeredOk rs ys \<and> map oIndex ys = map oIndex xs \<and> wireInv s'"
proof (induction xs arbitrary: s ys rs)
  case (Cons x xs)
  obtain r rs' where rs: "rs = r # rs'" "plannedOk r x" "list_all2 plannedOk rs' xs"
    using Cons.prems(3) by (auto simp: list_all2_Cons2)
  obtain x1 s1 where x1: "(if oKind x = Stored then commitItem e owner x s else (x, s)) = (x1, s1)" by fastforce
  have X: "answeredOk r x1 \<and> oIndex x1 = oIndex x \<and> wireInv s1"
  proof (cases "oKind x = Stored")
    case True
    then show ?thesis using commitItem_wire [of e owner x s x1 s1 r] x1 rs(2) Cons.prems(2) by simp
  next
    case False
    then show ?thesis using x1 rs(2) Cons.prems(2) by (auto simp: answeredOk_def plannedOk_def)
  qed
  obtain ys' where ys: "commitLoop e owner xs s1 = (ys', s')" "ys = x1 # ys'"
    using Cons.prems(1) x1 by (auto split: prod.splits)
  then show ?case using Cons.IH [OF ys(1) _ rs(3)] X rs(1) by simp
qed simp

definition batchAnswerOk :: "jsval list \<Rightarrow> batch_result \<Rightarrow> bool" where
  "batchAnswerOk rs b \<longleftrightarrow> epochRe (brEpoch b) \<and> list_all2 answeredOk rs (brOutcomes b)
     \<and> map oIndex (brOutcomes b) = [0..<length rs]"

lemma failStored_wire: "plannedOk r x \<Longrightarrow> answeredOk r (failStored x) \<and> oIndex (failStored x) = oIndex x"
  by (auto simp: failStored_def plannedOk_def answeredOk_def wireOutcome_def plainOutcome_def MAX_BODY_BYTES_def)

lemma epochChanged_wire:
  "list_all2 answeredOk rs (archiveEpochChanged rs) \<and> map oIndex (archiveEpochChanged rs) = [0..<length rs]"
proof -
  have "list_all2 answeredOk rs (map (\<lambda>(i, r). plainOutcome i (suppliedKey r) EpochChanged (Some ERR_EPOCH_CHANGED)) (enumerate k rs))
      \<and> map oIndex (map (\<lambda>(i, r). plainOutcome i (suppliedKey r) EpochChanged (Some ERR_EPOCH_CHANGED)) (enumerate k rs))
        = [k..<k + length rs]" for k
    by (induction rs arbitrary: k)
      (auto simp: answeredOk_def wireOutcome_def plainOutcome_def MAX_BODY_BYTES_def upt_conv_Cons simp del: upt_Suc)
  from this [of 0] show ?thesis by (simp add: archiveEpochChanged_def)
qed

lemma wires_archiveBatch:
  "wires L (archiveBatch e L owner ep input) (\<lambda>b _. \<exists>rs. input = Arr rs \<and> batchAnswerOk rs b)"
  unfolding archiveBatch_def
  apply (rule wires_bind [OF keeps_ownerState wires_owner])
  subgoal for st s
  proof -
    assume inv: "wireInv s" and "st = ownerOf owner s" "st = ownerOf owner s \<and> wireOwner st"
    then have ep: "epochRe (sEpoch st)" using epochRe_owner by blast
    show ?thesis
    proof (cases "validateArchiveBatchBounds input L")
      case (Inl e)
      then show ?thesis using inv by (simp add: opBind_eq)
    next
      case (Inr rs)
      then have rs: "input = Arr rs" by (auto simp: validateArchiveBatchBounds_def split: jsval.splits if_splits)
      obtain outs p where p: "planLoop e L owner ep 0 rs
               \<lparr>plProj = \<lparr>pCount = sCount st, pBytes = sBytes st,
                  pReserved = sCount st + int (length (filter (\<lambda>(k, t). ownedKey owner k) (tombstones s)))\<rparr>,
                plPending = [], plStore = s\<rparr> = (outs, p)" by fastforce
      obtain ys s2 where c: "commitLoop e owner outs (plStore p) = (ys, s2)" by fastforce
      have P: "list_all2 plannedOk rs outs" "map oIndex outs = [0..<length rs]" "wireInv (plStore p)"
        using planLoop_wire [OF p] inv by auto
      have C: "list_all2 answeredOk rs ys" "map oIndex ys = [0..<length rs]" "wireInv s2"
        using commitLoop_wire [OF c P(3,1)] P(2) by auto
      have F: "list_all2 answeredOk rs (map failStored outs)" "map oIndex (map failStored outs) = [0..<length rs]"
        using P(1,2) failStored_wire by (auto simp: list_all2_conv_all_nth map_eq_conv intro!: nth_equalityI)
          (metis length_map nth_map nth_upt add_0)
      have "wireInv ((plStore p)\<lparr>commitFailureOnce := b, failOnce := f\<rparr>)" for b f
        by (rule sameWire_inv [OF _ P(3)]) (simp add: sameWire_def)
      then show ?thesis
        using Inr rs inv ep p c C F epochChanged_wire [of rs]
        by (cases "ep = Str (sEpoch st)") (simp_all add: opBind_eq Let_def batchAnswerOk_def)
    qed
  qed
  done

subsection \<open>Snapshots, purges and reads\<close>

definition createdOk :: "snap_created \<Rightarrow> bool" where
  "createdOk c \<longleftrightarrow> epochRe (scEpoch c) \<and> canonicalDec (scWatermark c) \<and> scCount c \<le> MAX_SNAPSHOT_ITEMS_PER_OWNER"

lemma canonicalDec_watermark: "canonicalDec (currentWatermark st)"
  by (auto simp: currentWatermark_def canonicalDec_decOfNat js_def isDigit_def)

lemma wires_createSnapshot: "wires L (createSnapshot e owner flt) (\<lambda>c _. createdOk c)"
  unfolding createSnapshot_def
  apply (rule wires_bind' [OF keeps_lift(1) wires_lift(3)])
  apply (rule wires_bind [OF keeps_ownerState wires_owner])
  subgoal for f st s
  proof -
    assume inv: "storeInv L s" "wireInv s" and "st = ownerOf owner s" "st = ownerOf owner s \<and> wireOwner st"
    then have ep: "epochRe (sEpoch st)" using epochRe_owner by blast
    have items: "\<forall>it \<in> set (map itemOf (sort_key rowKeyset (snapshotMembers owner f w s))). wireItem it" for w
    proof -
      have "wireRow r \<and> rDelivery r \<in> set DELIVERY_STATES" if "r \<in> snd ` set (records s)" for r
        using inv that by (auto simp: wireInv_def entries_def storeInv_def recordsOk_def rowOk_def)
      then show ?thesis by (auto simp: snapshotMembers_def itemOf_def wireItem_def wireRow_def)
    qed
    show ?thesis
      using inv(2) items ep canonicalDec_watermark [of st]
      by (auto simp: Let_def wireInv_def createdOk_def wireMeta_def MAX_SNAPSHOT_ITEMS_PER_OWNER_def
          intro!: entries_aset split: sum.split option.split if_splits)
  qed
  done


lemma spliceLoop_subset: "spliceLoop b a items n = (items', a', n') \<Longrightarrow> set items' \<subseteq> set items"
proof (induction b a items n rule: spliceLoop.induct)
  case (1 b a items n)
  show ?case
    using "1.prems" "1.IH" set_drop_subset
    by (subst (asm) spliceLoop.simps) (fastforce simp: Let_def split: if_splits dest: in_set_dropD)
qed

lemma purgeSnapLoop_wire:
  "purgeSnapLoop b now ms a ni ns s = (r, s') \<Longrightarrow> wireInv s \<Longrightarrow> wireInv s'"
proof (induction ms arbitrary: a ni ns s r s')
  case (Cons x ms)
  obtain sid m where x: "x = (sid, m)" by fastforce
  obtain items a' ni' where sp: "spliceLoop b a (agetOr [] sid (snapshotItems s)) ni = (items, a', ni')"
    by (metis prod_cases3)
  have "\<forall>it \<in> set items. wireItem it"
    using spliceLoop_subset [OF sp] Cons.prems(2)
      entries_agetOr [of "\<lambda>its. \<forall>it \<in> set its. wireItem it" "[]" "snapshotItems s" sid]
    by (auto simp: wireInv_def)
  then have i: "wireInv (s\<lparr>snapshotItems := aset sid items (snapshotItems s)\<rparr>)"
      "wireInv (s\<lparr>snapshotItems := adel sid (snapshotItems s)\<rparr>)"
      "wireInv (s\<lparr>snapshotItems := adel sid (snapshotItems s), snapshots := adel sid (snapshots s)\<rparr>)"
    using Cons.prems(2) by (auto simp: wireInv_def intro!: entries_aset)
  show ?case
    using Cons.prems i unfolding x
    by (auto simp: Let_def sp split: if_splits dest!: Cons.IH)
qed simp

lemma wires_purgeSnapshots: "wires L (purgeExpiredSnapshots now b mi ms) anyResult"
  unfolding purgeExpiredSnapshots_def
  by (rule wires_bind [OF keeps_consumeFailure wires_consume])
    (auto simp: Let_def split: prod.split dest: purgeSnapLoop_wire)

lemma wire_purged:
  assumes "wireInv s" "removeLoop fuel b a vs (changesOf own s) n = (arr, x)" "s1 = advancePurge own ordered q s"
  shows "wireInv (if map_of (changes s1) own = None then s1 else s1\<lparr>changes := aset own arr (changes s1)\<rparr>)"
proof -
  obtain pp where s1: "s1 = s\<lparr>purgePositions := pp\<rparr>" using assms(3) advancePurge_eq by blast
  have "subseq arr (changesOf own s)" using assms(2) removeLoop_subseq by (cases x) auto
  then have "\<forall>c \<in> set arr. wireChange c" using wireChanges_of [OF assms(1)] subseq_set by blast
  then show ?thesis using assms(1) by (auto simp: s1 wireInv_def intro!: entries_aset)
qed

lemma wires_purgeChanges: "wires L (purgeExpiredChanges dateParse owner now b mi) anyResult"
proof -
  have "wireInv (snd (purgeExpiredChanges dateParse owner now b mi s))" if inv: "wireInv s" for s
  proof -
    obtain bo bu x where b: "boundPurgeParams b mi (Some 100) = (bo, bu, x)" by (metis prod_cases3)
    show ?thesis
    proof (cases "retentionCutoffIso dateParse now")
      case Inl
      with inv b show ?thesis by (simp add: purgeExpiredChanges_def)
    next
      case (Inr cutoff)
      show ?thesis
      proof (cases owner)
        case None
        then show ?thesis using inv b Inr by (simp add: purgeExpiredChanges_def split: prod.split)
      next
        case (Some own)
        show ?thesis
          unfolding purgeExpiredChanges_def b Inr Some sum.case option.case prod.case Let_def
          by (simp only: snd_conv split: prod.split) (intro allI impI wire_purged [OF inv], auto)
      qed
    qed
  qed
  then show ?thesis by (simp add: wires_def)
qed

lemma wires_usage: "wires L (getUsage owner) (\<lambda>u s. u = \<lparr>uCount = sCount (ownerOf owner s), uBytes = sBytes (ownerOf owner s),
    uEpoch = sEpoch (ownerOf owner s), uNext = sNext (ownerOf owner s)\<rparr> \<and> wireOwner (ownerOf owner s))"
  unfolding getUsage_def by (rule wires_bind [OF keeps_ownerState wires_owner]) auto

text \<open>A page of the changes feed: of known entries, with an epoch of the store.\<close>

definition feedItemOk :: "feed_item \<Rightarrow> bool" where
  "feedItemOk it \<longleftrightarrow> (case it of
      LiveItem r \<Rightarrow> rowOk r \<and> wireRow r
    | GoneItem k q d \<Rightarrow> hex64Re k \<and> canonicalDec q \<and> d \<noteq> None)"

lemma findLatestDelete_mem: "findLatestDelete owner key s = Some c \<Longrightarrow> c \<in> set (changesOf owner s) \<and> cKind c = Delete"
proof -
  have "fold (\<lambda>c m. if cKey c = key \<and> cKind c = Delete
               then (case m of None \<Rightarrow> Some c
                     | Some l \<Rightarrow> if natOfDec (cSeq l) < natOfDec (cSeq c) then Some c else Some l)
               else m) cs m = Some c \<Longrightarrow> (c \<in> set cs \<and> cKind c = Delete) \<or> m = Some c" for cs m
    by (induction cs arbitrary: m) (fastforce split: if_splits option.splits)+
  then show "findLatestDelete owner key s = Some c \<Longrightarrow> c \<in> set (changesOf owner s) \<and> cKind c = Delete"
    unfolding findLatestDelete_def by blast
qed

lemma candidateOf_wire:
  assumes "wireInv s" "storeInv L s" "c \<in> set (changesOf owner s)" "it \<in> fst ` set (candidateOf owner f w s c)"
  shows "feedItemOk it"
proof -
  have c: "wireChange c" using wireChanges_of assms(1,3) by blast
  show ?thesis
  proof (cases "cKind c = Delete")
    case True
    then show ?thesis using assms(4) c by (auto simp: candidateOf_def feedItemOk_def wireChange_def)
  next
    case False
    show ?thesis
    proof (cases "getRecord owner (cKey c) s")
      case None
      with False assms(4) obtain d where d: "findLatestDelete owner (cKey c) s = Some d" "it = GoneItem (cKey c) (cSeq d) (cDeletedAt d)"
        by (cases "findLatestDelete owner (cKey c) s") (auto simp: candidateOf_def split: if_splits)
      then have "wireChange d" "cKind d = Delete" using findLatestDelete_mem wireChanges_of [OF assms(1)] by blast+
      then show ?thesis using c d by (simp add: feedItemOk_def wireChange_def)
    next
      case (Some r)
      have "rowOk r" using Some recordsOk_lookup assms(2) by (auto simp: getRecord_def storeInv_def)
      then show ?thesis using False Some assms(4) c
        by (auto simp: candidateOf_def feedItemOk_def wireRow_def wireChange_def rowOk_def split: if_splits option.splits)
    qed
  qed
qed


lemma fitRecordsToPage_subset:
  assumes "fitRecordsToPage toJson rs limit overhead mb mr = Inr (admitted, acc)"
  shows "set admitted \<subseteq> set rs"
proof -
  have "fitLoop toJson n overhead mb a adm rs = Inr (admitted, acc') \<Longrightarrow> set admitted \<subseteq> set adm \<union> set rs" for n a adm acc'
    by (induction toJson n overhead mb a adm rs rule: fitLoop.induct) (auto simp: Let_def split: if_splits)
  moreover obtain n acc' where "fitLoop toJson n overhead mb (overhead + 2) [] rs = Inr (admitted, acc')"
  proof -
    obtain n adm a where l: "fitLoop toJson n overhead mb (overhead + 2) [] rs = Inr (adm, a)"
      and c: "(case checkPageFits (map toJson adm) overhead mb mr of Fits _ \<Rightarrow> Inr (adm, a)
              | TooLarge reason \<Rightarrow> Inl (feedError ERR_REQUEST_TOO_LARGE reason)) = Inr (admitted, acc)"
      using assms by (auto simp: fitRecordsToPage_def andThen_eq_Inr Let_def)
    show thesis using c l that by (cases "checkPageFits (map toJson adm) overhead mb mr") auto
  qed
  ultimately show ?thesis by fastforce
qed

text \<open>What the client requires of the frame of a page.\<close>

definition pageFrameOk :: "'a page \<Rightarrow> bool" where
  "pageFrameOk p \<longleftrightarrow> canonicalDec (pgWatermark p) \<and> epochRe (pgEpoch p)"

lemma assembleChangePage_wire:
  assumes "assembleChangePage toJson cands seqs prev lastScanned limit c serverTime = Inr p"
    "canonicalDec (cWatermark c)" "epochRe (cEpoch c)"
  shows "set (pgRecords p) \<subseteq> set cands \<and> pageFrameOk p"
proof -
  obtain ov acc where f: "fitRecordsToPage toJson cands limit ov MAX_PAGE_BYTES MAX_PAGE_RECORDS = Inr (pgRecords p, acc)"
    and p: "pgWatermark p = cWatermark c" "pgEpoch p = cEpoch c"
    using assms(1)
    by (auto simp: assembleChangePage_def andThen_eq_Inr Let_def split: prod.splits if_splits option.splits)
  show ?thesis using fitRecordsToPage_subset [OF f] assms(2,3) by (simp add: p pageFrameOk_def)
qed

lemma assembleSnapshotPage_wire:
  assumes "assembleSnapshotPage dp toJson rs limit c serverTime = Inr p" "canonicalDec (cWatermark c)" "epochRe (cEpoch c)"
  shows "set (pgRecords p) \<subseteq> set rs \<and> pageFrameOk p"
proof -
  obtain ov acc where f: "fitRecordsToPage toJson rs limit ov MAX_PAGE_BYTES MAX_PAGE_RECORDS = Inr (pgRecords p, acc)"
    and p: "pgWatermark p = cWatermark c" "pgEpoch p = cEpoch c"
    using assms(1)
    by (auto simp: assembleSnapshotPage_def andThen_eq_Inr Let_def split: prod.splits if_splits option.splits)
  show ?thesis using fitRecordsToPage_subset [OF f] assms(2,3) by (simp add: p pageFrameOk_def)
qed

lemma prepareChangesRead_wire:
  assumes "prepareChangesRead cursor after xep cur wm secret owner digest nw True = Inr w" "canonicalDec wm"
  shows "canonicalDec (wW w) \<and> wEpoch w = cur"
proof -
  have seq: "canonicalDec t" if "is_ok (validateChangeSequence (Str t) n)" for t n
    using that by (auto simp: is_ok_iff validateChangeSequence_Inr uint64DecimalRe_canonicalDec isUint64DecimalString_Str)
  have ep: "field payload ''epoch'' = Str cur" if "verifyChangesCursor secret owner cur digest nw cursor = Inr payload" for payload
    using that verifyCursor_Inr [of cursor _ payload]
    by (fastforce simp: verifyChangesCursor_def verifyFeedCursor_def recodeCursor_def split: sum.splits if_splits)
  show ?thesis using assms seq
    by (auto simp: prepareChangesRead_def andThen_eq_Inr require_eq_Inr Let_def strOf_def split: if_splits dest!: ep)
qed


lemma scanChanges_mem: "c \<in> set (scanChanges owner w b s) \<Longrightarrow> c \<in> set (changesOf owner s)"
  by (auto simp: scanChanges_def dest: in_set_takeD)

lemma wires_changesPage:
  "wires L (listChangesPage ov a) (\<lambda>p _. (\<forall>it \<in> set (pgRecords p). feedItemOk it) \<and> pageFrameOk p)"
  unfolding listChangesPage_def
  apply (rule wires_bind' [OF keeps_lift(1) wires_lift(3)])
  apply (rule wires_bind' [OF keeps_lift(1) wires_lift(3)])
  apply (rule wires_bind' [OF keeps_lift(1) wires_lift(3)])
  apply (rule wires_bind [OF keeps_ownerState wires_owner])
  subgoal for own secret f st s
  proof -
    assume inv: "storeInv L s" "wireInv s" and "st = ownerOf own s" "st = ownerOf own s \<and> wireOwner st"
    then have ep: "epochRe (sEpoch st)" using epochRe_owner by blast
    have "(\<forall>it \<in> set (pgRecords p). feedItemOk it) \<and> pageFrameOk p"
      if page: "changesPage own secret f b a st s = Inr p" for p b
    proof -
      obtain w where w: "prepareChangesRead (faCursor a) (faAfter a) (faEpoch a) (sEpoch st) (currentWatermark st) secret own
                (snapshotFilterHash f) (faNow a) True = Inr w"
        and asm: "assembleChangePage itemJson (map fst (concat (map (candidateOf own f (wW w) s) (scanChanges own w b s))))
          (map snd (concat (map (candidateOf own f (wW w) s) (scanChanges own w b s)))) (wC w)
          (if scanChanges own w b s = [] then None else Some (cSeq (last (scanChanges own w b s)))) b
          \<lparr>cSecret = secret, cOwner = own, cEpoch = wEpoch w, cFilterDigest = snapshotFilterHash f,
           cWatermark = wW w, cTtl = faTtl a, cNow = faNow a\<rparr> (faServerTime a) = Inr p"
        using page by (auto simp: changesPage_def andThen_eq_Inr Let_def)
      have P: "set (pgRecords p) \<subseteq> set (map fst (concat (map (candidateOf own f (wW w) s) (scanChanges own w b s)))) \<and> pageFrameOk p"
        using prepareChangesRead_wire [OF w canonicalDec_watermark] ep by (intro assembleChangePage_wire [OF asm]) simp_all
      have "feedItemOk it" if member: "it \<in> set (pgRecords p)" for it
      proof -
        obtain c where c: "c \<in> set (scanChanges own w b s)" "it \<in> fst ` set (candidateOf own f (wW w) s c)"
        proof -
          have "it \<in> fst ` (\<Union>c \<in> set (scanChanges own w b s). set (candidateOf own f (wW w) s c))"
            using subsetD [OF conjunct1 [OF P] member] by simp
          then show thesis using that by blast
        qed
        show ?thesis by (rule candidateOf_wire [OF inv(2,1) scanChanges_mem [OF c(1)] c(2)])
      qed
      then show ?thesis using P by blast
    qed
    then show ?thesis using inv(2) by simp
  qed
  done

lemma mapM_mem: "mapM f xs = Inr ys \<Longrightarrow> y \<in> set ys \<Longrightarrow> \<exists>x \<in> set xs. f x = Inr y"
  by (auto simp: mapM_Inr_iff list_all2_conv_all_nth in_set_conv_nth) (metis nth_mem)

lemma resolveItem_wire:
  assumes "storeInv L s" "wireItem it" "resolveItem dp own st s it = Inr r"
  shows "rowOk r \<and> wireRow r"
proof -
  obtain q where q: "getRecord own (siKey it) s = Some q" "r = q\<lparr>rDelivery := siDelivery it, rRevision := siRevision it,
                     rChangeSequence := siChangeSequence it, rCreatedAt := siCreatedAt it\<rparr>"
    using assms(3) by (auto simp: resolveItem_def split: option.splits if_splits)
  then have "rowOk q" using recordsOk_lookup assms(1) by (auto simp: getRecord_def storeInv_def)
  then show ?thesis using assms(2) q(2) by (auto simp: rowOk_def wireRow_def wireItem_def)
qed

lemma listSnapshotPage_wire:
  assumes inv: "storeInv L s" "wireInv s" and page: "listSnapshotPage dp ov sid a s = Inr (Some p)"
  shows "(\<forall>r \<in> set (pgRecords p). rowOk r \<and> wireRow r) \<and> pageFrameOk p"
proof -
  obtain own secret m n its resolved where m: "map_of (snapshots s) sid = Some m"
    and res: "mapM (resolveItem dp own (faServerTime a) s) (take n its) = Inr resolved"
      "set its \<subseteq> set (agetOr [] sid (snapshotItems s))"
    and asm: "assembleSnapshotPage dp rowJson resolved (boundFeedLimit (faLimit a))
             \<lparr>cSecret = secret, cOwner = own, cEpoch = mEpoch m, cFilterDigest = mFilterHash m,
              cWatermark = mWatermark m, cTtl = faTtl a, cNow = faNow a\<rparr> (faServerTime a) = Inr p"
    using page
    by (auto simp: listSnapshotPage_def andThen_eq_Inr Let_def split: option.split_asm)
  have meta: "wireMeta m" using entries_lookup [OF m, of wireMeta] inv(2) by (simp add: wireInv_def)
  have items: "\<forall>it \<in> set its. wireItem it"
    using res(2) entries_agetOr [of "\<lambda>its. \<forall>it \<in> set its. wireItem it" "[]" "snapshotItems s" sid] inv(2)
    by (auto simp: wireInv_def)
  have "set (pgRecords p) \<subseteq> set resolved \<and> pageFrameOk p"
    using meta by (intro assembleSnapshotPage_wire [OF asm]) (simp_all add: wireMeta_def)
  moreover have "rowOk r \<and> wireRow r" if rr: "r \<in> set resolved" for r
  proof -
    obtain it where "it \<in> set (take n its)" "resolveItem dp own (faServerTime a) s it = Inr r"
      using mapM_mem [OF res(1) rr] by blast
    then show ?thesis using resolveItem_wire [OF inv(1)] items by (metis in_set_takeD)
  qed
  ultimately show ?thesis by blast
qed

lemma browseLoop_wire:
  "browseLoop lm mb rs b hm = Inr (rows, nxt) \<Longrightarrow>
     set rows \<subseteq> set (bItems b) \<union> set rs \<and> (\<forall>t k. nxt = Some (t, k) \<longrightarrow> (\<exists>r \<in> set rows. k = rKey r))"
proof (induction rs arbitrary: b)
  case Nil
  then show ?case by (auto simp: browseFinish_def split: if_splits intro: last_in_set)
next
  case (Cons r rs)
  obtain ok b' where a: "browseAdd rowJson lm mb r b = Inr (ok, b')"
    and l: "(if ok then browseLoop lm mb rs b' hm else Inr (browseFinish True b')) = Inr (rows, nxt)"
    using Cons.prems by (auto simp: andThen_eq_Inr)
  have b': "ok \<Longrightarrow> bItems b' = bItems b @ [r]" "\<not> ok \<Longrightarrow> b' = b"
    using a by (auto simp: browseAdd_def Let_def split: if_splits)
  show ?case
  proof (cases ok)
    case True
    then show ?thesis using Cons.IH [of b'] l b' by auto
  next
    case False
    then show ?thesis using l b' by (auto simp: browseFinish_def split: if_splits intro: last_in_set)
  qed
qed

lemma listBrowse_wire:
  assumes inv: "storeInv L s" "wireInv s" and "listBrowse ov flt lm after s = Inr (rows, nxt)"
  shows "(\<forall>r \<in> set rows. rowOk r \<and> wireRow r) \<and> (\<forall>t k. nxt = Some (t, k) \<longrightarrow> hex64Re k)"
proof -
  obtain lm' mb rs b hm where l: "browseLoop lm' mb rs b hm = Inr (rows, nxt)" "bItems b = []" "set rs \<subseteq> snd ` set (records s)"
  proof -
    obtain own f n where "browseLoop n MAX_PAGE_BYTES
        (take n (case after of None \<Rightarrow> sort_key rowKeyset (filter (\<lambda>r. rOwner r = own \<and> matchesSnapshotFilter r f) (map snd (records s)))
           | Some a \<Rightarrow> filter (\<lambda>r. a < rowKeyset r) (sort_key rowKeyset (filter (\<lambda>r. rOwner r = own \<and> matchesSnapshotFilter r f) (map snd (records s))))))
        \<lparr>bItems = [], bBytes = 0\<rparr> (n < length (case after of None \<Rightarrow> sort_key rowKeyset (filter (\<lambda>r. rOwner r = own \<and> matchesSnapshotFilter r f) (map snd (records s)))
           | Some a \<Rightarrow> filter (\<lambda>r. a < rowKeyset r) (sort_key rowKeyset (filter (\<lambda>r. rOwner r = own \<and> matchesSnapshotFilter r f) (map snd (records s)))))) = Inr (rows, nxt)"
      using assms(3) by (auto simp: listBrowse_def andThen_eq_Inr Let_def)
    then show thesis
      by (rule that) (auto split: option.splits dest!: in_set_takeD)
  qed
  have "rowOk r \<and> wireRow r" if "r \<in> set rs" for r
    using that l(3) inv by (fastforce simp: wireInv_def entries_def storeInv_def recordsOk_def)
  then show ?thesis using browseLoop_wire [OF l(1)] l(2) hex64Re_sha256Hex by (fastforce simp: rowOk_def)
qed

subsection \<open>Every reachable store\<close>

lemma wireInv_inject: "wireInv s \<Longrightarrow> wireInv (snd (injectFailureOnce name s))" "wireInv s \<Longrightarrow> wireInv (injectCommitFailureOnce s)"
  by (auto simp: wireInv_def injectFailureOnce_def injectCommitFailureOnce_def split: list.split)

lemma wires_stats: "wires L (getStorageStats ov) anyResult"
  unfolding getStorageStats_def
  by (rule wires_bind' [OF keeps_lift(1) wires_lift(3)], rule wires_bind' [OF keeps_reads(1) wires_usage])
    (simp add: wires_def)

lemma storeStep_wire: "storeStep L s s' \<Longrightarrow> storeInv L s \<Longrightarrow> wireInv s \<Longrightarrow> wireInv s'"
  by (induction rule: storeStep.induct)
    (auto intro: wireInv_inject wiresD [OF wires_archiveBatch] wiresD [OF wires_patchState] wiresD [OF wires_deleteRecord]
      wiresD [OF wires_deleteAll] wiresD [OF wires_createSnapshot] wiresD [OF wires_purgeSnapshots]
      wiresD [OF wires_purgeChanges] wiresD [OF wires_usage] wiresD [OF wires_stats] wiresD [OF wires_changesPage])

lemma storeReach_wire: "storeReach L s \<Longrightarrow> wireInv s"
  by (induction rule: storeReach.induct) (auto intro: wireInv_empty storeStep_wire storeReach_inv)

end
