(* ===== verification/Transport.thy ===== *)
theory Transport
  imports Calls ServiceInput Feeds
begin

section \<open>The payment-free transport\<close>

text \<open>
  \<open>src/free-only-transport.mjs\<close>: the wallet facade that refuses every payment operation, the guarded
  fetch, and the message box client with its list, acknowledge and send operations. The caller's
  wallet, the SDK (\<open>AuthFetch\<close>, \<open>MessageBoxClient\<close>, \<open>stringifyBRC100\<close>) and the platform's URL parser
  are parameters. The SDK holds the facade and may call any of its methods, any number of times, in
  the course of a fetch or a send, before it ends with an outcome of its own; what it calls and how it
  ends may depend on the whole history. \<open>GuardedPayment\<close> is an error the guard itself created, which
  the code recognises by identity, and \<open>Thrown\<close> any other. Operations serialised by
  \<open>createSerialExecutor\<close> run one after the other here.
\<close>

subsection \<open>Calls and the outside world\<close>

datatype gerr = GuardedPayment | Thrown jserr

text \<open>A send reserves an attempt in the caller's store (theory \<open>Outbound\<close>); those calls are listed too.\<close>

record attempt =
  atRecordKey :: jsstr
  atOwner :: jsstr
  atMessageBox :: jsstr
  atRecipient :: jsstr
  atMessageId :: jsstr
  atBody :: jsstr
  atBodyHash :: jsstr
  atHost :: jsstr

datatype client_call =
    WalletCall string jsval
  | KeyDenied
  | SdkIdentity
  | SdkFetch jsstr jsval
  | SdkSend jsval jsstr
  | ClaimPrepared attempt
  | SetState jsstr string
  | RecordPreflightFailure jsstr string

type_synonym 'a guarded = "(client_call, gerr, 'a) act"

record url =
  uProtocol :: jsstr
  uUsername :: jsstr
  uPassword :: jsstr
  uHostname :: jsstr
  uPathname :: jsstr
  uSearch :: jsstr
  uHash :: jsstr
  uOrigin :: jsstr
  uHref :: jsstr

record fetch_response =
  frStatus :: nat
  frOk :: bool
  frJson :: "jserr + jsval"

record transport_env =
  teUrl :: "jsstr \<Rightarrow> url option"
  teEndpoint :: "jsstr \<Rightarrow> jsstr \<Rightarrow> jsstr"
  teStringify :: "jsval \<Rightarrow> jsstr"
  teImplements :: "string \<Rightarrow> bool"
  teWallet :: "client_call list \<Rightarrow> gerr + jsval"
  teSdkCalls :: "client_call list \<Rightarrow> (string \<times> jsval) list"
  teFetched :: "client_call list \<Rightarrow> gerr + fetch_response"
  teSent :: "client_call list \<Rightarrow> gerr + jsval"
  teIdentified :: "client_call list \<Rightarrow> gerr + jsval"

definition thrown :: "string \<Rightarrow> gerr" where
  "thrown m = Thrown (type_error m)"

subsection \<open>The wallet facade\<close>

definition WALLET_INTERFACE_METHODS :: "string list" where
  "WALLET_INTERFACE_METHODS = [''getPublicKey'', ''revealCounterpartyKeyLinkage'', ''revealSpecificKeyLinkage'', ''encrypt'',
     ''decrypt'', ''createHmac'', ''verifyHmac'', ''createSignature'', ''verifySignature'', ''createAction'', ''signAction'',
     ''abortAction'', ''listActions'', ''internalizeAction'', ''listOutputs'', ''relinquishOutput'', ''acquireCertificate'',
     ''listCertificates'', ''proveCertificate'', ''relinquishCertificate'', ''discoverByIdentityKey'', ''discoverByAttributes'',
     ''isAuthenticated'', ''waitForAuthentication'', ''getHeight'', ''getHeaderForHeight'', ''getNetwork'', ''getVersion'']"

definition BLOCKED_ACTION_METHODS :: "string list" where
  "BLOCKED_ACTION_METHODS = [''createAction'', ''signAction'', ''abortAction'', ''internalizeAction'']"

definition isPaymentDerivationKey :: "jsval \<Rightarrow> bool" where
  "isPaymentDerivationKey args = (case field args ''protocolID'' of
      Arr (a # b # _) \<Rightarrow> strictEq a (IntNum 2) \<and> strictEq b (Str (js ''3241645161d8''))
    | _ \<Rightarrow> False)"

definition facadeCall :: "transport_env \<Rightarrow> string \<Rightarrow> jsval \<Rightarrow> jsval guarded" where
  "facadeCall E name args =
     (if name \<notin> set WALLET_INTERFACE_METHODS then actPure (Inl (thrown ''not a function''))
      else if name \<in> set BLOCKED_ACTION_METHODS then actPure (Inl GuardedPayment)
      else if name = ''getPublicKey'' \<and> isPaymentDerivationKey args then actCall KeyDenied (\<lambda>h. Inl GuardedPayment)
      else if \<not> teImplements E name then actPure (Inl (thrown (''WalletInterface.'' @ name @ '' is required'')))
      else actCall (WalletCall name args) (teWallet E))"

text \<open>What the SDK does with the facade; it may catch whatever a call throws.\<close>

fun sdkCalls :: "transport_env \<Rightarrow> (string \<times> jsval) list \<Rightarrow> unit guarded" where
  "sdkCalls E [] = actPure (Inr ())"
| "sdkCalls E ((name, args) # rest) =
     actBind (actTry (actBind (facadeCall E name args) (\<lambda>_. actPure (Inr ()))) (\<lambda>_. actPure (Inr ()))) (\<lambda>_. sdkCalls E rest)"

definition sdkRun :: "transport_env \<Rightarrow> client_call \<Rightarrow> (client_call list \<Rightarrow> gerr + 'a) \<Rightarrow> 'a guarded" where
  "sdkRun E c outcome =
     actBind (actCall c (\<lambda>h. Inr ())) (\<lambda>_.
     actBind (\<lambda>h. sdkCalls E (teSdkCalls E h) h) (\<lambda>_.
     (\<lambda>h. (outcome h, h))))"

subsection \<open>Hosts and URLs\<close>

definition schemeUnit :: "code_unit \<Rightarrow> bool" where
  "schemeUnit u \<longleftrightarrow> isAlnum u \<or> u = 0x2B \<or> u = 0x2E \<or> u = 0x2D"

definition indexOfUnit :: "code_unit \<Rightarrow> jsstr \<Rightarrow> nat option" where
  "indexOfUnit c s = (let i = length (takeWhile (\<lambda>u. u \<noteq> c) s) in if i < length s then Some i else None)"

definition rawHostnameFromUrl :: "jsstr \<Rightarrow> jsstr option" where
  "rawHostnameFromUrl value =
     (let s = jsTrim value; scheme = takeWhile schemeUnit s; rest = dropWhile schemeUnit s in
      if scheme = [] \<or> isDigit (hd scheme) \<or> \<not> isAlnum (hd scheme) \<or> \<not> startsWith rest (js ''://'') then None
      else let authority = takeWhile (\<lambda>u. u \<noteq> 0x2F \<and> u \<noteq> 0x3F \<and> u \<noteq> 0x23) (drop 3 rest) in
        if 0x40 \<in> set authority then None
        else if startsWith authority (js ''['') then map_option (\<lambda>i. take (i + 1) authority) (indexOfUnit 0x5D authority)
        else if 0x3A \<notin> set authority then Some authority
        else Some (take (length authority - 1 - length (takeWhile (\<lambda>u. u \<noteq> 0x3A) (List.rev authority))) authority))"

lemma rawHostname_examples:
  "rawHostnameFromUrl (js '' http://localhost:3000 '') = Some (js ''localhost'')"
  "rawHostnameFromUrl (js ''HTTP://[::1]:8080/x?y'') = Some (js ''[::1]'')"
  "rawHostnameFromUrl (js ''http://127.0.0.1/'') = Some (js ''127.0.0.1'')"
  "rawHostnameFromUrl (js ''http://user@localhost'') = None" "rawHostnameFromUrl (js ''localhost:3000'') = None"
  by code_simp+

definition strictOctet :: "jsstr \<Rightarrow> bool" where
  "strictOctet s \<longleftrightarrow> canonicalDec s \<and> length s \<le> 3 \<and> natOfDec s \<le> 255"

definition isStrictIpv4Loopback :: "jsstr \<Rightarrow> bool" where
  "isStrictIpv4Loopback hostname =
     (let octets = splitOn 0x2E hostname in
      length octets = 4 \<and> list_all strictOctet octets \<and> natOfDec (hd octets) = 127)"

definition isLoopbackHost :: "jsstr \<Rightarrow> url \<Rightarrow> bool" where
  "isLoopbackHost value parsed = (case rawHostnameFromUrl value of
      None \<Rightarrow> False
    | Some raw \<Rightarrow>
        if map lowerUnit raw = js ''localhost'' then map lowerUnit (uHostname parsed) = js ''localhost''
        else if map lowerUnit raw = js ''[::1]'' then map lowerUnit (uHostname parsed) = js ''[::1]''
        else isStrictIpv4Loopback raw \<and> map lowerUnit (uHostname parsed) = raw)"

definition normalizeExplicitHost :: "transport_env \<Rightarrow> bool \<Rightarrow> jsval \<Rightarrow> gerr + jsstr" where
  "normalizeExplicitHost E allowLoopback host = (case host of
      Str h \<Rightarrow>
        (let source = jsTrim h in
         if source = [] then Inl (thrown ''An explicit HTTPS host is required'')
         else case teUrl E source of
             None \<Rightarrow> Inl (thrown ''Host must be an absolute HTTPS URL'')
           | Some parsed \<Rightarrow>
               let localHttp = (uProtocol parsed = js ''http:'' \<and> allowLoopback \<and> isLoopbackHost source parsed) in
               if uProtocol parsed \<noteq> js ''https:'' \<and> \<not> localHttp
               then Inl (thrown ''Host must use HTTPS (HTTP is allowed only for loopback tests)'')
               else if uUsername parsed \<noteq> [] \<or> uPassword parsed \<noteq> [] \<or> uSearch parsed \<noteq> [] \<or> uHash parsed \<noteq> []
               then Inl (thrown ''Host must not contain credentials, query, or fragment'')
               else if uPathname parsed \<noteq> js ''/'' then Inl (thrown ''Configured hosts must be origins without a path'')
               else Inr (uOrigin parsed))
    | _ \<Rightarrow> Inl (thrown ''An explicit HTTPS host is required''))"

text \<open>The loopback branch is live: a server on the local machine is accepted over HTTP, but only when allowed.\<close>

lemma loopback_host_allowed:
  assumes "teUrl E (js ''http://localhost:3000'') = Some u" "uProtocol u = js ''http:''" "uHostname u = js ''localhost''"
    "uUsername u = []" "uPassword u = []" "uSearch u = []" "uHash u = []" "uPathname u = js ''/''"
  shows "normalizeExplicitHost E True (Str (js ''http://localhost:3000'')) = Inr (uOrigin u)"
    "\<not> is_ok (normalizeExplicitHost E False (Str (js ''http://localhost:3000'')))"
proof -
  have trim: "jsTrim (js ''http://localhost:3000'') = js ''http://localhost:3000''" "js ''http://localhost:3000'' \<noteq> []"
    "js ''http:'' \<noteq> js ''https:''" "map lowerUnit (js ''localhost'') = js ''localhost''" by code_simp+
  have raw: "rawHostnameFromUrl (js ''http://localhost:3000'') = Some (js ''localhost'')" by code_simp
  show "normalizeExplicitHost E True (Str (js ''http://localhost:3000'')) = Inr (uOrigin u)"
    by (simp add: normalizeExplicitHost_def isLoopbackHost_def Let_def trim raw assms)
  show "\<not> is_ok (normalizeExplicitHost E False (Str (js ''http://localhost:3000'')))"
    by (simp add: normalizeExplicitHost_def Let_def trim assms is_ok_def)
qed

text \<open>\<open>new URL(host).origin\<close>, which throws when the text is no URL.\<close>

definition originOfHost :: "transport_env \<Rightarrow> jsstr \<Rightarrow> gerr + jsstr" where
  "originOfHost E host = (case teUrl E host of None \<Rightarrow> Inl (thrown ''Invalid URL'') | Some u \<Rightarrow> Inr (uOrigin u))"

subsection \<open>The guarded fetch\<close>

definition BLOCKED_AUTHFETCH_OPTIONS :: "string list" where
  "BLOCKED_AUTHFETCH_OPTIONS = [''paymentContext'', ''paymentRetryAttempts'', ''labels'']"

definition FETCH_OPTIONS :: "string list" where
  "FETCH_OPTIONS = [''method'', ''headers'', ''body'', ''retryCounter'']"

definition hasKey :: "jsval \<Rightarrow> string \<Rightarrow> bool" where
  "hasKey v name \<longleftrightarrow> js name \<in> set (keysOf v)"

definition isPaymentHeader :: "jsstr \<Rightarrow> bool" where
  "isPaymentHeader name \<longleftrightarrow> map lowerUnit name = js ''x-bsv-payment''"

definition safeHeaders :: "jsval \<Rightarrow> gerr + jsval" where
  "safeHeaders headers = (case headers of
      Undefined \<Rightarrow> Inr Undefined
    | Obj entries \<Rightarrow> if list_ex (\<lambda>(k, v). isPaymentHeader k) entries then Inl GuardedPayment else Inr (Obj entries)
    | _ \<Rightarrow> Inl (thrown ''AuthFetch headers must be a string-keyed object''))"

fun safeOptions :: "jsval \<Rightarrow> string list \<Rightarrow> gerr + (jsstr \<times> jsval) list" where
  "safeOptions config [] = Inr []"
| "safeOptions config (k # ks) =
     (if \<not> hasKey config k then safeOptions config ks
      else andThen (if k = ''headers'' then safeHeaders (field config k) else Inr (field config k)) (\<lambda>v.
           andThen (safeOptions config ks) (\<lambda>ps. Inr ((js k, v) # ps))))"

definition normalizeFreeOnlyFetchOptions :: "jsval \<Rightarrow> gerr + jsval" where
  "normalizeFreeOnlyFetchOptions config =
     (if config = Undefined then Inr Undefined
      else if \<not> isRecord config then Inl (thrown ''AuthFetch options must be an object'')
      else if list_ex (hasKey config) BLOCKED_AUTHFETCH_OPTIONS then Inl GuardedPayment
      else if \<not> list_all (\<lambda>k. k \<in> js ` set FETCH_OPTIONS) (keysOf config) then Inl (thrown ''Unsupported free-only AuthFetch option'')
      else andThen (safeOptions config FETCH_OPTIONS) (\<lambda>ps. Inr (Obj ps)))"

definition validateRequestUrl :: "transport_env \<Rightarrow> (url \<Rightarrow> jsval \<Rightarrow> bool) \<Rightarrow> bool \<Rightarrow> jsval \<Rightarrow> jsval \<Rightarrow> gerr + jsstr" where
  "validateRequestUrl E authorize allowLoopback value config = (case value of Str address \<Rightarrow> (case teUrl E address of
      None \<Rightarrow> Inl (thrown ''AuthFetch URL must be an absolute URL string'')
    | Some parsed \<Rightarrow>
        let localHttp = (uProtocol parsed = js ''http:'' \<and> allowLoopback \<and> isLoopbackHost address parsed) in
        if uProtocol parsed \<noteq> js ''https:'' \<and> \<not> localHttp
        then Inl (thrown ''AuthFetch requests require HTTPS (HTTP is allowed only for loopback tests)'')
        else if uUsername parsed \<noteq> [] \<or> uPassword parsed \<noteq> [] \<or> uHash parsed \<noteq> []
        then Inl (thrown ''AuthFetch URL must not contain credentials or a fragment'')
        else if \<not> authorize parsed config
        then Inl (thrown ''AuthFetch request is not authorized for this origin, route, and method'')
        else Inr (uHref parsed))
    | _ \<Rightarrow> Inl (thrown ''AuthFetch URL must be an absolute URL string''))"

definition safeFetch :: "transport_env \<Rightarrow> (url \<Rightarrow> jsval \<Rightarrow> bool) \<Rightarrow> bool \<Rightarrow> jsval \<Rightarrow> jsval \<Rightarrow> fetch_response guarded" where
  "safeFetch E authorize allowLoopback address config =
     actBind (actPure (normalizeFreeOnlyFetchOptions (if config = Undefined then Obj [] else config))) (\<lambda>safeConfig.
     actBind (actPure (validateRequestUrl E authorize allowLoopback address safeConfig)) (\<lambda>safeUrl.
     sdkRun E (SdkFetch safeUrl safeConfig) (teFetched E)))"

text \<open>The fetch bound to one origin, for a service client: the host is fixed when it is created.\<close>

definition createFreeOnlyAuthFetch :: "transport_env \<Rightarrow> bool \<Rightarrow> jsval \<Rightarrow> gerr + (jsval \<Rightarrow> jsval \<Rightarrow> fetch_response guarded)" where
  "createFreeOnlyAuthFetch E lb host =
     andThen (normalizeExplicitHost E lb host) (\<lambda>h.
     Inr (safeFetch E (\<lambda>parsed config. originOfHost E h = Inr (uOrigin parsed)) lb))"

subsection \<open>The message box client\<close>

record message_box_client =
  mbHost :: jsstr
  mbTrusted :: "jsstr list"
  mbAllowed :: "jsstr list"
  mbPrimary :: jsstr
  mbLoopback :: bool

fun addTrustedHosts :: "transport_env \<Rightarrow> bool \<Rightarrow> jsval list \<Rightarrow> jsstr list \<Rightarrow> jsstr list \<Rightarrow> gerr + (jsstr list \<times> jsstr list)" where
  "addTrustedHosts E lb [] hosts origins = Inr (hosts, origins)"
| "addTrustedHosts E lb (v # vs) hosts origins =
     andThen (normalizeExplicitHost E lb v) (\<lambda>h.
     andThen (originOfHost E h) (\<lambda>og.
     if og \<notin> set origins then addTrustedHosts E lb vs (hosts @ [h]) (origins @ [og])
     else addTrustedHosts E lb vs hosts origins))"

definition createFreeOnlyMessageBoxClient :: "transport_env \<Rightarrow> bool \<Rightarrow> jsval \<Rightarrow> jsval \<Rightarrow> gerr + message_box_client" where
  "createFreeOnlyMessageBoxClient E lb host trustedHosts = (case trustedHosts of
      Arr vs \<Rightarrow>
        andThen (normalizeExplicitHost E lb host) (\<lambda>h.
        andThen (originOfHost E h) (\<lambda>og.
        andThen (addTrustedHosts E lb vs [] [og]) (\<lambda>(hosts, origins).
        Inr \<lparr>mbHost = h, mbTrusted = hosts, mbAllowed = origins, mbPrimary = og, mbLoopback = lb\<rparr>)))
    | _ \<Rightarrow> Inl (thrown ''trustedHosts must be an array of explicit HTTPS origins''))"

definition normalizeTrustedDestination :: "transport_env \<Rightarrow> message_box_client \<Rightarrow> jsval \<Rightarrow> gerr + jsstr" where
  "normalizeTrustedDestination E c hostOverride =
     andThen (normalizeExplicitHost E (mbLoopback c) hostOverride) (\<lambda>d.
     andThen (originOfHost E d) (\<lambda>og.
     if og \<notin> set (mbAllowed c)
     then Inl (thrown ''Message Box destination must use the primary or an explicitly trusted origin'') else Inr d))"

definition LIST_PATH :: jsstr where "LIST_PATH = js ''/listMessages''"
definition ACK_PATH :: jsstr where "ACK_PATH = js ''/acknowledgeMessage''"

definition requestMethod :: "jsval \<Rightarrow> jsstr" where
  "requestMethod config = (case field config ''method'' of Undefined \<Rightarrow> js ''GET'' | Null \<Rightarrow> js ''GET'' | v \<Rightarrow> strOf v)"

text \<open>The methods compared are upper-case already; \<open>toUpperCase\<close> is applied to the ASCII letters.\<close>

definition upperUnit :: "code_unit \<Rightarrow> code_unit" where
  "upperUnit u = (if 0x61 \<le> u \<and> u \<le> 0x7A then u - 0x20 else u)"

definition authorizeRequest :: "message_box_client \<Rightarrow> url \<Rightarrow> jsval \<Rightarrow> bool" where
  "authorizeRequest c parsed config \<longleftrightarrow>
     (let routed = (map upperUnit (requestMethod config) = js ''POST'' \<and> uPathname parsed \<in> {LIST_PATH, ACK_PATH} \<and> uSearch parsed = [])
      in if uOrigin parsed = mbPrimary c then routed else uOrigin parsed \<in> set (mbAllowed c) \<and> routed)"

definition postJson :: "jsstr \<Rightarrow> jsval" where
  "postJson text = Obj [(js ''method'', Str (js ''POST'')),
     (js ''headers'', Obj [(js ''Content-Type'', Str (js ''application/json''))]), (js ''body'', Str text)]"

definition jsonMessageResponse :: "fetch_response \<Rightarrow> string \<Rightarrow> gerr + jsval" where
  "jsonMessageResponse r operation = (case frJson r of
      Inl e \<Rightarrow> Inl (Thrown e)
    | Inr data \<Rightarrow> if \<not> frOk r \<or> \<not> strictEq (field data ''status'') (Str (js ''success''))
        then Inl (Thrown (JsErr PlainError None (operation @ '' failed''))) else Inr data)"

definition getIdentityKey :: "transport_env \<Rightarrow> jsval guarded" where
  "getIdentityKey E = sdkRun E SdkIdentity (teIdentified E)"

definition listRawPage :: "transport_env \<Rightarrow> message_box_client \<Rightarrow> jsval \<Rightarrow> jsval \<Rightarrow> jsval \<Rightarrow> jsval \<Rightarrow> jsval guarded" where
  "listRawPage E c mbox offset limit hostOverride =
     (let off = (if offset = Undefined then IntNum 0 else offset); lim = (if limit = Undefined then IntNum 100 else limit);
          host = (if hostOverride = Undefined then Str (mbHost c) else hostOverride) in
      actBind (actPure (require (case mbox of Str s \<Rightarrow> jsTrim s \<noteq> [] | _ \<Rightarrow> False) (thrown ''messageBox is required''))) (\<lambda>_.
      actBind (actPure (require (isSafeInteger off \<and> 0 \<le> safeInt off) (thrown ''offset must be a non-negative safe integer''))) (\<lambda>_.
      actBind (actPure (require (positiveSafe lim) (thrown ''limit must be a positive safe integer''))) (\<lambda>_.
      actBind (actPure (normalizeTrustedDestination E c host)) (\<lambda>destination.
      actBind (safeFetch E (authorizeRequest c) (mbLoopback c) (Str (teEndpoint E destination LIST_PATH))
        (postJson (teStringify E (Obj [(js ''messageBox'', mbox), (js ''offset'', off), (js ''limit'', lim)])))) (\<lambda>r.
      actPure (jsonMessageResponse r ''Message Box list'')))))))"

definition acknowledgeMessage :: "transport_env \<Rightarrow> message_box_client \<Rightarrow> jsval \<Rightarrow> jsval \<Rightarrow> jsval guarded" where
  "acknowledgeMessage E c messageIds hostOverride =
     (let host = (if hostOverride = Undefined then Str (mbHost c) else hostOverride) in
      actBind (actPure (require (case messageIds of
            Arr ids \<Rightarrow> ids \<noteq> [] \<and> list_all (\<lambda>i. case i of Str s \<Rightarrow> s \<noteq> [] | _ \<Rightarrow> False) ids | _ \<Rightarrow> False)
        (thrown ''messageIds must be a non-empty array of non-empty strings''))) (\<lambda>_.
      actBind (actPure (normalizeTrustedDestination E c host)) (\<lambda>destination.
      actBind (safeFetch E (authorizeRequest c) (mbLoopback c) (Str (teEndpoint E destination ACK_PATH))
        (postJson (teStringify E (Obj [(js ''messageIds'', messageIds)])))) (\<lambda>r.
      actPure (andThen (jsonMessageResponse r ''Message Box acknowledgement'') (\<lambda>d. Inr (field d ''status'')))))))"

definition paymentDenialCount :: "client_call list \<Rightarrow> nat" where
  "paymentDenialCount h = length (filter (\<lambda>c. c = KeyDenied) h)"

definition assertNoPaidMessageFields :: "jsval \<Rightarrow> gerr + unit" where
  "assertNoPaidMessageFields message =
     require (\<not> (field message ''checkPermissions'' = Boolean True \<or> (isRecord message \<and> hasKey message ''payment''))) GuardedPayment"

text \<open>\<open>catch\<close> of the send: a denial since the send began turns any error into a payment error.\<close>

definition sendMessage :: "transport_env \<Rightarrow> message_box_client \<Rightarrow> jsval \<Rightarrow> jsval \<Rightarrow> jsval guarded" where
  "sendMessage E c params hostOverride =
     (let host = (if hostOverride = Undefined then Str (mbHost c) else hostOverride) in
      actBind (actPure (assertNoPaidMessageFields params)) (\<lambda>_.
      actBind (actPure (normalizeExplicitHost E (mbLoopback c) host)) (\<lambda>destination.
      actBind (actPure (require (destination = mbHost c) (thrown ''Outbound Message Box send must use the primary origin''))) (\<lambda>_.
      (\<lambda>h. (case sdkRun E (SdkSend (Obj (setProp (js ''checkPermissions'') (Boolean False) (case params of Obj ps \<Rightarrow> ps | _ \<Rightarrow> [])))
                destination) (teSent E) h of
          (Inr x, h') \<Rightarrow> (Inr x, h')
        | (Inl e, h') \<Rightarrow>
            (Inl (if paymentDenialCount h < paymentDenialCount h' \<or> e = GuardedPayment then GuardedPayment else e), h')))))))"

subsection \<open>What may leave the client\<close>

text \<open>A wallet call that is no payment operation; a request to an allowed origin and route, without
  a payment option or header; a send of a message without a payment to the primary host.\<close>

definition freeWalletCall :: "string \<Rightarrow> jsval \<Rightarrow> bool" where
  "freeWalletCall name args \<longleftrightarrow> name \<in> set WALLET_INTERFACE_METHODS - set BLOCKED_ACTION_METHODS
     \<and> \<not> (name = ''getPublicKey'' \<and> isPaymentDerivationKey args)"

definition freeRequest :: "transport_env \<Rightarrow> message_box_client \<Rightarrow> jsstr \<Rightarrow> jsval \<Rightarrow> bool" where
  "freeRequest E c href config \<longleftrightarrow>
     (\<exists>address u. teUrl E address = Some u \<and> href = uHref u \<and> uOrigin u \<in> set (mbAllowed c)
        \<and> uPathname u \<in> {LIST_PATH, ACK_PATH} \<and> uSearch u = [] \<and> uHash u = [] \<and> uUsername u = [] \<and> uPassword u = []
        \<and> (uProtocol u = js ''https:'' \<or> mbLoopback c \<and> isLoopbackHost address u))
     \<and> set (keysOf config) \<subseteq> js ` set FETCH_OPTIONS
     \<and> (\<forall>k \<in> set (keysOf (field config ''headers'')). \<not> isPaymentHeader k)"

definition freePolicy :: "transport_env \<Rightarrow> message_box_client \<Rightarrow> client_call list \<Rightarrow> client_call \<Rightarrow> bool" where
  "freePolicy E c h call = (case call of
      WalletCall name args \<Rightarrow> freeWalletCall name args
    | SdkFetch href config \<Rightarrow> freeRequest E c href config
    | SdkSend params destination \<Rightarrow> destination = mbHost c \<and> \<not> hasKey params ''payment'' \<and> field params ''checkPermissions'' = Boolean False
    | _ \<Rightarrow> True)"

lemma facadeCall_free: "obeys (freePolicy E c) (facadeCall E name args)"
  unfolding facadeCall_def by (intro call_rules obeys_call) (auto simp: freePolicy_def freeWalletCall_def)

lemma sdkCalls_free: "obeys (freePolicy E c) (sdkCalls E cs)"
  by (induction cs rule: sdkCalls.induct) (auto intro!: obeys_bind obeys_try facadeCall_free obeys_pure)

lemma sdkRun_free:
  assumes "\<And>h. freePolicy E c h call"
  shows "obeys (freePolicy E c) (sdkRun E call outcome)"
proof -
  have "obeys (freePolicy E c) (\<lambda>h. sdkCalls E (teSdkCalls E h) h)"
    using sdkCalls_free by (simp add: obeys_def)
  moreover have "obeys (freePolicy E c) (\<lambda>h. (outcome h, h))" for outcome :: "client_call list \<Rightarrow> gerr + 'x"
    by (simp add: obeys_def calls_none)
  ultimately show ?thesis unfolding sdkRun_def using assms by (intro obeys_call_bind obeys_bind)
qed

lemma safeOptions_keys: "safeOptions config ks = Inr ps \<Longrightarrow> fst ` set ps \<subseteq> js ` set ks"
proof (induction ks arbitrary: ps)
  case (Cons k ks)
  then show ?case
    by (cases "hasKey config k")
      (simp_all only: safeOptions.simps if_False if_True not_False_eq_True not_True_eq_False,
        auto simp: result_simps dest!: subsetD)
qed simp

lemma safeHeaders_free: "safeHeaders v = Inr w \<Longrightarrow> k \<in> set (keysOf w) \<Longrightarrow> \<not> isPaymentHeader k"
  by (auto simp: safeHeaders_def keysOf_def list_ex_iff split: jsval.splits if_splits)

lemma normalizedOptions_free:
  assumes "normalizeFreeOnlyFetchOptions config = Inr safe" "safe \<noteq> Undefined"
  shows "set (keysOf safe) \<subseteq> js ` set FETCH_OPTIONS" "\<forall>k \<in> set (keysOf (field safe ''headers'')). \<not> isPaymentHeader k"
proof -
  obtain ps where ps: "safe = Obj ps" "safeOptions config FETCH_OPTIONS = Inr ps"
    using assms by (auto simp: normalizeFreeOnlyFetchOptions_def result_simps split: if_splits)
  show "set (keysOf safe) \<subseteq> js ` set FETCH_OPTIONS"
    using safeOptions_keys [OF ps(2)] by (simp add: ps(1) keysOf_def)
  have "field safe ''headers'' = Undefined \<or> (\<exists>v. safeHeaders v = Inr (field safe ''headers''))"
    using ps(2) unfolding ps(1)
    by (auto simp: FETCH_OPTIONS_def result_simps field_def getProp_def js_def split: if_splits)
  then show "\<forall>k \<in> set (keysOf (field safe ''headers'')). \<not> isPaymentHeader k"
    by (elim disjE) (simp add: keysOf_def, metis safeHeaders_free)
qed

lemma validateRequestUrl_free:
  assumes "validateRequestUrl E (authorizeRequest c) (mbLoopback c) (Str address) config = Inr href" "mbPrimary c \<in> set (mbAllowed c)"
  shows "\<exists>address u. teUrl E address = Some u \<and> href = uHref u \<and> uOrigin u \<in> set (mbAllowed c)
        \<and> uPathname u \<in> {LIST_PATH, ACK_PATH} \<and> uSearch u = [] \<and> uHash u = [] \<and> uUsername u = [] \<and> uPassword u = []
        \<and> (uProtocol u = js ''https:'' \<or> mbLoopback c \<and> isLoopbackHost address u)"
proof -
  obtain u where u: "teUrl E address = Some u" using assms(1) by (auto simp: validateRequestUrl_def split: option.splits)
  have "uHash u = [] \<and> uUsername u = [] \<and> uPassword u = [] \<and> authorizeRequest c u config \<and> href = uHref u
      \<and> (uProtocol u = js ''https:'' \<or> mbLoopback c \<and> isLoopbackHost address u)"
    using assms(1) u by (auto simp: validateRequestUrl_def Let_def split: if_splits)
  moreover have "authorizeRequest c u config \<Longrightarrow> uOrigin u \<in> set (mbAllowed c) \<and> uPathname u \<in> {LIST_PATH, ACK_PATH} \<and> uSearch u = []"
    using assms(2) by (auto simp: authorizeRequest_def Let_def split: if_splits)
  ultimately show ?thesis using u by blast
qed

lemma safeFetch_free:
  assumes "mbPrimary c \<in> set (mbAllowed c)"
  shows "obeys (freePolicy E c) (safeFetch E (authorizeRequest c) (mbLoopback c) (Str address) (postJson text))"
  unfolding safeFetch_def
proof (intro obeys_check)
  fix safe href
  assume n: "normalizeFreeOnlyFetchOptions (if postJson text = Undefined then Obj [] else postJson text) = Inr safe"
    and v: "validateRequestUrl E (authorizeRequest c) (mbLoopback c) (Str address) safe = Inr href"
  have "safe \<noteq> Undefined" using n by (auto simp: normalizeFreeOnlyFetchOptions_def postJson_def result_simps split: if_splits)
  then have "freeRequest E c href safe"
    using normalizedOptions_free [OF n] validateRequestUrl_free [OF v assms] by (simp add: freeRequest_def)
  then show "obeys (freePolicy E c) (sdkRun E (SdkFetch href safe) (teFetched E))"
    by (intro sdkRun_free) (simp add: freePolicy_def)
qed

lemma setProp_keys: "set (map fst (setProp k v ps)) = insert k (set (map fst ps))"
  by (induction k v ps rule: setProp.induct) auto

lemma getProp_setProp: "getProp (setProp k v ps) k = v"
  by (induction k v ps rule: setProp.induct) (auto simp: getProp_def)

lemma sendMessage_free: "obeys (freePolicy E c) (sendMessage E c params hostOverride)"
  unfolding sendMessage_def Let_def
proof (intro obeys_check)
  fix u d w
  assume p: "assertNoPaidMessageFields params = Inr u" and d: "require (d = mbHost c)
      (thrown ''Outbound Message Box send must use the primary origin'') = Inr w"
  let ?ps = "case params of Obj ps \<Rightarrow> ps | _ \<Rightarrow> []"
  let ?sent = "Obj (setProp (js ''checkPermissions'') (Boolean False) ?ps)"
  have "js ''payment'' \<noteq> js ''checkPermissions''" by (simp add: js_def)
  then have "\<not> hasKey ?sent ''payment''" using p setProp_keys [of "js ''checkPermissions''" "Boolean False" ?ps]
    by (auto simp: assertNoPaidMessageFields_def result_simps hasKey_def keysOf_def isRecord_def split: jsval.splits)
  moreover have "field ?sent ''checkPermissions'' = Boolean False" by (simp add: field_def getProp_setProp)
  ultimately have "obeys (freePolicy E c) (sdkRun E (SdkSend ?sent d) (teSent E))"
    using d by (intro sdkRun_free) (auto simp: freePolicy_def result_simps)
  then show "obeys (freePolicy E c) (\<lambda>h. (case sdkRun E (SdkSend ?sent d) (teSent E) h of
          (Inl e, h') \<Rightarrow> (Inl (if paymentDenialCount h < paymentDenialCount h' \<or> e = GuardedPayment then GuardedPayment else e), h')
        | (Inr x, h') \<Rightarrow> (Inr x, h')))"
    unfolding obeys_obeysWhen by (rule obeysWhen_rethrow)
qed

lemma addTrustedHosts_keeps: "addTrustedHosts E lb vs hosts origins = Inr (hs, og) \<Longrightarrow> set origins \<subseteq> set og"
  by (induction vs arbitrary: hosts origins) (fastforce simp: result_simps split: if_splits)+

lemma client_primary: "createFreeOnlyMessageBoxClient E lb host trusted = Inr c \<Longrightarrow> mbPrimary c \<in> set (mbAllowed c)"
  by (auto simp: createFreeOnlyMessageBoxClient_def result_simps split: jsval.splits dest!: addTrustedHosts_keeps)

text \<open>The operations of a client, run one after the other whatever each of them returns.\<close>

datatype client_op = Identity | ListPage jsval jsval jsval jsval | Acknowledge jsval jsval | Send jsval jsval

fun runOps :: "transport_env \<Rightarrow> message_box_client \<Rightarrow> client_op list \<Rightarrow> client_call list \<Rightarrow> client_call list" where
  "runOps E c [] h = h"
| "runOps E c (Identity # os) h = runOps E c os (snd (getIdentityKey E h))"
| "runOps E c (ListPage b off lm host # os) h = runOps E c os (snd (listRawPage E c b off lm host h))"
| "runOps E c (Acknowledge ids host # os) h = runOps E c os (snd (acknowledgeMessage E c ids host h))"
| "runOps E c (Send params host # os) h = runOps E c os (snd (sendMessage E c params host h))"

lemma runOps_free:
  assumes "mbPrimary c \<in> set (mbAllowed c)"
  shows "callsFrom (freePolicy E c) h (runOps E c ops h)"
proof (induction ops arbitrary: h)
  case (Cons x ops)
  have l: "obeys (freePolicy E c) (listRawPage E c b off lm host)" for b off lm host
    unfolding listRawPage_def Let_def by (intro obeys_check obeys_bind safeFetch_free assms obeys_pure)
  have k: "obeys (freePolicy E c) (acknowledgeMessage E c ids host)" for ids host
    unfolding acknowledgeMessage_def Let_def by (intro obeys_check obeys_bind safeFetch_free assms obeys_pure)
  have step: "callsFrom (freePolicy E c) h (runOps E c ops (snd (m h)))"
    if "obeys (freePolicy E c) m" for m :: "jsval guarded"
    using that Cons callsFrom_trans by (metis obeys_def)
  have i: "obeys (freePolicy E c) (getIdentityKey E)"
    unfolding getIdentityKey_def by (rule sdkRun_free) (simp add: freePolicy_def)
  show ?case by (cases x) (use step [OF i] step [OF l] step [OF k] step [OF sendMessage_free] in simp_all)
qed (simp add: calls_none)

text \<open>C10: A client can never pay: whatever the SDK does with the wallet it holds, in any sequence of identity,
  list, acknowledge and send operations every call that reaches the caller's wallet is a known method
  other than a transaction action and no derivation of the payment key, every request goes to a
  configured origin over HTTPS (or a loopback host of a test client) on one of the two routes
  without credentials and without any payment option or header, and every message sent goes to the
  primary host without a payment.\<close>

theorem client_never_pays:
  assumes "createFreeOnlyMessageBoxClient E lb host trusted = Inr c" "runOps E c ops [] = before @ call # after"
  shows "(case call of
      WalletCall name args \<Rightarrow> freeWalletCall name args
    | SdkFetch href config \<Rightarrow> freeRequest E c href config
    | SdkSend params destination \<Rightarrow> destination = mbHost c \<and> \<not> hasKey params ''payment''
        \<and> field params ''checkPermissions'' = Boolean False
    | _ \<Rightarrow> True)"
proof -
  have "callsFrom (freePolicy E c) [] (before @ call # after)"
    using runOps_free [OF client_primary [OF assms(1)], of E "[]" ops] assms(2) by simp
  from callsFrom_split [OF this refl] show ?thesis by (simp add: freePolicy_def)
qed

definition paidHost :: jsstr where "paidHost = js ''https://box.test''"

text \<open>A platform that knows two addresses and an SDK that answers every request by trying to pay.\<close>

definition paidUrl :: "jsstr \<Rightarrow> string \<Rightarrow> url" where
  "paidUrl href path = \<lparr>uProtocol = js ''https:'', uUsername = [], uPassword = [], uHostname = js ''box.test'', uPathname = js path,
     uSearch = [], uHash = [], uOrigin = paidHost, uHref = href\<rparr>"

definition paidEnv :: transport_env where
  "paidEnv = \<lparr>teUrl = (\<lambda>s. if s = paidHost then Some (paidUrl s ''/'')
       else if s = paidHost @ LIST_PATH then Some (paidUrl s ''/listMessages'') else None),
     teEndpoint = (@), teStringify = (\<lambda>_. js ''{}''), teImplements = (\<lambda>_. True), teWallet = (\<lambda>h. Inr Undefined),
     teSdkCalls = (\<lambda>h. [(''createHmac'', Undefined),
        (''getPublicKey'', Obj [(js ''protocolID'', Arr [IntNum 2, Str (js ''3241645161d8'')])]), (''createAction'', Undefined)]),
     teFetched = (\<lambda>h. Inl GuardedPayment), teSent = (\<lambda>h. Inl GuardedPayment), teIdentified = (\<lambda>h. Inl GuardedPayment)\<rparr>"

definition paidClient :: message_box_client where
  "paidClient = \<lparr>mbHost = paidHost, mbTrusted = [], mbAllowed = [paidHost], mbPrimary = paidHost, mbLoopback = False\<rparr>"

lemma paidClient_created:
  "createFreeOnlyMessageBoxClient paidEnv False (Str paidHost) (Arr []) = Inr paidClient"
  by code_simp

lemma paid_run:
  "map (\<lambda>c. case c of WalletCall n a \<Rightarrow> n | KeyDenied \<Rightarrow> ''denied'' | SdkFetch u a \<Rightarrow> ''fetch'' | _ \<Rightarrow> ''other'')
     (runOps paidEnv paidClient [ListPage (Str (js ''inbox'')) Undefined Undefined Undefined] [])
   = [''fetch'', ''createHmac'', ''denied'']"
  by code_simp

lemma client_never_pays_witness:
  "freeWalletCall ''createHmac'' Undefined"
proof -
  let ?h = "runOps paidEnv paidClient [ListPage (Str (js ''inbox'')) Undefined Undefined Undefined] []"
  have "?h = take 1 ?h @ WalletCall ''createHmac'' Undefined # drop 2 ?h" by code_simp
  from client_never_pays [OF paidClient_created this] show ?thesis by simp
qed

end
