(* ===== verification/Client.thy ===== *)
theory Client
  imports Transport JsConvert MemoryStore
begin

section \<open>The history client\<close>

text \<open>
  \<open>src/client.ts\<close>: the browser-safe client of the history service. It builds a request for every
  operation, sends it through the payment-free fetch of theory \<open>Transport\<close>, turns every failure into
  an error with a fixed text, and checks the parsed answer before it returns it. The platform's
  \<open>URL\<close> and \<open>URLSearchParams\<close> are a parameter: the text of the address made of a path, a base and
  the query pairs. Request bodies are \<open>json\<close> values, printed by \<open>JSON.stringify\<close>.
\<close>

subsection \<open>Errors\<close>

definition STORE_ERROR_CODES :: "(code \<times> string) list" where
  "STORE_ERROR_CODES = [(ERR_AUTHENTICATION_REQUIRED, ''ERR_AUTHENTICATION_REQUIRED''), (ERR_FORBIDDEN, ''ERR_FORBIDDEN''),
     (ERR_INVALID_RECORD, ''ERR_INVALID_RECORD''), (ERR_REQUEST_TOO_LARGE, ''ERR_REQUEST_TOO_LARGE''),
     (ERR_QUOTA_EXCEEDED, ''ERR_QUOTA_EXCEEDED''), (ERR_IMMUTABLE_CONFLICT, ''ERR_IMMUTABLE_CONFLICT''),
     (ERR_CURSOR_EXPIRED, ''ERR_CURSOR_EXPIRED''), (ERR_INVALID_CURSOR, ''ERR_INVALID_CURSOR''),
     (ERR_REVISION_CONFLICT, ''ERR_REVISION_CONFLICT''), (ERR_EPOCH_CHANGED, ''ERR_EPOCH_CHANGED''),
     (ERR_RATE_LIMITED, ''ERR_RATE_LIMITED''), (ERR_UNAVAILABLE, ''ERR_UNAVAILABLE''), (ERR_INTERNAL, ''ERR_INTERNAL''),
     (ERR_PAID_TRANSPORT_UNSUPPORTED, ''ERR_PAID_TRANSPORT_UNSUPPORTED''),
     (ERR_IDEMPOTENCY_CONFLICT, ''ERR_IDEMPOTENCY_CONFLICT''), (ERR_EPOCH_EXHAUSTED, ''ERR_EPOCH_EXHAUSTED'')]"

text \<open>The code a text names, if any.\<close>

definition codeOf :: "jsstr \<Rightarrow> code option" where
  "codeOf s = map_option fst (List.find (\<lambda>(c, t). js t = s) STORE_ERROR_CODES)"

text \<open>A \<open>MessageBoxStoreClientError\<close>, an error of the transport passed on, and two errors of the
  platform with a text of its own: the \<open>URIError\<close> of a key that cannot be encoded, and the \<open>TypeError\<close>
  of an object that cannot be converted to a primitive value.\<close>

datatype client_error =
    StoreClientError code string "nat option" "int option"
  | PassedOn gerr
  | MalformedUri
  | NoPrimitive

definition malformed :: client_error where
  "malformed = StoreClientError ERR_INTERNAL ''History service returned a malformed response'' None None"

definition fixedErrorMessage :: "code \<Rightarrow> string" where
  "fixedErrorMessage c = (case c of
      ERR_AUTHENTICATION_REQUIRED \<Rightarrow> ''History authentication failed''
    | ERR_FORBIDDEN \<Rightarrow> ''History request is forbidden''
    | ERR_REQUEST_TOO_LARGE \<Rightarrow> ''History request exceeds a configured limit''
    | ERR_QUOTA_EXCEEDED \<Rightarrow> ''History storage quota is exceeded''
    | ERR_CURSOR_EXPIRED \<Rightarrow> ''History cursor expired''
    | ERR_RATE_LIMITED \<Rightarrow> ''History request was rate limited''
    | ERR_UNAVAILABLE \<Rightarrow> ''History service is unavailable''
    | ERR_PAID_TRANSPORT_UNSUPPORTED \<Rightarrow> ''Paid history transport is unsupported''
    | _ \<Rightarrow> ''History request failed'')"

subsection \<open>Checks of an answer\<close>

type_synonym 'a checked = "client_error + 'a"

definition mustBe :: "bool \<Rightarrow> unit checked" where
  "mustBe b = require b malformed"

definition requireString :: "jsval \<Rightarrow> jsstr checked" where
  "requireString v = (case v of Str s \<Rightarrow> Inr s | _ \<Rightarrow> Inl malformed)"

definition requireUint64 :: "jsval \<Rightarrow> jsstr checked" where
  "requireUint64 v = andThen (requireString v) (\<lambda>s. if canonicalDec s then Inr s else Inl malformed)"

definition requireEpoch :: "jsval \<Rightarrow> jsstr checked" where
  "requireEpoch v = andThen (requireString v) (\<lambda>s. if epochRe s then Inr s else Inl malformed)"

definition requireRecordKey :: "jsval \<Rightarrow> jsstr checked" where
  "requireRecordKey v = andThen (requireString v) (\<lambda>s. if hex64Re s then Inr s else Inl malformed)"

definition requireFiniteCount :: "jsval \<Rightarrow> int checked" where
  "requireFiniteCount v = (if isSafeInteger v \<and> 0 \<le> safeInt v then Inr (safeInt v) else Inl malformed)"

text \<open>\<open>String(value)\<close> throws on an object whose own \<open>toString\<close> is no function, as every member of parsed
  JSON is: \<open>valueOf\<close>, tried next, gives no primitive either.\<close>

fun printable :: "jsval \<Rightarrow> bool" where
  "printable (Arr vs) \<longleftrightarrow> list_all printable vs"
| "printable (Obj ps) \<longleftrightarrow> js ''toString'' \<notin> fst ` set ps"
| "printable v \<longleftrightarrow> True"

definition stringOf :: "jsval \<Rightarrow> jsstr checked" where
  "stringOf v = (if printable v then Inr (toStr v) else Inl NoPrimitive)"

text \<open>Checks made for their effect, one after the other.\<close>

fun checks :: "(client_error + 'a) list \<Rightarrow> unit checked" where
  "checks [] = Inr ()"
| "checks (r # rs) = andThen r (\<lambda>_. checks rs)"

fun checkEach :: "('a \<Rightarrow> unit checked) \<Rightarrow> 'a list \<Rightarrow> unit checked" where
  "checkEach f [] = Inr ()"
| "checkEach f (x # xs) = andThen (f x) (\<lambda>_. checkEach f xs)"

definition validateHistoryRecord :: "jsval \<Rightarrow> unit checked" where
  "validateHistoryRecord v =
     andThen (mustBe (isRecord v)) (\<lambda>_.
     andThen (requireRecordKey (field v ''recordKey'')) (\<lambda>_.
     andThen (checks (map (\<lambda>k. requireString (field v k))
        [''messageId'', ''messageBox'', ''sender'', ''recipient'', ''body'', ''bodyHash'', ''createdAt'', ''archivedAt''])) (\<lambda>_.
     andThen (mustBe (field v ''direction'' = Str (js ''inbound'') \<or> field v ''direction'' = Str (js ''outbound''))) (\<lambda>_.
     andThen (andThen (stringOf (field v ''deliveryState'')) (\<lambda>s. mustBe (s \<in> set DELIVERY_STATES))) (\<lambda>_.
     andThen (requireFiniteCount (field v ''bodyBytes'')) (\<lambda>_.
     andThen (requireUint64 (field v ''revision'')) (\<lambda>_.
     andThen (requireUint64 (field v ''changeSequence'')) (\<lambda>_. Inr ()))))))))"

definition validateDeleteEvent :: "jsval \<Rightarrow> unit checked" where
  "validateDeleteEvent v =
     andThen (mustBe (isRecord v)) (\<lambda>_.
     andThen (requireRecordKey (field v ''recordKey'')) (\<lambda>_.
     andThen (requireUint64 (field v ''sequence'')) (\<lambda>_.
     andThen (requireString (field v ''deletedAt'')) (\<lambda>_. Inr ()))))"

definition validateBrowse :: "jsval \<Rightarrow> jsval checked" where
  "validateBrowse v = (case field v ''records'' of
      Arr rs \<Rightarrow>
        andThen (checkEach validateHistoryRecord rs) (\<lambda>_.
        andThen (if field v ''nextAfter'' = Null then Inr () else
          andThen (mustBe (isRecord (field v ''nextAfter''))) (\<lambda>_.
          andThen (requireString (field (field v ''nextAfter'') ''createdAt'')) (\<lambda>_.
          andThen (requireRecordKey (field (field v ''nextAfter'') ''recordKey'')) (\<lambda>_. Inr ())))) (\<lambda>_.
        Inr v))
    | _ \<Rightarrow> Inl malformed)"

definition pageEntry :: "jsval \<Rightarrow> unit checked" where
  "pageEntry r = (if isRecord r \<and> js ''body'' \<in> set (keysOf r) then validateHistoryRecord r else validateDeleteEvent r)"

definition validateHistoryPage :: "jsval \<Rightarrow> jsval checked" where
  "validateHistoryPage v = (case (field v ''records'', field v ''hasMore'') of
      (Arr rs, Boolean _) \<Rightarrow>
        andThen (checkEach pageEntry rs) (\<lambda>_.
        andThen (if field v ''nextCursor'' = Null then Inr () else andThen (requireString (field v ''nextCursor'')) (\<lambda>_. Inr ())) (\<lambda>_.
        andThen (requireString (field v ''checkpoint'')) (\<lambda>_.
        andThen (requireUint64 (field v ''watermark'')) (\<lambda>_.
        andThen (requireEpoch (field v ''epoch'')) (\<lambda>_.
        andThen (requireString (field v ''serverTime'')) (\<lambda>_. Inr v))))))
    | _ \<Rightarrow> Inl malformed)"

definition OUTCOMES :: "string list" where
  "OUTCOMES = [''stored'', ''alreadyPresent'', ''conflict'', ''invalid'', ''quotaExceeded'', ''deleted'', ''epochChanged'', ''failed'']"

text \<open>\<open>Number.isInteger\<close> within the batch; the index itself.\<close>

definition outcomeIndex :: "jsval \<Rightarrow> nat \<Rightarrow> nat option" where
  "outcomeIndex v n = (case v of
      Number (Fin q) \<Rightarrow> if q = of_int \<lfloor>q\<rfloor> \<and> 0 \<le> q \<and> q < of_nat n then Some (nat \<lfloor>q\<rfloor>) else None
    | _ \<Rightarrow> None)"

definition optionally :: "jsval \<Rightarrow> 'a checked \<Rightarrow> unit checked" where
  "optionally v r = (if v = Undefined then Inr () else andThen r (\<lambda>_. Inr ()))"

definition requireHash :: "jsval \<Rightarrow> unit checked" where
  "requireHash v = andThen (requireString v) (\<lambda>s. mustBe (hex64Re s))"

definition outcomeFields :: "jsval \<Rightarrow> unit checked" where
  "outcomeFields v =
     andThen (if field v ''recordKey'' = Null \<or> field v ''recordKey'' = Undefined then Inr ()
       else andThen (requireRecordKey (field v ''recordKey'')) (\<lambda>_. Inr ())) (\<lambda>_.
     andThen (if field v ''errorCode'' = Undefined then Inr ()
       else andThen (stringOf (field v ''errorCode'')) (\<lambda>s. mustBe (codeOf s \<noteq> None))) (\<lambda>_.
     andThen (optionally (field v ''bodyHash'') (requireHash (field v ''bodyHash''))) (\<lambda>_.
     andThen (optionally (field v ''bodyBytes'') (requireFiniteCount (field v ''bodyBytes''))) (\<lambda>_.
     optionally (field v ''sequence'') (requireUint64 (field v ''sequence''))))))"

definition outcomeDemands :: "jsval \<Rightarrow> unit checked" where
  "outcomeDemands v =
     andThen (if field v ''outcome'' \<in> {Str (js ''stored''), Str (js ''alreadyPresent'')}
       then andThen (requireRecordKey (field v ''recordKey'')) (\<lambda>_. requireHash (field v ''bodyHash'')) else Inr ()) (\<lambda>_.
     if field v ''outcome'' = Str (js ''stored'')
     then andThen (requireFiniteCount (field v ''bodyBytes'')) (\<lambda>_. andThen (requireUint64 (field v ''sequence'')) (\<lambda>_. Inr ()))
     else Inr ())"

text \<open>The set of indexes seen grows with every outcome.\<close>

definition validateOutcome :: "nat \<Rightarrow> jsval \<Rightarrow> nat list \<Rightarrow> nat list checked" where
  "validateOutcome n v indexes =
     andThen (mustBe (isRecord v)) (\<lambda>_.
     case outcomeIndex (field v ''index'') n of
       None \<Rightarrow> Inl malformed
     | Some i \<Rightarrow>
         andThen (mustBe (i \<notin> set indexes)) (\<lambda>_.
         andThen (andThen (stringOf (field v ''outcome'')) (\<lambda>s. mustBe (s \<in> js ` set OUTCOMES))) (\<lambda>_.
         andThen (outcomeFields v) (\<lambda>_.
         andThen (outcomeDemands v) (\<lambda>_. Inr (indexes @ [i]))))))"

lemma unprintable_outcome:
  "validateOutcome 1 (Obj [(js ''index'', IntNum 0), (js ''outcome'', Obj [(js ''toString'', IntNum 1)])]) [] = Inl NoPrimitive"
  by code_simp

fun validateOutcomes :: "nat \<Rightarrow> jsval list \<Rightarrow> nat list \<Rightarrow> nat list checked" where
  "validateOutcomes n [] indexes = Inr indexes"
| "validateOutcomes n (v # vs) indexes = andThen (validateOutcome n v indexes) (validateOutcomes n vs)"

definition validateArchive :: "nat \<Rightarrow> jsval \<Rightarrow> jsval checked" where
  "validateArchive n v = (case (field v ''committed'', field v ''outcomes'') of
      (Boolean _, Arr os) \<Rightarrow>
        andThen (mustBe (length os = n)) (\<lambda>_.
        andThen (requireEpoch (field v ''epoch'')) (\<lambda>_.
        andThen (validateOutcomes n os []) (\<lambda>_. Inr v)))
    | _ \<Rightarrow> Inl malformed)"

subsection \<open>Building a request\<close>

text \<open>\<open>encodeURIComponent\<close>: all but the unreserved characters as percent signs and upper-case
  hexadecimal bytes; a lone surrogate is an error.\<close>

definition upperHex :: "nat \<Rightarrow> code_unit" where
  "upperHex d = js ''0123456789ABCDEF'' ! d"

definition uriUnreserved :: "nat \<Rightarrow> bool" where
  "uriUnreserved c \<longleftrightarrow> c < 0x80 \<and> (isAlnum (of_nat c) \<or> of_nat c \<in> set (js ''-_.!~*()'') \<or> c = 0x27)"

definition percentByte :: "byte \<Rightarrow> jsstr" where
  "percentByte b = [0x25, upperHex (unat b div 16), upperHex (unat b mod 16)]"

definition encodeURIComponent :: "jsstr \<Rightarrow> jsstr checked" where
  "encodeURIComponent s =
     (if hasInvalidUnicode s then Inl MalformedUri
      else Inr (concat (map (\<lambda>c. if uriUnreserved c then [of_nat c] else concat (map percentByte (utf8Scalar c))) (scalars s))))"

record client_env = transport_env +
  ceHref :: "jsstr \<Rightarrow> jsstr \<Rightarrow> (jsstr \<times> jsstr) list option \<Rightarrow> jsstr"

record store_client =
  scHost :: jsstr
  scLoopback :: bool

definition createStoreClient :: "client_env \<Rightarrow> bool \<Rightarrow> jsval \<Rightarrow> gerr + store_client" where
  "createStoreClient E allowLoopback host =
     andThen (normalizeExplicitHost (transport_env.truncate E) allowLoopback host) (\<lambda>h.
     Inr \<lparr>scHost = h, scLoopback = allowLoopback\<rparr>)"

record store_request =
  sqMethod :: string
  sqPath :: jsstr
  sqQuery :: "(jsstr \<times> jsstr) list option"
  sqBody :: "json option"

definition requestUrl :: "client_env \<Rightarrow> store_client \<Rightarrow> store_request \<Rightarrow> jsstr" where
  "requestUrl E c q = ceHref E (sqPath q) (scHost c @ js ''/'') (sqQuery q)"

definition requestConfig :: "store_request \<Rightarrow> jsval" where
  "requestConfig q = Obj ((js ''method'', Str (js (sqMethod q))) # (case sqBody q of
      None \<Rightarrow> []
    | Some b \<Rightarrow> [(js ''headers'', Obj [(js ''content-type'', Str (js ''application/json''))]), (js ''body'', Str (stringify b))]))"

text \<open>The host is normalised already, so the fetch made for it authorises its origin.\<close>

definition authFetch :: "client_env \<Rightarrow> store_client \<Rightarrow> jsval \<Rightarrow> jsval \<Rightarrow> fetch_response guarded" where
  "authFetch E c = safeFetch (transport_env.truncate E)
     (\<lambda>parsed config. originOfHost (transport_env.truncate E) (scHost c) = Inr (uOrigin parsed)) (scLoopback c)"

subsection \<open>Sending it\<close>

type_synonym 'a client_act = "(client_call, client_error, 'a) act"

definition transportError :: "gerr \<Rightarrow> client_error" where
  "transportError e = (case e of
      GuardedPayment \<Rightarrow> PassedOn e
    | Thrown err \<Rightarrow> if err_code err = Some ERR_PAID_TRANSPORT_UNSUPPORTED then PassedOn e
        else StoreClientError ERR_UNAVAILABLE ''History service is unavailable'' None None)"

text \<open>What is made of a response that is not in the 200s.\<close>

definition candidateCode :: "nat \<Rightarrow> jsval \<Rightarrow> code" where
  "candidateCode status v = (case (if isRecord v then (case field v ''code'' of Str s \<Rightarrow> codeOf s | _ \<Rightarrow> None) else None) of
      Some c \<Rightarrow> c
    | None \<Rightarrow> if status = 402 then ERR_PAID_TRANSPORT_UNSUPPORTED else ERR_INTERNAL)"

definition retryAfterOf :: "jsval \<Rightarrow> int option" where
  "retryAfterOf v = (if isRecord v \<and> isSafeInteger (field v ''retryAfterSeconds'') \<and> 0 \<le> safeInt (field v ''retryAfterSeconds'')
     then Some (safeInt (field v ''retryAfterSeconds'')) else None)"

definition decodeResponse :: "(jsval \<Rightarrow> 'a checked) \<Rightarrow> fetch_response \<Rightarrow> 'a checked" where
  "decodeResponse validate r = (case frJson r of
      Inl e \<Rightarrow> Inl (StoreClientError ERR_INTERNAL ''History service returned a malformed response'' (Some (frStatus r)) None)
    | Inr v \<Rightarrow>
        if \<not> frOk r then
          (let c = candidateCode (frStatus r) v in
           Inl (StoreClientError c (fixedErrorMessage c) (Some (frStatus r)) (retryAfterOf v)))
        else validate v)"

definition sendRequest :: "client_env \<Rightarrow> store_client \<Rightarrow> store_request \<Rightarrow> (jsval \<Rightarrow> 'a checked) \<Rightarrow> 'a client_act" where
  "sendRequest E c q validate =
     actBind (actTry (authFetch E c (Str (requestUrl E c q)) (requestConfig q)) (\<lambda>e. actPure (Inl (transportError e)))) (\<lambda>r.
     actPure (decodeResponse validate r))"

subsection \<open>The operations\<close>

definition REQUIRED_FEATURES :: "string list" where
  "REQUIRED_FEATURES = [''archiveBatch'', ''browse'', ''changes'', ''snapshotCreate'', ''snapshotPage'', ''patchState'',
     ''deleteRecord'', ''deleteAll'', ''usage'', ''capabilities'', ''epoch'', ''idempotency'']"

definition PROTOCOL_VERSION :: jsstr where "PROTOCOL_VERSION = js ''1''"

definition assertCompatibleCapabilities :: "jsval \<Rightarrow> jsstr list \<Rightarrow> jsval checked" where
  "assertCompatibleCapabilities v requiredFeatures =
     (let supported = (case field v ''supportedFeatures'' of Arr fs \<Rightarrow> fs | _ \<Rightarrow> []) in
      if field v ''protocolVersion'' \<noteq> Str PROTOCOL_VERSION
      then Inl (StoreClientError ERR_UNAVAILABLE ''History protocol version is incompatible'' None None)
      else if \<not> list_all (\<lambda>f. Str f \<in> set supported) requiredFeatures
      then Inl (StoreClientError ERR_UNAVAILABLE ''History service is missing a required capability'' None None)
      else Inr v)"

definition validateCapabilities :: "jsstr list \<Rightarrow> jsval \<Rightarrow> jsval checked" where
  "validateCapabilities requiredFeatures v = (case field v ''supportedFeatures'' of
      Arr fs \<Rightarrow>
        andThen (requireString (field v ''protocolVersion'')) (\<lambda>_.
        andThen (requireEpoch (field v ''epoch'')) (\<lambda>_.
        andThen (mustBe (list_all isStr fs)) (\<lambda>_.
        assertCompatibleCapabilities v requiredFeatures)))
    | _ \<Rightarrow> Inl malformed)"

definition plainRequest :: "string \<Rightarrow> jsstr \<Rightarrow> store_request" where
  "plainRequest meth path = \<lparr>sqMethod = meth, sqPath = path, sqQuery = None, sqBody = None\<rparr>"

definition capabilities :: "client_env \<Rightarrow> store_client \<Rightarrow> jsstr list \<Rightarrow> jsval client_act" where
  "capabilities E c requiredFeatures =
     sendRequest E c (plainRequest ''GET'' (js ''/v1/history/capabilities'')) (validateCapabilities requiredFeatures)"

text \<open>The records of a batch are JSON values; the answer must have one outcome for each.\<close>

definition clientArchiveBatch :: "client_env \<Rightarrow> store_client \<Rightarrow> jsstr \<Rightarrow> json list \<Rightarrow> jsval client_act" where
  "clientArchiveBatch E c ep items =
     sendRequest E c ((plainRequest ''POST'' (js ''/v1/history/records''))
         \<lparr>sqBody := Some (JObj [(js ''epoch'', JStr ep), (js ''records'', JArr items)])\<rparr>)
       (validateArchive (length items))"

text \<open>The filter of a query: the members that are there, in the order the code sets them.\<close>

record list_filter =
  lfDirection :: "jsstr option"
  lfMessageBox :: "jsstr option"
  lfParticipant :: "jsstr option"
  lfLimit :: "jsnum option"

definition optPair :: "string \<Rightarrow> jsstr option \<Rightarrow> (jsstr \<times> jsstr) list" where
  "optPair k v = (case v of None \<Rightarrow> [] | Some s \<Rightarrow> [(js k, s)])"

definition appendFilter :: "list_filter \<Rightarrow> (jsstr \<times> jsstr) list" where
  "appendFilter f = optPair ''direction'' (lfDirection f) @ optPair ''messageBox'' (lfMessageBox f)
     @ optPair ''participant'' (lfParticipant f) @ optPair ''limit'' (map_option numToStr (lfLimit f))"

definition clientList :: "client_env \<Rightarrow> store_client \<Rightarrow> list_filter \<Rightarrow> (jsstr \<times> jsstr) option \<Rightarrow> jsval client_act" where
  "clientList E c f after =
     sendRequest E c ((plainRequest ''GET'' (js ''/v1/history/records''))
         \<lparr>sqQuery := Some (appendFilter f @ (case after of None \<Rightarrow> []
             | Some (t, k) \<Rightarrow> [(js ''afterCreatedAt'', t), (js ''afterRecordKey'', k)]))\<rparr>)
       validateBrowse"

definition validateSnapshotCreated :: "jsval \<Rightarrow> jsval checked" where
  "validateSnapshotCreated v =
     andThen (mustBe (isRecord v \<and> field v ''feed'' = Str (js ''snapshot'')
       \<and> field v ''status'' \<in> {Str (js ''active''), Str (js ''invalidated'')})) (\<lambda>_.
     andThen (checks (map (\<lambda>k. requireString (field v k)) [''snapshotId'', ''filterHash''])) (\<lambda>_.
     andThen (requireEpoch (field v ''epoch'')) (\<lambda>_.
     andThen (requireUint64 (field v ''watermark'')) (\<lambda>_.
     andThen (requireFiniteCount (field v ''memberCount'')) (\<lambda>_. Inr v)))))"

definition clientCreateSnapshot :: "client_env \<Rightarrow> store_client \<Rightarrow> json \<Rightarrow> jsval client_act" where
  "clientCreateSnapshot E c flt =
     sendRequest E c ((plainRequest ''POST'' (js ''/v1/history/snapshot''))\<lparr>sqBody := Some (JObj [(js ''filter'', flt)])\<rparr>)
       validateSnapshotCreated"

definition clientSnapshotPage :: "client_env \<Rightarrow> store_client \<Rightarrow> jsstr \<Rightarrow> jsstr option \<Rightarrow> jsnum option \<Rightarrow> jsval client_act" where
  "clientSnapshotPage E c snapshotId cursor limit =
     sendRequest E c ((plainRequest ''GET'' (js ''/v1/history/snapshot''))
         \<lparr>sqQuery := Some ((js ''snapshotId'', snapshotId) # optPair ''cursor'' cursor @ optPair ''limit'' (map_option numToStr limit))\<rparr>)
       validateHistoryPage"

definition clientListChanges :: "client_env \<Rightarrow> store_client \<Rightarrow> list_filter \<Rightarrow> jsstr option \<Rightarrow> jsstr option \<Rightarrow> jsstr option \<Rightarrow> jsval client_act" where
  "clientListChanges E c f cursor afterSequence ep =
     (if (afterSequence = None) \<noteq> (ep = None)
      then actPure (Inl (StoreClientError ERR_INVALID_RECORD ''afterSequence and epoch must be supplied together'' None None))
      else if afterSequence \<noteq> None \<and> cursor \<noteq> None
      then actPure (Inl (StoreClientError ERR_INVALID_RECORD ''cursor and checkpoint mode are mutually exclusive'' None None))
      else sendRequest E c ((plainRequest ''GET'' (js ''/v1/history/changes''))
          \<lparr>sqQuery := Some (appendFilter f @ optPair ''cursor'' cursor @ optPair ''afterSequence'' afterSequence
             @ optPair ''epoch'' ep)\<rparr>)
        validateHistoryPage)"

definition validatePatched :: "jsval \<Rightarrow> jsval checked" where
  "validatePatched v =
     andThen (mustBe (isRecord v)) (\<lambda>_.
     andThen (requireRecordKey (field v ''recordKey'')) (\<lambda>_.
     andThen (requireUint64 (field v ''revision'')) (\<lambda>_.
     andThen (requireUint64 (field v ''sequence'')) (\<lambda>_. Inr v))))"

definition recordPath :: "jsstr \<Rightarrow> jsstr \<Rightarrow> jsstr checked" where
  "recordPath key suffix = andThen (encodeURIComponent key) (\<lambda>k. Inr (js ''/v1/history/records/'' @ k @ suffix))"

definition clientPatchState :: "client_env \<Rightarrow> store_client \<Rightarrow> jsstr \<Rightarrow> jsstr \<Rightarrow> jsstr \<Rightarrow> jsstr \<Rightarrow> jsval client_act" where
  "clientPatchState E c key newState expectedRevision idempotencyKey =
     actBind (actPure (recordPath key (js ''/state''))) (\<lambda>path.
     sendRequest E c ((plainRequest ''PATCH'' path)\<lparr>sqBody := Some (JObj [(js ''newState'', JStr newState),
         (js ''expectedRevision'', JStr expectedRevision), (js ''idempotencyKey'', JStr idempotencyKey)])\<rparr>)
       validatePatched)"

definition validateDeleted :: "jsval \<Rightarrow> jsval checked" where
  "validateDeleted v =
     andThen (mustBe (case field v ''deleted'' of Boolean _ \<Rightarrow> True | _ \<Rightarrow> False)) (\<lambda>_.
     andThen (requireEpoch (field v ''epoch'')) (\<lambda>_.
     andThen (optionally (field v ''sequence'') (requireUint64 (field v ''sequence''))) (\<lambda>_. Inr v)))"

definition keyMember :: "jsstr option \<Rightarrow> (jsstr \<times> json) list" where
  "keyMember k = (case k of None \<Rightarrow> [] | Some s \<Rightarrow> [(js ''idempotencyKey'', JStr s)])"

definition clientDeleteRecord :: "client_env \<Rightarrow> store_client \<Rightarrow> jsstr \<Rightarrow> jsstr option \<Rightarrow> jsval client_act" where
  "clientDeleteRecord E c key idempotencyKey =
     actBind (actPure (recordPath key [])) (\<lambda>path.
     sendRequest E c ((plainRequest ''DELETE'' path)
         \<lparr>sqBody := (if idempotencyKey = None then None else Some (JObj (keyMember idempotencyKey)))\<rparr>)
       validateDeleted)"

definition validateDeletedAll :: "jsval \<Rightarrow> jsval checked" where
  "validateDeletedAll v = andThen (mustBe (isRecord v)) (\<lambda>_. andThen (requireEpoch (field v ''epoch'')) (\<lambda>_. Inr v))"

definition clientDeleteAll :: "client_env \<Rightarrow> store_client \<Rightarrow> jsstr option \<Rightarrow> jsstr option \<Rightarrow> jsval client_act" where
  "clientDeleteAll E c idempotencyKey xep =
     sendRequest E c ((plainRequest ''DELETE'' (js ''/v1/history/records''))
         \<lparr>sqBody := Some (JObj (keyMember idempotencyKey
             @ (case xep of None \<Rightarrow> [] | Some e \<Rightarrow> [(js ''expectedEpoch'', JStr e)])))\<rparr>)
       validateDeletedAll"

definition validateUsage :: "jsval \<Rightarrow> jsval checked" where
  "validateUsage v =
     andThen (mustBe (isRecord v)) (\<lambda>_.
     andThen (requireFiniteCount (field v ''recordCount'')) (\<lambda>_.
     andThen (requireFiniteCount (field v ''byteCount'')) (\<lambda>_.
     andThen (requireUint64 (field v ''nextSequence'')) (\<lambda>_.
     andThen (requireEpoch (field v ''epoch'')) (\<lambda>_. Inr v)))))"

definition clientUsage :: "client_env \<Rightarrow> store_client \<Rightarrow> jsval client_act" where
  "clientUsage E c = sendRequest E c (plainRequest ''GET'' (js ''/v1/history/usage'')) validateUsage"

subsection \<open>What a caller can see of a failure\<close>

datatype history_call =
    OpCapabilities "jsstr list"
  | OpArchiveBatch jsstr "json list"
  | OpList list_filter "(jsstr \<times> jsstr) option"
  | OpCreateSnapshot json
  | OpSnapshotPage jsstr "jsstr option" "jsnum option"
  | OpListChanges list_filter "jsstr option" "jsstr option" "jsstr option"
  | OpPatchState jsstr jsstr jsstr jsstr
  | OpDeleteRecord jsstr "jsstr option"
  | OpDeleteAll "jsstr option" "jsstr option"
  | OpUsage

primrec clientOperation :: "client_env \<Rightarrow> store_client \<Rightarrow> history_call \<Rightarrow> jsval client_act" where
  "clientOperation E c (OpCapabilities fs) = capabilities E c fs"
| "clientOperation E c (OpArchiveBatch ep items) = clientArchiveBatch E c ep items"
| "clientOperation E c (OpList f after) = clientList E c f after"
| "clientOperation E c (OpCreateSnapshot flt) = clientCreateSnapshot E c flt"
| "clientOperation E c (OpSnapshotPage sid cursor limit) = clientSnapshotPage E c sid cursor limit"
| "clientOperation E c (OpListChanges f cursor after ep) = clientListChanges E c f cursor after ep"
| "clientOperation E c (OpPatchState k st xr ik) = clientPatchState E c k st xr ik"
| "clientOperation E c (OpDeleteRecord k ik) = clientDeleteRecord E c k ik"
| "clientOperation E c (OpDeleteAll ik ep) = clientDeleteAll E c ik ep"
| "clientOperation E c OpUsage = clientUsage E c"

definition CLIENT_MESSAGES :: "string list" where
  "CLIENT_MESSAGES = [''History service returned a malformed response'', ''History authentication failed'',
     ''History request is forbidden'', ''History request exceeds a configured limit'', ''History storage quota is exceeded'',
     ''History cursor expired'', ''History request was rate limited'', ''History service is unavailable'',
     ''Paid history transport is unsupported'', ''History request failed'', ''History protocol version is incompatible'',
     ''History service is missing a required capability'', ''afterSequence and epoch must be supplied together'',
     ''cursor and checkpoint mode are mutually exclusive'']"

text \<open>An error whose text and code are fixed by the client, or the refusal to pay; and, where \<open>b\<close> says
  that the answer is read with \<open>String\<close>, the conversion error.\<close>

definition isPaymentRefusal :: "gerr \<Rightarrow> bool" where
  "isPaymentRefusal e \<longleftrightarrow> e = GuardedPayment \<or> (\<exists>err. e = Thrown err \<and> err_code err = Some ERR_PAID_TRANSPORT_UNSUPPORTED)"

fun fixedClientError :: "bool \<Rightarrow> client_error \<Rightarrow> bool" where
  "fixedClientError b (StoreClientError c m st retry) \<longleftrightarrow> c \<in> fst ` set STORE_ERROR_CODES \<and> m \<in> set CLIENT_MESSAGES"
| "fixedClientError b (PassedOn e) \<longleftrightarrow> isPaymentRefusal e"
| "fixedClientError b MalformedUri \<longleftrightarrow> False"
| "fixedClientError b NoPrimitive \<longleftrightarrow> b"

definition failsFixed :: "bool \<Rightarrow> 'a checked \<Rightarrow> bool" where
  "failsFixed b r \<longleftrightarrow> (\<forall>e. r = Inl e \<longrightarrow> fixedClientError b e)"

named_theorems fixed_rules \<open>checks that fail with a fixed error\<close>

lemma known_codes [simp]: "fst ` set STORE_ERROR_CODES = {c. \<forall>s. c \<noteq> Other_Code s}"
proof (intro set_eqI iffI; clarsimp)
  fix c assume "\<forall>s. c \<noteq> Other_Code s"
  then show "c \<in> fst ` set STORE_ERROR_CODES" by (cases c) (simp_all add: STORE_ERROR_CODES_def)
qed (auto simp: STORE_ERROR_CODES_def)

lemma malformed_fixed [simp]: "fixedClientError b malformed"
  by (simp add: malformed_def CLIENT_MESSAGES_def)

lemma failsFixed_simps [fixed_rules]:
  "failsFixed b (Inr x)" "failsFixed b (Inl malformed)" "failsFixed b (mustBe c)" "failsFixed b (requireString v)" "failsFixed True (stringOf v)"
  by (auto simp: failsFixed_def mustBe_def require_def requireString_def stringOf_def split: jsval.splits)

lemma failsFixed_andThen [fixed_rules]:
  "failsFixed b r \<Longrightarrow> (\<And>x. r = Inr x \<Longrightarrow> failsFixed b (f x)) \<Longrightarrow> failsFixed b (andThen r f)"
  by (auto simp: failsFixed_def andThen_eq_Inl)

lemma failsFixed_if [fixed_rules]: "(c \<Longrightarrow> failsFixed b r) \<Longrightarrow> (\<not> c \<Longrightarrow> failsFixed b r') \<Longrightarrow> failsFixed b (if c then r else r')"
  by simp

lemma failsFixed_atoms [fixed_rules]:
  "failsFixed b (requireUint64 v)" "failsFixed b (requireEpoch v)" "failsFixed b (requireRecordKey v)" "failsFixed b (requireFiniteCount v)"
  "failsFixed b (requireHash v)"
  unfolding requireUint64_def requireEpoch_def requireRecordKey_def requireFiniteCount_def requireHash_def
  by (intro fixed_rules)+

lemma failsFixed_optionally [fixed_rules]: "failsFixed b r \<Longrightarrow> failsFixed b (optionally v r)"
  unfolding optionally_def by (intro fixed_rules)

lemma failsFixed_checks [fixed_rules]: "(\<And>r. r \<in> set rs \<Longrightarrow> failsFixed b r) \<Longrightarrow> failsFixed b (checks rs)"
  by (induction rs) (simp_all add: fixed_rules)

lemma failsFixed_checkEach [fixed_rules]: "(\<And>x. failsFixed b (f x)) \<Longrightarrow> failsFixed b (checkEach f xs)"
  by (induction xs) (simp_all add: fixed_rules)

lemma failsFixed_strings [fixed_rules]: "failsFixed b (checks (map (\<lambda>k. requireString (f k)) ks))"
  by (intro fixed_rules) (auto intro: fixed_rules)

lemma failsFixed_parts [fixed_rules]:
  "failsFixed True (validateHistoryRecord v)" "failsFixed b (validateDeleteEvent v)" "failsFixed True (pageEntry v)"
  "failsFixed True (outcomeFields v)" "failsFixed b (outcomeDemands v)"
  unfolding validateHistoryRecord_def validateDeleteEvent_def pageEntry_def outcomeFields_def outcomeDemands_def
  by (intro fixed_rules)+

lemma failsFixed_outcomes [fixed_rules]: "failsFixed True (validateOutcomes n vs seen)"
proof (induction vs arbitrary: seen)
  case (Cons v vs)
  have "failsFixed True (validateOutcome n v seen)"
    unfolding validateOutcome_def by (cases "outcomeIndex (field v ''index'') n") (simp_all only: prod.case jsval.case option.case, (intro fixed_rules)+)
  then show ?case using Cons by (simp add: fixed_rules)
qed (simp add: fixed_rules)

lemma failsFixed_compatible [fixed_rules]: "failsFixed b (assertCompatibleCapabilities v fs)"
  by (simp add: failsFixed_def assertCompatibleCapabilities_def CLIENT_MESSAGES_def Let_def)

lemma failsFixed_validators [fixed_rules]:
  "failsFixed True (validateBrowse v)" "failsFixed True (validateHistoryPage v)" "failsFixed True (validateArchive n v)"
  "failsFixed b (validateSnapshotCreated v)" "failsFixed b (validatePatched v)" "failsFixed b (validateDeleted v)"
  "failsFixed b (validateDeletedAll v)" "failsFixed b (validateUsage v)" "failsFixed b (validateCapabilities fs v)"
  subgoal unfolding validateBrowse_def by (cases "field v ''records''") (simp_all only: prod.case jsval.case option.case, (intro fixed_rules)+)
  subgoal unfolding validateHistoryPage_def
    by (cases "field v ''records''"; cases "field v ''hasMore''") (simp_all only: prod.case jsval.case option.case, (intro fixed_rules)+)
  subgoal unfolding validateArchive_def
    by (cases "field v ''committed''"; cases "field v ''outcomes''") (simp_all only: prod.case jsval.case option.case, (intro fixed_rules)+)
  subgoal unfolding validateSnapshotCreated_def by (intro fixed_rules)
  subgoal unfolding validatePatched_def by (intro fixed_rules)
  subgoal unfolding validateDeleted_def by (intro fixed_rules)
  subgoal unfolding validateDeletedAll_def by (intro fixed_rules)
  subgoal unfolding validateUsage_def by (intro fixed_rules)
  subgoal unfolding validateCapabilities_def
    by (cases "field v ''supportedFeatures''") (simp_all only: prod.case jsval.case option.case, (intro fixed_rules)+)
  done


lemma fixedErrorMessage_listed: "fixedErrorMessage c \<in> set CLIENT_MESSAGES"
  by (cases c) (simp_all add: fixedErrorMessage_def CLIENT_MESSAGES_def)

lemma candidateCode_known: "candidateCode st v \<noteq> Other_Code s"
proof -
  have "c \<in> fst ` set STORE_ERROR_CODES" if t: "codeOf t = Some c" for t c
  proof -
    obtain p where "List.find (\<lambda>(c, u). js u = t) STORE_ERROR_CODES = Some p" "c = fst p"
      using t by (auto simp: codeOf_def)
    then show ?thesis by (metis find_Some_iff image_eqI nth_mem)
  qed
  then have k: "codeOf t = Some c \<Longrightarrow> c \<noteq> Other_Code s" for t c by fastforce
  show ?thesis
    by (auto simp: candidateCode_def split: option.split if_splits jsval.split dest: k)
qed

lemma transportError_fixed: "fixedClientError b (transportError e)"
  by (cases e) (auto simp: transportError_def isPaymentRefusal_def CLIENT_MESSAGES_def)

lemma decodeResponse_fixed: "(\<And>v. failsFixed b (validate v)) \<Longrightarrow> failsFixed b (decodeResponse validate r)"
proof -
  have "''History service returned a malformed response'' \<in> set CLIENT_MESSAGES" by (simp add: CLIENT_MESSAGES_def)
  moreover assume "\<And>v. failsFixed b (validate v)"
  ultimately show ?thesis
    by (auto simp: failsFixed_def decodeResponse_def Let_def candidateCode_known fixedErrorMessage_listed
        split: sum.splits if_splits)
qed

subsection \<open>Where a request can go\<close>

text \<open>What may follow any history: a wallet call without a payment, or a request to the client's own
  origin with no payment option or header.\<close>

definition storeRequestOk :: "client_env \<Rightarrow> store_client \<Rightarrow> jsstr \<Rightarrow> jsval \<Rightarrow> bool" where
  "storeRequestOk E c href config \<longleftrightarrow>
     (\<exists>address u. teUrl E address = Some u \<and> href = uHref u \<and> originOfHost (transport_env.truncate E) (scHost c) = Inr (uOrigin u)
        \<and> uUsername u = [] \<and> uPassword u = [] \<and> uHash u = []
        \<and> (uProtocol u = js ''https:'' \<or> scLoopback c \<and> isLoopbackHost address u))
     \<and> set (keysOf config) \<subseteq> js ` set FETCH_OPTIONS \<and> (\<forall>k \<in> set (keysOf (field config ''headers'')). \<not> isPaymentHeader k)"

definition storePolicy :: "client_env \<Rightarrow> store_client \<Rightarrow> client_call list \<Rightarrow> client_call \<Rightarrow> bool" where
  "storePolicy E c h call = (case call of
      WalletCall name args \<Rightarrow> freeWalletCall name args
    | KeyDenied \<Rightarrow> True
    | SdkFetch href config \<Rightarrow> storeRequestOk E c href config
    | _ \<Rightarrow> False)"

text \<open>The operations whose answer is read with \<open>String\<close>, and those that put a record key into a path.\<close>

fun readsTexts :: "history_call \<Rightarrow> bool" where
  "readsTexts (OpArchiveBatch ep items) = True"
| "readsTexts (OpList f after) = True"
| "readsTexts (OpSnapshotPage sid cursor limit) = True"
| "readsTexts (OpListChanges f cursor after ep) = True"
| "readsTexts op = False"

fun pathKey :: "history_call \<Rightarrow> jsstr option" where
  "pathKey (OpPatchState k st xr ik) = Some k"
| "pathKey (OpDeleteRecord k ik) = Some k"
| "pathKey op = None"

definition allowedError :: "history_call \<Rightarrow> client_error \<Rightarrow> bool" where
  "allowedError op e \<longleftrightarrow> (case e of
        StoreClientError cd m st retry \<Rightarrow> cd \<in> fst ` set STORE_ERROR_CODES \<and> m \<in> set CLIENT_MESSAGES
      | PassedOn g \<Rightarrow> isPaymentRefusal g
      | MalformedUri \<Rightarrow> (\<exists>k. pathKey op = Some k \<and> hasInvalidUnicode k)
      | NoPrimitive \<Rightarrow> readsTexts op)"

lemma fixed_allowed: "fixedClientError b e \<Longrightarrow> (b \<Longrightarrow> readsTexts op) \<Longrightarrow> allowedError op e"
  by (cases e) (simp_all add: allowedError_def)

text \<open>An operation that keeps to the policy and fails with the errors \<open>P\<close>.\<close>

definition confined :: "client_env \<Rightarrow> store_client \<Rightarrow> (client_error \<Rightarrow> bool) \<Rightarrow> 'a client_act \<Rightarrow> bool" where
  "confined E c P m \<longleftrightarrow> obeys (storePolicy E c) m \<and> (\<forall>h e h'. m h = (Inl e, h') \<longrightarrow> P e)"

lemma facadeCall_store: "obeys (storePolicy E c) (facadeCall E' name args)"
  unfolding facadeCall_def by (intro call_rules obeys_call) (auto simp: storePolicy_def freeWalletCall_def)

lemma sdkCalls_store: "obeys (storePolicy E c) (sdkCalls E' cs)"
  by (induction cs rule: sdkCalls.induct) (auto intro!: obeys_bind obeys_try facadeCall_store obeys_pure)

lemma authFetch_store: "obeys (storePolicy E c) (authFetch E c (Str address) (requestConfig q))"
  unfolding authFetch_def safeFetch_def
proof (intro obeys_check)
  fix safe href
  assume n: "normalizeFreeOnlyFetchOptions (if requestConfig q = Undefined then Obj [] else requestConfig q) = Inr safe"
    and v: "validateRequestUrl (transport_env.truncate E)
        (\<lambda>parsed config. originOfHost (transport_env.truncate E) (scHost c) = Inr (uOrigin parsed)) (scLoopback c) (Str address) safe = Inr href"
  have "safe \<noteq> Undefined"
    using n by (auto simp: requestConfig_def normalizeFreeOnlyFetchOptions_def result_simps split: if_splits)
  note opts = normalizedOptions_free [OF n this]
  have "storeRequestOk E c href safe"
    using v opts unfolding storeRequestOk_def
    by (auto simp: validateRequestUrl_def Let_def transport_env.defs split: option.splits if_splits)
  then have "storePolicy E c h (SdkFetch href safe)" for h by (simp add: storePolicy_def)
  moreover have "obeys (storePolicy E c) (\<lambda>h. sdkCalls E' (teSdkCalls E' h) h)" for E'
    using sdkCalls_store by (simp add: obeys_def)
  moreover have "obeys (storePolicy E c) (\<lambda>h. (outcome h, h))" for outcome :: "client_call list \<Rightarrow> gerr + fetch_response"
    by (simp add: obeys_def calls_none)
  ultimately show "obeys (storePolicy E c) (sdkRun (transport_env.truncate E) (SdkFetch href safe) (teFetched (transport_env.truncate E)))"
    unfolding sdkRun_def by (intro obeys_call_bind obeys_bind)
qed

lemma confined_send:
  "(\<And>v. failsFixed b (validate v)) \<Longrightarrow> (b \<Longrightarrow> readsTexts op) \<Longrightarrow> confined E c (allowedError op) (sendRequest E c q validate)"
proof -
  assume v: "\<And>v. failsFixed b (validate v)" and b: "b \<Longrightarrow> readsTexts op"
  have "obeys (storePolicy E c) (sendRequest E c q validate)"
    unfolding sendRequest_def by (intro obeys_bind obeys_try authFetch_store obeys_pure)
  moreover have "sendRequest E c q validate h = (Inl e, h') \<Longrightarrow> fixedClientError b e" for h e h'
    using decodeResponse_fixed [of b validate, OF v]
    by (auto simp: sendRequest_def actBind_def actTry_def actPure_def failsFixed_def transportError_fixed
        split: prod.splits sum.splits)
  ultimately show ?thesis unfolding confined_def using fixed_allowed [of b _ op] b by blast
qed

lemma confined_check:
  "(\<And>e. r = Inl e \<Longrightarrow> P e) \<Longrightarrow> (\<And>x. r = Inr x \<Longrightarrow> confined E c P (f x)) \<Longrightarrow> confined E c P (actBind (actPure r) f)"
  by (cases r) (auto simp: confined_def actBind_def actPure_def obeys_def calls_none)

lemma recordPath_Inl: "recordPath k suffix = Inl e \<Longrightarrow> e = MalformedUri \<and> hasInvalidUnicode k"
  by (auto simp: recordPath_def encodeURIComponent_def andThen_def split: if_splits)

lemma operation_confined: "confined E c (allowedError op) (clientOperation E c op)"
proof (cases op)
  case (OpListChanges f cursor after ep)
  have "confined E c (allowedError op) (actPure (Inl (StoreClientError ERR_INVALID_RECORD
        ''afterSequence and epoch must be supplied together'' None None)) :: jsval client_act)"
      "confined E c (allowedError op) (actPure (Inl (StoreClientError ERR_INVALID_RECORD
        ''cursor and checkpoint mode are mutually exclusive'' None None)) :: jsval client_act)"
    by (auto simp: confined_def obeys_pure actPure_def allowedError_def CLIENT_MESSAGES_def)
  moreover have "confined E c (allowedError op) (sendRequest E c q validateHistoryPage)" for q
    by (rule confined_send [where b = True]) (simp_all add: OpListChanges fixed_rules)
  ultimately show ?thesis
    unfolding OpListChanges clientOperation.simps clientListChanges_def by (simp only: split: if_split) blast
next
  case (OpPatchState k st xr ik)
  show ?thesis unfolding OpPatchState clientOperation.simps clientPatchState_def
    by (intro confined_check confined_send [where b = False] fixed_rules)
      (auto dest!: recordPath_Inl simp: allowedError_def)
next
  case (OpDeleteRecord k ik)
  show ?thesis unfolding OpDeleteRecord clientOperation.simps clientDeleteRecord_def
    by (intro confined_check confined_send [where b = False] fixed_rules)
      (auto dest!: recordPath_Inl simp: allowedError_def)
next
  case (OpCapabilities fs)
  show ?thesis unfolding OpCapabilities clientOperation.simps capabilities_def
    by (intro confined_send [where b = False] fixed_rules) simp
next
  case (OpCreateSnapshot flt)
  show ?thesis unfolding OpCreateSnapshot clientOperation.simps clientCreateSnapshot_def
    by (intro confined_send [where b = False] fixed_rules) simp
next
  case (OpDeleteAll ik ep)
  show ?thesis unfolding OpDeleteAll clientOperation.simps clientDeleteAll_def
    by (intro confined_send [where b = False] fixed_rules) simp
next
  case OpUsage
  show ?thesis unfolding OpUsage clientOperation.simps clientUsage_def
    by (intro confined_send [where b = False] fixed_rules) simp
qed (simp_all add: clientArchiveBatch_def clientList_def clientSnapshotPage_def confined_send [where b = True] fixed_rules)


text \<open>C17: Whatever the service, the wallet or the SDK do, an operation of the client either returns a
  checked answer or fails in one of four ways, none of which carries text of the response: a known
  code with one of the client's own fixed texts; the refusal to pay; the platform's \<open>URIError\<close>, only
  for an operation on a record key with a lone surrogate; and the platform's \<open>TypeError\<close> for an object
  that \<open>String\<close> cannot convert, only for a batch, a browse or a page. All it does on the way is to send
  requests to its own origin, over HTTPS or to a loopback host, without payment options or headers,
  and to use wallet methods that move no funds.\<close>

theorem client_confined:
  assumes "clientOperation E c op h = (r, h')"
  shows "(\<forall>e. r = Inl e \<longrightarrow> (case e of
        StoreClientError cd m st retry \<Rightarrow> cd \<in> fst ` set STORE_ERROR_CODES \<and> m \<in> set CLIENT_MESSAGES
      | PassedOn g \<Rightarrow> isPaymentRefusal g
      | MalformedUri \<Rightarrow> (\<exists>k. pathKey op = Some k \<and> hasInvalidUnicode k)
      | NoPrimitive \<Rightarrow> readsTexts op))
    \<and> (\<forall>before call after. h' = before @ call # after \<and> length h \<le> length before \<longrightarrow> (case call of
        WalletCall name args \<Rightarrow> freeWalletCall name args
      | KeyDenied \<Rightarrow> True
      | SdkFetch href config \<Rightarrow> storeRequestOk E c href config
      | _ \<Rightarrow> False))"
proof -
  note conf = operation_confined [of E c op, unfolded confined_def]
  have "allowedError op e" if "r = Inl e" for e using conf that assms by blast
  moreover have "storePolicy E c before call"
    if "h' = before @ call # after" "length h \<le> length before" for before call after
    using callsFrom_split [of "storePolicy E c" h h', OF _ that] obeys_calls [OF conjunct1 [OF conf] assms] by blast
  ultimately show ?thesis
    by (auto simp: storePolicy_def allowedError_def split: client_error.split)
qed

subsection \<open>The answer to a batch\<close>

lemma outcomeIndex_less: "outcomeIndex v n = Some i \<Longrightarrow> i < n"
  by (auto simp: outcomeIndex_def nat_less_iff floor_less_iff split: jsval.splits jsnum.splits if_splits)

lemma validateOutcomes_indexes:
  "validateOutcomes n vs seen = Inr idx \<Longrightarrow> distinct seen \<Longrightarrow>
   idx = seen @ map (\<lambda>v. the (outcomeIndex (field v ''index'') n)) vs \<and> distinct idx
   \<and> (\<forall>v \<in> set vs. \<exists>i. outcomeIndex (field v ''index'') n = Some i)
   \<and> (\<forall>v \<in> set vs. outcomeFields v = Inr () \<and> outcomeDemands v = Inr ())"
proof (induction vs arbitrary: seen)
  case (Cons v vs)
  obtain i where i: "outcomeIndex (field v ''index'') n = Some i" "i \<notin> set seen"
      "outcomeFields v = Inr ()" "outcomeDemands v = Inr ()" "validateOutcomes n vs (seen @ [i]) = Inr idx"
    using Cons.prems by (auto simp: validateOutcome_def andThen_eq_Inr mustBe_def require_eq_Inr split: option.split_asm)
  have "distinct (seen @ [i])" using i(2) Cons.prems(2) by simp
  from Cons.IH [OF i(5) this] i(1,3,4) show ?case by (elim conjE) simp
qed simp

lemma requireRecordKey_Inr: "requireRecordKey v = Inr k \<longleftrightarrow> v = Str k \<and> hex64Re k"
  by (auto simp: requireRecordKey_def requireString_def andThen_eq_Inr split: jsval.splits if_splits)

lemma requireUint64_Inr: "requireUint64 v = Inr k \<longleftrightarrow> v = Str k \<and> canonicalDec k"
  by (auto simp: requireUint64_def requireString_def andThen_eq_Inr split: jsval.splits if_splits)

lemma requireHash_Inr: "requireHash v = Inr u \<longleftrightarrow> (\<exists>k. v = Str k \<and> hex64Re k)"
  by (auto simp: requireHash_def requireString_def andThen_eq_Inr mustBe_def require_eq_Inr split: jsval.splits)

text \<open>C39: An answer to a batch the client accepts accounts for every record: for each position of the
  batch there is exactly one outcome with that index, and a record reported stored comes with its
  canonical key, its body hash and its sequence.\<close>

theorem archive_answer_complete:
  assumes "validateArchive n v = Inr w"
  shows "w = v \<and> (\<exists>os. field v ''outcomes'' = Arr os \<and> length os = n
    \<and> (\<forall>i < n. \<exists>!j. j < n \<and> outcomeIndex (field (os ! j) ''index'') n = Some i)
    \<and> (\<forall>x \<in> set os. field x ''outcome'' = Str (js ''stored'') \<longrightarrow>
        (\<exists>k hash sq. field x ''recordKey'' = Str k \<and> hex64Re k \<and> field x ''bodyHash'' = Str hash \<and> hex64Re hash
          \<and> field x ''sequence'' = Str sq \<and> canonicalDec sq)))"
proof -
  obtain os idx where os: "field v ''outcomes'' = Arr os" "length os = n" "w = v"
      and idx: "validateOutcomes n os [] = Inr idx"
    using assms by (auto simp: validateArchive_def andThen_eq_Inr mustBe_def require_eq_Inr split: jsval.split_asm)
  note facts = validateOutcomes_indexes [OF idx, simplified]
  define f where "f j = the (outcomeIndex (field (os ! j) ''index'') n)" for j
  have some: "outcomeIndex (field (os ! j) ''index'') n = Some (f j)" if "j < n" for j
    using facts that os(2) nth_mem by (fastforce simp: f_def)
  have inj: "inj_on f {..<n}"
    using conjunct1 [OF conjunct2 [OF facts]] conjunct1 [OF facts] os(2)
    by (intro inj_onI) (simp add: f_def distinct_conv_nth, metis)
  have "f ` {..<n} \<subseteq> {..<n}" using some outcomeIndex_less by auto
  with inj have "bij_betw f {..<n} {..<n}" by (simp add: bij_betw_def endo_inj_surj)
  then have "\<exists>!j. j < n \<and> f j = i" if "i < n" for i
  proof -
    have "i \<in> f ` {..<n}" using \<open>bij_betw f {..<n} {..<n}\<close> that by (simp add: bij_betw_def)
    then obtain j where "j < n" "f j = i" by auto
    moreover have "k < n \<Longrightarrow> f k = f j \<Longrightarrow> j < n \<Longrightarrow> k = j" for k j
      using inj by (simp add: inj_on_def)
    ultimately show ?thesis by blast
  qed
  moreover have "j < n \<and> outcomeIndex (field (os ! j) ''index'') n = Some i \<longleftrightarrow> j < n \<and> f j = i" for i j
    using some by auto
  ultimately have "\<exists>!j. j < n \<and> outcomeIndex (field (os ! j) ''index'') n = Some i" if "i < n" for i
    using that by presburger
  moreover have "\<exists>k hash sq. field x ''recordKey'' = Str k \<and> hex64Re k \<and> field x ''bodyHash'' = Str hash \<and> hex64Re hash
          \<and> field x ''sequence'' = Str sq \<and> canonicalDec sq" if "x \<in> set os" "field x ''outcome'' = Str (js ''stored'')" for x
  proof -
    have "outcomeDemands x = Inr ()" using facts that by blast
    then show ?thesis using that(2)
      by (auto simp: outcomeDemands_def andThen_eq_Inr requireRecordKey_Inr requireUint64_Inr requireHash_Inr)
  qed
  ultimately show ?thesis using os by blast
qed


subsection \<open>A client at work\<close>

text \<open>A platform that joins a base, a path and query pairs, a server that is rate limiting and adds a
  text of its own, and an SDK that tries to pay on the way.\<close>

definition storeUrl :: "jsstr \<Rightarrow> url" where
  "storeUrl href = \<lparr>uProtocol = js ''https:'', uUsername = [], uPassword = [], uHostname = js ''box.test'',
     uPathname = (if href = paidHost then js ''/'' else js ''/v1/history/usage''), uSearch = [], uHash = [], uOrigin = paidHost, uHref = href\<rparr>"

definition limitedEnv :: client_env where
  "limitedEnv = \<lparr>teUrl = (\<lambda>s. if s \<in> {paidHost, paidHost @ js ''/v1/history/usage''} then Some (storeUrl s) else None),
     teEndpoint = (@), teStringify = (\<lambda>_. js ''{}''), teImplements = (\<lambda>_. True), teWallet = (\<lambda>h. Inr Undefined),
     teSdkCalls = (\<lambda>h. [(''createHmac'', Undefined), (''createAction'', Undefined)]),
     teFetched = (\<lambda>h. Inr \<lparr>frStatus = 429, frOk = False, frJson = Inr (Obj [(js ''code'', Str (js ''ERR_RATE_LIMITED'')),
       (js ''description'', Str (js ''secret'')), (js ''retryAfterSeconds'', IntNum 7)])\<rparr>),
     teSent = (\<lambda>h. Inl GuardedPayment), teIdentified = (\<lambda>h. Inl GuardedPayment),
     ceHref = (\<lambda>path base query. take (length base - 1) base @ path)\<rparr>"

definition storeClient :: store_client where
  "storeClient = \<lparr>scHost = paidHost, scLoopback = False\<rparr>"

lemma limited_run:
  "clientOperation limitedEnv storeClient OpUsage [] =
     (Inl (StoreClientError ERR_RATE_LIMITED ''History request was rate limited'' (Some 429) (Some 7)),
      [SdkFetch (paidHost @ js ''/v1/history/usage'') (Obj [(js ''method'', Str (js ''GET''))]), WalletCall ''createHmac'' Undefined])"
  by code_simp

theorem client_confined_witness:
  "ERR_RATE_LIMITED \<in> fst ` set STORE_ERROR_CODES \<and> ''History request was rate limited'' \<in> set CLIENT_MESSAGES
   \<and> storeRequestOk limitedEnv storeClient (paidHost @ js ''/v1/history/usage'') (Obj [(js ''method'', Str (js ''GET''))])
   \<and> freeWalletCall ''createHmac'' Undefined"
proof -
  note c = client_confined [OF limited_run]
  have "storeRequestOk limitedEnv storeClient (paidHost @ js ''/v1/history/usage'') (Obj [(js ''method'', Str (js ''GET''))])"
    using conjunct2 [OF c, rule_format, of "[]" "SdkFetch (paidHost @ js ''/v1/history/usage'') (Obj [(js ''method'', Str (js ''GET''))])"
        "[WalletCall ''createHmac'' Undefined]"] by simp
  moreover have "freeWalletCall ''createHmac'' Undefined"
    using conjunct2 [OF c, rule_format, of "[SdkFetch (paidHost @ js ''/v1/history/usage'') (Obj [(js ''method'', Str (js ''GET''))])]"
        "WalletCall ''createHmac'' Undefined" "[]"] by simp
  ultimately show ?thesis using conjunct1 [OF c] by simp
qed

definition storedAnswer :: jsval where
  "storedAnswer = Obj [(js ''epoch'', Str (js ''gen-1'')), (js ''committed'', Boolean True), (js ''outcomes'', Arr
     [Obj [(js ''index'', IntNum 1), (js ''recordKey'', Null), (js ''outcome'', Str (js ''invalid'')), (js ''errorCode'', Str (js ''ERR_INVALID_RECORD''))],
      Obj [(js ''index'', IntNum 0), (js ''recordKey'', Str (replicate 64 0x61)), (js ''outcome'', Str (js ''stored'')),
        (js ''bodyHash'', Str (replicate 64 0x62)), (js ''bodyBytes'', IntNum 12), (js ''sequence'', Str (js ''7''))]])]"

lemma storedAnswer_accepted: "validateArchive 2 storedAnswer = Inr storedAnswer"
  by code_simp

theorem archive_answer_complete_witness:
  "\<exists>os. field storedAnswer ''outcomes'' = Arr os \<and> (\<exists>!j. j < 2 \<and> outcomeIndex (field (os ! j) ''index'') 2 = Some 0)"
  using archive_answer_complete [OF storedAnswer_accepted] by (metis pos2)

end
