(* ===== verification/Interop.thy ===== *)
theory Interop
  imports Wire Client ServiceRun
begin

section \<open>Client and service agree\<close>

text \<open>
  The two ends of the protocol composed: what \<open>res.json\<close> of the service application makes of the
  result of a repository operation, and what the validators of the client make of that. The store
  invariants (theories \<open>StoreInv\<close> and \<open>Wire\<close>) give every answer of a reachable service the shape the
  client demands; the error table of the service gives every refusal the code the client reports.
\<close>

subsection \<open>The document of an answer\<close>

lemma js_inject [simp]: "js s = js t \<longleftrightarrow> s = t"
proof -
  have "inj (of_char :: char \<Rightarrow> code_unit)"
  proof (rule injI)
    fix c d :: char
    assume e: "(of_char c :: code_unit) = of_char d"
    have "unat (of_char c :: code_unit) = of_char c" for c :: char
    proof -
      have "(of_nat (of_char c) :: code_unit) = of_char c" by (rule of_nat_of_char)
      moreover have "unat (of_nat (of_char c) :: code_unit) = (of_char c :: nat) mod 2 ^ 16"
        by (simp only: unat_of_nat) simp
      ultimately have "unat (of_char c :: code_unit) = (of_char c :: nat) mod 2 ^ 16" by metis
      then show ?thesis using nat_of_char_less_256 [of c] by simp
    qed
    then have "(of_char c :: nat) = of_char d" using e by metis
    then show "c = d" by simp
  qed
  then show ?thesis by (simp add: js_def inj_map_eq_map)
qed

lemma nat_numbers [simp]:
  "isSafeInteger (Number (Fin (of_nat n))) \<longleftrightarrow> n \<le> 9007199254740991" "safeInt (Number (Fin (of_nat n))) = int n"
  using isSafeInteger_IntNum [of "int n"] by (simp_all add: safeInt_def)

definition codeText :: "code \<Rightarrow> jsstr" where
  "codeText c = (case map_of STORE_ERROR_CODES c of Some t \<Rightarrow> js t | None \<Rightarrow> (case c of Other_Code t \<Rightarrow> js t | _ \<Rightarrow> []))"

definition outcomeName :: "outcome_kind \<Rightarrow> string" where
  "outcomeName k = (case k of EpochChanged \<Rightarrow> ''epochChanged'' | InvalidItem \<Rightarrow> ''invalid'' | AlreadyPresent \<Rightarrow> ''alreadyPresent''
     | Conflict \<Rightarrow> ''conflict'' | DeletedItem \<Rightarrow> ''deleted'' | QuotaExceeded \<Rightarrow> ''quotaExceeded'' | Stored \<Rightarrow> ''stored''
     | Failed \<Rightarrow> ''failed'')"

definition optMember :: "string \<Rightarrow> jsval option \<Rightarrow> (jsstr \<times> jsval) list" where
  "optMember k v = (case v of None \<Rightarrow> [] | Some x \<Rightarrow> [(js k, x)])"

definition outcomeValue :: "outcome \<Rightarrow> jsval" where
  "outcomeValue x = Obj ([(js ''index'', IntNum (int (oIndex x))), (js ''recordKey'', oKey x),
       (js ''outcome'', Str (js (outcomeName (oKind x))))]
     @ optMember ''errorCode'' (map_option (\<lambda>c. Str (codeText c)) (oError x))
     @ optMember ''bodyHash'' (map_option Str (oHash x))
     @ optMember ''bodyBytes'' (if oKind x = Stored then Some (IntNum (int (oBytes x))) else None)
     @ optMember ''sequence'' (map_option Str (oSeq x)))"

definition flag :: "string \<Rightarrow> bool \<Rightarrow> (jsstr \<times> jsval) list" where
  "flag k b = (if b then [(js k, Boolean True)] else [])"

definition resultValue :: "op_result \<Rightarrow> bool \<Rightarrow> jsval" where
  "resultValue r replayed = Obj ((case r of
      PatchResult k v q d \<Rightarrow> [(js ''ok'', Boolean True), (js ''recordKey'', Str k), (js ''revision'', Str v), (js ''sequence'', Str q)]
        @ flag ''deduped'' d
    | DeleteResult d q ep \<Rightarrow> (js ''deleted'', Boolean d) # optMember ''sequence'' (map_option Str q) @ [(js ''epoch'', Str ep)]
    | DeleteAllResult ep \<Rightarrow> [(js ''epoch'', Str ep)]) @ flag ''replayed'' replayed)"

definition createdValue :: "snap_created \<Rightarrow> jsval" where
  "createdValue c = Obj [(js ''snapshotId'', Str (scId c)), (js ''epoch'', Str (scEpoch c)), (js ''feed'', Str (js ''snapshot'')),
     (js ''filterHash'', Str (scFilterHash c)), (js ''watermark'', Str (scWatermark c)),
     (js ''memberCount'', IntNum (int (scCount c))), (js ''status'', Str (js ''active''))]"

definition browseValue :: "row list \<Rightarrow> (jsstr \<times> jsstr) option \<Rightarrow> jsval" where
  "browseValue rows nxt = Obj [(js ''records'', Arr (map (\<lambda>r. ofJson (rowJson r)) rows)),
     (js ''nextAfter'', case nxt of None \<Rightarrow> Null | Some (t, k) \<Rightarrow> Obj [(js ''createdAt'', Str t), (js ''recordKey'', Str k)])]"

definition SERVICE_SUPPORTED_FEATURES :: "string list" where
  "SERVICE_SUPPORTED_FEATURES = [''archiveBatch'', ''browse'', ''changes'', ''snapshotCreate'', ''snapshotPage'', ''patchState'',
     ''deleteRecord'', ''deleteAll'', ''usage'', ''capabilities'', ''epoch'', ''idempotency'']"

definition buildCapabilities :: "jsstr \<Rightarrow> jsval" where
  "buildCapabilities ep = Obj [(js ''protocolVersion'', Str PROTOCOL_VERSION), (js ''epoch'', Str ep),
     (js ''maxRecordsPerOwner'', IntNum (int (MAX_RECORDS_PER_OWNER LIMITS))),
     (js ''maxBytesPerOwner'', IntNum (int (MAX_BYTES_PER_OWNER LIMITS))),
     (js ''maxBodyBytes'', IntNum (int MAX_BODY_BYTES)), (js ''maxBatchRecords'', IntNum (int (MAX_BATCH_RECORDS LIMITS))),
     (js ''maxBatchBytes'', IntNum (int (MAX_BATCH_BYTES LIMITS))), (js ''maxPageRecords'', IntNum (int MAX_PAGE_RECORDS)),
     (js ''maxPageBytes'', IntNum (int MAX_PAGE_BYTES)), (js ''retention'', Str (js ''permanent'')),
     (js ''supportedFeatures'', Arr (map (\<lambda>f. Str (js f)) SERVICE_SUPPORTED_FEATURES))]"

text \<open>What a client parses from the answer of a route; a member that is \<open>undefined\<close> is not printed.\<close>

definition answerValue :: "answer \<Rightarrow> jsval" where
  "answerValue ans = (case ans of
      Problem c d retry \<Rightarrow> Obj ([(js ''status'', Str (js ''error'')), (js ''code'', Str (codeText c)), (js ''description'', Str (js d))]
        @ optMember ''retryAfterSeconds'' (map_option IntNum retry))
    | BatchAnswer b \<Rightarrow> Obj [(js ''epoch'', Str (brEpoch b)), (js ''committed'', Boolean (brCommitted b)),
        (js ''outcomes'', Arr (map outcomeValue (brOutcomes b)))]
    | OpAnswer r replayed \<Rightarrow> resultValue r replayed
    | BrowseAnswer rows nxt \<Rightarrow> browseValue rows nxt
    | ChangesAnswer p \<Rightarrow> ofJson (pageMembers (JArr (map itemJson (pgRecords p))) p)
    | SnapshotCreated c \<Rightarrow> createdValue c
    | SnapshotAnswer p \<Rightarrow> ofJson (pageMembers (JArr (map rowJson (pgRecords p))) p)
    | UsageAnswer u \<Rightarrow> Obj [(js ''recordCount'', IntNum (uCount u)), (js ''byteCount'', IntNum (uBytes u)),
        (js ''epoch'', Str (uEpoch u)), (js ''nextSequence'', Str (uNext u))]
    | CapabilitiesAnswer ep \<Rightarrow> buildCapabilities ep
    | _ \<Rightarrow> Undefined)"

lemma map_of_append_Some: "map_of (xs @ ys) k = (case map_of xs k of Some v \<Rightarrow> Some v | None \<Rightarrow> map_of ys k)"
  by (simp add: map_add_def)

lemma map_of_optMember [simp]: "map_of (optMember k v) (js k') = (if k = k' then v else None)"
  by (simp add: optMember_def split: option.split)

lemma map_of_flag [simp]: "map_of (flag k b) (js k') = (if k = k' \<and> b then Some (Boolean True) else None)"
  by (simp add: flag_def)

lemma getProp_member:
  "getProp ((js k, v) # ps) (js k') = (if k = k' then v else getProp ps (js k'))"
  "getProp (optMember k w @ ps) (js k') = (if k = k' \<and> w \<noteq> None then the w else getProp ps (js k'))"
  "getProp (optMember k w) (js k') = (if k = k' \<and> w \<noteq> None then the w else Undefined)"
  by (auto simp: getProp_def optMember_def split: option.split)

lemmas member_simps = field_def getProp_def isRecord_def map_of_append_Some requireString_def requireUint64_def
  requireEpoch_def requireRecordKey_def requireFiniteCount_def requireHash_def andThen_def mustBe_def require_def
  optionally_def

subsection \<open>Each validator\<close>

lemma safe_IntNum [simp]: "safeInt (IntNum z) = z"
  by (simp add: safeInt_def)

lemma patched_accepted: "wireResult ''patchState'' r \<Longrightarrow> validatePatched (resultValue r d) = Inr (resultValue r d)"
  by (cases r) (auto simp: wireResult_def validatePatched_def resultValue_def member_simps)

lemma deleted_accepted: "wireResult ''deleteRecord'' r \<Longrightarrow> validateDeleted (resultValue r d) = Inr (resultValue r d)"
  by (cases r) (auto simp: wireResult_def validateDeleted_def resultValue_def member_simps split: option.splits)

lemma deletedAll_accepted: "wireResult ''deleteAll'' r \<Longrightarrow> validateDeletedAll (resultValue r d) = Inr (resultValue r d)"
  by (cases r) (auto simp: wireResult_def validateDeletedAll_def resultValue_def member_simps)

lemma created_accepted: "createdOk c \<Longrightarrow> validateSnapshotCreated (createdValue c) = Inr (createdValue c)"
  by (simp add: createdOk_def validateSnapshotCreated_def createdValue_def member_simps MAX_SNAPSHOT_ITEMS_PER_OWNER_def)

lemma capabilities_accepted:
  assumes "epochRe ep" "set fs \<subseteq> js ` set REQUIRED_FEATURES"
  shows "validateCapabilities fs (buildCapabilities ep) = Inr (buildCapabilities ep)"
proof -
  have "Str f \<in> set (map (\<lambda>f. Str (js f)) SERVICE_SUPPORTED_FEATURES)" if "f \<in> set fs" for f
    using assms(2) that by (auto simp: REQUIRED_FEATURES_def SERVICE_SUPPORTED_FEATURES_def)
  then have "list_all (\<lambda>f. Str f \<in> set (map (\<lambda>f. Str (js f)) SERVICE_SUPPORTED_FEATURES)) fs"
    by (simp add: list_all_iff)
  moreover have "list_all isStr (map (\<lambda>f. Str (js f)) fs)" for fs by (simp add: list_all_iff)
  ultimately show ?thesis using assms(1)
    by (simp add: validateCapabilities_def assertCompatibleCapabilities_def buildCapabilities_def member_simps
        PROTOCOL_VERSION_def Let_def)
qed

lemma row_accepted:
  assumes "rowOk r" "wireRow r"
  shows "validateHistoryRecord (ofJson (rowJson r)) = Inr ()"
proof -
  have "rDirection r = js ''inbound'' \<or> rDirection r = js ''outbound''" using assms(1) by (auto simp: rowOk_def)
  then show ?thesis
    using assms by (simp add: validateHistoryRecord_def stringOf_def rowJson_def member_simps rowOk_def wireRow_def MAX_BODY_BYTES_def
        hex64Re_sha256Hex)
qed

lemma checkEach_all: "(\<And>x. x \<in> set xs \<Longrightarrow> f x = Inr ()) \<Longrightarrow> checkEach f xs = Inr ()"
  by (induction xs) (simp_all add: andThen_def)

lemma browse_accepted:
  assumes "\<forall>r \<in> set rows. rowOk r \<and> wireRow r" "\<forall>t k. nxt = Some (t, k) \<longrightarrow> hex64Re k"
  shows "validateBrowse (browseValue rows nxt) = Inr (browseValue rows nxt)"
proof -
  have "checkEach validateHistoryRecord (map (\<lambda>r. ofJson (rowJson r)) rows) = Inr ()"
    using assms(1) by (intro checkEach_all) (auto simp: row_accepted)
  then show ?thesis using assms(2)
    by (auto simp: validateBrowse_def browseValue_def member_simps split: option.split)
qed

lemma item_accepted: "feedItemOk it \<Longrightarrow> pageEntry (ofJson (itemJson it)) = Inr ()"
proof (cases it)
  case (LiveItem r)
  moreover have "isRecord (ofJson (rowJson r)) \<and> js ''body'' \<in> set (keysOf (ofJson (rowJson r)))"
    by (simp add: rowJson_def isRecord_def keysOf_def)
  ultimately show "feedItemOk it \<Longrightarrow> ?thesis" by (simp add: feedItemOk_def pageEntry_def itemJson_def row_accepted)
next
  case (GoneItem k q d)
  then show "feedItemOk it \<Longrightarrow> ?thesis"
    by (auto simp: feedItemOk_def pageEntry_def itemJson_def keysOf_def validateDeleteEvent_def member_simps split: option.split)
qed

lemma page_accepted:
  assumes "pageFrameOk p" "\<And>v. v \<in> set docs \<Longrightarrow> pageEntry (ofJson v) = Inr ()"
  shows "validateHistoryPage (ofJson (pageMembers (JArr docs) p)) = Inr (ofJson (pageMembers (JArr docs) p))"
proof -
  have "checkEach pageEntry (map ofJson docs) = Inr ()" using assms(2) by (intro checkEach_all) auto
  then show ?thesis using assms(1)
    by (cases "pgNextCursor p") (simp_all add: validateHistoryPage_def pageMembers_def member_simps pageFrameOk_def)
qed

text \<open>The answer to a batch. A record the service refuses is answered with the key the client
  supplied, so the client's own records must carry no key, or one that is well formed.\<close>

definition keySupplied :: "jsval \<Rightarrow> bool" where
  "keySupplied r \<longleftrightarrow> (case suppliedKey r of Null \<Rightarrow> True | Str k \<Rightarrow> hex64Re k | _ \<Rightarrow> False)"

lemma codeOf_codeText: "\<forall>t. c \<noteq> Other_Code t \<Longrightarrow> codeOf (codeText c) = Some c"
  by (cases c) (simp_all add: codeText_def STORE_ERROR_CODES_def codeOf_def)

lemma outcomeIndex_IntNum: "i < n \<Longrightarrow> outcomeIndex (IntNum (int i)) n = Some i"
  by (simp add: outcomeIndex_def)

lemma outcomeFieldsI:
  assumes "field v ''recordKey'' = Null \<or> (\<exists>k. field v ''recordKey'' = Str k \<and> hex64Re k)"
    "field v ''errorCode'' = Undefined \<or> (\<exists>t. field v ''errorCode'' = Str t \<and> codeOf t \<noteq> None)"
    "field v ''bodyHash'' = Undefined \<or> (\<exists>h. field v ''bodyHash'' = Str h \<and> hex64Re h)"
    "field v ''bodyBytes'' = Undefined \<or> (\<exists>n \<le> MAX_BODY_BYTES. field v ''bodyBytes'' = IntNum (int n))"
    "field v ''sequence'' = Undefined \<or> (\<exists>q. field v ''sequence'' = Str q \<and> canonicalDec q)"
  shows "outcomeFields v = Inr ()"
proof -
  have "(if field v ''recordKey'' = Null \<or> field v ''recordKey'' = Undefined then Inr ()
       else andThen (requireRecordKey (field v ''recordKey'')) (\<lambda>_. Inr ())) = Inr ()"
    using assms(1) by (auto simp: requireRecordKey_def requireString_def andThen_def)
  moreover have "optionally (field v ''bodyHash'') (requireHash (field v ''bodyHash'')) = Inr ()"
    using assms(3) by (auto simp: optionally_def requireHash_def requireString_def andThen_def mustBe_def require_def)
  moreover have "optionally (field v ''bodyBytes'') (requireFiniteCount (field v ''bodyBytes'')) = Inr ()"
    using assms(4) by (auto simp: optionally_def requireFiniteCount_def andThen_def MAX_BODY_BYTES_def)
  moreover have "optionally (field v ''sequence'') (requireUint64 (field v ''sequence'')) = Inr ()"
    using assms(5) by (auto simp: optionally_def requireUint64_def requireString_def andThen_def)
  moreover have "(if field v ''errorCode'' = Undefined then Inr ()
       else andThen (stringOf (field v ''errorCode'')) (\<lambda>s. mustBe (codeOf s \<noteq> None))) = Inr ()"
    using assms(2) by (auto simp: stringOf_def andThen_def mustBe_def require_def)
  ultimately show ?thesis unfolding outcomeFields_def by (simp only: andThen_def sum.case)
qed

lemma outcomeDemandsI:
  assumes "field v ''outcome'' \<in> {Str (js ''stored''), Str (js ''alreadyPresent'')} \<Longrightarrow>
      (\<exists>k. field v ''recordKey'' = Str k \<and> hex64Re k) \<and> (\<exists>h. field v ''bodyHash'' = Str h \<and> hex64Re h)"
    "field v ''outcome'' = Str (js ''stored'') \<Longrightarrow>
      (\<exists>n \<le> MAX_BODY_BYTES. field v ''bodyBytes'' = IntNum (int n)) \<and> (\<exists>q. field v ''sequence'' = Str q \<and> canonicalDec q)"
  shows "outcomeDemands v = Inr ()"
proof -
  have "field v ''outcome'' \<in> {Str (js ''stored''), Str (js ''alreadyPresent'')} \<Longrightarrow>
      andThen (requireRecordKey (field v ''recordKey'')) (\<lambda>_. requireHash (field v ''bodyHash'')) = Inr ()"
    using assms(1) by (auto simp: requireRecordKey_def requireHash_def requireString_def andThen_def mustBe_def require_def)
  moreover have "field v ''outcome'' = Str (js ''stored'') \<Longrightarrow>
      andThen (requireFiniteCount (field v ''bodyBytes'')) (\<lambda>_. andThen (requireUint64 (field v ''sequence'')) (\<lambda>_. Inr ())) = Inr ()"
    using assms(2) by (auto simp: requireFiniteCount_def requireUint64_def requireString_def andThen_def MAX_BODY_BYTES_def)
  ultimately show ?thesis by (simp add: outcomeDemands_def andThen_def)
qed

lemma outcome_accepted:
  assumes "answeredOk r x" "keySupplied r" "oIndex x < n" "oIndex x \<notin> set seen"
  shows "validateOutcome n (outcomeValue x) seen = Inr (seen @ [oIndex x])"
proof -
  have key: "oKey x = Null \<or> (\<exists>k. oKey x = Str k \<and> hex64Re k)"
    using assms(1,2) by (cases "oKind x \<in> {EpochChanged, InvalidItem}")
      (auto simp: answeredOk_def wireOutcome_def keySupplied_def split: jsval.splits)
  have name: "outcomeName (oKind x) \<in> set OUTCOMES" by (cases "oKind x") (simp_all add: outcomeName_def OUTCOMES_def)
  have fld: "field (outcomeValue x) ''index'' = IntNum (int (oIndex x))" "field (outcomeValue x) ''recordKey'' = oKey x"
      "field (outcomeValue x) ''outcome'' = Str (js (outcomeName (oKind x)))"
      "field (outcomeValue x) ''errorCode'' = (case oError x of None \<Rightarrow> Undefined | Some c \<Rightarrow> Str (codeText c))"
      "field (outcomeValue x) ''bodyHash'' = (case oHash x of None \<Rightarrow> Undefined | Some h \<Rightarrow> Str h)"
      "field (outcomeValue x) ''bodyBytes'' = (if oKind x = Stored then IntNum (int (oBytes x)) else Undefined)"
      "field (outcomeValue x) ''sequence'' = (case oSeq x of None \<Rightarrow> Undefined | Some q \<Rightarrow> Str q)"
    by (simp_all add: outcomeValue_def field_def getProp_member split: option.split)
  note w = assms(1) [unfolded answeredOk_def wireOutcome_def]
  have kinds: "outcomeName (oKind x) = ''stored'' \<longleftrightarrow> oKind x = Stored" "outcomeName (oKind x) = ''alreadyPresent'' \<longleftrightarrow> oKind x = AlreadyPresent"
    by (cases "oKind x"; simp add: outcomeName_def)+
  have "outcomeFields (outcomeValue x) = Inr ()"
  proof (rule outcomeFieldsI, unfold fld)
    show "(case oError x of None \<Rightarrow> Undefined | Some c \<Rightarrow> Str (codeText c)) = Undefined
        \<or> (\<exists>t. (case oError x of None \<Rightarrow> Undefined | Some c \<Rightarrow> Str (codeText c)) = Str t \<and> codeOf t \<noteq> None)"
      using w codeOf_codeText by (cases "oError x") auto
  qed (use key w in \<open>auto split: option.split\<close>)
  moreover have "outcomeDemands (outcomeValue x) = Inr ()"
  proof (rule outcomeDemandsI, unfold fld)
    assume "Str (js (outcomeName (oKind x))) \<in> {Str (js ''stored''), Str (js ''alreadyPresent'')}"
    then have "oKind x \<in> {Stored, AlreadyPresent}" using kinds by auto
    then show "(\<exists>k. oKey x = Str k \<and> hex64Re k) \<and>
        (\<exists>h. (case oHash x of None \<Rightarrow> Undefined | Some h \<Rightarrow> Str h) = Str h \<and> hex64Re h)"
      using w by (cases "oHash x") auto
  next
    assume "Str (js (outcomeName (oKind x))) = Str (js ''stored'')"
    then have "oKind x = Stored" using kinds by auto
    then show "(\<exists>n \<le> MAX_BODY_BYTES. (if oKind x = Stored then IntNum (int (oBytes x)) else Undefined) = IntNum (int n)) \<and>
        (\<exists>q. (case oSeq x of None \<Rightarrow> Undefined | Some q \<Rightarrow> Str q) = Str q \<and> canonicalDec q)"
      using w by (cases "oSeq x") auto
  qed
  moreover have "isRecord (outcomeValue x)" by (simp add: outcomeValue_def isRecord_def)
  ultimately show ?thesis using assms(3,4) name
    by (simp add: validateOutcome_def fld outcomeIndex_IntNum [simplified] stringOf_def mustBe_def require_def andThen_def)
qed

lemma outcomes_accepted:
  "list_all2 answeredOk rs xs \<Longrightarrow> map oIndex xs = [i..<i + length rs] \<Longrightarrow> i + length rs \<le> n \<Longrightarrow> \<forall>r \<in> set rs. keySupplied r
   \<Longrightarrow> \<forall>j \<in> set seen. j < i \<Longrightarrow> validateOutcomes n (map outcomeValue xs) seen = Inr (seen @ map oIndex xs)"
proof (induction rs xs arbitrary: i seen rule: list_all2_induct)
  case (Cons r rs x xs)
  have i: "oIndex x = i" "map oIndex xs = [Suc i..<Suc i + length rs]"
    using Cons.prems(1) by (auto simp: upt_conv_Cons simp del: upt_Suc)
  have "validateOutcome n (outcomeValue x) seen = Inr (seen @ [i])"
    using outcome_accepted [OF Cons.hyps(1)] Cons.prems i(1) by auto
  moreover have "validateOutcomes n (map outcomeValue xs) (seen @ [i]) = Inr ((seen @ [i]) @ map oIndex xs)"
    using Cons.prems by (intro Cons.IH [OF i(2)]) auto
  ultimately show ?case using i(1) by (simp add: andThen_def)
qed simp

lemma batch_accepted:
  assumes "batchAnswerOk rs b" "\<forall>r \<in> set rs. keySupplied r"
  shows "validateArchive (length rs) (answerValue (BatchAnswer b)) = Inr (answerValue (BatchAnswer b))"
proof -
  have "validateOutcomes (length rs) (map outcomeValue (brOutcomes b)) [] = Inr ([] @ map oIndex (brOutcomes b))"
    using assms by (intro outcomes_accepted [where i = 0 and rs = rs]) (auto simp: batchAnswerOk_def)
  moreover have "length (brOutcomes b) = length rs" using assms(1) by (auto simp: batchAnswerOk_def dest: list_all2_lengthD)
  ultimately show ?thesis using assms(1)
    by (simp add: validateArchive_def answerValue_def member_simps batchAnswerOk_def)
qed


subsection \<open>Every route\<close>

text \<open>The route an operation of the client asks for, the check it makes of the answer, and the batch it
  sends.\<close>

primrec opEndpoint :: "history_call \<Rightarrow> endpoint" where
  "opEndpoint (OpCapabilities fs) = CapabilitiesRoute"
| "opEndpoint (OpArchiveBatch ep items) = ArchiveBatchRoute"
| "opEndpoint (OpList f after) = BrowseRoute"
| "opEndpoint (OpCreateSnapshot flt) = SnapshotCreateRoute"
| "opEndpoint (OpSnapshotPage sid cursor limit) = SnapshotPageRoute"
| "opEndpoint (OpListChanges f cursor after ep) = ChangesRoute"
| "opEndpoint (OpPatchState k st xr ik) = PatchStateRoute"
| "opEndpoint (OpDeleteRecord k ik) = DeleteOneRoute"
| "opEndpoint (OpDeleteAll ik ep) = DeleteAllRoute"
| "opEndpoint OpUsage = UsageRoute"

primrec opValidator :: "history_call \<Rightarrow> jsval \<Rightarrow> jsval checked" where
  "opValidator (OpCapabilities fs) = validateCapabilities fs"
| "opValidator (OpArchiveBatch ep items) = validateArchive (length items)"
| "opValidator (OpList f after) = validateBrowse"
| "opValidator (OpCreateSnapshot flt) = validateSnapshotCreated"
| "opValidator (OpSnapshotPage sid cursor limit) = validateHistoryPage"
| "opValidator (OpListChanges f cursor after ep) = validateHistoryPage"
| "opValidator (OpPatchState k st xr ik) = validatePatched"
| "opValidator (OpDeleteRecord k ik) = validateDeleted"
| "opValidator (OpDeleteAll ik ep) = validateDeletedAll"
| "opValidator OpUsage = validateUsage"

definition carriesBatch :: "history_call \<Rightarrow> jsval \<Rightarrow> bool" where
  "carriesBatch op bdy \<longleftrightarrow> (case op of
      OpArchiveBatch ep items \<Rightarrow> field bdy ''records'' = Arr (map ofJson items)
    | OpCapabilities fs \<Rightarrow> set fs \<subseteq> js ` set REQUIRED_FEATURES
    | _ \<Rightarrow> True)"

text \<open>An operation that sends a request makes that check of its answer.\<close>

lemma operation_validates:
  "(\<exists>q. clientOperation E c op = sendRequest E c q (opValidator op)) \<or> (\<exists>e. clientOperation E c op = actPure (Inl e))"
proof (cases op)
  case (OpPatchState k st xr ik)
  then show ?thesis by (cases "recordPath k (js ''/state'')")
    (auto simp: clientPatchState_def actBind_def actPure_def fun_eq_iff)
next
  case (OpDeleteRecord k ik)
  then show ?thesis by (cases "recordPath k []")
    (auto simp: clientDeleteRecord_def actBind_def actPure_def fun_eq_iff)
qed (auto simp: capabilities_def clientArchiveBatch_def clientList_def clientCreateSnapshot_def clientSnapshotPage_def
      clientListChanges_def clientDeleteAll_def clientUsage_def)

definition accepted :: "history_call \<Rightarrow> answer \<Rightarrow> bool" where
  "accepted op ans \<longleftrightarrow> opValidator op (answerValue ans) = Inr (answerValue ans)"

text \<open>A handler whose answers, from a store that keeps both invariants, have a property.\<close>

definition answers :: "store_limits \<Rightarrow> (answer \<Rightarrow> bool) \<Rightarrow> answer handler \<Rightarrow> bool" where
  "answers L P m \<longleftrightarrow> (\<forall>a x. storeInv L (apStore a) \<and> wireInv (apStore a) \<and> fst (m a) = Inr x \<longrightarrow> P x)"

lemma answers_check: "(\<And>x. r = Inr x \<Longrightarrow> answers L P (f x)) \<Longrightarrow> answers L P (hBind (hPure r) f)"
  by (cases r) (simp_all add: answers_def hBind_def hPure_def)

lemma answers_store:
  assumes "\<And>s x. storeInv L s \<Longrightarrow> wireInv s \<Longrightarrow> fst (g s) = Inr x \<Longrightarrow> Q x" "\<And>x a y. Q x \<Longrightarrow> fst (f x a) = Inr y \<Longrightarrow> P y"
  shows "answers L P (hBind (hStore g) f)"
  unfolding answers_def hBind_def hStore_def using assms
  by (fastforce split: prod.splits sum.splits)

lemma answers_wires:
  assumes "wires L g Q" "\<And>x s a y. Q x s \<Longrightarrow> fst (f x a) = Inr y \<Longrightarrow> P y"
  shows "answers L P (hBind (hStore g) f)"
  by (rule answers_store [where Q = "\<lambda>x. \<exists>s. Q x s"]) (use assms in \<open>auto simp: wires_def\<close>)

lemma hPure_Inr: "fst (hPure (Inr x) a) = Inr y \<longleftrightarrow> y = x"
  by (auto simp: hPure_def)

lemma eachM_all: "eachM f xs = Inr () \<Longrightarrow> x \<in> set xs \<Longrightarrow> f x = Inr ()"
  by (induction xs) (auto simp: andThen_eq_Inr)

lemma batch_keys:
  assumes "validateArchiveBatchBody bdy = Inr (ep, rs)"
  shows "field bdy ''records'' = Arr rs \<and> (\<forall>r \<in> set rs. keySupplied r)"
proof -
  have f: "field bdy ''records'' = Arr rs" "eachM checkBatchRecord rs = Inr ()"
    using assms by (cases "field bdy ''records''"; auto simp: validateArchiveBatchBody_def andThen_eq_Inr require_eq_Inr)+
  have "keySupplied r" if "r \<in> set rs" for r
  proof -
    have "optionalHex (field r ''recordKey'')"
      using eachM_all [OF f(2) that] by (auto simp: checkBatchRecord_def Let_def andThen_eq_Inr require_eq_Inr)
    then show ?thesis by (cases "field r ''recordKey''") (simp_all add: keySupplied_def suppliedKey_def optionalHex_def)
  qed
  then show ?thesis using f(1) by blast
qed

definition limitsSafe :: "store_limits \<Rightarrow> bool" where
  "limitsSafe L \<longleftrightarrow> MAX_RECORDS_PER_OWNER L \<le> 9007199254740991 \<and> MAX_BYTES_PER_OWNER L \<le> 9007199254740991"

lemma usage_facts:
  assumes "storeInv L s" "wireInv s" "fst (getUsage owner s) = Inr u"
  shows "epochRe (uEpoch u) \<and> canonicalDec (uNext u) \<and> (limitsSafe L \<longrightarrow>
    0 \<le> uCount u \<and> uCount u \<le> 9007199254740991 \<and> 0 \<le> uBytes u \<and> uBytes u \<le> 9007199254740991)"
proof -
  obtain s' where s': "getUsage owner s = (Inr u, s')" using assms(3) by (metis prod.collapse)
  note w = wires_result [OF wires_usage assms(1,2) s']
  have "storeInv L s'" using keeps_reads(1) [of L owner] assms(1) s' by (auto simp: keeps_def)
  then have "0 \<le> sCount (ownerOf owner s') \<and> sCount (ownerOf owner s') \<le> int (MAX_RECORDS_PER_OWNER L)"
      "0 \<le> sBytes (ownerOf owner s') \<and> sBytes (ownerOf owner s') \<le> int (MAX_BYTES_PER_OWNER L)"
    by (simp_all add: storeInv_def countsOk_def quotasOk_def)
  then show ?thesis using w epochRe_owner by (auto simp: limitsSafe_def wireOwner_def)
qed

lemma handlers_accepted:
  assumes "carriesBatch op bdy" "noNul owner" "limitsSafe L" "acStoreLimits cfg = L"
  shows "opEndpoint op = ArchiveBatchRoute \<Longrightarrow> answers L (accepted op) (handleArchiveBatch cfg rq bdy owner)"
    "opEndpoint op = PatchStateRoute \<Longrightarrow> answers L (accepted op) (handlePatchState cfg rq bdy owner)"
    "opEndpoint op = DeleteOneRoute \<Longrightarrow> answers L (accepted op) (handleDeleteOne cfg rq bdy owner)"
    "opEndpoint op = DeleteAllRoute \<Longrightarrow> answers L (accepted op) (handleDeleteAll cfg rq bdy owner)"
    "opEndpoint op = BrowseRoute \<Longrightarrow> answers L (accepted op) (handleBrowse cfg rq bdy owner)"
    "opEndpoint op = ChangesRoute \<Longrightarrow> answers L (accepted op) (handleChanges cfg rq bdy owner)"
    "opEndpoint op = SnapshotCreateRoute \<Longrightarrow> answers L (accepted op) (handleSnapshotCreate cfg rq bdy owner)"
    "opEndpoint op = SnapshotPageRoute \<Longrightarrow> answers L (accepted op) (handleSnapshotPage cfg rq bdy owner)"
    "opEndpoint op = UsageRoute \<Longrightarrow> answers L (accepted op) (handleUsage cfg rq bdy owner)"
    "opEndpoint op = CapabilitiesRoute \<Longrightarrow> answers L (accepted op) (handleCapabilities cfg rq bdy owner)"
proof -
  show "answers L (accepted op) (handleArchiveBatch cfg rq bdy owner)" if o: "opEndpoint op = ArchiveBatchRoute"
    unfolding handleArchiveBatch_def assms(4)
    apply (rule answers_check)+
    apply (clarsimp split: prod.split)
    apply (rule answers_check)+
    apply (rule answers_wires [OF wires_archiveBatch])
    using o assms(1) batch_keys
    by (cases op) (auto simp: hPure_Inr accepted_def carriesBatch_def dest!: batch_accepted)
  show "answers L (accepted op) (handlePatchState cfg rq bdy owner)" if o: "opEndpoint op = PatchStateRoute"
    unfolding handlePatchState_def
    by (rule answers_check)+ (rule answers_wires [OF wires_patchState [OF assms(2)]],
      use o in \<open>cases op; auto simp: hPure_Inr accepted_def answerValue_def patched_accepted\<close>)
  show "answers L (accepted op) (handleDeleteOne cfg rq bdy owner)" if o: "opEndpoint op = DeleteOneRoute"
    unfolding handleDeleteOne_def
    apply (rule answers_check)
    apply (clarsimp split: prod.split)
    apply (rule answers_check)
    apply (rule answers_wires [OF wires_deleteRecord [OF assms(2)]])
    using o by (cases op) (auto simp: hPure_Inr accepted_def answerValue_def deleted_accepted)
  show "answers L (accepted op) (handleDeleteAll cfg rq bdy owner)" if o: "opEndpoint op = DeleteAllRoute"
    unfolding handleDeleteAll_def
    apply (rule answers_check)
    apply (clarsimp split: prod.split)
    apply (rule answers_check)
    apply (rule answers_wires [OF wires_deleteAll])
    using o by (cases op) (auto simp: hPure_Inr accepted_def answerValue_def deletedAll_accepted)
  show "answers L (accepted op) (handleBrowse cfg rq bdy owner)" if o: "opEndpoint op = BrowseRoute"
    unfolding handleBrowse_def
    apply (rule answers_check)+
    apply (rule answers_store [where Q = "\<lambda>(rows, nxt). (\<forall>r \<in> set rows. rowOk r \<and> wireRow r) \<and> (\<forall>t k. nxt = Some (t, k) \<longrightarrow> hex64Re k)"])
    subgoal for _ _ s x by (cases x) (use listBrowse_wire in \<open>fastforce\<close>)
    subgoal using o by (cases op) (auto simp: hPure_Inr accepted_def answerValue_def browse_accepted)
    done
  show "answers L (accepted op) (handleChanges cfg rq bdy owner)" if o: "opEndpoint op = ChangesRoute"
    unfolding handleChanges_def
    apply (rule answers_check)+
    apply (rule answers_wires [OF wires_changesPage])
    using o by (cases op) (auto simp: hPure_Inr accepted_def answerValue_def intro!: page_accepted item_accepted)
  show "answers L (accepted op) (handleSnapshotCreate cfg rq bdy owner)" if o: "opEndpoint op = SnapshotCreateRoute"
    unfolding handleSnapshotCreate_def
    apply (rule answers_check)+
    apply (rule answers_wires [OF wires_createSnapshot])
    using o by (cases op) (auto simp: hPure_Inr accepted_def answerValue_def created_accepted)
  have row: "rowOk r \<and> wireRow r \<Longrightarrow> pageEntry (ofJson (rowJson r)) = Inr ()" for r
    using item_accepted [of "LiveItem r"] by (simp add: feedItemOk_def itemJson_def)
  show "answers L (accepted op) (handleSnapshotPage cfg rq bdy owner)" if o: "opEndpoint op = SnapshotPageRoute"
    unfolding handleSnapshotPage_def
    apply (rule answers_check)
    apply (clarsimp split: prod.split)
    apply (rule answers_check)+
    apply (rule answers_store [where Q = "\<lambda>pg. \<forall>p. pg = Some p \<longrightarrow> (\<forall>r \<in> set (pgRecords p). rowOk r \<and> wireRow r) \<and> pageFrameOk p"])
    subgoal using listSnapshotPage_wire by fastforce
    subgoal for _ _ _ _ _ pg using o row
      by (cases op; cases pg) (auto simp: hPure_def accepted_def answerValue_def intro!: page_accepted)
    done
  show "answers L (accepted op) (handleUsage cfg rq bdy owner)" if o: "opEndpoint op = UsageRoute"
    unfolding handleUsage_def
    apply (rule answers_check)+
    apply (rule answers_store [where Q = "\<lambda>u. epochRe (uEpoch u) \<and> canonicalDec (uNext u)
       \<and> 0 \<le> uCount u \<and> uCount u \<le> 9007199254740991 \<and> 0 \<le> uBytes u \<and> uBytes u \<le> 9007199254740991"])
    subgoal using usage_facts assms(3) by blast
    subgoal using o by (cases op) (auto simp: hPure_Inr accepted_def answerValue_def validateUsage_def member_simps)
    done
  show "answers L (accepted op) (handleCapabilities cfg rq bdy owner)" if o: "opEndpoint op = CapabilitiesRoute"
    unfolding handleCapabilities_def
    apply (rule answers_check)+
    apply (rule answers_store [where Q = "\<lambda>u. epochRe (uEpoch u)"])
    subgoal using usage_facts by blast
    subgoal using o assms(1)
      by (cases op) (auto simp: hPure_Inr accepted_def answerValue_def carriesBatch_def capabilities_accepted)
    done
qed

subsection \<open>A request and its response\<close>

text \<open>A gate of the application that never answers with status 200 itself.\<close>

definition never200 :: "middleware \<Rightarrow> bool" where
  "never200 f \<longleftrightarrow> (\<forall>a ans. fst (f a) \<noteq> Some (Inr (200, ans)))"

lemma never200_chain: "list_all never200 fs \<Longrightarrow> never200 (runChain fs)"
proof (induction fs)
  case (Cons f fs)
  show ?case unfolding never200_def
  proof (intro allI)
    fix a ans
    obtain q b where f: "f a = (q, b)" by fastforce
    show "fst (runChain (f # fs) a) \<noteq> Some (Inr (200, ans))"
    proof (cases q)
      case (Some y)
      have "fst (f a) \<noteq> Some (Inr (200, ans))" using Cons.prems by (simp add: never200_def)
      then show ?thesis using f Some by (simp add: runChain_go)
    qed (use Cons f in \<open>simp add: runChain_go never200_def\<close>)
  qed
qed (simp add: never200_def)

lemma never200_ingress:
  assumes "rqEndpoint rq \<notin> {Healthz, Ready}"
  shows "list_all never200 (ingress cfg rq)"
proof -
  have "never200 (originGate cfg rq)" "never200 (contentLengthGate cfg rq)" "never200 (bodyGate rq)" "never200 (earlyBoundsGate rq)"
    by (simp_all add: never200_def originGate_def contentLengthGate_def bodyGate_def earlyBoundsGate_def failWith_def
        split: jsval.split body_parse.split sum.split)
  moreover have "never200 (livenessRoute rq)" "never200 (readyRoute cfg rq)"
    using assms by (simp_all add: never200_def livenessRoute_def readyRoute_def)
  moreover have "never200 (admissionGate cfg)" "never200 (ipRateGate cfg rq)"
    by (simp_all add: never200_def admissionGate_def ipRateGate_def failWith_def Let_def
        split: prod.split rate_decision.split)
  ultimately show ?thesis by (simp add: ingress_def)
qed

lemma never200_signed:
  assumes "\<forall>st. rqAuth rq \<noteq> AuthReplies st"
  shows "list_all never200 (signed cfg rq)"
proof -
  have "never200 (unsignedGate rq)" "never200 (replayGate rq)" "never200 (identityRateGate cfg rq)"
    by (simp_all add: never200_def unsignedGate_def replayGate_def identityRateGate_def failWith_def Let_def
        split: prod.split guard_answer.split rate_decision.split jsval.split)
  moreover have "never200 (authGate rq)" using assms by (simp add: never200_def authGate_def split: auth_result.split)
  ultimately show ?thesis by (simp add: signed_def)
qed

lemma errorBoundary_not200: "fst (errorBoundary t) \<noteq> 200"
  by (auto simp: errorBoundary_def Let_def split: option.split)

lemma served_route:
  assumes "serveRequest cfg rq a = (rs, a')" "rsStatus rs = 200" "rqEndpoint rq \<notin> {Healthz, Ready}"
    "\<forall>st. rqAuth rq \<noteq> AuthReplies st"
  obtains b where "apStore b = apStore a" "fst (routes cfg rq b) = Some (Inr (200, rsAnswer rs))"
proof -
  obtain r1 a1 where i: "runChain (ingress cfg rq) a = (r1, a1)" by fastforce
  obtain r2 a2 where g: "runChain (signed cfg rq) a1 = (r2, a2)" by fastforce
  obtain q3 a3 where "routeRequest cfg rq (routeBody cfg rq) (authIdentity cfg rq) a2 = (q3, a3)" by fastforce
  then have r: "routes cfg rq a2 = (Some q3, a3)" by (simp add: routes_def)
  have go: "runChain [routes cfg rq] a2 = (Some q3, a3)" by (simp add: runChain.simps(2) r)
  have "r1 \<noteq> Some (Inr (200, x))" "r2 \<noteq> Some (Inr (200, x))" for x
    using never200_chain [OF never200_ingress [OF assms(3)]] never200_chain [OF never200_signed [OF assms(4)]] i g
    by (metis never200_def fst_conv)+
  moreover have "(case r1 of Some x \<Rightarrow> r1 | None \<Rightarrow> case r2 of Some x \<Rightarrow> r2 | None \<Rightarrow> Some q3) = Some (Inr (200, rsAnswer rs))"
  proof -
    obtain r where r: "(case r1 of Some x \<Rightarrow> r1 | None \<Rightarrow> case r2 of Some x \<Rightarrow> r2 | None \<Rightarrow> Some q3) = Some r"
      by (cases r1; cases r2) auto
    have "(case r of Inr x \<Rightarrow> x | Inl t \<Rightarrow> errorBoundary t) = (200, rsAnswer rs)"
      using assms(1,2) i g r by (auto simp: serveRequest_def runChain_append go split: option.splits prod.splits)
    then show ?thesis using r errorBoundary_not200 by (cases r) (auto, metis fst_conv)
  qed
  ultimately have "r1 = None" "r2 = None" "q3 = Inr (200, rsAnswer rs)" by (auto split: option.splits)
  moreover have "apStore a2 = apStore a" using ingress_store [OF i] signed_store [OF g] by simp
  ultimately show thesis using that [of a2] r by simp
qed

lemma protected_accepted:
  assumes "protectedRoute h rq bdy identity b = (Inr x, b')" "\<And>owner. noNul owner \<Longrightarrow> answers L P (h rq bdy owner)"
    "storeInv L (apStore b)" "wireInv (apStore b)"
  shows "P x"
proof -
  define m where "m owner = hBind (hPure (assertNoOwnerOverride (Str owner) bdy (rqQuery rq) (rqParams rq))) (\<lambda>_. h rq bdy owner)" for owner
  have ans: "answers L P (m owner)" if "noNul owner" for owner
    unfolding m_def by (intro answers_check assms(2) that)
  obtain owner where o: "resolveRequestOwner identity = Inr owner" "fst (m owner b) = Inr x"
    using assms(1) unfolding protectedRoute_def m_def [symmetric]
    by (auto simp: hBind_pure Let_def split: sum.splits route_error.splits prod.splits)
  then have "noNul owner" using resolveRequestOwner_Inr isIdentityKey_noNul by metis
  then show ?thesis using ans o(2) assms(3,4) unfolding answers_def by blast
qed

text \<open>The response as the client's \<open>fetch\<close> hands it over.\<close>

definition fetched :: "response \<Rightarrow> fetch_response" where
  "fetched rs = \<lparr>frStatus = rsStatus rs, frOk = (200 \<le> rsStatus rs \<and> rsStatus rs \<le> 299), frJson = Inr (answerValue (rsAnswer rs))\<rparr>"

lemma decode_problem:
  assumes "rsAnswer rs = Problem c d retry" "400 \<le> rsStatus rs" "\<forall>t. c \<noteq> Other_Code t"
  shows "decodeResponse validate (fetched rs) = Inl (StoreClientError c (fixedErrorMessage c) (Some (rsStatus rs))
    (case retry of Some r \<Rightarrow> if 0 \<le> r \<and> r \<le> 9007199254740991 then Some r else None | None \<Rightarrow> None))"
proof -
  have "candidateCode (rsStatus rs) (answerValue (rsAnswer rs)) = c"
    using assms(3) by (simp add: assms(1) candidateCode_def answerValue_def isRecord_def field_def getProp_member codeOf_codeText)
  moreover have "retryAfterOf (answerValue (rsAnswer rs))
      = (case retry of Some r \<Rightarrow> if 0 \<le> r \<and> r \<le> 9007199254740991 then Some r else None | None \<Rightarrow> None)"
    by (cases retry) (auto simp: assms(1) retryAfterOf_def answerValue_def isRecord_def field_def getProp_member isSafeInteger_def)
  ultimately show ?thesis using assms(2) by (simp add: decodeResponse_def fetched_def Let_def)
qed

text \<open>C4: Client and service speak one protocol: for every state the repository can reach, every
  operation of the client and every request that asks for its route and passes the authentication
  middleware, a 200 response is accepted by the check the client makes for that operation and handed
  to the caller unchanged, and a refusal with a known code is reported under that very code with its
  status, its retry delay and the client's own text.\<close>

theorem client_reads_service:
  assumes "storeReach (acStoreLimits cfg) (apStore a)" "limitsSafe (acStoreLimits cfg)"
    "serveRequest cfg rq a = (rs, a')" "rqEndpoint rq = opEndpoint op" "carriesBatch op (routeBody cfg rq)"
    "\<forall>st. rqAuth rq \<noteq> AuthReplies st"
  shows "(rsStatus rs = 200 \<longrightarrow> decodeResponse (opValidator op) (fetched rs) = Inr (answerValue (rsAnswer rs)))
    \<and> (\<forall>c d retry. rsAnswer rs = Problem c d retry \<and> (\<forall>t. c \<noteq> Other_Code t) \<longrightarrow>
         decodeResponse (opValidator op) (fetched rs) = Inl (StoreClientError c (fixedErrorMessage c) (Some (rsStatus rs))
           (case retry of Some r \<Rightarrow> if 0 \<le> r \<and> r \<le> 9007199254740991 then Some r else None | None \<Rightarrow> None)))"
proof -
  let ?L = "acStoreLimits cfg" and ?bdy = "routeBody cfg rq"
  have "accepted op (rsAnswer rs)" if ok: "rsStatus rs = 200"
  proof -
    have ends: "opEndpoint op \<notin> {Healthz, Ready, ProbeRoute, NoRoute}" by (cases op) simp_all
    with assms(4) have "rqEndpoint rq \<notin> {Healthz, Ready}" by simp
    from served_route [OF assms(3) ok this assms(6)] obtain b where
      b: "apStore b = apStore a" "fst (routes cfg rq b) = Some (Inr (200, rsAnswer rs))" by blast
    have inv: "storeInv ?L (apStore b)" "wireInv (apStore b)"
      using storeReach_inv [OF assms(1)] storeReach_wire [OF assms(1)] b(1) by simp_all
    have route: "protectedRoute (h cfg) rq ?bdy (authIdentity cfg rq) b = (Inr (rsAnswer rs), b') \<Longrightarrow>
        (\<And>owner. noNul owner \<Longrightarrow> answers ?L (accepted op) (h cfg rq ?bdy owner)) \<Longrightarrow> accepted op (rsAnswer rs)" for h b'
      by (rule protected_accepted [OF _ _ inv])
    have "fst (routeRequest cfg rq ?bdy (authIdentity cfg rq) b) = Inr (200, rsAnswer rs)"
      using b(2) by (simp add: routes_def split: prod.splits)
    then show ?thesis using assms(4) ends
      by (cases "opEndpoint op") (auto simp: routeRequest_def Let_def split: prod.splits sum.splits
          intro: route handlers_accepted [OF assms(5) _ assms(2) refl])
  qed
  moreover have "400 \<le> rsStatus rs" if "rsAnswer rs = Problem c d retry" for c d retry
    using serve_known [OF assms(3)] that by (simp add: knownProblem_def)
  ultimately show ?thesis using decode_problem by (auto simp: accepted_def decodeResponse_def fetched_def)
qed

theorem client_reads_service_witness:
  "\<exists>rs a' x. serveRequest usageConfig usageRequest freshApp = (rs, a') \<and> rsAnswer rs = UsageAnswer x
     \<and> decodeResponse (opValidator OpUsage) (fetched rs) = Inr (answerValue (UsageAnswer x))"
proof -
  obtain rs x a' where s: "serveRequest usageConfig usageRequest freshApp = (rs, a')" "rsStatus rs = 200"
    "rsAnswer rs = UsageAnswer x" using usage_served by blast
  have "limitsSafe (acStoreLimits usageConfig)" by (simp add: usageConfig_def limitsSafe_def LIMITS_def)
  from client_reads_service [OF freshApp_reach this s(1), where op = OpUsage] s show ?thesis
    by (simp add: usageRequest_def carriesBatch_def)
qed

end
