(* ===== verification/Envelope.thy ===== *)
theory Envelope
  imports Canonical Cursor NetAddress
begin

section \<open>The message envelope\<close>

text \<open>
  \<open>src/envelope-runtime.js\<close>: the body a client prepares and reads. \<open>extractEncryptedMessage\<close> is the
  client's own check of a body, beside the service's \<open>validateEncryptedBody\<close>. The wallet's cipher and
  the SDK's \<open>stringifyBRC100\<close> and base64 functions are parameters; \<open>TextDecoder\<close> with \<open>fatal\<close> is the
  strict UTF-8 decoder, which also drops one leading byte order mark.
\<close>

record envelope_env =
  evStringify :: "jsval \<Rightarrow> jsstr"
  evToBase64 :: "byte list \<Rightarrow> jsstr"
  evToArray :: "jsstr \<Rightarrow> byte list"
  evEncrypt :: "jsstr \<Rightarrow> byte list \<Rightarrow> byte list result"
  evDecrypt :: "jsstr \<Rightarrow> byte list \<Rightarrow> byte list result"

record prepared_body =
  peBody :: jsstr
  pePlaintext :: jsstr
  peCiphertext :: "byte list"
  peEncrypted :: jsstr

definition bodyShapeError :: jserr where
  "bodyShapeError = type_error ''MessageBox body must be exactly { encryptedMessage: canonical base64 }''"

definition plaintextText :: "envelope_env \<Rightarrow> jsval \<Rightarrow> jsstr result" where
  "plaintextText E v = (case v of
      Str s \<Rightarrow> Inr s
    | Obj ps \<Rightarrow> Inr (evStringify E v)
    | Arr vs \<Rightarrow> Inr (evStringify E v)
    | _ \<Rightarrow> Inl (type_error ''MessageBox plaintext must be a string or object''))"

definition prepareEncryptedBody :: "envelope_env \<Rightarrow> jsval \<Rightarrow> jsval \<Rightarrow> prepared_body result" where
  "prepareEncryptedBody E plaintext counterparty =
     andThen (case counterparty of
        Str c \<Rightarrow> if jsTrim c = [] then Inl (type_error ''MessageBox counterparty is required'') else Inr c
      | _ \<Rightarrow> Inl (type_error ''MessageBox counterparty is required'')) (\<lambda>c.
     andThen (plaintextText E plaintext) (\<lambda>t.
     andThen (evEncrypt E c (utf8Bytes t)) (\<lambda>ciphertext.
     if ciphertext = [] then Inl (JsErr PlainError None ''Wallet returned empty ciphertext'')
     else let encoded = evToBase64 E ciphertext in
       Inr \<lparr>peBody = evStringify E (Obj [(js ''encryptedMessage'', Str encoded)]), pePlaintext = t,
            peCiphertext = ciphertext, peEncrypted = encoded\<rparr>)))"

definition parseJsonBody :: "jsval \<Rightarrow> jsval result" where
  "parseJsonBody v = (case v of
      Str s \<Rightarrow> (case jsonParse s of None \<Rightarrow> Inl (type_error ''MessageBox body is not valid JSON'') | Some w \<Rightarrow> Inr w)
    | Obj ps \<Rightarrow> Inr (Obj ps)
    | _ \<Rightarrow> Inl (type_error ''MessageBox body must be a JSON object''))"

text \<open>A wrapper with the one member \<open>message\<close> is opened once.\<close>

definition unwrapMessage :: "jsval \<Rightarrow> jsval result" where
  "unwrapMessage parsed = (case parsed of
      Obj [(k, v)] \<Rightarrow>
        if k = js ''message''
        then (case v of
            Str s \<Rightarrow> andThen (assertNoDuplicateTopLevelKeys v) (\<lambda>_. parseJsonBody v)
          | _ \<Rightarrow> Inl bodyShapeError)
        else Inr parsed
    | _ \<Rightarrow> Inr parsed)"

definition extractEncryptedMessage :: "jsval \<Rightarrow> bool \<Rightarrow> jsstr result" where
  "extractEncryptedMessage encrypted allowPaymentFreeTransportWrapper =
     andThen (case encrypted of Str s \<Rightarrow> assertNoDuplicateTopLevelKeys encrypted | _ \<Rightarrow> Inr ()) (\<lambda>_.
     andThen (parseJsonBody encrypted) (\<lambda>parsed.
     andThen (if allowPaymentFreeTransportWrapper then unwrapMessage parsed else Inr parsed) (\<lambda>parsed.
     (case parsed of
        Obj ps \<Rightarrow> if length ps \<noteq> 1 \<or> \<not> isCanonicalBase64 (field parsed ''encryptedMessage'') then Inl bodyShapeError
          else (case field parsed ''encryptedMessage'' of Str e \<Rightarrow> Inr e | _ \<Rightarrow> Inl bodyShapeError)
      | _ \<Rightarrow> Inl bodyShapeError))))"

definition textDecoder :: "byte list \<Rightarrow> jsstr result" where
  "textDecoder bs = (case utf8Decode bs of
      None \<Rightarrow> Inl (type_error ''The encoded data was not valid for encoding utf-8'')
    | Some s \<Rightarrow> Inr (case s of u # t \<Rightarrow> if u = 0xFEFF then t else s | [] \<Rightarrow> []))"

definition decryptArchivedBody :: "envelope_env \<Rightarrow> jsval \<Rightarrow> jsstr \<Rightarrow> bool \<Rightarrow> jsstr result" where
  "decryptArchivedBody E encrypted counterparty wrapper =
     andThen (extractEncryptedMessage encrypted wrapper) (\<lambda>e.
     andThen (evDecrypt E counterparty (evToArray E e)) textDecoder)"

subsection \<open>What is relied on of the wallet and the SDK\<close>

text \<open>Decryption inverts encryption for the same counterparty; the base64 functions are the standard
  ones; the serialised envelope is the JSON text of the one-member object.\<close>

definition walletInverts :: "envelope_env \<Rightarrow> bool" where
  "walletInverts E \<longleftrightarrow> (\<forall>c bs cs. evEncrypt E c bs = Inr cs \<longrightarrow> evDecrypt E c cs = Inr bs)"

definition sdkCodecs :: "envelope_env \<Rightarrow> bool" where
  "sdkCodecs E \<longleftrightarrow> (\<forall>bs. evToBase64 E bs = base64Encode bs) \<and> (\<forall>bs. evToArray E (base64Encode bs) = bs)
     \<and> (\<forall>e. base64Re e \<longrightarrow> evStringify E (Obj [(js ''encryptedMessage'', Str e)])
          = stringify (JObj [(js ''encryptedMessage'', JStr e)]))"

subsection \<open>The client's check and the service's check agree\<close>

lemma single_member: "length ps = 1 \<and> getProp ps k = v \<and> v \<noteq> Undefined \<longleftrightarrow> v \<noteq> Undefined \<and> ps = [(k, v)]"
  by (cases ps) (auto simp: getProp_def split: if_splits)

lemma extract_Inr:
  "extractEncryptedMessage (Str s) False = Inr e \<longleftrightarrow>
     assertNoDuplicateTopLevelKeys (Str s) = Inr () \<and> jsonParse s = Some (Obj [(js ''encryptedMessage'', Str e)])
     \<and> isCanonicalBase64 (Str e)"
  (is "?l \<longleftrightarrow> ?r")
proof
  assume ?l
  then obtain ps where ps: "jsonParse s = Some (Obj ps)" "length ps = 1" "getProp ps (js ''encryptedMessage'') = Str e"
      "assertNoDuplicateTopLevelKeys (Str s) = Inr ()" "isCanonicalBase64 (Str e)"
    by (auto simp: extractEncryptedMessage_def result_simps parseJsonBody_def field_def split: option.splits jsval.splits if_splits)
  then have "ps = [(js ''encryptedMessage'', Str e)]" using single_member by blast
  with ps show ?r by simp
next
  assume ?r
  then show ?l by (simp add: extractEncryptedMessage_def parseJsonBody_def field_def getProp_def)
qed

lemma client_same:
  "validateEncryptedBody (Str s) = Inr e \<longleftrightarrow>
     extractEncryptedMessage (Str s) False = Inr e \<and> \<not> hasInvalidUnicode s \<and> utf8ByteLength s \<le> MAX_BODY_BYTES"
  (is "?l \<longleftrightarrow> ?r")
proof
  assume l: ?l
  then have "assertNoDuplicateTopLevelKeys (Str s) = Inr ()"
    by (auto simp: validateEncryptedBody_def result_simps split: if_splits)
  then show ?r using validateEncryptedBody_Inr [OF l] by (auto simp: extract_Inr)
next
  assume ?r
  then show ?l by (simp add: extract_Inr validateEncryptedBody_def parseJsonObject_def getProp_def)
qed

text \<open>C32: The client and the service accept the same bodies: the service's check of a body succeeds with
  a ciphertext exactly when the client's check succeeds with the same one, the text is well-formed
  Unicode and its UTF-8 form is at most 1 MiB. So a body a client sent can be archived unless it is
  too large, and a body the service returns can be opened.\<close>

theorem client_service_same_bodies:
  "validateEncryptedBody (Str s) = Inr e \<longleftrightarrow>
     extractEncryptedMessage (Str s) False = Inr e \<and> \<not> hasInvalidUnicode s \<and> utf8ByteLength s \<le> MAX_BODY_BYTES"
  by (rule client_same)

subsection \<open>Preparing and reading a body\<close>

lemma prepared:
  assumes "sdkCodecs E" "prepareEncryptedBody E (Str t) (Str c) = Inr p"
  shows "\<exists>cs. evEncrypt E c (utf8Bytes t) = Inr cs \<and> cs \<noteq> [] \<and> peBody p = encryptedBody cs \<and> peEncrypted p = base64Encode cs"
  using assms by (auto simp: prepareEncryptedBody_def plaintextText_def sdkCodecs_def result_simps Let_def encryptedBody_def
      base64Re_encode split: if_splits)

lemma extract_encryptedBody:
  assumes "bs \<noteq> []"
  shows "extractEncryptedMessage (Str (encryptedBody bs)) False = Inr (base64Encode bs)"
proof -
  have "assertNoDuplicateTopLevelKeys (Str (encryptedBody bs)) = Inr ()"
    unfolding encryptedBody_def by (subst assertNoDuplicate_stringify) simp_all
  moreover have "jsonParse (encryptedBody bs) = Some (Obj [(js ''encryptedMessage'', Str (base64Encode bs))])"
    using jsonParse_stringify [of "JObj [(js ''encryptedMessage'', JStr (base64Encode bs))]"] by (simp add: encryptedBody_def)
  moreover have "isCanonicalBase64 (Str (base64Encode bs))" using assms by (auto simp: isCanonicalBase64_Str)
  ultimately show ?thesis by (simp add: extract_Inr)
qed

text \<open>C31: What a client encrypts it can read back, byte order mark aside: for a wallet whose decryption
  inverts its encryption, the body prepared from a well-formed text decrypts to that text, or, when
  the text starts with U+FEFF, to the text without it. The prepared body passes the service's check
  whenever it fits in 1 MiB.\<close>

theorem envelope_roundtrip:
  assumes "walletInverts E" "sdkCodecs E" "\<not> hasInvalidUnicode t" "prepareEncryptedBody E (Str t) (Str c) = Inr p"
  shows "decryptArchivedBody E (Str (peBody p)) c False = Inr (if t \<noteq> [] \<and> hd t = 0xFEFF then tl t else t)
    \<and> (utf8ByteLength (peBody p) \<le> MAX_BODY_BYTES \<longrightarrow> validateEncryptedBody (Str (peBody p)) = Inr (peEncrypted p))"
proof (intro conjI impI)
  obtain cs where cs: "evEncrypt E c (utf8Bytes t) = Inr cs" "cs \<noteq> []" "peBody p = encryptedBody cs" "peEncrypted p = base64Encode cs"
    using prepared [OF assms(2,4)] by blast
  have "evDecrypt E c cs = Inr (utf8Bytes t)" using assms(1) cs(1) by (simp add: walletInverts_def)
  moreover have "evToArray E (base64Encode cs) = cs" using assms(2) by (simp add: sdkCodecs_def)
  moreover have "utf8Decode (utf8Bytes t) = Some t" using assms(3) by (rule utf8Decode_utf8Bytes)
  ultimately show "decryptArchivedBody E (Str (peBody p)) c False = Inr (if t \<noteq> [] \<and> hd t = 0xFEFF then tl t else t)"
    by (cases t) (simp_all add: decryptArchivedBody_def cs extract_encryptedBody textDecoder_def)
  assume "utf8ByteLength (peBody p) \<le> MAX_BODY_BYTES"
  then show "validateEncryptedBody (Str (peBody p)) = Inr (peEncrypted p)" by (simp add: client_same cs extract_encryptedBody encryptedBody_valid)
qed

text \<open>A wallet whose cipher reverses the bytes, and the codecs of the model.\<close>

definition mirrorEnv :: envelope_env where
  "mirrorEnv = \<lparr>evStringify = (\<lambda>v. case v of Obj [(k, Str e)] \<Rightarrow> stringify (JObj [(k, JStr e)]) | _ \<Rightarrow> []),
     evToBase64 = base64Encode, evToArray = base64Decode,
     evEncrypt = (\<lambda>c bs. Inr (List.rev bs)), evDecrypt = (\<lambda>c bs. Inr (List.rev bs))\<rparr>"

lemma mirrorEnv_laws: "walletInverts mirrorEnv" "sdkCodecs mirrorEnv"
  by (auto simp: walletInverts_def sdkCodecs_def mirrorEnv_def base64Decode_encode comp_def)

theorem envelope_roundtrip_witness:
  "decryptArchivedBody mirrorEnv (Str (encryptedBody [0x68, 0xBF, 0xBB, 0xEF])) (js ''bob'') False = Inr (js ''h'')"
proof -
  let ?t = "[0xFEFF, 0x68] :: jsstr"
  have v: "\<not> hasInvalidUnicode ?t" by (simp add: hasInvalidUnicode_def is_high_def is_low_def)
  have trim: "jsTrim (js ''bob'') \<noteq> []" by (simp add: jsTrim_def js_def isTrimmed_def)
  have "utf8Bytes ?t = [0xEF, 0xBB, 0xBF, 0x68]"
    by (simp add: utf8Bytes_def utf8Scalar_def is_high_def is_low_def)
  then have "\<exists>p. prepareEncryptedBody mirrorEnv (Str ?t) (Str (js ''bob'')) = Inr p
      \<and> peBody p = encryptedBody [0x68, 0xBF, 0xBB, 0xEF]"
    by (simp add: prepareEncryptedBody_def plaintextText_def mirrorEnv_def encryptedBody_def trim
        Let_def del: base64Encode.simps stringify.simps)
  then obtain p where p: "prepareEncryptedBody mirrorEnv (Str ?t) (Str (js ''bob'')) = Inr p"
      "peBody p = encryptedBody [0x68, 0xBF, 0xBB, 0xEF]" by blast
  from envelope_roundtrip [OF mirrorEnv_laws v p(1)] show ?thesis by (simp add: p(2) js_def)
qed

end
