(* ===== verification/Outbound.thy ===== *)
theory Outbound
  imports Transport Envelope
begin

section \<open>Sending a message at most once\<close>

text \<open>
  \<open>src/outbound-runtime.js\<close>: an attempt is reserved in the caller's store under its canonical key,
  and only the run whose reservation created it sends. The attempt store is a parameter, whose
  answers may depend on every call made before.
\<close>

record attempt_store =
  asClaims :: bool
  asPreflight :: bool
  asClaim :: "client_call list \<Rightarrow> attempt \<Rightarrow> gerr + jsval"
  asSetState :: "client_call list \<Rightarrow> jsstr \<Rightarrow> string \<Rightarrow> gerr + jsval"
  asRecord :: "client_call list \<Rightarrow> jsstr \<Rightarrow> string \<Rightarrow> gerr + jsval"

record send_options =
  soOwner :: jsval
  soRecipient :: jsval
  soMessageBox :: jsval
  soMessageId :: jsval
  soBody :: jsval
  soHost :: jsval
  soCheckPermissions :: jsval

record send_result =
  srState :: string
  srAttempted :: bool
  srRecordKey :: "jsstr option"
  srErrorCode :: string
  srReused :: bool
  srPersisted :: bool

definition isNonEmptyString :: "jsval \<Rightarrow> bool" where
  "isNonEmptyString v = (case v of Str s \<Rightarrow> jsTrim s \<noteq> [] | _ \<Rightarrow> False)"

definition ofResult :: "'a result \<Rightarrow> gerr + 'a" where
  "ofResult r = (case r of Inl e \<Rightarrow> Inl (Thrown e) | Inr x \<Rightarrow> Inr x)"

subsection \<open>The capability\<close>

text \<open>The owner's key is asked for once: the settled promise is kept.\<close>

definition resolveIdentity :: "transport_env \<Rightarrow> jsstr guarded" where
  "resolveIdentity E = actBind (getIdentityKey E) (\<lambda>k.
     actPure (if isIdentityKey k then Inr (strOf k) else Inl (thrown ''Capability wallet returned an invalid identity key'')))"

definition getOwnerIdentityKey :: "transport_env \<Rightarrow> (gerr + jsstr) option \<Rightarrow> (gerr + jsstr) guarded" where
  "getOwnerIdentityKey E identityPromise = (case identityPromise of
      Some r \<Rightarrow> actPure (Inr r)
    | None \<Rightarrow> actTry (actBind (resolveIdentity E) (\<lambda>k. actPure (Inr (Inr k)))) (\<lambda>e. actPure (Inr (Inl e))))"

subsection \<open>The attempt store\<close>

definition sameAttempt :: "jsval \<Rightarrow> attempt \<Rightarrow> bool" where
  "sameAttempt existing a \<longleftrightarrow> isRecord existing
     \<and> field existing ''recordKey'' = Str (atRecordKey a) \<and> field existing ''ownerIdentityKey'' = Str (atOwner a)
     \<and> field existing ''direction'' = Str (js ''outbound'') \<and> field existing ''messageBox'' = Str (atMessageBox a)
     \<and> field existing ''sender'' = Str (atOwner a) \<and> field existing ''recipient'' = Str (atRecipient a)
     \<and> field existing ''messageId'' = Str (atMessageId a) \<and> field existing ''body'' = Str (atBody a)
     \<and> field existing ''bodyHash'' = Str (atBodyHash a) \<and> field existing ''host'' = Str (atHost a)"

definition existingStateResult :: "jsval \<Rightarrow> string" where
  "existingStateResult existing =
     (if field existing ''state'' = Str (js ''accepted'') then ''accepted''
      else if field existing ''state'' = Str (js ''failed'') then ''failed'' else ''unknown'')"

text \<open>A call of the store whose failure counts as the answer \<open>false\<close>.\<close>

definition confirmed :: "jsval guarded \<Rightarrow> bool guarded" where
  "confirmed m = actTry (actBind m (\<lambda>v. actPure (Inr (v = Boolean True)))) (\<lambda>e. actPure (Inr False))"

definition recordPreflightFailure :: "attempt_store \<Rightarrow> jsstr option \<Rightarrow> string \<Rightarrow> bool guarded" where
  "recordPreflightFailure S key errorCode = (case key of
      None \<Rightarrow> actPure (Inr False)
    | Some k \<Rightarrow> if \<not> asPreflight S then actPure (Inr False)
        else confirmed (actCall (RecordPreflightFailure k errorCode) (\<lambda>h. asRecord S h k errorCode)))"

definition persistOutcome :: "attempt_store \<Rightarrow> jsstr \<Rightarrow> string \<Rightarrow> bool guarded" where
  "persistOutcome S k st = confirmed (actCall (SetState k st) (\<lambda>h. asSetState S h k st))"

subsection \<open>The checks before the reservation\<close>

definition canKey :: "send_options \<Rightarrow> bool" where
  "canKey o1 \<longleftrightarrow> isIdentityKey (soOwner o1) \<and> isIdentityKey (soRecipient o1) \<and> isNonEmptyString (soMessageBox o1)
     \<and> isNonEmptyString (soMessageId o1)"

definition recordKeyOf :: "send_options \<Rightarrow> jsstr option result" where
  "recordKeyOf o1 = (if canKey o1
     then andThen (canonicalRecordKey (soOwner o1) (Str (js ''outbound'')) (soMessageBox o1) (soOwner o1) (soRecipient o1) (soMessageId o1))
       (\<lambda>k. Inr (Some k))
     else Inr None)"

text \<open>The option's default.\<close>

definition checksOf :: "send_options \<Rightarrow> jsval" where
  "checksOf o1 = (if soCheckPermissions o1 = Undefined then Boolean False else soCheckPermissions o1)"

definition validationCode :: "send_options \<Rightarrow> string option" where
  "validationCode o1 =
     (if \<not> isNonEmptyString (soOwner o1) \<or> \<not> isIdentityKey (soOwner o1) then Some ''INVALID_OWNER_IDENTITY''
      else if \<not> isIdentityKey (soRecipient o1) then Some ''INVALID_RECIPIENT_IDENTITY''
      else if \<not> isNonEmptyString (soMessageBox o1) then Some ''INVALID_MESSAGE_BOX''
      else if \<not> isNonEmptyString (soMessageId o1) then Some ''INVALID_MESSAGE_ID''
      else if (case soBody o1 of Str _ \<Rightarrow> False | _ \<Rightarrow> True) then Some ''INVALID_ENCRYPTED_BODY''
      else if \<not> isNonEmptyString (soHost o1) then Some ''INVALID_MESSAGE_BOX_HOST''
      else if (case checksOf o1 of Boolean _ \<Rightarrow> False | _ \<Rightarrow> True) then Some ''INVALID_PERMISSION_POLICY''
      else (case extractEncryptedMessage (soBody o1) False of Inl e \<Rightarrow> Some ''INVALID_ENCRYPTED_BODY'' | Inr m \<Rightarrow> None))"

definition attemptOf :: "send_options \<Rightarrow> jsstr \<Rightarrow> jsstr \<Rightarrow> attempt" where
  "attemptOf o1 key hash = \<lparr>atRecordKey = key, atOwner = strOf (soOwner o1), atMessageBox = strOf (soMessageBox o1),
     atRecipient = strOf (soRecipient o1), atMessageId = strOf (soMessageId o1), atBody = strOf (soBody o1), atBodyHash = hash,
     atHost = strOf (soHost o1)\<rparr>"

definition notSent :: "string \<Rightarrow> jsstr option \<Rightarrow> string \<Rightarrow> bool \<Rightarrow> bool \<Rightarrow> send_result" where
  "notSent st key code reused persisted = \<lparr>srState = st, srAttempted = False, srRecordKey = key, srErrorCode = code,
     srReused = reused, srPersisted = persisted\<rparr>"

definition sent :: "string \<Rightarrow> jsstr \<Rightarrow> string \<Rightarrow> bool \<Rightarrow> send_result" where
  "sent st key code persisted = \<lparr>srState = st, srAttempted = True, srRecordKey = Some key, srErrorCode = code,
     srReused = False, srPersisted = persisted\<rparr>"

subsection \<open>Reservation and sending\<close>

text \<open>The claim did not create the attempt: it exists already, or the store answered something else.\<close>

definition notCreated :: "attempt_store \<Rightarrow> attempt \<Rightarrow> jsval \<Rightarrow> send_result guarded" where
  "notCreated S a claim =
     (let key = atRecordKey a; existing = field claim ''record'' in
      if field claim ''created'' = Boolean False \<and> field claim ''existingUnobserved'' = Boolean True
      then actPure (Inr (notSent ''unknown'' (Some key) '''' True False))
      else if \<not> sameAttempt existing a then actPure (Inr (notSent ''failed'' (Some key) ''ERR_IMMUTABLE_CONFLICT'' False False))
      else if field existing ''state'' = Str (js ''prepared'')
      then actBind (persistOutcome S key ''unknown'') (\<lambda>p. actPure (Inr (notSent ''unknown'' (Some key) '''' True p)))
      else actPure (Inr (notSent (existingStateResult existing) (Some key) '''' True
        (field existing ''state'' = Str (js (existingStateResult existing))))))"

definition sendParams :: "attempt \<Rightarrow> jsval" where
  "sendParams a = Obj [(js ''recipient'', Str (atRecipient a)), (js ''messageBox'', Str (atMessageBox a)),
     (js ''messageId'', Str (atMessageId a)), (js ''body'', Str (atBody a)), (js ''skipEncryption'', Boolean True),
     (js ''checkPermissions'', Boolean False)]"

definition dispatch :: "transport_env \<Rightarrow> message_box_client \<Rightarrow> attempt_store \<Rightarrow> attempt \<Rightarrow> send_result guarded" where
  "dispatch E c S a =
     (let key = atRecordKey a in
      actTry
        (actBind (sendMessage E c (sendParams a) (Str (atHost a))) (\<lambda>r.
         if field r ''status'' = Str (js ''success'') \<and> field r ''messageId'' = Str (atMessageId a)
         then actBind (persistOutcome S key ''accepted'') (\<lambda>p.
           actPure (Inr (sent (if p then ''accepted'' else ''unknown'') key (if p then '''' else ''OUTCOME_PERSISTENCE_FAILED'') p)))
         else actBind (persistOutcome S key ''unknown'') (\<lambda>p.
           actPure (Inr (sent ''unknown'' key ''AMBIGUOUS_SEND_RESPONSE'' p)))))
        (\<lambda>e. if e = GuardedPayment
           then actBind (persistOutcome S key ''failed'') (\<lambda>p. actPure (Inr (sent ''failed'' key ''ERR_PAID_TRANSPORT_UNSUPPORTED'' p)))
           else actBind (persistOutcome S key ''unknown'') (\<lambda>p. actPure (Inr (sent ''unknown'' key ''AMBIGUOUS_SEND_OUTCOME'' p)))))"

definition reserveAndSend :: "transport_env \<Rightarrow> message_box_client \<Rightarrow> attempt_store \<Rightarrow> attempt \<Rightarrow> send_result guarded" where
  "reserveAndSend E c S a = (\<lambda>h. case asClaim S h a of
      Inl e \<Rightarrow> (Inr (notSent ''failed'' (Some (atRecordKey a)) ''ATTEMPT_RESERVATION_FAILED'' False False), h @ [ClaimPrepared a])
    | Inr claim \<Rightarrow>
        if field claim ''created'' = Boolean True then dispatch E c S a (h @ [ClaimPrepared a])
        else notCreated S a claim (h @ [ClaimPrepared a]))"

definition preparedSend :: "transport_env \<Rightarrow> message_box_client \<Rightarrow> attempt_store \<Rightarrow> jsstr \<Rightarrow> send_options \<Rightarrow> send_result guarded" where
  "preparedSend E c S owner o1 =
     actBind (actPure (require (soOwner o1 = Str owner) (thrown ''ownerIdentityKey must equal the capability wallet identity''))) (\<lambda>_.
     actBind (actPure (require (case soHost o1 of Str s \<Rightarrow> s = mbHost c | _ \<Rightarrow> True)
        (thrown ''Outbound Message Box send must use the capability primary origin''))) (\<lambda>_.
     actBind (actPure (ofResult (recordKeyOf o1))) (\<lambda>key.
     if checksOf o1 = Boolean True
     then actPure (Inr (notSent ''failed'' key ''ERR_PAID_TRANSPORT_UNSUPPORTED'' False False))
     else (case validationCode o1 of
        Some code \<Rightarrow> actBind (recordPreflightFailure S key code) (\<lambda>p. actPure (Inr (notSent ''failed'' key code False p)))
      | None \<Rightarrow>
          if \<not> asClaims S
          then actBind (recordPreflightFailure S key ''HTTP_SEND_OR_ATTEMPT_STORE_UNAVAILABLE'') (\<lambda>p.
            actPure (Inr (notSent ''failed'' key ''HTTP_SEND_OR_ATTEMPT_STORE_UNAVAILABLE'' False p)))
          else (case key of
              None \<Rightarrow> actPure (Inl (thrown ''no record key''))
            | Some k \<Rightarrow> actBind (actPure (ofResult (bodyHash (soBody o1)))) (\<lambda>hash. reserveAndSend E c S (attemptOf o1 k hash)))))))"

text \<open>One call of the helper with a capability whose promise may already be settled.\<close>

definition sendPreparedHttpOnce ::
  "transport_env \<Rightarrow> message_box_client \<Rightarrow> attempt_store \<Rightarrow> (gerr + jsstr) option \<Rightarrow> send_options \<Rightarrow> send_result guarded" where
  "sendPreparedHttpOnce E c S cap o1 =
     actBind (getOwnerIdentityKey E cap) (\<lambda>r.
     (case r of Inl e \<Rightarrow> actPure (Inl e) | Inr owner \<Rightarrow> preparedSend E c S owner o1))"

subsection \<open>What a send may do\<close>

definition created :: "attempt_store \<Rightarrow> client_call list \<Rightarrow> attempt \<Rightarrow> bool" where
  "created S h a \<longleftrightarrow> (\<exists>v. asClaim S h a = Inr v \<and> field v ''created'' = Boolean True)"

definition keyed :: "jsstr \<Rightarrow> attempt \<Rightarrow> bool" where
  "keyed owner a \<longleftrightarrow> canonicalRecordKey (Str owner) (Str (js ''outbound'')) (Str (atMessageBox a)) (Str owner)
     (Str (atRecipient a)) (Str (atMessageId a)) = Inr (atRecordKey a)"

text \<open>The message goes out right after the claim that created its attempt, with the fields its key binds.\<close>

definition sendPolicy :: "attempt_store \<Rightarrow> jsstr \<Rightarrow> client_call list \<Rightarrow> client_call \<Rightarrow> bool" where
  "sendPolicy S owner h call = (case call of
      SdkSend p d \<Rightarrow> (\<exists>g a. h = g @ [ClaimPrepared a] \<and> created S g a \<and> keyed owner a \<and> p = sendParams a)
    | _ \<Rightarrow> True)"

lemma facadeCall_sends: "obeys (sendPolicy S owner) (facadeCall E name args)"
  unfolding facadeCall_def by (intro call_rules obeys_call) (auto simp: sendPolicy_def)

lemma sdkCalls_sends: "obeys (sendPolicy S owner) (sdkCalls E cs)"
  by (induction cs rule: sdkCalls.induct) (auto intro!: obeys_bind obeys_try facadeCall_sends obeys_pure)

lemma sdkRun_sends: "(\<And>h. Q h \<Longrightarrow> sendPolicy S owner h call) \<Longrightarrow> obeysWhen Q (sendPolicy S owner) (sdkRun E call outcome)"
  unfolding sdkRun_def
proof (rule obeysWhen_call)
  have "obeys (sendPolicy S owner) (\<lambda>h. sdkCalls E (teSdkCalls E h) h)" using sdkCalls_sends by (simp add: obeys_def)
  moreover have "obeys (sendPolicy S owner) (\<lambda>h. (outcome h, h))" by (simp add: obeys_def calls_none)
  ultimately show "obeys (sendPolicy S owner) (actBind (\<lambda>h. sdkCalls E (teSdkCalls E h) h) (\<lambda>_ h. (outcome h, h)))"
    by (intro obeys_bind)
qed

lemma confirmed_sends: "(\<And>h. sendPolicy S owner h call) \<Longrightarrow> obeys (sendPolicy S owner) (confirmed (actCall call a))"
  unfolding confirmed_def by (intro obeys_try obeys_bind obeys_call obeys_pure)

lemma persistOutcome_sends: "obeys (sendPolicy S owner) (persistOutcome S k st)"
  unfolding persistOutcome_def by (rule confirmed_sends) (simp add: sendPolicy_def)

lemma sendParams_checked: "setProp (js ''checkPermissions'') (Boolean False) (case sendParams a of Obj ps \<Rightarrow> ps | _ \<Rightarrow> []) =
  (case sendParams a of Obj ps \<Rightarrow> ps | _ \<Rightarrow> [])"
  by (simp add: sendParams_def js_def)

lemma sendMessage_sends:
  "obeysWhen (\<lambda>h. \<exists>g. h = g @ [ClaimPrepared a] \<and> created S g a \<and> keyed owner a) (sendPolicy S owner)
     (sendMessage E c (sendParams a) host)"
  unfolding sendMessage_def Let_def sendParams_checked
  by (intro obeysWhen_check obeysWhen_rethrow sdkRun_sends) (auto simp: sendPolicy_def sendParams_def)

lemma dispatch_sends:
  "obeysWhen (\<lambda>h. \<exists>g. h = g @ [ClaimPrepared a] \<and> created S g a \<and> keyed owner a) (sendPolicy S owner) (dispatch E c S a)"
  unfolding dispatch_def Let_def
  by (intro obeysWhen_try obeysWhen_bind sendMessage_sends obeys_if obeys_bind persistOutcome_sends obeys_pure)

lemma notCreated_sends: "obeys (sendPolicy S owner) (notCreated S a claim)"
  unfolding notCreated_def Let_def by (intro obeys_if obeys_bind persistOutcome_sends obeys_pure)

lemma reserveAndSend_sends:
  assumes "keyed owner a"
  shows "obeys (sendPolicy S owner) (reserveAndSend E c S a)"
  unfolding obeys_def
proof
  fix h
  have c: "callsFrom (sendPolicy S owner) h (h @ [ClaimPrepared a])"
    by (intro calls_more calls_none) (simp add: sendPolicy_def)
  show "callsFrom (sendPolicy S owner) h (snd (reserveAndSend E c S a h))"
  proof (cases "asClaim S h a")
    case (Inr claim)
    have "field claim ''created'' = Boolean True \<Longrightarrow>
        callsFrom (sendPolicy S owner) (h @ [ClaimPrepared a]) (snd (dispatch E c S a (h @ [ClaimPrepared a])))"
      using dispatch_sends [of a S owner E c] assms Inr by (auto simp: obeysWhen_def created_def)
    moreover have "callsFrom (sendPolicy S owner) (h @ [ClaimPrepared a]) (snd (notCreated S a claim (h @ [ClaimPrepared a])))"
      using notCreated_sends by (simp add: obeys_def)
    ultimately show ?thesis using Inr callsFrom_trans [OF _ c] by (simp add: reserveAndSend_def)
  qed (use c in \<open>simp add: reserveAndSend_def\<close>)
qed

lemma recordKeyOf_keyed:
  "ofResult (recordKeyOf o1) = Inr (Some k) \<Longrightarrow> soOwner o1 = Str owner \<Longrightarrow> keyed owner (attemptOf o1 k hash)"
  by (auto simp: ofResult_def recordKeyOf_def keyed_def attemptOf_def canKey_def isIdentityKey_def isNonEmptyString_def
      strOf_def result_simps split: sum.splits if_splits jsval.splits)

lemma recordPreflightFailure_sends: "obeys (sendPolicy S owner) (recordPreflightFailure S key code)"
  unfolding recordPreflightFailure_def
  by (cases key) (auto intro!: obeys_pure confirmed_sends obeys_if simp: sendPolicy_def)

lemma preparedSend_sends: "obeys (sendPolicy S owner) (preparedSend E c S owner o1)"
  unfolding preparedSend_def
proof (intro obeys_check obeys_if obeys_pure, goal_cases)
  case (1 x xa key)
  then have o: "soOwner o1 = Str owner" by (simp add: result_simps)
  have f: "obeys (sendPolicy S owner) (actBind (recordPreflightFailure S key code) (\<lambda>p. actPure (g p)))" for code g
    by (intro obeys_bind recordPreflightFailure_sends obeys_pure)
  show ?case
  proof (cases "validationCode o1")
    case None
    have "obeys (sendPolicy S owner) (actBind (actPure (ofResult (bodyHash (soBody o1)))) (\<lambda>hash. reserveAndSend E c S (attemptOf o1 k hash)))"
      if "key = Some k" for k
      using 1(3) o that by (intro obeys_check reserveAndSend_sends recordKeyOf_keyed) simp_all
    then show ?thesis using None f by (cases key) (auto intro: obeys_pure)
  qed (use f in simp)
qed

lemma getIdentityKey_sends: "obeys (sendPolicy S owner) (getIdentityKey E)"
  unfolding getIdentityKey_def obeys_obeysWhen by (rule sdkRun_sends) (simp add: sendPolicy_def)

lemma getOwnerIdentityKey_sends: "obeys (sendPolicy S owner) (getOwnerIdentityKey E cap)"
  unfolding getOwnerIdentityKey_def resolveIdentity_def
  by (cases cap) (auto intro!: obeys_pure obeys_try obeys_bind getIdentityKey_sends)

subsection \<open>Any number of sends with one capability\<close>

fun runSends ::
  "transport_env \<Rightarrow> message_box_client \<Rightarrow> attempt_store \<Rightarrow> (gerr + jsstr) option \<Rightarrow> send_options list \<Rightarrow> client_call list \<Rightarrow> client_call list" where
  "runSends E c S cap [] h = h"
| "runSends E c S cap (o1 # os) h = (case getOwnerIdentityKey E cap h of
      (Inl e, h1) \<Rightarrow> h1
    | (Inr r, h1) \<Rightarrow> runSends E c S (Some r) os (snd (sendPreparedHttpOnce E c S (Some r) o1 h1)))"

lemma settled_sends: "r = Inr owner \<or> r = Inl e \<Longrightarrow> obeys (sendPolicy S owner) (sendPreparedHttpOnce E c S (Some r) o1)"
  unfolding sendPreparedHttpOnce_def getOwnerIdentityKey_def option.case
  by (intro obeys_check) (auto intro: preparedSend_sends obeys_pure)

lemma runSends_settled:
  "r = Inr owner \<or> r = Inl e \<Longrightarrow> callsFrom (sendPolicy S owner) h (runSends E c S (Some r) os h)"
proof (induction os arbitrary: h)
  case (Cons o1 os)
  have "callsFrom (sendPolicy S owner) h (snd (sendPreparedHttpOnce E c S (Some r) o1 h))"
    using settled_sends [OF Cons.prems] by (simp add: obeys_def)
  moreover have "getOwnerIdentityKey E (Some r) h = (Inr r, h)" by (simp add: getOwnerIdentityKey_def actPure_def)
  ultimately show ?case using Cons callsFrom_trans by fastforce
qed (simp add: calls_none)

lemma runSends_sends: "\<exists>owner. callsFrom (sendPolicy S owner) h (runSends E c S cap os h)"
proof (cases os)
  case (Cons o1 os')
  show ?thesis
  proof (cases "getOwnerIdentityKey E cap h")
    case (Pair r h1)
    have h1: "callsFrom (sendPolicy S owner) h h1" for owner
      using obeys_calls [OF getOwnerIdentityKey_sends Pair] .
    show ?thesis
    proof (cases r)
      case (Inr r')
      obtain owner e where r': "r' = Inr owner \<or> r' = Inl e" by (cases r') auto
      have "callsFrom (sendPolicy S owner) h1 (snd (sendPreparedHttpOnce E c S (Some r') o1 h1))"
        using settled_sends [OF r'] by (simp add: obeys_def)
      from callsFrom_trans [OF callsFrom_trans [OF runSends_settled [OF r'] this] h1]
      have "callsFrom (sendPolicy S owner) h (runSends E c S (Some r') os' (snd (sendPreparedHttpOnce E c S (Some r') o1 h1)))" .
      then show ?thesis using Cons Pair Inr by auto
    qed (use Cons Pair h1 in simp)
  qed
qed (auto intro: calls_none)

text \<open>The store creates an attempt for a key at most once, as its interface promises.\<close>

definition storeClaimsOnce :: "attempt_store \<Rightarrow> bool" where
  "storeClaimsOnce S \<longleftrightarrow> (\<forall>g a rest b. created S g a \<and> atRecordKey a = atRecordKey b \<longrightarrow> \<not> created S (g @ ClaimPrepared a # rest) b)"

text \<open>What identifies a message for its recipient.\<close>

definition messageOf :: "jsval \<Rightarrow> jsval \<times> jsval \<times> jsval" where
  "messageOf p = (field p ''recipient'', field p ''messageBox'', field p ''messageId'')"

lemma messageOf_sendParams: "messageOf (sendParams a) = (Str (atRecipient a), Str (atMessageBox a), Str (atMessageId a))"
  by (simp add: messageOf_def sendParams_def field_def getProp_def js_def)

definition carries :: "jsval \<times> jsval \<times> jsval \<Rightarrow> client_call \<Rightarrow> bool" where
  "carries msg call = (case call of SdkSend p d \<Rightarrow> messageOf p = msg | _ \<Rightarrow> False)"

lemma filter_two: "1 < length (filter P xs) \<Longrightarrow> \<exists>a x b y c. xs = a @ x # b @ y # c \<and> P x \<and> P y"
proof -
  assume "1 < length (filter P xs)"
  then obtain x ys where x: "filter P xs = x # ys" "ys \<noteq> []" by (cases "filter P xs") auto
  then obtain y zs where y: "ys = y # zs" by (cases ys) auto
  obtain a r where a: "xs = a @ x # r" "P x" "ys = filter P r" using x(1) by (auto simp: filter_eq_Cons_iff)
  obtain b c where "r = b @ y # c" "P y" using a(3) y by (metis filter_eq_Cons_iff)
  with a show ?thesis by blast
qed

text \<open>C11: A message leaves the client at most once: over any number of sends and retries with one
  capability, whatever the SDK answers, at most one transmission carries a given recipient, message
  box and message id, provided the attempt store creates the reservation of a key at most once.\<close>

theorem message_sent_once:
  assumes "storeClaimsOnce S"
  shows "length (filter (carries msg) (runSends E c S cap os [])) \<le> 1"
proof (rule ccontr)
  assume "\<not> ?thesis"
  then obtain g1 x g2 y g3 where h: "runSends E c S cap os [] = g1 @ x # g2 @ y # g3" "carries msg x" "carries msg y"
    using filter_two [of "carries msg" "runSends E c S cap os []"] by auto
  then obtain p d q e where x: "x = SdkSend p d" "y = SdkSend q e" "messageOf p = messageOf q"
    by (auto simp: carries_def split: client_call.splits)
  obtain owner where P: "callsFrom (sendPolicy S owner) [] (g1 @ SdkSend p d # g2 @ SdkSend q e # g3)"
    using runSends_sends [of S "[]" E c cap os] h(1) x by auto
  obtain u a where a: "g1 = u @ [ClaimPrepared a]" "created S u a" "keyed owner a" "p = sendParams a"
    using callsFrom_split [OF P refl] by (auto simp: sendPolicy_def)
  obtain v b where b: "g1 @ SdkSend p d # g2 = v @ [ClaimPrepared b]" "created S v b" "keyed owner b" "q = sendParams b"
    using callsFrom_split [OF P, of "g1 @ SdkSend p d # g2" "SdkSend q e" g3] by (auto simp: sendPolicy_def)
  have "atRecordKey a = atRecordKey b" using a(3,4) b(3,4) x(3) by (simp add: keyed_def messageOf_sendParams)
  moreover obtain w where "v = u @ ClaimPrepared a # SdkSend p d # w"
    using a(1) b(1) by (cases g2 rule: rev_cases) auto
  ultimately show False using assms a(2) b(2) unfolding storeClaimsOnce_def by blast
qed

subsection \<open>What a result says\<close>

definition isSend :: "client_call \<Rightarrow> bool" where
  "isSend call = (case call of SdkSend p d \<Rightarrow> True | _ \<Rightarrow> False)"

definition sends :: "client_call list \<Rightarrow> nat" where
  "sends h = length (filter isSend h)"

lemma sends_append [simp]: "sends (h @ call # g) = sends h + (if isSend call then 1 else 0) + sends g"
  by (simp add: sends_def)

lemma sends_simps [simp]: "sends [] = 0" "sends (call # g) = (if isSend call then 1 else 0) + sends g"
  by (simp_all add: sends_def)

lemma isSend_simps [simp]: "\<not> isSend (WalletCall n a)" "\<not> isSend KeyDenied" "\<not> isSend SdkIdentity" "\<not> isSend (ClaimPrepared t)"
  "\<not> isSend (SetState k st)" "\<not> isSend (RecordPreflightFailure k code)" "isSend (SdkSend p d)" "\<not> isSend (SdkFetch u config)"
  by (simp_all add: isSend_def)

lemma wp_quiet: "callsAtMost isSend n m \<Longrightarrow> (\<And>r g. sends g \<le> sends h + n \<Longrightarrow> Q r g) \<Longrightarrow> wp m Q h"
  by (simp add: callsAtMost_def wp_def sends_def)

lemma callsAtMost_call: "\<not> p call \<Longrightarrow> callsAtMost p n (actCall call a)"
  by (simp add: callsAtMost_def actCall_def)

lemma facadeCall_quiet: "callsAtMost isSend 0 (facadeCall E name args)"
  unfolding facadeCall_def by (auto intro!: callsAtMost_pure callsAtMost_call)

lemma sdkCalls_quiet: "callsAtMost isSend 0 (sdkCalls E cs)"
proof (induction cs rule: sdkCalls.induct)
  case (2 E name args rest)
  show ?case unfolding sdkCalls.simps
    by (rule callsAtMost_bind [where m = 0 and k = 0], rule callsAtMost_try [where m = 0 and k = 0],
        rule callsAtMost_bind [where m = 0 and k = 0])
      (simp_all add: facadeCall_quiet callsAtMost_pure 2)
qed (simp add: callsAtMost_pure)

lemma sdkRun_sends_at_most: "callsAtMost isSend (if isSend call then 1 else 0) (sdkRun E call outcome)"
proof -
  have "callsAtMost isSend 0 (\<lambda>h. sdkCalls E (teSdkCalls E h) h)"
    using sdkCalls_quiet by (simp add: callsAtMost_def)
  moreover have "callsAtMost isSend 0 (\<lambda>h. (outcome h, h))" by (simp add: callsAtMost_def)
  ultimately have "callsAtMost isSend 0 (actBind (\<lambda>h. sdkCalls E (teSdkCalls E h) h) (\<lambda>_ h. (outcome h, h)))"
    by (intro callsAtMost_bind [where m = 0 and k = 0]) simp_all
  then show ?thesis unfolding sdkRun_def
    by (cases "isSend call") (auto intro: callsAtMost_one callsAtMost_free)
qed

lemma callsAtMost_rethrow:
  "callsAtMost p n m \<Longrightarrow> callsAtMost p n (\<lambda>h. case m h of (Inr x, h') \<Rightarrow> (Inr x, h') | (Inl e, h') \<Rightarrow> (Inl (g h h' e), h'))"
  (is "_ \<Longrightarrow> ?thesis")
proof -
  have "snd (case m h of (Inr x, h') \<Rightarrow> (Inr x, h') | (Inl e, h') \<Rightarrow> (Inl (g h h' e), h')) = snd (m h)" for h
    by (cases "m h"; cases "fst (m h)") simp_all
  then show "callsAtMost p n m \<Longrightarrow> ?thesis" unfolding callsAtMost_def by presburger
qed

lemma sendMessage_at_most: "callsAtMost isSend 1 (sendMessage E c params host)"
  unfolding sendMessage_def Let_def
  by (intro callsAtMost_check callsAtMost_rethrow) (use sdkRun_sends_at_most [of "SdkSend p d" for p d] in simp)

lemma getOwnerIdentityKey_quiet: "callsAtMost isSend 0 (getOwnerIdentityKey E cap)"
proof (cases cap)
  case None
  have "callsAtMost isSend 0 (resolveIdentity E)"
    unfolding resolveIdentity_def getIdentityKey_def
    by (rule callsAtMost_bind [where m = 0 and k = 0])
      (use sdkRun_sends_at_most [of SdkIdentity] in \<open>simp_all add: callsAtMost_pure\<close>)
  then show ?thesis unfolding getOwnerIdentityKey_def None option.case
    by (intro callsAtMost_try [where m = 0 and k = 0] callsAtMost_bind [where m = 0 and k = 0] callsAtMost_pure) simp_all
qed (simp add: getOwnerIdentityKey_def callsAtMost_pure)

lemma wp_confirmed [wp_simps]:
  "wp (persistOutcome S k st) Q h = Q (Inr (asSetState S h k st = Inr (Boolean True))) (h @ [SetState k st])"
  by (simp add: persistOutcome_def confirmed_def wp_simps split: sum.split)

definition truthful :: "attempt_store \<Rightarrow> client_call list \<Rightarrow> gerr + send_result \<Rightarrow> client_call list \<Rightarrow> bool" where
  "truthful S h r h' = (case r of
      Inl e \<Rightarrow> sends h' \<le> sends h
    | Inr x \<Rightarrow> sends h' \<le> sends h + (if srAttempted x then 1 else 0)
        \<and> (srAttempted x \<and> srState x = ''accepted'' \<longrightarrow>
            (\<exists>g k. h' = g @ [SetState k ''accepted''] \<and> srRecordKey x = Some k \<and> asSetState S g k ''accepted'' = Inr (Boolean True)))
        \<and> (srAttempted x \<longrightarrow> srState x \<in> {''accepted'', ''unknown'', ''failed''}
            \<and> (srState x = ''failed'' \<longrightarrow> srErrorCode x = ''ERR_PAID_TRANSPORT_UNSUPPORTED'')))"

lemma dispatch_truthful: "wp (dispatch E c S a) (truthful S h) (h @ [ClaimPrepared a])"
  unfolding dispatch_def Let_def
  by (simp only: wp_simps, rule wp_quiet [OF sendMessage_at_most])
    (auto simp: wp_simps truthful_def sent_def split: sum.split)

lemma notCreated_truthful: "wp (notCreated S a claim) (truthful S h) (h @ [ClaimPrepared a])"
  by (simp add: notCreated_def Let_def wp_simps truthful_def notSent_def existingStateResult_def)

lemma reserveAndSend_truthful: "wp (reserveAndSend E c S a) (truthful S h) h"
proof (cases "asClaim S h a")
  case (Inl e)
  then show ?thesis by (simp add: wp_def reserveAndSend_def truthful_def notSent_def)
next
  case (Inr claim)
  then show ?thesis
    using dispatch_truthful [of E c S a h] notCreated_truthful [of S a claim h]
    by (simp add: wp_def reserveAndSend_def)
qed

lemma recordPreflightFailure_quiet: "callsAtMost isSend 0 (recordPreflightFailure S key code)"
proof (cases key)
  case (Some k)
  have "callsAtMost isSend 0 (confirmed (actCall (RecordPreflightFailure k code) a))" for a
    unfolding confirmed_def
    by (intro callsAtMost_try [where m = 0 and k = 0] callsAtMost_bind [where m = 0 and k = 0] callsAtMost_pure callsAtMost_call) simp_all
  then show ?thesis using Some by (simp add: recordPreflightFailure_def callsAtMost_pure)
qed (simp add: recordPreflightFailure_def callsAtMost_pure)

lemma truthful_later: "truthful S g r h' \<Longrightarrow> sends g \<le> sends h \<Longrightarrow> truthful S h r h'"
  by (auto simp: truthful_def split: sum.splits if_splits)

lemma preflight_truthful:
  "wp (actBind (recordPreflightFailure S key code) (\<lambda>p. actPure (Inr (notSent st key' code' b p)))) (truthful S h) h"
  by (simp only: wp_simps, rule wp_quiet [OF recordPreflightFailure_quiet])
    (auto simp: wp_simps truthful_def notSent_def split: sum.split)

lemma check_truthful:
  "(\<And>x. r = Inr x \<Longrightarrow> wp (f x) (truthful S h) h) \<Longrightarrow> wp (actBind (actPure r) f) (truthful S h) h"
  by (cases r) (simp_all add: wp_simps truthful_def)

lemma preparedSend_truthful: "wp (preparedSend E c S owner o1) (truthful S h) h"
  unfolding preparedSend_def
proof (intro check_truthful, goal_cases)
  case (1 u v key)
  have t: "wp (actPure (Inl e)) (truthful S h) h" "wp (actPure (Inr (notSent st k code b p))) (truthful S h) h" for e st k code b p
    by (simp_all add: wp_simps truthful_def notSent_def)
  have s: "wp (actBind (actPure r) (\<lambda>hash. reserveAndSend E c S (attemptOf o1 k hash))) (truthful S h) h" for r k
    by (intro check_truthful reserveAndSend_truthful)
  show ?case
    unfolding wp_if using t s preflight_truthful
    by (simp only: split: option.split if_split) (simp add: wp_if)
qed

text \<open>C33: The result of a send tells the truth about the wire. When the helper throws or reports that it
  did not attempt a send, nothing was transmitted, and in no case was more than one message; a
  result \<open>accepted\<close> of an attempt was confirmed by the attempt store as the last thing done; and an
  attempt is reported \<open>failed\<close> only for a refused payment, every other trouble being \<open>unknown\<close>.\<close>

theorem send_reports_truth:
  "truthful S h (fst (sendPreparedHttpOnce E c S cap o1 h)) (snd (sendPreparedHttpOnce E c S cap o1 h))"
proof -
  have "wp (sendPreparedHttpOnce E c S cap o1) (truthful S h) h"
    unfolding sendPreparedHttpOnce_def wp_bind
  proof (rule wp_quiet [OF getOwnerIdentityKey_quiet])
    fix r g assume g: "sends g \<le> sends h + 0"
    have p: "wp (preparedSend E c S owner o1) (truthful S h) g" for owner
      by (rule wp_mono [OF preparedSend_truthful]) (use g in \<open>auto intro: truthful_later\<close>)
    show "case r of Inl e \<Rightarrow> truthful S h (Inl e) g
        | Inr x \<Rightarrow> wp (case x of Inl e \<Rightarrow> actPure (Inl e) | Inr owner \<Rightarrow> preparedSend E c S owner o1) (truthful S h) g"
      using g p by (auto simp: wp_simps truthful_def split: sum.split)
  qed
  then show ?thesis by (simp add: wp_def)
qed

text \<open>A store that creates the first attempt of each key, and the platform above with an identity.\<close>

definition onceStore :: attempt_store where
  "onceStore = \<lparr>asClaims = True, asPreflight = False,
     asClaim = (\<lambda>h a. Inr (Obj [(js ''created'', Boolean (\<not> list_ex (\<lambda>c. case c of ClaimPrepared b \<Rightarrow> atRecordKey b = atRecordKey a | _ \<Rightarrow> False) h)),
        (js ''existingUnobserved'', Boolean True)])),
     asSetState = (\<lambda>h k st. Inr (Boolean True)), asRecord = (\<lambda>h k code. Inr (Boolean True))\<rparr>"

lemma onceStore_law: "storeClaimsOnce onceStore"
  by (auto simp: storeClaimsOnce_def created_def onceStore_def field_def getProp_def)

definition sendEnv :: transport_env where
  "sendEnv = paidEnv\<lparr>teSdkCalls := (\<lambda>h. []), teIdentified := (\<lambda>h. Inr (Str m0Owner)),
     teSent := (\<lambda>h. Inr (Obj [(js ''status'', Str (js ''success'')), (js ''messageId'', Str (js ''m0-vector-1''))]))\<rparr>"

definition m0Send :: send_options where
  "m0Send = \<lparr>soOwner = Str m0Owner, soRecipient = Str m0Recipient, soMessageBox = Str (js ''general_inbox''),
     soMessageId = Str (js ''m0-vector-1''), soBody = Str (encryptedBody [1, 2, 3]), soHost = Str paidHost, soCheckPermissions = Undefined\<rparr>"

lemma m0Send_checks:
  "isIdentityKey (Str m0Owner)" "isIdentityKey (Str m0Recipient)" "canKey m0Send" "validationCode m0Send = None"
  "\<exists>k. recordKeyOf m0Send = Inr (Some k)" "\<exists>hash. bodyHash (soBody m0Send) = Inr hash"
proof -
  show i: "isIdentityKey (Str m0Owner)" "isIdentityKey (Str m0Recipient)"
    using m0_fields by (simp_all add: recordFields_def)
  have n: "isNonEmptyString (Str (js ''general_inbox''))" "isNonEmptyString (Str (js ''m0-vector-1''))"
    "isNonEmptyString (Str paidHost)" "isNonEmptyString (Str m0Owner)"
    by (simp_all add: isNonEmptyString_def jsTrim_def js_def isTrimmed_def paidHost_def m0Owner_def)
  then show c: "canKey m0Send" using i by (simp add: canKey_def m0Send_def)
  show "validationCode m0Send = None"
    using i n by (simp add: validationCode_def m0Send_def checksOf_def extract_encryptedBody)
  show "\<exists>k. recordKeyOf m0Send = Inr (Some k)" using c m0_key by (simp add: recordKeyOf_def m0Send_def)
  show "\<exists>hash. bodyHash (soBody m0Send) = Inr hash" by (simp add: bodyHash_def m0Send_def encryptedBody_valid)
qed

theorem message_sent_once_witness:
  "length (filter (carries (Str m0Recipient, Str (js ''general_inbox''), Str (js ''m0-vector-1'')))
     (runSends sendEnv paidClient onceStore None [m0Send, m0Send] [])) \<le> 1"
  by (rule message_sent_once [OF onceStore_law])

end
