(* ===== verification/Runs.thy ===== *)
theory Runs
  imports Calls
begin

section \<open>Policies and results together\<close>

text \<open>
  A judgement on a program that calls other systems: from a history, every call it makes obeys a
  policy, and its result and the history after it satisfy a condition. The rules follow the
  constructs of the programs, as weakest preconditions do, so a loop is proved with an invariant that
  speaks of the calls made so far.
\<close>

definition runs ::
  "('c list \<Rightarrow> 'c \<Rightarrow> bool) \<Rightarrow> ('c, 'e, 'a) act \<Rightarrow> ('e + 'a \<Rightarrow> 'c list \<Rightarrow> bool) \<Rightarrow> 'c list \<Rightarrow> bool" where
  "runs P m Q h \<longleftrightarrow> callsFrom P h (snd (m h)) \<and> Q (fst (m h)) (snd (m h))"

named_theorems runs_rules \<open>rules of the judgement on programs that call\<close>

lemma runs_pure [runs_rules]: "Q r h \<Longrightarrow> runs P (actPure r) Q h"
  by (simp add: runs_def actPure_def calls_none)

lemma runs_call [runs_rules]: "P h c \<Longrightarrow> Q (a h) (h @ [c]) \<Longrightarrow> runs P (actCall c a) Q h"
  by (simp add: runs_def actCall_def calls_none calls_more)

lemma runs_sees [runs_rules]: "runs P (f (p h)) Q h \<Longrightarrow> runs P (actSees p f) Q h"
  by (simp add: runs_def actSees_def)

lemma runs_bind:
  assumes "runs P m (\<lambda>r g. case r of Inl e \<Rightarrow> Q (Inl e) g | Inr x \<Rightarrow> runs P (f x) Q g) h"
  shows "runs P (actBind m f) Q h"
proof (cases "m h")
  case (Pair r g)
  with assms show ?thesis
    by (cases r) (auto simp: runs_def actBind_def intro: callsFrom_trans)
qed

lemma runs_try:
  assumes "runs P m (\<lambda>r g. case r of Inl e \<Rightarrow> runs P (f e) Q g | Inr x \<Rightarrow> Q (Inr x) g) h"
  shows "runs P (actTry m f) Q h"
proof (cases "m h")
  case (Pair r g)
  with assms show ?thesis
    by (cases r) (auto simp: runs_def actTry_def intro: callsFrom_trans)
qed

lemma runs_check [runs_rules]:
  "(\<And>e. r = Inl e \<Longrightarrow> Q (Inl e) h) \<Longrightarrow> (\<And>x. r = Inr x \<Longrightarrow> runs P (f x) Q h) \<Longrightarrow> runs P (actBind (actPure r) f) Q h"
  by (cases r) (auto intro!: runs_bind runs_pure)

lemma runs_if [runs_rules]: "(b \<Longrightarrow> runs P m Q h) \<Longrightarrow> (\<not> b \<Longrightarrow> runs P n Q h) \<Longrightarrow> runs P (if b then m else n) Q h"
  by simp

lemma runs_mono: "runs P m Q h \<Longrightarrow> (\<And>r g. Q r g \<Longrightarrow> R r g) \<Longrightarrow> runs P m R h"
  by (simp add: runs_def)

lemma runs_bindI:
  assumes "runs P m R h" "\<And>e g. R (Inl e) g \<Longrightarrow> Q (Inl e) g" "\<And>x g. R (Inr x) g \<Longrightarrow> runs P (f x) Q g"
  shows "runs P (actBind m f) Q h"
  using assms by (intro runs_bind) (auto elim!: runs_mono split: sum.split)

lemma runs_call_bind [runs_rules]:
  assumes "P h c" "\<And>e. a h = Inl e \<Longrightarrow> Q (Inl e) (h @ [c])" "\<And>x. a h = Inr x \<Longrightarrow> runs P (f x) Q (h @ [c])"
  shows "runs P (actBind (actCall c a) f) Q h"
  using assms by (intro runs_bind runs_call) (auto split: sum.split)

lemma runs_calls: "runs P m Q h \<Longrightarrow> callsFrom P h (snd (m h))"
  by (simp add: runs_def)

lemma runs_result: "runs P m Q h \<Longrightarrow> m h = (r, g) \<Longrightarrow> Q r g"
  by (simp add: runs_def)

end
