(* ===== verification/Inbound.thy ===== *)
theory Inbound
  imports Runs Envelope ServiceInput Config
begin

section \<open>Archiving inbound messages before acknowledging them\<close>

text \<open>
  \<open>src/inbound.ts\<close>: one pass over the configured hosts and message boxes. Each page of messages is
  archived record by record, and only what was archived is acknowledged. The message box client, the
  history client and the abort signal are parameters that may answer anything, depending on every
  call made before.
\<close>

record archive_input =
  aiMessageId :: jsstr
  aiMessageBox :: jsstr
  aiSender :: jsstr
  aiRecipient :: jsstr
  aiBody :: jsstr
  aiBodyHash :: jsstr

datatype inbound_call =
    InIdentity
  | InCapabilities
  | InList jsstr nat nat jsstr
  | InArchive jsstr archive_input jsstr
  | InAcknowledge "jsstr list" jsstr

type_synonym 'a inbound_act = "(inbound_call, jserr, 'a) act"

record item_outcome =
  ioIndex :: jsval
  ioRecordKey :: jsval
  ioOutcome :: jsval
  ioErrorCode :: "code option"

record batch_answer =
  baCommitted :: jsval
  baOutcomes :: "item_outcome list"

record inbound_env =
  ieHost :: jsstr
  ieTrusted :: "jsstr list"
  ieAborted :: "inbound_call list \<Rightarrow> bool"
  ieIdentity :: "inbound_call list \<Rightarrow> jsval result"
  ieEpoch :: "inbound_call list \<Rightarrow> jsstr result"
  ieList :: "inbound_call list \<Rightarrow> jsstr \<Rightarrow> nat \<Rightarrow> nat \<Rightarrow> jsstr \<Rightarrow> jsval result"
  ieArchive :: "inbound_call list \<Rightarrow> jsstr \<Rightarrow> archive_input \<Rightarrow> jsstr \<Rightarrow> batch_answer result"
  ieAcknowledge :: "inbound_call list \<Rightarrow> jsstr list \<Rightarrow> jsstr \<Rightarrow> unit result"

datatype archive_status = Stored | AlreadyPresent | Rejected | ArchiveFailed

datatype ack_status = AckDisabled | Acknowledged | AckPending | AckFailed

record record_outcome =
  roHost :: jsstr
  roMessageBox :: jsstr
  roMessageId :: jsstr
  roRecordKey :: "jsstr option"
  roArchive :: archive_status
  roAck :: ack_status
  roErrorCode :: "code option"
  roDeduped :: bool

record raw_message =
  rmId :: jsstr
  rmSender :: jsstr
  rmBody :: jsstr

record raw_page =
  rpMessages :: "raw_message list"
  rpMore :: bool
  rpNext :: nat

record inbound_state =
  isOutcomes :: "record_outcome list"
  isCache :: "(jsstr \<times> jsstr \<times> archive_status) list"
  isPages :: nat
  isMessages :: nat
  isArchived :: nat
  isAcked :: nat
  isIncomplete :: bool

subsection \<open>Options\<close>

definition boundedInteger :: "jsval \<Rightarrow> int \<Rightarrow> string \<Rightarrow> nat result" where
  "boundedInteger value fallback name =
     (let r = (if value = Undefined \<or> value = Null then IntNum fallback else value) in
      if \<not> positiveSafe r then Inl (type_error (name @ '' must be a positive safe integer'')) else Inr (nat (safeInt r)))"

fun validateBoxes :: "jsval list \<Rightarrow> jsstr list \<Rightarrow> jsstr list result" where
  "validateBoxes [] found = Inr found"
| "validateBoxes (v # vs) found = (case v of
      Str b \<Rightarrow> if jsTrim b = [] then Inl (type_error ''messageBoxes must contain non-empty strings'') else validateBoxes vs (setAdd b found)
    | _ \<Rightarrow> Inl (type_error ''messageBoxes must contain non-empty strings''))"

definition validatedBoxes :: "jsval \<Rightarrow> jsstr list result" where
  "validatedBoxes v = (case v of
      Arr (b # bs) \<Rightarrow> validateBoxes (b # bs) []
    | _ \<Rightarrow> Inl (type_error ''messageBoxes must be a non-empty array''))"

fun selectHosts :: "jsstr list \<Rightarrow> jsval list \<Rightarrow> jsstr list \<Rightarrow> jsstr list result" where
  "selectHosts allowed [] found = Inr found"
| "selectHosts allowed (v # vs) found = (case v of
      Str b \<Rightarrow> if b \<notin> set allowed then Inl (type_error ''hosts may contain only configured Message Box origins'')
        else selectHosts allowed vs (setAdd b found)
    | _ \<Rightarrow> Inl (type_error ''hosts may contain only configured Message Box origins''))"

definition configuredHosts :: "inbound_env \<Rightarrow> jsval \<Rightarrow> jsstr list result" where
  "configuredHosts E requested =
     (let available = ieHost E # ieTrusted E in
      case requested of
        Undefined \<Rightarrow> Inr available
      | Arr (b # bs) \<Rightarrow> selectHosts available (b # bs) []
      | _ \<Rightarrow> Inl (type_error ''hosts must be a non-empty configured-host subset''))"

subsection \<open>A page\<close>

definition pageError :: jserr where
  "pageError = type_error ''Message Box returned a malformed page''"

definition recordError :: jserr where
  "recordError = type_error ''Message Box returned a malformed record''"

text \<open>The body, or the one wrapped in a payment-free transport message, without reserialising it.\<close>

definition exactEncryptedBody :: "jsstr \<Rightarrow> jsstr result" where
  "exactEncryptedBody s =
     andThen (extractEncryptedMessage (Str s) True) (\<lambda>_.
     (case jsonParse s of
        None \<Rightarrow> Inl (type_error ''JSON.parse'')
      | Some (Obj ps) \<Rightarrow> (case getProp ps (js ''message'') of
            Str w \<Rightarrow> if length ps = 1 then Inr w else Inr s
          | _ \<Rightarrow> Inr s)
      | Some _ \<Rightarrow> Inr s))"

definition validateRawMessage :: "jsval \<Rightarrow> raw_message result" where
  "validateRawMessage v =
     (if \<not> isRecord v then Inl recordError
      else (case (field v ''messageId'', field v ''sender'', field v ''body'') of
          (Str i, Str s, Str b) \<Rightarrow> if i = [] then Inl recordError
            else andThen (exactEncryptedBody b) (\<lambda>w. Inr \<lparr>rmId = i, rmSender = s, rmBody = w\<rparr>)
        | _ \<Rightarrow> Inl recordError))"

definition safeOffset :: "jsval \<Rightarrow> bool" where
  "safeOffset v \<longleftrightarrow> isSafeInteger v \<and> 0 \<le> safeInt v"

definition validateRawPage :: "jsval \<Rightarrow> raw_page result" where
  "validateRawPage v =
     (if \<not> isRecord v then Inl pageError
      else (case (field v ''messages'', field v ''hasMore'') of
          (Arr ms, Boolean mr) \<Rightarrow>
            if \<not> safeOffset (field v ''offset'')
              \<or> (field v ''nextOffset'' \<noteq> Undefined \<and> \<not> safeOffset (field v ''nextOffset'')) then Inl pageError
            else let off = safeInt (field v ''offset'');
                next = (if field v ''nextOffset'' = Undefined then off + int (length ms) else safeInt (field v ''nextOffset'')) in
              if next \<noteq> off + int (length ms) \<or> (mr \<and> ms = []) then Inl pageError
              else andThen (mapM validateRawMessage ms) (\<lambda>rs. Inr \<lparr>rpMessages = rs, rpMore = mr, rpNext = nat next\<rparr>)
        | _ \<Rightarrow> Inl pageError))"

subsection \<open>Archiving one message\<close>

definition ecodeRe :: "string \<Rightarrow> bool" where
  "ecodeRe s \<longleftrightarrow> take 4 s = ''ERR_'' \<and> drop 4 s \<noteq> []
     \<and> list_all (\<lambda>c. c = CHR ''_'' \<or> c \<in> set ''ABCDEFGHIJKLMNOPQRSTUVWXYZ0123456789'') (drop 4 s)"

definition safeCode :: "jserr \<Rightarrow> code" where
  "safeCode e = (case err_code e of
      None \<Rightarrow> ERR_UNAVAILABLE
    | Some (Other_Code s) \<Rightarrow> if ecodeRe s then Other_Code s else ERR_UNAVAILABLE
    | Some c \<Rightarrow> c)"

definition archiveStatus :: "batch_answer \<Rightarrow> jsstr \<Rightarrow> archive_status option" where
  "archiveStatus r key = (case baOutcomes r of
      [o1] \<Rightarrow>
        if baCommitted r \<noteq> Boolean True \<or> ioIndex o1 \<noteq> IntNum 0 \<or> ioRecordKey o1 \<noteq> Str key then None
        else if ioOutcome o1 = Str (js ''stored'') then Some Stored
        else if ioOutcome o1 = Str (js ''alreadyPresent'') then Some AlreadyPresent else None
    | _ \<Rightarrow> None)"

definition recordJson :: "archive_input \<Rightarrow> json" where
  "recordJson r = JObj [(js ''messageId'', JStr (aiMessageId r)), (js ''messageBox'', JStr (aiMessageBox r)),
     (js ''direction'', JStr (js ''inbound'')), (js ''sender'', JStr (aiSender r)), (js ''recipient'', JStr (aiRecipient r)),
     (js ''body'', JStr (aiBody r)), (js ''bodyHash'', JStr (aiBodyHash r)), (js ''deliveryState'', JStr (js ''received''))]"

definition fingerprint :: "archive_input \<Rightarrow> jsstr" where
  "fingerprint r = stringify (recordJson r)"

definition inboundRecord :: "jsval \<Rightarrow> jsstr \<Rightarrow> raw_message \<Rightarrow> (archive_input \<times> jsstr) result" where
  "inboundRecord owner mbox raw =
     andThen (bodyHash (Str (rmBody raw))) (\<lambda>hash.
     andThen (canonicalRecordKey owner (Str (js ''inbound'')) (Str mbox) (Str (rmSender raw)) owner (Str (rmId raw))) (\<lambda>key.
     Inr (\<lparr>aiMessageId = rmId raw, aiMessageBox = mbox, aiSender = rmSender raw, aiRecipient = strOf owner,
          aiBody = rmBody raw, aiBodyHash = hash\<rparr>, key)))"

definition cancelled :: jserr where
  "cancelled = JsErr PlainError None ''Inbound synchronization was cancelled''"

definition requireNotCancelled :: "inbound_env \<Rightarrow> 'a inbound_act \<Rightarrow> 'a inbound_act" where
  "requireNotCancelled E m = actSees (ieAborted E) (\<lambda>b. if b then actPure (Inl cancelled) else m)"

text \<open>The answer of an archive call that threw, or the status it reports.\<close>

definition tryArchive :: "inbound_env \<Rightarrow> jsstr \<Rightarrow> archive_input \<Rightarrow> jsstr \<Rightarrow> (archive_status \<times> code option) inbound_act" where
  "tryArchive E ep r key =
     actTry (actBind (actCall (InArchive ep r key) (\<lambda>h. ieArchive E h ep r key)) (\<lambda>answer.
       (case archiveStatus answer key of
          Some st \<Rightarrow> actPure (Inr (st, None))
        | None \<Rightarrow> actPure (Inr (Rejected, Some (case baOutcomes answer of
              o1 # _ \<Rightarrow> (case ioErrorCode o1 of Some c \<Rightarrow> c | None \<Rightarrow> ERR_INTERNAL) | [] \<Rightarrow> ERR_INTERNAL))))))
       (\<lambda>e. actPure (Inr (ArchiveFailed, Some (safeCode e))))"

record page_progress =
  ppState :: inbound_state
  ppAckable :: "(jsstr \<times> nat) list"
  ppFailure :: bool

definition newOutcome :: "jsstr \<Rightarrow> jsstr \<Rightarrow> bool \<Rightarrow> raw_message \<Rightarrow> jsstr \<Rightarrow> record_outcome" where
  "newOutcome host mbox acknowledge raw key = \<lparr>roHost = host, roMessageBox = mbox, roMessageId = rmId raw, roRecordKey = Some key,
     roArchive = ArchiveFailed, roAck = (if acknowledge then AckPending else AckDisabled), roErrorCode = None, roDeduped = False\<rparr>"

text \<open>One message with the state before it: its outcome is appended, and it joins the messages to be
  acknowledged when it is archived, now or earlier in this pass.\<close>

definition processMessage ::
  "inbound_env \<Rightarrow> jsval \<Rightarrow> jsstr \<Rightarrow> bool \<Rightarrow> jsstr \<Rightarrow> jsstr \<Rightarrow> raw_message \<Rightarrow> page_progress \<Rightarrow> page_progress inbound_act" where
  "processMessage E owner ep acknowledge host mbox raw p =
     actBind (actPure (inboundRecord owner mbox raw)) (\<lambda>(r, key).
     let st = ppState p; fp = fingerprint r; out = newOutcome host mbox acknowledge raw key; i = length (isOutcomes st);
         kept = (\<lambda>cache archived o1. st\<lparr>isMessages := isMessages st + 1, isOutcomes := isOutcomes st @ [o1], isCache := cache,
           isArchived := archived\<rparr>);
         ack = (if acknowledge then ppAckable p @ [(rmId raw, i)] else ppAckable p) in
     (case map_of (isCache st) key of
        Some (fp', status) \<Rightarrow>
          if fp' \<noteq> fp
          then actPure (Inr (p\<lparr>ppState := kept (isCache st) (isArchived st) (out\<lparr>roArchive := Rejected, roErrorCode := Some ERR_IMMUTABLE_CONFLICT\<rparr>),
            ppFailure := True\<rparr>))
          else actPure (Inr (p\<lparr>ppState := kept (isCache st) (isArchived st) (out\<lparr>roArchive := status, roDeduped := True\<rparr>), ppAckable := ack\<rparr>))
      | None \<Rightarrow>
          requireNotCancelled E (actBind (tryArchive E ep r key) (\<lambda>(status, code).
          if status = Stored \<or> status = AlreadyPresent
          then actPure (Inr (p\<lparr>ppState := kept ((key, fp, status) # isCache st) (isArchived st + 1) (out\<lparr>roArchive := status\<rparr>), ppAckable := ack\<rparr>))
          else actPure (Inr (p\<lparr>ppState := kept (isCache st) (isArchived st) (out\<lparr>roArchive := status, roErrorCode := code\<rparr>),
            ppFailure := True\<rparr>))))))"

text \<open>The messages of a page, up to the bound; the flag says that the bound ended the whole pass.\<close>

fun processMessages ::
  "inbound_env \<Rightarrow> jsval \<Rightarrow> jsstr \<Rightarrow> bool \<Rightarrow> nat \<Rightarrow> jsstr \<Rightarrow> jsstr \<Rightarrow> raw_message list \<Rightarrow> page_progress \<Rightarrow> (bool \<times> page_progress) inbound_act" where
  "processMessages E owner ep acknowledge maxMessages host mbox [] p = actPure (Inr (False, p))"
| "processMessages E owner ep acknowledge maxMessages host mbox (raw # raws) p =
     (if maxMessages \<le> isMessages (ppState p)
      then actPure (Inr (True, p\<lparr>ppState := (ppState p)\<lparr>isIncomplete := True\<rparr>\<rparr>))
      else actBind (processMessage E owner ep acknowledge host mbox raw p)
        (processMessages E owner ep acknowledge maxMessages host mbox raws))"

subsection \<open>A message box and the pass\<close>

record inbound_args =
  iaOwner :: jsval
  iaEpoch :: jsstr
  iaAcknowledge :: bool
  iaPageSize :: nat
  iaMaxPages :: nat
  iaMaxMessages :: nat

definition setAcks :: "ack_status \<Rightarrow> code option \<Rightarrow> (jsstr \<times> nat) list \<Rightarrow> inbound_state \<Rightarrow> inbound_state" where
  "setAcks a code items st = st\<lparr>isOutcomes := fold (\<lambda>(m, i) os. os[i := (os ! i)\<lparr>roAck := a,
     roErrorCode := (case code of None \<Rightarrow> roErrorCode (os ! i) | Some c \<Rightarrow> Some c)\<rparr>]) items (isOutcomes st)\<rparr>"

datatype box_step = OuterBreak | BoxBreak | NextPage nat

text \<open>The acknowledgement of a page and the way on: with a failure the message box is left.\<close>

definition acknowledgePage :: "inbound_env \<Rightarrow> inbound_args \<Rightarrow> jsstr \<Rightarrow> raw_page \<Rightarrow> page_progress \<Rightarrow> (box_step \<times> inbound_state) inbound_act" where
  "acknowledgePage E a host page p =
     (let st = ppState p; incomplete = st\<lparr>isIncomplete := True\<rparr>;
        onward = (\<lambda>off s. if ppFailure p then (BoxBreak, s\<lparr>isIncomplete := True\<rparr>)
          else if \<not> rpMore page \<and> \<not> iaAcknowledge a then (BoxBreak, s) else (NextPage off, s)) in
      if ppAckable p \<noteq> []
      then requireNotCancelled E (actTry
        (actBind (actCall (InAcknowledge (map fst (ppAckable p)) host) (\<lambda>h. ieAcknowledge E h (map fst (ppAckable p)) host)) (\<lambda>_.
          actPure (Inr (onward 0 ((setAcks Acknowledged None (ppAckable p) st)\<lparr>isAcked := isAcked st + length (ppAckable p)\<rparr>)))))
        (\<lambda>e. actPure (Inr (BoxBreak, setAcks AckFailed (Some (safeCode e)) (ppAckable p) incomplete))))
      else if iaAcknowledge a \<and> ppFailure p then actPure (Inr (BoxBreak, incomplete))
      else actPure (Inr (onward (rpNext page) st)))"

definition readPage :: "inbound_env \<Rightarrow> inbound_args \<Rightarrow> jsstr \<Rightarrow> jsstr \<Rightarrow> nat \<Rightarrow> inbound_state \<Rightarrow> (jserr + raw_page) inbound_act" where
  "readPage E a host mbox offset st =
     (let limit = min (iaPageSize a) (iaMaxMessages a - isMessages st) in
      actTry (actBind (actCall (InList mbox offset limit host) (\<lambda>h. ieList E h mbox offset limit host)) (\<lambda>v.
          actBind (actPure (validateRawPage v)) (\<lambda>pg. actPure (Inr (Inr pg)))))
        (\<lambda>e. actPure (Inr (Inl e))))"

definition failedList :: "jsstr \<Rightarrow> jsstr \<Rightarrow> jserr \<Rightarrow> record_outcome" where
  "failedList host mbox e = \<lparr>roHost = host, roMessageBox = mbox, roMessageId = [], roRecordKey = None, roArchive = ArchiveFailed,
     roAck = AckPending, roErrorCode = Some (safeCode e), roDeduped = False\<rparr>"

text \<open>The pages of one message box: the first argument is the number of pages the pass may still read.\<close>

fun boxLoop ::
  "nat \<Rightarrow> inbound_env \<Rightarrow> inbound_args \<Rightarrow> jsstr \<Rightarrow> jsstr \<Rightarrow> nat \<Rightarrow> inbound_state \<Rightarrow> (bool \<times> inbound_state) inbound_act" where
  "boxLoop 0 E a host mbox offset st = actPure (Inr (False, st))"
| "boxLoop (Suc n) E a host mbox offset st =
     (if iaMaxMessages a \<le> isMessages st then actPure (Inr (False, st))
      else requireNotCancelled E (actBind (readPage E a host mbox offset st) (\<lambda>r. case r of
        Inl e \<Rightarrow> actPure (Inr (False, st\<lparr>isOutcomes := isOutcomes st @ [failedList host mbox e], isIncomplete := True\<rparr>))
      | Inr page \<Rightarrow>
          let st1 = st\<lparr>isPages := isPages st + 1\<rparr> in
          if rpMessages page = []
          then actPure (Inr (False, if rpMore page then st1\<lparr>isIncomplete := True\<rparr> else st1))
          else actBind (processMessages E (iaOwner a) (iaEpoch a) (iaAcknowledge a) (iaMaxMessages a) host mbox (rpMessages page)
              \<lparr>ppState = st1, ppAckable = [], ppFailure = False\<rparr>) (\<lambda>(outer, p).
            if outer then actPure (Inr (True, ppState p))
            else actBind (acknowledgePage E a host page p) (\<lambda>(s, st2). case s of
                NextPage off \<Rightarrow> boxLoop n E a host mbox off st2
              | _ \<Rightarrow> actPure (Inr (False, st2)))))))"

text \<open>The pairs of a host and a box in order, until the bound on messages ends the pass.\<close>

fun boxesLoop :: "inbound_env \<Rightarrow> inbound_args \<Rightarrow> (jsstr \<times> jsstr) list \<Rightarrow> inbound_state \<Rightarrow> inbound_state inbound_act" where
  "boxesLoop E a [] st = actPure (Inr st)"
| "boxesLoop E a ((host, mbox) # rest) st =
     actBind (boxLoop (iaMaxPages a - isPages st) E a host mbox 0 st) (\<lambda>(outer, st1).
       if outer then actPure (Inr st1)
       else boxesLoop E a rest (if iaMaxPages a \<le> isPages st1 \<or> iaMaxMessages a \<le> isMessages st1 then st1\<lparr>isIncomplete := True\<rparr> else st1))"

record inbound_options =
  inBoxes :: jsval
  inHosts :: jsval
  inAcknowledge :: jsval
  inPageSize :: jsval
  inMaxPages :: jsval
  inMaxMessages :: jsval

definition inboundStart :: inbound_state where
  "inboundStart = \<lparr>isOutcomes = [], isCache = [], isPages = 0, isMessages = 0, isArchived = 0, isAcked = 0, isIncomplete = False\<rparr>"

definition syncPending :: "inbound_env \<Rightarrow> inbound_options \<Rightarrow> (jsval \<times> jsstr \<times> inbound_state) inbound_act" where
  "syncPending E o1 =
     actBind (actPure (validatedBoxes (inBoxes o1))) (\<lambda>boxes.
     actBind (actPure (configuredHosts E (inHosts o1))) (\<lambda>hosts.
     actBind (actPure (boundedInteger (inPageSize o1) 100 ''pageSize'')) (\<lambda>pageSize.
     actBind (actPure (boundedInteger (inMaxPages o1) 10 ''maxPages'')) (\<lambda>maxPages.
     actBind (actPure (boundedInteger (inMaxMessages o1) 1000 ''maxMessages'')) (\<lambda>maxMessages.
     requireNotCancelled E (actBind (actCall InIdentity (ieIdentity E)) (\<lambda>owner.
     requireNotCancelled E (actBind (actCall InCapabilities (ieEpoch E)) (\<lambda>ep.
     actBind (boxesLoop E \<lparr>iaOwner = owner, iaEpoch = ep, iaAcknowledge = (inAcknowledge o1 = Boolean True), iaPageSize = pageSize,
         iaMaxPages = maxPages, iaMaxMessages = maxMessages\<rparr> (concat (map (\<lambda>h. map (\<lambda>b. (h, b)) boxes) hosts)) inboundStart) (\<lambda>st.
     actPure (Inr (owner, ep, st))))))))))))"

subsection \<open>What a pass may call\<close>

definition archived :: "inbound_env \<Rightarrow> inbound_call list \<Rightarrow> archive_input \<Rightarrow> jsstr \<Rightarrow> bool" where
  "archived E h r key \<longleftrightarrow> (\<exists>g ep rest answer. h = g @ InArchive ep r key # rest \<and> ieArchive E g ep r key = Inr answer
     \<and> archiveStatus answer key \<noteq> None)"

definition confirmedId :: "inbound_env \<Rightarrow> inbound_call list \<Rightarrow> jsstr \<Rightarrow> bool" where
  "confirmedId E h i \<longleftrightarrow> (\<exists>r key. archived E h r key \<and> aiMessageId r = i)"

text \<open>No call follows an abort; a record is archived under its canonical key with the hash of its body;
  an id is acknowledged only when the history service confirmed a record with it before.\<close>

definition inboundPolicy :: "inbound_env \<Rightarrow> inbound_call list \<Rightarrow> inbound_call \<Rightarrow> bool" where
  "inboundPolicy E h call \<longleftrightarrow> \<not> ieAborted E h \<and> (case call of
      InArchive ep r key \<Rightarrow> bodyHash (Str (aiBody r)) = Inr (aiBodyHash r) \<and>
        canonicalRecordKey (Str (aiRecipient r)) (Str (js ''inbound'')) (Str (aiMessageBox r)) (Str (aiSender r))
          (Str (aiRecipient r)) (Str (aiMessageId r)) = Inr key
    | InAcknowledge ids host \<Rightarrow> (\<forall>i \<in> set ids. confirmedId E h i)
    | _ \<Rightarrow> True)"

lemma archived_later: "archived E h r key \<Longrightarrow> archived E (h @ g) r key"
  unfolding archived_def by fastforce

lemma confirmedId_later: "confirmedId E h i \<Longrightarrow> confirmedId E (h @ g) i"
  unfolding confirmedId_def using archived_later by blast

lemma fingerprint_inject: "fingerprint r = fingerprint s \<Longrightarrow> aiMessageId r = aiMessageId s"
proof -
  assume "fingerprint r = fingerprint s"
  moreover have "okJson (recordJson r)" "okJson (recordJson s)" by (simp_all add: recordJson_def)
  ultimately have "ofJson (recordJson r) = ofJson (recordJson s)"
    by (metis fingerprint_def jsonParse_stringify option.inject)
  then show ?thesis by (simp add: recordJson_def)
qed

definition goodStatus :: "archive_status \<Rightarrow> bool" where
  "goodStatus s \<longleftrightarrow> s = Stored \<or> s = AlreadyPresent"

definition archives :: "inbound_call list \<Rightarrow> nat" where
  "archives h = length (filter (\<lambda>c. case c of InArchive ep r key \<Rightarrow> True | _ \<Rightarrow> False) h)"

lemma archives_simps [simp]: "archives [] = 0" "archives (h @ g) = archives h + archives g"
  "archives (InArchive ep r key # h) = archives h + 1" "archives (InList mbox off n host # h) = archives h"
  "archives (InAcknowledge ids host # h) = archives h" "archives (InIdentity # h) = archives h" "archives (InCapabilities # h) = archives h"
  by (simp_all add: archives_def)

text \<open>The pages asked for, and the outcomes that report a page that could not be read.\<close>

definition lists :: "inbound_call list \<Rightarrow> nat" where
  "lists h = length (filter (\<lambda>c. case c of InList mbox off n host \<Rightarrow> True | _ \<Rightarrow> False) h)"

lemma lists_simps [simp]: "lists [] = 0" "lists (h @ g) = lists h + lists g"
  "lists (InArchive ep r key # h) = lists h" "lists (InList mbox off n host # h) = lists h + 1"
  "lists (InAcknowledge ids host # h) = lists h" "lists (InIdentity # h) = lists h" "lists (InCapabilities # h) = lists h"
  by (simp_all add: lists_def)

definition unreadable :: "record_outcome list \<Rightarrow> nat" where
  "unreadable os = length (filter (\<lambda>k. k = None) (map roRecordKey os))"

lemma unreadable_simps [simp]: "unreadable [] = 0" "unreadable (os @ xs) = unreadable os + unreadable xs"
  "unreadable (x # xs) = (if roRecordKey x = None then 1 else 0) + unreadable xs"
  by (simp_all add: unreadable_def)

text \<open>The invariant of the pass: the cache holds what was confirmed, an outcome reported acknowledged is
  archived, and the counts stay below the number of messages read.\<close>

definition stateOk :: "inbound_env \<Rightarrow> nat \<Rightarrow> nat \<Rightarrow> inbound_call list \<Rightarrow> inbound_state \<Rightarrow> bool" where
  "stateOk E m np h st \<longleftrightarrow>
     (\<forall>(key, fp, s) \<in> set (isCache st). goodStatus s \<and> (\<exists>r. fp = fingerprint r \<and> archived E h r key))
     \<and> (\<forall>x \<in> set (isOutcomes st). roAck x = Acknowledged \<longrightarrow> goodStatus (roArchive x))
     \<and> isPages st = np \<and> isMessages st \<le> m \<and> isArchived st \<le> isMessages st \<and> archives h \<le> isMessages st
     \<and> lists h = isPages st + unreadable (isOutcomes st)"

definition ackOk :: "inbound_env \<Rightarrow> inbound_call list \<Rightarrow> record_outcome list \<Rightarrow> (jsstr \<times> nat) list \<Rightarrow> bool" where
  "ackOk E h os items \<longleftrightarrow> (\<forall>(i, n) \<in> set items. confirmedId E h i \<and> n < length os \<and> goodStatus (roArchive (os ! n)))"

definition pageOk :: "inbound_env \<Rightarrow> nat \<Rightarrow> nat \<Rightarrow> inbound_call list \<Rightarrow> page_progress \<Rightarrow> bool" where
  "pageOk E m np h p \<longleftrightarrow> stateOk E m np h (ppState p) \<and> ackOk E h (isOutcomes (ppState p)) (ppAckable p)"

lemma stateOk_later: "stateOk E m np h st \<Longrightarrow> archives g = 0 \<Longrightarrow> lists g = 0 \<Longrightarrow> stateOk E m np (h @ g) st"
  unfolding stateOk_def by (fastforce intro: archived_later)

lemma ackOk_later: "ackOk E h os items \<Longrightarrow> ackOk E (h @ g) os items"
  unfolding ackOk_def by (auto intro: confirmedId_later)

lemma ackOk_more: "ackOk E h os items \<Longrightarrow> ackOk E h (os @ xs) items"
  unfolding ackOk_def by (auto simp: nth_append)

lemma runs_requireNotCancelled:
  "(\<not> ieAborted E h \<Longrightarrow> runs P m Q h) \<Longrightarrow> (ieAborted E h \<Longrightarrow> Q (Inl cancelled) h) \<Longrightarrow> runs P (requireNotCancelled E m) Q h"
  unfolding requireNotCancelled_def by (intro runs_sees) (auto intro: runs_pure)

lemma inboundRecord_Inr:
  assumes "inboundRecord (Str w) mbox raw = Inr (r, key)"
  shows "bodyHash (Str (aiBody r)) = Inr (aiBodyHash r)" "aiMessageId r = rmId raw"
    "canonicalRecordKey (Str (aiRecipient r)) (Str (js ''inbound'')) (Str (aiMessageBox r)) (Str (aiSender r))
          (Str (aiRecipient r)) (Str (aiMessageId r)) = Inr key"
  using assms by (auto simp: inboundRecord_def result_simps strOf_def)

lemma inboundRecord_owner: "inboundRecord v mbox raw = Inr x \<Longrightarrow> \<exists>w. v = Str w"
  by (cases x) (auto simp: inboundRecord_def canonicalRecordKey_def result_simps)

lemma tryArchive_runs:
  assumes "bodyHash (Str (aiBody r)) = Inr (aiBodyHash r)"
    "canonicalRecordKey (Str (aiRecipient r)) (Str (js ''inbound'')) (Str (aiMessageBox r)) (Str (aiSender r))
          (Str (aiRecipient r)) (Str (aiMessageId r)) = Inr key" "\<not> ieAborted E h"
  shows "runs (inboundPolicy E) (tryArchive E ep r key)
    (\<lambda>x g. g = h @ [InArchive ep r key] \<and> (\<exists>st code. x = Inr (st, code) \<and> (goodStatus st \<longrightarrow> archived E g r key))) h"
  unfolding tryArchive_def
proof (rule runs_try, rule runs_call_bind, goal_cases)
  case (3 answer)
  then have a: "archiveStatus answer key \<noteq> None \<Longrightarrow> archived E (h @ [InArchive ep r key]) r key"
    unfolding archived_def by auto
  show ?case
    using a by (cases "archiveStatus answer key") (auto intro!: runs_pure simp: goodStatus_def)
qed (auto intro!: runs_pure simp: inboundPolicy_def assms goodStatus_def)

text \<open>The progress after one message: an outcome that is not yet acknowledged is appended.\<close>

lemma pageOk_next:
  assumes "pageOk E m np h p" "g = h \<or> g = h @ [InArchive ep r key]" "isMessages (ppState p) < m"
    and "isOutcomes (ppState q) = isOutcomes (ppState p) @ [last (isOutcomes (ppState q))]" "isMessages (ppState q) = isMessages (ppState p) + 1"
    and "isPages (ppState q) = isPages (ppState p)"
    and "isArchived (ppState q) \<le> isArchived (ppState p) + 1"
      "roAck (last (isOutcomes (ppState q))) \<noteq> Acknowledged \<and> roRecordKey (last (isOutcomes (ppState q))) \<noteq> None"
    and "isCache (ppState q) = isCache (ppState p) \<or> (\<exists>k r s. isCache (ppState q) = (k, fingerprint r, s) # isCache (ppState p)
        \<and> goodStatus s \<and> archived E g r k)"
    and "ppAckable q = ppAckable p \<or> (\<exists>i. ppAckable q = ppAckable p @ [(i, length (isOutcomes (ppState p)))]
        \<and> confirmedId E g i \<and> goodStatus (roArchive (last (isOutcomes (ppState q)))))"
  shows "pageOk E m np g q"
proof -
  let ?st = "ppState p"
  obtain o1 where o1: "last (isOutcomes (ppState q)) = o1" by simp
  note assms = assms [unfolded o1]
  have ok: "stateOk E m np h ?st" "ackOk E h (isOutcomes ?st) (ppAckable p)" using assms(1) by (auto simp: pageOk_def)
  have l: "archived E h r' k \<Longrightarrow> archived E g r' k" "confirmedId E h i \<Longrightarrow> confirmedId E g i" for r' k i
    using archived_later confirmedId_later assms(2) by blast+
  have "\<forall>(k, fp, s) \<in> set (isCache ?st). goodStatus s \<and> (\<exists>r. fp = fingerprint r \<and> archived E g r k)"
    using ok(1) l(1) unfolding stateOk_def by fastforce
  then have cache: "\<forall>(k, fp, s) \<in> set (isCache (ppState q)). goodStatus s \<and> (\<exists>r. fp = fingerprint r \<and> archived E g r k)"
    using assms(9) by auto
  have n: "archives g \<le> isMessages (ppState q)" "isArchived (ppState q) \<le> isMessages (ppState q)" "isMessages (ppState q) \<le> m"
    "isPages (ppState q) = np" "lists g = isPages (ppState q) + unreadable (isOutcomes (ppState q))"
    using ok(1) assms(2,3,5,6,7,8) unfolding assms(4) by (auto simp: stateOk_def)
  have o: "\<forall>x \<in> set (isOutcomes (ppState q)). roAck x = Acknowledged \<longrightarrow> goodStatus (roArchive x)"
    using ok(1) assms(4,8) by (auto simp: stateOk_def)
  have a: "ackOk E g (isOutcomes (ppState q)) (ppAckable p)"
    unfolding assms(4) using ok(2) l(2) unfolding ackOk_def by (auto simp: nth_append)
  moreover have "ackOk E g (isOutcomes (ppState q)) [(i, length (isOutcomes ?st))]"
    if "confirmedId E g i" "goodStatus (roArchive o1)" for i
    unfolding assms(4) ackOk_def using that by simp
  ultimately have "ackOk E g (isOutcomes (ppState q)) (ppAckable q)"
    using assms(10) unfolding ackOk_def by auto
  then show ?thesis using cache n o by (simp add: pageOk_def stateOk_def)
qed

lemma processMessage_runs:
  assumes "pageOk E m np h p" "isMessages (ppState p) < m"
  shows "runs (inboundPolicy E) (processMessage E w ep acknowledge host mbox raw p)
    (\<lambda>x g. \<forall>q. x = Inr q \<longrightarrow> pageOk E m np g q) h"
  unfolding processMessage_def
proof (rule runs_check, simp, clarsimp split del: option.split, goal_cases)
  case (1 r key)
  let ?st = "ppState p"
  obtain w' where w: "w = Str w'" using inboundRecord_owner [OF 1] by blast
  note rec = inboundRecord_Inr [OF 1 [unfolded w]]
  have out: "roAck (newOutcome host mbox a raw key) \<noteq> Acknowledged \<and> roRecordKey (newOutcome host mbox a raw key) \<noteq> None" for a
    by (simp add: newOutcome_def)
  show ?case
  proof (cases "map_of (isCache ?st) key")
    case (Some c)
    obtain fp' s where c: "c = (fp', s)" by (cases c)
    have "(key, fp', s) \<in> set (isCache ?st)" using Some c map_of_SomeD by fastforce
    then obtain r' where r': "goodStatus s" "fp' = fingerprint r'" "archived E h r' key"
      using assms(1) unfolding pageOk_def stateOk_def by fastforce
    have "fp' = fingerprint r \<Longrightarrow> confirmedId E h (rmId raw)"
      using r' rec(2) fingerprint_inject unfolding confirmedId_def by metis
    then show ?thesis
      unfolding Some c option.case prod.case Let_def
      by (intro runs_if runs_pure allI impI pageOk_next [OF assms(1) _ assms(2)]) (use out r'(1) in auto)
  next
    case None
    show ?thesis
      unfolding Let_def None option.case
    proof (rule runs_requireNotCancelled, rule runs_bindI, rule tryArchive_runs [OF rec(1,3)], goal_cases)
      case (3 x g)
      then obtain s code where x: "x = (s, code)" "g = h @ [InArchive ep r key]" "goodStatus s \<longrightarrow> archived E g r key" by auto
      have c: "goodStatus s \<Longrightarrow> confirmedId E g (rmId raw)" using x(3) rec(2) unfolding confirmedId_def by metis
      show ?case
        unfolding x(1) prod.case
        by (intro runs_if runs_pure allI impI pageOk_next [OF assms(1) disjI2 [OF x(2)] assms(2)])
          (use out x(3) c in \<open>auto simp: goodStatus_def\<close>)
    qed auto
  qed
qed

lemma processMessages_runs:
  "pageOk E m np h p \<Longrightarrow> runs (inboundPolicy E) (processMessages E w ep acknowledge m host mbox raws p)
     (\<lambda>x g. \<forall>outer q. x = Inr (outer, q) \<longrightarrow> pageOk E m np g q) h"
proof (induction raws arbitrary: p h)
  case (Cons raw raws)
  show ?case
    unfolding processMessages.simps
  proof (rule runs_if)
    show "runs (inboundPolicy E) (actPure (Inr (True, p\<lparr>ppState := (ppState p)\<lparr>isIncomplete := True\<rparr>\<rparr>)))
        (\<lambda>x g. \<forall>outer q. x = Inr (outer, q) \<longrightarrow> pageOk E m np g q) h"
      using Cons.prems by (intro runs_pure) (auto simp: pageOk_def stateOk_def)
  qed (rule runs_bindI [OF processMessage_runs [OF Cons.prems]], use Cons.IH in auto)
qed (auto intro: runs_pure)

lemma setAcks_ok:
  assumes "\<forall>x \<in> set os. roAck x = Acknowledged \<longrightarrow> goodStatus (roArchive x)"
    "\<forall>(i, n) \<in> set items. n < length os \<and> goodStatus (roArchive (os ! n))"
  shows "\<forall>x \<in> set (fold (\<lambda>(m, i) os. os[i := (os ! i)\<lparr>roAck := a, roErrorCode := f (os ! i)\<rparr>]) items os).
    roAck x = Acknowledged \<longrightarrow> goodStatus (roArchive x)"
  using assms
proof (induction items arbitrary: os)
  case (Cons it items)
  obtain m i where it: "it = (m, i)" by (cases it)
  let ?os = "os[i := (os ! i)\<lparr>roAck := a, roErrorCode := f (os ! i)\<rparr>]"
  have "\<forall>x \<in> set ?os. roAck x = Acknowledged \<longrightarrow> goodStatus (roArchive x)"
    using Cons.prems it by (auto dest!: set_update_subset_insert [THEN subsetD])
  moreover have "\<forall>(j, n) \<in> set items. n < length ?os \<and> goodStatus (roArchive (?os ! n))"
  proof -
    have "roArchive (?os ! n) = roArchive (os ! n)" if "n < length os" for n
      using that by (cases "n = i") simp_all
    then show ?thesis using Cons.prems(2) by fastforce
  qed
  ultimately show ?case using Cons.IH [of ?os] it by simp
qed simp

lemma unreadable_setAcks:
  "unreadable (fold (\<lambda>(m, i) os. os[i := (os ! i)\<lparr>roAck := a, roErrorCode := f (os ! i)\<rparr>]) items os) = unreadable os"
proof (induction items arbitrary: os)
  case (Cons it items)
  have "map roRecordKey (os[i := (os ! i)\<lparr>roAck := a, roErrorCode := c\<rparr>]) = map roRecordKey os" for i c
    by (cases "i < length os") (simp_all add: map_update list_update_same_conv list_update_beyond)
  then have "unreadable (os[i := (os ! i)\<lparr>roAck := a, roErrorCode := c\<rparr>]) = unreadable os" for i c
    by (simp add: unreadable_def)
  then show ?case using Cons.IH by (cases it) simp
qed simp

lemma stateOk_setAcks:
  assumes "stateOk E m np h st" "ackOk E h (isOutcomes st) items"
  shows "stateOk E m np h (setAcks a code items st)"
proof -
  let ?f = "\<lambda>o1. case code of None \<Rightarrow> roErrorCode o1 | Some c \<Rightarrow> Some c"
  have "\<forall>x \<in> set (isOutcomes (setAcks a code items st)). roAck x = Acknowledged \<longrightarrow> goodStatus (roArchive x)"
    using assms setAcks_ok [of "isOutcomes st" items, where a = a and f = ?f]
    by (fastforce simp: stateOk_def setAcks_def ackOk_def)
  moreover have "unreadable (isOutcomes (setAcks a code items st)) = unreadable (isOutcomes st)"
    using unreadable_setAcks [where a = a and f = ?f] by (simp add: setAcks_def)
  ultimately show ?thesis using assms(1) by (simp add: stateOk_def) (simp add: setAcks_def)
qed

lemma acknowledgePage_runs:
  assumes "pageOk E m np h p"
  shows "runs (inboundPolicy E) (acknowledgePage E a host page p) (\<lambda>x g. \<forall>s st. x = Inr (s, st) \<longrightarrow> stateOk E m np g st) h"
proof -
  let ?st = "ppState p" and ?call = "InAcknowledge (map fst (ppAckable p)) host"
  have ok: "stateOk E m np h ?st" "ackOk E h (isOutcomes ?st) (ppAckable p)" using assms by (auto simp: pageOk_def)
  have ids: "\<forall>i \<in> set (map fst (ppAckable p)). confirmedId E h i" using ok(2) unfolding ackOk_def by auto
  have f: "stateOk E m np g s \<Longrightarrow> stateOk E m np g (s\<lparr>isIncomplete := b\<rparr>)" "stateOk E m np g s \<Longrightarrow> stateOk E m np g (s\<lparr>isAcked := n\<rparr>)"
    for g s b n by (auto simp: stateOk_def)
  have later: "stateOk E m np (h @ [?call]) (setAcks b code (ppAckable p) ?st)" for b code
    using stateOk_later [OF stateOk_setAcks [OF ok], of "[?call]"] by simp
  have later2: "stateOk E m np (h @ [?call]) (setAcks b code (ppAckable p) (?st\<lparr>isIncomplete := True\<rparr>))" for b code
  proof -
    have "setAcks b code (ppAckable p) (?st\<lparr>isIncomplete := True\<rparr>) = (setAcks b code (ppAckable p) ?st)\<lparr>isIncomplete := True\<rparr>"
      by (simp add: setAcks_def)
    then show ?thesis using f(1) [OF later] by simp
  qed
  show ?thesis
    unfolding acknowledgePage_def Let_def
  proof (rule runs_if, rule runs_requireNotCancelled, rule runs_try, rule runs_call_bind)
    assume "\<not> ieAborted E h"
    then show "inboundPolicy E h ?call" using ids by (simp add: inboundPolicy_def)
  qed (use ok f later later2 in \<open>auto intro!: runs_rules split: sum.split\<close>)
qed

lemma readPage_runs:
  assumes "\<not> ieAborted E h"
  shows "runs (inboundPolicy E) (readPage E a host mbox offset st)
     (\<lambda>x g. (\<exists>n. g = h @ [InList mbox offset n host]) \<and> (\<exists>r. x = Inr r)) h"
  unfolding readPage_def Let_def
  by (intro runs_try runs_bind runs_call)
    (use assms in \<open>auto intro!: runs_rules simp: inboundPolicy_def split: sum.split\<close>)

text \<open>The state after a page was asked for: it was read, or its failure is an outcome.\<close>

lemma stateOk_list:
  assumes "stateOk E m np h st"
  shows "stateOk E m (np + 1) (h @ [InList mbox offset n host]) (st\<lparr>isPages := isPages st + 1\<rparr>)"
    "stateOk E m np (h @ [InList mbox offset n host]) (st\<lparr>isOutcomes := isOutcomes st @ [failedList host' mbox' e], isIncomplete := b\<rparr>)"
  using assms by (fastforce simp: stateOk_def failedList_def intro: archived_later)+

lemma boxLoop_runs:
  "stateOk E (iaMaxMessages a) np h st \<Longrightarrow> runs (inboundPolicy E) (boxLoop n E a host mbox offset st)
     (\<lambda>x g. \<forall>b st1. x = Inr (b, st1) \<longrightarrow> (\<exists>k \<le> np + n. stateOk E (iaMaxMessages a) k g st1)) h"
proof (induction n arbitrary: h st offset np)
  case 0
  then show ?case by (auto intro!: runs_rules)
next
  case (Suc n)
  let ?Q = "\<lambda>x g. \<forall>b st1. x = Inr (b, st1) \<longrightarrow> (\<exists>k \<le> np + Suc n. stateOk E (iaMaxMessages a) k g st1)"
  have keep: "runs (inboundPolicy E) (actPure (Inr (b, s))) ?Q g" if "stateOk E (iaMaxMessages a) k g s" "k \<le> np + Suc n" for b s g k
    using that by (auto intro!: runs_rules)
  have inc: "stateOk E m k g (s\<lparr>isIncomplete := b\<rparr>)" if "stateOk E m k g s" for m k g s b
    using that by (simp add: stateOk_def)
  show ?case
    unfolding boxLoop.simps
  proof (rule runs_if, rule keep [OF Suc.prems], simp, rule runs_requireNotCancelled, rule runs_bindI [OF readPage_runs])
    fix r g assume "(\<exists>k. g = h @ [InList mbox offset k host]) \<and> (\<exists>r'. Inr r = (Inr r' :: jserr + jserr + raw_page))"
    then obtain k where g: "g = h @ [InList mbox offset k host]" by blast
    let ?st1 = "st\<lparr>isPages := isPages st + 1\<rparr>"
    have st1: "stateOk E (iaMaxMessages a) (np + 1) g ?st1" unfolding g by (rule stateOk_list(1) [OF Suc.prems])
    have page: "runs (inboundPolicy E)
        (actBind (processMessages E (iaOwner a) (iaEpoch a) (iaAcknowledge a) (iaMaxMessages a) host mbox (rpMessages page)
            \<lparr>ppState = ?st1, ppAckable = [], ppFailure = False\<rparr>) (\<lambda>(outer, p).
          if outer then actPure (Inr (True, ppState p))
          else actBind (acknowledgePage E a host page p) (\<lambda>(s, st2). case s of
              NextPage off \<Rightarrow> boxLoop n E a host mbox off st2
            | _ \<Rightarrow> actPure (Inr (False, st2))))) ?Q g" for page
    proof (rule runs_bindI, rule processMessages_runs)
      show "pageOk E (iaMaxMessages a) (np + 1) g \<lparr>ppState = ?st1, ppAckable = [], ppFailure = False\<rparr>"
        using st1 by (simp add: pageOk_def ackOk_def)
    next
      fix x :: "bool \<times> page_progress" and g1 assume x: "\<forall>outer q. (Inr x :: jserr + _) = Inr (outer, q) \<longrightarrow> pageOk E (iaMaxMessages a) (np + 1) g1 q"
      obtain outer q where o: "x = (outer, q)" by (cases x)
      with x have q: "pageOk E (iaMaxMessages a) (np + 1) g1 q" by blast
      have more: "runs (inboundPolicy E) (case s of NextPage off \<Rightarrow> boxLoop n E a host mbox off st2 | _ \<Rightarrow> actPure (Inr (False, st2))) ?Q g2"
        if "stateOk E (iaMaxMessages a) (np + 1) g2 st2" for s st2 g2
        using keep [OF that] Suc.IH [OF that] by (cases s) auto
      have "stateOk E (iaMaxMessages a) (np + 1) g1 (ppState q)" using q by (simp add: pageOk_def)
      then show "runs (inboundPolicy E) (case x of (outer, p) \<Rightarrow>
          if outer then actPure (Inr (True, ppState p))
          else actBind (acknowledgePage E a host page p) (\<lambda>(s, st2). case s of
              NextPage off \<Rightarrow> boxLoop n E a host mbox off st2
            | _ \<Rightarrow> actPure (Inr (False, st2)))) ?Q g1"
        unfolding o prod.case using more
        by (intro runs_if keep runs_bindI [OF acknowledgePage_runs [OF q]]) auto
    qed simp
    have f: "stateOk E (iaMaxMessages a) np g (st\<lparr>isOutcomes := isOutcomes st @ [failedList host mbox e], isIncomplete := True\<rparr>)" for e
      unfolding g by (rule stateOk_list(2) [OF Suc.prems])
    show "runs (inboundPolicy E) (case r of
        Inl e \<Rightarrow> actPure (Inr (False, st\<lparr>isOutcomes := isOutcomes st @ [failedList host mbox e], isIncomplete := True\<rparr>))
      | Inr page \<Rightarrow> let st1 = ?st1 in
          if rpMessages page = [] then actPure (Inr (False, if rpMore page then st1\<lparr>isIncomplete := True\<rparr> else st1))
          else actBind (processMessages E (iaOwner a) (iaEpoch a) (iaAcknowledge a) (iaMaxMessages a) host mbox (rpMessages page)
              \<lparr>ppState = st1, ppAckable = [], ppFailure = False\<rparr>) (\<lambda>(outer, p).
            if outer then actPure (Inr (True, ppState p))
            else actBind (acknowledgePage E a host page p) (\<lambda>(s, st2). case s of
                NextPage off \<Rightarrow> boxLoop n E a host mbox off st2
              | _ \<Rightarrow> actPure (Inr (False, st2))))) ?Q g"
    proof (cases r)
      case (Inl e)
      then show ?thesis using keep [OF f] by simp
    next
      case (Inr pg)
      show ?thesis
        unfolding Inr sum.case Let_def
        by (rule runs_if, rule keep) (use st1 inc page in auto)
    qed
  qed (auto simp: Suc.prems)
qed

lemma boxesLoop_runs:
  "stateOk E (iaMaxMessages a) np h st \<Longrightarrow> np \<le> iaMaxPages a \<Longrightarrow> runs (inboundPolicy E) (boxesLoop E a pairs st)
     (\<lambda>x g. \<forall>st1. x = Inr st1 \<longrightarrow> (\<exists>k \<le> iaMaxPages a. stateOk E (iaMaxMessages a) k g st1)) h"
proof (induction pairs arbitrary: h st np)
  case (Cons pr pairs)
  obtain host mbox where pr: "pr = (host, mbox)" by (cases pr)
  have np: "isPages st = np" using Cons.prems by (simp add: stateOk_def)
  have inc: "stateOk E m k g s \<Longrightarrow> stateOk E m k g (s\<lparr>isIncomplete := True\<rparr>)" for m k g s by (simp add: stateOk_def)
  show ?case
    unfolding pr boxesLoop.simps
  proof (rule runs_bindI, rule boxLoop_runs [OF Cons.prems(1)])
    fix x :: "bool \<times> inbound_state" and g assume "\<forall>b st1. (Inr x :: jserr + _) = Inr (b, st1) \<longrightarrow> (\<exists>k \<le> np + (iaMaxPages a - isPages st). stateOk E (iaMaxMessages a) k g st1)"
    then obtain b st1 k where x: "x = (b, st1)" "k \<le> iaMaxPages a" "stateOk E (iaMaxMessages a) k g st1"
      using np Cons.prems(2) by (cases x) auto
    show "runs (inboundPolicy E) (case x of (outer, st1) \<Rightarrow> if outer then actPure (Inr st1)
        else boxesLoop E a pairs (if iaMaxPages a \<le> isPages st1 \<or> iaMaxMessages a \<le> isMessages st1 then st1\<lparr>isIncomplete := True\<rparr> else st1))
        (\<lambda>x g. \<forall>st1. x = Inr st1 \<longrightarrow> (\<exists>k \<le> iaMaxPages a. stateOk E (iaMaxMessages a) k g st1)) g"
      unfolding x(1) prod.case
      by (rule runs_if) (use x inc in \<open>auto intro!: runs_pure Cons.IH\<close>)
  qed auto
qed (auto intro: runs_pure)

text \<open>The pass itself.\<close>

definition boundOr :: "jsval \<Rightarrow> nat \<Rightarrow> nat" where
  "boundOr v d = (if v = Undefined \<or> v = Null then d else nat (safeInt v))"

lemma boundedInteger_Inr: "boundedInteger v (int d) name = Inr n \<Longrightarrow> 1 \<le> d \<Longrightarrow> n = boundOr v d"
  by (auto simp: boundedInteger_def boundOr_def Let_def safeInt_def split: if_splits)

lemma syncPending_runs:
  "runs (inboundPolicy E) (syncPending E o1)
     (\<lambda>x g. \<forall>w ep st. x = Inr (w, ep, st) \<longrightarrow> (\<exists>k \<le> boundOr (inMaxPages o1) 10. stateOk E (boundOr (inMaxMessages o1) 1000) k g st)) []"
  unfolding syncPending_def
proof (intro runs_check runs_requireNotCancelled runs_call_bind, goal_cases)
  case (10 boxes hosts pageSize maxPages maxMessages w ep)
  have "maxPages = boundOr (inMaxPages o1) 10" "maxMessages = boundOr (inMaxMessages o1) 1000"
    using 10 boundedInteger_Inr [of _ 10] boundedInteger_Inr [of _ 1000] by auto
  moreover have "stateOk E m 0 [InIdentity, InCapabilities] inboundStart" for m
    by (simp add: stateOk_def inboundStart_def)
  ultimately show ?case
    by (intro runs_bindI [OF boxesLoop_runs [where np = 0]]) (auto intro!: runs_pure)
qed (auto simp: inboundPolicy_def)

subsection \<open>Properties\<close>

text \<open>C12: Archive before acknowledge: whatever the message box and the history service answer, a pass
  acknowledges a message id only when the history service confirmed, in an earlier call of the same
  pass, that a record with that id is committed (stored or already present); every record is archived
  under the canonical key of its fields with the hash of its exact body; and nothing at all is
  called once the caller has aborted.\<close>

theorem archive_before_acknowledge:
  assumes "snd (syncPending E o1 []) = before @ call # after"
  shows "\<not> ieAborted E before \<and> (case call of
      InArchive ep r key \<Rightarrow> bodyHash (Str (aiBody r)) = Inr (aiBodyHash r) \<and>
        canonicalRecordKey (Str (aiRecipient r)) (Str (js ''inbound'')) (Str (aiMessageBox r)) (Str (aiSender r))
          (Str (aiRecipient r)) (Str (aiMessageId r)) = Inr key
    | InAcknowledge ids host \<Rightarrow> (\<forall>i \<in> set ids. confirmedId E before i)
    | _ \<Rightarrow> True)"
proof -
  have "callsFrom (inboundPolicy E) [] (before @ call # after)"
    using runs_calls [OF syncPending_runs [of E o1]] assms by simp
  from callsFrom_split [OF this refl] show ?thesis by (simp add: inboundPolicy_def)
qed

text \<open>C34: A pass is bounded and reports honestly, in terms of the calls it makes: every page it asks a
  message box for is either counted as read, of which there are at most \<open>maxPages\<close> (10 by default) over
  all hosts and boxes, or reported by an outcome without a record key, so the list calls are the
  pages read plus those outcomes; it calls the archive at most once per message read and reads at
  most \<open>maxMessages\<close> (1000) of them; it counts no more records archived than messages
  read, and reports an acknowledgement only for a record it reports archived.\<close>

theorem inbound_bounded:
  assumes "syncPending E o1 [] = (Inr (w, ep, st), h)"
  shows "lists h = isPages st + unreadable (isOutcomes st) \<and> isPages st \<le> boundOr (inMaxPages o1) 10
    \<and> archives h \<le> isMessages st \<and> isMessages st \<le> boundOr (inMaxMessages o1) 1000 \<and> isArchived st \<le> isMessages st
    \<and> (\<forall>x \<in> set (isOutcomes st). roAck x = Acknowledged \<longrightarrow> roArchive x = Stored \<or> roArchive x = AlreadyPresent)"
proof -
  have "\<exists>k \<le> boundOr (inMaxPages o1) 10. stateOk E (boundOr (inMaxMessages o1) 1000) k h st"
    using runs_result [OF syncPending_runs [of E o1] assms] by blast
  then show ?thesis by (auto simp: stateOk_def goodStatus_def)
qed

subsection \<open>A message that ends the pass\<close>

text \<open>A page that was listed, at most as long as asked for, whose message at \<open>i\<close> gives no valid record.\<close>

definition badAt :: "inbound_env \<Rightarrow> jsval \<Rightarrow> inbound_call list \<Rightarrow> inbound_call \<Rightarrow> raw_message list \<Rightarrow> nat \<Rightarrow> bool" where
  "badAt E w g c msgs i \<longleftrightarrow> (\<exists>mbox off n host v page. c = InList mbox off n host \<and> ieList E g mbox off n host = Inr v
     \<and> validateRawPage v = Inr page \<and> msgs = rpMessages page \<and> length msgs \<le> n \<and> i < length msgs
     \<and> (\<exists>e. inboundRecord w mbox (msgs ! i) = Inl e))"

definition clean :: "inbound_env \<Rightarrow> jsval \<Rightarrow> inbound_call list \<Rightarrow> bool" where
  "clean E w h \<longleftrightarrow> (\<forall>g c rest msgs i. h = g @ c # rest \<longrightarrow> \<not> badAt E w g c msgs i)"

text \<open>After such a page only messages before that one are archived, and nothing else is called.\<close>

definition stopPolicy :: "inbound_env \<Rightarrow> jsval \<Rightarrow> inbound_call list \<Rightarrow> inbound_call \<Rightarrow> bool" where
  "stopPolicy E w h c \<longleftrightarrow> (\<forall>g l mid msgs i. h = g @ l # mid \<and> badAt E w g l msgs i \<longrightarrow>
     (\<exists>ep r key j. c = InArchive ep r key \<and> j < i \<and> aiMessageId r = rmId (msgs ! j)))"

lemma clean_snoc: "clean E w (h @ [c]) \<longleftrightarrow> clean E w h \<and> (\<forall>msgs i. \<not> badAt E w h c msgs i)"
proof
  show "clean E w (h @ [c]) \<Longrightarrow> clean E w h \<and> (\<forall>msgs i. \<not> badAt E w h c msgs i)"
    unfolding clean_def by (metis append.assoc append_Cons)
  show "clean E w h \<and> (\<forall>msgs i. \<not> badAt E w h c msgs i) \<Longrightarrow> clean E w (h @ [c])"
    unfolding clean_def
  proof (intro allI impI, goal_cases)
    case (1 g d rest msgs i)
    then show ?case by (cases rest rule: rev_cases) auto
  qed
qed

lemma clean_allows: "clean E w h \<Longrightarrow> stopPolicy E w h c"
  by (auto simp: clean_def stopPolicy_def)

lemma badAt_list: "badAt E w g c msgs i \<Longrightarrow> \<exists>mbox off n host. c = InList mbox off n host"
  by (auto simp: badAt_def)

text \<open>The history while a page is processed, whose first \<open>k\<close> messages gave records.\<close>

definition onPage :: "inbound_env \<Rightarrow> jsval \<Rightarrow> jsstr \<Rightarrow> nat \<Rightarrow> raw_message list \<Rightarrow> nat \<Rightarrow> inbound_call list \<Rightarrow> bool" where
  "onPage E w mbox n msgs k h \<longleftrightarrow> (\<exists>g off host v page mid. h = g @ InList mbox off n host # mid \<and> clean E w g
     \<and> (\<forall>c \<in> set mid. \<exists>ep r key. c = InArchive ep r key) \<and> ieList E g mbox off n host = Inr v
     \<and> validateRawPage v = Inr page \<and> msgs = rpMessages page \<and> (\<forall>j < k. \<exists>x. inboundRecord w mbox (msgs ! j) = Inr x))"

lemma onPage_bad:
  assumes "onPage E w mbox n msgs k h" "h = g @ l # rest" "badAt E w g l ms i"
  shows "ms = msgs \<and> k \<le> i \<and> length msgs \<le> n \<and> i < length msgs"
proof -
  obtain g0 off host v page mid where h: "h = g0 @ InList mbox off n host # mid" "clean E w g0"
      "\<forall>c \<in> set mid. \<exists>ep r key. c = InArchive ep r key" "ieList E g0 mbox off n host = Inr v"
      "validateRawPage v = Inr page" "msgs = rpMessages page" "\<forall>j < k. \<exists>x. inboundRecord w mbox (msgs ! j) = Inr x"
    using assms(1) unfolding onPage_def by blast
  have l: "\<nexists>ep r key. l = InArchive ep r key" using badAt_list [OF assms(3)] by auto
  have "g = g0"
  proof (rule ccontr)
    assume "g \<noteq> g0"
    from h(1) assms(2) have eq: "g0 @ InList mbox off n host # mid = g @ l # rest" by simp
    then obtain us where "g0 = g @ us \<and> us @ InList mbox off n host # mid = l # rest
        \<or> g0 @ us = g \<and> InList mbox off n host # mid = us @ l # rest"
      by (auto simp: append_eq_append_conv2)
    then show False
    proof
      assume "g0 = g @ us \<and> us @ InList mbox off n host # mid = l # rest"
      then have "\<exists>us'. g0 = g @ l # us'" using \<open>g \<noteq> g0\<close> by (cases us) auto
      then show False using h(2) assms(3) unfolding clean_def by blast
    next
      assume "g0 @ us = g \<and> InList mbox off n host # mid = us @ l # rest"
      then have "l \<in> set mid" using \<open>g \<noteq> g0\<close> by (cases us) auto
      then show False using h(3) l by blast
    qed
  qed
  then have "l = InList mbox off n host" using h(1) assms(2) by simp
  then have b: "ms = msgs" "length msgs \<le> n" "i < length msgs" "\<exists>e. inboundRecord w mbox (msgs ! i) = Inl e"
    using assms(3) h(4,5,6) \<open>g = g0\<close> by (auto simp: badAt_def)
  then have "\<not> i < k" using h(7) by (metis Inl_Inr_False)
  then show ?thesis using b by simp
qed

lemma onPage_archive:
  "onPage E w mbox n msgs (Suc k) h \<Longrightarrow> onPage E w mbox n msgs (Suc k) (h @ [InArchive ep r key])"
  unfolding onPage_def by fastforce

lemma onPage_allows:
  assumes "onPage E w mbox n msgs (Suc k) h" "aiMessageId r = rmId (msgs ! k)"
  shows "stopPolicy E w h (InArchive ep r key)"
  unfolding stopPolicy_def using onPage_bad [OF assms(1)] assms(2) by (metis Suc_le_eq)

lemma onPage_clean: "onPage E w mbox n msgs k h \<Longrightarrow> length msgs \<le> k \<or> n < length msgs \<Longrightarrow> clean E w h"
  unfolding clean_def using onPage_bad by (metis le_trans not_less)

text \<open>A result is only returned from a clean history.\<close>

definition returnsClean :: "inbound_env \<Rightarrow> jsval \<Rightarrow> jserr + 'a \<Rightarrow> inbound_call list \<Rightarrow> bool" where
  "returnsClean E w x h \<longleftrightarrow> (case x of Inl _ \<Rightarrow> True | Inr _ \<Rightarrow> clean E w h)"

lemma returnsClean_simps [simp]: "returnsClean E w (Inl e) h" "returnsClean E w (Inr y) h = clean E w h"
  by (simp_all add: returnsClean_def)

lemma processMessage_stops:
  assumes "onPage E w mbox n msgs k h"
  shows "runs (stopPolicy E w) (processMessage E w ep acknowledge host mbox (msgs ! k) p)
    (\<lambda>x g. \<forall>q. x = Inr q \<longrightarrow> onPage E w mbox n msgs (Suc k) g \<and> isMessages (ppState q) = isMessages (ppState p) + 1) h"
  unfolding processMessage_def
proof (rule runs_check, simp, clarsimp split del: option.split, goal_cases)
  case (1 r key)
  have on: "onPage E w mbox n msgs (Suc k) h"
    using assms 1 unfolding onPage_def by (metis less_Suc_eq)
  have id: "aiMessageId r = rmId (msgs ! k)" using 1 by (auto simp: inboundRecord_def result_simps)
  show ?case
  proof (cases "map_of (isCache (ppState p)) key")
    case (Some c)
    then show ?thesis using on by (cases c) (auto simp: Let_def intro!: runs_if runs_pure)
  next
    case None
    have archive: "runs (stopPolicy E w) (tryArchive E ep r key) (\<lambda>x g. \<exists>y. x = Inr y \<and> onPage E w mbox n msgs (Suc k) g) h"
      unfolding tryArchive_def
      by (rule runs_try, rule runs_call_bind)
        (use onPage_allows [OF on id] onPage_archive [OF on] in \<open>auto intro!: runs_pure split: option.split\<close>)
    show ?thesis
      unfolding Let_def None option.case
      by (rule runs_requireNotCancelled, rule runs_bindI [OF archive]) (auto intro!: runs_if runs_pure split: prod.split)
  qed
qed

lemma processMessages_stops:
  "onPage E w mbox n msgs k h \<Longrightarrow> raws = drop k msgs \<Longrightarrow> (length msgs \<le> n \<longrightarrow> isMessages (ppState p) + length raws \<le> m)
   \<Longrightarrow> runs (stopPolicy E w) (processMessages E w ep acknowledge m host mbox raws p) (returnsClean E w) h"
proof (induction raws arbitrary: k h p)
  case Nil
  then have "clean E w h" by (intro onPage_clean [of E w mbox n msgs k h]) auto
  then show ?case by (auto intro!: runs_pure)
next
  case (Cons raw raws)
  have k: "raw = msgs ! k" "raws = drop (Suc k) msgs" using Cons.prems(2)
    by (metis drop_eq_Nil list.distinct(1) list.sel(1) not_less hd_drop_conv_nth, metis drop_Suc list.sel(3) tl_drop)
  show ?case
    unfolding processMessages.simps
  proof (rule runs_if)
    assume "m \<le> isMessages (ppState p)"
    then have "n < length msgs" using Cons.prems(3) by auto
    then have "clean E w h" using onPage_clean Cons.prems(1) by blast
    then show "runs (stopPolicy E w) (actPure (Inr (True, p\<lparr>ppState := (ppState p)\<lparr>isIncomplete := True\<rparr>\<rparr>)))
        (returnsClean E w) h" by (auto intro!: runs_pure)
  next
    show "runs (stopPolicy E w) (actBind (processMessage E w ep acknowledge host mbox raw p)
        (processMessages E w ep acknowledge m host mbox raws)) (returnsClean E w) h"
      unfolding k(1)
    proof (rule runs_bindI [OF processMessage_stops [OF Cons.prems(1)]])
      fix q g assume "\<forall>q'. (Inr q :: jserr + page_progress) = Inr q' \<longrightarrow> onPage E w mbox n msgs (Suc k) g \<and> isMessages (ppState q') = isMessages (ppState p) + 1"
      then have "onPage E w mbox n msgs (Suc k) g" "isMessages (ppState q) = isMessages (ppState p) + 1" by blast+
      then show "runs (stopPolicy E w) (processMessages E w ep acknowledge m host mbox raws q) (returnsClean E w) g"
        using Cons.prems(3) by (intro Cons.IH [OF _ k(2)]) auto
    qed simp
  qed
qed

lemma acknowledgePage_stops:
  assumes "clean E w h"
  shows "runs (stopPolicy E w) (acknowledgePage E a host page p) (returnsClean E w) h"
proof -
  have call: "clean E w (h @ [InAcknowledge ids host])" for ids using assms by (simp add: clean_snoc badAt_def)
  show ?thesis
    unfolding acknowledgePage_def Let_def
    by (rule runs_if, rule runs_requireNotCancelled, rule runs_try, rule runs_call_bind)
      (use assms call clean_allows [OF assms] in \<open>auto intro!: runs_rules split: sum.split\<close>)
qed

lemma readPage_stops:
  assumes "clean E w h"
  shows "runs (stopPolicy E w) (readPage E a host mbox offset st)
     (\<lambda>x g. case x of Inl _ \<Rightarrow> True | Inr (Inl _) \<Rightarrow> clean E w g
        | Inr (Inr page) \<Rightarrow> onPage E w mbox (min (iaPageSize a) (iaMaxMessages a - isMessages st)) (rpMessages page) 0 g) h"
proof -
  let ?n = "min (iaPageSize a) (iaMaxMessages a - isMessages st)"
  have e: "clean E w (h @ [InList mbox offset ?n host])" if "\<nexists>v page. ieList E h mbox offset ?n host = Inr v \<and> validateRawPage v = Inr page"
    using assms that by (auto simp: clean_snoc badAt_def)
  have p: "onPage E w mbox ?n (rpMessages page) 0 (h @ [InList mbox offset ?n host])"
    if "ieList E h mbox offset ?n host = Inr v" "validateRawPage v = Inr page" for v page
    unfolding onPage_def using assms that
    by (intro exI [of _ h] exI [of _ offset] exI [of _ host] exI [of _ v] exI [of _ page] exI [of _ "[]"]) simp
  show ?thesis
    unfolding readPage_def Let_def
    by (intro runs_try runs_bind runs_call)
      (use e p clean_allows [OF assms] in \<open>auto intro!: runs_rules split: sum.split\<close>)
qed

lemma boxLoop_stops:
  "clean E w h \<Longrightarrow> iaOwner a = w \<Longrightarrow> runs (stopPolicy E w) (boxLoop n E a host mbox offset st) (returnsClean E w) h"
proof (induction n arbitrary: h st offset)
  case (Suc n)
  show ?case
    unfolding boxLoop.simps
  proof (rule runs_if, rule runs_pure, simp add: Suc.prems(1), rule runs_requireNotCancelled,
      rule runs_bindI [OF readPage_stops [OF Suc.prems(1)]])
    fix r g assume low: "\<not> iaMaxMessages a \<le> isMessages st" and r: "case (Inr r :: jserr + jserr + raw_page) of Inl _ \<Rightarrow> True | Inr (Inl _) \<Rightarrow> clean E w g
        | Inr (Inr page) \<Rightarrow> onPage E w mbox (min (iaPageSize a) (iaMaxMessages a - isMessages st)) (rpMessages page) 0 g"
    show "runs (stopPolicy E w) (case r of
        Inl e \<Rightarrow> actPure (Inr (False, st\<lparr>isOutcomes := isOutcomes st @ [failedList host mbox e], isIncomplete := True\<rparr>))
      | Inr page \<Rightarrow> let st1 = st\<lparr>isPages := isPages st + 1\<rparr> in
          if rpMessages page = [] then actPure (Inr (False, if rpMore page then st1\<lparr>isIncomplete := True\<rparr> else st1))
          else actBind (processMessages E (iaOwner a) (iaEpoch a) (iaAcknowledge a) (iaMaxMessages a) host mbox (rpMessages page)
              \<lparr>ppState = st1, ppAckable = [], ppFailure = False\<rparr>) (\<lambda>(outer, p).
            if outer then actPure (Inr (True, ppState p))
            else actBind (acknowledgePage E a host page p) (\<lambda>(s, st2). case s of
                NextPage off \<Rightarrow> boxLoop n E a host mbox off st2
              | _ \<Rightarrow> actPure (Inr (False, st2))))) (returnsClean E w) g"
    proof (cases r)
      case (Inl e)
      then show ?thesis using r by (auto intro!: runs_pure)
    next
      case (Inr page)
      let ?n = "min (iaPageSize a) (iaMaxMessages a - isMessages st)"
      have on: "onPage E w mbox ?n (rpMessages page) 0 g" using r Inr by simp
      have c0: "rpMessages page = [] \<Longrightarrow> clean E w g" using onPage_clean [OF on] by simp
      have fit: "length (rpMessages page) \<le> ?n \<longrightarrow> isMessages (st\<lparr>isPages := isPages st + 1\<rparr>) + length (rpMessages page) \<le> iaMaxMessages a"
        using low by auto
      have next_page: "runs (stopPolicy E w) (case s of NextPage off \<Rightarrow> boxLoop n E a host mbox off st2 | _ \<Rightarrow> actPure (Inr (False, st2)))
          (returnsClean E w) g2" if "clean E w g2" for s st2 g2
        using Suc.IH [OF that Suc.prems(2)] that by (cases s) (auto intro!: runs_pure)
      show ?thesis
        unfolding Inr sum.case Let_def Suc.prems(2)
        by (rule runs_if, rule runs_pure, simp add: c0,
            rule runs_bindI [OF processMessages_stops [OF on]])
          (use fit in \<open>auto intro!: runs_if runs_pure runs_bindI [OF acknowledgePage_stops] next_page split: prod.split\<close>)
    qed
  qed simp_all
qed (auto intro!: runs_pure)

lemma boxesLoop_stops:
  "clean E w h \<Longrightarrow> iaOwner a = w \<Longrightarrow> runs (stopPolicy E w) (boxesLoop E a pairs st) (returnsClean E w) h"
proof (induction pairs arbitrary: h st)
  case (Cons pr pairs)
  obtain host mbox where pr: "pr = (host, mbox)" by (cases pr)
  show ?case
    unfolding pr boxesLoop.simps
    by (rule runs_bindI [OF boxLoop_stops [OF Cons.prems]])
      (auto intro!: runs_pure Cons.IH [OF _ Cons.prems(2)] split: prod.split)
qed (auto intro!: runs_pure)

lemma syncPending_stops:
  assumes "ieIdentity E [] = Inr w"
  shows "runs (stopPolicy E w) (syncPending E o1) (returnsClean E w) []"
proof -
  have c: "clean E w []" "clean E w [InIdentity]" "clean E w [InIdentity, InCapabilities]"
    using clean_snoc [of E w "[]"] clean_snoc [of E w "[InIdentity]"] by (simp_all add: clean_def badAt_def)
  show ?thesis
    unfolding syncPending_def
  proof (intro runs_check runs_requireNotCancelled runs_call_bind, goal_cases)
    case (10 boxes hosts pageSize maxPages maxMessages owner ep)
    then have "owner = w" using assms by simp
    then show ?case using c(3) by (intro runs_bindI [OF boxesLoop_stops]) (auto intro!: runs_pure)
  qed (use c clean_allows in auto)
qed

text \<open>C35: One message can stop a pass. Take any page a pass lists, of any box and host and at any point of
  the pass, no longer than asked for. If one of its messages gives no valid record (its id has a
  control character or more than 256 characters, say, which the check of the page lets through),
  the pass as a whole fails, so none of its outcomes is reported; and after that
  list call it only archives messages that stand before that one in the page: nothing at or after it
  is archived, no message of the page is acknowledged, and no other page, box or host is read.\<close>

theorem invalid_message_ends_pass:
  assumes "ieIdentity E [] = Inr w" "snd (syncPending E o1 []) = before @ InList mbox off n host # after"
    and "ieList E before mbox off n host = Inr v" "validateRawPage v = Inr page" "length (rpMessages page) \<le> n"
    and "i < length (rpMessages page)" "inboundRecord w mbox (rpMessages page ! i) = Inl e"
  shows "(\<exists>e'. fst (syncPending E o1 []) = Inl e') \<and> (\<forall>c \<in> set after. \<exists>ep r key j. c = InArchive ep r key
    \<and> j < i \<and> aiMessageId r = rmId (rpMessages page ! j))"
proof -
  note R = syncPending_stops [OF assms(1), of o1]
  have bad: "badAt E w before (InList mbox off n host) (rpMessages page) i"
    using assms(3-7) by (auto simp: badAt_def)
  then have "\<not> clean E w (snd (syncPending E o1 []))" using assms(2) unfolding clean_def by blast
  then have "\<forall>y. fst (syncPending E o1 []) \<noteq> Inr y" using R unfolding runs_def by (metis returnsClean_simps(2))
  then have "\<exists>e'. fst (syncPending E o1 []) = Inl e'" by (cases "fst (syncPending E o1 [])") auto
  moreover have "\<exists>ep r key j. c = InArchive ep r key \<and> j < i \<and> aiMessageId r = rmId (rpMessages page ! j)" if "c \<in> set after" for c
  proof -
    from split_list [OF that] obtain us vs where "after = us @ c # vs" by blast
    then have "snd (syncPending E o1 []) = (before @ InList mbox off n host # us) @ c # vs" using assms(2) by simp
    from callsFrom_split [OF runs_calls [OF R] this]
    have "stopPolicy E w (before @ InList mbox off n host # us) c" by simp
    then show ?thesis using bad unfolding stopPolicy_def by blast
  qed
  ultimately show ?thesis by blast
qed

subsection \<open>A pass evaluated\<close>

definition m0Raw :: "jsstr \<Rightarrow> raw_message" where
  "m0Raw i = \<lparr>rmId = i, rmSender = m0Recipient, rmBody = encryptedBody [1, 2, 3]\<rparr>"

definition m0Page :: "jsstr \<Rightarrow> jsval" where
  "m0Page i = Obj [(js ''messages'', Arr [Obj [(js ''messageId'', Str i), (js ''sender'', Str m0Recipient),
     (js ''body'', Str (encryptedBody [1, 2, 3]))]]), (js ''hasMore'', Boolean False), (js ''offset'', IntNum 0)]"

definition m0Inbound :: "jsstr \<Rightarrow> inbound_env" where
  "m0Inbound i = \<lparr>ieHost = js ''https://box.test'', ieTrusted = [], ieAborted = (\<lambda>h. False),
     ieIdentity = (\<lambda>h. Inr (Str m0Owner)), ieEpoch = (\<lambda>h. Inr (js ''1'')),
     ieList = (\<lambda>h mbox off n host. Inr (m0Page i)),
     ieArchive = (\<lambda>h ep r key. Inr \<lparr>baCommitted = Boolean True,
       baOutcomes = [\<lparr>ioIndex = IntNum 0, ioRecordKey = Str key, ioOutcome = Str (js ''stored''), ioErrorCode = None\<rparr>]\<rparr>),
     ieAcknowledge = (\<lambda>h ids host. Inr ())\<rparr>"

definition m0Options :: inbound_options where
  "m0Options = \<lparr>inBoxes = Arr [Str (js ''general_inbox'')], inHosts = Undefined, inAcknowledge = Boolean True,
     inPageSize = Undefined, inMaxPages = IntNum 1, inMaxMessages = Undefined\<rparr>"

lemma exactBody: "exactEncryptedBody (encryptedBody [1, 2, 3]) = Inr (encryptedBody [1, 2, 3])"
proof -
  let ?e = "encryptedBody [1, 2, 3]"
  have x: "assertNoDuplicateTopLevelKeys (Str ?e) = Inr ()" "jsonParse ?e = Some (Obj [(js ''encryptedMessage'', Str (base64Encode [1, 2, 3]))])"
    "isCanonicalBase64 (Str (base64Encode [1, 2, 3]))"
    using extract_encryptedBody [of "[1, 2, 3]"] by (simp_all add: extract_Inr del: base64Encode.simps)
  have "js ''encryptedMessage'' \<noteq> js ''message''" by simp
  then show ?thesis
    by (simp add: exactEncryptedBody_def extractEncryptedMessage_def parseJsonBody_def x unwrapMessage_def field_def getProp_def
        del: base64Encode.simps js_eq)
qed

lemma m0Page_ok: "i \<noteq> [] \<Longrightarrow> validateRawPage (m0Page i) = Inr \<lparr>rpMessages = [m0Raw i], rpMore = False, rpNext = 1\<rparr>"
  by (simp add: validateRawPage_def m0Page_def validateRawMessage_def isRecord_def field_def getProp_def exactBody m0Raw_def safeOffset_def
      safeInt_def isSafeInteger_def)

lemma m0Options_ok:
  "validatedBoxes (inBoxes m0Options) = Inr [js ''general_inbox'']" "configuredHosts (m0Inbound i) (inHosts m0Options) = Inr [js ''https://box.test'']"
  "boundedInteger (inPageSize m0Options) 100 ''pageSize'' = Inr 100" "boundedInteger (inMaxPages m0Options) 10 ''maxPages'' = Inr (Suc 0)"
  "boundedInteger (inMaxMessages m0Options) 1000 ''maxMessages'' = Inr (Suc 999)"
  by (simp_all add: m0Options_def validatedBoxes_def jsTrim_def js_def isTrimmed_def setAdd_def configuredHosts_def m0Inbound_def
      boundedInteger_def positiveSafe_def safeInt_def isSafeInteger_def Let_def)

lemma m0Raw_bell: "\<exists>e. inboundRecord (Str m0Owner) (js ''general_inbox'') (m0Raw [0x61, 0x07]) = Inl e"
proof -
  have "\<not> is_ok (validateMessageId (Str [0x61, 0x07]))"
    by (simp add: validateMessageId_def assertExactString_def isControl_def is_ok_def)
  then have "canonicalRecordKey (Str m0Owner) (Str (js ''inbound'')) (Str (js ''general_inbox'')) (Str m0Recipient) (Str m0Owner)
      (Str [0x61, 0x07]) \<noteq> Inr key" for key
    by (simp add: canonicalRecordKey_Inr recordFields_def)
  then show ?thesis
    by (cases "inboundRecord (Str m0Owner) (js ''general_inbox'') (m0Raw [0x61, 0x07])") (auto simp: inboundRecord_def m0Raw_def result_simps)
qed

lemma m0Raw_good: "\<exists>r key. inboundRecord (Str m0Owner) (js ''general_inbox'') (m0Raw (js ''m0-vector-1'')) = Inr (r, key)
  \<and> aiMessageId r = js ''m0-vector-1''"
proof -
  have "recordFields (Str m0Owner) (Str (js ''inbound'')) (Str (js ''general_inbox'')) (Str m0Recipient) (Str m0Owner) (Str (js ''m0-vector-1''))"
    using m0_fields by (simp add: recordFields_def validateDirection_def)
  then have "\<exists>key. canonicalRecordKey (Str m0Owner) (Str (js ''inbound'')) (Str (js ''general_inbox'')) (Str m0Recipient) (Str m0Owner)
      (Str (js ''m0-vector-1'')) = Inr key" by (simp only: canonicalRecordKey_Inr) blast
  then show ?thesis by (auto simp: inboundRecord_def m0Raw_def bodyHash_def encryptedBody_valid)
qed

text \<open>A page with a good message and, behind it, one whose id has a bell character: the first is archived, and
  the pass fails without an outcome and without an acknowledgement.\<close>

definition m0PairPage :: jsval where
  "m0PairPage = Obj [(js ''messages'', Arr [
     Obj [(js ''messageId'', Str (js ''m0-vector-1'')), (js ''sender'', Str m0Recipient), (js ''body'', Str (encryptedBody [1, 2, 3]))],
     Obj [(js ''messageId'', Str [0x61, 0x07]), (js ''sender'', Str m0Recipient), (js ''body'', Str (encryptedBody [1, 2, 3]))]]),
     (js ''hasMore'', Boolean False), (js ''offset'', IntNum 0)]"

definition m0Pair :: inbound_env where
  "m0Pair = (m0Inbound [])\<lparr>ieList := (\<lambda>h mbox off n host. Inr m0PairPage)\<rparr>"

lemma m0PairPage_ok:
  "validateRawPage m0PairPage = Inr \<lparr>rpMessages = [m0Raw (js ''m0-vector-1''), m0Raw [0x61, 0x07]], rpMore = False, rpNext = 2\<rparr>"
proof -
  have "js ''m0-vector-1'' \<noteq> []" by (simp add: js_def)
  then show ?thesis
    by (simp add: validateRawPage_def m0PairPage_def validateRawMessage_def isRecord_def field_def getProp_def exactBody m0Raw_def
        safeOffset_def safeInt_def isSafeInteger_def)
qed

lemma m0Pair_run:
  "\<exists>e r key. syncPending m0Pair m0Options [] = (Inl e, [InIdentity, InCapabilities]
     @ InList (js ''general_inbox'') 0 100 (js ''https://box.test'') # [InArchive (js ''1'') r key])"
proof -
  obtain e where e: "inboundRecord (Str m0Owner) (js ''general_inbox'') (m0Raw [0x61, 0x07]) = Inl e" using m0Raw_bell by blast
  obtain r key where r: "inboundRecord (Str m0Owner) (js ''general_inbox'') (m0Raw (js ''m0-vector-1'')) = Inr (r, key)"
    using m0Raw_good by blast
  have E: "ieAborted m0Pair h = False" "ieIdentity m0Pair h = Inr (Str m0Owner)" "ieEpoch m0Pair h = Inr (js ''1'')"
    "ieList m0Pair h b off n host = Inr m0PairPage"
    "ieArchive m0Pair h ep r key = Inr \<lparr>baCommitted = Boolean True,
       baOutcomes = [\<lparr>ioIndex = IntNum 0, ioRecordKey = Str key, ioOutcome = Str (js ''stored''), ioErrorCode = None\<rparr>]\<rparr>"
    for h b off n host ep r key by (simp_all add: m0Pair_def m0Inbound_def)
  have hosts: "configuredHosts m0Pair (inHosts m0Options) = Inr [js ''https://box.test'']"
    using m0Options_ok(2) [of "[]"] by (simp add: configuredHosts_def m0Pair_def)
  show ?thesis
    by (simp add: syncPending_def actBind_def actPure_def actCall_def actTry_def actSees_def requireNotCancelled_def tryArchive_def
        archiveStatus_def boxesLoop.simps readPage_def processMessage_def inboundStart_def m0Options_ok hosts E m0PairPage_ok e r
        newOutcome_def Let_def del: js_eq)
qed

theorem invalid_message_ends_pass_witness:
  "\<exists>e ep r key. fst (syncPending m0Pair m0Options []) = Inl e
    \<and> InArchive ep r key \<in> set (snd (syncPending m0Pair m0Options [])) \<and> aiMessageId r = js ''m0-vector-1''"
proof -
  obtain e where e: "inboundRecord (Str m0Owner) (js ''general_inbox'') (m0Raw [0x61, 0x07]) = Inl e" using m0Raw_bell by blast
  obtain e' ep r key where run: "snd (syncPending m0Pair m0Options []) = [InIdentity, InCapabilities]
     @ InList (js ''general_inbox'') 0 100 (js ''https://box.test'') # [InArchive ep r key]"
    using m0Pair_run by auto
  have "(\<exists>e'. fst (syncPending m0Pair m0Options []) = Inl e') \<and> (\<forall>c \<in> set [InArchive ep r key]. \<exists>ep r key j. c = InArchive ep r key
      \<and> j < 1 \<and> aiMessageId r = rmId ([m0Raw (js ''m0-vector-1''), m0Raw [0x61, 0x07]] ! j))"
    using invalid_message_ends_pass [OF _ run, where w = "Str m0Owner" and v = m0PairPage and i = 1 and e = e] m0PairPage_ok e
    by (simp add: m0Pair_def m0Inbound_def)
  then show ?thesis using run by (auto simp: m0Raw_def)
qed

text \<open>The message is listed, archived and acknowledged.\<close>

lemma m0_pass:
  "\<exists>r key st. syncPending (m0Inbound (js ''m0-vector-1'')) m0Options [] = (Inr (Str m0Owner, js ''1'', st),
     [InIdentity, InCapabilities, InList (js ''general_inbox'') 0 100 (js ''https://box.test''), InArchive (js ''1'') r key,
      InAcknowledge [js ''m0-vector-1''] (js ''https://box.test'')])
   \<and> isAcked st = 1 \<and> isArchived st = 1"
proof -
  obtain r key where r: "inboundRecord (Str m0Owner) (js ''general_inbox'') (m0Raw (js ''m0-vector-1'')) = Inr (r, key)"
    "aiMessageId r = js ''m0-vector-1''" using m0Raw_good by blast
  have ne: "js ''m0-vector-1'' \<noteq> []" by (simp add: js_def)
  define E where "E = m0Inbound (js ''m0-vector-1'')"
  have E: "ieAborted E h = False" "ieIdentity E h = Inr (Str m0Owner)" "ieEpoch E h = Inr (js ''1'')"
    "ieList E h b off n host = Inr (m0Page (js ''m0-vector-1''))" "ieAcknowledge E h ids host = Inr ()"
    "ieArchive E h ep r key = Inr \<lparr>baCommitted = Boolean True,
       baOutcomes = [\<lparr>ioIndex = IntNum 0, ioRecordKey = Str key, ioOutcome = Str (js ''stored''), ioErrorCode = None\<rparr>]\<rparr>"
    for h b off n host ids ep r key by (simp_all add: E_def m0Inbound_def)
  have hosts: "configuredHosts E (inHosts m0Options) = Inr [js ''https://box.test'']" unfolding E_def by (rule m0Options_ok(2))
  have o1: "inAcknowledge m0Options = Boolean True" by (simp add: m0Options_def)
  have i: "rmId (m0Raw i) = i" for i by (simp add: m0Raw_def)
  show ?thesis
    unfolding E_def [symmetric]
    by (simp add: syncPending_def actBind_def actPure_def actCall_def actTry_def actSees_def requireNotCancelled_def tryArchive_def
        archiveStatus_def readPage_def processMessage_def acknowledgePage_def setAcks_def inboundStart_def m0Options_ok hosts E o1 i
        m0Page_ok [OF ne] r(1) newOutcome_def Let_def del: js_eq)
qed

theorem archive_before_acknowledge_witness:
  "\<exists>r key. confirmedId (m0Inbound (js ''m0-vector-1''))
     [InIdentity, InCapabilities, InList (js ''general_inbox'') 0 100 (js ''https://box.test''), InArchive (js ''1'') r key] (js ''m0-vector-1'')"
proof -
  obtain r key st where run: "syncPending (m0Inbound (js ''m0-vector-1'')) m0Options [] = (Inr (Str m0Owner, js ''1'', st),
     [InIdentity, InCapabilities, InList (js ''general_inbox'') 0 100 (js ''https://box.test''), InArchive (js ''1'') r key,
      InAcknowledge [js ''m0-vector-1''] (js ''https://box.test'')])" using m0_pass by blast
  have "snd (syncPending (m0Inbound (js ''m0-vector-1'')) m0Options []) =
      [InIdentity, InCapabilities, InList (js ''general_inbox'') 0 100 (js ''https://box.test''), InArchive (js ''1'') r key]
      @ InAcknowledge [js ''m0-vector-1''] (js ''https://box.test'') # []" by (simp add: run)
  from archive_before_acknowledge [OF this] show ?thesis by auto
qed

theorem inbound_bounded_witness:
  "\<exists>st h. syncPending (m0Inbound (js ''m0-vector-1'')) m0Options [] = (Inr (Str m0Owner, js ''1'', st), h)
     \<and> lists h = 1 \<and> isPages st + unreadable (isOutcomes st) = 1 \<and> archives h = 1 \<and> 1 \<le> isMessages st"
proof -
  obtain r key st where run: "syncPending (m0Inbound (js ''m0-vector-1'')) m0Options [] = (Inr (Str m0Owner, js ''1'', st),
     [InIdentity, InCapabilities, InList (js ''general_inbox'') 0 100 (js ''https://box.test''), InArchive (js ''1'') r key,
      InAcknowledge [js ''m0-vector-1''] (js ''https://box.test'')])" using m0_pass by blast
  then show ?thesis using inbound_bounded [OF run] by auto
qed

end
