(* ===== verification/Restore.thy ===== *)
theory Restore
  imports Canonical ServiceInput Calls Feeds
begin

section \<open>Restore recovery\<close>

text \<open>
  \<open>src/restore-recovery.mjs\<close>: the check of an externally kept receipt bundle, and the transaction that
  fences one restored owner. The MySQL tables the transaction touches are lists of rows, each SQL
  statement a function on them; a transaction that throws leaves no state. The messages
  leave out the index of the receipt they name. \<open>Date.parse\<close>, whose answer on
  impossible days is up to the implementation, is a parameter.
\<close>

record recovery_input =
  riId :: jsstr
  riOwner :: jsstr
  riRestored :: jsstr
  riRecovery :: jsstr
  riBackup :: jsstr
  riThrough :: jsstr
  riRetention :: jsstr
  riDeletions :: "(jsstr \<times> jsstr) list"

definition recoveryError :: "string \<Rightarrow> string \<Rightarrow> jserr" where
  "recoveryError c message = JsErr PlainError (Some (Other_Code c)) message"

abbreviation manifestError :: "string \<Rightarrow> jserr" where
  "manifestError \<equiv> recoveryError ''ERR_RECOVERY_MANIFEST''"

abbreviation stateError :: "string \<Rightarrow> jserr" where
  "stateError \<equiv> recoveryError ''ERR_RECOVERY_STATE''"

subsection \<open>The receipt bundle\<close>

definition recoveryIdRe :: "jsstr \<Rightarrow> bool" where
  "recoveryIdRe s \<longleftrightarrow> 1 \<le> length s \<and> length s \<le> 64 \<and> list_all (\<lambda>u. isAlnum u \<or> u = 0x5F \<or> u = 0x2D) s"

definition instantRe :: "jsstr \<Rightarrow> bool" where
  "instantRe s \<longleftrightarrow>
     (let d = (\<lambda>i n. length (take n (drop i s)) = n \<and> list_all isDigit (take n (drop i s))); rest = drop 19 s in
      d 0 4 \<and> s ! 4 = 0x2D \<and> d 5 2 \<and> s ! 7 = 0x2D \<and> d 8 2 \<and> s ! 10 = 0x54 \<and> d 11 2 \<and> s ! 13 = 0x3A \<and> d 14 2 \<and> s ! 16 = 0x3A
      \<and> d 17 2 \<and> (rest = [0x5A] \<or> (case rest of
          u # t \<Rightarrow> u = 0x2E \<and> 2 \<le> length t \<and> length t \<le> 7 \<and> last t = 0x5A \<and> list_all isDigit (butlast t)
        | [] \<Rightarrow> False)))"

definition canonicalInstant :: "(jsstr \<Rightarrow> int option) \<Rightarrow> jsval \<Rightarrow> string \<Rightarrow> (jsstr \<times> int) result" where
  "canonicalInstant dateParse v name = (case v of
      Str s \<Rightarrow> if \<not> instantRe s then Inl (manifestError (name @ '' must be a canonical UTC instant''))
        else (case dateParse s of None \<Rightarrow> Inl (manifestError (name @ '' is invalid'')) | Some t \<Rightarrow> Inr (s, t))
    | _ \<Rightarrow> Inl (manifestError (name @ '' must be a canonical UTC instant'')))"

definition mysqlInstant :: "jsstr \<Rightarrow> jsstr" where
  "mysqlInstant dt = (let s = butlast dt; i = length (takeWhile (\<lambda>u. u \<noteq> 0x54) s) in
     if i < length s then s[i := 0x20] else s)"

fun validateReceipts ::
  "(jsstr \<Rightarrow> int option) \<Rightarrow> int \<Rightarrow> int \<Rightarrow> jsval list \<Rightarrow> jsstr list \<Rightarrow> (jsstr \<times> jsstr) list result" where
  "validateReceipts dateParse backup thru [] seen = Inr []"
| "validateReceipts dateParse backup thru (v # vs) seen =
     (case (isRecord v, field v ''recordKey'') of
        (True, Str k) \<Rightarrow>
          if \<not> isRecordKey (Str k) then Inl (manifestError ''deletions.recordKey is invalid'')
          else if k \<in> set seen then Inl (manifestError ''duplicate deletion receipt'')
          else andThen (canonicalInstant dateParse (field v ''deletedAt'') ''deletions.deletedAt'') (\<lambda>(dt, t).
            if t < backup \<or> thru < t then Inl (manifestError ''deletions is outside receipt coverage'')
            else andThen (validateReceipts dateParse backup thru vs (k # seen)) (\<lambda>ds. Inr ((k, dt) # ds)))
      | _ \<Rightarrow> Inl (manifestError ''deletions.recordKey is invalid''))"

definition asManifest :: "'a result \<Rightarrow> 'a result" where
  "asManifest r = (case r of Inl e \<Rightarrow> Inl (manifestError (err_msg e)) | Inr x \<Rightarrow> Inr x)"

definition recoveryIdOf :: "jsval \<Rightarrow> jsstr result" where
  "recoveryIdOf v = (case v of
      Str s \<Rightarrow> if recoveryIdRe s then Inr s else Inl (manifestError ''recoveryId must be 1..64 [A-Za-z0-9_-] chars'')
    | _ \<Rightarrow> Inl (manifestError ''recoveryId must be 1..64 [A-Za-z0-9_-] chars''))"

definition deletionsOf :: "(jsstr \<Rightarrow> int option) \<Rightarrow> int \<Rightarrow> int \<Rightarrow> jsval \<Rightarrow> (jsstr \<times> jsstr) list result" where
  "deletionsOf dateParse backup thru v = (case v of
      Arr vs \<Rightarrow> validateReceipts dateParse backup thru vs []
    | _ \<Rightarrow> Inl (manifestError ''deletions must be an array''))"

text \<open>The instants and the deletions of a bundle that asserts its receipts complete.\<close>

definition receiptCoverage :: "(jsstr \<Rightarrow> int option) \<Rightarrow> jsval \<Rightarrow> (jsstr \<times> jsstr \<times> jsstr \<times> (jsstr \<times> jsstr) list) result" where
  "receiptCoverage dateParse bundle =
     andThen (canonicalInstant dateParse (field bundle ''backupCreatedAt'') ''backupCreatedAt'') (\<lambda>(backup, tb).
     andThen (canonicalInstant dateParse (field bundle ''receiptsCompleteThrough'') ''receiptsCompleteThrough'') (\<lambda>(thru, tc).
     andThen (canonicalInstant dateParse (field bundle ''backupRetentionUntil'') ''backupRetentionUntil'') (\<lambda>(retention, tr).
     andThen (require (\<not> tc < tb) (manifestError ''receipt coverage predates the backup'')) (\<lambda>_.
     andThen (require (\<not> tr \<le> tb) (manifestError ''backup retention must end after backup creation'')) (\<lambda>_.
     andThen (deletionsOf dateParse tb tc (field bundle ''deletions'')) (\<lambda>ds. Inr (backup, thru, retention, ds)))))))"

definition validateRestoreRecoveryBundle :: "(jsstr \<Rightarrow> int option) \<Rightarrow> jsval \<Rightarrow> recovery_input result" where
  "validateRestoreRecoveryBundle dateParse bundle =
     andThen (require (isRecord bundle) (manifestError ''recovery bundle must be an object'')) (\<lambda>_.
     andThen (require (strictEq (field bundle ''version'') (IntNum 1)) (manifestError ''recovery bundle version must be 1'')) (\<lambda>_.
     andThen (recoveryIdOf (field bundle ''recoveryId'')) (\<lambda>rid.
     andThen (require (isIdentityKey (field bundle ''owner'')) (manifestError ''owner must be a compressed lowercase identity key'')) (\<lambda>_.
     andThen (asManifest (validateEpoch (field bundle ''restoredEpoch''))) (\<lambda>restored.
     andThen (asManifest (validateEpoch (field bundle ''recoveryEpoch''))) (\<lambda>recovery.
     andThen (require (restored \<noteq> recovery) (manifestError ''recoveryEpoch must be fresh'')) (\<lambda>_.
     andThen (require (field bundle ''deletionReceiptsComplete'' = Boolean True)
        (recoveryError ''ERR_RECOVERY_RECEIPTS_INCOMPLETE'' ''deletion receipts are not asserted complete; keep service offline'')) (\<lambda>_.
     andThen (receiptCoverage dateParse bundle) (\<lambda>(backup, thru, retention, ds).
     Inr \<lparr>riId = rid, riOwner = strOf (field bundle ''owner''), riRestored = restored, riRecovery = recovery, riBackup = backup,
          riThrough = thru, riRetention = retention, riDeletions = ds\<rparr>)))))))))"

subsection \<open>The tables\<close>

record owner_row =
  owEpoch :: jsstr
  owNext :: nat
  owCount :: nat
  owBytes :: nat

record deletion_change =
  dcOwner :: jsstr
  dcSeq :: nat
  dcKey :: jsstr
  dcKind :: string
  dcDeletedAt :: jsstr

record recovery_db =
  rdLocks :: "jsstr list"
  rdOwners :: "(jsstr \<times> owner_row) list"
  rdRecords :: "(jsstr \<times> jsstr \<times> nat) list"
  rdChanges :: "deletion_change list"
  rdTombs :: "((jsstr \<times> jsstr) \<times> (jsstr \<times> nat)) list"
  rdSnapshots :: "(jsstr \<times> string) list"
  rdIdempotency :: "(jsstr \<times> jsstr) list"
  rdAudit :: "(jsstr \<times> string \<times> jsstr) list"

record recovery_result =
  rcId :: jsstr
  rcOwner :: jsstr
  rcEpoch :: jsstr
  rcDeleted :: nat
  rcReplayed :: bool

definition inputJson :: "recovery_input \<Rightarrow> json" where
  "inputJson i = JObj [(js ''version'', JInt 1), (js ''recoveryId'', JStr (riId i)), (js ''owner'', JStr (riOwner i)),
     (js ''restoredEpoch'', JStr (riRestored i)), (js ''recoveryEpoch'', JStr (riRecovery i)),
     (js ''deletionReceiptsComplete'', JBool True), (js ''backupCreatedAt'', JStr (riBackup i)),
     (js ''receiptsCompleteThrough'', JStr (riThrough i)), (js ''backupRetentionUntil'', JStr (riRetention i)),
     (js ''deletions'', JArr (map (\<lambda>(k, d). JObj [(js ''recordKey'', JStr k), (js ''deletedAt'', JStr d)]) (riDeletions i)))]"

definition digestOf :: "recovery_input \<Rightarrow> jsstr" where
  "digestOf i = sha256Hex (utf8Bytes (stringify (inputJson i)))"

definition markerJson :: "recovery_input \<Rightarrow> json" where
  "markerJson i = JObj [(js ''recoveryId'', JStr (riId i)), (js ''recoveryEpoch'', JStr (riRecovery i)), (js ''digest'', JStr (digestOf i))]"

definition lockOwner :: "jsstr \<Rightarrow> recovery_db \<Rightarrow> recovery_db" where
  "lockOwner owner db = (if owner \<in> set (rdLocks db) then db else db\<lparr>rdLocks := rdLocks db @ [owner]\<rparr>)"

text \<open>The earlier recovery with this id: the details of the owner's audit rows that parse.\<close>

definition existingRecovery :: "recovery_input \<Rightarrow> recovery_db \<Rightarrow> jsval option" where
  "existingRecovery i db =
     find (\<lambda>v. field v ''recoveryId'' = Str (riId i))
       (map (\<lambda>(own, kind, detail). case jsonParse detail of None \<Rightarrow> Null | Some v \<Rightarrow> v)
         (filter (\<lambda>(own, kind, detail). own = riOwner i \<and> kind = ''restore_recovery'') (rdAudit db)))"

definition ownerSeqs :: "jsstr \<Rightarrow> recovery_db \<Rightarrow> nat list" where
  "ownerSeqs owner db = map dcSeq (filter (\<lambda>c. dcOwner c = owner) (rdChanges db))"

definition UINT64_MAX :: nat where
  "UINT64_MAX = 18446744073709551615"

text \<open>One receipt: the record goes, a delete event takes the next sequence, the tombstone names it.\<close>

definition applyReceipt :: "jsstr \<Rightarrow> jsstr \<times> jsstr \<Rightarrow> nat \<Rightarrow> recovery_db \<Rightarrow> recovery_db result" where
  "applyReceipt owner receipt sequence db = (case receipt of (key, dt) \<Rightarrow>
     let db1 = db\<lparr>rdRecords := filter (\<lambda>(own, k, n). \<not> (own = owner \<and> k = key)) (rdRecords db)\<rparr> in
     if sequence \<in> set (ownerSeqs owner db1) then Inl (JsErr PlainError (Some (Other_Code ''ER_DUP_ENTRY'')) ''Duplicate entry'')
     else Inr (db1\<lparr>rdChanges := rdChanges db1 @ [\<lparr>dcOwner = owner, dcSeq = sequence, dcKey = key, dcKind = ''delete'',
            dcDeletedAt = mysqlInstant dt\<rparr>],
          rdTombs := aset (owner, key) (mysqlInstant dt, sequence) (rdTombs db1)\<rparr>))"

fun applyReceipts :: "jsstr \<Rightarrow> (jsstr \<times> jsstr) list \<Rightarrow> nat \<Rightarrow> recovery_db \<Rightarrow> (nat \<times> recovery_db) result" where
  "applyReceipts owner [] sequence db = Inr (sequence, db)"
| "applyReceipts owner (r # rs) sequence db =
     andThen (applyReceipt owner r sequence db) (applyReceipts owner rs (sequence + 1))"

text \<open>Snapshots, idempotency, the owner's row recomputed from the records, and the audit marker.\<close>

definition closeRecovery :: "recovery_input \<Rightarrow> nat \<Rightarrow> recovery_db \<Rightarrow> recovery_db" where
  "closeRecovery i sequence db =
     (let owner = riOwner i; mine = filter (\<lambda>(own, k, n). own = owner) (rdRecords db) in
      db\<lparr>rdSnapshots := map (\<lambda>(own, st). if own = owner \<and> st = ''active'' then (own, ''invalidated'') else (own, st)) (rdSnapshots db),
         rdIdempotency := filter (\<lambda>(own, k). own \<noteq> owner) (rdIdempotency db),
         rdOwners := map (\<lambda>(own, row). if own = owner
           then (own, \<lparr>owEpoch = riRecovery i, owNext = sequence, owCount = length mine, owBytes = sum_list (map (\<lambda>(own, k, n). n) mine)\<rparr>)
           else (own, row)) (rdOwners db),
         rdAudit := rdAudit db @ [(owner, ''restore_recovery'', stringify (markerJson i))]\<rparr>)"

definition recoveryResult :: "recovery_input \<Rightarrow> bool \<Rightarrow> recovery_result" where
  "recoveryResult i replayed = \<lparr>rcId = riId i, rcOwner = riOwner i, rcEpoch = riRecovery i, rcDeleted = length (riDeletions i),
     rcReplayed = replayed\<rparr>"

definition recoverOwner :: "recovery_input \<Rightarrow> recovery_db \<Rightarrow> (recovery_result \<times> recovery_db) result" where
  "recoverOwner i db0 =
     (let owner = riOwner i; db = lockOwner owner db0 in
      case map_of (rdOwners db) owner of
        None \<Rightarrow> Inl (stateError ''restored owner state is missing'')
      | Some state \<Rightarrow>
        (case existingRecovery i db of
          Some existing \<Rightarrow>
            if field existing ''digest'' \<noteq> Str (digestOf i) \<or> field existing ''recoveryEpoch'' \<noteq> Str (riRecovery i)
            then Inl (stateError ''recoveryId was already used with a different bundle'')
            else if owEpoch state \<noteq> riRecovery i then Inl (stateError ''recovery marker and owner epoch disagree'')
            else Inr (recoveryResult i True, db)
        | None \<Rightarrow>
            if owEpoch state \<noteq> riRestored i then Inl (stateError ''restored owner epoch does not match the recovery bundle'')
            else if ownerSeqs owner db \<noteq> [] \<and> owNext state \<le> Max (set (ownerSeqs owner db))
            then Inl (stateError ''restored owner sequence allocator is inconsistent'')
            else if UINT64_MAX + 1 < owNext state + length (riDeletions i)
            then Inl (stateError ''recovery deletion sequence would exceed uint64'')
            else andThen (applyReceipts owner (riDeletions i) (owNext state) db) (\<lambda>(sequence, db1).
              Inr (recoveryResult i False, closeRecovery i sequence db1))))"

definition applyMysqlRestoreRecovery :: "(jsstr \<Rightarrow> int option) \<Rightarrow> jsval \<Rightarrow> recovery_db \<Rightarrow> recovery_result result \<times> recovery_db" where
  "applyMysqlRestoreRecovery dateParse bundle db =
     (case andThen (validateRestoreRecoveryBundle dateParse bundle) (\<lambda>i. recoverOwner i db) of
        Inl e \<Rightarrow> (Inl e, db)
      | Inr (r, db1) \<Rightarrow> (Inr r, db1))"

subsection \<open>What a recovery does\<close>

lemma applyReceipt_Inr:
  assumes "applyReceipt owner (key, dt) n db = Inr db1"
  shows "db1 = db\<lparr>rdRecords := filter (\<lambda>(own, k, b). \<not> (own = owner \<and> k = key)) (rdRecords db),
      rdChanges := rdChanges db @ [\<lparr>dcOwner = owner, dcSeq = n, dcKey = key, dcKind = ''delete'', dcDeletedAt = mysqlInstant dt\<rparr>],
      rdTombs := aset (owner, key) (mysqlInstant dt, n) (rdTombs db)\<rparr>"
  using assms by (auto simp: applyReceipt_def Let_def ownerSeqs_def split: if_splits)

definition receiptChanges :: "jsstr \<Rightarrow> nat \<Rightarrow> (jsstr \<times> jsstr) list \<Rightarrow> deletion_change list" where
  "receiptChanges owner n rs = map (\<lambda>(i, k, dt). \<lparr>dcOwner = owner, dcSeq = n + i, dcKey = k, dcKind = ''delete'', dcDeletedAt = mysqlInstant dt\<rparr>)
     (zip [0..<length rs] rs)"

lemma receiptChanges_Cons:
  "receiptChanges owner n ((k, dt) # rs) =
     \<lparr>dcOwner = owner, dcSeq = n, dcKey = k, dcKind = ''delete'', dcDeletedAt = mysqlInstant dt\<rparr> # receiptChanges owner (n + 1) rs"
proof -
  have "zip [0..<length ((k, dt) # rs)] ((k, dt) # rs) = (0, k, dt) # map (\<lambda>(i, r). (Suc i, r)) (zip [0..<length rs] rs)"
    by (simp add: upt_conv_Cons map_Suc_upt [symmetric] zip_map1 del: upt_Suc)
  then show ?thesis by (simp add: receiptChanges_def comp_def case_prod_unfold)
qed

text \<open>The receipts applied one after the other, in one step.\<close>

lemma applyReceipts_Inr:
  assumes "applyReceipts owner rs n db = Inr (m, db1)"
  shows "m = n + length rs \<and> rdRecords db1 = filter (\<lambda>(own, k, b). \<not> (own = owner \<and> k \<in> fst ` set rs)) (rdRecords db)
    \<and> rdChanges db1 = rdChanges db @ receiptChanges owner n rs
    \<and> (\<forall>key. key \<notin> (\<lambda>r. (owner, fst r)) ` set rs \<longrightarrow> map_of (rdTombs db1) key = map_of (rdTombs db) key)
    \<and> rdLocks db1 = rdLocks db \<and> rdOwners db1 = rdOwners db \<and> rdSnapshots db1 = rdSnapshots db
    \<and> rdIdempotency db1 = rdIdempotency db \<and> rdAudit db1 = rdAudit db"
  using assms
proof (induction rs arbitrary: n db)
  case Nil
  then show ?case by (simp add: receiptChanges_def case_prod_unfold)
next
  case (Cons r rs)
  obtain k dt where r: "r = (k, dt)" by (cases r)
  obtain db2 where db2: "applyReceipt owner (k, dt) n db = Inr db2" "applyReceipts owner rs (n + 1) db2 = Inr (m, db1)"
    using Cons.prems r by (auto simp: result_simps)
  show ?case
    using Cons.IH [OF db2(2)] unfolding applyReceipt_Inr [OF db2(1)] r receiptChanges_Cons
    by (auto simp: case_prod_unfold intro!: filter_cong)
qed

lemma applyReceipts_tombs:
  "applyReceipts owner rs n db = Inr (m, db1) \<Longrightarrow> distinct (map fst rs) \<Longrightarrow> i < length rs \<Longrightarrow>
   map_of (rdTombs db1) (owner, fst (rs ! i)) = Some (mysqlInstant (snd (rs ! i)), n + i)"
proof (induction rs arbitrary: n db i)
  case (Cons r rs)
  obtain k dt where r: "r = (k, dt)" by (cases r)
  obtain db2 where db2: "applyReceipt owner (k, dt) n db = Inr db2" "applyReceipts owner rs (n + 1) db2 = Inr (m, db1)"
    using Cons.prems r by (auto simp: result_simps)
  show ?case
  proof (cases i)
    case 0
    have "(owner, k) \<notin> (\<lambda>r. (owner, fst r)) ` set rs" using Cons.prems(2) r by auto
    then have "map_of (rdTombs db1) (owner, k) = map_of (rdTombs db2) (owner, k)" using applyReceipts_Inr [OF db2(2)] by blast
    then show ?thesis using applyReceipt_Inr [OF db2(1)] 0 r by simp
  next
    case (Suc j)
    then show ?thesis using Cons.IH [OF db2(2)] Cons.prems r by simp
  qed
qed simp

lemma validateReceipts_Cons:
  assumes "validateReceipts dateParse tb tc (v # vs) seen = Inr ds"
  shows "\<exists>k dt ds'. ds = (k, dt) # ds' \<and> k \<notin> set seen \<and> validateReceipts dateParse tb tc vs (k # seen) = Inr ds'"
proof (cases "isRecord v")
  case True
  obtain k where k: "field v ''recordKey'' = Str k" using assms True by (cases "field v ''recordKey''") simp_all
  have "isRecordKey (Str k)" "k \<notin> set seen" using assms True k by (auto split: if_splits)
  then obtain x where x: "canonicalInstant dateParse (field v ''deletedAt'') ''deletions.deletedAt'' = Inr x"
    "(case x of (dt, t) \<Rightarrow> if t < tb \<or> tc < t then Inl (manifestError ''deletions is outside receipt coverage'')
      else andThen (validateReceipts dateParse tb tc vs (k # seen)) (\<lambda>ds. Inr ((k, dt) # ds))) = Inr ds"
    using assms True k by (auto simp: andThen_eq_Inr)
  then show ?thesis using \<open>k \<notin> set seen\<close> by (cases x) (auto simp: andThen_eq_Inr split: if_splits)
qed (use assms in simp)

lemma validateReceipts_distinct:
  "validateReceipts dateParse tb tc vs seen = Inr ds \<Longrightarrow> distinct (map fst ds) \<and> set (map fst ds) \<inter> set seen = {}"
proof (induction vs arbitrary: seen ds)
  case (Cons v vs)
  obtain k dt ds' where d: "ds = (k, dt) # ds'" "k \<notin> set seen" "validateReceipts dateParse tb tc vs (k # seen) = Inr ds'"
    using validateReceipts_Cons [OF Cons.prems] by blast
  from Cons.IH [OF d(3)] show ?case using d(1,2) by auto
qed simp

lemma deletionsOf_distinct: "deletionsOf dateParse tb tc v = Inr ds \<Longrightarrow> distinct (map fst ds)"
  using validateReceipts_distinct [of dateParse tb tc _ "[]"] by (auto simp: deletionsOf_def split: jsval.splits)

lemma receiptCoverage_distinct: "receiptCoverage dateParse bundle = Inr (b, t, n, ds) \<Longrightarrow> distinct (map fst ds)"
proof -
  assume "receiptCoverage dateParse bundle = Inr (b, t, n, ds)"
  then have "\<exists>tb tc. deletionsOf dateParse tb tc (field bundle ''deletions'') = Inr ds"
    unfolding receiptCoverage_def by (clarsimp simp: andThen_eq_Inr require_eq_Inr) blast
  then show ?thesis using deletionsOf_distinct by blast
qed

lemma validated_distinct: "validateRestoreRecoveryBundle dateParse bundle = Inr i \<Longrightarrow>
  distinct (map fst (riDeletions i)) \<and> riRestored i \<noteq> riRecovery i"
proof -
  assume "validateRestoreRecoveryBundle dateParse bundle = Inr i"
  then obtain b t n ds restored recovery where x: "receiptCoverage dateParse bundle = Inr (b, t, n, ds)" "riDeletions i = ds"
      "riRestored i = restored" "riRecovery i = recovery" "restored \<noteq> recovery"
    unfolding validateRestoreRecoveryBundle_def by (clarsimp simp: andThen_eq_Inr require_eq_Inr)
  then show ?thesis using receiptCoverage_distinct [OF x(1)] by simp
qed

subsection \<open>Properties\<close>

lemma recoverOwner_fresh:
  assumes "recoverOwner i db = Inr (r, db2)" "\<not> rcReplayed r"
  shows "\<exists>state m db1. map_of (rdOwners db) (riOwner i) = Some state \<and> existingRecovery i (lockOwner (riOwner i) db) = None
    \<and> owEpoch state = riRestored i \<and> (\<forall>n \<in> set (ownerSeqs (riOwner i) db). n < owNext state)
    \<and> owNext state + length (riDeletions i) \<le> UINT64_MAX + 1
    \<and> applyReceipts (riOwner i) (riDeletions i) (owNext state) (lockOwner (riOwner i) db) = Inr (m, db1)
    \<and> r = recoveryResult i False \<and> db2 = closeRecovery i m db1"
proof -
  have l: "rdOwners (lockOwner w db) = rdOwners db" "ownerSeqs w (lockOwner v db) = ownerSeqs w db" for w v
    by (simp_all add: lockOwner_def ownerSeqs_def)
  have mx: "ns \<noteq> [] \<and> k \<le> Max (set ns) \<longleftrightarrow> (\<exists>n \<in> set ns. k \<le> n)" for ns and k :: nat
    by (cases "ns = []") (auto simp: Max_ge_iff)
  obtain state where state: "map_of (rdOwners db) (riOwner i) = Some state"
    using assms(1) by (cases "map_of (rdOwners db) (riOwner i)") (simp_all add: recoverOwner_def Let_def l)
  have none: "existingRecovery i (lockOwner (riOwner i) db) = None"
  proof (rule ccontr)
    assume "existingRecovery i (lockOwner (riOwner i) db) \<noteq> None"
    then show False using assms state by (auto simp: recoverOwner_def Let_def l recoveryResult_def split: if_splits)
  qed
  have "andThen (applyReceipts (riOwner i) (riDeletions i) (owNext state) (lockOwner (riOwner i) db)) (\<lambda>(sequence, db1).
      Inr (recoveryResult i False, closeRecovery i sequence db1)) = Inr (r, db2)"
    and guards: "owEpoch state = riRestored i" "\<forall>n \<in> set (ownerSeqs (riOwner i) db). n < owNext state"
      "owNext state + length (riDeletions i) \<le> UINT64_MAX + 1"
    using assms(1) state none by (simp_all add: recoverOwner_def Let_def l mx not_le not_less split: if_splits)
  then show ?thesis using state none by (auto simp: andThen_eq_Inr)
qed

text \<open>Rows of other owners.\<close>

definition foreignRows :: "jsstr \<Rightarrow> recovery_db \<Rightarrow> recovery_db" where
  "foreignRows owner db = \<lparr>rdLocks = filter (\<lambda>w. w \<noteq> owner) (rdLocks db), rdOwners = filter (\<lambda>r. fst r \<noteq> owner) (rdOwners db),
     rdRecords = filter (\<lambda>r. fst r \<noteq> owner) (rdRecords db), rdChanges = filter (\<lambda>c. dcOwner c \<noteq> owner) (rdChanges db),
     rdTombs = filter (\<lambda>t. fst (fst t) \<noteq> owner) (rdTombs db), rdSnapshots = filter (\<lambda>r. fst r \<noteq> owner) (rdSnapshots db),
     rdIdempotency = filter (\<lambda>r. fst r \<noteq> owner) (rdIdempotency db), rdAudit = filter (\<lambda>r. fst r \<noteq> owner) (rdAudit db)\<rparr>"

lemma filter_aset: "\<not> P (fst (k, v)) \<Longrightarrow> filter (\<lambda>t. P (fst t)) (aset k v m) = filter (\<lambda>t. P (fst t)) m"
  by (induction k v m rule: aset.induct) auto

lemma filter_map_if: "filter (\<lambda>r. fst r \<noteq> w) (map (\<lambda>(k, v). if k = w \<and> P v then (k, x) else (k, v)) m) = filter (\<lambda>r. fst r \<noteq> w) m"
  by (induction m) (auto split: if_splits)

lemma applyReceipts_foreign: "applyReceipts owner rs n db = Inr (m, db1) \<Longrightarrow> foreignRows owner db1 = foreignRows owner db"
proof (induction rs arbitrary: n db)
  case (Cons r rs)
  obtain k dt where r: "r = (k, dt)" by (cases r)
  obtain db2 where db2: "applyReceipt owner (k, dt) n db = Inr db2" "applyReceipts owner rs (n + 1) db2 = Inr (m, db1)"
    using Cons.prems r by (auto simp: result_simps)
  have "foreignRows owner db2 = foreignRows owner db"
  proof -
    have "filter (\<lambda>t. fst (fst t) \<noteq> owner) (aset (owner, k) v rows) = filter (\<lambda>t. fst (fst t) \<noteq> owner) rows" for v rows
      by (rule filter_aset [of "\<lambda>w. fst w \<noteq> owner"]) simp
    moreover have "filter (\<lambda>r. fst r \<noteq> owner) (filter (\<lambda>(own, k', b). \<not> (own = owner \<and> k' = k)) rows)
        = filter (\<lambda>r. fst r \<noteq> owner) rows" for rows :: "(jsstr \<times> jsstr \<times> nat) list"
      by (auto simp: case_prod_unfold intro!: filter_cong)
    ultimately show ?thesis unfolding applyReceipt_Inr [OF db2(1)] by (simp add: foreignRows_def del: filter_filter)
  qed
  then show ?case using Cons.IH [OF db2(2)] by simp
qed simp

lemma closeRecovery_foreign: "foreignRows (riOwner i) (closeRecovery i n db) = foreignRows (riOwner i) db"
  using filter_map_if [of "riOwner i" "\<lambda>v. True"] filter_map_if [of "riOwner i" "\<lambda>v. v = ''active''"]
  by (simp add: foreignRows_def closeRecovery_def Let_def case_prod_unfold)

lemma lockOwner_foreign: "foreignRows w (lockOwner w db) = foreignRows w db"
  by (simp add: foreignRows_def lockOwner_def)

lemma map_of_replace: "map_of m w = Some y \<Longrightarrow> map_of (map (\<lambda>(k, v). if k = w then (k, x) else (k, v)) m) w = Some x"
  by (induction m) (auto split: if_splits)

lemma receiptChanges_nth: "i < length rs \<Longrightarrow> \<lparr>dcOwner = owner, dcSeq = n + i, dcKey = fst (rs ! i), dcKind = ''delete'',
    dcDeletedAt = mysqlInstant (snd (rs ! i))\<rparr> \<in> set (receiptChanges owner n rs)"
proof -
  assume i: "i < length rs"
  then have "(i, rs ! i) \<in> set (zip [0..<length rs] rs)" by (auto simp: set_zip intro!: exI [of _ i])
  then have "(\<lambda>(i, k, dt). \<lparr>dcOwner = owner, dcSeq = n + i, dcKey = k, dcKind = ''delete'', dcDeletedAt = mysqlInstant dt\<rparr>) (i, rs ! i)
      \<in> (\<lambda>(i, k, dt). \<lparr>dcOwner = owner, dcSeq = n + i, dcKey = k, dcKind = ''delete'', dcDeletedAt = mysqlInstant dt\<rparr>)
        ` set (zip [0..<length rs] rs)" by (rule imageI)
  then show ?thesis by (simp add: receiptChanges_def case_prod_unfold)
qed

text \<open>C13: A recovery fences the restored owner: after it, no record of a receipted deletion is left, each has
  a tombstone and a delete event with the receipt's time and one fresh sequence above every one the
  image held; the owner is in the new epoch with counters that count its remaining records; nothing
  of it is in an active snapshot or remembered for idempotency; all other records are untouched and
  so is every row of every other owner.\<close>

theorem restore_keeps_deletions:
  assumes "applyMysqlRestoreRecovery dateParse bundle db = (Inr r, db')" "\<not> rcReplayed r"
  shows "\<exists>i state. validateRestoreRecoveryBundle dateParse bundle = Inr i \<and> map_of (rdOwners db) (riOwner i) = Some state
    \<and> owEpoch state \<noteq> riRecovery i
    \<and> (\<forall>(k, dt) \<in> set (riDeletions i). (\<exists>n. map_of (rdTombs db') (riOwner i, k) = Some (mysqlInstant dt, n)
        \<and> \<lparr>dcOwner = riOwner i, dcSeq = n, dcKey = k, dcKind = ''delete'', dcDeletedAt = mysqlInstant dt\<rparr> \<in> set (rdChanges db')
        \<and> (\<forall>m \<in> set (ownerSeqs (riOwner i) db). m < n)))
    \<and> rdRecords db' = filter (\<lambda>(own, k, b). \<not> (own = riOwner i \<and> k \<in> fst ` set (riDeletions i))) (rdRecords db)
    \<and> map_of (rdOwners db') (riOwner i) = Some \<lparr>owEpoch = riRecovery i, owNext = owNext state + length (riDeletions i),
        owCount = length (filter (\<lambda>(own, k, b). own = riOwner i) (rdRecords db')),
        owBytes = sum_list (map (\<lambda>(own, k, b). b) (filter (\<lambda>(own, k, b). own = riOwner i) (rdRecords db')))\<rparr>
    \<and> (riOwner i, ''active'') \<notin> set (rdSnapshots db') \<and> riOwner i \<notin> fst ` set (rdIdempotency db')
    \<and> foreignRows (riOwner i) db' = foreignRows (riOwner i) db"
proof -
  obtain i where i: "validateRestoreRecoveryBundle dateParse bundle = Inr i" "recoverOwner i db = Inr (r, db')"
    using assms(1) by (auto simp: applyMysqlRestoreRecovery_def andThen_def split: sum.splits)
  let ?w = "riOwner i" and ?l = "lockOwner (riOwner i) db"
  obtain state m db1 where f: "map_of (rdOwners db) ?w = Some state" "owEpoch state = riRestored i"
      "\<forall>n \<in> set (ownerSeqs ?w db). n < owNext state" "applyReceipts ?w (riDeletions i) (owNext state) ?l = Inr (m, db1)"
      "db' = closeRecovery i m db1"
    using recoverOwner_fresh [OF i(2) assms(2)] by blast
  note d = validated_distinct [OF i(1)]
  have l: "rdRecords ?l = rdRecords db" "rdOwners ?l = rdOwners db" by (simp_all add: lockOwner_def)
  note a = applyReceipts_Inr [OF f(4)]
  have rows: "rdRecords db' = rdRecords db1" "rdTombs db' = rdTombs db1" "rdChanges db' = rdChanges db1"
    "(?w, ''active'') \<notin> set (rdSnapshots db')" "?w \<notin> fst ` set (rdIdempotency db')"
    unfolding f(5) closeRecovery_def Let_def by (auto split: if_splits)
  have tomb: "\<exists>n. map_of (rdTombs db') (?w, k) = Some (mysqlInstant dt, n)
      \<and> \<lparr>dcOwner = ?w, dcSeq = n, dcKey = k, dcKind = ''delete'', dcDeletedAt = mysqlInstant dt\<rparr> \<in> set (rdChanges db')
      \<and> (\<forall>m \<in> set (ownerSeqs ?w db). m < n)" if "(k, dt) \<in> set (riDeletions i)" for k dt
  proof -
    note mem = that
    obtain j where j: "j < length (riDeletions i)" "riDeletions i ! j = (k, dt)" using mem unfolding in_set_conv_nth by blast
    have "map_of (rdTombs db') (?w, k) = Some (mysqlInstant dt, owNext state + j)"
      using applyReceipts_tombs [OF f(4) _ j(1)] d j(2) rows by simp
    moreover have "\<lparr>dcOwner = ?w, dcSeq = owNext state + j, dcKey = k, dcKind = ''delete'', dcDeletedAt = mysqlInstant dt\<rparr> \<in> set (rdChanges db')"
      using receiptChanges_nth [OF j(1), of ?w "owNext state"] a rows j(2) by simp
    ultimately show ?thesis using f(3) by (metis trans_less_add1)
  qed
  have own: "map_of (rdOwners db') ?w = Some \<lparr>owEpoch = riRecovery i, owNext = owNext state + length (riDeletions i),
        owCount = length (filter (\<lambda>(own, k, b). own = ?w) (rdRecords db')),
        owBytes = sum_list (map (\<lambda>(own, k, b). b) (filter (\<lambda>(own, k, b). own = ?w) (rdRecords db')))\<rparr>"
    using map_of_replace [OF f(1)] a unfolding rows(1) f(5) closeRecovery_def Let_def by (simp add: l)
  have others: "foreignRows ?w db' = foreignRows ?w db"
    unfolding f(5) closeRecovery_foreign applyReceipts_foreign [OF f(4)] by (rule lockOwner_foreign)
  have recs: "rdRecords db' = filter (\<lambda>(own, k, b). \<not> (own = ?w \<and> k \<in> fst ` set (riDeletions i))) (rdRecords db)"
    using a rows(1) l(1) by simp
  have ne: "owEpoch state \<noteq> riRecovery i" using d f(2) by simp
  have tombs: "\<forall>(k, dt) \<in> set (riDeletions i). (\<exists>n. map_of (rdTombs db') (?w, k) = Some (mysqlInstant dt, n)
        \<and> \<lparr>dcOwner = ?w, dcSeq = n, dcKey = k, dcKind = ''delete'', dcDeletedAt = mysqlInstant dt\<rparr> \<in> set (rdChanges db')
        \<and> (\<forall>m \<in> set (ownerSeqs ?w db). m < n))"
    using tomb by blast
  show ?thesis by (intro exI [of _ i] exI [of _ state] conjI; fact)
qed

lemma find_append: "find P (xs @ ys) = (case find P xs of None \<Rightarrow> find P ys | Some x \<Rightarrow> Some x)"
  by (induction xs) auto

lemma marker_field: "jsonParse (stringify (markerJson i)) = Some (ofJson (markerJson i))"
  by (rule jsonParse_stringify) (simp add: markerJson_def js_def)

text \<open>C36: A recovery may be run again: applying the same bundle to the state it left reports a replay with the
  same result and changes nothing more, so an operator may retry after losing the answer.\<close>

theorem restore_idempotent:
  assumes "applyMysqlRestoreRecovery dateParse bundle db = (Inr r, db')"
  shows "applyMysqlRestoreRecovery dateParse bundle db' = (Inr (r\<lparr>rcReplayed := True\<rparr>), db')"
proof -
  obtain i where i: "validateRestoreRecoveryBundle dateParse bundle = Inr i" "recoverOwner i db = Inr (r, db')"
    using assms by (auto simp: applyMysqlRestoreRecovery_def andThen_def split: sum.splits)
  let ?w = "riOwner i"
  have "recoverOwner i db' = Inr (r\<lparr>rcReplayed := True\<rparr>, db')"
  proof (cases "rcReplayed r")
    case False
    obtain state m db1 where f: "map_of (rdOwners db) ?w = Some state" "existingRecovery i (lockOwner ?w db) = None"
        "applyReceipts ?w (riDeletions i) (owNext state) (lockOwner ?w db) = Inr (m, db1)" "db' = closeRecovery i m db1"
        "r = recoveryResult i False"
      using recoverOwner_fresh [OF i(2) False] by blast
    have kept: "rdLocks db1 = rdLocks (lockOwner ?w db)" "rdOwners db1 = rdOwners db" "rdAudit db1 = rdAudit (lockOwner ?w db)"
      using applyReceipts_Inr [OF f(3)] by (simp_all add: lockOwner_def)
    have lock: "lockOwner ?w db' = db'" using kept(1) unfolding f(4) by (auto simp: closeRecovery_def Let_def lockOwner_def)
    have own: "\<exists>row. map_of (rdOwners db') ?w = Some row \<and> owEpoch row = riRecovery i"
      using map_of_replace [OF f(1)] unfolding f(4) closeRecovery_def Let_def kept by auto
    have "existingRecovery i db' = Some (ofJson (markerJson i))"
      using f(2) unfolding f(4) existingRecovery_def closeRecovery_def Let_def kept
      by (simp add: find_append marker_field) (simp add: markerJson_def field_def getProp_def js_def)
    moreover have "field (ofJson (markerJson i)) ''digest'' = Str (digestOf i)" "field (ofJson (markerJson i)) ''recoveryEpoch'' = Str (riRecovery i)"
      by (simp_all add: markerJson_def field_def getProp_def js_def)
    ultimately show ?thesis using own lock f(5) by (auto simp: recoverOwner_def Let_def recoveryResult_def)
  next
    case True
    have d: "db' = lockOwner ?w db" "r = recoveryResult i True"
      using True i(2) by (auto simp: recoverOwner_def Let_def andThen_eq_Inr recoveryResult_def split: option.splits if_splits)
    have l: "lockOwner ?w (lockOwner ?w db) = lockOwner ?w db" "rdOwners (lockOwner ?w db) = rdOwners db" by (simp_all add: lockOwner_def)
    have "recoverOwner i (lockOwner ?w db) = recoverOwner i db"
      unfolding recoverOwner_def Let_def l ..
    then show ?thesis using i(2) d by (simp add: recoveryResult_def)
  qed
  then show ?thesis using i(1) by (simp add: applyMysqlRestoreRecovery_def)
qed

subsection \<open>A recovery evaluated\<close>

definition yearOf :: "jsstr \<Rightarrow> int option" where
  "yearOf s = Some (int (natOfDec (take 4 s)))"

definition deletedKey :: jsstr where
  "deletedKey = replicate 64 0x61"

definition sampleBundle :: jsval where
  "sampleBundle = Obj [(js ''version'', IntNum 1), (js ''recoveryId'', Str (js ''r1'')), (js ''owner'', Str m0Owner),
     (js ''restoredEpoch'', Str (js ''gen-1'')), (js ''recoveryEpoch'', Str (js ''gen-2'')), (js ''deletionReceiptsComplete'', Boolean True),
     (js ''backupCreatedAt'', Str (js ''2026-01-01T00:00:00Z'')), (js ''receiptsCompleteThrough'', Str (js ''2027-01-01T00:00:00Z'')),
     (js ''backupRetentionUntil'', Str (js ''2028-01-01T00:00:00Z'')),
     (js ''deletions'', Arr [Obj [(js ''recordKey'', Str deletedKey), (js ''deletedAt'', Str (js ''2026-05-01T00:00:00Z''))]])]"

definition sampleInput :: recovery_input where
  "sampleInput = \<lparr>riId = js ''r1'', riOwner = m0Owner, riRestored = js ''gen-1'', riRecovery = js ''gen-2'',
     riBackup = js ''2026-01-01T00:00:00Z'', riThrough = js ''2027-01-01T00:00:00Z'', riRetention = js ''2028-01-01T00:00:00Z'',
     riDeletions = [(deletedKey, js ''2026-05-01T00:00:00Z'')]\<rparr>"

definition sampleDb :: recovery_db where
  "sampleDb = \<lparr>rdLocks = [], rdOwners = [(m0Owner, \<lparr>owEpoch = js ''gen-1'', owNext = 2, owCount = 1, owBytes = 10\<rparr>)],
     rdRecords = [(m0Owner, deletedKey, 10)],
     rdChanges = [\<lparr>dcOwner = m0Owner, dcSeq = 1, dcKey = deletedKey, dcKind = ''upsert'', dcDeletedAt = []\<rparr>],
     rdTombs = [], rdSnapshots = [], rdIdempotency = [], rdAudit = []\<rparr>"

lemma sample_validates: "validateRestoreRecoveryBundle yearOf sampleBundle = Inr sampleInput"
  by code_simp

lemma sample_recovers: "\<exists>db'. applyMysqlRestoreRecovery yearOf sampleBundle sampleDb = (Inr (recoveryResult sampleInput False), db')"
proof -
  have "\<exists>db'. recoverOwner sampleInput sampleDb = Inr (recoveryResult sampleInput False, db')"
    by (auto simp: recoverOwner_def sampleInput_def sampleDb_def lockOwner_def existingRecovery_def ownerSeqs_def UINT64_MAX_def
        applyReceipt_def Let_def)
  then show ?thesis by (auto simp: applyMysqlRestoreRecovery_def sample_validates)
qed

theorem restore_keeps_deletions_witness:
  "\<exists>db' :: recovery_db. rdRecords db' = [] \<and> (\<exists>n. map_of (rdTombs db') (m0Owner, deletedKey) = Some (mysqlInstant (js ''2026-05-01T00:00:00Z''), n) \<and> 1 < n)"
proof -
  obtain db' where run: "applyMysqlRestoreRecovery yearOf sampleBundle sampleDb = (Inr (recoveryResult sampleInput False), db')"
    using sample_recovers by blast
  have "\<not> rcReplayed (recoveryResult sampleInput False)" by (simp add: recoveryResult_def)
  from restore_keeps_deletions [OF run this]
  have "rdRecords db' = [] \<and> (\<exists>n. map_of (rdTombs db') (m0Owner, deletedKey) = Some (mysqlInstant (js ''2026-05-01T00:00:00Z''), n) \<and> 1 < n)"
    by (auto simp: sample_validates) (auto simp: sampleInput_def sampleDb_def ownerSeqs_def)
  then show ?thesis by blast
qed

theorem restore_idempotent_witness:
  "\<exists>db'. applyMysqlRestoreRecovery yearOf sampleBundle db' = (Inr (recoveryResult sampleInput True), db')"
proof -
  obtain db' where run: "applyMysqlRestoreRecovery yearOf sampleBundle sampleDb = (Inr (recoveryResult sampleInput False), db')"
    using sample_recovers by blast
  from restore_idempotent [OF run] show ?thesis by (auto simp: recoveryResult_def)
qed

end
