(* ===== verification/Spec2Isabelle.thy ===== *)
theory Spec2Isabelle
  imports StoreRefines Lifecycle Worker Interop Outbound Inbound Restore
begin

text \<open>
  A verification of the message box store, the service and the client library under \<open>src/\<close> that keep
  a user's message history.

  \<^bold>\<open>The program.\<close> A client (\<open>client.ts\<close>) archives encrypted messages with a history service
  (\<open>service.ts\<close>), which authenticates the request, checks its input, and calls a repository. A
  repository adapter (\<open>repository.mjs\<close> in memory, \<open>repository.sqlite.mjs\<close>, \<open>repository.mysql.mjs\<close>) keeps
  per owner the records by record key, the keys that were deleted, a log of changes with a sequence
  per owner, snapshots, and idempotent results; what the adapters share is in
  \<open>repository-contract.mjs\<close>, \<open>feeds.mjs\<close> and \<open>snapshots.mjs\<close>. A replica (\<open>replica.ts\<close>) follows the
  changes feed, driven by a polling worker (\<open>worker.ts\<close>). Messages reach the history from an inbox
  (\<open>inbound.ts\<close>) or as they are sent (\<open>outbound-runtime.js\<close>), over a transport that never pays
  (\<open>free-only-transport.mjs\<close>), in envelopes made by \<open>envelope-runtime.js\<close>. After a database was
  restored from a backup, \<open>restore-recovery.mjs\<close> applies the deletions the backup does not know.

  \<^bold>\<open>The theories\<close>, in the order of the program's layers. Each opens with what it models.

  \<^item> \<open>Prelude\<close>, \<open>JsString\<close>, \<open>JsValue\<close>, \<open>JsConvert\<close>, \<open>Json\<close>, \<open>Base64\<close>, \<open>Sha256\<close>: the language and its library
    as the code uses it. Errors are a sum type (\<open>result\<close>), strings are lists of 16-bit code units,
    numbers are doubles with their exact rational values, \<open>JSON\<close> is printed and parsed.
  \<^item> \<open>Canonical\<close>, \<open>Validators\<close>, \<open>Cursor\<close>, \<open>Protocol\<close> (\<open>canonical.js\<close>, \<open>protocol.mjs\<close>): record keys, body hashes,
    field rules, signed cursors, page and record checks.
  \<^item> \<open>Contract\<close>, \<open>Snapshots\<close>, \<open>Feeds\<close> (\<open>repository-contract.mjs\<close>, \<open>snapshots.mjs\<close>, \<open>feeds.mjs\<close>): the outcome of an
    archived record, admission to the quota, idempotency, retention, pages that fit a byte budget.
  \<^item> \<open>MemoryStore\<close>, \<open>MemoryReads\<close> (\<open>repository.mjs\<close>): every operation of the memory repository. Its maps are
    association lists in a record \<open>store\<close>; an operation maps a store to a result and a store.
    \<open>StoreInv\<close>, \<open>StoreSteps\<close>, \<open>StoreOps\<close>, \<open>StoreReach\<close>: its invariant \<open>storeInv\<close>, the step relation \<open>storeStep\<close>
    over all calls and the reachable stores. \<open>Wire\<close>: the second invariant \<open>wireInv\<close>, of the texts a
    store hands out. \<open>ArchiveProps\<close>: batches. \<open>StoreFixture\<close>: a concrete store for the witnesses.
  \<^item> \<open>History\<close>: the abstract history, its steps, and the locale \<open>history_repository\<close>, the contract of an
    adapter with its consequences; \<open>StoreRefines\<close> interprets it on the memory repository.
    \<open>StoreIsolation\<close>: what the store holds of one owner (\<open>ownerPart\<close>), untouched by the others' operations.
  \<^item> \<open>Admission\<close>, \<open>NetAddress\<close>, \<open>ServiceInput\<close>, \<open>Guards\<close>, \<open>Cleanup\<close>, \<open>ServiceApp\<close>, \<open>ServiceRun\<close>, \<open>Config\<close>, \<open>Lifecycle\<close>
    (\<open>service.ts\<close>): rate limits, client addresses behind proxies, request validation, replay and
    drain guards, the cleanup scheduler, the middleware chain with every protected route, the
    running application, its configuration, its start and shutdown.
  \<^item> \<open>Replica\<close>, \<open>Worker\<close> (\<open>replica.ts\<close>, \<open>replica-store.ts\<close>, \<open>worker.ts\<close>): the synchronisation of a local copy, and
    the single-flight polling loop as a step relation over timers, calls and callbacks.
  \<^item> \<open>Calls\<close>, \<open>Transport\<close>, \<open>Envelope\<close>, \<open>Outbound\<close>, \<open>Runs\<close>, \<open>Inbound\<close>, \<open>Client\<close> (\<open>free-only-transport.mjs\<close>,
    \<open>envelope-runtime.js\<close>, \<open>outbound-runtime.js\<close>, \<open>inbound.ts\<close>, \<open>client.ts\<close>): the client side. A program that
    calls wallets, SDKs and services is a function of the history of its calls; the answers are
    parameters, so a theorem over them holds for every behaviour of those parties.
  \<^item> \<open>Interop\<close>: the client's checks against the service's answers.
  \<^item> \<open>Restore\<close> (\<open>restore-recovery.mjs\<close>): the recovery transaction over the rows it reads and writes.

  \<^bold>\<open>What is shown.\<close> The adapter refines the abstract history, so deletion wins, content never changes
  and sequences never repeat; batches commit whole or not at all and replays store nothing; the
  service mixes no owners, leaks nothing in errors, keeps its memory bounded and shuts down in
  order; client and service agree on every answer; the client never pays and never sends outside its
  origin; a message is sent once and acknowledged only when archived; a replica converges without
  staged leftovers; a restored database forgets no deletion. Where the code does otherwise, the
  theorem states what it does and the manifest names the finding: a close that overtakes a start leaks
  the server (\<open>Lifecycle\<close>), one invalid message ends a whole inbound pass (\<open>Inbound\<close>), an unprintable value
  in an answer escapes the client's error mapping (\<open>Client\<close>).

  \<^bold>\<open>Bounds and fuel.\<close> \<open>parseV\<close> recurses with fuel twice the length of the text plus one (\<open>parseV_enough\<close>);
  \<open>removeLoop\<close> and the purge loops take the number of their victims; the loops of \<open>syncPending\<close> and
  \<open>syncHistory\<close> count down the page budgets the code itself checks. Everything else is structural.

  \<^bold>\<open>Parameters.\<close> Express and its router, the authentication middleware, \<open>Date.parse\<close>, \<open>URL\<close>, random ids,
  clocks, wallets, the BSV SDK and MySQL are outside \<open>src/\<close> or outside the language: they are arguments
  of the definitions that use them. No assumption is made of them unless a theorem states it.

  \<^bold>\<open>Not modelled.\<close> The SQLite adapter (\<open>repository.sqlite.mjs\<close>) and the MySQL adapter
  (\<open>repository.mysql.mjs\<close>): the same contract written as SQL statements and Knex queries, with
  transactions, row locks and isolation that belong to the database; the SQL adapters' migrations
  (\<open>migrations.mjs\<close>: DDL texts and their checksums), process start (\<open>server.ts\<close>), the command line
  scripts under \<open>scripts/\<close>, the fixtures \<open>m0-*.mjs\<close>, typings, re-exports and build files. They are
  glue, input and output, or text for another engine. Logging and timing of promises are left out;
  every ordering of callbacks the model allows is covered by its step relations.
\<close>

end
